(* ===== verification/Prelude.thy ===== *)
theory Prelude
  imports Main "HOL-Library.Word" "HOL-Library.AList"
begin

section \<open>Shared types, containers and automation\<close>

text \<open>
  What every component of the development uses: names for the machine integers and byte
  strings of the program, Rust's \<^verbatim>\<open>Result\<close> and \<^verbatim>\<open>Poll\<close>, the gRPC status, the two
  standard containers (\<^verbatim>\<open>HashMap\<close> as an association list, \<^verbatim>\<open>BTreeMap\<close> as an association
  list in key order), and two interfaces proved once: ordered maps, and logs of events of
  which each overwrites one key.

  A Rust string is UTF-8, and a \<open>char\<close> here is one byte of it. A \<^verbatim>\<open>HashMap\<close> iterates in an
  unspecified order; the list order is one such order, and no lemma depends on it.
\<close>

named_theorems inv_intros "preservation of the component invariants"
named_theorems frame_simps "fields an operation does not touch"

type_synonym u8 = "8 word"
type_synonym u16 = "16 word"
type_synonym u32 = "32 word"
type_synonym u64 = "64 word"
type_synonym i64 = "64 word"
type_synonym bytes = "u8 list"

subsection \<open>Results, polls and gRPC statuses\<close>

type_synonym ('e, 'a) result = "'e + 'a"

abbreviation Ok :: "'a \<Rightarrow> ('e, 'a) result" where "Ok \<equiv> Inr"
abbreviation Err :: "'e \<Rightarrow> ('e, 'a) result" where "Err \<equiv> Inl"

definition result_bind :: "('e, 'a) result \<Rightarrow> ('a \<Rightarrow> ('e, 'b) result) \<Rightarrow> ('e, 'b) result" where
  "result_bind r f = (case r of Err e \<Rightarrow> Err e | Ok a \<Rightarrow> f a)"

definition map_err :: "('e \<Rightarrow> 'f) \<Rightarrow> ('e, 'a) result \<Rightarrow> ('f, 'a) result" where
  "map_err f r = (case r of Err e \<Rightarrow> Err (f e) | Ok a \<Rightarrow> Ok a)"

definition ok_or :: "'e \<Rightarrow> 'a option \<Rightarrow> ('e, 'a) result" where
  "ok_or e x = (case x of None \<Rightarrow> Err e | Some a \<Rightarrow> Ok a)"

definition is_ok :: "('e, 'a) result \<Rightarrow> bool" where
  "is_ok r = (case r of Err e \<Rightarrow> False | Ok a \<Rightarrow> True)"

lemma result_simps [simp]:
  "result_bind (Err e) f = Err e" "result_bind (Ok a) f = f a"
  "map_err h (Err d) = Err (h d)" "map_err h (Ok a) = Ok a"
  "ok_or e None = Err e" "ok_or e (Some a) = Ok a"
  "\<not> is_ok (Err e)" "is_ok (Ok a)"
  by (simp_all add: result_bind_def map_err_def ok_or_def is_ok_def)

datatype 'a poll = Ready 'a | Pending

text \<open>A call that may panic.\<close>

datatype 'a outcome = Done 'a | Panicked

text \<open>The operator \<^verbatim>\<open>?\<close> between calls that change a state, and in a \<^verbatim>\<open>for\<close> loop.\<close>

definition try_then ::
  "('w \<Rightarrow> ('e, 'a) result \<times> 'w) \<Rightarrow> ('w \<Rightarrow> ('e, 'b) result \<times> 'w) \<Rightarrow> 'w \<Rightarrow> ('e, 'b) result \<times> 'w" where
  "try_then f g w = (case f w of (Err e, w1) \<Rightarrow> (Err e, w1) | (Ok _, w1) \<Rightarrow> g w1)"

fun try_each :: "('a \<Rightarrow> 'w \<Rightarrow> ('e, unit) result \<times> 'w) \<Rightarrow> 'a list \<Rightarrow> 'w \<Rightarrow> ('e, unit) result \<times> 'w" where
  "try_each f [] w = (Ok (), w)"
| "try_each f (x # xs) w = (case f x w of (Err e, w1) \<Rightarrow> (Err e, w1) | (Ok _, w1) \<Rightarrow> try_each f xs w1)"

text \<open>A sequence of steps, up to the first that panics.\<close>

fun run_steps :: "('x \<Rightarrow> 's \<Rightarrow> 's outcome) \<Rightarrow> 'x list \<Rightarrow> 's \<Rightarrow> 's outcome" where
  "run_steps step [] s = Done s"
| "run_steps step (x # xs) s =
     (case step x s of Panicked \<Rightarrow> Panicked | Done s1 \<Rightarrow> run_steps step xs s1)"

text \<open>The codes of \<^verbatim>\<open>tonic::Code\<close> the program names; a status is a code and a message.\<close>

datatype code =
    InvalidArgument | NotFound | FailedPrecondition | Aborted | OutOfRange
  | Unimplemented | Internal | Unavailable | OtherCode

datatype status = Status (status_code: code) (status_msg: string)

subsection \<open>BTreeMap: association lists in key order\<close>

fun bt_insert :: "'k::linorder \<Rightarrow> 'v \<Rightarrow> ('k \<times> 'v) list \<Rightarrow> ('k \<times> 'v) list" where
  "bt_insert k v [] = [(k, v)]"
| "bt_insert k v ((k', v') # m) =
     (if k < k' then (k, v) # (k', v') # m
      else if k = k' then (k, v) # m
      else (k', v') # bt_insert k v m)"

definition bt_remove :: "'k \<Rightarrow> ('k \<times> 'v) list \<Rightarrow> ('k \<times> 'v) list" where
  "bt_remove k m = filter (\<lambda>p. fst p \<noteq> k) m"

definition bt_inv :: "('k::linorder \<times> 'v) list \<Rightarrow> bool" where
  "bt_inv m = sorted_wrt (<) (map fst m)"

lemma map_of_bt_insert [simp]: "map_of (bt_insert k v m) = (map_of m)(k \<mapsto> v)"
  by (induction m rule: bt_insert.induct) (auto simp: fun_eq_iff)

lemma map_of_bt_remove [simp]: "map_of (bt_remove k m) = (map_of m)(k := None)"
  by (induction m) (auto simp: bt_remove_def fun_eq_iff)

lemma keys_bt_insert: "fst ` set (bt_insert k v m) = insert k (fst ` set m)"
  by (induction m rule: bt_insert.induct) auto

lemma keys_bt_remove: "fst ` set (bt_remove k m) \<subseteq> fst ` set m"
  by (auto simp: bt_remove_def)

lemma bt_inv_Nil [simp]: "bt_inv []"
  by (simp add: bt_inv_def)

lemma bt_inv_insert [inv_intros]: "bt_inv m \<Longrightarrow> bt_inv (bt_insert k v m)"
proof (induction k v m rule: bt_insert.induct)
  case (1 k v)
  then show ?case by (simp add: bt_inv_def)
next
  case (2 k v k' v' m)
  then show ?case
    using keys_bt_insert [of k v m] by (auto simp: bt_inv_def)
qed

lemma bt_inv_remove [inv_intros]: "bt_inv m \<Longrightarrow> bt_inv (bt_remove k m)"
  unfolding bt_inv_def bt_remove_def by (induction m) auto

lemma bt_inv_distinct: "bt_inv m \<Longrightarrow> distinct (map fst m)"
  unfolding bt_inv_def by (simp add: strict_sorted_iff)

text \<open>An insertion at a key above all others goes to the end.\<close>

lemma bt_insert_last: "\<forall>k' \<in> fst ` set m. k' < k \<Longrightarrow> bt_insert k v m = m @ [(k, v)]"
  by (induction k v m rule: bt_insert.induct) auto

subsection \<open>The interface of an ordered map, and its least match\<close>

locale ordered_map =
  fixes entries :: "'m \<Rightarrow> ('k::linorder \<times> 'v) list"
    and look :: "'m \<Rightarrow> 'k \<Rightarrow> 'v option"
    and invar :: "'m \<Rightarrow> bool"
  assumes entries_sorted: "invar m \<Longrightarrow> sorted_wrt (<) (map fst (entries m))"
    and look_entries: "invar m \<Longrightarrow> look m = map_of (entries m)"
begin

lemma entries_iff: "invar m \<Longrightarrow> (k, v) \<in> set (entries m) \<longleftrightarrow> look m k = Some v"
  using entries_sorted [of m] by (simp add: look_entries strict_sorted_iff)

lemma find_least:
  assumes "invar m" and found: "List.find P (entries m) = Some (k, v)"
  shows "look m k = Some v \<and> P (k, v) \<and> (\<forall>k' v'. look m k' = Some v' \<and> P (k', v') \<longrightarrow> k \<le> k')"
proof -
  from found obtain i where i: "i < length (entries m)" "entries m ! i = (k, v)" "P (k, v)"
    and before: "\<And>j. j < i \<Longrightarrow> \<not> P (entries m ! j)"
    by (auto simp: find_Some_iff)
  have least: "k \<le> k'" if "look m k' = Some v'" and "P (k', v')" for k' v'
  proof -
    from that(1) assms(1) have "(k', v') \<in> set (entries m)" by (simp add: entries_iff)
    then obtain j where j: "j < length (entries m)" "entries m ! j = (k', v')"
      by (auto simp: in_set_conv_nth)
    with that(2) before have "\<not> j < i" by metis
    then consider "j = i" | "i < j" by linarith
    then show ?thesis
    proof cases
      case 1
      with i j show ?thesis by simp
    next
      case 2
      have "map fst (entries m) ! i < map fst (entries m) ! j"
        using sorted_wrt_nth_less [OF entries_sorted [OF assms(1)] 2] j by simp
      with i j show ?thesis by simp
    qed
  qed
  from i have "(k, v) \<in> set (entries m)" by (metis nth_mem)
  with assms(1) i least show ?thesis by (auto simp: entries_iff)
qed

lemma find_none: "invar m \<Longrightarrow> List.find P (entries m) = None \<longleftrightarrow> (\<forall>k v. look m k = Some v \<longrightarrow> \<not> P (k, v))"
  by (auto simp: find_None_iff entries_iff)

end

interpretation btmap: ordered_map "\<lambda>m. m" map_of bt_inv
  by unfold_locales (simp_all add: bt_inv_def)

subsection \<open>Logs whose events each overwrite one key\<close>

text \<open>
  A subscriber reads a snapshot and then replays the events sent since it subscribed, and
  the snapshot may already show some of them. The final state is the same: each event
  overwrites one key, so the last event on a key decides its value.
\<close>

fun last_on :: "('e \<Rightarrow> 'k) \<Rightarrow> 'k \<Rightarrow> 'e list \<Rightarrow> 'e option" where
  "last_on key k [] = None"
| "last_on key k (e # es) =
     (case last_on key k es of Some e' \<Rightarrow> Some e' | None \<Rightarrow> if key e = k then Some e else None)"

lemma last_on_append:
  "last_on key k (xs @ ys) = (case last_on key k ys of Some e \<Rightarrow> Some e | None \<Rightarrow> last_on key k xs)"
  by (induction xs) (auto split: option.splits)

lemma last_on_None: "last_on key k es = None \<longleftrightarrow> (\<forall>e \<in> set es. key e \<noteq> k)"
  by (induction es) (auto split: option.splits)

lemma last_on_Some: "last_on key k es = Some e \<Longrightarrow> e \<in> set es \<and> key e = k"
  by (induction es) (auto split: option.splits if_splits)

locale overwriting_log =
  fixes key :: "'e \<Rightarrow> 'k"
    and eff :: "'e \<Rightarrow> 'v option"
    and play :: "'e \<Rightarrow> 'm \<Rightarrow> 'm"
    and view :: "'m \<Rightarrow> 'k \<Rightarrow> 'v option"
  assumes view_play: "view (play e m) = (view m)(key e := eff e)"
begin

lemma view_fold:
  "view (fold play es m) k = (case last_on key k es of Some e \<Rightarrow> eff e | None \<Rightarrow> view m k)"
  by (induction es arbitrary: m) (auto simp: view_play split: option.splits)

lemma view_fold_cong: "view m = view m' \<Longrightarrow> view (fold play es m) = view (fold play es m')"
  by (rule ext) (simp add: view_fold split: option.splits)

lemma resync:
  assumes "t0 \<le> t1"
  shows "view (fold play (drop t0 es) (fold play (take t1 es) m)) = view (fold play es m)"
proof
  fix k
  have whole: "last_on key k es =
      (case last_on key k (drop t0 es) of Some e \<Rightarrow> Some e | None \<Rightarrow> last_on key k (take t0 es))"
    by (metis append_take_drop_id last_on_append)
  have "take t1 es = take t0 es @ take (t1 - t0) (drop t0 es)"
    using assms by (metis take_add le_add_diff_inverse)
  moreover have "last_on key k (take (t1 - t0) (drop t0 es)) = None"
    if "last_on key k (drop t0 es) = None"
    using that by (auto simp: last_on_None dest: in_set_takeD)
  ultimately have "last_on key k (take t1 es) = last_on key k (take t0 es)"
    if "last_on key k (drop t0 es) = None"
    using that by (simp add: last_on_append)
  then show "view (fold play (drop t0 es) (fold play (take t1 es) m)) k = view (fold play es m) k"
    by (simp add: view_fold whole split: option.splits)
qed

end

subsection \<open>Lists\<close>

lemma find_map_Some: "List.find P xs = Some x \<Longrightarrow> x \<in> set xs \<and> P x"
  by (auto simp: find_Some_iff)

end
