(* ===== verification/Registry.thy ===== *)
theory Registry
  imports Prelude
begin

section \<open>Item properties and the item registry (boardswarm/src/registry.rs)\<close>

text \<open>
  \<^verbatim>\<open>Properties\<close> is a string map with a subset match; \<^verbatim>\<open>Registry\<close> hands out 64 bit
  identifiers and announces each change on a broadcast channel. The field \<open>monitor\<close> of the
  model is the sequence of messages the registry has handed to that channel, oldest first:
  what a receiver gets of it is the channel's business (a parameter of the components that
  subscribe), and a subscription is the position in the sequence where it starts.
  The lemmas: a registry's contents are the replay of what it announced, identifiers are
  not reused, \<^verbatim>\<open>find\<close> returns the oldest matching item.
\<close>

subsection \<open>Properties\<close>

definition NAME :: string where "NAME = ''boardswarm.name''"
definition INSTANCE :: string where "INSTANCE = ''boardswarm.instance''"
definition PROVIDER :: string where "PROVIDER = ''boardswarm.provider''"
definition PROVIDER_NAME :: string where "PROVIDER_NAME = ''boardswarm.provider.name''"

lemma INSTANCE_neq_NAME [simp]: "INSTANCE \<noteq> NAME" "NAME \<noteq> INSTANCE"
  by (simp_all add: INSTANCE_def NAME_def)

record Properties =
  properties :: "(string \<times> string) list"

definition properties_new :: "string \<Rightarrow> Properties" where
  "properties_new name = \<lparr>properties = AList.update NAME name []\<rparr>"

definition properties_get :: "Properties \<Rightarrow> string \<Rightarrow> string option" where
  "properties_get p prop = map_of (properties p) prop"

definition properties_name :: "Properties \<Rightarrow> string" where
  "properties_name p = (case properties_get p NAME of None \<Rightarrow> [] | Some n \<Rightarrow> n)"

definition properties_instance :: "Properties \<Rightarrow> string option" where
  "properties_instance p = properties_get p INSTANCE"

text \<open>
  The closure of \<^verbatim>\<open>matches\<close> updates \<^verbatim>\<open>matched_instance\<close> before it looks the key up, and
  \<^verbatim>\<open>all\<close> stops at the first pair that fails.
\<close>

fun matches_all :: "Properties \<Rightarrow> (string \<times> string) list \<Rightarrow> bool \<Rightarrow> bool \<times> bool" where
  "matches_all p [] matched_instance = (True, matched_instance)"
| "matches_all p ((k, v) # ms) matched_instance =
     (let matched_instance = (matched_instance \<or> k = INSTANCE) in
      if (case properties_get p k of Some prop \<Rightarrow> prop = v | None \<Rightarrow> False)
      then matches_all p ms matched_instance
      else (False, matched_instance))"

definition properties_matches :: "Properties \<Rightarrow> (string \<times> string) list \<Rightarrow> bool" where
  "properties_matches p ms =
     (let (matched, matched_instance) = matches_all p ms False
      in matched \<and> (matched_instance = (properties_instance p \<noteq> None)))"

definition properties_insert :: "Properties \<Rightarrow> string \<Rightarrow> string \<Rightarrow> Properties" where
  "properties_insert p k v = \<lparr>properties = AList.update k v (properties p)\<rparr>"

definition properties_iter :: "Properties \<Rightarrow> (string \<times> string) list" where
  "properties_iter p = properties p"

fun properties_extend :: "Properties \<Rightarrow> (string \<times> string) list \<Rightarrow> Properties" where
  "properties_extend p [] = p"
| "properties_extend p ((k, v) # kvs) =
     properties_extend \<lparr>properties = AList.update k v (properties p)\<rparr> kvs"

definition properties_from :: "(string \<times> string) list \<Rightarrow> Properties" where
  "properties_from m = \<lparr>properties = m\<rparr>"

definition properties_inv :: "Properties \<Rightarrow> bool" where
  "properties_inv p = distinct (map fst (properties p))"

lemma properties_get_insert [simp]:
  "properties_get (properties_insert p k v) = (properties_get p)(k \<mapsto> v)"
  by (rule ext) (simp add: properties_get_def properties_insert_def update_conv)

lemma properties_get_new [simp]:
  "properties_get (properties_new n) k = (if k = NAME then Some n else None)"
  by (simp add: properties_get_def properties_new_def)

lemma properties_inv_ops [inv_intros]:
  "properties_inv (properties_new n)"
  "properties_inv p \<Longrightarrow> properties_inv (properties_insert p k v)"
  by (simp_all add: properties_inv_def properties_new_def properties_insert_def distinct_update)

lemma properties_inv_extend [inv_intros]:
  "properties_inv p \<Longrightarrow> properties_inv (properties_extend p kvs)"
  by (induction p kvs rule: properties_extend.induct)
     (simp_all add: properties_inv_def distinct_update)

lemma properties_get_extend_notin:
  "k \<notin> fst ` set kvs \<Longrightarrow> properties_get (properties_extend p kvs) k = properties_get p k"
  by (induction p kvs rule: properties_extend.induct) (auto simp: properties_get_def update_conv)

lemma matches_all_fst:
  "fst (matches_all p ms mi) \<longleftrightarrow> set ms \<subseteq> {(k, v). properties_get p k = Some v}"
  by (induction p ms mi rule: matches_all.induct) (auto simp: Let_def split: option.splits)

lemma matches_all_snd:
  "set ms \<subseteq> {(k, v). properties_get p k = Some v} \<Longrightarrow>
   snd (matches_all p ms mi) \<longleftrightarrow> mi \<or> INSTANCE \<in> fst ` set ms"
  by (induction p ms mi rule: matches_all.induct) (auto simp: Let_def)

lemma properties_matches_iff:
  "properties_matches p ms \<longleftrightarrow>
     set ms \<subseteq> {(k, v). properties_get p k = Some v} \<and>
     (INSTANCE \<in> fst ` set ms \<longleftrightarrow> properties_instance p \<noteq> None)"
  using matches_all_fst [of p ms False] matches_all_snd [of ms p False]
  by (auto simp: properties_matches_def Let_def split: prod.splits)

subsection \<open>Items and identifiers\<close>

record 't Item =
  item_properties :: Properties
  item_value :: 't

definition item_new :: "Properties \<Rightarrow> 't \<Rightarrow> 't Item" where
  "item_new p t = \<lparr>item_properties = p, item_value = t\<rparr>"

definition item_name :: "'t Item \<Rightarrow> string" where
  "item_name i = properties_name (item_properties i)"

definition item_instance :: "'t Item \<Rightarrow> string option" where
  "item_instance i = properties_instance (item_properties i)"

definition item_display :: "'t Item \<Rightarrow> string" where
  "item_display i =
     (case item_instance i of
        Some instance \<Rightarrow> item_name i @ '' on '' @ instance
      | None \<Rightarrow> item_name i)"

text \<open>
  The macro \<^verbatim>\<open>impl_u64_index!\<close> declares one newtype of \<^verbatim>\<open>u64\<close> per kind of item; here
  the kind is a phantom type argument. \<^verbatim>\<open>Ord\<close> is derived, so the order is that of the
  number, and \<^verbatim>\<open>self.0 + 1\<close> wraps as a release build does.
\<close>

datatype 'k u64_index = U64Index (index_u64: u64)

instantiation u64_index :: (type) linorder
begin

definition less_eq_u64_index :: "'a u64_index \<Rightarrow> 'a u64_index \<Rightarrow> bool" where
  "less_eq_u64_index a b \<longleftrightarrow> index_u64 a \<le> index_u64 b"

definition less_u64_index :: "'a u64_index \<Rightarrow> 'a u64_index \<Rightarrow> bool" where
  "less_u64_index a b \<longleftrightarrow> index_u64 a < index_u64 b"

instance
  by standard
     (auto simp: less_eq_u64_index_def less_u64_index_def intro: u64_index.expand)

end

definition index_default :: "'k u64_index" where
  "index_default = U64Index 0"

definition index_next :: "'k u64_index \<Rightarrow> 'k u64_index" where
  "index_next i = U64Index (index_u64 i + 1)"

definition nth_index :: "nat \<Rightarrow> 'k u64_index" where
  "nth_index n = U64Index (of_nat n)"

lemma index_next_nth [simp]: "index_next (nth_index n) = nth_index (Suc n)"
  by (simp add: index_next_def nth_index_def add.commute)

lemma index_default_nth: "index_default = nth_index 0"
  by (simp add: index_default_def nth_index_def)

lemma unat_of_nat_u64: "n < 2 ^ 64 \<Longrightarrow> unat (of_nat n :: u64) = n"
  by (simp add: unat_of_nat take_bit_eq_mod)

lemma nth_index_eq: "m < 2 ^ 64 \<Longrightarrow> n < 2 ^ 64 \<Longrightarrow> nth_index m = nth_index n \<longleftrightarrow> m = n"
  unfolding nth_index_def by (metis unat_of_nat_u64 u64_index.inject)

lemma nth_index_less: "m < 2 ^ 64 \<Longrightarrow> n < 2 ^ 64 \<Longrightarrow> nth_index m < nth_index n \<longleftrightarrow> m < n"
  by (simp add: nth_index_def less_u64_index_def word_less_nat_alt unat_of_nat_u64)

subsection \<open>The registry\<close>

datatype ('k, 't) RegistryChange =
    Added (added_id: "'k u64_index") (added_item: "'t Item")
  | Removed "'k u64_index"

record ('k, 't) Registry =
  monitor :: "('k, 't) RegistryChange list"
  next_id :: "'k u64_index"
  contents :: "('k u64_index \<times> 't Item) list"

definition registry_new :: "('k, 't) Registry" where
  "registry_new = \<lparr>monitor = [], next_id = index_default, contents = []\<rparr>"

definition registry_add ::
  "Properties \<Rightarrow> 't \<Rightarrow> ('k, 't) Registry \<Rightarrow> ('k u64_index \<times> 't Item) \<times> ('k, 't) Registry" where
  "registry_add props t r =
     (let item = item_new props t;
          i = next_id r
      in ((i, item),
          r\<lparr>next_id := index_next (next_id r),
            contents := bt_insert i item (contents r),
            monitor := monitor r @ [Added i item]\<rparr>))"

definition registry_lookup :: "('k, 't) Registry \<Rightarrow> 'k u64_index \<Rightarrow> 't Item option" where
  "registry_lookup r i = map_of (contents r) i"

definition registry_remove :: "'k u64_index \<Rightarrow> ('k, 't) Registry \<Rightarrow> ('k, 't) Registry" where
  "registry_remove i r =
     (case map_of (contents r) i of
        Some _ \<Rightarrow> r\<lparr>contents := bt_remove i (contents r), monitor := monitor r @ [Removed i]\<rparr>
      | None \<Rightarrow> r)"

definition registry_ids :: "('k, 't) Registry \<Rightarrow> 'k u64_index list" where
  "registry_ids r = map fst (contents r)"

definition registry_contents :: "('k, 't) Registry \<Rightarrow> ('k u64_index \<times> 't Item) list" where
  "registry_contents r = map (\<lambda>(i, item). (i, item)) (contents r)"

definition registry_find ::
  "(string \<times> string) list \<Rightarrow> ('k, 't) Registry \<Rightarrow> ('k u64_index \<times> 't Item) option" where
  "registry_find ms r =
     List.find (\<lambda>(i, item). properties_matches (item_properties item) ms) (contents r)"

text \<open>\<^verbatim>\<open>subscribe\<close>: the receiver sees what is sent from here on.\<close>

definition registry_monitor :: "('k, 't) Registry \<Rightarrow> nat" where
  "registry_monitor r = length (monitor r)"

subsection \<open>The contents are the replay of the announced changes\<close>

fun change_id :: "('k, 't) RegistryChange \<Rightarrow> 'k u64_index" where
  "change_id (Added i item) = i"
| "change_id (Removed i) = i"

fun change_item :: "('k, 't) RegistryChange \<Rightarrow> 't Item option" where
  "change_item (Added i item) = Some item"
| "change_item (Removed i) = None"

fun play_change ::
  "('k, 't) RegistryChange \<Rightarrow> ('k u64_index \<times> 't Item) list \<Rightarrow> ('k u64_index \<times> 't Item) list" where
  "play_change (Added i item) m = bt_insert i item m"
| "play_change (Removed i) m = bt_remove i m"

interpretation reglog: overwriting_log change_id change_item play_change map_of
proof unfold_locales
  fix e :: "('k, 't) RegistryChange" and m
  show "map_of (play_change e m) = (map_of m)(change_id e := change_item e)"
    by (cases e) auto
qed

definition is_added :: "('k, 't) RegistryChange \<Rightarrow> bool" where
  "is_added c = (case c of Added _ _ \<Rightarrow> True | Removed _ \<Rightarrow> False)"

definition added_ids :: "('k, 't) RegistryChange list \<Rightarrow> 'k u64_index list" where
  "added_ids cs = map change_id (filter is_added cs)"

lemma added_ids_simps [simp]:
  "added_ids [] = []"
  "added_ids (cs @ ds) = added_ids cs @ added_ids ds"
  "added_ids (Added i x # cs) = i # added_ids cs"
  "added_ids (Removed i # cs) = added_ids cs"
  by (simp_all add: added_ids_def is_added_def)

definition registry_inv :: "('k, 't) Registry \<Rightarrow> bool" where
  "registry_inv r \<longleftrightarrow>
     fold play_change (monitor r) [] = contents r \<and>
     bt_inv (contents r) \<and>
     added_ids (monitor r) = map nth_index [0..<length (added_ids (monitor r))] \<and>
     next_id r = nth_index (length (added_ids (monitor r))) \<and>
     fst ` set (contents r) \<subseteq> set (added_ids (monitor r))"

lemma registry_inv_new [inv_intros]: "registry_inv registry_new"
  by (simp add: registry_inv_def registry_new_def index_default_nth)

lemma registry_inv_add [inv_intros]:
  "registry_inv r \<Longrightarrow> registry_inv (snd (registry_add p t r))"
  unfolding registry_inv_def registry_add_def
  by (simp add: Let_def keys_bt_insert bt_inv_insert subset_insertI2)

lemma registry_inv_remove [inv_intros]:
  "registry_inv r \<Longrightarrow> registry_inv (registry_remove i r)"
  unfolding registry_inv_def registry_remove_def
  using keys_bt_remove [of i "contents r"]
  by (simp add: bt_inv_remove split: option.splits) blast

lemma registry_lookup_replay:
  "registry_inv r \<Longrightarrow> registry_lookup r = map_of (fold play_change (monitor r) [])"
  by (rule ext) (simp add: registry_inv_def registry_lookup_def)

lemma registry_lookup_add [simp]:
  "registry_lookup (snd (registry_add p t r)) =
     (registry_lookup r)(next_id r \<mapsto> item_new p t)"
  by (rule ext) (simp add: registry_lookup_def registry_add_def Let_def)

lemma registry_lookup_remove [simp]:
  "registry_lookup (registry_remove i r) = (registry_lookup r)(i := None)"
  by (rule ext) (simp add: registry_lookup_def registry_remove_def split: option.splits)

lemma registry_contents_eq [simp]: "registry_contents r = contents r"
  by (simp add: registry_contents_def)

lemma next_id_fresh:
  assumes "registry_inv r" "length (added_ids (monitor r)) < 2 ^ 64"
  shows "registry_lookup r (next_id r) = None"
proof -
  let ?n = "length (added_ids (monitor r))"
  from assms(1) have ids: "added_ids (monitor r) = map nth_index [0..<?n]"
    and nid: "next_id r = nth_index ?n"
    and sub: "fst ` set (contents r) \<subseteq> set (added_ids (monitor r))"
    by (auto simp: registry_inv_def)
  have "nth_index ?n \<notin> nth_index ` {0..<?n}"
    using assms(2) by (auto simp: nth_index_eq)
  moreover from ids have "set (added_ids (monitor r)) = nth_index ` {0..<?n}"
    by (metis set_map set_upt)
  ultimately show ?thesis
    using sub nid by (auto simp: registry_lookup_def map_of_eq_None_iff)
qed

lemma added_ids_add: "added_ids (monitor (snd (registry_add p t r))) = added_ids (monitor r) @ [next_id r]"
  by (simp add: registry_add_def Let_def)

lemma added_ids_remove [simp]: "added_ids (monitor (registry_remove i r)) = added_ids (monitor r)"
  by (simp add: registry_remove_def split: option.splits)

lemma added_ids_distinct:
  assumes "registry_inv r" "length (added_ids (monitor r)) \<le> 2 ^ 64"
  shows "distinct (added_ids (monitor r))"
proof -
  let ?n = "length (added_ids (monitor r))"
  have "inj_on nth_index {0..<?n}"
    by (rule inj_onI) (use assms(2) in \<open>auto simp: nth_index_eq\<close>)
  then have "distinct (map nth_index [0..<?n])" by (simp add: distinct_map)
  moreover have "added_ids (monitor r) = map nth_index [0..<?n]"
    using assms(1) by (simp add: registry_inv_def)
  ultimately show ?thesis by metis
qed

subsection \<open>Runs of the registry\<close>

datatype ('k, 't) registry_op = AddOp Properties 't | RemoveOp "'k u64_index"

text \<open>The identifiers a run hands out, in order, and the registry it leaves.\<close>

fun registry_run ::
  "('k, 't) registry_op list \<Rightarrow> ('k, 't) Registry \<Rightarrow> 'k u64_index list \<times> ('k, 't) Registry" where
  "registry_run [] r = ([], r)"
| "registry_run (AddOp p t # ops) r =
     (let ((i, _), r1) = registry_add p t r; (ids, r2) = registry_run ops r1 in (i # ids, r2))"
| "registry_run (RemoveOp i # ops) r = registry_run ops (registry_remove i r)"

lemma registry_run_inv [inv_intros]:
  "registry_run ops r = (ids, r') \<Longrightarrow> registry_inv r \<Longrightarrow> registry_inv r'"
proof (induction ops r arbitrary: ids rule: registry_run.induct)
  case (2 p t ops r)
  then show ?case
    using registry_inv_add [of r p t] by (auto simp: Let_def split: prod.splits)
qed (auto intro: registry_inv_remove)

lemma registry_run_added:
  "registry_run ops r = (ids, r') \<Longrightarrow>
   registry_inv r \<Longrightarrow> added_ids (monitor r') = added_ids (monitor r) @ ids"
proof (induction ops r arbitrary: ids rule: registry_run.induct)
  case (2 p t ops r)
  obtain i it r1 where add: "registry_add p t r = ((i, it), r1)" by (metis surj_pair)
  obtain ids' r2 where run: "registry_run ops r1 = (ids', r2)" by (metis surj_pair)
  from add 2(3) registry_inv_add [of r p t] have "registry_inv r1" by simp
  with 2(1) [OF add [symmetric] refl] run 2(2) add
  have "added_ids (monitor r') = added_ids (monitor r1) @ ids'" by (auto simp: Let_def)
  moreover have "added_ids (monitor r1) = added_ids (monitor r) @ [i]"
    using add by (auto simp: registry_add_def Let_def)
  ultimately show ?case using 2(2) add run by (simp add: Let_def)
next
  case (3 i ops r)
  have "added_ids (monitor (registry_remove i r)) = added_ids (monitor r)"
    by (simp add: registry_remove_def split: option.splits)
  with 3 show ?case by (simp add: registry_inv_remove)
qed simp

lemma registry_run_ids:
  assumes "registry_run ops registry_new = (ids, r)"
  shows "ids = map nth_index [0..<length ids]"
proof -
  from registry_run_added [OF assms registry_inv_new] have "added_ids (monitor r) = ids"
    by (simp add: registry_new_def)
  with registry_run_inv [OF assms registry_inv_new] show ?thesis
    by (simp add: registry_inv_def)
qed

lemma registry_run_registry_inv:
  "registry_run ops registry_new = (ids, r) \<Longrightarrow> registry_inv r"
  by (rule registry_run_inv [OF _ registry_inv_new])

subsection \<open>Removed identifiers stay removed\<close>

lemma registry_run_not_added:
  "registry_run ops r = (ids, r') \<Longrightarrow>
   registry_lookup r i = None \<Longrightarrow> i \<notin> set ids \<Longrightarrow> registry_lookup r' i = None"
proof (induction ops r arbitrary: ids rule: registry_run.induct)
  case (2 p t ops r)
  obtain j it r1 where add: "registry_add p t r = ((j, it), r1)" by (metis surj_pair)
  obtain ids' r2 where run: "registry_run ops r1 = (ids', r2)" by (metis surj_pair)
  from add have "j = next_id r" by (simp add: registry_add_def Let_def)
  with add 2(3,4) 2(2) run registry_lookup_add [of p t r]
  have "registry_lookup r1 i = None" by (auto simp: Let_def)
  with 2(1) [OF add [symmetric] refl] run 2(2,4) add show ?case by (auto simp: Let_def)
qed auto

lemma registry_run_append:
  "registry_run (ops @ ops') r =
     (fst (registry_run ops r) @ fst (registry_run ops' (snd (registry_run ops r))),
      snd (registry_run ops' (snd (registry_run ops r))))"
  by (induction ops r rule: registry_run.induct) (auto simp: Let_def split: prod.splits)

lemma registry_dead_stays_dead:
  assumes run: "registry_run ops registry_new = (ids, r)"
    and run': "registry_run ops' r = (ids', r')"
    and i: "i \<in> set ids" "registry_lookup r i = None"
    and bound: "length ids + length ids' \<le> 2 ^ 64"
  shows "registry_lookup r' i = None"
proof -
  have "registry_run (ops @ ops') registry_new = (ids @ ids', r')"
    using run run' by (simp add: registry_run_append)
  from registry_run_ids [OF this]
  have eq: "ids @ ids' = map nth_index [0..<length ids + length ids']" by simp
  have "inj_on nth_index {0..<length ids + length ids'}"
    by (rule inj_onI) (use bound in \<open>auto simp: nth_index_eq\<close>)
  then have "distinct (ids @ ids')"
    unfolding eq by (simp only: distinct_map distinct_upt set_upt)
  with i have "i \<notin> set ids'" by auto
  then show ?thesis by (rule registry_run_not_added [OF run' i(2)])
qed

text \<open>A run only appends to what was announced.\<close>

lemma registry_run_monitor:
  "registry_run ops r = (ids, r') \<Longrightarrow> \<exists>cs. monitor r' = monitor r @ cs"
proof (induction ops r arbitrary: ids rule: registry_run.induct)
  case (2 p t ops r)
  obtain j it r1 where add: "registry_add p t r = ((j, it), r1)" by (metis surj_pair)
  obtain ids' r2 where run: "registry_run ops r1 = (ids', r2)" by (metis surj_pair)
  from add obtain c where c: "monitor r1 = monitor r @ [c]"
    by (auto simp: registry_add_def Let_def)
  from 2(2) add run have "registry_run ops r1 = (ids', r')" by (simp add: Let_def)
  with 2(1) [OF add [symmetric] refl] obtain cs where "monitor r' = monitor r1 @ cs" by blast
  with c show ?case by simp
next
  case (3 i ops r)
  have "\<exists>cs. monitor (registry_remove i r) = monitor r @ cs"
    by (auto simp: registry_remove_def split: option.splits)
  with 3 show ?case by (metis append_assoc registry_run.simps(3))
qed auto

subsection \<open>The properties of the registry\<close>

text \<open>
  Identifiers are not re-used: over any run of additions and removals that starts from a
  new registry and adds at most $2^{64}$ items, the identifiers handed out grow strictly, so
  an identifier never names two items, whether or not the first was removed.
\<close>

theorem registry_ids_not_reused:
  assumes run: "registry_run ops registry_new = (ids, r)" and "length ids \<le> 2 ^ 64"
  shows "sorted_wrt (<) ids"
proof -
  have "sorted_wrt (<) (map nth_index [0..<length ids])"
    unfolding sorted_wrt_map
    by (rule sorted_wrt_mono_rel [OF _ sorted_wrt_upt])
       (use assms(2) in \<open>auto intro: nth_index_less [THEN iffD2]\<close>)
  then show ?thesis by (subst registry_run_ids [OF run])
qed

lemma registry_ids_not_reused_witness:
  "\<exists>ids r. registry_run
     [AddOp (properties_new ''a'') (10::nat), RemoveOp (U64Index 0),
      AddOp (properties_new ''a'') 11] registry_new = (ids, r) \<and>
     length ids = 2 \<and> sorted_wrt (<) ids"
  (is "\<exists>ids r. registry_run ?ops _ = _ \<and> _")
proof -
  obtain ids r where run: "registry_run ?ops registry_new = (ids, r)" by (metis surj_pair)
  then have "length ids = 2" by (auto simp: registry_add_def Let_def split: prod.splits)
  with registry_ids_not_reused [OF run] run show ?thesis by auto
qed

text \<open>
  \<^verbatim>\<open>Properties::matches\<close> is a subset test, except that the instance is matched
  explicitly: the pairs must all be properties of the item, and they name the instance
  property exactly when the item has one.
\<close>

theorem properties_matches_subset:
  "properties_matches p ms =
     (set ms \<subseteq> {(k, v). properties_get p k = Some v} \<and>
      ((INSTANCE \<in> fst ` set ms) = (properties_instance p \<noteq> None)))"
  by (simp add: properties_matches_iff)

text \<open>
  \<^verbatim>\<open>Registry::find\<close> on a registry reached by any run returns a live matching item, and
  of those the one with the least identifier, the oldest; it returns nothing only when no
  live item matches.
\<close>

theorem registry_find_oldest:
  assumes "registry_run ops registry_new = (ids, r)"
  shows "case registry_find ms r of
      Some (i, item) \<Rightarrow>
        registry_lookup r i = Some item \<and> properties_matches (item_properties item) ms \<and>
        (\<forall>j item'. registry_lookup r j = Some item' \<and> properties_matches (item_properties item') ms
           \<longrightarrow> i \<le> j)
    | None \<Rightarrow> (\<forall>j item. registry_lookup r j = Some item
           \<longrightarrow> \<not> properties_matches (item_properties item) ms)"
proof -
  have inv: "bt_inv (contents r)"
    using registry_run_registry_inv [OF assms] by (simp add: registry_inv_def)
  show ?thesis
    unfolding registry_find_def registry_lookup_def
    using btmap.find_least [OF inv] btmap.find_none [OF inv]
    by (auto split: option.splits prod.splits)
qed

lemma registry_find_oldest_witness:
  "\<exists>ids r. registry_run
     [AddOp (properties_new ''b'') (10::nat), AddOp (properties_new ''a'') 11,
      AddOp (properties_new ''a'') 12] registry_new = (ids, r) \<and>
     registry_find [(NAME, ''a'')] r = Some (U64Index 1, item_new (properties_new ''a'') 11) \<and>
     registry_lookup r (U64Index 1) = Some (item_new (properties_new ''a'') 11)"
  (is "\<exists>ids r. registry_run ?ops _ = _ \<and> registry_find ?ms _ = _ \<and> _")
proof -
  obtain ids r where run: "registry_run ?ops registry_new = (ids, r)" by (metis surj_pair)
  then have "registry_find ?ms r = Some (U64Index 1, item_new (properties_new ''a'') 11)"
    by (auto simp: registry_add_def registry_new_def Let_def index_default_def index_next_def
        registry_find_def item_new_def less_u64_index_def properties_matches_iff
        properties_instance_def)
  with registry_find_oldest [OF run, of ?ms] run show ?thesis by auto
qed

text \<open>The unit test of the source.\<close>

lemma properties_test:
  defines "props \<equiv> properties_insert (properties_new ''test'') ''udev.BADGER'' ''5''"
  shows "properties_name props = ''test''"
    and "properties_matches props []"
    and "properties_matches props [(NAME, ''test''), (''udev.BADGER'', ''5'')]"
    and "\<not> properties_matches props [(NAME, ''test''), (''udev.BADGER'', ''7'')]"
    and "\<not> properties_matches props [(NAME, ''test''), (''udev.SNAKE'', ''5'')]"
  by (simp_all add: props_def properties_name_def properties_matches_iff properties_instance_def
      NAME_def INSTANCE_def)

end
