(* ===== verification/Config.thy ===== *)
theory Config
  imports Registry
begin

section \<open>The configuration file (boardswarm/src/config.rs)\<close>

text \<open>
  The records and the enum serde fills from the YAML file. The YAML values handed on to the
  providers are a type parameter \<open>'y\<close> (\<^verbatim>\<open>serde_yaml::Value\<close>), and a duration is its
  number of milliseconds. The three configuration items a device matches against the
  registry share one contract, the trait \<^verbatim>\<open>DeviceConfigItem\<close> of main.rs.
\<close>

datatype Authentication =
    Oidc (oidc_description: string) (oidc_uri: string) (oidc_client: string)
      (oidc_audience: "string list")
  | Jwks (jwks_path: string)

record Certificate =
  cert_chain :: string
  cert_key :: string

record ServerConfig =
  sc_listen :: "string option"
  sc_certificate :: "Certificate option"
  sc_authentication :: "Authentication list"

record 'y ProviderConfig =
  pc_name :: string
  pc_provider :: string
  pc_parameters :: "'y option"

record 'y ConsoleConfig =
  cc_name :: string
  cc_default :: bool
  cc_parameters :: 'y
  cc_match :: "(string \<times> string) list"

record VolumeConfig =
  vc_name :: string
  vc_match :: "(string \<times> string) list"

record 'y ModeStepConfig =
  ms_match :: "(string \<times> string) list"
  ms_parameters :: 'y
  ms_stabilisation :: "nat option"

record 'y ModeConfig =
  mc_name :: string
  mc_depends :: "string option"
  mc_sequence :: "'y ModeStepConfig list"

record 'y DeviceConfig =
  dc_name :: string
  dc_consoles :: "'y ConsoleConfig list"
  dc_modes :: "'y ModeConfig list"
  dc_volumes :: "VolumeConfig list"

record 'y Config =
  cfg_server :: ServerConfig
  cfg_providers :: "'y ProviderConfig list"
  cfg_devices :: "'y DeviceConfig list"

subsection \<open>DeviceConfigItem\<close>

definition console_config_matches :: "'y ConsoleConfig \<Rightarrow> Properties \<Rightarrow> bool" where
  "console_config_matches c p = properties_matches p (cc_match c)"

definition volume_config_matches :: "VolumeConfig \<Rightarrow> Properties \<Rightarrow> bool" where
  "volume_config_matches c p = properties_matches p (vc_match c)"

definition step_config_matches :: "'y ModeStepConfig \<Rightarrow> Properties \<Rightarrow> bool" where
  "step_config_matches c p = properties_matches p (ms_match c)"

end
