(* ===== verification/Config_File.thy ===== *)
theory Config_File
  imports Config
begin

section \<open>Reading the configuration file (boardswarm/src/config.rs)\<close>

text \<open>
  What serde derives from the definitions of config.rs: how each struct and enum is read from
  a YAML document, with its renamed, optional and defaulted fields and its tag. The YAML
  library is the record \<open>reader\<close>, over documents of a type \<open>'d\<close>; structs are mappings. An
  error of serde only ends the program, so a document that is refused is \<open>None\<close>. The lemmas:
  a configuration written as a document is read back, and what is refused.
\<close>

subsection \<open>The YAML library\<close>

text \<open>
  What a document is as a string, a boolean, an integer, a sequence, a mapping with string keys in its
  order, and a \<^verbatim>\<open>Value\<close>; \<open>rd_option\<close> is \<open>None\<close> for a null, \<open>rd_buffer\<close> is the document once
  serde has buffered it to look for a tag, and \<open>rd_duration\<close> is \<^verbatim>\<open>humantime::parse_duration\<close>.
\<close>

record ('d, 'y) reader =
  rd_string :: "'d \<Rightarrow> string option"
  rd_bool :: "'d \<Rightarrow> bool option"
  rd_int :: "'d \<Rightarrow> int option"
  rd_seq :: "'d \<Rightarrow> 'd list option"
  rd_map :: "'d \<Rightarrow> (string \<times> 'd) list option"
  rd_option :: "'d \<Rightarrow> 'd option"
  rd_value :: "'d \<Rightarrow> 'y option"
  rd_buffer :: "'d \<Rightarrow> 'd"
  rd_duration :: "string \<Rightarrow> nat option"

subsection \<open>What serde derives\<close>

text \<open>
  A field that must be there, one with a default, and one of type \<^verbatim>\<open>Option\<close>, which may be
  missing or null. A field known to the struct must not be there twice; others are ignored.
\<close>

definition de_field :: "string \<Rightarrow> ('d \<Rightarrow> 'a option) \<Rightarrow> (string \<times> 'd) list \<Rightarrow> 'a option" where
  "de_field name de es = Option.bind (map_of es name) de"

definition de_default :: "string \<Rightarrow> 'a \<Rightarrow> ('d \<Rightarrow> 'a option) \<Rightarrow> (string \<times> 'd) list \<Rightarrow> 'a option" where
  "de_default name x de es = (case map_of es name of None \<Rightarrow> Some x | Some d \<Rightarrow> de d)"

definition de_option :: "('d, 'y) reader \<Rightarrow> ('d \<Rightarrow> 'a option) \<Rightarrow> 'd \<Rightarrow> 'a option option" where
  "de_option r de d = (case rd_option r d of None \<Rightarrow> Some None | Some d1 \<Rightarrow> map_option Some (de d1))"

definition de_vec :: "('d, 'y) reader \<Rightarrow> ('d \<Rightarrow> 'a option) \<Rightarrow> 'd \<Rightarrow> 'a list option" where
  "de_vec r de d = Option.bind (rd_seq r d) (\<lambda>ds. those (map de ds))"

definition fields_once :: "string list \<Rightarrow> (string \<times> 'd) list \<Rightarrow> bool" where
  "fields_once names es = distinct (filter (\<lambda>k. k \<in> set names) (map fst es))"

definition de_struct ::
  "('d, 'y) reader \<Rightarrow> string list \<Rightarrow> ((string \<times> 'd) list \<Rightarrow> 'a option) \<Rightarrow> 'd \<Rightarrow> 'a option" where
  "de_struct r names f d =
     Option.bind (rd_map r d) (\<lambda>es. if fields_once names es then f es else None)"

text \<open>\<^verbatim>\<open>HashMap<String, String>\<close>: a later entry replaces an earlier one of the same key.\<close>

definition de_string_map :: "('d, 'y) reader \<Rightarrow> 'd \<Rightarrow> (string \<times> string) list option" where
  "de_string_map r d =
     Option.bind (rd_map r d) (\<lambda>es.
       map_option (\<lambda>vs. fold (\<lambda>(k, v). AList.update k v) (zip (map fst es) vs) [])
         (those (map (\<lambda>(k, v). rd_string r v) es)))"

subsection \<open>The structs of config.rs\<close>

definition de_certificate :: "('d, 'y) reader \<Rightarrow> 'd \<Rightarrow> Certificate option" where
  "de_certificate r = de_struct r [''chain'', ''key''] (\<lambda>es.
     Option.bind (de_field ''chain'' (rd_string r) es) (\<lambda>chain.
     Option.bind (de_field ''key'' (rd_string r) es) (\<lambda>key.
     Some \<lparr>cert_chain = chain, cert_key = key\<rparr>)))"

text \<open>
  \<^verbatim>\<open>#[serde(tag = "type")]\<close>: the mapping is buffered, its only \<^verbatim>\<open>type\<close> names the variant, and
  the other entries are its fields.
\<close>

definition de_oidc :: "('d, 'y) reader \<Rightarrow> (string \<times> 'd) list \<Rightarrow> Authentication option" where
  "de_oidc r es =
     (if fields_once [''description'', ''uri'', ''client'', ''audience''] es then
        Option.bind (de_field ''description'' (rd_string r) es) (\<lambda>description.
        Option.bind (de_field ''uri'' (rd_string r) es) (\<lambda>uri.
        Option.bind (de_field ''client'' (rd_string r) es) (\<lambda>client.
        Option.bind (de_field ''audience'' (de_vec r (rd_string r)) es) (\<lambda>audience.
        Some (Oidc description uri client audience)))))
      else None)"

definition de_jwks :: "('d, 'y) reader \<Rightarrow> (string \<times> 'd) list \<Rightarrow> Authentication option" where
  "de_jwks r es =
     (if fields_once [''path''] es then
        Option.bind (de_field ''path'' (rd_string r) es) (\<lambda>path. Some (Jwks path))
      else None)"

definition de_authentication :: "('d, 'y) reader \<Rightarrow> 'd \<Rightarrow> Authentication option" where
  "de_authentication r d = de_struct r [''type''] (\<lambda>es.
     Option.bind (de_field ''type'' (rd_string r) es) (\<lambda>variant.
       (let fields = filter (\<lambda>(k, v). k \<noteq> ''type'') es in
        if variant = ''oidc'' then de_oidc r fields
        else if variant = ''jwks'' then de_jwks r fields
        else None))) (rd_buffer r d)"

definition de_server :: "('d, 'y) reader \<Rightarrow> 'd \<Rightarrow> ServerConfig option" where
  "de_server r = de_struct r [''listen'', ''certificate'', ''authentication''] (\<lambda>es.
     Option.bind (de_default ''listen'' None (de_option r (rd_string r)) es) (\<lambda>listen.
     Option.bind (de_default ''certificate'' None (de_option r (de_certificate r)) es) (\<lambda>certificate.
     Option.bind (de_field ''authentication'' (de_vec r (de_authentication r)) es) (\<lambda>authentication.
     Some \<lparr>sc_listen = listen, sc_certificate = certificate, sc_authentication = authentication\<rparr>))))"

definition de_provider :: "('d, 'y) reader \<Rightarrow> 'd \<Rightarrow> 'y ProviderConfig option" where
  "de_provider r = de_struct r [''name'', ''provider'', ''parameters''] (\<lambda>es.
     Option.bind (de_field ''name'' (rd_string r) es) (\<lambda>name.
     Option.bind (de_field ''provider'' (rd_string r) es) (\<lambda>provider.
     Option.bind (de_default ''parameters'' None (de_option r (rd_value r)) es) (\<lambda>parameters.
     Some \<lparr>pc_name = name, pc_provider = provider, pc_parameters = parameters\<rparr>))))"

definition de_console :: "('d, 'y) reader \<Rightarrow> 'd \<Rightarrow> 'y ConsoleConfig option" where
  "de_console r = de_struct r [''name'', ''default'', ''parameters'', ''match''] (\<lambda>es.
     Option.bind (de_field ''name'' (rd_string r) es) (\<lambda>name.
     Option.bind (de_default ''default'' False (rd_bool r) es) (\<lambda>dflt.
     Option.bind (de_field ''parameters'' (rd_value r) es) (\<lambda>parameters.
     Option.bind (de_field ''match'' (de_string_map r) es) (\<lambda>matches.
     Some \<lparr>cc_name = name, cc_default = dflt, cc_parameters = parameters, cc_match = matches\<rparr>)))))"

definition de_volume :: "('d, 'y) reader \<Rightarrow> 'd \<Rightarrow> VolumeConfig option" where
  "de_volume r = de_struct r [''name'', ''match''] (\<lambda>es.
     Option.bind (de_field ''name'' (rd_string r) es) (\<lambda>name.
     Option.bind (de_field ''match'' (de_string_map r) es) (\<lambda>matches.
     Some \<lparr>vc_name = name, vc_match = matches\<rparr>)))"

text \<open>\<^verbatim>\<open>stabilisation\<close> is a string that humantime reads, and may be missing or null.\<close>

definition de_mode_step :: "('d, 'y) reader \<Rightarrow> 'd \<Rightarrow> 'y ModeStepConfig option" where
  "de_mode_step r = de_struct r [''match'', ''parameters'', ''stabilisation''] (\<lambda>es.
     Option.bind (de_field ''match'' (de_string_map r) es) (\<lambda>matches.
     Option.bind (de_field ''parameters'' (rd_value r) es) (\<lambda>parameters.
     Option.bind (de_default ''stabilisation'' None
       (de_option r (\<lambda>d. Option.bind (rd_string r d) (rd_duration r))) es) (\<lambda>stabilisation.
     Some \<lparr>ms_match = matches, ms_parameters = parameters, ms_stabilisation = stabilisation\<rparr>))))"

definition de_mode :: "('d, 'y) reader \<Rightarrow> 'd \<Rightarrow> 'y ModeConfig option" where
  "de_mode r = de_struct r [''name'', ''depends'', ''sequence''] (\<lambda>es.
     Option.bind (de_field ''name'' (rd_string r) es) (\<lambda>name.
     Option.bind (de_default ''depends'' None (de_option r (rd_string r)) es) (\<lambda>depends.
     Option.bind (de_field ''sequence'' (de_vec r (de_mode_step r)) es) (\<lambda>steps.
     Some \<lparr>mc_name = name, mc_depends = depends, mc_sequence = steps\<rparr>))))"

definition de_device :: "('d, 'y) reader \<Rightarrow> 'd \<Rightarrow> 'y DeviceConfig option" where
  "de_device r = de_struct r [''name'', ''consoles'', ''modes'', ''volumes''] (\<lambda>es.
     Option.bind (de_field ''name'' (rd_string r) es) (\<lambda>name.
     Option.bind (de_field ''consoles'' (de_vec r (de_console r)) es) (\<lambda>consoles.
     Option.bind (de_field ''modes'' (de_vec r (de_mode r)) es) (\<lambda>modes.
     Option.bind (de_default ''volumes'' [] (de_vec r (de_volume r)) es) (\<lambda>volumes.
     Some \<lparr>dc_name = name, dc_consoles = consoles, dc_modes = modes, dc_volumes = volumes\<rparr>)))))"

definition de_config :: "('d, 'y) reader \<Rightarrow> 'd \<Rightarrow> 'y Config option" where
  "de_config r = de_struct r [''server'', ''providers'', ''devices''] (\<lambda>es.
     Option.bind (de_field ''server'' (de_server r) es) (\<lambda>server.
     Option.bind (de_field ''providers'' (de_vec r (de_provider r)) es) (\<lambda>providers.
     Option.bind (de_field ''devices'' (de_vec r (de_device r)) es) (\<lambda>devices.
     Some \<lparr>cfg_server = server, cfg_providers = providers, cfg_devices = devices\<rparr>))))"

subsection \<open>Config::from_file\<close>

text \<open>\<open>parse\<close> is the YAML parser on the contents of the file.\<close>

datatype load_error = CannotOpen | CannotRead

definition load_config ::
  "('d, 'y) reader \<Rightarrow> (bytes \<Rightarrow> 'd option) \<Rightarrow> (string \<rightharpoonup> bytes) \<Rightarrow> string \<Rightarrow>
   (load_error, 'y Config) result" where
  "load_config r parse fs path =
     (case fs path of
        None \<Rightarrow> Err CannotOpen
      | Some content \<Rightarrow> ok_or CannotRead (Option.bind (parse content) (de_config r)))"

subsection \<open>Documents\<close>

text \<open>
  Documents as trees, which are also the values meant for the providers, and a writer of
  configurations: the names of the fields in the file, optional fields left out when they are
  absent.
\<close>

datatype tree =
    TNull | TBool bool | TNumber int | TString string | TSeq "tree list" | TMap "(string \<times> tree) list"

definition tree_reader :: "(string \<Rightarrow> nat option) \<Rightarrow> (tree, tree) reader" where
  "tree_reader duration =
     \<lparr>rd_string = (\<lambda>d. case d of TString s \<Rightarrow> Some s | _ \<Rightarrow> None),
      rd_bool = (\<lambda>d. case d of TBool b \<Rightarrow> Some b | _ \<Rightarrow> None),
      rd_int = (\<lambda>d. case d of TNumber n \<Rightarrow> Some n | _ \<Rightarrow> None),
      rd_seq = (\<lambda>d. case d of TSeq ds \<Rightarrow> Some ds | _ \<Rightarrow> None),
      rd_map = (\<lambda>d. case d of TMap es \<Rightarrow> Some es | _ \<Rightarrow> None),
      rd_option = (\<lambda>d. case d of TNull \<Rightarrow> None | _ \<Rightarrow> Some d),
      rd_value = Some,
      rd_buffer = (\<lambda>d. d),
      rd_duration = duration\<rparr>"

definition tree_entry :: "string \<Rightarrow> ('a \<Rightarrow> tree) \<Rightarrow> 'a option \<Rightarrow> (string \<times> tree) list" where
  "tree_entry name f x = (case x of None \<Rightarrow> [] | Some a \<Rightarrow> [(name, f a)])"

definition string_map_tree :: "(string \<times> string) list \<Rightarrow> tree" where
  "string_map_tree m = TMap (map (\<lambda>(k, v). (k, TString v)) m)"

definition certificate_tree :: "Certificate \<Rightarrow> tree" where
  "certificate_tree c = TMap [(''chain'', TString (cert_chain c)), (''key'', TString (cert_key c))]"

fun authentication_tree :: "Authentication \<Rightarrow> tree" where
  "authentication_tree (Oidc description uri client audience) =
     TMap [(''type'', TString ''oidc''), (''description'', TString description), (''uri'', TString uri),
       (''client'', TString client), (''audience'', TSeq (map TString audience))]"
| "authentication_tree (Jwks path) = TMap [(''type'', TString ''jwks''), (''path'', TString path)]"

definition server_tree :: "ServerConfig \<Rightarrow> tree" where
  "server_tree s = TMap (tree_entry ''listen'' TString (sc_listen s) @
     tree_entry ''certificate'' certificate_tree (sc_certificate s) @
     [(''authentication'', TSeq (map authentication_tree (sc_authentication s)))])"

definition provider_tree :: "tree ProviderConfig \<Rightarrow> tree" where
  "provider_tree p = TMap ([(''name'', TString (pc_name p)), (''provider'', TString (pc_provider p))] @
     tree_entry ''parameters'' (\<lambda>y. y) (pc_parameters p))"

definition console_tree :: "tree ConsoleConfig \<Rightarrow> tree" where
  "console_tree c = TMap ([(''name'', TString (cc_name c))] @
     (if cc_default c then [(''default'', TBool True)] else []) @
     [(''parameters'', cc_parameters c), (''match'', string_map_tree (cc_match c))])"

definition volume_tree :: "VolumeConfig \<Rightarrow> tree" where
  "volume_tree v = TMap [(''name'', TString (vc_name v)), (''match'', string_map_tree (vc_match v))]"

definition mode_step_tree :: "(nat \<Rightarrow> string) \<Rightarrow> tree ModeStepConfig \<Rightarrow> tree" where
  "mode_step_tree show s = TMap ([(''match'', string_map_tree (ms_match s)),
     (''parameters'', ms_parameters s)] @
     tree_entry ''stabilisation'' (\<lambda>t. TString (show t)) (ms_stabilisation s))"

definition mode_tree :: "(nat \<Rightarrow> string) \<Rightarrow> tree ModeConfig \<Rightarrow> tree" where
  "mode_tree show m = TMap ([(''name'', TString (mc_name m))] @
     tree_entry ''depends'' TString (mc_depends m) @
     [(''sequence'', TSeq (map (mode_step_tree show) (mc_sequence m)))])"

definition device_tree :: "(nat \<Rightarrow> string) \<Rightarrow> tree DeviceConfig \<Rightarrow> tree" where
  "device_tree show d = TMap ([(''name'', TString (dc_name d)),
     (''consoles'', TSeq (map console_tree (dc_consoles d))),
     (''modes'', TSeq (map (mode_tree show) (dc_modes d)))] @
     (if dc_volumes d = [] then [] else [(''volumes'', TSeq (map volume_tree (dc_volumes d)))]))"

definition config_tree :: "(nat \<Rightarrow> string) \<Rightarrow> tree Config \<Rightarrow> tree" where
  "config_tree show c = TMap [(''server'', server_tree (cfg_server c)),
     (''providers'', TSeq (map provider_tree (cfg_providers c))),
     (''devices'', TSeq (map (device_tree show) (cfg_devices c)))]"

text \<open>
  The matches of a configuration are hash maps: no key twice. Parameters of a provider that are
  null would be absent.
\<close>

definition config_writable :: "tree Config \<Rightarrow> bool" where
  "config_writable c \<longleftrightarrow>
     list_all (\<lambda>p. pc_parameters p \<noteq> Some TNull) (cfg_providers c) \<and>
     list_all (\<lambda>d. list_all (\<lambda>x. distinct (map fst (cc_match x))) (dc_consoles d) \<and>
       list_all (\<lambda>x. distinct (map fst (vc_match x))) (dc_volumes d) \<and>
       list_all (\<lambda>m. list_all (\<lambda>x. distinct (map fst (ms_match x))) (mc_sequence m)) (dc_modes d))
     (cfg_devices c)"

subsection \<open>What is written is read back\<close>

named_theorems read_back "documents of a configuration are read back"

lemma tree_reader_simps [simp]:
  "rd_string (tree_reader du) (TString s) = Some s" "rd_bool (tree_reader du) (TBool b) = Some b"
  "rd_seq (tree_reader du) (TSeq ds) = Some ds" "rd_map (tree_reader du) (TMap es) = Some es"
  "rd_value (tree_reader du) d = Some d" "rd_int (tree_reader du) (TNumber n) = Some n"
  "rd_buffer (tree_reader du) d = d"
  "rd_duration (tree_reader du) = du"
  by (simp_all add: tree_reader_def)

lemma option_written [simp]:
  "de_option (tree_reader du) de (TString s) = map_option Some (de (TString s))"
  "de_option (tree_reader du) de (TMap es) = map_option Some (de (TMap es))"
  "y \<noteq> TNull \<Longrightarrow> de_option (tree_reader du) de y = map_option Some (de y)"
  by (simp_all add: de_option_def tree_reader_def split: tree.splits)

lemma those_map: "(\<And>x. x \<in> set xs \<Longrightarrow> f x = Some (g x)) \<Longrightarrow> those (map f xs) = Some (map g xs)"
  by (induction xs) auto

lemma vec_written:
  "(\<And>x. x \<in> set xs \<Longrightarrow> de (tree x) = Some x) \<Longrightarrow> de_vec (tree_reader du) de (TSeq (map tree xs)) = Some xs"
  using those_map [of xs "\<lambda>x. de (tree x)" "\<lambda>x. x"] by (simp add: de_vec_def comp_def)

lemma fold_update_distinct:
  "distinct (map fst (m0 @ m)) \<Longrightarrow> fold (\<lambda>(k, v). AList.update k v) m m0 = m0 @ m"
proof (induction m arbitrary: m0)
  case (Cons p m)
  obtain k v where "p = (k, v)" by force
  moreover have "k \<notin> fst ` set m0 \<Longrightarrow> AList.update k v m0 = m0 @ [(k, v)]"
    by (induction m0) auto
  ultimately show ?case using Cons.IH [of "m0 @ [(k, v)]"] Cons.prems by auto
qed simp

lemma string_map_written [read_back]:
  assumes "distinct (map fst m)"
  shows "de_string_map (tree_reader du) (string_map_tree m) = Some m"
proof -
  have "those (map (\<lambda>(k, v). Some v) m) = Some (map snd m)"
    by (rule those_map) auto
  then show ?thesis
    using fold_update_distinct [of "[]" m] assms
    by (simp add: de_string_map_def string_map_tree_def comp_def case_prod_unfold zip_map_fst_snd)
qed

lemmas derived = de_struct_def fields_once_def de_field_def de_default_def tree_entry_def

lemma certificate_written [read_back]:
  "de_certificate (tree_reader du) (certificate_tree c) = Some c"
  by (simp add: de_certificate_def certificate_tree_def derived)

lemma option_certificate [read_back]:
  "de_option (tree_reader du) de (certificate_tree c) = map_option Some (de (certificate_tree c))"
  by (simp add: certificate_tree_def)

lemma authentication_written [read_back]:
  "de_authentication (tree_reader du) (authentication_tree a) = Some a"
  by (cases a) (simp_all add: de_authentication_def de_oidc_def de_jwks_def derived vec_written)

lemma server_written [read_back]: "de_server (tree_reader du) (server_tree s) = Some s"
  by (cases "sc_listen s"; cases "sc_certificate s")
    (simp_all add: de_server_def server_tree_def derived vec_written read_back)

lemma provider_written [read_back]:
  "pc_parameters p \<noteq> Some TNull \<Longrightarrow> de_provider (tree_reader du) (provider_tree p) = Some p"
  by (cases "pc_parameters p") (simp_all add: de_provider_def provider_tree_def derived)

lemma console_written [read_back]:
  "distinct (map fst (cc_match c)) \<Longrightarrow> de_console (tree_reader du) (console_tree c) = Some c"
  by (cases "cc_default c") (simp_all add: de_console_def console_tree_def derived string_map_written)

lemma volume_written [read_back]:
  "distinct (map fst (vc_match v)) \<Longrightarrow> de_volume (tree_reader du) (volume_tree v) = Some v"
  by (simp add: de_volume_def volume_tree_def derived string_map_written)

lemma mode_step_written [read_back]:
  "distinct (map fst (ms_match s)) \<Longrightarrow> (\<And>t. du (show t) = Some t) \<Longrightarrow>
   de_mode_step (tree_reader du) (mode_step_tree show s) = Some s"
  by (cases "ms_stabilisation s")
    (simp_all add: de_mode_step_def mode_step_tree_def derived string_map_written)

lemma mode_written [read_back]:
  assumes "list_all (\<lambda>s. distinct (map fst (ms_match s))) (mc_sequence m)" and "\<And>t. du (show t) = Some t"
  shows "de_mode (tree_reader du) (mode_tree show m) = Some m"
proof -
  have "de_vec (tree_reader du) (de_mode_step (tree_reader du)) (TSeq (map (mode_step_tree show) (mc_sequence m))) =
      Some (mc_sequence m)"
    using assms by (intro vec_written mode_step_written) (auto simp: list_all_iff)
  then show ?thesis by (cases "mc_depends m") (simp_all add: de_mode_def mode_tree_def derived)
qed

lemma device_written [read_back]:
  assumes "list_all (\<lambda>x. distinct (map fst (cc_match x))) (dc_consoles d)"
    and "list_all (\<lambda>x. distinct (map fst (vc_match x))) (dc_volumes d)"
    and "list_all (\<lambda>m. list_all (\<lambda>x. distinct (map fst (ms_match x))) (mc_sequence m)) (dc_modes d)"
    and "\<And>t. du (show t) = Some t"
  shows "de_device (tree_reader du) (device_tree show d) = Some d"
proof -
  let ?r = "tree_reader du "
  have "de_vec ?r (de_console ?r) (TSeq (map console_tree (dc_consoles d))) = Some (dc_consoles d)"
    and "de_vec ?r (de_mode ?r) (TSeq (map (mode_tree show) (dc_modes d))) = Some (dc_modes d)"
    and "de_vec ?r (de_volume ?r) (TSeq (map volume_tree (dc_volumes d))) = Some (dc_volumes d)"
    using assms by (auto intro!: vec_written console_written mode_written volume_written simp: list_all_iff)
  then show ?thesis by (cases "dc_volumes d = []") (simp_all add: de_device_def device_tree_def derived)
qed

text \<open>
  C32. Every configuration can be written in the file and is read back as it is: with the
  renamed fields, the tags of the authentication methods, optional and defaulted fields left
  out, provided the matches are hash maps, no parameters are null, and humantime reads the
  durations that are written.
\<close>

theorem config_read_back:
  assumes "config_writable c" and "\<And>t. duration (show t) = Some t"
    and "fs path = Some content" and "parse content = Some (config_tree show c)"
  shows "load_config (tree_reader duration) parse fs path = Ok c"
proof -
  let ?r = "tree_reader duration"
  have "de_vec ?r (de_provider ?r) (TSeq (map provider_tree (cfg_providers c))) = Some (cfg_providers c)"
    using assms(1) by (intro vec_written provider_written) (auto simp: config_writable_def list_all_iff)
  moreover have "de_vec ?r (de_device ?r) (TSeq (map (device_tree show) (cfg_devices c))) = Some (cfg_devices c)"
    using assms(1,2) by (intro vec_written device_written) (auto simp: config_writable_def list_all_iff)
  ultimately have "de_config ?r (config_tree show c) = Some c"
    by (simp add: de_config_def config_tree_def derived server_written)
  with assms(3,4) show ?thesis by (simp add: load_config_def)
qed

text \<open>
  A device with its console, volume and modes, and a server with both ways to authenticate, for
  the example; a duration is written as that many strokes.
\<close>

definition example_config :: "tree Config" where
  "example_config =
     \<lparr>cfg_server = \<lparr>sc_listen = Some ''::'', sc_certificate = Some \<lparr>cert_chain = ''chain.pem'', cert_key = ''key.pem''\<rparr>,
        sc_authentication = [Oidc ''Example OIDC'' ''https://issuer.example.com/'' ''boardswarm'' [''account''],
          Jwks ''auth.jwks'']\<rparr>,
      cfg_providers = [\<lparr>pc_name = ''serial'', pc_provider = ''serial'', pc_parameters = None\<rparr>,
        \<lparr>pc_name = ''remote'', pc_provider = ''boardswarm'', pc_parameters = 
          Some (TMap [(''uri'', TString ''http://remote.example.net:6683''), (''token'', TString ''remote.token'')])\<rparr>],
      cfg_devices = [\<lparr>dc_name = ''example'',
        dc_consoles = [\<lparr>cc_name = ''main'', cc_default = False, cc_parameters = TMap [(''rate'', TNumber 1500000)],
          cc_match = [(''udev.ID_SERIAL'', ''FTDI_TTL232R-3V3_FTA63831''), (''udev.ID_USB_INTERFACE_NUM'', ''00'')]\<rparr>],
        dc_modes = [\<lparr>mc_name = ''on'', mc_depends = Some ''off'',
            mc_sequence = [\<lparr>ms_match = [(''boardswarm.name'', ''pdu-0'')], ms_parameters = TMap [(''mode'', TString ''on'')], ms_stabilisation = Some 2\<rparr>]\<rparr>,
          \<lparr>mc_name = ''off'', mc_depends = None, mc_sequence = []\<rparr>],
        dc_volumes = []\<rparr>]\<rparr>"

lemma config_read_back_witness:
  "load_config (tree_reader (\<lambda>s. Some (length s)))
      (\<lambda>b. Some (config_tree (\<lambda>t. replicate t CHR ''i'') example_config)) [''server.conf'' \<mapsto> [35]] ''server.conf'' =
    Ok example_config"
  by (rule config_read_back [where content = "[35]"]) (simp_all add: config_writable_def example_config_def)

text \<open>
  The three parts of the file must each be there, once; other entries of the file do not matter.
\<close>

lemma count_once: "distinct (filter P ks) \<Longrightarrow> P x \<Longrightarrow> count_list ks x = (if x \<in> set ks then 1 else 0)"
  by (induction ks) (auto split: if_splits)

lemma config_refused:
  assumes "rd_map r d = Some es" and "part \<in> {''server'', ''providers'', ''devices''}"
    and "count_list (map fst es) part \<noteq> 1"
  shows "de_config r d = None"
proof (cases "fields_once [''server'', ''providers'', ''devices''] es")
  case True
  have "part \<notin> set (map fst es)"
  proof
    assume "part \<in> set (map fst es)"
    with count_once [of _ "map fst es" part] True assms(2) have "count_list (map fst es) part = 1"
      by (simp add: fields_once_def)
    with assms(3) show False by simp
  qed
  then have "map_of es part = None" by (simp add: map_of_eq_None_iff)
  with True assms(1,2) show ?thesis
    by (auto simp: de_config_def de_struct_def de_field_def bind_eq_None_conv)
qed (use assms(1) in \<open>simp add: de_config_def de_struct_def\<close>)

lemma config_other_entries:
  assumes "rd_map r d = Some es" and "rd_map r d1 = Some (filter (\<lambda>(k, v). k \<in> {''server'', ''providers'', ''devices''}) es)"
  shows "de_config r d1 = de_config r d"
proof -
  have "map_of (filter (\<lambda>(k, v). k \<in> {''server'', ''providers'', ''devices''}) es) k = map_of es k"
    if "k \<in> {''server'', ''providers'', ''devices''}" for k
    using that by (induction es) auto
  moreover have "map fst (filter (\<lambda>(k, v). k \<in> {''server'', ''providers'', ''devices''}) es) =
      filter (\<lambda>k. k \<in> {''server'', ''providers'', ''devices''}) (map fst es)"
    by (induction es) auto
  ultimately show ?thesis using assms by (simp add: de_config_def derived)
qed

end
