(* ===== verification/Volume_Api.thy ===== *)
theory Volume_Api
  imports Prelude
begin

section \<open>Errors, volume targets and the reply queue (boardswarm/src/main.rs)\<close>

text \<open>
  The error types of the traits and their gRPC statuses, the \<^verbatim>\<open>VolumeTarget\<close> trait with its
  default methods, the messages of the \<^verbatim>\<open>VolumeIo\<close> call (boardswarm.proto), the queue
  \<^verbatim>\<open>VolumeIoReplies\<close> that answers requests in the order they came, and the request loop
  of \<^verbatim>\<open>Server::volume_io\<close>.

  A oneshot receiver is modelled by what it eventually yields: \<open>Some\<close> of the result that was
  sent, or \<open>None\<close> when the sender is dropped without sending.
\<close>

subsection \<open>Errors\<close>

datatype ActuatorError = ActuatorError

datatype ConsoleError = ConsoleUnavailable string | ConsoleClosed

fun console_error_display :: "ConsoleError \<Rightarrow> string" where
  "console_error_display (ConsoleUnavailable msg) = ''Unavailable: '' @ msg"
| "console_error_display ConsoleClosed = ''Console was closed''"

fun status_of_console_error :: "ConsoleError \<Rightarrow> status" where
  "status_of_console_error ConsoleClosed = Status Aborted (console_error_display ConsoleClosed)"
| "status_of_console_error (ConsoleUnavailable msg) = Status Unavailable msg"

datatype VolumeError =
    UnknownTargetRequested | NotImplemented | VolumeInternal string | VolumeFailure string

fun volume_error_display :: "VolumeError \<Rightarrow> string" where
  "volume_error_display UnknownTargetRequested = ''Unknown target requested''"
| "volume_error_display NotImplemented = ''Operation not implemented for this volume''"
| "volume_error_display (VolumeInternal e) = ''Internal error: '' @ e"
| "volume_error_display (VolumeFailure e) = ''Volume failure: '' @ e"

fun status_of_volume_error :: "VolumeError \<Rightarrow> status" where
  "status_of_volume_error UnknownTargetRequested =
     Status NotFound (volume_error_display UnknownTargetRequested)"
| "status_of_volume_error NotImplemented =
     Status Unimplemented (volume_error_display NotImplemented)"
| "status_of_volume_error (VolumeInternal e) = Status Internal e"
| "status_of_volume_error (VolumeFailure e) = Status Aborted e"

subsection \<open>Messages\<close>

record VolumeTargetInfo =
  target_name :: string
  readable :: bool
  writable :: bool
  seekable :: bool
  target_size :: "u64 option"
  blocksize :: "u32 option"

datatype TargetOrRequest =
    ReqTarget u64 string "u64 option"
  | ReqRead u64 u64
  | ReqWrite bytes u64
  | ReqFlush
  | ReqShutdown

type_synonym VolumeIoRequest = "TargetOrRequest option"

datatype Reply =
    RepTarget "VolumeTargetInfo option"
  | RepRead bytes
  | RepWrite u64
  | RepFlush
  | RepShutdown

type_synonym VolumeIoReplyMsg = "Reply option"

text \<open>\<^verbatim>\<open>enum VolumeIoReply\<close> of main.rs: a completion queued for the client.\<close>

datatype VolumeIoReply =
    QTarget VolumeTargetInfo
  | QRead "(status, bytes) result option"
  | QWrite "(status, u64) result option"
  | QFlush "(status, unit) result option"
  | QShutdown "(status, unit) result option"
  | QFatalError status

subsection \<open>The reply task\<close>

text \<open>The reply for one completion; \<open>None\<close> is the \<^verbatim>\<open>break\<close> on a dropped sender.\<close>

fun reply_of :: "VolumeIoReply \<Rightarrow> (status, VolumeIoReplyMsg) result option" where
  "reply_of (QTarget t) = Some (Ok (Some (RepTarget (Some t))))"
| "reply_of (QRead r) =
     (case r of None \<Rightarrow> None | Some (Err e) \<Rightarrow> Some (Err e)
      | Some (Ok data) \<Rightarrow> Some (Ok (Some (RepRead data))))"
| "reply_of (QWrite w) =
     (case w of None \<Rightarrow> None | Some (Err e) \<Rightarrow> Some (Err e)
      | Some (Ok written) \<Rightarrow> Some (Ok (Some (RepWrite written))))"
| "reply_of (QFlush f) =
     (case f of None \<Rightarrow> None | Some (Err e) \<Rightarrow> Some (Err e)
      | Some (Ok _) \<Rightarrow> Some (Ok (Some RepFlush)))"
| "reply_of (QShutdown s) =
     (case s of None \<Rightarrow> None | Some (Err e) \<Rightarrow> Some (Err e)
      | Some (Ok _) \<Rightarrow> Some (Ok (Some RepShutdown)))"
| "reply_of (QFatalError e) = Some (Err e)"

text \<open>
  The task spawned by \<^verbatim>\<open>VolumeIoReplies::new\<close>, over the completions queued until the
  sender is dropped. The first argument is how many replies the receiving end still
  takes before it goes away: the send after those fails and ends the loop.
\<close>

fun replies_task :: "nat \<Rightarrow> VolumeIoReply list \<Rightarrow> (status, VolumeIoReplyMsg) result list" where
  "replies_task alive [] = []"
| "replies_task alive (c # cs) =
     (case reply_of c of
        None \<Rightarrow> []
      | Some reply \<Rightarrow> (case alive of 0 \<Rightarrow> [] | Suc alive' \<Rightarrow> reply # replies_task alive' cs))"

subsection \<open>The VolumeTarget trait\<close>

text \<open>
  One record of methods per target, over a state that includes the device behind it. A
  method returns what its completion is eventually completed with.
\<close>

record 's VolumeTarget =
  vt_read :: "u64 \<Rightarrow> u64 \<Rightarrow> 's \<Rightarrow> (status, bytes) result option \<times> 's"
  vt_write :: "bytes \<Rightarrow> u64 \<Rightarrow> 's \<Rightarrow> (status, u64) result option \<times> 's"
  vt_flush :: "'s \<Rightarrow> (status, unit) result option \<times> 's"
  vt_shutdown :: "'s \<Rightarrow> (status, unit) result option \<times> 's"

definition default_read :: "u64 \<Rightarrow> u64 \<Rightarrow> 's \<Rightarrow> (status, bytes) result option \<times> 's" where
  "default_read len offset s =
     (Some (Err (Status Unimplemented ''Target is not readable'')), s)"

definition default_write :: "bytes \<Rightarrow> u64 \<Rightarrow> 's \<Rightarrow> (status, u64) result option \<times> 's" where
  "default_write data offset s =
     (Some (Err (Status Unimplemented ''Target is not writable'')), s)"

definition default_flush :: "'s \<Rightarrow> (status, unit) result option \<times> 's" where
  "default_flush s = (Some (Ok ()), s)"

definition default_shutdown ::
  "('s \<Rightarrow> (status, unit) result option \<times> 's) \<Rightarrow> 's \<Rightarrow> (status, unit) result option \<times> 's" where
  "default_shutdown flush s = flush s"

definition default_target :: "'s VolumeTarget" where
  "default_target =
     \<lparr>vt_read = default_read, vt_write = default_write, vt_flush = default_flush,
      vt_shutdown = default_shutdown default_flush\<rparr>"

subsection \<open>The request loop of volume_io\<close>

text \<open>
  The task spawned once the target is open, over the messages \<^verbatim>\<open>rx.message()\<close> yields until
  the request stream ends: the completions it enqueues, and the state it leaves.
\<close>

fun volume_io_loop ::
  "'s VolumeTarget \<Rightarrow> (status, VolumeIoRequest) result list \<Rightarrow> 's \<Rightarrow> VolumeIoReply list \<times> 's" where
  "volume_io_loop vt [] s = ([], s)"
| "volume_io_loop vt (Err e # msgs) s = ([], s)"
| "volume_io_loop vt (Ok None # msgs) s = ([], s)"
| "volume_io_loop vt (Ok (Some (ReqTarget _ _ _)) # msgs) s =
     ([QFatalError (Status InvalidArgument ''Target request sent out of order'')], s)"
| "volume_io_loop vt (Ok (Some (ReqRead len offset)) # msgs) s =
     (let (r, s1) = vt_read vt len offset s; (qs, s2) = volume_io_loop vt msgs s1
      in (QRead r # qs, s2))"
| "volume_io_loop vt (Ok (Some (ReqWrite data offset)) # msgs) s =
     (let (r, s1) = vt_write vt data offset s; (qs, s2) = volume_io_loop vt msgs s1
      in (QWrite r # qs, s2))"
| "volume_io_loop vt (Ok (Some ReqFlush) # msgs) s =
     (let (r, s1) = vt_flush vt s; (qs, s2) = volume_io_loop vt msgs s1
      in (QFlush r # qs, s2))"
| "volume_io_loop vt (Ok (Some ReqShutdown) # msgs) s =
     (let (r, s1) = vt_shutdown vt s; (qs, s2) = volume_io_loop vt msgs s1
      in (QShutdown r # qs, s2))"

subsection \<open>Replies answer requests in order\<close>

definition is_target :: "TargetOrRequest \<Rightarrow> bool" where
  "is_target q = (case q of ReqTarget _ _ _ \<Rightarrow> True | _ \<Rightarrow> False)"

text \<open>A reply answers a request when it is an error or has the request's kind.\<close>

fun answers :: "TargetOrRequest \<Rightarrow> (status, VolumeIoReplyMsg) result \<Rightarrow> bool" where
  "answers _ (Err _) = True"
| "answers (ReqRead _ _) (Ok (Some (RepRead _))) = True"
| "answers (ReqWrite _ _) (Ok (Some (RepWrite _))) = True"
| "answers ReqFlush (Ok (Some RepFlush)) = True"
| "answers ReqShutdown (Ok (Some RepShutdown)) = True"
| "answers _ _ = False"

fun queued_for :: "TargetOrRequest \<Rightarrow> VolumeIoReply \<Rightarrow> bool" where
  "queued_for (ReqRead _ _) (QRead _) = True"
| "queued_for (ReqWrite _ _) (QWrite _) = True"
| "queued_for ReqFlush (QFlush _) = True"
| "queued_for ReqShutdown (QShutdown _) = True"
| "queued_for _ _ = False"

lemma queued_for_answers: "queued_for q c \<Longrightarrow> reply_of c = Some r \<Longrightarrow> answers q r"
  by (cases "(q, c)" rule: queued_for.cases) (auto split: option.splits sum.splits)

abbreviation requests :: "TargetOrRequest list \<Rightarrow> (status, VolumeIoRequest) result list" where
  "requests qs \<equiv> map (\<lambda>q. Ok (Some q)) qs"

lemma volume_io_loop_step:
  assumes "\<not> is_target q"
  shows "\<exists>c s1. queued_for q c \<and>
    (\<forall>ms. volume_io_loop vt (Ok (Some q) # ms) s =
       (c # fst (volume_io_loop vt ms s1), snd (volume_io_loop vt ms s1)))"
  using assms
proof (cases q)
  case (ReqRead l off)
  then show ?thesis
    by (intro exI [of _ "QRead (fst (vt_read vt l off s))"] exI [of _ "snd (vt_read vt l off s)"])
       (simp add: split_beta)
next
  case (ReqWrite d off)
  then show ?thesis
    by (intro exI [of _ "QWrite (fst (vt_write vt d off s))"] exI [of _ "snd (vt_write vt d off s)"])
       (simp add: split_beta)
next
  case ReqFlush
  then show ?thesis
    by (intro exI [of _ "QFlush (fst (vt_flush vt s))"] exI [of _ "snd (vt_flush vt s)"])
       (simp add: split_beta)
next
  case ReqShutdown
  then show ?thesis
    by (intro exI [of _ "QShutdown (fst (vt_shutdown vt s))"] exI [of _ "snd (vt_shutdown vt s)"])
       (simp add: split_beta)
qed (simp add: is_target_def)

lemma volume_io_loop_queue:
  "list_all (\<lambda>q. \<not> is_target q) qs \<Longrightarrow>
   \<exists>cs s'. list_all2 queued_for qs cs \<and>
     (\<forall>msgs. volume_io_loop vt (requests qs @ msgs) s =
       (cs @ fst (volume_io_loop vt msgs s'), snd (volume_io_loop vt msgs s')))"
proof (induction qs arbitrary: s)
  case Nil
  show ?case by (auto intro!: exI [of _ s])
next
  case (Cons q qs)
  from Cons.prems volume_io_loop_step [of q vt s] obtain c s1 where c: "queued_for q c"
    and eq: "\<And>ms. volume_io_loop vt (Ok (Some q) # ms) s =
         (c # fst (volume_io_loop vt ms s1), snd (volume_io_loop vt ms s1))" by auto
  from Cons.IH [of s1] Cons.prems obtain cs s' where "list_all2 queued_for qs cs"
    and "\<And>msgs. volume_io_loop vt (requests qs @ msgs) s1 =
       (cs @ fst (volume_io_loop vt msgs s'), snd (volume_io_loop vt msgs s'))" by auto
  with c show ?case by (intro exI [of _ "c # cs"] exI [of _ s']) (simp add: eq)
qed

lemma replies_task_prefix:
  "list_all2 queued_for qs cs \<Longrightarrow>
   \<exists>n. list_all2 answers (take n qs) (replies_task alive cs)"
proof (induction qs cs arbitrary: alive rule: list_all2_induct)
  case Nil
  then show ?case by simp
next
  case (Cons q qs c cs)
  show ?case
  proof (cases "reply_of c = None \<or> alive = 0")
    case True
    then have "replies_task alive (c # cs) = []" by (auto split: option.splits)
    then show ?thesis by (intro exI [of _ 0]) simp
  next
    case False
    then obtain r a where r: "reply_of c = Some r" "alive = Suc a" by (auto simp: gr0_conv_Suc)
    from Cons(3) [of a] obtain n where "list_all2 answers (take n qs) (replies_task a cs)" ..
    with r queued_for_answers [OF Cons(1) r(1)] show ?thesis
      by (intro exI [of _ "Suc n"]) simp
  qed
qed

lemma replies_task_all:
  "list_all2 queued_for qs cs \<Longrightarrow> list_all (\<lambda>c. reply_of c \<noteq> None) cs \<Longrightarrow>
   length cs \<le> alive \<Longrightarrow>
   \<exists>rs. list_all2 answers qs rs \<and>
     replies_task alive (cs @ ds) = rs @ replies_task (alive - length cs) ds"
proof (induction qs cs arbitrary: alive rule: list_all2_induct)
  case Nil
  then show ?case by simp
next
  case (Cons q qs c cs)
  from Cons.prems obtain r a where r: "reply_of c = Some r" "alive = Suc a" by (cases alive) auto
  with Cons.prems Cons(3) [of a] obtain rs where "list_all2 answers qs rs"
    and "replies_task a (cs @ ds) = rs @ replies_task (a - length cs) ds" by auto
  with r queued_for_answers [OF Cons(1) r(1)] show ?case
    by (intro exI [of _ "r # rs"]) simp
qed

text \<open>
  The replies of a \<^verbatim>\<open>VolumeIo\<close> call answer its requests in order: whatever the target
  does, whenever a completion is dropped and whenever the client stops reading, the
  replies sent are, one for one, errors or replies of the right kind for a prefix of the
  requests.
\<close>

theorem volume_io_replies_in_order:
  assumes "list_all (\<lambda>q. \<not> is_target q) qs"
  shows "\<exists>n. list_all2 answers (take n qs)
           (replies_task alive (fst (volume_io_loop vt (requests qs) s)))"
proof -
  from volume_io_loop_queue [OF assms, of vt s] obtain cs s' where
    cs: "list_all2 queued_for qs cs"
    and eq: "\<And>msgs. volume_io_loop vt (requests qs @ msgs) s =
       (cs @ fst (volume_io_loop vt msgs s'), snd (volume_io_loop vt msgs s'))" by auto
  show ?thesis using replies_task_prefix [OF cs] eq [of "[]"] by simp
qed

lemma volume_io_replies_in_order_witness:
  "\<exists>n. list_all2 answers (take n [ReqRead 4 0, ReqFlush, ReqShutdown])
      (replies_task 2 (fst (volume_io_loop default_target
         (requests [ReqRead 4 0, ReqFlush, ReqShutdown]) ()))) \<and>
    replies_task 2 (fst (volume_io_loop default_target
         (requests [ReqRead 4 0, ReqFlush, ReqShutdown]) ())) =
      [Err (Status Unimplemented ''Target is not readable''), Ok (Some RepFlush)]"
  using volume_io_replies_in_order [of "[ReqRead 4 0, ReqFlush, ReqShutdown]" 2 default_target "()"]
  by (simp add: is_target_def default_target_def default_read_def default_flush_def
      default_shutdown_def numeral_2_eq_2)

text \<open>
  C17. A second target selection ends the call: when every completion is delivered and the
  client keeps reading, the requests before it are all answered, then comes one
  \<^verbatim>\<open>InvalidArgument\<close> status, and nothing after it is executed or answered.
\<close>

theorem volume_io_target_out_of_order:
  assumes "list_all (\<lambda>q. \<not> is_target q) qs"
    and "list_all (\<lambda>c. reply_of c \<noteq> None)
           (fst (volume_io_loop vt (requests qs @ Ok (Some (ReqTarget v t l)) # msgs) s))"
    and "length qs < alive"
  shows "\<exists>rs. list_all2 answers qs rs \<and>
    replies_task alive (fst (volume_io_loop vt (requests qs @ Ok (Some (ReqTarget v t l)) # msgs) s)) =
      rs @ [Err (Status InvalidArgument ''Target request sent out of order'')] \<and>
    snd (volume_io_loop vt (requests qs @ Ok (Some (ReqTarget v t l)) # msgs) s) =
      snd (volume_io_loop vt (requests qs) s)"
proof -
  let ?ms = "Ok (Some (ReqTarget v t l)) # msgs"
  let ?fatal = "QFatalError (Status InvalidArgument ''Target request sent out of order'')"
  from volume_io_loop_queue [OF assms(1), of vt s] obtain cs s' where
    cs: "list_all2 queued_for qs cs"
    and all: "\<And>msgs. volume_io_loop vt (requests qs @ msgs) s =
       (cs @ fst (volume_io_loop vt msgs s'), snd (volume_io_loop vt msgs s'))" by blast
  from all [of ?ms] have eq: "volume_io_loop vt (requests qs @ ?ms) s = (cs @ [?fatal], s')" by simp
  from all [of "[]"] have s': "snd (volume_io_loop vt (requests qs) s) = s'" by simp
  have "length cs \<le> alive" and "list_all (\<lambda>c. reply_of c \<noteq> None) cs"
    using assms(2,3) cs list_all2_lengthD [OF cs] by (auto simp: eq)
  from replies_task_all [OF cs this(2,1), of "[?fatal]"] obtain rs where
    rs: "list_all2 answers qs rs"
      "replies_task alive (cs @ [?fatal]) = rs @ replies_task (alive - length cs) [?fatal]" by auto
  moreover have "replies_task (alive - length cs) [?fatal] =
      [Err (Status InvalidArgument ''Target request sent out of order'')]"
    using assms(3) list_all2_lengthD [OF cs] by (cases "alive - length cs") auto
  ultimately show ?thesis using s' eq by auto
qed

lemma volume_io_target_out_of_order_witness:
  "\<exists>rs. list_all2 answers [ReqFlush] rs \<and>
    replies_task 3 (fst (volume_io_loop default_target
      (requests [ReqFlush] @ Ok (Some (ReqTarget 0 ''x'' None)) # [Ok (Some (ReqRead 1 1))]) ())) =
      rs @ [Err (Status InvalidArgument ''Target request sent out of order'')]"
  using volume_io_target_out_of_order [of "[ReqFlush]" default_target 0 "''x''" None
      "[Ok (Some (ReqRead 1 1))]" "()" 3]
  by (auto simp: is_target_def default_target_def default_flush_def)

end
