(* ===== verification/Server.thy ===== *)
theory Server
  imports Volume_Api Config
begin

section \<open>The server: registries, traits and gRPC calls (boardswarm/src/main.rs)\<close>

text \<open>
  The trait objects the registries hold are records of their methods over a world \<open>'w\<close>,
  which stands for everything behind the \<^verbatim>\<open>Arc\<close>s: devices, ports, tasks. The parameters of
  consoles and actuators (a boxed deserializer) are the type \<open>'p\<close>.
  A handler is a function of the server, the request and the world; a request stream is the
  list of what \<^verbatim>\<open>message()\<close> yields, and a reply stream the list of its items.
  \<open>Panicked\<close> is the result of an \<^verbatim>\<open>unwrap\<close> that fails.
\<close>

subsection \<open>Identifiers and traits\<close>

datatype ActuatorKind = ActuatorKind
datatype ConsoleKind = ConsoleKind
datatype DeviceKind = DeviceKind
datatype VolumeKind = VolumeKind

type_synonym ActuatorId = "ActuatorKind u64_index"
type_synonym ConsoleId = "ConsoleKind u64_index"
type_synonym DeviceId = "DeviceKind u64_index"
type_synonym VolumeId = "VolumeKind u64_index"

record ('p, 'w) Actuator =
  act_set_mode :: "'p \<Rightarrow> 'w \<Rightarrow> (ActuatorError, unit) result \<times> 'w"

type_synonym 'w console_sink = "bytes \<Rightarrow> 'w \<Rightarrow> (ConsoleError, unit) result \<times> 'w"

record ('p, 'w) Console =
  con_configure :: "'p \<Rightarrow> 'w \<Rightarrow> (ConsoleError, unit) result \<times> 'w"
  con_input :: "'w \<Rightarrow> (ConsoleError, 'w console_sink) result \<times> 'w"
  con_output :: "'w \<Rightarrow> (ConsoleError, (ConsoleError, bytes) result list) result \<times> 'w"

text \<open>\<^verbatim>\<open>ConsoleExt::output_stream\<close>: \<^verbatim>\<open>data.unwrap()\<close> panics on the first error item.\<close>

fun output_items :: "(ConsoleError, bytes) result list \<Rightarrow> bytes outcome list" where
  "output_items [] = []"
| "output_items (Ok data # items) = Done data # output_items items"
| "output_items (Err e # items) = [Panicked]"

definition output_stream ::
  "('p, 'w) Console \<Rightarrow> 'w \<Rightarrow> (ConsoleError, bytes outcome list) result \<times> 'w" where
  "output_stream c w =
     (case con_output c w of
        (Err e, w1) \<Rightarrow> (Err e, w1)
      | (Ok items, w1) \<Rightarrow> (Ok (output_items items), w1))"

record 'w Volume =
  vol_targets :: "'w \<Rightarrow> VolumeTargetInfo list \<times> bool"
  vol_open :: "string \<Rightarrow> u64 option \<Rightarrow> 'w \<Rightarrow>
    (VolumeError, VolumeTargetInfo \<times> 'w VolumeTarget) result \<times> 'w"
  vol_commit :: "'w \<Rightarrow> (VolumeError, unit) result \<times> 'w"
  vol_erase :: "string \<Rightarrow> 'w \<Rightarrow> (VolumeError, unit) result \<times> 'w"

definition default_erase :: "string \<Rightarrow> 'w \<Rightarrow> (VolumeError, unit) result \<times> 'w" where
  "default_erase target w = (Err NotImplemented, w)"

record DeviceConsole =
  dcon_name :: string
  dcon_id :: "ConsoleId option"

record DeviceVolume =
  dvol_name :: string
  dvol_id :: "VolumeId option"

record DeviceMode =
  dmode_name :: string
  dmode_depends :: "string option"
  dmode_available :: bool

datatype DeviceSetModeError = ModeNotFound | WrongCurrentMode | ActuatorFailed ActuatorError

record 'w Device =
  dev_set_mode :: "string \<Rightarrow> 'w \<Rightarrow> (DeviceSetModeError, unit) result \<times> 'w"
  dev_consoles :: "'w \<Rightarrow> DeviceConsole list"
  dev_volumes :: "'w \<Rightarrow> DeviceVolume list"
  dev_modes :: "'w \<Rightarrow> DeviceMode list"
  dev_current_mode :: "'w \<Rightarrow> string option"

record ProtoConsole = pcon_name :: string  pcon_id :: "u64 option"
record ProtoVolume = pvol_name :: string  pvol_id :: "u64 option"
record ProtoMode = pmode_name :: string  pmode_depends :: "string option"  pmode_available :: bool

record ProtoDevice =
  pdev_consoles :: "ProtoConsole list"
  pdev_volumes :: "ProtoVolume list"
  pdev_modes :: "ProtoMode list"
  pdev_current_mode :: "string option"

definition proto_device :: "'w Device \<Rightarrow> 'w \<Rightarrow> ProtoDevice" where
  "proto_device d w =
     \<lparr>pdev_consoles = map (\<lambda>c. \<lparr>pcon_name = dcon_name c, pcon_id = map_option index_u64 (dcon_id c)\<rparr>)
        (dev_consoles d w),
      pdev_volumes = map (\<lambda>v. \<lparr>pvol_name = dvol_name v, pvol_id = map_option index_u64 (dvol_id v)\<rparr>)
        (dev_volumes d w),
      pdev_modes = map (\<lambda>m. \<lparr>pmode_name = dmode_name m, pmode_depends = dmode_depends m,
        pmode_available = dmode_available m\<rparr>) (dev_modes d w),
      pdev_current_mode = dev_current_mode d w\<rparr>"

subsection \<open>DeviceMonitor\<close>

text \<open>
  What a broadcast receiver yields: a message, the report that messages were lost, or the end.
\<close>

datatype RecvError = Closed | Lagged u64

datatype DeviceGone = DeviceGone

text \<open>
  \<^verbatim>\<open>wait\<close> over what the receiver yields, each with the world at that moment; \<open>None\<close>
  when it is still waiting at the end.
\<close>

fun device_monitor_wait ::
  "((RecvError, unit) result \<times> 'w) list \<Rightarrow>
   ((DeviceGone, unit) result \<times> 'w \<times> ((RecvError, unit) result \<times> 'w) list) option" where
  "device_monitor_wait [] = None"
| "device_monitor_wait ((Ok _, w) # rs) = Some (Ok (), w, rs)"
| "device_monitor_wait ((Err Closed, w) # rs) = Some (Err DeviceGone, w, rs)"
| "device_monitor_wait ((Err (Lagged n), w) # rs) = device_monitor_wait rs"

lemma device_monitor_wait_shorter:
  "device_monitor_wait rs = Some (r, w, rest) \<Longrightarrow> length rest < length rs"
  by (induction rs rule: device_monitor_wait.induct) auto

subsection \<open>The server\<close>

record ('p, 'w) Server =
  config_dir :: string
  auth_info :: "Authentication list"
  devices :: "(DeviceKind, 'w Device) Registry"
  consoles :: "(ConsoleKind, ('p, 'w) Console) Registry"
  actuators :: "(ActuatorKind, ('p, 'w) Actuator) Registry"
  volumes :: "(VolumeKind, 'w Volume) Registry"

definition server_new :: "Authentication list \<Rightarrow> string \<Rightarrow> ('p, 'w) Server" where
  "server_new auth dir =
     \<lparr>config_dir = dir, auth_info = auth, devices = registry_new, consoles = registry_new,
      actuators = registry_new, volumes = registry_new\<rparr>"

definition register_actuator ::
  "Properties \<Rightarrow> ('p, 'w) Actuator \<Rightarrow> ('p, 'w) Server \<Rightarrow> ActuatorId \<times> ('p, 'w) Server" where
  "register_actuator p a s =
     (let ((i, item), r) = registry_add p a (actuators s) in (i, s\<lparr>actuators := r\<rparr>))"

definition get_actuator :: "('p, 'w) Server \<Rightarrow> ActuatorId \<Rightarrow> ('p, 'w) Actuator option" where
  "get_actuator s i = map_option item_value (registry_lookup (actuators s) i)"

definition find_actuator ::
  "('p, 'w) Server \<Rightarrow> (string \<times> string) list \<Rightarrow> ('p, 'w) Actuator option" where
  "find_actuator s ms = map_option (\<lambda>(_, item). item_value item) (registry_find ms (actuators s))"

definition unregister_actuator :: "ActuatorId \<Rightarrow> ('p, 'w) Server \<Rightarrow> ('p, 'w) Server" where
  "unregister_actuator i s =
     (case registry_lookup (actuators s) i of
        Some item \<Rightarrow> s\<lparr>actuators := registry_remove i (actuators s)\<rparr>
      | None \<Rightarrow> s)"

definition register_console ::
  "Properties \<Rightarrow> ('p, 'w) Console \<Rightarrow> ('p, 'w) Server \<Rightarrow> ConsoleId \<times> ('p, 'w) Server" where
  "register_console p c s =
     (let ((i, item), r) = registry_add p c (consoles s) in (i, s\<lparr>consoles := r\<rparr>))"

definition unregister_console :: "ConsoleId \<Rightarrow> ('p, 'w) Server \<Rightarrow> ('p, 'w) Server" where
  "unregister_console i s =
     (case registry_lookup (consoles s) i of
        Some item \<Rightarrow> s\<lparr>consoles := registry_remove i (consoles s)\<rparr>
      | None \<Rightarrow> s)"

definition get_console :: "('p, 'w) Server \<Rightarrow> ConsoleId \<Rightarrow> ('p, 'w) Console option" where
  "get_console s i = map_option item_value (registry_lookup (consoles s) i)"

definition register_volume ::
  "Properties \<Rightarrow> 'w Volume \<Rightarrow> ('p, 'w) Server \<Rightarrow> VolumeId \<times> ('p, 'w) Server" where
  "register_volume p v s =
     (let ((i, item), r) = registry_add p v (volumes s) in (i, s\<lparr>volumes := r\<rparr>))"

definition unregister_volume :: "VolumeId \<Rightarrow> ('p, 'w) Server \<Rightarrow> ('p, 'w) Server" where
  "unregister_volume i s =
     (case registry_lookup (volumes s) i of
        Some item \<Rightarrow> s\<lparr>volumes := registry_remove i (volumes s)\<rparr>
      | None \<Rightarrow> s)"

definition get_volume :: "('p, 'w) Server \<Rightarrow> VolumeId \<Rightarrow> 'w Volume option" where
  "get_volume s i = map_option item_value (registry_lookup (volumes s) i)"

definition register_device ::
  "Properties \<Rightarrow> 'w Device \<Rightarrow> ('p, 'w) Server \<Rightarrow> DeviceId \<times> ('p, 'w) Server" where
  "register_device p d s =
     (let ((i, item), r) = registry_add p d (devices s) in (i, s\<lparr>devices := r\<rparr>))"

definition unregister_device :: "DeviceId \<Rightarrow> ('p, 'w) Server \<Rightarrow> ('p, 'w) Server" where
  "unregister_device i s =
     (case registry_lookup (devices s) i of
        Some item \<Rightarrow> s\<lparr>devices := registry_remove i (devices s)\<rparr>
      | None \<Rightarrow> s)"

definition get_device :: "('p, 'w) Server \<Rightarrow> u64 \<Rightarrow> 'w Device option" where
  "get_device s i = map_option item_value (registry_lookup (devices s) (U64Index i))"

subsection \<open>Listing and monitoring items\<close>

datatype ItemType = ItemDevice | ItemConsole | ItemActuator | ItemVolume

text \<open>The generated \<^verbatim>\<open>TryFrom<i32>\<close>: the numbers of boardswarm.proto.\<close>

definition item_type_try_from :: "32 word \<Rightarrow> ItemType option" where
  "item_type_try_from n =
     (if n = 0 then Some ItemDevice else if n = 1 then Some ItemConsole
      else if n = 2 then Some ItemActuator else if n = 3 then Some ItemVolume else None)"

definition unknown_item_type :: status where
  "unknown_item_type = Status InvalidArgument ''Unknown item type ''"

record ProtoItem =
  pi_id :: u64
  pi_name :: string
  pi_instance :: "string option"

definition to_proto_item :: "'k u64_index \<Rightarrow> 't Item \<Rightarrow> ProtoItem" where
  "to_proto_item i item =
     \<lparr>pi_id = index_u64 i, pi_name = item_name item, pi_instance = item_instance item\<rparr>"

definition to_item_list :: "('k, 't) Registry \<Rightarrow> ProtoItem list" where
  "to_item_list r = map (\<lambda>(i, item). to_proto_item i item) (registry_contents r)"

definition item_list_for :: "('p, 'w) Server \<Rightarrow> ItemType \<Rightarrow> ProtoItem list" where
  "item_list_for s t =
     (case t of ItemActuator \<Rightarrow> to_item_list (actuators s) | ItemDevice \<Rightarrow> to_item_list (devices s)
      | ItemConsole \<Rightarrow> to_item_list (consoles s) | ItemVolume \<Rightarrow> to_item_list (volumes s))"

datatype ItemEvent = EventAdd "ProtoItem list" | EventRemove u64

text \<open>
  \<^verbatim>\<open>to_item_stream\<close>: the list of the registry as it is when \<^verbatim>\<open>contents\<close> runs, after the
  subscription, then one event per change received; \<^verbatim>\<open>recv().await.ok()?\<close> ends the stream
  at the first error, a lag included.
\<close>

fun change_event :: "('k, 't) RegistryChange \<Rightarrow> ItemEvent" where
  "change_event (Added i item) = EventAdd [to_proto_item i item]"
| "change_event (Removed i) = EventRemove (index_u64 i)"

fun monitor_events :: "(RecvError, ('k, 't) RegistryChange) result list \<Rightarrow> ItemEvent list" where
  "monitor_events [] = []"
| "monitor_events (Ok c # rs) = change_event c # monitor_events rs"
| "monitor_events (Err e # rs) = []"

definition to_item_stream ::
  "('k, 't) Registry \<Rightarrow> (RecvError, ('k, 't) RegistryChange) result list \<Rightarrow> ItemEvent list" where
  "to_item_stream r received = EventAdd (to_item_list r) # monitor_events received"

record ('p, 'w) received_changes =
  rc_devices :: "(RecvError, (DeviceKind, 'w Device) RegistryChange) result list"
  rc_consoles :: "(RecvError, (ConsoleKind, ('p, 'w) Console) RegistryChange) result list"
  rc_actuators :: "(RecvError, (ActuatorKind, ('p, 'w) Actuator) RegistryChange) result list"
  rc_volumes :: "(RecvError, (VolumeKind, 'w Volume) RegistryChange) result list"

definition rpc_list :: "('p, 'w) Server \<Rightarrow> 32 word \<Rightarrow> (status, ProtoItem list) result" where
  "rpc_list s t =
     (case item_type_try_from t of
        None \<Rightarrow> Err unknown_item_type | Some t \<Rightarrow> Ok (item_list_for s t))"

definition rpc_monitor ::
  "('p, 'w) Server \<Rightarrow> 32 word \<Rightarrow> ('p, 'w) received_changes \<Rightarrow> (status, ItemEvent list) result" where
  "rpc_monitor s t rcv =
     (case item_type_try_from t of
        None \<Rightarrow> Err unknown_item_type
      | Some ItemActuator \<Rightarrow> Ok (to_item_stream (actuators s) (rc_actuators rcv))
      | Some ItemDevice \<Rightarrow> Ok (to_item_stream (devices s) (rc_devices rcv))
      | Some ItemConsole \<Rightarrow> Ok (to_item_stream (consoles s) (rc_consoles rcv))
      | Some ItemVolume \<Rightarrow> Ok (to_item_stream (volumes s) (rc_volumes rcv)))"

definition lookup_properties :: "('k, 't) Registry \<Rightarrow> u64 \<Rightarrow> (status, Properties) result" where
  "lookup_properties r i =
     ok_or (Status NotFound ''Item not found'')
       (map_option item_properties (registry_lookup r (U64Index i)))"

definition rpc_item_properties ::
  "('p, 'w) Server \<Rightarrow> 32 word \<Rightarrow> u64 \<Rightarrow> (status, (string \<times> string) list) result" where
  "rpc_item_properties s t i =
     result_bind
       (case item_type_try_from t of
          None \<Rightarrow> Err unknown_item_type
        | Some ItemActuator \<Rightarrow> lookup_properties (actuators s) i
        | Some ItemDevice \<Rightarrow> lookup_properties (devices s) i
        | Some ItemConsole \<Rightarrow> lookup_properties (consoles s) i
        | Some ItemVolume \<Rightarrow> lookup_properties (volumes s) i)
       (\<lambda>p. Ok (properties_iter p))"

record LoginInfo =
  li_description :: string
  li_url :: string
  li_client_id :: string

fun login_of :: "Authentication \<Rightarrow> LoginInfo option" where
  "login_of (Oidc description uri client audience) =
     Some \<lparr>li_description = description, li_url = uri, li_client_id = client\<rparr>"
| "login_of (Jwks path) = None"

definition rpc_login_info :: "('p, 'w) Server \<Rightarrow> LoginInfo list" where
  "rpc_login_info s = List.map_filter login_of (auth_info s)"

subsection \<open>Consoles, devices and actuators\<close>

definition rpc_console_configure ::
  "('p, 'w) Server \<Rightarrow> u64 \<Rightarrow> 'p option \<Rightarrow> 'w \<Rightarrow> (status, unit) result outcome \<times> 'w" where
  "rpc_console_configure s i params w =
     (case get_console s (U64Index i) of
        Some console \<Rightarrow>
          (case params of
             None \<Rightarrow> (Panicked, w)
           | Some p \<Rightarrow>
               (case con_configure console p w of
                  (Ok _, w1) \<Rightarrow> (Done (Ok ()), w1)
                | (Err e, w1) \<Rightarrow> (Panicked, w1)))
      | None \<Rightarrow> (Done (Err (Status InvalidArgument ''Can't find console'')), w))"

definition rpc_console_stream_output ::
  "('p, 'w) Server \<Rightarrow> u64 \<Rightarrow> 'w \<Rightarrow> (status, bytes outcome list) result \<times> 'w" where
  "rpc_console_stream_output s i w =
     (case get_console s (U64Index i) of
        Some console \<Rightarrow>
          (case output_stream console w of (r, w1) \<Rightarrow> (map_err status_of_console_error r, w1))
      | None \<Rightarrow> (Err (Status InvalidArgument ''Can't find output console''), w))"

datatype TargetOrData = TdConsole u64 | TdData bytes

text \<open>The messages after the first one; \<open>input\<close> is the sink of the console.\<close>

fun console_input_loop ::
  "'w console_sink \<Rightarrow> (status, TargetOrData option) result list \<Rightarrow> 'w \<Rightarrow>
   (status, unit) result outcome \<times> 'w" where
  "console_input_loop input [] w = (Done (Ok ()), w)"
| "console_input_loop input (Err e # msgs) w = (Done (Err e), w)"
| "console_input_loop input (Ok (Some (TdData data)) # msgs) w =
     (case input data w of
        (Ok _, w1) \<Rightarrow> console_input_loop input msgs w1
      | (Err e, w1) \<Rightarrow> (Panicked, w1))"
| "console_input_loop input (Ok (Some (TdConsole i)) # msgs) w =
     (Done (Err (Status InvalidArgument ''Target cannot be changed'')), w)"
| "console_input_loop input (Ok None # msgs) w =
     (Done (Err (Status InvalidArgument ''Target cannot be changed'')), w)"

definition rpc_console_stream_input ::
  "('p, 'w) Server \<Rightarrow> (status, TargetOrData option) result list \<Rightarrow> 'w \<Rightarrow>
   (status, unit) result outcome \<times> 'w" where
  "rpc_console_stream_input s rx w =
     (case rx of
        [] \<Rightarrow> (Done (Ok ()), w)
      | Err e # _ \<Rightarrow> (Done (Err e), w)
      | Ok (Some (TdConsole i)) # msgs \<Rightarrow>
          (case get_console s (U64Index i) of
             None \<Rightarrow> (Done (Err (Status NotFound ''No console by that name'')), w)
           | Some console \<Rightarrow>
               (case con_input console w of
                  (Err e, w1) \<Rightarrow> (Panicked, w1)
                | (Ok input, w1) \<Rightarrow> console_input_loop input msgs w1))
      | Ok _ # _ \<Rightarrow> (Done (Err (Status InvalidArgument ''Target should be set first'')), w))"

text \<open>
  The stream of \<^verbatim>\<open>device_info\<close>: the state of the device at once, then again after each
  notification. The list pairs what the receiver yields with the world in which the state
  is read.
\<close>

function device_info_updates ::
  "'w Device \<Rightarrow> ((RecvError, unit) result \<times> 'w) list \<Rightarrow> ProtoDevice list" where
  "device_info_updates d rs =
     (case device_monitor_wait rs of
        Some (Ok _, w, rest) \<Rightarrow> proto_device d w # device_info_updates d rest
      | Some (Err DeviceGone, _, _) \<Rightarrow> []
      | None \<Rightarrow> [])"
  by pat_completeness auto
termination
  by (relation "measure (\<lambda>(d, rs). length rs)") (auto dest: device_monitor_wait_shorter)

declare device_info_updates.simps [simp del]

lemma device_info_updates_simps [simp]:
  "device_info_updates d [] = []"
  "device_info_updates d ((Ok u, w) # rs) = proto_device d w # device_info_updates d rs"
  "device_info_updates d ((Err Closed, w) # rs) = []"
  "device_info_updates d ((Err (Lagged n), w) # rs) = device_info_updates d rs"
  using device_info_updates.simps [of d "[]"] device_info_updates.simps [of d "(Ok u, w) # rs"]
    device_info_updates.simps [of d "(Err Closed, w) # rs"]
    device_info_updates.simps [of d "(Err (Lagged n), w) # rs"] device_info_updates.simps [of d rs]
  by simp_all

definition rpc_device_info ::
  "('p, 'w) Server \<Rightarrow> u64 \<Rightarrow> 'w \<Rightarrow> ((RecvError, unit) result \<times> 'w) list \<Rightarrow>
   (status, ProtoDevice list) result" where
  "rpc_device_info s i w rs =
     (case get_device s i of
        Some d \<Rightarrow> Ok (proto_device d w # device_info_updates d rs)
      | None \<Rightarrow> Err (Status NotFound ''No such device''))"

fun status_of_set_mode_error :: "DeviceSetModeError \<Rightarrow> status" where
  "status_of_set_mode_error ModeNotFound = Status NotFound ''No mode by that name''"
| "status_of_set_mode_error WrongCurrentMode =
     Status FailedPrecondition ''Not in the right mode to switch''"
| "status_of_set_mode_error (ActuatorFailed e) = Status Aborted ''Actuator failed''"

definition rpc_device_change_mode ::
  "('p, 'w) Server \<Rightarrow> u64 \<Rightarrow> string \<Rightarrow> 'w \<Rightarrow> (status, unit) result \<times> 'w" where
  "rpc_device_change_mode s i mode w =
     (case get_device s i of
        Some d \<Rightarrow> (case dev_set_mode d mode w of (r, w1) \<Rightarrow> (map_err status_of_set_mode_error r, w1))
      | None \<Rightarrow> (Err (Status NotFound ''No device by that id''), w))"

definition rpc_actuator_change_mode ::
  "('p, 'w) Server \<Rightarrow> u64 \<Rightarrow> 'p option \<Rightarrow> 'w \<Rightarrow> (status, unit) result outcome \<times> 'w" where
  "rpc_actuator_change_mode s i params w =
     (case get_actuator s (U64Index i) of
        Some actuator \<Rightarrow>
          (case params of
             None \<Rightarrow> (Panicked, w)
           | Some p \<Rightarrow>
               (case act_set_mode actuator p w of
                  (Ok _, w1) \<Rightarrow> (Done (Ok ()), w1)
                | (Err e, w1) \<Rightarrow> (Panicked, w1)))
      | None \<Rightarrow> (Done (Err (Status InvalidArgument ''Can't find actuator'')), w))"

subsection \<open>Volumes\<close>

text \<open>
  \<^verbatim>\<open>volume_io\<close> with the task it spawns: \<open>alive\<close> is how many replies the client takes
  before it goes away.
\<close>

definition rpc_volume_io ::
  "('p, 'w) Server \<Rightarrow> (status, VolumeIoRequest) result list \<Rightarrow> nat \<Rightarrow> 'w \<Rightarrow>
   (status, (status, VolumeIoReplyMsg) result list) result \<times> 'w" where
  "rpc_volume_io s rx alive w =
     (case rx of
        [] \<Rightarrow> (Err (Status InvalidArgument ''No uploader/target selection''), w)
      | Err e # _ \<Rightarrow> (Err e, w)
      | Ok (Some (ReqTarget v target len)) # msgs \<Rightarrow>
          (case get_volume s (U64Index v) of
             None \<Rightarrow> (Err (Status NotFound ''No volume by that name''), w)
           | Some volume \<Rightarrow>
               (case vol_open volume target len w of
                  (Err e, w1) \<Rightarrow> (Err (status_of_volume_error e), w1)
                | (Ok (info, vt), w1) \<Rightarrow>
                    (case volume_io_loop vt msgs w1 of
                       (completions, w2) \<Rightarrow>
                         (Ok (replies_task alive (QTarget info # completions)), w2))))
      | Ok _ # _ \<Rightarrow> (Err (Status InvalidArgument ''Target should be set first''), w))"

definition rpc_volume_commit ::
  "('p, 'w) Server \<Rightarrow> u64 \<Rightarrow> 'w \<Rightarrow> (status, unit) result \<times> 'w" where
  "rpc_volume_commit s i w =
     (case get_volume s (U64Index i) of
        None \<Rightarrow> (Err (Status NotFound ''Volume not found''), w)
      | Some v \<Rightarrow> (case vol_commit v w of (r, w1) \<Rightarrow> (map_err status_of_volume_error r, w1)))"

definition rpc_volume_erase ::
  "('p, 'w) Server \<Rightarrow> u64 \<Rightarrow> string \<Rightarrow> 'w \<Rightarrow> (status, unit) result \<times> 'w" where
  "rpc_volume_erase s i target w =
     (case get_volume s (U64Index i) of
        None \<Rightarrow> (Err (Status NotFound ''Volume not found''), w)
      | Some v \<Rightarrow> (case vol_erase v target w of (r, w1) \<Rightarrow> (map_err status_of_volume_error r, w1)))"

definition rpc_volume_info ::
  "('p, 'w) Server \<Rightarrow> u64 \<Rightarrow> 'w \<Rightarrow> (status, VolumeTargetInfo list \<times> bool) result" where
  "rpc_volume_info s i w =
     (case get_volume s (U64Index i) of
        None \<Rightarrow> Err (Status NotFound ''Volume not found'')
      | Some v \<Rightarrow> (case vol_targets v w of (target, exhaustive) \<Rightarrow> Ok (target, exhaustive)))"

subsection \<open>Runs of the server\<close>

text \<open>
  What the providers do to the server: register and unregister items, in any order. Each
  registry sees the run of its own additions and removals.
\<close>

datatype ('p, 'w) server_op =
    RegisterActuator Properties "('p, 'w) Actuator" | UnregisterActuator ActuatorId
  | RegisterConsole Properties "('p, 'w) Console" | UnregisterConsole ConsoleId
  | RegisterVolume Properties "'w Volume" | UnregisterVolume VolumeId
  | RegisterDevice Properties "'w Device" | UnregisterDevice DeviceId

fun server_step :: "('p, 'w) server_op \<Rightarrow> ('p, 'w) Server \<Rightarrow> ('p, 'w) Server" where
  "server_step (RegisterActuator p a) s = snd (register_actuator p a s)"
| "server_step (UnregisterActuator i) s = unregister_actuator i s"
| "server_step (RegisterConsole p c) s = snd (register_console p c s)"
| "server_step (UnregisterConsole i) s = unregister_console i s"
| "server_step (RegisterVolume p v) s = snd (register_volume p v s)"
| "server_step (UnregisterVolume i) s = unregister_volume i s"
| "server_step (RegisterDevice p d) s = snd (register_device p d s)"
| "server_step (UnregisterDevice i) s = unregister_device i s"

definition server_run :: "('p, 'w) server_op list \<Rightarrow> ('p, 'w) Server \<Rightarrow> ('p, 'w) Server" where
  "server_run ops s = fold server_step ops s"

fun actuator_op :: "('p, 'w) server_op \<Rightarrow> (ActuatorKind, ('p, 'w) Actuator) registry_op option" where
  "actuator_op (RegisterActuator p a) = Some (AddOp p a)"
| "actuator_op (UnregisterActuator i) = Some (RemoveOp i)"
| "actuator_op _ = None"

fun console_op :: "('p, 'w) server_op \<Rightarrow> (ConsoleKind, ('p, 'w) Console) registry_op option" where
  "console_op (RegisterConsole p c) = Some (AddOp p c)"
| "console_op (UnregisterConsole i) = Some (RemoveOp i)"
| "console_op _ = None"

fun volume_op :: "('p, 'w) server_op \<Rightarrow> (VolumeKind, 'w Volume) registry_op option" where
  "volume_op (RegisterVolume p v) = Some (AddOp p v)"
| "volume_op (UnregisterVolume i) = Some (RemoveOp i)"
| "volume_op _ = None"

fun device_op :: "('p, 'w) server_op \<Rightarrow> (DeviceKind, 'w Device) registry_op option" where
  "device_op (RegisterDevice p d) = Some (AddOp p d)"
| "device_op (UnregisterDevice i) = Some (RemoveOp i)"
| "device_op _ = None"

lemma unregister_eq [simp]:
  "actuators (unregister_actuator i s) = registry_remove i (actuators s)"
  "consoles (unregister_console j s) = registry_remove j (consoles s)"
  "volumes (unregister_volume k s) = registry_remove k (volumes s)"
  "devices (unregister_device l s) = registry_remove l (devices s)"
  by (simp_all add: unregister_actuator_def unregister_console_def unregister_volume_def
      unregister_device_def registry_lookup_def registry_remove_def split: option.splits)

lemma register_eq [simp]:
  "actuators (snd (register_actuator p a s)) = snd (registry_add p a (actuators s))"
  "consoles (snd (register_console p c s)) = snd (registry_add p c (consoles s))"
  "volumes (snd (register_volume p v s)) = snd (registry_add p v (volumes s))"
  "devices (snd (register_device p d s)) = snd (registry_add p d (devices s))"
  by (simp_all add: register_actuator_def register_console_def register_volume_def
      register_device_def split_beta)

lemma register_id [simp]:
  "fst (register_actuator p a s) = next_id (actuators s)"
  "fst (register_console p c s) = next_id (consoles s)"
  "fst (register_volume p v s) = next_id (volumes s)"
  "fst (register_device p d s) = next_id (devices s)"
  by (simp_all add: register_actuator_def register_console_def register_volume_def
      register_device_def registry_add_def Let_def split_beta)

lemma server_frame [frame_simps]:
  "consoles (unregister_actuator i s) = consoles s" "volumes (unregister_actuator i s) = volumes s"
  "devices (unregister_actuator i s) = devices s"
  "actuators (unregister_console j s) = actuators s" "volumes (unregister_console j s) = volumes s"
  "devices (unregister_console j s) = devices s"
  "actuators (unregister_volume k s) = actuators s" "consoles (unregister_volume k s) = consoles s"
  "devices (unregister_volume k s) = devices s"
  "actuators (unregister_device l s) = actuators s" "consoles (unregister_device l s) = consoles s"
  "volumes (unregister_device l s) = volumes s"
  "consoles (snd (register_actuator p a s)) = consoles s"
  "volumes (snd (register_actuator p a s)) = volumes s"
  "devices (snd (register_actuator p a s)) = devices s"
  "actuators (snd (register_console p c s)) = actuators s"
  "volumes (snd (register_console p c s)) = volumes s"
  "devices (snd (register_console p c s)) = devices s"
  "actuators (snd (register_volume p v s)) = actuators s"
  "consoles (snd (register_volume p v s)) = consoles s"
  "devices (snd (register_volume p v s)) = devices s"
  "actuators (snd (register_device p d s)) = actuators s"
  "consoles (snd (register_device p d s)) = consoles s"
  "volumes (snd (register_device p d s)) = volumes s"
  by (simp_all add: unregister_actuator_def unregister_console_def unregister_volume_def
      unregister_device_def register_actuator_def register_console_def register_volume_def
      register_device_def split_beta split: option.splits)

lemma registry_run_step:
  "snd (registry_run (AddOp p t # ops) r) = snd (registry_run ops (snd (registry_add p t r)))"
  by (simp add: Let_def split_beta)

definition registry_step :: "('k, 't) registry_op \<Rightarrow> ('k, 't) Registry \<Rightarrow> ('k, 't) Registry" where
  "registry_step op r = (case op of AddOp p t \<Rightarrow> snd (registry_add p t r) | RemoveOp i \<Rightarrow> registry_remove i r)"

lemma registry_run_fold: "snd (registry_run ops r) = fold registry_step ops r"
proof (induction ops arbitrary: r)
  case (Cons op ops)
  then show ?case
    by (cases op) (simp_all add: registry_step_def registry_run_step del: registry_run.simps(2))
qed simp

lemma server_run_registries:
  "actuators (server_run ops s) = snd (registry_run (List.map_filter actuator_op ops) (actuators s))"
  "consoles (server_run ops s) = snd (registry_run (List.map_filter console_op ops) (consoles s))"
  "volumes (server_run ops s) = snd (registry_run (List.map_filter volume_op ops) (volumes s))"
  "devices (server_run ops s) = snd (registry_run (List.map_filter device_op ops) (devices s))"
  unfolding server_run_def registry_run_fold
proof (induction ops arbitrary: s)
  case (Cons op ops)
  { case 1 show ?case using Cons(1) [of "server_step op s"]
      by (cases op) (simp_all add: registry_step_def frame_simps) }
  { case 2 show ?case using Cons(2) [of "server_step op s"]
      by (cases op) (simp_all add: registry_step_def frame_simps) }
  { case 3 show ?case using Cons(3) [of "server_step op s"]
      by (cases op) (simp_all add: registry_step_def frame_simps) }
  { case 4 show ?case using Cons(4) [of "server_step op s"]
      by (cases op) (simp_all add: registry_step_def frame_simps) }
qed simp_all

subsection \<open>A subscriber of the item events\<close>

text \<open>
  What a client that applies the events of a monitor stream to a map has: an \<open>Add\<close> event
  sets each of its items, a \<open>Remove\<close> event drops one.
\<close>

definition apply_item :: "ProtoItem \<Rightarrow> (u64 \<rightharpoonup> ProtoItem) \<Rightarrow> (u64 \<rightharpoonup> ProtoItem)" where
  "apply_item pi m = m(pi_id pi \<mapsto> pi)"

fun apply_event :: "ItemEvent \<Rightarrow> (u64 \<rightharpoonup> ProtoItem) \<Rightarrow> (u64 \<rightharpoonup> ProtoItem)" where
  "apply_event (EventAdd pis) m = fold apply_item pis m"
| "apply_event (EventRemove i) m = m(i := None)"

definition proto_view :: "('k u64_index \<times> 't Item) list \<Rightarrow> (u64 \<rightharpoonup> ProtoItem)" where
  "proto_view m = (\<lambda>n. let i = U64Index n in map_option (to_proto_item i) (map_of m i))"

lemma pi_id_proto [simp]: "pi_id (to_proto_item i item) = index_u64 i"
  by (simp add: to_proto_item_def)

lemma apply_change_event:
  "apply_event (change_event c) (proto_view m) = proto_view (play_change c m)"
proof (cases c)
  case (Added i item)
  then show ?thesis by (cases i) (auto simp: proto_view_def Let_def apply_item_def fun_eq_iff)
next
  case (Removed i)
  then show ?thesis by (cases i) (auto simp: proto_view_def Let_def fun_eq_iff)
qed

lemma apply_monitor_events:
  "fold apply_event (monitor_events (map Ok cs @ [Err e])) (proto_view m) =
     proto_view (fold play_change cs m)"
  by (induction cs arbitrary: m) (simp_all add: apply_change_event)

lemma fold_apply_item:
  "distinct (map fst m) \<Longrightarrow>
   fold apply_item (map (\<lambda>(i, item). to_proto_item i item) m) f n =
     (case proto_view m n of Some pi \<Rightarrow> Some pi | None \<Rightarrow> f n)"
proof (induction m arbitrary: f)
  case (Cons p m)
  obtain i item where p: "p = (i, item)" by force
  have "map_of m (U64Index n) = None" if "index_u64 i = n"
    using that Cons.prems by (cases i) (auto simp: p map_of_eq_None_iff)
  with Cons show ?case
    by (cases i) (auto simp: p apply_item_def proto_view_def Let_def split: option.splits)
qed (simp add: proto_view_def)

lemma apply_item_list:
  "bt_inv (contents r) \<Longrightarrow> apply_event (EventAdd (to_item_list r)) Map.empty = proto_view (contents r)"
  by (rule ext) (simp add: to_item_list_def fold_apply_item bt_inv_distinct split: option.splits)

lemma proto_view_cong: "map_of m = map_of m' \<Longrightarrow> proto_view m = proto_view m'"
  by (simp add: proto_view_def)

subsection \<open>The properties of the server\<close>

text \<open>
  C15. A monitor stream converges: a client that subscribes while the registry changes, gets
  a list read some changes later, and then every change since its subscription (some of which
  the list already shows) ends with exactly the items the registry then holds.
\<close>

theorem monitor_stream_converges:
  assumes "registry_run ops0 registry_new = (ids0, r0)"
    and "registry_run ops1 r0 = (ids1, r1)" and "registry_run ops2 r1 = (ids2, r2)"
  shows "fold apply_event
      (to_item_stream r1 (map Ok (drop (registry_monitor r0) (monitor r2)) @ [Err e])) Map.empty =
    proto_view (contents r2)"
proof -
  have inv: "registry_inv r1" "registry_inv r2"
    using registry_run_inv assms registry_inv_new by blast+
  let ?t0 = "length (monitor r0)" and ?t1 = "length (monitor r1)"
  from assms(2,3) [THEN registry_run_monitor] obtain cs1 cs2 where
    cs: "monitor r1 = monitor r0 @ cs1" "monitor r2 = monitor r1 @ cs2" by blast
  then have t: "?t0 \<le> ?t1" and r1: "contents r1 = fold play_change (take ?t1 (monitor r2)) []"
    and r2: "contents r2 = fold play_change (monitor r2) []"
    using inv by (auto simp: registry_inv_def)
  have "bt_inv (contents r1)" using inv(1) by (simp add: registry_inv_def)
  then have "fold apply_event
      (to_item_stream r1 (map Ok (drop ?t0 (monitor r2)) @ [Err e])) Map.empty =
      proto_view (fold play_change (drop ?t0 (monitor r2)) (contents r1))"
    using apply_monitor_events [of "drop ?t0 (monitor r2)" e "contents r1"]
    by (simp add: to_item_stream_def apply_item_list del: apply_event.simps)
  also have "\<dots> = proto_view (contents r2)"
    unfolding r1 r2 by (rule proto_view_cong [OF reglog.resync [OF t]])
  finally show ?thesis by (simp add: registry_monitor_def)
qed

lemma monitor_stream_converges_witness:
  "\<exists>(r0 :: (VolumeKind, nat) Registry) (r1 :: (VolumeKind, nat) Registry)
      (r2 :: (VolumeKind, nat) Registry). fold apply_event
      (to_item_stream r1 (map Ok (drop (registry_monitor r0) (monitor r2)) @ [Err Closed])) Map.empty =
    proto_view (contents r2) \<and>
    map fst (contents r2) = [U64Index 1 :: VolumeKind u64_index] \<and> monitor r2 \<noteq> monitor r0"
  (is "\<exists>r0 r1 r2. ?P r0 r1 r2")
proof -
  let ?add = "\<lambda>n::nat. AddOp (properties_new ''v'') n"
  obtain i0 and r0 :: "(VolumeKind, nat) Registry" where
    r0: "registry_run [?add 5] registry_new = (i0, r0)" by (metis surj_pair)
  obtain i1 r1 where r1: "registry_run [?add 6] r0 = (i1, r1)" by (metis surj_pair)
  obtain i2 r2 where r2: "registry_run [RemoveOp (U64Index 0)] r1 = (i2, r2)" by (metis surj_pair)
  have "map fst (contents r2) = [U64Index 1] \<and> monitor r2 \<noteq> monitor r0"
    using r0 r1 r2 by (auto simp: registry_add_def registry_new_def Let_def index_default_def
        index_next_def less_u64_index_def registry_remove_def bt_remove_def)
  with monitor_stream_converges [OF r0 r1 r2, of Closed] show ?thesis
    by (intro exI [of _ r0] exI [of _ r1] exI [of _ r2] conjI) simp_all
qed

text \<open>
  C16. A stale handle never reaches another volume: once a volume that was registered is
  unregistered, every later \<^verbatim>\<open>VolumeIo\<close> call that names its identifier is answered with
  \<^verbatim>\<open>NotFound\<close> and touches nothing, whatever is registered and unregistered in between (up
  to $2^{64}$ volumes in all).
\<close>

theorem volume_stale_handle_not_found:
  assumes reg: "registry_run (List.map_filter volume_op ops) registry_new = (ids, r)"
    and i: "U64Index v \<in> set ids"
    and later: "registry_run (List.map_filter volume_op ops') (registry_remove (U64Index v) r) = (ids', r')"
    and bound: "length ids + length ids' \<le> 2 ^ 64"
  shows "rpc_volume_io
      (server_run ops' (unregister_volume (U64Index v) (server_run ops (server_new auth dir))))
      (Ok (Some (ReqTarget v target len)) # msgs) alive w =
    (Err (Status NotFound ''No volume by that name''), w)"
proof -
  let ?s = "server_run ops' (unregister_volume (U64Index v) (server_run ops (server_new auth dir)))"
  have vols: "volumes ?s = r'"
    using reg later by (simp add: server_run_registries server_new_def)
  have "registry_run (List.map_filter volume_op ops @ [RemoveOp (U64Index v)]) registry_new =
      (ids, registry_remove (U64Index v) r)"
    using reg by (simp add: registry_run_append)
  from registry_dead_stays_dead [OF this later i _ bound]
  have "registry_lookup r' (U64Index v) = None" by simp
  with vols show ?thesis by (simp add: rpc_volume_io_def get_volume_def)
qed

definition null_volume :: "'w Volume" where
  "null_volume =
     \<lparr>vol_targets = (\<lambda>w. ([], True)), vol_open = (\<lambda>t l w. (Err UnknownTargetRequested, w)),
      vol_commit = (\<lambda>w. (Ok (), w)), vol_erase = default_erase\<rparr>"

lemma volume_stale_handle_not_found_witness:
  "rpc_volume_io
      (server_run [RegisterVolume (properties_new ''b'') null_volume]
        (unregister_volume (U64Index 0)
          (server_run [RegisterVolume (properties_new ''a'') null_volume]
            (server_new [] ''/etc'' :: (unit, nat) Server))))
      [Ok (Some (ReqTarget 0 ''boot'' None))] 8 42 =
    (Err (Status NotFound ''No volume by that name''), 42)"
  by (rule volume_stale_handle_not_found [OF prod.collapse [symmetric] _ prod.collapse [symmetric]])
     (simp_all add: List.map_filter_simps registry_add_def registry_new_def Let_def index_default_def)

text \<open>
  A \<^verbatim>\<open>VolumeIo\<close> session: when the first message names a live volume that opens, the
  replies are, as far as the client reads and no completion is dropped, first the description
  of the target and then one reply per request, in order and of its kind.
\<close>

theorem volume_io_session:
  assumes "get_volume s (U64Index v) = Some volume"
    and "vol_open volume target len w = (Ok (info, vt), w1)"
    and "list_all (\<lambda>q. \<not> is_target q) qs"
  shows "\<exists>n replies. rpc_volume_io s (Ok (Some (ReqTarget v target len)) # requests qs) (Suc alive) w =
      (Ok (Ok (Some (RepTarget (Some info))) # replies), snd (volume_io_loop vt (requests qs) w1)) \<and>
    list_all2 answers (take n qs) replies"
proof -
  from volume_io_loop_queue [OF assms(3), of vt w1] obtain cs w2 where
    cs: "list_all2 queued_for qs cs"
    and eq: "\<And>msgs. volume_io_loop vt (requests qs @ msgs) w1 =
       (cs @ fst (volume_io_loop vt msgs w2), snd (volume_io_loop vt msgs w2))" by auto
  from replies_task_prefix [OF cs, of alive] obtain n where
    "list_all2 answers (take n qs) (replies_task alive cs)" ..
  then show ?thesis using assms(1,2) eq [of "[]"] by (auto simp: rpc_volume_io_def)
qed

definition zero_volume :: "'w Volume" where
  "zero_volume = null_volume\<lparr>vol_open := (\<lambda>t l w.
     (Ok (\<lparr>target_name = t, readable = False, writable = False, seekable = False,
           target_size = l, blocksize = None\<rparr>, default_target), w))\<rparr>"

lemma volume_io_session_witness:
  "\<exists>n replies. rpc_volume_io
      (server_run [RegisterVolume (properties_new ''a'') zero_volume]
         (server_new [] ''/etc'' :: (unit, nat) Server))
      (Ok (Some (ReqTarget 0 ''boot'' None)) # requests [ReqFlush]) (Suc 7) 42 =
    (Ok (Ok (Some (RepTarget (Some
       \<lparr>target_name = ''boot'', readable = False, writable = False, seekable = False,
        target_size = None, blocksize = None\<rparr>))) # replies),
     snd (volume_io_loop default_target (requests [ReqFlush]) 42)) \<and>
    list_all2 answers (take n [ReqFlush]) replies"
  by (rule volume_io_session [where volume = zero_volume and ?w1.0 = 42])
     (simp_all add: get_volume_def server_run_def server_new_def registry_lookup_def
       registry_add_def registry_new_def Let_def index_default_def item_new_def zero_volume_def
       is_target_def)

text \<open>
  Console input arrives in order: when the console opens and accepts every write, the data
  of all messages up to the first that is not data is written, in order, and the call
  succeeds exactly when the stream ended and all its messages were data.
\<close>

theorem console_input_in_order:
  assumes "get_console s (U64Index i) = Some c" and "con_input c w = (Ok input, w1)"
    and "\<And>d w. is_ok (fst (input d w))"
  shows "rpc_console_stream_input s
      (Ok (Some (TdConsole i)) # map (\<lambda>d. Ok (Some (TdData d))) ds @ rest) w =
    (case rest of
       [] \<Rightarrow> (Done (Ok ()), fold (\<lambda>d w. snd (input d w)) ds w1)
     | Ok (Some (TdData d)) # rest' \<Rightarrow>
         console_input_loop input rest (fold (\<lambda>d w. snd (input d w)) ds w1)
     | Ok _ # rest' \<Rightarrow>
         (Done (Err (Status InvalidArgument ''Target cannot be changed'')),
          fold (\<lambda>d w. snd (input d w)) ds w1)
     | Err e # rest' \<Rightarrow> (Done (Err e), fold (\<lambda>d w. snd (input d w)) ds w1))"
proof -
  have "console_input_loop input (map (\<lambda>d. Ok (Some (TdData d))) ds @ rest) v =
      console_input_loop input rest (fold (\<lambda>d w. snd (input d w)) ds v)" for v
  proof (induction ds arbitrary: v)
    case (Cons d ds)
    from assms(3) [of d v] obtain u v1 where "input d v = (Ok u, v1)"
      by (cases "input d v"; cases "fst (input d v)") auto
    with Cons.IH [of v1] show ?case by simp
  qed simp
  with assms(1,2) show ?thesis
    by (auto simp: rpc_console_stream_input_def
        split: list.splits sum.splits option.splits TargetOrData.splits)
qed

definition log_console :: "('p, bytes list) Console" where
  "log_console =
     \<lparr>con_configure = (\<lambda>p w. (Ok (), w)), con_input = (\<lambda>w. (Ok (\<lambda>d w. (Ok (), w @ [d])), w)),
      con_output = (\<lambda>w. (Ok (map Ok w), w))\<rparr>"

lemma console_input_in_order_witness:
  "rpc_console_stream_input
      (server_run [RegisterConsole (properties_new ''c'') log_console]
         (server_new [] ''/etc'' :: (unit, bytes list) Server))
      (Ok (Some (TdConsole 0)) # map (\<lambda>d. Ok (Some (TdData d))) [[1, 2], [3]] @ []) [] =
    (Done (Ok ()), [[1, 2], [3]])"
  by (subst console_input_in_order
        [where c = log_console and input = "\<lambda>d w. (Ok (), w @ [d])" and ?w1.0 = "[]"])
     (simp_all add: get_console_def server_run_def server_new_def registry_lookup_def
       registry_add_def registry_new_def Let_def index_default_def item_new_def log_console_def)

text \<open>
  A lagging watcher of a device is not disconnected: the stream of \<^verbatim>\<open>device_info\<close> shows
  the state once at the start and once for each notification received, in order, skips the
  reports of lost notifications, and ends only when the notifier is closed.
\<close>

theorem device_info_skips_lag:
  "rpc_device_info s i w rs =
    (case get_device s i of
       None \<Rightarrow> Err (Status NotFound ''No such device'')
     | Some d \<Rightarrow> Ok (map (proto_device d)
         (w # map snd (filter (\<lambda>r. is_ok (fst r)) (takeWhile (\<lambda>r. fst r \<noteq> Err Closed) rs)))))"
proof -
  have "device_info_updates d rs = map (proto_device d)
      (map snd (filter (\<lambda>r. is_ok (fst r)) (takeWhile (\<lambda>r. fst r \<noteq> Err Closed) rs)))" for d
  proof (induction rs)
    case (Cons r rs)
    then show ?case
      by (cases r; cases "fst r") (auto intro: RecvError.exhaust [of "projl (fst r)"])
  qed simp
  then show ?thesis by (simp add: rpc_device_info_def split: option.splits)
qed

end
