(* ===== verification/Server_Main.thy ===== *)
theory Server_Main
  imports Server
begin

section \<open>Starting the server (boardswarm/src/main.rs)\<close>

text \<open>
  From the command line and the configuration file to a server with its devices and
  providers: the address to listen on, the authentication methods, the devices, and the
  providers in the order of the file. Addresses are types of the standard library (\<open>'a\<close> a
  socket address, \<open>'i\<close> an IP address) with their parsers as parameters; what a provider does
  once it is started is in its own theory. The lemmas: which address is used, which items the
  server starts with, and exactly which providers are started.
\<close>

subsection \<open>The address and the authentication methods\<close>

definition DEFAULT_PORT :: u16 where
  "DEFAULT_PORT = 6683"

record ('a, 'i) addresses =
  parse_socket :: "string \<Rightarrow> 'a option"
  parse_ip :: "string \<Rightarrow> 'i option"
  socket_new :: "'i \<Rightarrow> u16 \<Rightarrow> 'a"
  localhost :: 'i

definition parse_listen_address :: "('a, 'i) addresses \<Rightarrow> string \<Rightarrow> 'a option" where
  "parse_listen_address ad addr =
     (case parse_socket ad addr of
        Some a \<Rightarrow> Some a
      | None \<Rightarrow> map_option (\<lambda>ip. socket_new ad ip DEFAULT_PORT) (parse_ip ad addr))"

datatype main_error = BadListenAddress | NoAuthentication | NeedsSerial string | MissingParameters string

text \<open>The address of the command line, or else of the file, which must parse if it is there.\<close>

definition listen_address ::
  "('a, 'i) addresses \<Rightarrow> 'a option \<Rightarrow> string option \<Rightarrow> (main_error, 'a) result" where
  "listen_address ad opt config =
     result_bind
       (case config of
          None \<Rightarrow> Ok None
        | Some l \<Rightarrow> (case parse_listen_address ad l of None \<Rightarrow> Err BadListenAddress | Some a \<Rightarrow> Ok (Some a)))
       (\<lambda>listen_config. Ok (case (opt, listen_config) of
          (Some l, _) \<Rightarrow> l
        | (None, Some c) \<Rightarrow> c
        | (None, None) \<Rightarrow> socket_new ad (localhost ad) DEFAULT_PORT))"

text \<open>\<^verbatim>\<open>with_file_name\<close>: relative to the directory of the file, unless it is absolute.\<close>

definition beside_file :: "string \<Rightarrow> string \<Rightarrow> string" where
  "beside_file config_file path =
     (if take 1 path = ''/'' then path
      else rev (dropWhile (\<lambda>c. c \<noteq> CHR ''/'') (rev config_file)) @ path)"

fun locate_authentication :: "string \<Rightarrow> Authentication \<Rightarrow> Authentication" where
  "locate_authentication config_file (Jwks path) = Jwks (beside_file config_file path)"
| "locate_authentication config_file (Oidc d u c a) = Oidc d u c a"

definition main_authentication ::
  "string \<Rightarrow> ServerConfig \<Rightarrow> (main_error, Authentication list) result" where
  "main_authentication config_file sc =
     (let authentication = map (locate_authentication config_file) (sc_authentication sc)
      in if authentication = [] then Err NoAuthentication else Ok authentication)"

text \<open>\<^verbatim>\<open>setup_auth_layer\<close>: one tenant for each method; \<open>oidc_tenant\<close> and \<open>jwks_tenant\<close> may fail.\<close>

fun setup_auth_layer ::
  "(string \<Rightarrow> string list \<Rightarrow> 't option) \<Rightarrow> (string \<Rightarrow> 't option) \<Rightarrow> (string \<rightharpoonup> string) \<Rightarrow>
   Authentication list \<Rightarrow> 't list option" where
  "setup_auth_layer oidc_tenant jwks_tenant files [] = Some []"
| "setup_auth_layer oidc_tenant jwks_tenant files (a # as) =
     (case (case a of
              Oidc d uri c audience \<Rightarrow> oidc_tenant uri audience
            | Jwks path \<Rightarrow> Option.bind (files path) jwks_tenant) of
        None \<Rightarrow> None
      | Some t \<Rightarrow> map_option ((#) t) (setup_auth_layer oidc_tenant jwks_tenant files as))"

subsection \<open>Devices and providers\<close>

definition register_devices ::
  "('y DeviceConfig \<Rightarrow> 'w Device) \<Rightarrow> 'y DeviceConfig list \<Rightarrow> ('p, 'w) Server \<Rightarrow> ('p, 'w) Server" where
  "register_devices device_of ds s =
     fold (\<lambda>d s. snd (register_device (properties_new (dc_name d)) (device_of d) s)) ds s"

datatype 'y started =
    StartDfu string | StartRockusb string | StartFastboot string "'y option" | StartEswin string "'y option"
  | StartGpio string 'y | StartPdudaemon string 'y | StartBoardswarm string 'y | StartSerial string

datatype 'y serial_user = AddHifive string "'y option" | AddBrom string "'y option"

text \<open>The serial provider, if there is one, with the providers that were added to it.\<close>

record 'y startup =
  su_serial :: "(string \<times> 'y serial_user list) option"
  su_started :: "'y started list"

definition serial_provider :: "'y ProviderConfig list \<Rightarrow> string option" where
  "serial_provider ps = map_option pc_name (List.find (\<lambda>p. pc_name p = ''serial'') ps)"

definition add_to_serial :: "'y serial_user \<Rightarrow> string \<Rightarrow> 'y startup \<Rightarrow> (main_error, 'y startup) result" where
  "add_to_serial u what st =
     (case su_serial st of
        Some (n, us) \<Rightarrow> Ok (st\<lparr>su_serial := Some (n, us @ [u])\<rparr>)
      | None \<Rightarrow> Err (NeedsSerial what))"

definition start :: "'y started \<Rightarrow> 'y startup \<Rightarrow> (main_error, 'y startup) result" where
  "start x st = Ok (st\<lparr>su_started := su_started st @ [x]\<rparr>)"

definition with_parameters :: "string \<Rightarrow> 'y option \<Rightarrow> ('y \<Rightarrow> (main_error, 'a) result) \<Rightarrow> (main_error, 'a) result" where
  "with_parameters what y f = (case y of None \<Rightarrow> Err (MissingParameters what) | Some y \<Rightarrow> f y)"

definition start_one :: "'y ProviderConfig \<Rightarrow> 'y startup \<Rightarrow> (main_error, 'y startup) result" where
  "start_one p st =
     (let name = pc_name p; kind = pc_provider p; params = pc_parameters p in
      if kind = ''dfu'' then start (StartDfu name) st
      else if kind = ''hifive-p550-mcu'' then add_to_serial (AddHifive name params) kind st
      else if kind = ''mediatek-brom'' then add_to_serial (AddBrom name params) kind st
      else if kind = ''rockusb'' then start (StartRockusb name) st
      else if kind = ''serial'' then Ok st
      else if kind = ''fastboot'' then start (StartFastboot name params) st
      else if kind = ''eswin-eic7700-storage'' then start (StartEswin name params) st
      else if kind = ''gpio'' then with_parameters kind params (\<lambda>y. start (StartGpio name y) st)
      else if kind = ''pdudaemon'' then with_parameters kind params (\<lambda>y. start (StartPdudaemon name y) st)
      else if kind = ''boardswarm'' then with_parameters kind params (\<lambda>y. start (StartBoardswarm name y) st)
      else Ok st)"

fun start_all :: "'y ProviderConfig list \<Rightarrow> 'y startup \<Rightarrow> (main_error, 'y startup) result" where
  "start_all [] st = Ok st"
| "start_all (p # ps) st = result_bind (start_one p st) (start_all ps)"

definition start_providers :: "'y ProviderConfig list \<Rightarrow> (main_error, 'y startup) result" where
  "start_providers ps =
     result_bind
       (start_all ps \<lparr>su_serial = map_option (\<lambda>n. (n, [])) (serial_provider ps), su_started = []\<rparr>)
       (\<lambda>st. Ok (case su_serial st of
           None \<Rightarrow> st
         | Some (n, us) \<Rightarrow> st\<lparr>su_started := su_started st @ [StartSerial n]\<rparr>))"

text \<open>\<^verbatim>\<open>main\<close> up to the point where it serves: the address, the server and the providers.\<close>

definition main_start ::
  "('a, 'i) addresses \<Rightarrow> ('y DeviceConfig \<Rightarrow> 'w Device) \<Rightarrow> 'a option \<Rightarrow> string \<Rightarrow> string \<Rightarrow> 'y Config \<Rightarrow>
   (main_error, 'a \<times> ('p, 'w) Server \<times> 'y startup) result" where
  "main_start ad device_of opt config_file dir config =
     result_bind (listen_address ad opt (sc_listen (cfg_server config))) (\<lambda>addr.
       result_bind (main_authentication config_file (cfg_server config)) (\<lambda>authentication.
         (let server = register_devices device_of (cfg_devices config) (server_new authentication dir) in
          result_bind (start_providers (cfg_providers config)) (\<lambda>st. Ok (addr, server, st)))))"

subsection \<open>Which providers are started\<close>

text \<open>The task of one entry of the file, and its part in the serial provider.\<close>

definition task_of :: "'y ProviderConfig \<Rightarrow> 'y started option" where
  "task_of p =
     (let name = pc_name p; y = pc_parameters p in
      map_of [(''dfu'', StartDfu name), (''rockusb'', StartRockusb name), (''fastboot'', StartFastboot name y),
        (''eswin-eic7700-storage'', StartEswin name y), (''gpio'', StartGpio name (the y)),
        (''pdudaemon'', StartPdudaemon name (the y)), (''boardswarm'', StartBoardswarm name (the y))]
        (pc_provider p))"

definition user_of :: "'y ProviderConfig \<Rightarrow> 'y serial_user option" where
  "user_of p =
     map_of [(''hifive-p550-mcu'', AddHifive (pc_name p) (pc_parameters p)),
       (''mediatek-brom'', AddBrom (pc_name p) (pc_parameters p))] (pc_provider p)"

definition provider_configured :: "bool \<Rightarrow> 'y ProviderConfig \<Rightarrow> bool" where
  "provider_configured serial p \<longleftrightarrow>
     (user_of p \<noteq> None \<longrightarrow> serial) \<and>
     (pc_provider p \<in> {''gpio'', ''pdudaemon'', ''boardswarm''} \<longrightarrow> pc_parameters p \<noteq> None)"

definition add_users :: "'y serial_user list \<Rightarrow> 'y startup \<Rightarrow> 'y startup" where
  "add_users us st = st\<lparr>su_serial := map_option (\<lambda>(n, vs). (n, vs @ us)) (su_serial st)\<rparr>"

definition started_after :: "'y ProviderConfig list \<Rightarrow> 'y startup \<Rightarrow> 'y startup" where
  "started_after ps st =
     (add_users (List.map_filter user_of ps) st)\<lparr>su_started := su_started st @ List.map_filter task_of ps\<rparr>"

lemma started_after_Nil [simp]: "started_after [] st = st"
  by (cases st; cases "su_serial st") (auto simp: started_after_def add_users_def List.map_filter_simps)

lemma started_after_Cons:
  "started_after (p # ps) st = started_after ps (started_after [p] st)"
  by (cases st; cases "su_serial st")
    (auto simp: started_after_def add_users_def List.map_filter_simps split: option.splits)

lemma start_one_iff:
  "start_one p st = Ok st' \<longleftrightarrow>
     provider_configured (su_serial st \<noteq> None) p \<and> st' = started_after [p] st"
  by (cases st; cases "su_serial st")
    (auto simp: start_one_def provider_configured_def task_of_def user_of_def started_after_def add_users_def
      add_to_serial_def start_def with_parameters_def Let_def List.map_filter_simps
      split: if_splits option.splits)

lemma started_after_serial [simp]: "su_serial (started_after ps st) = None \<longleftrightarrow> su_serial st = None"
  by (simp add: started_after_def add_users_def)

lemma start_all_iff:
  "start_all ps st = Ok st' \<longleftrightarrow>
     (\<forall>p\<in>set ps. provider_configured (su_serial st \<noteq> None) p) \<and> st' = started_after ps st"
proof (induction ps arbitrary: st)
  case (Cons p ps)
  show ?case
  proof (cases "provider_configured (su_serial st \<noteq> None) p")
    case True
    then have "start_one p st = Ok (started_after [p] st)" by (simp add: start_one_iff)
    with True show ?thesis by (auto simp: Cons.IH started_after_Cons [of p ps])
  next
    case False
    then obtain e where "start_one p st = Err e"
      using start_one_iff [of p st] by (cases "start_one p st") auto
    with False show ?thesis by auto
  qed
qed auto

definition named_serial :: "'y ProviderConfig list \<Rightarrow> bool" where
  "named_serial ps = list_ex (\<lambda>p. pc_name p = ''serial'') ps"

lemma serial_provider_eq: "serial_provider ps = (if named_serial ps then Some ''serial'' else None)"
  by (induction ps) (auto simp: serial_provider_def named_serial_def)

text \<open>
  Which providers a server starts: starting succeeds exactly when every provider that
  needs the serial provider finds an entry \<^emph>\<open>named\<close> \<^verbatim>\<open>serial\<close> in the file, whatever the kind of
  that entry, and every GPIO, PDUDaemon and remote boardswarm provider has its parameters.
  Then every entry of a kind of its own is started once, in the order of the file, the boot
  ROM and microcontroller providers are added to the serial provider in that order, and the
  serial provider itself is started last. An entry of the kind \<^verbatim>\<open>serial\<close> with another name
  starts nothing.
\<close>

theorem providers_started:
  "start_providers ps = Ok st \<longleftrightarrow>
     (\<forall>p\<in>set ps. provider_configured (named_serial ps) p) \<and>
     st = \<lparr>su_serial = (if named_serial ps then Some (''serial'', List.map_filter user_of ps) else None),
           su_started = List.map_filter task_of ps @ (if named_serial ps then [StartSerial ''serial''] else [])\<rparr>"
proof (cases "\<forall>p\<in>set ps. provider_configured (named_serial ps) p")
  case True
  let ?st = "\<lparr>su_serial = map_option (\<lambda>n. (n, [])) (serial_provider ps), su_started = []\<rparr>"
  have "start_all ps ?st = Ok (started_after ps ?st)"
    using True by (cases "named_serial ps") (simp_all add: start_all_iff serial_provider_eq)
  with True show ?thesis
    by (auto simp: start_providers_def serial_provider_eq started_after_def add_users_def)
next
  case False
  let ?st = "\<lparr>su_serial = map_option (\<lambda>n. (n, [])) (serial_provider ps), su_started = []\<rparr>"
  obtain e where "start_all ps ?st = Err e"
    using False start_all_iff [of ps ?st] by (cases "start_all ps ?st"; cases "named_serial ps") (auto simp: serial_provider_eq)
  with False show ?thesis by (simp add: start_providers_def)
qed

text \<open>A file whose serial provider has a name of its own: it is not started, and nothing says so.\<close>

theorem providers_started_witness:
  "start_providers
     [\<lparr>pc_name = ''uarts'', pc_provider = ''serial'', pc_parameters = None\<rparr>,
      \<lparr>pc_name = ''lab'', pc_provider = ''gpio'', pc_parameters = Some (0 :: nat)\<rparr>] =
     Ok \<lparr>su_serial = None, su_started = [StartGpio ''lab'' 0]\<rparr>"
  unfolding providers_started
  by (simp add: provider_configured_def user_of_def task_of_def named_serial_def List.map_filter_simps)

lemma serial_named_by_accident:
  "start_providers
     [\<lparr>pc_name = ''serial'', pc_provider = ''gpio'', pc_parameters = Some (0 :: nat)\<rparr>] =
     Ok \<lparr>su_serial = Some (''serial'', []), su_started = [StartGpio ''serial'' 0, StartSerial ''serial'']\<rparr>"
  by (simp add: start_providers_def start_one_def serial_provider_def start_def with_parameters_def)

subsection \<open>The address and the devices a server starts with\<close>

lemma listen_address_choice:
  "listen_address ad opt config = Ok a \<Longrightarrow>
     (\<forall>l. opt = Some l \<longrightarrow> a = l) \<and>
     (\<forall>l. opt = None \<longrightarrow> config = Some l \<longrightarrow> parse_listen_address ad l = Some a) \<and>
     (opt = None \<longrightarrow> config = None \<longrightarrow> a = socket_new ad (localhost ad) DEFAULT_PORT)"
  by (auto simp: listen_address_def split: option.splits)

lemma register_devices_append:
  "register_devices f (ds @ es) s = register_devices f es (register_devices f ds s)"
  by (simp add: register_devices_def)

lemma authentication_needed:
  "main_start ad f opt cf dir config = Ok r \<Longrightarrow> sc_authentication (cfg_server config) \<noteq> []"
  by (auto simp: main_start_def main_authentication_def Let_def result_bind_def split: sum.splits if_splits)

lemma main_start_ok:
  "main_start ad f opt cf dir config = Ok (a, s, st) \<Longrightarrow>
     listen_address ad opt (sc_listen (cfg_server config)) = Ok a \<and>
     start_providers (cfg_providers config) = Ok st"
  by (auto simp: main_start_def Let_def result_bind_def split: sum.splits)

end
