(* ===== verification/Udev.thy ===== *)
theory Udev
  imports Server
begin

section \<open>Hot-plugged devices (boardswarm/src/udev.rs)\<close>

text \<open>
  The registrations of the devices udev announces: a device is pre-registered when it
  appears, its items are registered in one batch when its setup is done, unless it went away
  or came back meanwhile, and they are unregistered when it is removed. Every operation
  holds the lock of the map, so the component is a state machine whose steps are the
  operations. A udev device is a parameter: its subsystem, type, path, properties and
  parent. The lemmas: the items the providers have in the server are exactly those the map
  owns (nothing leaks, nothing is unregistered twice), the interface string and the
  property chain.
\<close>

subsection \<open>Registrations\<close>

datatype Registration =
    RActuator ActuatorId | RConsole ConsoleId | RVolume VolumeId

datatype RegistrationState = RegPending u64 | Registered "Registration list"

type_synonym registration_map = "(string \<times> RegistrationState) list"

definition unregister_one :: "Registration \<Rightarrow> ('p, 'w) Server \<Rightarrow> ('p, 'w) Server" where
  "unregister_one r s =
     (case r of RActuator i \<Rightarrow> unregister_actuator i s | RConsole i \<Rightarrow> unregister_console i s
      | RVolume i \<Rightarrow> unregister_volume i s)"

definition unregister_all :: "Registration list \<Rightarrow> ('p, 'w) Server \<Rightarrow> ('p, 'w) Server" where
  "unregister_all rs s = fold unregister_one rs s"

definition pre_register ::
  "string \<Rightarrow> u64 \<Rightarrow> registration_map \<Rightarrow> ('p, 'w) Server \<Rightarrow>
   (string \<times> u64) \<times> registration_map \<times> ('p, 'w) Server" where
  "pre_register path seqnum m s =
     ((path, seqnum), AList.update path (RegPending seqnum) m,
      case map_of m path of Some (Registered rs) \<Rightarrow> unregister_all rs s | _ \<Rightarrow> s)"

definition remove_device ::
  "string \<Rightarrow> registration_map \<Rightarrow> ('p, 'w) Server \<Rightarrow> registration_map \<times> ('p, 'w) Server" where
  "remove_device path m s =
     (AList.delete path m,
      case map_of m path of Some (Registered rs) \<Rightarrow> unregister_all rs s | _ \<Rightarrow> s)"

text \<open>What the closure of a batch registers through its \<^verbatim>\<open>RegistrationGuard\<close>, in order.\<close>

datatype ('p, 'w) batch_item =
    BActuator Properties "('p, 'w) Actuator"
  | BConsole Properties "('p, 'w) Console"
  | BVolume Properties "'w Volume"

fun guard_register ::
  "('p, 'w) batch_item \<Rightarrow> Registration list \<times> ('p, 'w) Server \<Rightarrow> Registration list \<times> ('p, 'w) Server" where
  "guard_register (BActuator p a) (rs, s) =
     (let (i, s1) = register_actuator p a s in (rs @ [RActuator i], s1))"
| "guard_register (BConsole p c) (rs, s) =
     (let (i, s1) = register_console p c s in (rs @ [RConsole i], s1))"
| "guard_register (BVolume p v) (rs, s) =
     (let (i, s1) = register_volume p v s in (rs @ [RVolume i], s1))"

text \<open>
  \<^verbatim>\<open>Drop\<close> of a pre-registration, and \<^verbatim>\<open>register_batch\<close>, which consumes it: it is
  dropped at the end of the call.
\<close>

definition drop_prereg :: "string \<times> u64 \<Rightarrow> registration_map \<Rightarrow> registration_map" where
  "drop_prereg h m =
     (case map_of m (fst h) of
        Some (RegPending s) \<Rightarrow> if s = snd h then AList.delete (fst h) m else m
      | _ \<Rightarrow> m)"

definition register_batch ::
  "string \<times> u64 \<Rightarrow> ('p, 'w) batch_item list \<Rightarrow> registration_map \<Rightarrow> ('p, 'w) Server \<Rightarrow>
   registration_map \<times> ('p, 'w) Server" where
  "register_batch h items m s =
     (let (m1, s1) =
        (case map_of m (fst h) of
           Some (RegPending sn) \<Rightarrow>
             if sn = snd h
             then (let (rs, s1) = fold guard_register items ([], s)
                   in (AList.update (fst h) (Registered rs) m, s1))
             else (m, s)
         | _ \<Rightarrow> (m, s))
      in (drop_prereg h m1, s1))"

definition prereg_register_actuator where
  "prereg_register_actuator h p a m s = register_batch h [BActuator p a] m s"

definition prereg_register_console where
  "prereg_register_console h p c m s = register_batch h [BConsole p c] m s"

definition prereg_register_volume where
  "prereg_register_volume h p v m s = register_batch h [BVolume p v] m s"

subsection \<open>The event stream\<close>

text \<open>
  A udev device as the library shows it (it is not code of the program): its path and node,
  subsystem and type where they are text, its property list and its parent.
\<close>

datatype udev_device =
  UdevDevice (ud_syspath: string) (ud_subsystem: "string option") (ud_devtype: "string option")
    (ud_properties: "(string \<times> string) list") (ud_parent: "udev_device option")

datatype udev_event_type = EvAdd | EvRemove | EvOther

record udev_event =
  ue_type :: udev_event_type
  ue_device :: udev_device
  ue_seqnum :: u64

datatype DeviceEvent = EventAdded udev_device u64 | EventRemoved udev_device

text \<open>
  The stream: the enumerated devices, numbered from 0, then the adds and removes of the
  monitor; monitor errors and other events are skipped.
\<close>

fun monitor_stream :: "('e, udev_event) result list \<Rightarrow> DeviceEvent list" where
  "monitor_stream [] = []"
| "monitor_stream (Err e # evs) = monitor_stream evs"
| "monitor_stream (Ok ev # evs) =
     (case ue_type ev of
        EvAdd \<Rightarrow> EventAdded (ue_device ev) (ue_seqnum ev) # monitor_stream evs
      | EvRemove \<Rightarrow> EventRemoved (ue_device ev) # monitor_stream evs
      | EvOther \<Rightarrow> monitor_stream evs)"

definition device_stream :: "udev_device list \<Rightarrow> ('e, udev_event) result list \<Rightarrow> DeviceEvent list" where
  "device_stream existing evs =
     map (\<lambda>(i, d). EventAdded d (of_nat i)) (zip [0..<length existing] existing) @ monitor_stream evs"

subsection \<open>Device properties\<close>

definition PROPERTY_BLACKLIST :: "string list" where
  "PROPERTY_BLACKLIST =
     [''ACTION'', ''DRIVER'', ''MAJOR'', ''MODALIAS'', ''MINOR'', ''USEC_INITIALIZED'']"

definition reasonable :: "udev_device \<Rightarrow> bool" where
  "reasonable d \<longleftrightarrow>
     ud_subsystem d = Some ''pci'' \<or> ud_subsystem d = Some ''platform'' \<or>
     (ud_subsystem d = Some ''usb'' \<and> ud_devtype d = Some ''usb_device'')"

fun find_reasonable_parent :: "udev_device \<Rightarrow> udev_device list" where
  "find_reasonable_parent (UdevDevice path sub typ props parent) =
     (let device = UdevDevice path sub typ props parent;
          v = (if reasonable device then []
               else (case parent of Some p \<Rightarrow> find_reasonable_parent p | None \<Rightarrow> []))
      in v @ [device])"

definition udev_key :: "string \<Rightarrow> string" where
  "udev_key name = ''udev.'' @ name"

definition insert_udev_property :: "string \<times> string \<Rightarrow> Properties \<Rightarrow> Properties" where
  "insert_udev_property kv p =
     (if fst kv \<in> set PROPERTY_BLACKLIST then p else properties_insert p (udev_key (fst kv)) (snd kv))"

definition udev_properties :: "udev_device \<Rightarrow> string \<Rightarrow> Properties" where
  "udev_properties d name =
     fold (\<lambda>dev p. fold insert_udev_property (ud_properties dev) p)
       (find_reasonable_parent d) (properties_new name)"

subsection \<open>Numbers in properties\<close>

text \<open>
  \<^verbatim>\<open>from_str_radix\<close> of the unsigned integers: an optional \<open>+\<close>, then at least one digit
  of the radix (up to 16 here), and a value that fits.
\<close>

definition char_digit :: "nat \<Rightarrow> char \<Rightarrow> nat option" where
  "char_digit radix c =
     (let n = of_char c :: nat;
          v = (if 48 \<le> n \<and> n \<le> 57 then n - 48
               else if 97 \<le> n \<and> n \<le> 122 then n - 87
               else if 65 \<le> n \<and> n \<le> 90 then n - 55 else 99)
      in if v < radix then Some v else None)"

fun digits_value :: "nat \<Rightarrow> string \<Rightarrow> nat \<Rightarrow> nat option" where
  "digits_value radix [] acc = Some acc"
| "digits_value radix (c # cs) acc =
     (case char_digit radix c of None \<Rightarrow> None | Some d \<Rightarrow> digits_value radix cs (acc * radix + d))"

definition from_str_radix :: "nat \<Rightarrow> nat \<Rightarrow> string \<Rightarrow> nat option" where
  "from_str_radix bits radix s =
     (let ds = (case s of c # cs \<Rightarrow> if c = CHR ''+'' then cs else s | [] \<Rightarrow> []) in
      if ds = [] then None
      else (case digits_value radix ds 0 of
              None \<Rightarrow> None | Some v \<Rightarrow> if v < 2 ^ bits then Some v else None))"

definition udev_property :: "udev_device \<Rightarrow> string \<Rightarrow> string option" where
  "udev_property d prop = map_of (ud_properties d) prop"

definition property_u64 :: "udev_device \<Rightarrow> string \<Rightarrow> nat \<Rightarrow> u64 option" where
  "property_u64 d prop radix =
     (case udev_property d prop of
        None \<Rightarrow> None
      | Some u \<Rightarrow> map_option of_nat (from_str_radix 64 radix u))"

definition u64_to_u8 :: "u64 \<Rightarrow> u8 option" where
  "u64_to_u8 v = (if unat v < 256 then Some (ucast v) else None)"

text \<open>The decimal digits of a number, as \<^verbatim>\<open>Display\<close> prints them.\<close>

fun show_nat :: "nat \<Rightarrow> string" where
  "show_nat n = (if n < 10 then [char_of (48 + n)] else show_nat (n div 10) @ [char_of (48 + n mod 10)])"

declare show_nat.simps [simp del]

definition is_usb_device :: "udev_device \<Rightarrow> bool" where
  "is_usb_device d \<longleftrightarrow> ud_devtype d = Some ''usb_device''"

subsection \<open>USB interfaces\<close>

record UsbInterface =
  ui_class :: u8
  ui_subclass :: u8
  ui_protocol :: u8

fun split_on :: "char \<Rightarrow> string \<Rightarrow> string list" where
  "split_on c [] = [[]]"
| "split_on c (x # xs) =
     (if x = c then [] # split_on c xs
      else (case split_on c xs of [] \<Rightarrow> [[x]] | w # ws \<Rightarrow> (x # w) # ws))"

text \<open>
  Slicing a string at a position inside a character of more than one byte panics; such a
  position holds a continuation byte.
\<close>

definition is_continuation :: "char \<Rightarrow> bool" where
  "is_continuation c = (128 \<le> (of_char c :: nat) \<and> (of_char c :: nat) < 192)"

definition u8_hex :: "string \<Rightarrow> u8 option" where
  "u8_hex s = map_option of_nat (from_str_radix 8 16 s)"

fun parse_interface :: "string \<Rightarrow> UsbInterface option outcome" where
  "parse_interface [a, b, c, d, e, f] =
     (if is_continuation c then Panicked
      else case u8_hex [a, b] of None \<Rightarrow> Done None
      | Some cls \<Rightarrow>
     (if is_continuation e then Panicked
      else case u8_hex [c, d] of None \<Rightarrow> Done None
      | Some sub \<Rightarrow>
     (case u8_hex [e, f] of None \<Rightarrow> Done None
      | Some proto \<Rightarrow> Done (Some \<lparr>ui_class = cls, ui_subclass = sub, ui_protocol = proto\<rparr>))))"
| "parse_interface _ = Done None"

fun collect_interfaces :: "string list \<Rightarrow> UsbInterface list outcome" where
  "collect_interfaces [] = Done []"
| "collect_interfaces (intf # intfs) =
     (case parse_interface intf of
        Panicked \<Rightarrow> Panicked
      | Done x \<Rightarrow>
          (case collect_interfaces intfs of
             Panicked \<Rightarrow> Panicked
           | Done xs \<Rightarrow> Done (case x of Some i \<Rightarrow> i # xs | None \<Rightarrow> xs)))"

definition interfaces_from_udev :: "string \<Rightarrow> UsbInterface list outcome" where
  "interfaces_from_udev property = collect_interfaces (split_on CHR '':'' property)"

definition usb_interfaces :: "udev_device \<Rightarrow> UsbInterface list option outcome" where
  "usb_interfaces d =
     (if is_usb_device d
      then (case udev_property d ''ID_USB_INTERFACES'' of
              None \<Rightarrow> Done None
            | Some p \<Rightarrow> (case interfaces_from_udev p of Panicked \<Rightarrow> Panicked | Done xs \<Rightarrow> Done (Some xs)))
      else Done None)"

text \<open>The unit test of the source.\<close>

lemma udev_interface_string:
  "interfaces_from_udev '':123456:'' = Done [\<lparr>ui_class = 0x12, ui_subclass = 0x34, ui_protocol = 0x56\<rparr>]"
  "interfaces_from_udev '':123456:673489:'' =
     Done [\<lparr>ui_class = 0x12, ui_subclass = 0x34, ui_protocol = 0x56\<rparr>,
           \<lparr>ui_class = 0x67, ui_subclass = 0x34, ui_protocol = 0x89\<rparr>]"
  "interfaces_from_udev ''::'' = Done []" "interfaces_from_udev '':'' = Done []"
  "interfaces_from_udev '''' = Done []"
  by (simp_all add: interfaces_from_udev_def is_continuation_def u8_hex_def from_str_radix_def
      char_digit_def Let_def of_char_def)

subsection \<open>The registrations as a state machine\<close>

text \<open>
  A state is the map, the server and the pre-registrations handed out and not consumed yet.
  Each operation takes the lock of the map, so a step is one operation: a device appears (again)
  with a sequence number, it goes away, a setup registers its batch, or a setup gives up.
\<close>

type_synonym ('p, 'w) udev_state = "registration_map \<times> ('p, 'w) Server \<times> (string \<times> u64) list"

datatype ('p, 'w) udev_op =
    Appear string u64
  | Vanish string
  | SetUp "string \<times> u64" "('p, 'w) batch_item list"
  | GiveUp "string \<times> u64"

inductive udev_step :: "('p, 'w) udev_op \<Rightarrow> ('p, 'w) udev_state \<Rightarrow> ('p, 'w) udev_state \<Rightarrow> bool" where
  pre: "pre_register path seqnum m s = (h, m', s') \<Longrightarrow>
     udev_step (Appear path seqnum) (m, s, hs) (m', s', h # hs)"
| remove: "remove_device path m s = (m', s') \<Longrightarrow> udev_step (Vanish path) (m, s, hs) (m', s', hs)"
| batch: "h \<in> set hs \<Longrightarrow> register_batch h items m s = (m', s') \<Longrightarrow>
     udev_step (SetUp h items) (m, s, hs) (m', s', remove1 h hs)"
| abandon: "h \<in> set hs \<Longrightarrow> udev_step (GiveUp h) (m, s, hs) (drop_prereg h m, s, remove1 h hs)"

inductive udev_trace :: "('p, 'w) udev_op list \<Rightarrow> ('p, 'w) udev_state \<Rightarrow> ('p, 'w) udev_state \<Rightarrow> bool" where
  start: "udev_trace [] st st"
| step: "udev_trace ops st st1 \<Longrightarrow> udev_step op st1 st2 \<Longrightarrow> udev_trace (ops @ [op]) st st2"

text \<open>
  What the operations alone say of a device, without the map: whether it is there and since
  which announcement, and which items the setup of that announcement registered.
\<close>

datatype 'b device_life = Away | Arrived u64 | InUse u64 'b | Unused u64

fun live_on :: "('p, 'w) udev_op \<Rightarrow> (string \<Rightarrow> ('p, 'w) batch_item list device_life) \<Rightarrow>
    string \<Rightarrow> ('p, 'w) batch_item list device_life" where
  "live_on (Appear path seqnum) l = l(path := Arrived seqnum)"
| "live_on (Vanish path) l = l(path := Away)"
| "live_on (SetUp h items) l =
     (if l (fst h) = Arrived (snd h) then l(fst h := InUse (snd h) items) else l)"
| "live_on (GiveUp h) l = (if l (fst h) = Arrived (snd h) then l(fst h := Unused (snd h)) else l)"

definition lives :: "('p, 'w) udev_op list \<Rightarrow> string \<Rightarrow> ('p, 'w) batch_item list device_life" where
  "lives ops = fold live_on ops (\<lambda>path. Away)"

text \<open>The paths of the devices present: announced, and not gone since.\<close>

fun present_on :: "('p, 'w) udev_op \<Rightarrow> string set \<Rightarrow> string set" where
  "present_on (Appear path seqnum) ps = insert path ps"
| "present_on (Vanish path) ps = ps - {path}"
| "present_on _ ps = ps"

definition present :: "('p, 'w) udev_op list \<Rightarrow> string set" where
  "present ops = fold present_on ops {}"

lemma lives_present: "lives ops path \<noteq> Away \<longleftrightarrow> path \<in> present ops"
proof (induction ops rule: rev_induct)
  case (snoc op ops)
  then show ?case by (cases op) (auto simp: lives_def present_def)
qed (simp add: lives_def present_def)

definition live_regs :: "('p, 'w) Server \<Rightarrow> Registration set" where
  "live_regs s =
     RActuator ` {i. registry_lookup (actuators s) i \<noteq> None} \<union>
     RConsole ` {i. registry_lookup (consoles s) i \<noteq> None} \<union>
     RVolume ` {i. registry_lookup (volumes s) i \<noteq> None}"

definition owned_by :: "registration_map \<Rightarrow> string \<Rightarrow> Registration set" where
  "owned_by m path = (case map_of m path of Some (Registered rs) \<Rightarrow> set rs | _ \<Rightarrow> {})"

definition server_inv :: "('p, 'w) Server \<Rightarrow> bool" where
  "server_inv s \<longleftrightarrow> registry_inv (actuators s) \<and> registry_inv (consoles s) \<and> registry_inv (volumes s)"

text \<open>Fewer than $2^{64}$ items of each kind were ever added.\<close>

definition adds_bounded :: "('p, 'w) Server \<Rightarrow> bool" where
  "adds_bounded s \<longleftrightarrow>
     length (added_ids (monitor (actuators s))) < 2 ^ 64 \<and>
     length (added_ids (monitor (consoles s))) < 2 ^ 64 \<and>
     length (added_ids (monitor (volumes s))) < 2 ^ 64"

lemma live_regs_unregister [simp]: "live_regs (unregister_one r s) = live_regs s - {r}"
  by (cases r) (auto simp: live_regs_def unregister_one_def frame_simps)

lemma live_regs_unregister_all [simp]: "live_regs (unregister_all rs s) = live_regs s - set rs"
  unfolding unregister_all_def by (induction rs arbitrary: s) auto

lemma server_inv_unregister [inv_intros]: "server_inv s \<Longrightarrow> server_inv (unregister_all rs s)"
  unfolding unregister_all_def
proof (induction rs arbitrary: s)
  case (Cons r rs)
  then have "server_inv (unregister_one r s)"
    by (cases r) (simp_all add: server_inv_def unregister_one_def frame_simps registry_inv_remove)
  with Cons.IH show ?case by simp
qed simp

text \<open>The registration a batch item gets, and the server after it.\<close>

fun batch_reg :: "('p, 'w) batch_item \<Rightarrow> ('p, 'w) Server \<Rightarrow> Registration" where
  "batch_reg (BActuator p a) s = RActuator (next_id (actuators s))"
| "batch_reg (BConsole p c) s = RConsole (next_id (consoles s))"
| "batch_reg (BVolume p v) s = RVolume (next_id (volumes s))"

definition batch_server :: "('p, 'w) batch_item \<Rightarrow> ('p, 'w) Server \<Rightarrow> ('p, 'w) Server" where
  "batch_server b s =
     (case b of BActuator p a \<Rightarrow> snd (register_actuator p a s)
      | BConsole p c \<Rightarrow> snd (register_console p c s)
      | BVolume p v \<Rightarrow> snd (register_volume p v s))"

lemma guard_register_eq:
  "guard_register b (rs, s) = (rs @ [batch_reg b s], batch_server b s)"
  by (cases b) (simp_all add: batch_server_def register_actuator_def register_console_def
      register_volume_def registry_add_def Let_def)

lemma batch_reg_fresh:
  "server_inv s \<Longrightarrow> adds_bounded s \<Longrightarrow> batch_reg b s \<notin> live_regs s"
  by (cases b) (auto simp: live_regs_def server_inv_def adds_bounded_def dest: next_id_fresh)

lemma live_regs_batch_server: "live_regs (batch_server b s) = insert (batch_reg b s) (live_regs s)"
  by (cases b) (auto simp: live_regs_def batch_server_def frame_simps)

lemma server_inv_batch [inv_intros]: "server_inv s \<Longrightarrow> server_inv (batch_server b s)"
  by (cases b) (simp_all add: server_inv_def batch_server_def frame_simps registry_inv_add)

lemma adds_bounded_batch: "adds_bounded (batch_server b s) \<Longrightarrow> adds_bounded s"
  by (cases b) (simp_all add: adds_bounded_def batch_server_def frame_simps added_ids_add)

lemma adds_bounded_unregister: "adds_bounded (unregister_all rs s) = adds_bounded s"
  unfolding unregister_all_def
proof (induction rs arbitrary: s)
  case (Cons r rs)
  have "adds_bounded (unregister_one r s) = adds_bounded s"
    by (cases r) (simp_all add: adds_bounded_def unregister_one_def frame_simps)
  with Cons show ?case by simp
qed simp

lemma batch_fold:
  assumes "fold guard_register items (rs, s) = (rs', s')" "adds_bounded s'" "server_inv s"
  shows "adds_bounded s \<and> server_inv s' \<and>
    (\<exists>new. rs' = rs @ new \<and> set new \<inter> live_regs s = {} \<and> live_regs s' = live_regs s \<union> set new)"
  using assms
proof (induction items arbitrary: rs s)
  case (Cons b items)
  have "fold guard_register items (rs @ [batch_reg b s], batch_server b s) = (rs', s')"
    using Cons.prems(1) by (simp add: guard_register_eq)
  from Cons.IH [OF this Cons.prems(2) server_inv_batch [OF Cons.prems(3)]] obtain new where
    new: "adds_bounded (batch_server b s)" "server_inv s'" "rs' = (rs @ [batch_reg b s]) @ new"
      "set new \<inter> live_regs (batch_server b s) = {}"
      "live_regs s' = live_regs (batch_server b s) \<union> set new" by blast
  from adds_bounded_batch [OF new(1)] have "adds_bounded s" .
  with new batch_reg_fresh [OF Cons.prems(3) this, of b] show ?case
    by (auto simp: live_regs_batch_server intro!: exI [of _ "batch_reg b s # new"])
qed simp

text \<open>
  The invariant: beside the items \<open>others\<close> that were there before, the live items are those
  the map owns, each owned by one path.
\<close>

definition udev_inv :: "Registration set \<Rightarrow> ('p, 'w) udev_state \<Rightarrow> bool" where
  "udev_inv others st = (case st of (m, s, hs) \<Rightarrow>
     server_inv s \<and>
     live_regs s = others \<union> (\<Union>p. owned_by m p) \<and>
     (\<forall>p. owned_by m p \<inter> others = {}) \<and>
     (\<forall>p q. p \<noteq> q \<longrightarrow> owned_by m p \<inter> owned_by m q = {}))"

lemma owned_by_update [simp]:
  "owned_by (AList.update p st m) q =
     (if q = p then (case st of Registered rs \<Rightarrow> set rs | RegPending n \<Rightarrow> {}) else owned_by m q)"
  by (simp add: owned_by_def update_conv split: RegistrationState.splits)

lemma owned_by_delete [simp]: "owned_by (AList.delete p m) q = (if q = p then {} else owned_by m q)"
  by (simp add: owned_by_def delete_conv)

lemma owned_by_drop [simp]: "owned_by (drop_prereg h m) q = owned_by m q"
  by (auto simp: drop_prereg_def owned_by_def delete_conv split: option.splits RegistrationState.splits)

lemma unregister_owned:
  "(case map_of m p of Some (Registered rs) \<Rightarrow> unregister_all rs s | _ \<Rightarrow> s) =
     unregister_all (case map_of m p of Some (Registered rs) \<Rightarrow> rs | _ \<Rightarrow> []) s"
  by (simp add: unregister_all_def split: option.splits RegistrationState.splits)

lemma set_owned: "set (case map_of m p of Some (Registered rs) \<Rightarrow> rs | _ \<Rightarrow> []) = owned_by m p"
  by (simp add: owned_by_def split: option.splits RegistrationState.splits)

lemma udev_inv_iff:
  "udev_inv others (m, s, hs) \<longleftrightarrow>
     server_inv s \<and>
     (\<forall>x. x \<in> live_regs s \<longleftrightarrow> x \<in> others \<or> (\<exists>p. x \<in> owned_by m p)) \<and>
     (\<forall>x p. x \<in> owned_by m p \<longrightarrow> x \<notin> others) \<and>
     (\<forall>x p q. x \<in> owned_by m p \<and> x \<in> owned_by m q \<longrightarrow> p = q)"
  unfolding udev_inv_def by blast

lemma udev_inv_release:
  assumes "udev_inv others (m, s, hs)" "\<And>q. owned_by m' q = (if q = p then {} else owned_by m q)"
  shows "udev_inv others (m', unregister_all (case map_of m p of Some (Registered rs) \<Rightarrow> rs | _ \<Rightarrow> []) s, hs')"
proof -
  from assms(1) have "server_inv s"
    and live: "\<And>x. x \<in> live_regs s \<longleftrightarrow> x \<in> others \<or> (\<exists>p. x \<in> owned_by m p)"
    and others: "\<And>x p. x \<in> owned_by m p \<Longrightarrow> x \<notin> others"
    and once: "\<And>x p q. x \<in> owned_by m p \<Longrightarrow> x \<in> owned_by m q \<Longrightarrow> p = q"
    unfolding udev_inv_iff by blast+
  have "x \<in> live_regs s - owned_by m p \<longleftrightarrow> x \<in> others \<or> (\<exists>q. x \<in> owned_by m' q)" for x
    unfolding assms(2) using live [of x] others [of x] once [of x]
    by (simp split: if_splits) metis
  moreover have "\<And>x q. x \<in> owned_by m' q \<Longrightarrow> x \<notin> others"
    and "\<And>x q r. x \<in> owned_by m' q \<Longrightarrow> x \<in> owned_by m' r \<Longrightarrow> q = r"
    unfolding assms(2) using others once by (auto split: if_splits)
  ultimately show ?thesis
    unfolding udev_inv_iff live_regs_unregister_all set_owned
    using \<open>server_inv s\<close> by (blast intro: server_inv_unregister)
qed

lemma udev_inv_acquire:
  assumes "udev_inv others (m, s, hs)" "owned_by m p = {}" "set new \<inter> live_regs s = {}"
    "live_regs s' = live_regs s \<union> set new" "server_inv s'"
    "\<And>q. owned_by m' q = (if q = p then set new else owned_by m q)"
  shows "udev_inv others (m', s', hs')"
proof -
  from assms(1) have live: "\<And>x. x \<in> live_regs s \<longleftrightarrow> x \<in> others \<or> (\<exists>p. x \<in> owned_by m p)"
    and others: "\<And>x p. x \<in> owned_by m p \<Longrightarrow> x \<notin> others"
    and once: "\<And>x p q. x \<in> owned_by m p \<Longrightarrow> x \<in> owned_by m q \<Longrightarrow> p = q"
    unfolding udev_inv_iff by blast+
  have fresh: "x \<notin> others" "x \<notin> owned_by m q" if "x \<in> set new" for x q
    using that assms(3) live by blast+
  have "x \<in> live_regs s' \<longleftrightarrow> x \<in> others \<or> (\<exists>q. x \<in> owned_by m' q)" for x
    unfolding assms(4,6) using live [of x] assms(2) by (auto split: if_splits)
  moreover have "\<And>x q. x \<in> owned_by m' q \<Longrightarrow> x \<notin> others"
    and "\<And>x q r. x \<in> owned_by m' q \<Longrightarrow> x \<in> owned_by m' r \<Longrightarrow> q = r"
    unfolding assms(6) using others once fresh by (auto split: if_splits)
  ultimately show ?thesis
    unfolding udev_inv_iff using assms(5) by blast
qed

lemma register_batch_stale:
  "map_of m (fst h) \<noteq> Some (RegPending (snd h)) \<Longrightarrow> register_batch h items m s = (m, s)"
  by (auto simp: register_batch_def drop_prereg_def split: option.splits RegistrationState.splits)

lemma register_batch_current:
  "map_of m (fst h) = Some (RegPending (snd h)) \<Longrightarrow>
   register_batch h items m s =
     (AList.update (fst h) (Registered (fst (fold guard_register items ([], s)))) m,
      snd (fold guard_register items ([], s)))"
  by (simp add: register_batch_def drop_prereg_def split_beta update_conv)

lemma guard_fold_bounded:
  "fold guard_register items (rs, s) = (rs', s') \<Longrightarrow> adds_bounded s' \<Longrightarrow> adds_bounded s"
  by (induction items arbitrary: rs s) (auto simp: guard_register_eq dest: adds_bounded_batch)

lemma udev_step_bounded:
  assumes "udev_step op st st'" "adds_bounded (fst (snd st'))"
  shows "adds_bounded (fst (snd st))"
  using assms
proof (cases rule: udev_step.cases)
  case (pre path seqnum m s h m' s' hs)
  with assms(2) show ?thesis
    by (auto simp: pre_register_def unregister_owned adds_bounded_unregister)
next
  case (remove path m s m' s' hs)
  with assms(2) show ?thesis
    by (auto simp: remove_device_def unregister_owned adds_bounded_unregister)
next
  case (batch h hs items m s m' s')
  show ?thesis
  proof (cases "map_of m (fst h) = Some (RegPending (snd h))")
    case False
    with batch assms(2) show ?thesis by (simp add: register_batch_stale)
  next
    case True
    obtain rs where "fold guard_register items ([], s) = (rs, s')"
      using batch(5) by (auto simp: register_batch_current [OF True] prod_eq_iff)
    with batch assms(2) guard_fold_bounded show ?thesis by fastforce
  qed
qed simp

lemma udev_inv_step [inv_intros]:
  assumes "udev_step op st st'" "udev_inv others st" "adds_bounded (fst (snd st'))"
  shows "udev_inv others st'"
  using assms(1)
proof (cases rule: udev_step.cases)
  case (pre path seqnum m s h m' s' hs)
  then have "m' = AList.update path (RegPending seqnum) m"
    "s' = unregister_all (case map_of m path of Some (Registered rs) \<Rightarrow> rs | _ \<Rightarrow> []) s"
    by (simp_all add: pre_register_def unregister_owned)
  with pre(2,3) assms(2) show ?thesis
    by (auto intro!: udev_inv_release [where m = m and hs = hs])
next
  case (remove path m s m' s' hs)
  then have "m' = AList.delete path m"
    "s' = unregister_all (case map_of m path of Some (Registered rs) \<Rightarrow> rs | _ \<Rightarrow> []) s"
    by (simp_all add: remove_device_def unregister_owned)
  with remove(2,3) assms(2) show ?thesis
    by (auto intro!: udev_inv_release [where m = m and hs = hs])
next
  case (batch h hs items m s m' s')
  show ?thesis
  proof (cases "map_of m (fst h) = Some (RegPending (snd h))")
    case False
    with batch assms(2) show ?thesis by (simp add: register_batch_stale udev_inv_def)
  next
    case True
    obtain rs where fold: "fold guard_register items ([], s) = (rs, s')"
      and m': "m' = AList.update (fst h) (Registered rs) m"
      using batch(5) by (auto simp: register_batch_current [OF True] prod_eq_iff)
    have "server_inv s" "adds_bounded s'" using batch assms(2,3) by (auto simp: udev_inv_def)
    from batch_fold [OF fold this(2,1)] have
      new: "server_inv s'" "set rs \<inter> live_regs s = {}" "live_regs s' = live_regs s \<union> set rs" by auto
    have "owned_by m (fst h) = {}" using True by (simp add: owned_by_def)
    with new batch(2,3) assms(2) m' show ?thesis
      by (auto intro!: udev_inv_acquire [where m = m and hs = hs and new = rs and s = s])
  qed
next
  case (abandon h hs m s)
  with assms(2) show ?thesis by (simp add: udev_inv_def)
qed

subsection \<open>The map follows the devices\<close>

text \<open>The server has the item of a batch under the registration.\<close>

fun holds :: "('p, 'w) Server \<Rightarrow> Registration \<Rightarrow> ('p, 'w) batch_item \<Rightarrow> bool" where
  "holds s (RActuator i) (BActuator p a) = (registry_lookup (actuators s) i = Some (item_new p a))"
| "holds s (RConsole i) (BConsole p c) = (registry_lookup (consoles s) i = Some (item_new p c))"
| "holds s (RVolume i) (BVolume p v) = (registry_lookup (volumes s) i = Some (item_new p v))"
| "holds s _ _ = False"

lemma holds_live: "holds s r item \<Longrightarrow> r \<in> live_regs s"
  by (cases "(s, r, item)" rule: holds.cases) (auto simp: live_regs_def)

lemma holds_unregister_one: "r \<noteq> r' \<Longrightarrow> holds (unregister_one r' s) r item = holds s r item"
  by (cases "(s, r, item)" rule: holds.cases; cases r') (auto simp: unregister_one_def frame_simps)

lemma holds_unregister: "r \<notin> set rs \<Longrightarrow> holds (unregister_all rs s) r item = holds s r item"
  unfolding unregister_all_def by (induction rs arbitrary: s) (auto simp: holds_unregister_one)

lemma holds_batch_server:
  "holds (batch_server b s) r item \<longleftrightarrow> (if r = batch_reg b s then item = b else holds s r item)"
  by (cases "(s, r, item)" rule: holds.cases; cases b) (auto simp: batch_server_def frame_simps item_new_def)

lemma holds_guard_fold:
  assumes "fold guard_register items (rs, s) = (rs', s')" "adds_bounded s'" "server_inv s" "holds s r item"
  shows "holds s' r item"
  using assms
proof (induction items arbitrary: rs s)
  case (Cons b items)
  have run: "fold guard_register items (rs @ [batch_reg b s], batch_server b s) = (rs', s')"
    using Cons.prems(1) by (simp add: guard_register_eq)
  have "adds_bounded s" using guard_fold_bounded [OF run Cons.prems(2)] adds_bounded_batch by blast
  with batch_reg_fresh [OF Cons.prems(3)] holds_live [OF Cons.prems(4)] have "r \<noteq> batch_reg b s" by metis
  with Cons.prems(4) have "holds (batch_server b s) r item" by (simp add: holds_batch_server)
  with Cons.IH [OF run Cons.prems(2) server_inv_batch [OF Cons.prems(3)]] show ?case .
qed simp

lemma guard_fold_holds:
  assumes "fold guard_register items ([], s) = (rs', s')" "adds_bounded s'" "server_inv s"
  shows "list_all2 (holds s') rs' items \<and> distinct rs'"
proof -
  have "\<exists>new. rs' = rs @ new \<and> list_all2 (holds s') new items \<and> distinct new \<and> set new \<inter> live_regs s = {}"
    if "fold guard_register items (rs, s) = (rs', s')" "server_inv s" for rs s
    using that
  proof (induction items arbitrary: rs s)
    case (Cons b items)
    have run: "fold guard_register items (rs @ [batch_reg b s], batch_server b s) = (rs', s')"
      using Cons.prems(1) by (simp add: guard_register_eq)
    note inv = server_inv_batch [OF Cons.prems(2), of b]
    from Cons.IH [OF run inv] obtain new where new: "rs' = (rs @ [batch_reg b s]) @ new"
      "list_all2 (holds s') new items" "distinct new" "set new \<inter> live_regs (batch_server b s) = {}" by blast
    have "holds (batch_server b s) (batch_reg b s) b" by (simp add: holds_batch_server)
    from holds_guard_fold [OF run assms(2) inv this] have here: "holds s' (batch_reg b s) b" .
    have "adds_bounded s" using guard_fold_bounded [OF run assms(2)] adds_bounded_batch by blast
    with batch_reg_fresh [OF Cons.prems(2)] new here show ?case
      by (intro exI [of _ "batch_reg b s # new"]) (auto simp: live_regs_batch_server)
  qed simp
  from this [OF assms(1,3)] show ?thesis by auto
qed

text \<open>The entry of a device in the map is what became of it.\<close>

definition life_inv :: "(string \<Rightarrow> ('p, 'w) batch_item list device_life) \<Rightarrow> registration_map \<Rightarrow> ('p, 'w) Server \<Rightarrow> bool" where
  "life_inv l m s \<longleftrightarrow> (\<forall>path.
     case l path of
       Arrived n \<Rightarrow> map_of m path = Some (RegPending n)
     | InUse n items \<Rightarrow> (\<exists>rs. map_of m path = Some (Registered rs) \<and> list_all2 (holds s) rs items \<and> distinct rs)
     | _ \<Rightarrow> map_of m path = None)"

lemma life_pending: "life_inv l m s \<Longrightarrow> map_of m path = Some (RegPending n) \<longleftrightarrow> l path = Arrived n"
  unfolding life_inv_def by (drule spec [of _ path]) (auto split: device_life.splits)

text \<open>Nothing changes for the other devices when one is released or set up.\<close>

lemma life_inv_change:
  assumes "life_inv l m s" "\<And>q. q \<noteq> path \<Longrightarrow> map_of m' q = map_of m q" "\<And>q. q \<noteq> path \<Longrightarrow> l' q = l q"
    and "\<And>q r item. q \<noteq> path \<Longrightarrow> r \<in> owned_by m q \<Longrightarrow> holds s r item \<Longrightarrow> holds s' r item"
    and "case l' path of
       Arrived n \<Rightarrow> map_of m' path = Some (RegPending n)
     | InUse n items \<Rightarrow> (\<exists>rs. map_of m' path = Some (Registered rs) \<and> list_all2 (holds s') rs items \<and> distinct rs)
     | _ \<Rightarrow> map_of m' path = None"
  shows "life_inv l' m' s'"
  unfolding life_inv_def
proof
  fix q
  show "case l' q of
       Arrived n \<Rightarrow> map_of m' q = Some (RegPending n)
     | InUse n items \<Rightarrow> (\<exists>rs. map_of m' q = Some (Registered rs) \<and> list_all2 (holds s') rs items \<and> distinct rs)
     | _ \<Rightarrow> map_of m' q = None"
  proof (cases "q = path")
    case True
    show ?thesis unfolding True by (rule assms(5))
  next
    case False
    have kept: "list_all2 (holds s') rs items"
      if "map_of m q = Some (Registered rs)" "list_all2 (holds s) rs items" for rs items
    proof -
      have "r \<in> owned_by m q" if "r \<in> set rs" for r
        using that \<open>map_of m q = Some (Registered rs)\<close> by (simp add: owned_by_def)
      with that(2) assms(4) [OF False] show ?thesis by (auto intro: list.rel_mono_strong)
    qed
    from assms(1) have "case l q of
       Arrived n \<Rightarrow> map_of m q = Some (RegPending n)
     | InUse n items \<Rightarrow> (\<exists>rs. map_of m q = Some (Registered rs) \<and> list_all2 (holds s) rs items \<and> distinct rs)
     | _ \<Rightarrow> map_of m q = None" by (simp add: life_inv_def)
    then show ?thesis unfolding assms(2) [OF False] assms(3) [OF False]
      by (auto split: device_life.splits dest: kept)
  qed
qed

lemma life_inv_release:
  assumes "life_inv l m s" "udev_inv others (m, s, hs)"
    and "\<And>q. q \<noteq> path \<Longrightarrow> map_of m' q = map_of m q" "\<And>q. q \<noteq> path \<Longrightarrow> l' q = l q"
    and "l' path = Away \<and> map_of m' path = None \<or> (\<exists>n. l' path = Arrived n \<and> map_of m' path = Some (RegPending n))"
  shows "life_inv l' m' (unregister_all (case map_of m path of Some (Registered rs) \<Rightarrow> rs | _ \<Rightarrow> []) s)"
proof (rule life_inv_change [OF assms(1,3,4)])
  fix q r item
  assume "q \<noteq> path" "r \<in> owned_by m q" "holds s r item"
  moreover from this(1,2) assms(2) have "r \<notin> owned_by m path" unfolding udev_inv_iff by blast
  ultimately show "holds (unregister_all (case map_of m path of Some (Registered rs) \<Rightarrow> rs | _ \<Rightarrow> []) s) r item"
    by (simp add: holds_unregister set_owned)
qed (use assms(5) in auto)

lemma life_inv_step:
  assumes "udev_step op (m, s, hs) (m', s', hs')" "life_inv l m s" "udev_inv others (m, s, hs)" "adds_bounded s'"
  shows "life_inv (live_on op l) m' s'"
  using assms(1)
proof (cases rule: udev_step.cases)
  case (pre path seqnum h)
  then have "m' = AList.update path (RegPending seqnum) m"
    "s' = unregister_all (case map_of m path of Some (Registered rs) \<Rightarrow> rs | _ \<Rightarrow> []) s"
    by (simp_all add: pre_register_def unregister_owned)
  with pre(1) assms(2,3) show ?thesis
    by (auto intro!: life_inv_release [where l = l and path = path and m = m] simp: update_conv)
next
  case (remove path)
  then have "m' = AList.delete path m"
    "s' = unregister_all (case map_of m path of Some (Registered rs) \<Rightarrow> rs | _ \<Rightarrow> []) s"
    by (simp_all add: remove_device_def unregister_owned)
  with remove(1) assms(2,3) show ?thesis
    by (auto intro!: life_inv_release [where l = l and path = path and m = m] simp: delete_conv)
next
  case (batch h items)
  show ?thesis
  proof (cases "map_of m (fst h) = Some (RegPending (snd h))")
    case False
    with batch assms(2) show ?thesis by (simp add: register_batch_stale life_pending)
  next
    case True
    obtain rs where fold: "fold guard_register items ([], s) = (rs, s')"
      and m': "m' = AList.update (fst h) (Registered rs) m"
      using batch(3,4) by (auto simp: register_batch_current [OF True] prod_eq_iff)
    have inv: "server_inv s" using assms(3) by (simp add: udev_inv_def)
    from guard_fold_holds [OF fold assms(4) inv] holds_guard_fold [OF fold assms(4) inv]
    have "life_inv (l(fst h := InUse (snd h) items)) m' s'"
      by (intro life_inv_change [OF assms(2), where path = "fst h"]) (auto simp: m' update_conv)
    with batch(1) True assms(2) show ?thesis by (simp add: life_pending)
  qed
next
  case (abandon h)
  show ?thesis
  proof (cases "l (fst h) = Arrived (snd h)")
    case True
    with assms(2) have "map_of m (fst h) = Some (RegPending (snd h))" by (simp add: life_pending)
    then have "life_inv (l(fst h := Unused (snd h))) (drop_prereg h m) s"
      by (intro life_inv_change [OF assms(2), where path = "fst h"]) (auto simp: drop_prereg_def delete_conv)
    with abandon True show ?thesis by simp
  next
    case False
    with assms(2) have "map_of m (fst h) \<noteq> Some (RegPending (snd h))" by (simp add: life_pending)
    then have "drop_prereg h m = m" by (auto simp: drop_prereg_def split: option.splits RegistrationState.splits)
    with abandon False assms(2) show ?thesis by simp
  qed
qed

lemma udev_trace_inv:
  assumes "udev_trace ops ([], s, []) st" "server_inv s"
  shows "adds_bounded (fst (snd st)) \<Longrightarrow>
    udev_inv (live_regs s) st \<and> life_inv (lives ops) (fst st) (fst (snd st))"
  using assms(1)
proof (induction ops "([] :: registration_map, s, [] :: (string \<times> u64) list)" st rule: udev_trace.induct)
  case start
  with assms(2) show ?case by (auto simp: udev_inv_def owned_by_def life_inv_def lives_def)
next
  case (step ops st1 op st2)
  obtain m1 s1 h1 m2 s2 h2 where st: "st1 = (m1, s1, h1)" "st2 = (m2, s2, h2)" by (metis prod.exhaust)
  from udev_step_bounded [OF step(3,4)] step(2) have
    inv: "udev_inv (live_regs s) st1" "life_inv (lives ops) m1 s1" by (simp_all add: st)
  from udev_inv_step [OF step(3) inv(1) step(4)] life_inv_step [OF step(3) [unfolded st] inv(2) inv(1) [unfolded st]] step(4)
  show ?case by (simp add: st lives_def)
qed

subsection \<open>The properties of the registrations\<close>

text \<open>
  C14. No item leaks and none is lost: from any server whose registries are sound, whatever
  sequence of appearances, removals, finished and abandoned setups follows, the items in the
  server are those that were there before and those owned by the devices present (announced and
  not gone since), each owned by one device. What a device owns are, one for one, the items that
  the setup of its last announcement registered, and nothing as long as there is no such setup:
  one that finishes after its device went away or was announced anew registers nothing.
\<close>

theorem udev_no_leak:
  assumes "udev_trace ops ([], s, []) (m', s', hs')" "server_inv s" "adds_bounded s'"
  shows "live_regs s' = live_regs s \<union> (\<Union>p \<in> present ops. owned_by m' p) \<and>
    (\<forall>p. p \<notin> present ops \<longrightarrow> owned_by m' p = {}) \<and>
    (\<forall>p. owned_by m' p \<inter> live_regs s = {}) \<and>
    (\<forall>p q. p \<noteq> q \<longrightarrow> owned_by m' p \<inter> owned_by m' q = {}) \<and>
    (\<forall>p. case lives ops p of
       InUse n items \<Rightarrow> (\<exists>rs. owned_by m' p = set rs \<and> distinct rs \<and> list_all2 (holds s') rs items)
     | _ \<Rightarrow> owned_by m' p = {})"
proof -
  from udev_trace_inv [OF assms(1,2)] assms(3)
  have inv: "udev_inv (live_regs s) (m', s', hs')" and life: "life_inv (lives ops) m' s'" by simp_all
  have owned: "case lives ops p of
       InUse n items \<Rightarrow> (\<exists>rs. owned_by m' p = set rs \<and> distinct rs \<and> list_all2 (holds s') rs items)
     | _ \<Rightarrow> owned_by m' p = {}" for p
    using life unfolding life_inv_def by (drule_tac spec [of _ p]) (auto simp: owned_by_def split: device_life.splits)
  have gone: "owned_by m' p = {}" if "p \<notin> present ops" for p
    using that owned [of p] lives_present [of ops p] by simp
  then have "(\<Union>p. owned_by m' p) = (\<Union>p \<in> present ops. owned_by m' p)" by blast
  with inv gone owned show ?thesis by (simp add: udev_inv_def)
qed

lemma udev_no_leak_witness:
  "\<exists>m' s'. udev_trace [Appear ''/sys/a'' 7, SetUp (''/sys/a'', 7) [BVolume (properties_new ''v'') null_volume]]
      ([], server_new [] ''/etc'' :: (unit, nat) Server, []) (m', s', []) \<and>
     owned_by m' ''/sys/a'' = {RVolume (U64Index 0)} \<and>
     live_regs s' = live_regs (server_new [] ''/etc'' :: (unit, nat) Server) \<union> owned_by m' ''/sys/a''"
proof -
  let ?s = "server_new [] ''/etc'' :: (unit, nat) Server"
  let ?h = "(''/sys/a'', 7 :: u64)"
  let ?ops = "[Appear ''/sys/a'' 7, SetUp ?h [BVolume (properties_new ''v'') null_volume]]"
  obtain m1 s1 where pre: "pre_register ''/sys/a'' 7 [] ?s = (?h, m1, s1)"
    by (simp add: pre_register_def)
  then have m1: "map_of m1 (fst ?h) = Some (RegPending (snd ?h))" and s1: "s1 = ?s"
    by (auto simp: pre_register_def)
  obtain m2 s2 where batch: "register_batch ?h [BVolume (properties_new ''v'') null_volume] m1 s1 = (m2, s2)"
    by force
  have "udev_trace ([] @ [Appear ''/sys/a'' 7]) ([], ?s, []) (m1, s1, [?h])"
    by (rule udev_trace.step [OF udev_trace.start udev_step.pre [OF pre]])
  from udev_trace.step [OF this udev_step.batch [OF _ batch]]
  have run: "udev_trace ?ops ([], ?s, []) (m2, s2, [])" by simp
  have inv: "server_inv ?s" by (simp add: server_inv_def server_new_def registry_inv_new)
  from batch have m2: "m2 = AList.update (fst ?h)
      (Registered [RVolume (U64Index 0)]) m1" and s2: "s2 = snd (register_volume (properties_new ''v'') null_volume s1)"
    unfolding register_batch_current [OF m1]
    by (auto simp: register_volume_def registry_add_def Let_def s1 server_new_def registry_new_def
        index_default_def)
  have "adds_bounded s2"
    by (simp add: s2 s1 adds_bounded_def frame_simps added_ids_add server_new_def registry_new_def)
  from udev_no_leak [OF run inv this] have "live_regs s2 = live_regs ?s \<union> owned_by m2 ''/sys/a''"
    by (simp add: present_def)
  with run show ?thesis by (intro exI [of _ m2] exI [of _ s2]) (simp add: m2)
qed

text \<open>
  An outdated setup registers nothing: finishing a pre-registration takes effect exactly
  when the device is still pending under the same sequence number, so not when it was removed,
  pre-registered again under another number, or registered since; and a removed device owns
  nothing.
\<close>

theorem register_batch_outdated:
  "(register_batch h items m s =
     (if map_of m (fst h) = Some (RegPending (snd h))
      then (AList.update (fst h) (Registered (fst (fold guard_register items ([], s)))) m,
            snd (fold guard_register items ([], s)))
      else (m, s))) \<and>
   owned_by (fst (remove_device (fst h) m s)) (fst h) = {} \<and>
   live_regs (snd (remove_device (fst h) m s)) = live_regs s - owned_by m (fst h)"
  by (simp add: register_batch_stale register_batch_current remove_device_def unregister_owned set_owned)

subsection \<open>The property chain\<close>

text \<open>The value nearest to the device: its own, else its parent's, up to the first parent
  that is a PCI or platform device or a whole USB device.\<close>

fun nearest_property :: "string \<Rightarrow> udev_device \<Rightarrow> string option" where
  "nearest_property n (UdevDevice path sub typ props parent) =
     (case map_of (rev props) n of
        Some v \<Rightarrow> Some v
      | None \<Rightarrow>
          if reasonable (UdevDevice path sub typ props parent) then None
          else (case parent of Some p \<Rightarrow> nearest_property n p | None \<Rightarrow> None))"

lemma udev_key_inject [simp]: "udev_key a = udev_key b \<longleftrightarrow> a = b"
  by (simp add: udev_key_def)

lemma udev_key_NAME [simp]: "udev_key a \<noteq> NAME" "NAME \<noteq> udev_key a"
  by (simp_all add: udev_key_def NAME_def)

lemma udev_key_INSTANCE [simp]: "udev_key a \<noteq> INSTANCE" "INSTANCE \<noteq> udev_key a"
  by (simp_all add: udev_key_def INSTANCE_def)

lemma get_insert_udev_list:
  "properties_get (fold insert_udev_property kvs p) k =
     (case map_of (rev (map (\<lambda>(n, v). (udev_key n, v))
          (filter (\<lambda>kv. fst kv \<notin> set PROPERTY_BLACKLIST) kvs))) k of
        Some v \<Rightarrow> Some v | None \<Rightarrow> properties_get p k)"
  by (induction kvs arbitrary: p)
     (auto simp: insert_udev_property_def map_add_def split: option.splits)

lemma map_of_udev_keys:
  "map_of (rev (map (\<lambda>(n, v). (udev_key n, v)) (filter (\<lambda>kv. fst kv \<notin> B) kvs))) (udev_key n) =
     (if n \<in> B then None else map_of (rev kvs) n)"
  by (induction kvs) (auto simp: map_add_def split: option.splits)

lemma map_of_udev_keys_other:
  "k \<notin> range udev_key \<Longrightarrow> map_of (rev (map (\<lambda>(n, v). (udev_key n, v)) kvs)) k = None"
  by (induction kvs) (auto simp: map_add_def)

lemma get_udev_chain:
  "properties_get (fold (\<lambda>dev p. fold insert_udev_property (ud_properties dev) p)
      (find_reasonable_parent d) p) (udev_key n) =
    (if n \<in> set PROPERTY_BLACKLIST then properties_get p (udev_key n)
     else case nearest_property n d of Some v \<Rightarrow> Some v | None \<Rightarrow> properties_get p (udev_key n))"
  by (induction d arbitrary: p rule: find_reasonable_parent.induct)
     (auto simp: get_insert_udev_list map_of_udev_keys Let_def split: option.splits)

lemma get_udev_list_other:
  "k \<notin> range udev_key \<Longrightarrow>
   properties_get (fold (\<lambda>dev p. fold insert_udev_property (ud_properties dev) p) ds p) k =
     properties_get p k"
  by (induction ds arbitrary: p) (simp_all add: get_insert_udev_list map_of_udev_keys_other)

text \<open>
  The properties of a udev device: its name is the given one, it has no instance, and
  property \<open>udev.n\<close> is the value of \<open>n\<close> nearest to the device, absent when \<open>n\<close> is blacklisted
  or nothing up to the first PCI, platform or whole USB device has it.
\<close>

theorem udev_properties_nearest:
  "properties_get (udev_properties d name) (udev_key n) =
     (if n \<in> set PROPERTY_BLACKLIST then None else nearest_property n d) \<and>
   properties_name (udev_properties d name) = name \<and>
   properties_instance (udev_properties d name) = None"
proof -
  have "properties_get (udev_properties d name) k = properties_get (properties_new name) k"
    if "k = NAME \<or> k = INSTANCE" for k
    unfolding udev_properties_def using that by (auto simp: get_udev_list_other image_iff)
  then show ?thesis
    using get_udev_chain [of d "properties_new name" n]
    by (simp add: udev_properties_def properties_name_def properties_instance_def split: option.splits)
qed

subsection \<open>The interface string\<close>

definition hex_digit :: "nat \<Rightarrow> char" where
  "hex_digit n = char_of (if n < 10 then 48 + n else 87 + n)"

definition hex2 :: "u8 \<Rightarrow> string" where
  "hex2 w = [hex_digit (unat w div 16), hex_digit (unat w mod 16)]"

definition show_interface :: "UsbInterface \<Rightarrow> string" where
  "show_interface i = hex2 (ui_class i) @ hex2 (ui_subclass i) @ hex2 (ui_protocol i)"

definition show_interfaces :: "UsbInterface list \<Rightarrow> string" where
  "show_interfaces is = concat (map (\<lambda>i. '':'' @ show_interface i) is) @ '':''"

lemma of_char_hex_digit: "n < 16 \<Longrightarrow> of_char (hex_digit n) = (if n < 10 then 48 + n else 87 + n)"
  by (simp add: hex_digit_def)

lemma char_digit_hex: "n < 16 \<Longrightarrow> char_digit 16 (hex_digit n) = Some n"
  by (auto simp: char_digit_def of_char_hex_digit Let_def)

lemma hex_digit_distinct:
  assumes "n < 16"
  shows "hex_digit n \<noteq> CHR ''+''" "hex_digit n \<noteq> CHR '':''" "\<not> is_continuation (hex_digit n)"
proof -
  have "of_char (CHR ''+'') = (43::nat)" "of_char (CHR '':'') = (58::nat)" by simp_all
  with of_char_hex_digit [OF assms]
  show "hex_digit n \<noteq> CHR ''+''" "hex_digit n \<noteq> CHR '':''" "\<not> is_continuation (hex_digit n)"
    using assms by (auto simp: is_continuation_def split: if_splits)
qed

lemma u8_hex_hex2 [simp]: "u8_hex (hex2 w) = Some w"
proof -
  have w: "unat w < 256" using unsigned_less [of w] by simp
  then have "unat w div 16 < 16" "unat w mod 16 < 16" by auto
  then have "from_str_radix 8 16 (hex2 w) = Some (unat w)"
    using w by (simp add: from_str_radix_def hex2_def hex_digit_distinct char_digit_hex)
  then show ?thesis by (simp add: u8_hex_def)
qed

lemma hex2_cases:
  obtains a b where "hex2 w = [a, b]" "a \<noteq> CHR '':''" "b \<noteq> CHR '':''" "\<not> is_continuation a"
proof -
  have "unat w < 256" using unsigned_less [of w] by simp
  then have "unat w div 16 < 16" "unat w mod 16 < 16" by auto
  with that hex_digit_distinct show ?thesis by (simp add: hex2_def)
qed

lemma parse_show_interface: "parse_interface (show_interface i) = Done (Some i)"
proof -
  obtain a b where ab: "hex2 (ui_class i) = [a, b]" by (metis hex2_cases)
  obtain c d where cd: "hex2 (ui_subclass i) = [c, d]" "\<not> is_continuation c" by (metis hex2_cases)
  obtain e f where ef: "hex2 (ui_protocol i) = [e, f]" "\<not> is_continuation e" by (metis hex2_cases)
  have "u8_hex [a, b] = Some (ui_class i)" "u8_hex [c, d] = Some (ui_subclass i)"
    "u8_hex [e, f] = Some (ui_protocol i)"
    by (simp_all flip: ab cd(1) ef(1))
  then show ?thesis by (simp add: show_interface_def ab cd ef)
qed

lemma show_interface_no_sep: "CHR '':'' \<notin> set (show_interface i)"
proof -
  have "CHR '':'' \<notin> set (hex2 w)" for w by (rule hex2_cases [of w]) auto
  then show ?thesis by (simp add: show_interface_def)
qed

lemma split_on_append: "c \<notin> set xs \<Longrightarrow> split_on c (xs @ c # ys) = xs # split_on c ys"
  by (induction xs) auto

lemma collect_show_interfaces:
  "collect_interfaces (split_on CHR '':'' (concat (map (\<lambda>i. show_interface i @ '':'') is))) = Done is"
proof (induction "is")
  case (Cons i "is")
  then show ?case
    by (simp add: split_on_append [OF show_interface_no_sep] parse_show_interface)
qed simp

lemma show_interfaces_shift:
  "show_interfaces is = CHR '':'' # concat (map (\<lambda>i. show_interface i @ '':'') is)"
proof (induction "is")
  case (Cons i "is")
  then show ?case by (simp add: show_interfaces_def)
qed (simp add: show_interfaces_def)

text \<open>
  The interfaces of a USB device survive the way through udev: reading the property that
  lists them, each as three two-digit hexadecimal numbers between colons, gives them back, in
  order.
\<close>

theorem usb_interfaces_roundtrip:
  "interfaces_from_udev (show_interfaces is) = Done is"
  using collect_show_interfaces [of "is"]
  by (simp add: interfaces_from_udev_def show_interfaces_shift)

end
