(* ===== verification/Fastboot.thy ===== *)
theory Fastboot
  imports Udev
begin

section \<open>Fastboot volumes (boardswarm/src/fastboot.rs)\<close>

text \<open>
  Writes to a fastboot target are buffered as chunks of blocks and flashed, when enough is
  buffered, as a raw or as an Android sparse image. The client library and the sparse format
  (\<^verbatim>\<open>fastboot_protocol\<close>, \<^verbatim>\<open>android_sparse_image\<close>) are not code of the program: they are
  records of functions, arguments of the definitions. \<^verbatim>\<open>usize\<close> has 64 bits; lengths of data
  in memory do not overflow and are natural numbers, subtractions that can wrap are written
  out. The lemmas: \<^verbatim>\<open>append\<close> places data where it belongs, a write ends and never flashes
  more than the device accepts, the encoded image has the announced size and expands to the
  buffered data.
\<close>

subsection \<open>Which devices\<close>

record FastbootParameters =
  fp_match :: "(string \<times> string) list"
  fp_targets :: "string list"
  fp_stage :: bool

definition fastboot_interface :: UsbInterface where
  "fastboot_interface = \<lparr>ui_class = 0xff, ui_subclass = 0x42, ui_protocol = 0x3\<rparr>"

text \<open>
  What \<^verbatim>\<open>start_provider\<close> does with an added device: \<open>None\<close> when it is skipped, else the
  bus and device numbers and the properties of the volume to set up.
\<close>

definition fastboot_admit ::
  "string \<Rightarrow> FastbootParameters \<Rightarrow> udev_device \<Rightarrow> (u8 \<times> u8 \<times> Properties) option outcome" where
  "fastboot_admit provider_name params device =
     (case usb_interfaces device of
        Panicked \<Rightarrow> Panicked
      | Done None \<Rightarrow> Done None
      | Done (Some interfaces) \<Rightarrow>
          (if \<not> list_ex (\<lambda>i. i = fastboot_interface) interfaces then Done None else
           case Option.bind (property_u64 device ''BUSNUM'' 10) u64_to_u8 of
             None \<Rightarrow> Done None
           | Some busnum \<Rightarrow>
          (case Option.bind (property_u64 device ''DEVNUM'' 10) u64_to_u8 of
             None \<Rightarrow> Done None
           | Some devnum \<Rightarrow>
             (let name = ''fastboot '' @ show_nat (unat busnum) @ ''/'' @ show_nat (unat devnum);
                  props = udev_properties device name
              in if \<not> properties_matches props (fp_match params) then Done None
                 else Done (Some (busnum, devnum,
                   properties_extend props
                     [(PROVIDER_NAME, provider_name), (PROVIDER, ''fastboot'')]))))))"

text \<open>
  One event of the loop: an admitted device is pre-registered, and its setup gets the handle,
  the numbers and the properties; a removed one is forgotten.
\<close>

fun fastboot_event ::
  "string \<Rightarrow> FastbootParameters \<Rightarrow> DeviceEvent \<Rightarrow> registration_map \<Rightarrow> ('p, 'w) Server \<Rightarrow>
   (((string \<times> u64) \<times> u8 \<times> u8 \<times> Properties) option \<times> registration_map \<times> ('p, 'w) Server) outcome" where
  "fastboot_event provider_name params (EventAdded device seqnum) m s =
     (case fastboot_admit provider_name params device of
        Panicked \<Rightarrow> Panicked
      | Done None \<Rightarrow> Done (None, m, s)
      | Done (Some setup) \<Rightarrow>
          (let (h, m1, s1) = pre_register (ud_syspath device) seqnum m s in Done (Some (h, setup), m1, s1)))"
| "fastboot_event provider_name params (EventRemoved device) m s =
     (let (m1, s1) = remove_device (ud_syspath device) m s in Done (None, m1, s1))"

subsection \<open>Buffered chunks\<close>

definition FASTBOOT_BLOCKSIZE :: nat where
  "FASTBOOT_BLOCKSIZE = 4096"

definition fastboot_volume_target :: "string \<Rightarrow> u64 option \<Rightarrow> VolumeTargetInfo" where
  "fastboot_volume_target target sz =
     \<lparr>target_name = target, readable = False, writable = True, seekable = True,
      target_size = sz, blocksize = Some (of_nat FASTBOOT_BLOCKSIZE)\<rparr>"

text \<open>The lengths and the bytes of the headers of a sparse image.\<close>

record sparse_format =
  FILE_HEADER_BYTES_LEN :: nat
  CHUNK_HEADER_BYTES_LEN :: nat
  file_header :: "u32 \<Rightarrow> u32 \<Rightarrow> u32 \<Rightarrow> u32 \<Rightarrow> bytes"
  chunk_dontcare :: "u32 \<Rightarrow> bytes"
  chunk_raw :: "u32 \<Rightarrow> u32 \<Rightarrow> bytes"

record FastbootChunk =
  fc_offset :: u32
  fc_data :: "bytes list"

definition offset_bytes :: "FastbootChunk \<Rightarrow> nat" where
  "offset_bytes c = unat (fc_offset c) * FASTBOOT_BLOCKSIZE"

definition data_bytes :: "FastbootChunk \<Rightarrow> nat" where
  "data_bytes c = sum_list (map length (fc_data c))"

definition end_bytes :: "FastbootChunk \<Rightarrow> nat" where
  "end_bytes c = offset_bytes c + data_bytes c"

definition div_ceil :: "nat \<Rightarrow> nat \<Rightarrow> nat" where
  "div_ceil a b = (a + b - 1) div b"

definition next_multiple_of :: "nat \<Rightarrow> nat \<Rightarrow> nat" where
  "next_multiple_of a b = (if a mod b = 0 then a else a + (b - a mod b))"

definition chunk_blocks :: "FastbootChunk \<Rightarrow> u32" where
  "chunk_blocks c = of_nat (div_ceil (data_bytes c) FASTBOOT_BLOCKSIZE)"

definition end_blocks :: "FastbootChunk \<Rightarrow> u32" where
  "end_blocks c = fc_offset c + chunk_blocks c"

definition end_padding :: "FastbootChunk \<Rightarrow> nat" where
  "end_padding c =
     (let rem = data_bytes c mod FASTBOOT_BLOCKSIZE in if rem > 0 then FASTBOOT_BLOCKSIZE - rem else 0)"

text \<open>\<^verbatim>\<open>FastbootData\<close> is its list of chunks.\<close>

type_synonym FastbootData = "FastbootChunk list"

definition can_write_raw :: "FastbootData \<Rightarrow> bool" where
  "can_write_raw cs = (if length cs = 1 then fc_offset (cs ! 0) = 0 else False)"

definition n_chunks :: "FastbootData \<Rightarrow> nat" where
  "n_chunks cs = length cs"

definition expanded_blocks :: "FastbootData \<Rightarrow> u32" where
  "expanded_blocks cs = (if cs = [] then 0 else end_blocks (last cs))"

definition chunk_flash_size :: "'a sparse_format_scheme \<Rightarrow> FastbootChunk \<Rightarrow> nat" where
  "chunk_flash_size fmt c =
     (if fc_offset c > 0 then 2 * CHUNK_HEADER_BYTES_LEN fmt else CHUNK_HEADER_BYTES_LEN fmt) +
     sum_list (map (\<lambda>d. next_multiple_of (length d) FASTBOOT_BLOCKSIZE) (fc_data c))"

definition flash_size :: "'a sparse_format_scheme \<Rightarrow> FastbootData \<Rightarrow> nat" where
  "flash_size fmt cs = FILE_HEADER_BYTES_LEN fmt + sum_list (map (chunk_flash_size fmt) cs)"

definition flash_chunks :: "FastbootData \<Rightarrow> u32" where
  "flash_chunks cs =
     of_nat (case cs of
        first # _ \<Rightarrow> if fc_offset first = 0 then n_chunks cs * 2 - 1 else n_chunks cs * 2
      | [] \<Rightarrow> n_chunks cs * 2)"

text \<open>A subtraction on \<^verbatim>\<open>usize\<close> in a release build.\<close>

definition usize_sub :: "nat \<Rightarrow> nat \<Rightarrow> nat" where
  "usize_sub a b = (if b \<le> a then a - b else 2 ^ 64 + a - b)"

text \<open>
  \<^verbatim>\<open>append\<close>: whether data was taken, the chunks after it, and the data left over
  (\<^verbatim>\<open>split_to\<close> takes the front).
\<close>

definition append_chunk ::
  "'a sparse_format_scheme \<Rightarrow> nat \<Rightarrow> bytes \<Rightarrow> nat \<Rightarrow> FastbootData \<Rightarrow> bool \<times> FastbootData \<times> bytes" where
  "append_chunk fmt offset data max_size cs =
     (let remaining = usize_sub max_size (flash_size fmt cs);
          new_chunk =
            (let remaining = remaining - 2 * CHUNK_HEADER_BYTES_LEN fmt in
             if remaining < FASTBOOT_BLOCKSIZE then (False, cs, data)
             else
               (let block_offset = offset div FASTBOOT_BLOCKSIZE;
                    remaining = remaining div FASTBOOT_BLOCKSIZE * FASTBOOT_BLOCKSIZE;
                    rem = offset mod FASTBOOT_BLOCKSIZE;
                    n = min (length data) (if rem > 0 then remaining - rem else remaining);
                    pieces = (if rem > 0 then [replicate rem 0, take n data] else [take n data])
                in (True, cs @ [\<lparr>fc_offset = of_nat block_offset, fc_data = pieces\<rparr>], drop n data)))
      in if cs \<noteq> [] \<and> end_bytes (last cs) = offset then
           (let n = min (length data) (remaining div FASTBOOT_BLOCKSIZE * FASTBOOT_BLOCKSIZE);
                lst = last cs
            in (True, butlast cs @ [lst\<lparr>fc_data := fc_data lst @ [take n data]\<rparr>], drop n data))
         else if cs \<noteq> [] \<and> end_bytes (last cs) > offset then (False, cs, data)
         else new_chunk)"

subsection \<open>Sending an image to the device\<close>

text \<open>
  The fastboot client: each operation answers with a result over the state \<open>'w\<close> of the
  device; \<open>fb_download\<close> opens a download of a size, \<open>fb_extend\<close> sends bytes of it and
  \<open>fb_finish\<close> ends it.
\<close>

record ('e, 'w) fastboot =
  fb_download :: "u32 \<Rightarrow> 'w \<Rightarrow> ('e, unit) result \<times> 'w"
  fb_extend :: "bytes \<Rightarrow> 'w \<Rightarrow> ('e, unit) result \<times> 'w"
  fb_finish :: "'w \<Rightarrow> ('e, unit) result \<times> 'w"
  fb_flash :: "string \<Rightarrow> 'w \<Rightarrow> ('e, unit) result \<times> 'w"
  fb_get_var :: "string \<Rightarrow> 'w \<Rightarrow> ('e, string) result \<times> 'w"
  fb_erase :: "string \<Rightarrow> 'w \<Rightarrow> ('e, unit) result \<times> 'w"
  fb_continue_boot :: "'w \<Rightarrow> ('e, unit) result \<times> 'w"
  fb_to_string :: "'e \<Rightarrow> string"
  fb_parse_u64_hex :: "string \<Rightarrow> u64 option"

definition TARGET_STAGE :: string where
  "TARGET_STAGE = ''stage''"

definition flash_unless_stage ::
  "('e, 'w) fastboot \<Rightarrow> bool \<Rightarrow> string \<Rightarrow> 'w \<Rightarrow> ('e, unit) result \<times> 'w" where
  "flash_unless_stage fb has_stage target w =
     (if \<not> has_stage \<or> target \<noteq> TARGET_STAGE then fb_flash fb target w else (Ok (), w))"

definition do_download_raw ::
  "('e, 'w) fastboot \<Rightarrow> bool \<Rightarrow> string \<Rightarrow> FastbootData \<Rightarrow> 'w \<Rightarrow> ('e, unit) result \<times> 'w" where
  "do_download_raw fb has_stage target cs =
     (let chunk = cs ! 0 in
      try_then (fb_download fb (of_nat (data_bytes chunk)))
     (try_then (try_each (fb_extend fb) (fc_data chunk))
     (try_then (fb_finish fb)
        (flash_unless_stage fb has_stage target))))"

text \<open>The slices sent for the chunks; \<open>offset\<close> is the end of the previous chunk in blocks.\<close>

fun aimg_chunks :: "'a sparse_format_scheme \<Rightarrow> u32 \<Rightarrow> FastbootData \<Rightarrow> bytes list" where
  "aimg_chunks fmt offset [] = []"
| "aimg_chunks fmt offset (c # cs) =
     (if fc_offset c \<noteq> offset then [chunk_dontcare fmt (fc_offset c - offset)] else []) @
     [chunk_raw fmt (chunk_blocks c) (of_nat FASTBOOT_BLOCKSIZE)] @
     fc_data c @
     (if end_padding c = 0 then [] else [replicate (end_padding c) 0]) @
     aimg_chunks fmt (end_blocks c) cs"

definition aimg_slices :: "'a sparse_format_scheme \<Rightarrow> FastbootData \<Rightarrow> bytes list" where
  "aimg_slices fmt cs =
     file_header fmt (of_nat FASTBOOT_BLOCKSIZE) (expanded_blocks cs) (flash_chunks cs) 0 #
     aimg_chunks fmt 0 cs"

definition do_download_aimg ::
  "'a sparse_format_scheme \<Rightarrow> ('e, 'w) fastboot \<Rightarrow> bool \<Rightarrow> string \<Rightarrow> FastbootData \<Rightarrow> 'w \<Rightarrow>
   ('e, unit) result \<times> 'w" where
  "do_download_aimg fmt fb has_stage target cs =
     try_then (fb_download fb (of_nat (flash_size fmt cs)))
    (try_then (try_each (fb_extend fb) (aimg_slices fmt cs))
    (try_then (fb_finish fb)
       (flash_unless_stage fb has_stage target)))"

definition do_flash ::
  "'a sparse_format_scheme \<Rightarrow> ('e, 'w) fastboot \<Rightarrow> bool \<Rightarrow> string \<Rightarrow> FastbootData \<Rightarrow> 'w \<Rightarrow>
   ('e, unit) result \<times> 'w" where
  "do_flash fmt fb has_stage target cs w =
     (if cs = [] then (Ok (), w)
      else if can_write_raw cs then do_download_raw fb has_stage target cs w
      else do_download_aimg fmt fb has_stage target cs w)"

definition do_dummy_flash :: "('e, 'w) fastboot \<Rightarrow> string \<Rightarrow> 'w \<Rightarrow> ('e, unit) result \<times> 'w" where
  "do_dummy_flash fb target =
     try_then (fb_download fb 0) (try_then (fb_finish fb) (fb_flash fb target))"

definition do_probe ::
  "('e, 'w) fastboot \<Rightarrow> string \<Rightarrow> 'w \<Rightarrow> ('e, VolumeTargetInfo) result \<times> 'w" where
  "do_probe fb target w =
     (let (r, w1) = fb_get_var fb (''partition-size:'' @ target) w;
          sz = (case r of Ok v \<Rightarrow> fb_parse_u64_hex fb v | Err e \<Rightarrow> None)
      in if sz = None
         then (case do_dummy_flash fb target w1 of
                 (Err e, w2) \<Rightarrow> (Err e, w2)
               | (Ok _, w2) \<Rightarrow> (Ok (fastboot_volume_target target sz), w2))
         else (Ok (fastboot_volume_target target sz), w1))"

datatype FastbootCommand =
    CmdFlash string FastbootData | CmdProbe string | CmdErase string | CmdContinue | CmdPing

datatype 'e FastbootReply =
    ReplyUnit "('e, unit) result" | ReplyProbe "('e, VolumeTargetInfo) result" | ReplyPing

text \<open>
  One iteration of the task \<^verbatim>\<open>process\<close>. It takes the commands in the order they are sent and
  answers each, and it lives as long as a volume or a target holds a sender, so a call through
  the channel is the call of \<open>process_one\<close> at its place in that order.
\<close>

fun process_one ::
  "'a sparse_format_scheme \<Rightarrow> ('e, 'w) fastboot \<Rightarrow> bool \<Rightarrow> FastbootCommand \<Rightarrow> 'w \<Rightarrow> 'e FastbootReply \<times> 'w" where
  "process_one fmt fb has_stage (CmdFlash target data) w =
     (case do_flash fmt fb has_stage target data w of (r, w1) \<Rightarrow> (ReplyUnit r, w1))"
| "process_one fmt fb has_stage (CmdProbe target) w =
     (case do_probe fb target w of (r, w1) \<Rightarrow> (ReplyProbe r, w1))"
| "process_one fmt fb has_stage (CmdErase target) w =
     (case fb_erase fb target w of (r, w1) \<Rightarrow> (ReplyUnit r, w1))"
| "process_one fmt fb has_stage CmdContinue w =
     (case fb_continue_boot fb w of (r, w1) \<Rightarrow> (ReplyUnit r, w1))"
| "process_one fmt fb has_stage CmdPing w = (ReplyPing, w)"

subsection \<open>The device handle\<close>

text \<open>
  \<^verbatim>\<open>FastbootDevice\<close>. A reply of the wrong kind would be the dropped oneshot, which the task
  never causes. The outer result of \<open>device_flash\<close> is that of sending the command, the
  inner one what \<^verbatim>\<open>FlashResult::result\<close> yields later.
\<close>

definition device_flash ::
  "'a sparse_format_scheme \<Rightarrow> ('e, 'w) fastboot \<Rightarrow> bool \<Rightarrow> string \<Rightarrow> FastbootData \<Rightarrow> 'w \<Rightarrow>
   (status, (status, unit) result) result \<times> 'w" where
  "device_flash fmt fb has_stage target data w =
     (case process_one fmt fb has_stage (CmdFlash target data) w of
        (ReplyUnit r, w1) \<Rightarrow> (Ok (map_err (\<lambda>e. Status FailedPrecondition (fb_to_string fb e)) r), w1)
      | (_, w1) \<Rightarrow> (Ok (Err (Status Internal ''channel closed'')), w1))"

definition device_probe ::
  "'a sparse_format_scheme \<Rightarrow> ('e, 'w) fastboot \<Rightarrow> bool \<Rightarrow> string \<Rightarrow> 'w \<Rightarrow>
   (status, VolumeTargetInfo) result \<times> 'w" where
  "device_probe fmt fb has_stage target w =
     (case process_one fmt fb has_stage (CmdProbe target) w of
        (ReplyProbe r, w1) \<Rightarrow> (map_err (\<lambda>e. Status FailedPrecondition (fb_to_string fb e)) r, w1)
      | (_, w1) \<Rightarrow> (Err (Status Internal ''channel closed''), w1))"

definition volume_command ::
  "'a sparse_format_scheme \<Rightarrow> ('e, 'w) fastboot \<Rightarrow> bool \<Rightarrow> FastbootCommand \<Rightarrow> 'w \<Rightarrow>
   (VolumeError, unit) result \<times> 'w" where
  "volume_command fmt fb has_stage cmd w =
     (case process_one fmt fb has_stage cmd w of
        (ReplyUnit r, w1) \<Rightarrow> (map_err (\<lambda>e. VolumeFailure (fb_to_string fb e)) r, w1)
      | (_, w1) \<Rightarrow> (Err (VolumeInternal ''channel closed''), w1))"

definition device_erase where
  "device_erase fmt fb has_stage target = volume_command fmt fb has_stage (CmdErase target)"

definition device_continue_boot where
  "device_continue_boot fmt fb has_stage = volume_command fmt fb has_stage CmdContinue"

definition device_ping ::
  "'a sparse_format_scheme \<Rightarrow> ('e, 'w) fastboot \<Rightarrow> bool \<Rightarrow> 'w \<Rightarrow> (status, unit) result \<times> 'w" where
  "device_ping fmt fb has_stage w =
     (case process_one fmt fb has_stage CmdPing w of
        (ReplyPing, w1) \<Rightarrow> (Ok (), w1)
      | (_, w1) \<Rightarrow> (Err (Status Internal ''channel closed''), w1))"

subsection \<open>Setting a volume up\<close>

text \<open>The targets a device lists among its variables, then the configured ones it answers for.\<close>

definition strip_prefix :: "string \<Rightarrow> string \<Rightarrow> string option" where
  "strip_prefix p s = (if take (length p) s = p then Some (drop (length p) s) else None)"

definition listed_targets :: "('e, 'w) fastboot \<Rightarrow> (string \<times> string) list \<Rightarrow> VolumeTargetInfo list" where
  "listed_targets fb vars =
     List.map_filter (\<lambda>(k, v). map_option (\<lambda>name. fastboot_volume_target name (fb_parse_u64_hex fb v))
        (strip_prefix ''partition-size:'' k)) vars"

fun probe_known ::
  "'a sparse_format_scheme \<Rightarrow> ('e, 'w) fastboot \<Rightarrow> bool \<Rightarrow> string list \<Rightarrow>
   VolumeTargetInfo list \<Rightarrow> 'w \<Rightarrow> VolumeTargetInfo list \<times> 'w" where
  "probe_known fmt fb has_stage [] targets w = (targets, w)"
| "probe_known fmt fb has_stage (k # ks) targets w =
     (if list_ex (\<lambda>t. target_name t = k) targets then probe_known fmt fb has_stage ks targets w
      else (case device_probe fmt fb has_stage k w of
              (Ok info, w1) \<Rightarrow> probe_known fmt fb has_stage ks (targets @ [info]) w1
            | (Err e, w1) \<Rightarrow> probe_known fmt fb has_stage ks targets w1))"

record FastbootVolume =
  fv_targets :: "VolumeTargetInfo list"
  fv_max_download :: u32

text \<open>
  \<^verbatim>\<open>setup_volume\<close> once the client is open: \<open>all_vars\<close> is what \<^verbatim>\<open>get_all_vars\<close> yields and
  \<open>parse_u32_hex\<close> the parser of the library; \<open>None\<close> is the error that abandons the setup.
\<close>

definition fastboot_setup ::
  "'a sparse_format_scheme \<Rightarrow> ('e, 'w) fastboot \<Rightarrow> (string \<Rightarrow> u32 option) \<Rightarrow>
   ('w \<Rightarrow> ('e, (string \<times> string) list) result \<times> 'w) \<Rightarrow> bool \<Rightarrow> string list \<Rightarrow> Properties \<Rightarrow> 'w \<Rightarrow>
   (FastbootVolume \<times> Properties) option \<times> 'w" where
  "fastboot_setup fmt fb parse_u32_hex all_vars has_stage known_targets props w =
     (let (vars, w1) = all_vars w;
          targets = listed_targets fb (case vars of Ok vs \<Rightarrow> vs | Err e \<Rightarrow> [])
      in case fb_get_var fb ''max-download-size'' w1 of
           (Err e, w2) \<Rightarrow> (None, w2)
         | (Ok max_download_size, w2) \<Rightarrow>
             (case parse_u32_hex max_download_size of
                None \<Rightarrow> (None, w2)
              | Some max_download \<Rightarrow>
                  (case fb_get_var fb ''version'' w2 of
                     (Err e, w3) \<Rightarrow> (None, w3)
                   | (Ok version, w3) \<Rightarrow>
                       (let (targets1, w4) = probe_known fmt fb has_stage known_targets targets w3
                        in (Some (\<lparr>fv_targets = targets1, fv_max_download = max_download\<rparr>,
                              properties_insert props ''fastboot.version'' version), w4)))))"

subsection \<open>The volume and its target\<close>

record FastbootVolumeTarget =
  ft_target :: string
  ft_max_download :: u32
  ft_buffered :: FastbootData

definition fastboot_volume_targets :: "FastbootVolume \<Rightarrow> VolumeTargetInfo list \<times> bool" where
  "fastboot_volume_targets v = (fv_targets v, False)"

definition fastboot_volume_open ::
  "'a sparse_format_scheme \<Rightarrow> ('e, 'w) fastboot \<Rightarrow> bool \<Rightarrow> FastbootVolume \<Rightarrow> string \<Rightarrow> u64 option \<Rightarrow> 'w \<Rightarrow>
   (VolumeError, VolumeTargetInfo \<times> FastbootVolumeTarget) result \<times> 'w" where
  "fastboot_volume_open fmt fb has_stage v target len w =
     (let (info, w1) =
        (case List.find (\<lambda>t. target_name t = target) (fv_targets v) of
           Some info \<Rightarrow> (info, w)
         | None \<Rightarrow>
             (case device_probe fmt fb has_stage target w of
                (Ok info, w1) \<Rightarrow> (info, w1)
              | (Err e, w1) \<Rightarrow> (fastboot_volume_target target None, w1)))
      in (Ok (info, \<lparr>ft_target = target, ft_max_download = fv_max_download v, ft_buffered = []\<rparr>), w1))"

definition fastboot_volume_commit where
  "fastboot_volume_commit fmt fb has_stage = device_continue_boot fmt fb has_stage"

definition fastboot_volume_erase where
  "fastboot_volume_erase fmt fb has_stage target = device_erase fmt fb has_stage target"

definition FLASH_THRESHOLD :: nat where
  "FLASH_THRESHOLD = 16 * 1024 * 1024"

definition flash_threshold :: "nat \<Rightarrow> nat" where
  "flash_threshold max_download = min FLASH_THRESHOLD (usize_sub max_download (2 * FASTBOOT_BLOCKSIZE))"

text \<open>
  The \<^verbatim>\<open>while\<close> loop of \<^verbatim>\<open>write\<close>. It may not end (a device whose largest download is too
  small takes no data at all), so the loop is partial: \<open>None\<close> stands for running forever.
  The result is the error that ends the call or the results of the flashes, with the buffer
  and the world. Note that \<open>offset\<close> stays what it was when only part of the data was taken.
\<close>

partial_function (option) write_loop ::
  "'a sparse_format_scheme \<Rightarrow>
   (FastbootData \<Rightarrow> 'w \<Rightarrow> (status, (status, unit) result) result \<times> 'w) \<Rightarrow>
   nat \<Rightarrow> nat \<Rightarrow> bytes \<Rightarrow> FastbootData \<Rightarrow> (status, unit) result list \<Rightarrow> 'w \<Rightarrow>
   ((status, (status, unit) result list) result \<times> FastbootData \<times> 'w) option" where
  "write_loop fmt flash offset max_download data cs flashes w =
     (if data = [] then Some (Ok flashes, cs, w)
      else
        (let (appended, cs1, data1) = append_chunk fmt offset data max_download cs in
         if \<not> appended \<or> flash_size fmt cs1 > flash_threshold max_download
         then (case flash cs1 w of
                 (Err e, w1) \<Rightarrow> Some (Err e, [], w1)
               | (Ok r, w1) \<Rightarrow> write_loop fmt flash offset max_download data1 [] (flashes @ [r]) w1)
         else write_loop fmt flash offset max_download data1 cs1 flashes w))"

text \<open>What completes the write: the first failed flash, else the length.\<close>

fun first_error :: "(status, unit) result list \<Rightarrow> status option" where
  "first_error [] = None"
| "first_error (Err e # rs) = Some e"
| "first_error (Ok _ # rs) = first_error rs"

definition complete_write :: "nat \<Rightarrow> (status, (status, unit) result list) result \<Rightarrow> (status, u64) result" where
  "complete_write len r =
     (case r of
        Err e \<Rightarrow> Err e
      | Ok flashes \<Rightarrow> (case first_error flashes of Some e \<Rightarrow> Err e | None \<Rightarrow> Ok (of_nat len)))"

definition fastboot_write ::
  "'a sparse_format_scheme \<Rightarrow> ('e, 'w) fastboot \<Rightarrow> bool \<Rightarrow> bytes \<Rightarrow> u64 \<Rightarrow> FastbootVolumeTarget \<times> 'w \<Rightarrow>
   ((status, u64) result \<times> FastbootVolumeTarget \<times> 'w) option" where
  "fastboot_write fmt fb has_stage data offset tw =
     (case tw of (t, w) \<Rightarrow>
        map_option (\<lambda>(r, cs, w1). (complete_write (length data) r, t\<lparr>ft_buffered := cs\<rparr>, w1))
          (write_loop fmt (device_flash fmt fb has_stage (ft_target t)) (unat offset)
             (unat (ft_max_download t)) data (ft_buffered t) [] w))"

definition fastboot_flush ::
  "'a sparse_format_scheme \<Rightarrow> ('e, 'w) fastboot \<Rightarrow> bool \<Rightarrow> FastbootVolumeTarget \<times> 'w \<Rightarrow>
   (status, unit) result option \<times> FastbootVolumeTarget \<times> 'w" where
  "fastboot_flush fmt fb has_stage tw =
     (case tw of (t, w) \<Rightarrow>
        (if ft_buffered t \<noteq> []
         then (case device_flash fmt fb has_stage (ft_target t) (ft_buffered t) w of
                 (Err e, w1) \<Rightarrow> (Some (Err e), t\<lparr>ft_buffered := []\<rparr>, w1)
               | (Ok r, w1) \<Rightarrow> (Some r, t\<lparr>ft_buffered := []\<rparr>, w1))
         else (case device_ping fmt fb has_stage w of (r, w1) \<Rightarrow> (Some r, t, w1))))"

text \<open>
  The methods of the trait for the target: reads are the default of the trait, a shutdown is a
  flush, and a write that runs forever is one whose completion never comes.
\<close>

definition fastboot_target ::
  "'a sparse_format_scheme \<Rightarrow> ('e, 'w) fastboot \<Rightarrow> bool \<Rightarrow> (FastbootVolumeTarget \<times> 'w) VolumeTarget" where
  "fastboot_target fmt fb has_stage =
     \<lparr>vt_read = default_read,
      vt_write = (\<lambda>data offset tw.
        case fastboot_write fmt fb has_stage data offset tw of
          None \<Rightarrow> (None, tw) | Some (r, tw1) \<Rightarrow> (Some r, tw1)),
      vt_flush = fastboot_flush fmt fb has_stage,
      vt_shutdown = default_shutdown (fastboot_flush fmt fb has_stage)\<rparr>"

subsection \<open>Blocks\<close>

lemma blocksize_pos [simp]: "0 < FASTBOOT_BLOCKSIZE" "FASTBOOT_BLOCKSIZE \<noteq> 0"
  by (simp_all add: FASTBOOT_BLOCKSIZE_def)

lemma next_multiple_of_dvd: "0 < b \<Longrightarrow> b dvd next_multiple_of a b"
proof -
  assume "0 < b"
  then have "a mod b \<le> b" by (simp add: less_imp_le)
  then have "a + (b - a mod b) = (a div b + 1) * b"
    by (metis add.assoc add_diff_inverse_nat div_mult_mod_eq distrib_right mult_1 not_le)
  then show ?thesis by (auto simp: next_multiple_of_def)
qed

lemma next_multiple_of_le:
  assumes "0 < b" "b dvd m" "a \<le> m"
  shows "next_multiple_of a b \<le> m"
proof (cases "a mod b = 0")
  case False
  from assms(2) obtain k where m: "m = b * k" ..
  have a: "a = b * (a div b) + a mod b" by simp
  have "\<not> k \<le> a div b"
  proof
    assume "k \<le> a div b"
    then have "m \<le> b * (a div b)" using m by (simp add: mult_le_mono)
    with a assms(3) False show False by linarith
  qed
  then have "b * (a div b + 1) \<le> b * k" by (intro mult_le_mono) simp_all
  moreover have "a + (b - a mod b) = b * (a div b + 1)"
  proof -
    have "b * (a div b + 1) = b * (a div b) + b" by simp
    with a mod_less_divisor [OF assms(1), of a] show ?thesis by linarith
  qed
  ultimately show ?thesis using False m by (simp add: next_multiple_of_def)
qed (use assms in \<open>simp add: next_multiple_of_def\<close>)

lemma next_multiple_of_multiple [simp]: "b dvd a \<Longrightarrow> next_multiple_of a b = a"
  by (simp add: next_multiple_of_def)

lemma flash_size_snoc:
  "flash_size fmt (cs @ [c]) = flash_size fmt cs + chunk_flash_size fmt c"
  by (simp add: flash_size_def)

lemma flash_size_append_piece:
  assumes "cs \<noteq> []"
  shows "flash_size fmt (butlast cs @ [(last cs)\<lparr>fc_data := fc_data (last cs) @ [d]\<rparr>]) =
    flash_size fmt cs + next_multiple_of (length d) FASTBOOT_BLOCKSIZE"
proof -
  have "flash_size fmt cs = flash_size fmt (butlast cs) + chunk_flash_size fmt (last cs)"
    using assms by (metis append_butlast_last_id flash_size_snoc)
  then show ?thesis by (simp add: flash_size_snoc chunk_flash_size_def)
qed

subsection \<open>Appending to the buffer\<close>

text \<open>
  What the device must allow for the buffer to work: two blocks beside the headers.
\<close>

definition room_for_block :: "'a sparse_format_scheme \<Rightarrow> nat \<Rightarrow> bool" where
  "room_for_block fmt max_download \<longleftrightarrow>
     FILE_HEADER_BYTES_LEN fmt + 2 * FASTBOOT_BLOCKSIZE \<le> max_download \<and>
     FILE_HEADER_BYTES_LEN fmt \<le> FASTBOOT_BLOCKSIZE \<and>
     2 * CHUNK_HEADER_BYTES_LEN fmt \<le> FASTBOOT_BLOCKSIZE"

lemma threshold_room:
  assumes "room_for_block fmt max_download"
  shows "flash_threshold max_download + 2 * FASTBOOT_BLOCKSIZE \<le> max_download"
    and "flash_size fmt [] \<le> flash_threshold max_download"
  using assms
  by (auto simp: room_for_block_def flash_threshold_def usize_sub_def flash_size_def
      FLASH_THRESHOLD_def FASTBOOT_BLOCKSIZE_def)

text \<open>The cases of \<^verbatim>\<open>append\<close> below the threshold.\<close>

definition taken_at_end :: "'a sparse_format_scheme \<Rightarrow> bytes \<Rightarrow> nat \<Rightarrow> FastbootData \<Rightarrow> nat" where
  "taken_at_end fmt data max_size cs =
     min (length data) ((max_size - flash_size fmt cs) div FASTBOOT_BLOCKSIZE * FASTBOOT_BLOCKSIZE)"

definition taken_by_chunk :: "'a sparse_format_scheme \<Rightarrow> nat \<Rightarrow> bytes \<Rightarrow> nat \<Rightarrow> FastbootData \<Rightarrow> nat" where
  "taken_by_chunk fmt offset data max_size cs =
     min (length data)
       ((max_size - flash_size fmt cs - 2 * CHUNK_HEADER_BYTES_LEN fmt) div FASTBOOT_BLOCKSIZE
          * FASTBOOT_BLOCKSIZE - offset mod FASTBOOT_BLOCKSIZE)"

definition new_chunk :: "nat \<Rightarrow> bytes \<Rightarrow> FastbootChunk" where
  "new_chunk offset d =
     \<lparr>fc_offset = of_nat (offset div FASTBOOT_BLOCKSIZE),
      fc_data = (if offset mod FASTBOOT_BLOCKSIZE > 0
                 then [replicate (offset mod FASTBOOT_BLOCKSIZE) 0, d] else [d])\<rparr>"

lemma append_cases:
  assumes "room_for_block fmt max_download" "flash_size fmt cs \<le> flash_threshold max_download"
  obtains
    (refused) "cs \<noteq> []" "offset < end_bytes (last cs)"
      "append_chunk fmt offset data max_download cs = (False, cs, data)"
  | (extend) n where "cs \<noteq> []" "end_bytes (last cs) = offset" "n = taken_at_end fmt data max_download cs"
      "append_chunk fmt offset data max_download cs =
         (True, butlast cs @ [(last cs)\<lparr>fc_data := fc_data (last cs) @ [take n data]\<rparr>], drop n data)"
  | (fresh) n where "cs = [] \<or> end_bytes (last cs) < offset"
      "n = taken_by_chunk fmt offset data max_download cs"
      "append_chunk fmt offset data max_download cs = (True, cs @ [new_chunk offset (take n data)], drop n data)"
proof -
  have room: "flash_size fmt cs + 2 * FASTBOOT_BLOCKSIZE \<le> max_download"
    and hdr: "2 * CHUNK_HEADER_BYTES_LEN fmt \<le> FASTBOOT_BLOCKSIZE"
    using threshold_room(1) [OF assms(1)] assms by (auto simp: room_for_block_def)
  then have enough: "\<not> max_download - flash_size fmt cs - 2 * CHUNK_HEADER_BYTES_LEN fmt < FASTBOOT_BLOCKSIZE"
    by linarith
  consider "cs \<noteq> []" "end_bytes (last cs) = offset" | "cs \<noteq> []" "offset < end_bytes (last cs)"
    | "cs = [] \<or> end_bytes (last cs) < offset" by fastforce
  then show thesis
  proof cases
    case 1
    with room extend [OF _ _ refl] show thesis
      by (simp add: append_chunk_def usize_sub_def taken_at_end_def Let_def)
  next
    case 2
    with refused show thesis by (simp add: append_chunk_def Let_def)
  next
    case 3
    have "append_chunk fmt offset data max_download cs =
        (let n = taken_by_chunk fmt offset data max_download cs in
         (True, cs @ [new_chunk offset (take n data)], drop n data))"
    proof -
      have c: "(cs \<noteq> [] \<and> end_bytes (last cs) = offset) = False"
        "(cs \<noteq> [] \<and> offset < end_bytes (last cs)) = False" using 3 by auto
      have u: "usize_sub max_download (flash_size fmt cs) = max_download - flash_size fmt cs"
        using room by (simp add: usize_sub_def)
      show ?thesis
        unfolding append_chunk_def taken_by_chunk_def new_chunk_def Let_def c u if_False
        using enough by (cases "0 < offset mod FASTBOOT_BLOCKSIZE") (simp_all only: if_True if_False diff_zero not_gr_zero, simp_all)
    qed
    with 3 fresh [OF _ refl] show thesis by (simp add: Let_def)
  qed
qed

lemma taken_positive:
  assumes "room_for_block fmt max_download" "flash_size fmt cs \<le> flash_threshold max_download" "data \<noteq> []"
  shows "0 < taken_at_end fmt data max_download cs" "0 < taken_by_chunk fmt offset data max_download cs"
proof -
  have room: "flash_size fmt cs + 2 * FASTBOOT_BLOCKSIZE \<le> max_download"
    and hdr: "2 * CHUNK_HEADER_BYTES_LEN fmt \<le> FASTBOOT_BLOCKSIZE"
    using threshold_room(1) [OF assms(1)] assms by (auto simp: room_for_block_def)
  have block: "FASTBOOT_BLOCKSIZE \<le> r div FASTBOOT_BLOCKSIZE * FASTBOOT_BLOCKSIZE" if "FASTBOOT_BLOCKSIZE \<le> r" for r
    using that by (metis blocksize_pos(1) div_greater_zero_iff mult_1 mult_le_mono1 Suc_leI One_nat_def)
  have "FASTBOOT_BLOCKSIZE \<le> max_download - flash_size fmt cs"
    "FASTBOOT_BLOCKSIZE \<le> max_download - flash_size fmt cs - 2 * CHUNK_HEADER_BYTES_LEN fmt"
    using room hdr by linarith+
  note facts = this [THEN block]
  have "offset mod FASTBOOT_BLOCKSIZE < FASTBOOT_BLOCKSIZE" by simp
  from less_le_trans [OF this facts(2)] facts(1) assms(3)
  show "0 < taken_at_end fmt data max_download cs" "0 < taken_by_chunk fmt offset data max_download cs"
    unfolding taken_at_end_def taken_by_chunk_def
    by (simp_all only: min_less_iff_conj zero_less_diff length_greater_0_conv)
       (auto simp: less_le_trans [OF blocksize_pos(1)])
qed

subsection \<open>The write loop ends\<close>

lemma append_progress:
  assumes "room_for_block fmt max_download" "flash_size fmt cs \<le> flash_threshold max_download" "data \<noteq> []"
    and "append_chunk fmt offset data max_download cs = (appended, cs1, data1)"
  shows "if appended then length data1 < length data else cs \<noteq> [] \<and> cs1 = cs \<and> data1 = data"
  using append_cases [OF assms(1,2), of offset data]
  by cases (use assms taken_positive [OF assms(1-3)] in auto)

text \<open>
  The rule for the loop, for total correctness: an invariant kept by each iteration, whether
  it flashes or not, and the result it gives at the end. The measure is the data left and
  whether the buffer is empty.
\<close>

lemma write_loop_rule:
  assumes room: "room_for_block fmt max_download"
    and small: "flash_size fmt cs \<le> flash_threshold max_download"
    and inv: "P data cs w flashes"
    and keep: "\<And>data cs w flashes cs1 data1.
       P data cs w flashes \<Longrightarrow> data \<noteq> [] \<Longrightarrow> flash_size fmt cs \<le> flash_threshold max_download \<Longrightarrow>
       append_chunk fmt offset data max_download cs = (True, cs1, data1) \<Longrightarrow>
       flash_size fmt cs1 \<le> flash_threshold max_download \<Longrightarrow> P data1 cs1 w flashes"
    and flush: "\<And>data cs w flashes appended cs1 data1 r w1.
       P data cs w flashes \<Longrightarrow> data \<noteq> [] \<Longrightarrow> flash_size fmt cs \<le> flash_threshold max_download \<Longrightarrow>
       append_chunk fmt offset data max_download cs = (appended, cs1, data1) \<Longrightarrow>
       \<not> appended \<or> flash_size fmt cs1 > flash_threshold max_download \<Longrightarrow>
       flash cs1 w = (Ok r, w1) \<Longrightarrow> P data1 [] w1 (flashes @ [r])"
    and fail: "\<And>data cs w flashes appended cs1 data1 e w1.
       P data cs w flashes \<Longrightarrow> data \<noteq> [] \<Longrightarrow> flash_size fmt cs \<le> flash_threshold max_download \<Longrightarrow>
       append_chunk fmt offset data max_download cs = (appended, cs1, data1) \<Longrightarrow>
       flash cs1 w = (Err e, w1) \<Longrightarrow> Q (Err e) [] w1"
    and finish: "\<And>cs w flashes.
       P [] cs w flashes \<Longrightarrow> flash_size fmt cs \<le> flash_threshold max_download \<Longrightarrow> Q (Ok flashes) cs w"
  shows "\<exists>r cs' w'. write_loop fmt flash offset max_download data cs flashes w = Some (r, cs', w') \<and>
    flash_size fmt cs' \<le> flash_threshold max_download \<and> Q r cs' w'"
  using small inv
proof (induction "2 * length data + (if cs = [] then 0 else 1)" arbitrary: data cs w flashes
    rule: less_induct)
  case less
  show ?case
  proof (cases "data = []")
    case True
    with less.prems finish show ?thesis by (simp add: write_loop.simps)
  next
    case False
    obtain appended cs1 data1 where
      app: "append_chunk fmt offset data max_download cs = (appended, cs1, data1)" by (metis surj_pair)
    note progress = append_progress [OF room less.prems(1) False app]
    show ?thesis
    proof (cases "\<not> appended \<or> flash_size fmt cs1 > flash_threshold max_download")
      case True
      obtain r w1 where fl: "flash cs1 w = (r, w1)" by force
      show ?thesis
      proof (cases r)
        case (Inl e)
        with fail [OF less.prems(2) False less.prems(1) app] fl app True False threshold_room(2) [OF room]
        show ?thesis by (simp add: write_loop.simps)
      next
        case (Inr r1)
        have "P data1 [] w1 (flashes @ [r1])"
          using flush [OF less.prems(2) False less.prems(1) app True] fl Inr by simp
        moreover have "2 * length data1 + 0 < 2 * length data + (if cs = [] then 0 else 1)"
          using progress by (auto split: if_splits)
        ultimately show ?thesis
          using less.hyps [of data1 "[]" w1 "flashes @ [r1]"] threshold_room(2) [OF room]
            fl Inr app True False
          by (subst write_loop.simps) simp
      qed
    next
      case False': False
      then have app': "append_chunk fmt offset data max_download cs = (True, cs1, data1)"
        and le: "flash_size fmt cs1 \<le> flash_threshold max_download" using app by auto
      have "P data1 cs1 w flashes"
        by (rule keep [OF less.prems(2) False less.prems(1) app' le])
      moreover have "2 * length data1 + (if cs1 = [] then 0 else 1) <
          2 * length data + (if cs = [] then 0 else 1)"
        using progress False' by (auto split: if_splits)
      ultimately show ?thesis
        using less.hyps [of data1 cs1 w flashes] le app' False False'
        by (subst write_loop.simps) simp
    qed
  qed
qed

lemma append_flash_size:
  assumes "room_for_block fmt max_download" "flash_size fmt cs \<le> flash_threshold max_download"
    and "append_chunk fmt offset data max_download cs = (appended, cs1, data1)"
    and "FASTBOOT_BLOCKSIZE dvd offset"
  shows "flash_size fmt cs1 \<le> max_download"
proof -
  have room: "flash_size fmt cs + 2 * FASTBOOT_BLOCKSIZE \<le> max_download"
    and hdr: "2 * CHUNK_HEADER_BYTES_LEN fmt \<le> FASTBOOT_BLOCKSIZE"
    using threshold_room(1) [OF assms(1)] assms by (auto simp: room_for_block_def)
  have blocks: "next_multiple_of n FASTBOOT_BLOCKSIZE \<le> r"
    if "n \<le> r div FASTBOOT_BLOCKSIZE * FASTBOOT_BLOCKSIZE" for n r
    using next_multiple_of_le [OF _ _ that] by (meson blocksize_pos(1) div_times_less_eq_dividend dvd_triv_right order_trans)
  show ?thesis
    using assms(1,2)
  proof (cases rule: append_cases [where offset = offset and data = data])
    case refused
    with assms(3) room show ?thesis by simp
  next
    case (extend n)
    then have "next_multiple_of n FASTBOOT_BLOCKSIZE \<le> max_download - flash_size fmt cs"
      by (intro blocks) (simp add: taken_at_end_def)
    moreover have "length (take n data) = n" using extend by (simp add: taken_at_end_def)
    ultimately show ?thesis
      using extend assms(3) room flash_size_append_piece [OF extend(1), of fmt "take n data"]
      by (simp add: Let_def)
  next
    case (fresh n)
    have "offset mod FASTBOOT_BLOCKSIZE = 0" using assms(4) by simp
    with fresh have n: "n \<le> (max_download - flash_size fmt cs - 2 * CHUNK_HEADER_BYTES_LEN fmt)
        div FASTBOOT_BLOCKSIZE * FASTBOOT_BLOCKSIZE" and len: "length (take n data) = n"
      by (simp_all add: taken_by_chunk_def)
    have "chunk_flash_size fmt (new_chunk offset (take n data)) \<le>
        2 * CHUNK_HEADER_BYTES_LEN fmt + next_multiple_of n FASTBOOT_BLOCKSIZE"
      using assms(4) len by (simp add: chunk_flash_size_def new_chunk_def)
    with blocks [OF n] fresh assms(3) room hdr show ?thesis
      by (auto simp: flash_size_snoc)
  qed
qed

subsection \<open>What the buffer holds\<close>

text \<open>The bytes of a buffer at their place on the medium, later chunks over earlier ones.\<close>

definition write_at :: "nat \<Rightarrow> bytes \<Rightarrow> (nat \<rightharpoonup> u8)" where
  "write_at off d = (\<lambda>p. if off \<le> p \<and> p < off + length d then Some (d ! (p - off)) else None)"

fun data_content :: "FastbootData \<Rightarrow> (nat \<rightharpoonup> u8)" where
  "data_content [] = Map.empty"
| "data_content (c # cs) = write_at (offset_bytes c) (concat (fc_data c)) ++ data_content cs"

definition payload :: "FastbootData \<Rightarrow> bytes" where
  "payload cs = concat (map (\<lambda>c. concat (fc_data c)) cs)"

lemma data_content_append: "data_content (cs @ ds) = data_content cs ++ data_content ds"
  by (induction cs) simp_all

lemma payload_append [simp]: "payload (cs @ ds) = payload cs @ payload ds" "payload [] = []"
  by (simp_all add: payload_def)

lemma write_at_append: "write_at off (d @ e) = write_at off d ++ write_at (off + length d) e"
  by (rule ext) (auto simp: write_at_def map_add_def nth_append)

lemma write_at_Nil [simp]: "write_at off [] = Map.empty"
  by (rule ext) (simp add: write_at_def)

lemma length_concat_pieces: "length (concat (fc_data c)) = data_bytes c"
  by (simp add: data_bytes_def length_concat)

lemma offset_bytes_new_chunk:
  "offset < 2 ^ 44 \<Longrightarrow> offset_bytes (new_chunk offset d) = offset div FASTBOOT_BLOCKSIZE * FASTBOOT_BLOCKSIZE"
proof -
  assume "offset < 2 ^ 44"
  then have "offset div FASTBOOT_BLOCKSIZE < 2 ^ 32"
    by (simp add: FASTBOOT_BLOCKSIZE_def less_mult_imp_div_less)
  then have "unat (of_nat (offset div FASTBOOT_BLOCKSIZE) :: u32) = offset div FASTBOOT_BLOCKSIZE"
    by (simp add: unat_of_nat take_bit_eq_mod)
  then show ?thesis by (simp add: offset_bytes_def new_chunk_def)
qed

lemma data_content_extend:
  assumes "cs \<noteq> []"
  shows "data_content (butlast cs @ [(last cs)\<lparr>fc_data := fc_data (last cs) @ [d]\<rparr>]) =
    data_content cs ++ write_at (end_bytes (last cs)) d"
    and "payload (butlast cs @ [(last cs)\<lparr>fc_data := fc_data (last cs) @ [d]\<rparr>]) = payload cs @ d"
proof -
  have "data_content cs = data_content (butlast cs) ++ data_content [last cs]"
    using assms by (metis append_butlast_last_id data_content_append)
  then show "data_content (butlast cs @ [(last cs)\<lparr>fc_data := fc_data (last cs) @ [d]\<rparr>]) =
      data_content cs ++ write_at (end_bytes (last cs)) d"
    by (simp add: data_content_append write_at_append offset_bytes_def end_bytes_def length_concat_pieces)
  have "payload cs = payload (butlast cs) @ payload [last cs]"
    using assms by (metis append_butlast_last_id payload_append(1))
  then show "payload (butlast cs @ [(last cs)\<lparr>fc_data := fc_data (last cs) @ [d]\<rparr>]) = payload cs @ d"
    by (simp add: payload_def)
qed

lemma payload_new_chunk [simp]: "FASTBOOT_BLOCKSIZE dvd offset \<Longrightarrow> payload [new_chunk offset d] = d"
  by (simp add: payload_def new_chunk_def)

lemma append_payload:
  assumes "room_for_block fmt max_download" "flash_size fmt cs \<le> flash_threshold max_download"
    and "append_chunk fmt offset data max_download cs = (appended, cs1, data1)"
    and "FASTBOOT_BLOCKSIZE dvd offset"
  shows "payload cs1 @ data1 = payload cs @ data"
  using assms(1,2)
proof (cases rule: append_cases [where offset = offset and data = data])
  case (extend n)
  with assms(3) have "cs1 = butlast cs @ [(last cs)\<lparr>fc_data := fc_data (last cs) @ [take n data]\<rparr>]"
    and "data1 = drop n data" by auto
  then show ?thesis using data_content_extend(2) [OF extend(1), of "take n data"] by (simp del: payload_append)
qed (use assms(3,4) in auto)

subsection \<open>The properties of buffering and writing\<close>

text \<open>
  C5. Buffered data is where it was written: below the flash threshold, appending data at a
  block-aligned offset under 16 TiB either takes a front part of it and sets exactly those
  bytes from the offset on, or is refused, only for an offset before the end of the buffer,
  and changes nothing.
\<close>

theorem fastboot_append_places:
  assumes "room_for_block fmt max_download" "flash_size fmt cs \<le> flash_threshold max_download"
    and "FASTBOOT_BLOCKSIZE dvd offset" "offset < 2 ^ 44"
  shows "case append_chunk fmt offset data max_download cs of
      (True, cs1, data1) \<Rightarrow> (\<exists>d. data = d @ data1 \<and> (data = [] \<or> d \<noteq> []) \<and>
         data_content cs1 = data_content cs ++ write_at offset d)
    | (False, cs1, data1) \<Rightarrow> cs \<noteq> [] \<and> offset < end_bytes (last cs) \<and> cs1 = cs \<and> data1 = data"
  using assms(1,2)
proof (cases rule: append_cases [where offset = offset and data = data])
  case refused
  then show ?thesis by simp
next
  case (extend n)
  then have "data = [] \<or> take n data \<noteq> []" using taken_positive(1) [OF assms(1,2)] by auto
  with extend data_content_extend(1) [OF extend(1), of "take n data"] show ?thesis
    by (auto intro!: exI [of _ "take n data"])
next
  case (fresh n)
  then have ne: "data = [] \<or> take n data \<noteq> []"
    using taken_positive(2) [OF assms(1,2), of data offset] by auto
  from assms(3) have "concat (fc_data (new_chunk offset d)) = d" for d by (simp add: new_chunk_def)
  with fresh ne offset_bytes_new_chunk [OF assms(4)] assms(3) show ?thesis
    by (auto simp: data_content_append intro!: exI [of _ "take n data"])
qed

definition plain_format :: "unit sparse_format_scheme" where
  "plain_format =
     \<lparr>FILE_HEADER_BYTES_LEN = 28, CHUNK_HEADER_BYTES_LEN = 12,
      file_header = (\<lambda>a b c d. replicate 28 0),
      chunk_dontcare = (\<lambda>n. replicate 12 0), chunk_raw = (\<lambda>n b. replicate 12 1)\<rparr>"

lemma plain_format_room: "8220 \<le> max_download \<Longrightarrow> room_for_block plain_format max_download"
  by (simp add: room_for_block_def plain_format_def FASTBOOT_BLOCKSIZE_def)

lemma fastboot_append_places_witness:
  "\<exists>cs1. append_chunk plain_format 8192 [1, 2, 3] 65536 [] = (True, cs1, []) \<and>
     data_content cs1 = data_content [] ++ write_at 8192 [1, 2, 3]"
proof -
  have "flash_size plain_format [] \<le> flash_threshold 65536"
    by (rule threshold_room(2)) (simp add: plain_format_room)
  moreover have "append_chunk plain_format 8192 [1, 2, 3] 65536 [] = (True, [new_chunk 8192 [1, 2, 3]], [])"
    by (simp add: append_chunk_def usize_sub_def flash_size_def plain_format_def FASTBOOT_BLOCKSIZE_def
        new_chunk_def Let_def)
  ultimately show ?thesis
    using fastboot_append_places [of plain_format 65536 "[]" 8192 "[1, 2, 3]"]
    by (simp add: plain_format_room FASTBOOT_BLOCKSIZE_def)
qed

text \<open>
  C4. A write always ends, and no more than the device accepts is flashed: when the device
  allows two blocks beside the headers, a block-aligned write returns whatever the device
  answers, keeps at most the threshold (16 MiB) buffered, and every image it flashes has a
  download size within the limit (so whatever such flashes preserve holds at the end).
\<close>

theorem fastboot_write_total:
  assumes "room_for_block fmt (unat (ft_max_download t))"
    and "flash_size fmt (ft_buffered t) \<le> flash_threshold (unat (ft_max_download t))"
    and "FASTBOOT_BLOCKSIZE dvd unat offset"
    and "\<And>cs w. flash_size fmt cs \<le> unat (ft_max_download t) \<Longrightarrow> I w \<Longrightarrow>
           I (snd (device_flash fmt fb has_stage (ft_target t) cs w))"
    and "I w"
  shows "\<exists>r t' w'. fastboot_write fmt fb has_stage data offset (t, w) = Some (r, t', w') \<and> I w' \<and>
    flash_size fmt (ft_buffered t') \<le> min FLASH_THRESHOLD (unat (ft_max_download t))"
proof -
  let ?flash = "device_flash fmt fb has_stage (ft_target t)"
  let ?max = "unat (ft_max_download t)"
  have step: "I w1" if "I w" "flash_size fmt cs \<le> flash_threshold ?max"
      "append_chunk fmt (unat offset) data ?max cs = (appended, cs1, data1)" "?flash cs1 w = (r, w1)"
    for data cs w appended cs1 data1 r w1
    using assms(4) [OF append_flash_size [OF assms(1) that(2,3) assms(3)] that(1)] that(4) by simp
  have "\<exists>r cs' w'. write_loop fmt ?flash (unat offset) ?max data (ft_buffered t) [] w = Some (r, cs', w') \<and>
      flash_size fmt cs' \<le> flash_threshold ?max \<and> I w'"
    by (rule write_loop_rule [where P = "\<lambda>data cs w flashes. I w" and Q = "\<lambda>r cs w. I w", OF assms(1,2)])
       (use assms(5) step in blast)+
  then show ?thesis
    using threshold_room(1) [OF assms(1)]
    by (force simp: fastboot_write_def flash_threshold_def)
qed

definition null_fastboot :: "(unit, nat) fastboot" where
  "null_fastboot =
     \<lparr>fb_download = (\<lambda>n w. (Ok (), max w (unat n))), fb_extend = (\<lambda>d w. (Ok (), w)),
      fb_finish = (\<lambda>w. (Ok (), w)), fb_flash = (\<lambda>t w. (Ok (), w)),
      fb_get_var = (\<lambda>v w. (Err (), w)), fb_erase = (\<lambda>t w. (Ok (), w)),
      fb_continue_boot = (\<lambda>w. (Ok (), w)), fb_to_string = (\<lambda>e. []), fb_parse_u64_hex = (\<lambda>s. None)\<rparr>"

lemma fastboot_write_total_witness:
  "\<exists>r t' w'. fastboot_write plain_format null_fastboot False [1, 2, 3] 8192
     (\<lparr>ft_target = ''boot'', ft_max_download = 65536, ft_buffered = []\<rparr>, 0) = Some (r, t', w') \<and> True \<and>
   flash_size plain_format (ft_buffered t') \<le> min FLASH_THRESHOLD (unat (65536 :: u32))"
  using fastboot_write_total [of plain_format
      "\<lparr>ft_target = ''boot'', ft_max_download = 65536, ft_buffered = []\<rparr>" 8192 "\<lambda>w. True"
      null_fastboot False 0 "[1, 2, 3]"]
    threshold_room(2) [OF plain_format_room, of 65536]
  by (simp add: plain_format_room FASTBOOT_BLOCKSIZE_def)

text \<open>
  No byte is lost or reordered: with a device that takes every flash, the bytes flashed so
  far and the bytes left in the buffer are, in order, those that were there and the data
  written.
\<close>

theorem fastboot_write_payload:
  assumes "room_for_block fmt max_download" "flash_size fmt cs \<le> flash_threshold max_download"
    and "FASTBOOT_BLOCKSIZE dvd offset"
  shows "\<exists>flashes cs' log'.
      write_loop fmt (\<lambda>cs log. (Ok (Ok ()), log @ [cs])) offset max_download data cs [] log =
        Some (Ok flashes, cs', log') \<and>
      concat (map payload log') @ payload cs' = concat (map payload log) @ payload cs @ data"
proof -
  let ?flash = "\<lambda>cs log. (Ok (Ok ()), log @ [cs])"
  let ?total = "concat (map payload log) @ payload cs @ data"
  have "\<exists>r cs' w'. write_loop fmt ?flash offset max_download data cs [] log = Some (r, cs', w') \<and>
      flash_size fmt cs' \<le> flash_threshold max_download \<and>
      (is_ok r \<and> concat (map payload w') @ payload cs' = ?total)"
    by (rule write_loop_rule [where P = "\<lambda>data cs w flashes. concat (map payload w) @ payload cs @ data = ?total",
          OF assms(1,2)])
       (auto dest!: append_payload [OF assms(1) _ _ assms(3)])
  then obtain r cs' w' where
    w: "write_loop fmt ?flash offset max_download data cs [] log = Some (r, cs', w')"
      "is_ok r" "concat (map payload w') @ payload cs' = ?total" by blast
  then show ?thesis by (cases r) auto
qed

lemma fastboot_write_payload_witness:
  "\<exists>flashes cs' log'.
      write_loop plain_format (\<lambda>cs log. (Ok (Ok ()), log @ [cs])) 4096 65536 [7, 8] [] [] [] =
        Some (Ok flashes, cs', log') \<and>
      concat (map payload log') @ payload cs' = concat (map payload []) @ payload [] @ [7, 8]"
  by (rule fastboot_write_payload [OF plain_format_room threshold_room(2) [OF plain_format_room]])
     (simp_all add: FASTBOOT_BLOCKSIZE_def)

subsection \<open>The sparse image of a buffer\<close>

text \<open>
  The chunks of the image, their encoding, and what an image expands to: raw chunks are
  written in turn, a don't-care chunk skips blocks.
\<close>

datatype sparse_chunk = DontCare u32 | Raw u32 bytes

fun image_chunks :: "u32 \<Rightarrow> FastbootData \<Rightarrow> sparse_chunk list" where
  "image_chunks offset [] = []"
| "image_chunks offset (c # cs) =
     (if fc_offset c \<noteq> offset then [DontCare (fc_offset c - offset)] else []) @
     Raw (chunk_blocks c) (concat (fc_data c) @ replicate (end_padding c) 0) #
     image_chunks (end_blocks c) cs"

fun encode_chunk :: "'a sparse_format_scheme \<Rightarrow> sparse_chunk \<Rightarrow> bytes" where
  "encode_chunk fmt (DontCare n) = chunk_dontcare fmt n"
| "encode_chunk fmt (Raw n d) = chunk_raw fmt n (of_nat FASTBOOT_BLOCKSIZE) @ d"

fun chunk_length :: "sparse_chunk \<Rightarrow> nat" where
  "chunk_length (DontCare n) = unat n"
| "chunk_length (Raw n d) = unat n"

fun expand_image :: "nat \<Rightarrow> sparse_chunk list \<Rightarrow> (nat \<rightharpoonup> u8)" where
  "expand_image pos [] = Map.empty"
| "expand_image pos (DontCare n # xs) = expand_image (pos + unat n) xs"
| "expand_image pos (Raw n d # xs) =
     write_at (pos * FASTBOOT_BLOCKSIZE) d ++ expand_image (pos + unat n) xs"

lemma aimg_chunks_encode:
  "concat (aimg_chunks fmt offset cs) = concat (map (encode_chunk fmt) (image_chunks offset cs))"
  by (induction fmt offset cs rule: aimg_chunks.induct) auto

text \<open>Where a chunk starts and ends in blocks, and the buffers whose image is right.\<close>

definition block_end :: "FastbootChunk \<Rightarrow> nat" where
  "block_end c = unat (fc_offset c) + div_ceil (data_bytes c) FASTBOOT_BLOCKSIZE"

definition chunk_ok :: "FastbootChunk \<Rightarrow> bool" where
  "chunk_ok c \<longleftrightarrow> fc_data c \<noteq> [] \<and> block_end c < 2 ^ 32 \<and>
     (\<forall>d \<in> set (butlast (fc_data c)). FASTBOOT_BLOCKSIZE dvd length d)"

definition image_ready :: "FastbootData \<Rightarrow> bool" where
  "image_ready cs \<longleftrightarrow> list_all chunk_ok cs \<and> successively (\<lambda>c d. block_end c < unat (fc_offset d)) cs"

definition whole_blocks :: "FastbootData \<Rightarrow> bool" where
  "whole_blocks cs \<longleftrightarrow> (\<forall>c \<in> set cs. \<forall>d \<in> set (fc_data c). FASTBOOT_BLOCKSIZE dvd length d)"

lemma div_ceil_le:
  assumes "0 < b"
  shows "a \<le> div_ceil a b * b"
proof -
  have "a + b - 1 = div_ceil a b * b + (a + b - 1) mod b" by (simp add: div_ceil_def)
  moreover have "(a + b - 1) mod b < b" using assms by simp
  ultimately show ?thesis by linarith
qed

lemma div_ceil_dvd:
  assumes "0 < b" "b dvd a"
  shows "div_ceil a b * b = a"
proof -
  from assms(2) obtain k where a: "a = k * b" by (metis dvd_def mult.commute)
  have "a + b - 1 = (b - 1) + k * b" using assms(1) a by simp
  then have "div_ceil a b = ((b - 1) + k * b) div b" unfolding div_ceil_def by (rule arg_cong)
  also have "\<dots> = k" using assms(1) by (simp only: div_mult_self1) simp
  finally have "div_ceil a b = k" .
  with a show ?thesis by simp
qed

lemma end_padding_eq: "data_bytes c + end_padding c = next_multiple_of (data_bytes c) FASTBOOT_BLOCKSIZE"
  by (simp add: end_padding_def next_multiple_of_def Let_def)

lemma div_ceil_next: "0 < b \<Longrightarrow> div_ceil a b * b = next_multiple_of a b"
proof (rule antisym)
  assume b: "0 < b"
  show "next_multiple_of a b \<le> div_ceil a b * b"
    by (rule next_multiple_of_le [OF b]) (simp_all add: div_ceil_le b)
  have "a \<le> next_multiple_of a b" by (simp add: next_multiple_of_def)
  then have "div_ceil a b \<le> div_ceil (next_multiple_of a b) b"
    by (simp add: div_ceil_def div_le_mono)
  then show "div_ceil a b * b \<le> next_multiple_of a b"
    using div_ceil_dvd [OF b next_multiple_of_dvd [OF b]] by (metis mult_le_mono1)
qed

lemma chunk_ok_blocks:
  assumes "chunk_ok c"
  shows "unat (chunk_blocks c) = div_ceil (data_bytes c) FASTBOOT_BLOCKSIZE"
    and "unat (end_blocks c) = block_end c"
    and "length (concat (fc_data c) @ replicate (end_padding c) 0) = unat (chunk_blocks c) * FASTBOOT_BLOCKSIZE"
    and "end_bytes c \<le> block_end c * FASTBOOT_BLOCKSIZE"
proof -
  from assms have lt: "div_ceil (data_bytes c) FASTBOOT_BLOCKSIZE < 2 ^ 32" "block_end c < 2 ^ 32"
    by (auto simp: chunk_ok_def block_end_def)
  then show b: "unat (chunk_blocks c) = div_ceil (data_bytes c) FASTBOOT_BLOCKSIZE"
    by (simp add: chunk_blocks_def unat_of_nat take_bit_eq_mod)
  with lt(2) show "unat (end_blocks c) = block_end c"
    by (simp add: end_blocks_def block_end_def unat_word_ariths)
  show "length (concat (fc_data c) @ replicate (end_padding c) 0) = unat (chunk_blocks c) * FASTBOOT_BLOCKSIZE"
    using length_concat_pieces [of c] end_padding_eq [of c] by (simp add: b div_ceil_next)
  show "end_bytes c \<le> block_end c * FASTBOOT_BLOCKSIZE"
    using div_ceil_le [of FASTBOOT_BLOCKSIZE "data_bytes c"]
    by (simp add: end_bytes_def block_end_def offset_bytes_def add_mult_distrib)
qed

lemma expand_image_dom: "expand_image pos xs p = Some b \<Longrightarrow> pos * FASTBOOT_BLOCKSIZE \<le> p"
  by (induction pos xs rule: expand_image.induct)
     (fastforce simp: add_mult_distrib map_add_Some_iff write_at_def split: if_splits)+

lemma image_step:
  assumes "chunk_ok c" "unat offset \<le> unat (fc_offset c)"
  shows "expand_image (unat offset) (image_chunks offset (c # cs)) =
    write_at (offset_bytes c) (concat (fc_data c) @ replicate (end_padding c) 0) ++
    expand_image (unat (end_blocks c)) (image_chunks (end_blocks c) cs)"
proof -
  have "unat offset + unat (fc_offset c - offset) = unat (fc_offset c)"
    using assms(2) by (simp add: unat_sub_if_size)
  then show ?thesis using chunk_ok_blocks(1,2) [OF assms(1)] by (simp add: offset_bytes_def block_end_def)
qed

lemma image_expands:
  "list_all chunk_ok cs \<Longrightarrow> successively (\<lambda>c d. block_end c \<le> unat (fc_offset d)) cs \<Longrightarrow>
   cs = [] \<or> unat offset \<le> unat (fc_offset (hd cs)) \<Longrightarrow>
   data_content cs \<subseteq>\<^sub>m expand_image (unat offset) (image_chunks offset cs) \<and>
   sum_list (map chunk_length (image_chunks offset cs)) =
     (if cs = [] then 0 else block_end (last cs) - unat offset)"
proof (induction cs arbitrary: offset)
  case (Cons c cs)
  from Cons.prems have ok: "chunk_ok c" "list_all chunk_ok cs" by auto
  note facts = chunk_ok_blocks [OF ok(1)]
  have sub: "unat (fc_offset c - offset) = unat (fc_offset c) - unat offset"
    using Cons.prems(3) by (simp add: unat_sub_if_size)
  have nxt: "cs = [] \<or> unat (end_blocks c) \<le> unat (fc_offset (hd cs))"
    using Cons.prems(2) facts(2) by (cases cs) auto
  have succ: "successively (\<lambda>c d. block_end c \<le> unat (fc_offset d)) cs"
    using Cons.prems(2) by (cases cs) auto
  note IH = Cons.IH [OF ok(2) succ nxt]
  have image: "expand_image (unat offset) (image_chunks offset (c # cs)) =
      write_at (offset_bytes c) (concat (fc_data c) @ replicate (end_padding c) 0) ++
      expand_image (unat (end_blocks c)) (image_chunks (end_blocks c) cs)"
    using Cons.prems(3) by (intro image_step [OF ok(1)]) simp
  have "data_content (c # cs) \<subseteq>\<^sub>m expand_image (unat offset) (image_chunks offset (c # cs))"
    unfolding map_le_def
  proof
    fix p assume p: "p \<in> dom (data_content (c # cs))"
    let ?rest = "expand_image (unat (end_blocks c)) (image_chunks (end_blocks c) cs)"
    show "data_content (c # cs) p = expand_image (unat offset) (image_chunks offset (c # cs)) p"
    proof (cases "data_content cs p")
      case (Some b)
      with IH have "?rest p = Some b" unfolding map_le_def by (metis domI)
      with Some show ?thesis by (simp only: image data_content.simps) (simp add: map_add_def)
    next
      case None
      with p obtain b where b: "write_at (offset_bytes c) (concat (fc_data c)) p = Some b"
        by auto
      then have "p < end_bytes c" using length_concat_pieces [of c]
        by (auto simp: write_at_def end_bytes_def split: if_splits)
      with facts(2,4) have "?rest p = None"
        using expand_image_dom [of "unat (end_blocks c)" "image_chunks (end_blocks c) cs" p]
        by (cases "?rest p") auto
      moreover have "write_at (offset_bytes c) (concat (fc_data c) @ replicate (end_padding c) 0) p = Some b"
        using b by (auto simp: write_at_def nth_append split: if_splits)
      ultimately show ?thesis using None b
        by (simp only: image data_content.simps) (simp add: map_add_def)
    qed
  qed
  moreover have "sum_list (map chunk_length (image_chunks offset (c # cs))) =
      block_end (last (c # cs)) - unat offset"
  proof (cases "cs = []")
    case True
    with sub facts(1) Cons.prems(3) show ?thesis by (auto simp: block_end_def)
  next
    case False
    have "block_end c \<le> block_end (last cs)"
      using Cons.prems(2) ok False
    proof (induction cs arbitrary: c)
      case (Cons d ds)
      have "block_end c \<le> block_end d" using Cons.prems(1) by (simp add: block_end_def)
      with Cons show ?case by (cases ds) auto
    qed simp
    with False IH sub facts(1,2) Cons.prems(3) show ?thesis by (auto simp: block_end_def)
  qed
  ultimately show ?case by simp
qed simp

text \<open>The library's headers have the lengths it announces.\<close>

definition format_ok :: "'a sparse_format_scheme \<Rightarrow> bool" where
  "format_ok fmt \<longleftrightarrow>
     (\<forall>a b c d. length (file_header fmt a b c d) = FILE_HEADER_BYTES_LEN fmt) \<and>
     (\<forall>n. length (chunk_dontcare fmt n) = CHUNK_HEADER_BYTES_LEN fmt) \<and>
     (\<forall>n b. length (chunk_raw fmt n b) = CHUNK_HEADER_BYTES_LEN fmt)"

lemma image_ready_expands:
  assumes "image_ready cs"
  shows "data_content cs \<subseteq>\<^sub>m expand_image 0 (image_chunks 0 cs)"
    and "sum_list (map chunk_length (image_chunks 0 cs)) = unat (expanded_blocks cs)"
proof -
  have "successively (\<lambda>c d. block_end c \<le> unat (fc_offset d)) cs"
    using assms unfolding image_ready_def by (auto elim: successively_mono)
  moreover have "list_all chunk_ok cs" using assms by (simp add: image_ready_def)
  ultimately have both: "data_content cs \<subseteq>\<^sub>m expand_image 0 (image_chunks 0 cs) \<and>
      sum_list (map chunk_length (image_chunks 0 cs)) = (if cs = [] then 0 else block_end (last cs))"
    using image_expands [of cs 0] by simp
  then show "data_content cs \<subseteq>\<^sub>m expand_image 0 (image_chunks 0 cs)" by simp
  have "chunk_ok (last cs)" if "cs \<noteq> []"
    using assms that by (simp add: image_ready_def list_all_iff)
  with both show "sum_list (map chunk_length (image_chunks 0 cs)) = unat (expanded_blocks cs)"
    by (simp add: expanded_blocks_def chunk_ok_blocks(2))
qed

lemma sum_next_multiple:
  assumes "0 < b" "xs \<noteq> []" "\<forall>x \<in> set (butlast xs). b dvd x"
  shows "sum_list (map (\<lambda>x. next_multiple_of x b) xs) = next_multiple_of (sum_list xs) b"
proof -
  obtain ys y where xs: "xs = ys @ [y]" using assms(2) by (metis rev_exhaust)
  have "b dvd sum_list ys \<and> sum_list (map (\<lambda>x. next_multiple_of x b) ys) = sum_list ys"
    using assms(3) unfolding xs butlast_snoc by (induction ys) auto
  then obtain k where k: "sum_list ys = b * k" "sum_list (map (\<lambda>x. next_multiple_of x b) ys) = b * k"
    by (metis dvdE)
  moreover have "y mod b < b" using assms(1) by simp
  ultimately show ?thesis by (auto simp: xs next_multiple_of_def)
qed

lemma chunk_flash_size_ok:
  assumes "chunk_ok c"
  shows "chunk_flash_size fmt c =
    (if fc_offset c > 0 then 2 else 1) * CHUNK_HEADER_BYTES_LEN fmt + data_bytes c + end_padding c"
proof -
  have "sum_list (map (\<lambda>d. next_multiple_of (length d) FASTBOOT_BLOCKSIZE) (fc_data c)) =
      next_multiple_of (data_bytes c) FASTBOOT_BLOCKSIZE"
    using assms sum_next_multiple [of FASTBOOT_BLOCKSIZE "map length (fc_data c)"]
    by (simp add: chunk_ok_def data_bytes_def comp_def flip: map_butlast)
  with end_padding_eq [of c] show ?thesis by (simp add: chunk_flash_size_def)
qed

lemma image_lengths:
  assumes "format_ok fmt"
  shows "list_all chunk_ok cs \<Longrightarrow> successively (\<lambda>c d. block_end c < unat (fc_offset d)) cs \<Longrightarrow>
   cs = [] \<or> (fc_offset (hd cs) \<noteq> offset) = (fc_offset (hd cs) > 0) \<Longrightarrow>
   length (concat (map (encode_chunk fmt) (image_chunks offset cs))) =
     sum_list (map (chunk_flash_size fmt) cs) \<and>
   length (image_chunks offset cs) =
     (case cs of [] \<Rightarrow> 0 | c # _ \<Rightarrow> if fc_offset c = 0 then 2 * length cs - 1 else 2 * length cs)"
proof (induction cs arbitrary: offset)
  case (Cons c cs)
  from Cons.prems have ok: "chunk_ok c" "list_all chunk_ok cs"
    and succ: "successively (\<lambda>c d. block_end c < unat (fc_offset d)) cs"
    by (auto simp: successively_Cons)
  have next_gt: "block_end c < unat (fc_offset (hd cs))" if "cs \<noteq> []"
    using Cons.prems(2) that by (simp add: successively_Cons)
  have nxt: "cs = [] \<or> (fc_offset (hd cs) \<noteq> end_blocks c) = (fc_offset (hd cs) > 0)"
    using next_gt chunk_ok_blocks(2) [OF ok(1)] by (cases "cs = []") (auto simp: word_gt_0)
  have next0: "fc_offset (hd cs) \<noteq> 0" if "cs \<noteq> []" using next_gt [OF that] by auto
  from Cons.IH [OF ok(2) succ nxt]
  have IH: "length (concat (map (encode_chunk fmt) (image_chunks (end_blocks c) cs))) =
      sum_list (map (chunk_flash_size fmt) cs)"
    "length (image_chunks (end_blocks c) cs) = 2 * length cs"
    using next0 by (auto split: list.splits)
  have raw: "length (chunk_raw fmt n b) = CHUNK_HEADER_BYTES_LEN fmt"
    and dc: "length (chunk_dontcare fmt n) = CHUNK_HEADER_BYTES_LEN fmt" for n b
    using assms by (auto simp: format_ok_def)
  show ?case
    using IH Cons.prems(3) chunk_flash_size_ok [OF ok(1), of fmt] length_concat_pieces [of c]
    by (auto simp: raw dc word_gt_0)
qed simp

text \<open>
  C2. The image says what it is: for a buffer ready to be sent, the bytes sent after the
  download was announced are exactly as many as announced, and the header's chunk and block
  counts are the number of chunks sent and the blocks they span.
\<close>

theorem fastboot_image_announced:
  assumes "format_ok fmt" "image_ready cs"
  shows "length (concat (aimg_slices fmt cs)) = flash_size fmt cs \<and>
    of_nat (length (image_chunks 0 cs)) = flash_chunks cs \<and>
    sum_list (map chunk_length (image_chunks 0 cs)) = unat (expanded_blocks cs)"
proof -
  have "cs = [] \<or> (fc_offset (hd cs) \<noteq> 0) = (fc_offset (hd cs) > 0)" by (simp add: word_gt_0)
  with image_lengths [OF assms(1), of cs 0] assms(2) have
    "length (concat (map (encode_chunk fmt) (image_chunks 0 cs))) = sum_list (map (chunk_flash_size fmt) cs)"
    "length (image_chunks 0 cs) =
      (case cs of [] \<Rightarrow> 0 | c # _ \<Rightarrow> if fc_offset c = 0 then 2 * length cs - 1 else 2 * length cs)"
    by (simp_all add: image_ready_def)
  moreover have "length (file_header fmt a b c d) = FILE_HEADER_BYTES_LEN fmt" for a b c d
    using assms(1) by (simp add: format_ok_def)
  ultimately show ?thesis
    using image_ready_expands(2) [OF assms(2)]
    by (auto simp: aimg_slices_def flash_size_def aimg_chunks_encode flash_chunks_def n_chunks_def
        mult.commute split: list.splits)
qed

definition example_buffer :: FastbootData where
  "example_buffer = [\<lparr>fc_offset = 0, fc_data = [[1, 2]]\<rparr>, \<lparr>fc_offset = 4, fc_data = [[3]]\<rparr>]"

lemma example_buffer_ready: "image_ready example_buffer"
  by (simp add: example_buffer_def image_ready_def chunk_ok_def block_end_def data_bytes_def
      div_ceil_def FASTBOOT_BLOCKSIZE_def)

lemma fastboot_image_announced_witness:
  "length (concat (aimg_slices plain_format example_buffer)) = flash_size plain_format example_buffer \<and>
   flash_size plain_format example_buffer = 28 + 3 * 12 + 2 * 4096 \<and> flash_chunks example_buffer = 3"
proof -
  have "format_ok plain_format" by (simp add: format_ok_def plain_format_def)
  from fastboot_image_announced [OF this example_buffer_ready] show ?thesis
    by (simp add: example_buffer_def flash_size_def chunk_flash_size_def plain_format_def
        next_multiple_of_def FASTBOOT_BLOCKSIZE_def flash_chunks_def n_chunks_def)
qed

subsection \<open>Reading the image back\<close>

text \<open>
  A device reads the bytes it received as a sparse image: the file header tells the size of a
  block, the blocks spanned and how many chunks follow; a chunk header says how many blocks to
  skip, or how many blocks of data come next. How the headers are read is the library's, like
  how they are written. An image that is cut short, that goes on after its last chunk or that
  spans another number of blocks than it says is refused.
\<close>

datatype chunk_header = DontCareHeader u32 | RawHeader u32

record sparse_reader =
  read_file_header :: "bytes \<Rightarrow> (u32 \<times> u32 \<times> u32) option"
  read_chunk_header :: "bytes \<Rightarrow> chunk_header option"

fun read_chunks ::
  "'a sparse_format_scheme \<Rightarrow> 'b sparse_reader_scheme \<Rightarrow> nat \<Rightarrow> nat \<Rightarrow> nat \<Rightarrow> bytes \<Rightarrow>
   (nat \<times> (nat \<rightharpoonup> u8)) option" where
  "read_chunks fmt rd bsize 0 pos bs = (if bs = [] then Some (pos, Map.empty) else None)"
| "read_chunks fmt rd bsize (Suc n) pos bs =
     (let len = CHUNK_HEADER_BYTES_LEN fmt; rest = drop len bs
      in if length bs < len then None
         else
           (case read_chunk_header rd (take len bs) of
              None \<Rightarrow> None
            | Some (DontCareHeader k) \<Rightarrow> read_chunks fmt rd bsize n (pos + unat k) rest
            | Some (RawHeader k) \<Rightarrow>
                if length rest < unat k * bsize then None
                else map_option (\<lambda>(e, m). (e, write_at (pos * bsize) (take (unat k * bsize) rest) ++ m))
                       (read_chunks fmt rd bsize n (pos + unat k) (drop (unat k * bsize) rest))))"

definition read_image ::
  "'a sparse_format_scheme \<Rightarrow> 'b sparse_reader_scheme \<Rightarrow> bytes \<Rightarrow> (nat \<rightharpoonup> u8) option" where
  "read_image fmt rd bs =
     (let len = FILE_HEADER_BYTES_LEN fmt
      in if length bs < len then None
         else
           (case read_file_header rd (take len bs) of
              None \<Rightarrow> None
            | Some (bsize, blocks, chunks) \<Rightarrow>
                (case read_chunks fmt rd (unat bsize) (unat chunks) 0 (drop len bs) of
                   None \<Rightarrow> None
                 | Some (e, m) \<Rightarrow> if e = unat blocks then Some m else None)))"

text \<open>A header is read as what was written; nothing is asked of other bytes.\<close>

definition reader_ok :: "'a sparse_format_scheme \<Rightarrow> 'b sparse_reader_scheme \<Rightarrow> bool" where
  "reader_ok fmt rd \<longleftrightarrow>
     (\<forall>bsize blocks chunks checksum.
        read_file_header rd (file_header fmt bsize blocks chunks checksum) = Some (bsize, blocks, chunks)) \<and>
     (\<forall>n. read_chunk_header rd (chunk_dontcare fmt n) = Some (DontCareHeader n)) \<and>
     (\<forall>n b. read_chunk_header rd (chunk_raw fmt n b) = Some (RawHeader n))"

fun sized_chunk :: "sparse_chunk \<Rightarrow> bool" where
  "sized_chunk (DontCare n) = True"
| "sized_chunk (Raw n d) = (length d = unat n * FASTBOOT_BLOCKSIZE)"

lemma read_encoded:
  assumes "format_ok fmt" "reader_ok fmt rd"
  shows "list_all sized_chunk xs \<Longrightarrow>
    read_chunks fmt rd FASTBOOT_BLOCKSIZE (length xs) pos (concat (map (encode_chunk fmt) xs)) =
      Some (pos + sum_list (map chunk_length xs), expand_image pos xs)"
proof (induction xs arbitrary: pos)
  case (Cons x xs)
  from assms(1) have "length (chunk_dontcare fmt n) = CHUNK_HEADER_BYTES_LEN fmt"
    "length (chunk_raw fmt n b) = CHUNK_HEADER_BYTES_LEN fmt" for n b
    by (simp_all add: format_ok_def)
  with Cons assms(2) show ?case by (cases x) (simp_all add: reader_ok_def Let_def)
qed simp

lemma image_chunks_sized: "list_all chunk_ok cs \<Longrightarrow> list_all sized_chunk (image_chunks offset cs)"
  by (induction offset cs rule: image_chunks.induct) (auto simp: chunk_ok_blocks(3) simp del: length_append length_concat)

text \<open>What an image holds beside the data: zeros, from the end of a chunk to the end of its block.\<close>

lemma image_padding:
  "list_all chunk_ok cs \<Longrightarrow> successively (\<lambda>c d. block_end c \<le> unat (fc_offset d)) cs \<Longrightarrow>
   cs = [] \<or> unat offset \<le> unat (fc_offset (hd cs)) \<Longrightarrow>
   expand_image (unat offset) (image_chunks offset cs) p = Some b \<Longrightarrow> data_content cs p = None \<Longrightarrow>
   b = 0 \<and> (\<exists>c \<in> set cs. end_bytes c \<le> p \<and> p < block_end c * FASTBOOT_BLOCKSIZE)"
proof (induction cs arbitrary: offset)
  case (Cons c cs)
  let ?rest = "expand_image (unat (end_blocks c)) (image_chunks (end_blocks c) cs)"
  let ?padded = "concat (fc_data c) @ replicate (end_padding c) 0"
  from Cons.prems have ok: "chunk_ok c" "list_all chunk_ok cs" by auto
  note facts = chunk_ok_blocks [OF ok(1)]
  have image: "expand_image (unat offset) (image_chunks offset (c # cs)) =
      write_at (offset_bytes c) ?padded ++ ?rest"
    using Cons.prems(3) by (intro image_step [OF ok(1)]) simp
  have none: "data_content cs p = None" "write_at (offset_bytes c) (concat (fc_data c)) p = None"
    using Cons.prems(5) by (auto simp: map_add_None)
  show ?case
  proof (cases "?rest p")
    case None
    with image Cons.prems(4) have "write_at (offset_bytes c) ?padded p = Some b" by (simp add: map_add_def)
    with none(2) have "b = 0" "end_bytes c \<le> p" "p < offset_bytes c + length ?padded"
      using length_concat_pieces [of c] by (auto simp: write_at_def end_bytes_def nth_append split: if_splits)
    with facts(1,3) show ?thesis by (auto simp: offset_bytes_def block_end_def add_mult_distrib)
  next
    case (Some b')
    with image Cons.prems(4) have "?rest p = Some b" by (simp add: map_add_def)
    moreover have "successively (\<lambda>c d. block_end c \<le> unat (fc_offset d)) cs"
      "cs = [] \<or> unat (end_blocks c) \<le> unat (fc_offset (hd cs))"
      using Cons.prems(2) facts(2) by (cases cs; auto)+
    ultimately show ?thesis using Cons.IH [OF ok(2) _ _ _ none(1), of "end_blocks c"] by auto
  qed
qed simp

text \<open>
  C3. Flashing restores what was written. Read back by any device whose header reader inverts
  the library's headers, the bytes sent for a buffer ready to be sent (fewer than 2 to the 31
  chunks) are a complete image: as many chunks and blocks as its header says and nothing after
  them. It puts every buffered byte at its place on the medium; what else it writes are zeros
  after the end of a chunk, up to the end of the chunk's last block.
\<close>

theorem fastboot_image_roundtrip:
  assumes "format_ok fmt" "reader_ok fmt rd" "image_ready cs" "length cs < 2 ^ 31"
  shows "\<exists>m. read_image fmt rd (concat (aimg_slices fmt cs)) = Some m \<and> data_content cs \<subseteq>\<^sub>m m \<and>
    (\<forall>p b. m p = Some b \<longrightarrow> data_content cs p = None \<longrightarrow>
       b = 0 \<and> (\<exists>c \<in> set cs. end_bytes c \<le> p \<and> p < block_end c * FASTBOOT_BLOCKSIZE))"
proof -
  let ?xs = "image_chunks 0 cs"
  have "cs = [] \<or> (fc_offset (hd cs) \<noteq> 0) = (fc_offset (hd cs) > 0)" by (simp add: word_gt_0)
  with image_lengths [OF assms(1), of cs 0] assms(3) have
    "length ?xs = (case cs of [] \<Rightarrow> 0 | c # _ \<Rightarrow> if fc_offset c = 0 then 2 * length cs - 1 else 2 * length cs)"
    by (simp add: image_ready_def)
  then have n: "unat (flash_chunks cs) = length ?xs"
    using assms(4) by (auto simp: flash_chunks_def n_chunks_def unat_of_nat take_bit_eq_mod mult.commute split: list.splits)
  have ok: "list_all chunk_ok cs" "successively (\<lambda>c d. block_end c \<le> unat (fc_offset d)) cs"
    using assms(3) unfolding image_ready_def by (auto elim: successively_mono)
  have "read_image fmt rd (concat (aimg_slices fmt cs)) = Some (expand_image 0 ?xs)"
    using assms(1,2) read_encoded [OF assms(1,2) image_chunks_sized [OF ok(1)], of 0 0] image_ready_expands(2) [OF assms(3)]
    by (simp add: read_image_def aimg_slices_def aimg_chunks_encode format_ok_def reader_ok_def n
        FASTBOOT_BLOCKSIZE_def Let_def)
  with image_ready_expands(1) [OF assms(3)] image_padding [OF ok, of 0] show ?thesis by simp
qed

text \<open>The headers as the format has them: little-endian words behind a magic number.\<close>

definition u32_le :: "u32 \<Rightarrow> bytes" where
  "u32_le x = map (\<lambda>k. of_nat (unat x div 256 ^ k mod 256)) [0, 1, 2, 3]"

definition le_u32 :: "bytes \<Rightarrow> u32" where
  "le_u32 bs = of_nat (foldr (\<lambda>b n. unat b + 256 * n) bs 0)"

lemma base256:
  fixes n :: nat
  shows "n mod 256 + 256 * (n div 256 mod 256 + 256 * (n div 65536 mod 256 + 256 * (n div 16777216))) = n"
proof -
  have "n div 65536 = n div 256 div 256" "n div 16777216 = n div 256 div 256 div 256"
    by (simp_all add: div_mult2_eq [symmetric])
  then show ?thesis by simp
qed

lemma u32_le_inverse: "le_u32 (u32_le x) = x" "length (u32_le x) = 4"
proof -
  have byte: "unat (of_nat n :: u8) = n mod 256" for n
    by (simp add: unat_of_nat take_bit_eq_mod)
  have "unat x < 2 ^ 32" using unsigned_less [of x] by simp
  then have "unat x div 16777216 mod 256 = unat x div 16777216" by simp
  with base256 [of "unat x"] have "foldr (\<lambda>b n. unat b + 256 * n) (u32_le x) 0 = unat x"
    by (simp add: u32_le_def byte)
  then show "le_u32 (u32_le x) = x" by (simp add: le_u32_def)
  show "length (u32_le x) = 4" by (simp add: u32_le_def)
qed

definition sparse_headers :: "unit sparse_format_scheme" where
  "sparse_headers =
     \<lparr>FILE_HEADER_BYTES_LEN = 28, CHUNK_HEADER_BYTES_LEN = 12,
      file_header = (\<lambda>bsize blocks chunks checksum.
        u32_le 0xed26ff3a @ [1, 0, 0, 0] @ [28, 0, 12, 0] @ u32_le bsize @ u32_le blocks @ u32_le chunks @
        u32_le checksum),
      chunk_dontcare = (\<lambda>n. [0xc3, 0xca, 0, 0] @ u32_le n @ u32_le 12),
      chunk_raw = (\<lambda>n b. [0xc1, 0xca, 0, 0] @ u32_le n @ u32_le (n * b + 12))\<rparr>"

definition sparse_headers_reader :: sparse_reader where
  "sparse_headers_reader =
     \<lparr>read_file_header = (\<lambda>bs.
        if take 4 bs = u32_le 0xed26ff3a
        then Some (le_u32 (take 4 (drop 12 bs)), le_u32 (take 4 (drop 16 bs)), le_u32 (take 4 (drop 20 bs)))
        else None),
      read_chunk_header = (\<lambda>bs.
        if take 2 bs = [0xc3, 0xca] then Some (DontCareHeader (le_u32 (take 4 (drop 4 bs))))
        else if take 2 bs = [0xc1, 0xca] then Some (RawHeader (le_u32 (take 4 (drop 4 bs))))
        else None)\<rparr>"

lemma sparse_headers_ok: "format_ok sparse_headers" "reader_ok sparse_headers sparse_headers_reader"
  by (simp_all add: format_ok_def reader_ok_def sparse_headers_def sparse_headers_reader_def u32_le_inverse)

lemma fastboot_image_roundtrip_witness:
  "\<exists>m. read_image sparse_headers sparse_headers_reader (concat (aimg_slices sparse_headers example_buffer)) = Some m \<and>
     m 0 = Some 1 \<and> m 16384 = Some 3"
proof -
  have "length example_buffer < 2 ^ 31" by (simp add: example_buffer_def)
  from fastboot_image_roundtrip [OF sparse_headers_ok example_buffer_ready this] obtain m where
    m: "read_image sparse_headers sparse_headers_reader (concat (aimg_slices sparse_headers example_buffer)) = Some m"
      "data_content example_buffer \<subseteq>\<^sub>m m" by blast
  have "data_content example_buffer 0 = Some 1" "data_content example_buffer 16384 = Some 3"
    by (simp_all add: example_buffer_def write_at_def offset_bytes_def FASTBOOT_BLOCKSIZE_def map_add_def)
  with m show ?thesis by (metis domI map_le_def)
qed

subsection \<open>Aligned writes keep the buffer ready\<close>

lemma div_ceil_less: "0 < b \<Longrightarrow> div_ceil a b * b < a + b"
proof -
  assume "0 < b"
  have "a + b - 1 = div_ceil a b * b + (a + b - 1) mod b" by (simp add: div_ceil_def)
  with \<open>0 < b\<close> show ?thesis by linarith
qed

lemma blocks_bound:
  assumes "u * FASTBOOT_BLOCKSIZE + x + FASTBOOT_BLOCKSIZE \<le> 2 ^ 44"
  shows "u + div_ceil x FASTBOOT_BLOCKSIZE < 2 ^ 32"
proof -
  have "(u + div_ceil x FASTBOOT_BLOCKSIZE) * FASTBOOT_BLOCKSIZE < 2 ^ 44"
    using assms div_ceil_less [of FASTBOOT_BLOCKSIZE x] by (simp add: add_mult_distrib)
  then show ?thesis by (simp add: FASTBOOT_BLOCKSIZE_def)
qed

lemma image_ready_snoc:
  "image_ready (cs @ [c]) \<longleftrightarrow>
     image_ready cs \<and> chunk_ok c \<and> (cs = [] \<or> block_end (last cs) < unat (fc_offset c))"
  by (auto simp: image_ready_def successively_append_iff)

lemma whole_blocks_end:
  assumes "whole_blocks [c]"
  shows "end_bytes c = block_end c * FASTBOOT_BLOCKSIZE"
proof -
  have "FASTBOOT_BLOCKSIZE dvd data_bytes c"
  proof -
    have "FASTBOOT_BLOCKSIZE dvd sum_list (map length ds)"
      if "\<forall>d \<in> set ds. FASTBOOT_BLOCKSIZE dvd length d" for ds :: "bytes list"
      using that by (induction ds) auto
    then show ?thesis using assms by (simp add: data_bytes_def whole_blocks_def)
  qed
  then show ?thesis
    by (simp add: end_bytes_def block_end_def offset_bytes_def add_mult_distrib div_ceil_dvd)
qed

text \<open>
  Block-aligned writes keep the buffer ready to be sent: a buffer of whole blocks stays
  one whose image is right after a write at a block-aligned offset (under 16 TiB), and it stays
  one of whole blocks when the data is whole blocks too.
\<close>

theorem fastboot_append_image_ready:
  assumes "room_for_block fmt max_download" "flash_size fmt cs \<le> flash_threshold max_download"
    and "image_ready cs" "whole_blocks cs" "FASTBOOT_BLOCKSIZE dvd offset"
    and "offset + length data + FASTBOOT_BLOCKSIZE \<le> 2 ^ 44"
    and "append_chunk fmt offset data max_download cs = (appended, cs1, data1)"
  shows "image_ready cs1 \<and> (FASTBOOT_BLOCKSIZE dvd length data \<longrightarrow> whole_blocks cs1 \<and> FASTBOOT_BLOCKSIZE dvd length data1)"
  using assms(1,2)
proof (cases rule: append_cases [where offset = offset and data = data])
  case refused
  with assms show ?thesis by simp
next
  case (extend n)
  let ?c = "(last cs)\<lparr>fc_data := fc_data (last cs) @ [take n data]\<rparr>"
  have n: "n \<le> length data" using extend by (simp add: taken_at_end_def)
  have cs: "cs = butlast cs @ [last cs]" using extend by simp
  have parts: "image_ready (butlast cs)" "chunk_ok (last cs)"
    "butlast cs = [] \<or> block_end (last (butlast cs)) < unat (fc_offset (last cs))"
    using assms(3) image_ready_snoc [of "butlast cs" "last cs"] cs by auto
  have "data_bytes ?c = data_bytes (last cs) + n" using n by (simp add: data_bytes_def)
  moreover have "unat (fc_offset ?c) * FASTBOOT_BLOCKSIZE + (data_bytes (last cs) + n) + FASTBOOT_BLOCKSIZE \<le> 2 ^ 44"
    using extend(2) n assms(6) by (simp add: end_bytes_def offset_bytes_def)
  ultimately have "block_end ?c < 2 ^ 32" unfolding block_end_def by (metis blocks_bound)
  moreover have "\<forall>d \<in> set (fc_data (last cs)). FASTBOOT_BLOCKSIZE dvd length d"
    using assms(4) last_in_set [OF extend(1)] unfolding whole_blocks_def by blast
  ultimately have "chunk_ok ?c" by (simp add: chunk_ok_def)
  with parts have "image_ready (butlast cs @ [?c])" by (simp add: image_ready_snoc)
  moreover have "FASTBOOT_BLOCKSIZE dvd n" if "FASTBOOT_BLOCKSIZE dvd length data"
    using that extend(3) by (simp add: taken_at_end_def min_def)
  moreover have "whole_blocks (butlast cs @ [?c])" if "FASTBOOT_BLOCKSIZE dvd n"
    using that assms(4) n extend(1) unfolding whole_blocks_def
    by (auto dest: in_set_butlastD)
  ultimately show ?thesis using extend(4) assms(7) n by (auto simp: dvd_diff_nat)
next
  case (fresh n)
  let ?c = "new_chunk offset (take n data)"
  have n: "n \<le> length data" using fresh by (simp add: taken_by_chunk_def)
  have off: "unat (fc_offset ?c) * FASTBOOT_BLOCKSIZE = offset"
    using offset_bytes_new_chunk [of offset "take n data"] assms(5,6)
    by (simp add: offset_bytes_def FASTBOOT_BLOCKSIZE_def)
  have c: "fc_data ?c = [take n data]" using assms(5) by (simp add: new_chunk_def)
  then have "data_bytes ?c = n" using n by (simp add: data_bytes_def)
  with off n assms(6) have "block_end ?c < 2 ^ 32"
    unfolding block_end_def by (intro blocks_bound) simp
  with c have ok: "chunk_ok ?c" by (simp add: chunk_ok_def)
  have "cs = [] \<or> block_end (last cs) < unat (fc_offset ?c)"
  proof (cases "cs = []")
    case False
    then have "whole_blocks [last cs]"
      using assms(4) last_in_set [OF False] by (auto simp: whole_blocks_def)
    from whole_blocks_end [OF this] fresh(1) False off
    have "block_end (last cs) * FASTBOOT_BLOCKSIZE < unat (fc_offset ?c) * FASTBOOT_BLOCKSIZE" by simp
    then show ?thesis by simp
  qed simp
  with ok assms(3) have "image_ready (cs @ [?c])" by (simp add: image_ready_snoc)
  moreover have "FASTBOOT_BLOCKSIZE dvd n" if "FASTBOOT_BLOCKSIZE dvd length data"
    using that fresh(2) assms(5) by (simp add: taken_by_chunk_def min_def)
  moreover have "whole_blocks (cs @ [?c])" if "FASTBOOT_BLOCKSIZE dvd n"
    using that assms(4) n c by (auto simp: whole_blocks_def)
  ultimately show ?thesis using fresh(3) assms(7) n by (auto simp: dvd_diff_nat)
qed

lemma fastboot_append_image_ready_witness:
  "image_ready [new_chunk 8192 [1, 2, 3]] \<and>
   append_chunk plain_format 8192 [1, 2, 3] 65536 [] = (True, [new_chunk 8192 [1, 2, 3]], [])"
proof -
  have app: "append_chunk plain_format 8192 [1, 2, 3] 65536 [] = (True, [new_chunk 8192 [1, 2, 3]], [])"
    by (simp add: append_chunk_def usize_sub_def flash_size_def plain_format_def FASTBOOT_BLOCKSIZE_def
        new_chunk_def Let_def)
  have "image_ready [new_chunk 8192 [1, 2, 3]] \<and>
      (FASTBOOT_BLOCKSIZE dvd length [1, 2, 3 :: u8] \<longrightarrow> whole_blocks [new_chunk 8192 [1, 2, 3]] \<and>
         FASTBOOT_BLOCKSIZE dvd length ([] :: bytes))"
    by (rule fastboot_append_image_ready [OF plain_format_room threshold_room(2) [OF plain_format_room] _ _ _ _ app])
       (simp_all add: image_ready_def whole_blocks_def FASTBOOT_BLOCKSIZE_def)
  with app show ?thesis by blast
qed

subsection \<open>Two limits of the buffering\<close>

text \<open>How much an empty buffer takes at a block-aligned offset.\<close>

definition capacity :: "'a sparse_format_scheme \<Rightarrow> nat \<Rightarrow> nat" where
  "capacity fmt max_download =
     (max_download - FILE_HEADER_BYTES_LEN fmt - 2 * CHUNK_HEADER_BYTES_LEN fmt) div FASTBOOT_BLOCKSIZE
       * FASTBOOT_BLOCKSIZE"

text \<open>
  The loop of \<^verbatim>\<open>write\<close> keeps its offset: when a write is larger than an empty buffer
  takes, the rest of the data goes into the next image at the place of its beginning.
\<close>

theorem fastboot_write_keeps_offset:
  assumes "room_for_block fmt max_download" "FASTBOOT_BLOCKSIZE dvd offset"
    and "capacity fmt max_download < length data" "length data \<le> 2 * capacity fmt max_download"
    and "max_download \<le> FLASH_THRESHOLD"
  shows "\<exists>flashes cs' log'.
      write_loop fmt (\<lambda>cs log. (Ok (Ok ()), log @ [cs])) offset max_download data [] [] [] =
        Some (Ok flashes, cs', log') \<and>
      take 2 (log' @ [cs']) =
        [[new_chunk offset (take (capacity fmt max_download) data)],
         [new_chunk offset (drop (capacity fmt max_download) data)]]"
proof -
  let ?cap = "capacity fmt max_download"
  have small: "flash_size fmt [] \<le> flash_threshold max_download" by (rule threshold_room(2) [OF assms(1)])
  have first: "append_chunk fmt offset d max_download [] =
      (True, [new_chunk offset (take ?cap d)], drop ?cap d)" for d
    using assms(1) small
  proof (cases rule: append_cases [where offset = offset and data = d])
    case (fresh n)
    then have "n = min (length d) ?cap"
      using assms(2) by (simp add: taken_by_chunk_def capacity_def flash_size_def)
    then have "take n d = take ?cap d" "drop n d = drop ?cap d" by (auto simp: min_def)
    with fresh(3) show ?thesis by simp
  qed auto
  have big: "flash_size fmt [new_chunk offset (take ?cap data)] > flash_threshold max_download"
  proof -
    have hdr: "2 * CHUNK_HEADER_BYTES_LEN fmt \<le> FASTBOOT_BLOCKSIZE"
      "FILE_HEADER_BYTES_LEN fmt + 2 * FASTBOOT_BLOCKSIZE \<le> max_download"
      using assms(1) by (auto simp: room_for_block_def)
    have "?cap + FASTBOOT_BLOCKSIZE > max_download - FILE_HEADER_BYTES_LEN fmt - 2 * CHUNK_HEADER_BYTES_LEN fmt"
      unfolding capacity_def using div_mult_mod_eq mod_less_divisor [OF blocksize_pos(1)]
      by (metis add_less_cancel_left)
    moreover have "FASTBOOT_BLOCKSIZE dvd ?cap" by (simp add: capacity_def)
    then have "flash_size fmt [new_chunk offset (take ?cap data)] \<ge> FILE_HEADER_BYTES_LEN fmt + ?cap"
      using assms(2,3) by (simp add: flash_size_def chunk_flash_size_def new_chunk_def)
    moreover have "flash_threshold max_download + 2 * FASTBOOT_BLOCKSIZE \<le> max_download"
      by (rule threshold_room(1) [OF assms(1)])
    ultimately show ?thesis using hdr by linarith
  qed
  let ?rest = "drop ?cap data"
  have rest: "take ?cap ?rest = ?rest" "drop ?cap ?rest = []" "?rest \<noteq> []" "data \<noteq> []"
    using assms(3,4) by auto
  let ?flash = "\<lambda>cs log. (Ok (Ok ()) :: (status, (status, unit) result) result, log @ [cs])"
  have "write_loop fmt ?flash offset max_download data [] [] [] =
      write_loop fmt ?flash offset max_download ?rest [] [Ok ()] [[new_chunk offset (take ?cap data)]]"
    using rest(4) big by (subst write_loop.simps) (simp add: first)
  moreover have "write_loop fmt ?flash offset max_download ?rest [] fl log =
      (if flash_size fmt [new_chunk offset ?rest] > flash_threshold max_download
       then Some (Ok (fl @ [Ok ()]), [], log @ [[new_chunk offset ?rest]])
       else Some (Ok fl, [new_chunk offset ?rest], log))" for fl log
    using rest(3) first [of ?rest]
    by (subst write_loop.simps) (simp add: rest(1,2) write_loop.simps [of _ _ _ _ "[]"] del: drop_drop)
  ultimately show ?thesis by simp
qed

lemma fastboot_write_keeps_offset_witness:
  "\<exists>flashes cs' log'.
      write_loop plain_format (\<lambda>cs log. (Ok (Ok ()), log @ [cs])) 0 8220 (replicate 5000 7) [] [] [] =
        Some (Ok flashes, cs', log') \<and>
      take 2 (log' @ [cs']) = [[new_chunk 0 (replicate 4096 7)], [new_chunk 0 (replicate 904 7)]]"
proof -
  have cap: "capacity plain_format 8220 = 4096"
    by (simp add: capacity_def plain_format_def FASTBOOT_BLOCKSIZE_def)
  have "room_for_block plain_format 8220" by (rule plain_format_room) simp
  from fastboot_write_keeps_offset [OF this, of 0 "replicate 5000 7"] show ?thesis
    by (simp add: cap FLASH_THRESHOLD_def take_replicate drop_replicate)
qed

text \<open>
  And an unaligned write is announced larger than it is: the padding before it counts as a
  block of its own.
\<close>

lemma fastboot_unaligned_size:
  "\<exists>cs. append_chunk plain_format 4100 [1] 65536 [] = (True, cs, []) \<and>
     length (concat (aimg_slices plain_format cs)) + FASTBOOT_BLOCKSIZE = flash_size plain_format cs"
  by (intro exI [of _ "[\<lparr>fc_offset = 1, fc_data = [replicate 4 0, [1]]\<rparr>]"])
     (simp add: append_chunk_def usize_sub_def flash_size_def plain_format_def FASTBOOT_BLOCKSIZE_def
       Let_def chunk_flash_size_def next_multiple_of_def aimg_slices_def end_padding_def data_bytes_def)

end
