(* ===== verification/Tracked.thy ===== *)
theory Tracked
  imports Registry
begin

section \<open>Keeping track of registered items\<close>

text \<open>
  Several providers follow a source of announcements (the events of udev, the monitor stream of
  another server) and keep a map from the announced keys to the items they registered for them,
  to unregister an item when its key goes away. The interface \<open>tracked_items\<close> states what their
  steps do to the registry and to the map; the lemmas say that such a provider neither leaks
  nor removes an item of another, as long as no key is announced twice.
\<close>

subsection \<open>Announcements\<close>

text \<open>A key appears, goes away, or all of them do.\<close>

datatype 'key track = TAdd 'key | TRemove 'key | TEnd

fun no_overlap :: "'key list \<Rightarrow> 'key track list \<Rightarrow> bool" where
  "no_overlap ns [] = True"
| "no_overlap ns (TAdd n # xs) = (n \<notin> set ns \<and> no_overlap (n # ns) xs)"
| "no_overlap ns (TRemove n # xs) = no_overlap (removeAll n ns) xs"
| "no_overlap ns (TEnd # xs) = no_overlap [] xs"

text \<open>The keys that are announced and have not gone away.\<close>

fun keep_key :: "'key track \<Rightarrow> 'key list \<Rightarrow> 'key list" where
  "keep_key (TAdd n) ns = n # ns"
| "keep_key (TRemove n) ns = removeAll n ns"
| "keep_key TEnd ns = []"

lemma no_overlap_step: "no_overlap ns (c # cs) \<Longrightarrow> no_overlap (keep_key c ns) cs"
  by (cases c) auto

subsection \<open>Maps to items\<close>

lemma update_new: "n \<notin> fst ` set m \<Longrightarrow> AList.update n i m = m @ [(n, i)]"
  by (induction m) auto

lemma delete_unknown: "map_of m n = None \<Longrightarrow> AList.delete n m = m"
  by (force simp: AList.delete_eq filter_id_conv map_of_eq_None_iff)

lemma delete_keys: "fst ` set (AList.delete n m) = fst ` set m - {n}"
  by (auto simp: AList.delete_eq)

lemma delete_values:
  "distinct (map fst m) \<Longrightarrow> distinct (map snd m) \<Longrightarrow>
   snd ` set (AList.delete n m) =
     (case map_of m n of Some i \<Rightarrow> snd ` set m - {i} | None \<Rightarrow> snd ` set m)"
proof (cases "map_of m n")
  case None
  then have "n \<notin> fst ` set m" by (simp add: map_of_eq_None_iff)
  then have "{p \<in> set m. n \<noteq> fst p} = set m" by auto
  with None show ?thesis by (simp add: AList.delete_eq case_prod_unfold)
next
  case (Some i)
  assume d: "distinct (map fst m)" "distinct (map snd m)"
  from Some have i: "(n, i) \<in> set m" by (rule map_of_SomeD)
  have inj: "inj_on snd (set m)" using d(2) by (simp add: distinct_map)
  have "p = (n, i)" if "p \<in> set m" "fst p = n" for p
  proof -
    from that have "(n, snd p) \<in> set m" by auto
    from map_of_is_SomeI [OF d(1) this] Some that(2) show ?thesis by (cases p) simp
  qed
  then have "n \<noteq> fst p \<longleftrightarrow> p \<noteq> (n, i)" if "p \<in> set m" for p using that by (metis fst_conv)
  then have "{p \<in> set m. n \<noteq> fst p} = set m - {(n, i)}" by blast
  moreover have "snd ` (set m - {(n, i)}) = snd ` set m - {i}"
    using inj_on_image_set_diff [OF inj, of "set m" "{(n, i)}"] i by simp
  ultimately show ?thesis using Some by (simp add: AList.delete_eq case_prod_unfold)
qed

lemma delete_snd_distinct: "distinct (map snd m) \<Longrightarrow> distinct (map snd (AList.delete n m))"
  by (induction m) (auto simp: AList.delete_eq)

lemma live_ids: "set (registry_ids r) = {i. registry_lookup r i \<noteq> None}"
  by (auto simp: registry_lookup_def registry_ids_def map_of_eq_None_iff simp del: not_None_eq)

subsection \<open>Registering several items\<close>

fun registers :: "('k, 't) Registry \<Rightarrow> ('k u64_index \<times> 't Item) list \<Rightarrow> ('k, 't) Registry \<Rightarrow> bool" where
  "registers r [] r' = (r' = r)"
| "registers r ((i, item) # is) r' =
     (i = next_id r \<and> (\<exists>p a. item = item_new p a \<and> registers (snd (registry_add p a r)) is r'))"

lemma registers_snoc:
  "registers r is r' \<Longrightarrow> registers r (is @ [(next_id r', item_new p a)]) (snd (registry_add p a r'))"
  by (induction r "is" r' rule: registers.induct) auto

lemma registers_adds:
  "registers r is r' \<Longrightarrow>
   length (added_ids (monitor r')) = length (added_ids (monitor r)) + length is"
  by (induction r "is" r' rule: registers.induct) (auto simp: added_ids_add)

lemma registers_live:
  assumes "registers r is r'" "registry_inv r" "length (added_ids (monitor r')) < 2 ^ 64"
  shows "registry_inv r' \<and> {i. registry_lookup r' i \<noteq> None} = {i. registry_lookup r i \<noteq> None} \<union> fst ` set is \<and>
    {i. registry_lookup r i \<noteq> None} \<inter> fst ` set is = {} \<and> distinct (map fst is)"
  using assms
proof (induction r "is" r' rule: registers.induct)
  case (2 r i item "is" r')
  then obtain p a where i: "i = next_id r" and reg: "registers (snd (registry_add p a r)) is r'" by auto
  let ?r = "snd (registry_add p a r)"
  from 2(3) have inv: "registry_inv ?r" by (rule registry_inv_add)
  from 2(1) [OF reg inv 2(4)] have ih: "registry_inv r'"
    "{i. registry_lookup r' i \<noteq> None} = {i. registry_lookup ?r i \<noteq> None} \<union> fst ` set is"
    "{i. registry_lookup ?r i \<noteq> None} \<inter> fst ` set is = {}" "distinct (map fst is)" by auto
  have "length (added_ids (monitor r)) < 2 ^ 64"
    using registers_adds [OF reg] 2(4) by (simp add: added_ids_add)
  with 2(3) have "registry_lookup r i = None" unfolding i by (rule next_id_fresh)
  moreover have "{j. registry_lookup ?r j \<noteq> None} = insert i {j. registry_lookup r j \<noteq> None}"
    by (auto simp: i)
  ultimately show ?case using ih by auto
qed auto

subsection \<open>The interface\<close>

text \<open>
  \<open>announces\<close> tells what a step announces; a step that announces nothing leaves the registry and
  the map alone, and adding a key may fail.
\<close>

locale tracked_items =
  fixes announces :: "'x \<Rightarrow> 'key track option"
    and step :: "'x \<Rightarrow> 's \<Rightarrow> 's outcome"
    and reg :: "'s \<Rightarrow> ('k, 'i) Registry"
    and known :: "'s \<Rightarrow> ('key \<times> 'k u64_index) list"
  assumes other: "step x s = Done s' \<Longrightarrow> announces x = None \<Longrightarrow> reg s' = reg s \<and> known s' = known s"
    and add: "step x s = Done s' \<Longrightarrow> announces x = Some (TAdd n) \<Longrightarrow>
      reg s' = reg s \<and> known s' = known s \<or>
      (\<exists>p i. reg s' = snd (registry_add p i (reg s)) \<and>
         known s' = AList.update n (next_id (reg s)) (known s))"
    and remove: "step x s = Done s' \<Longrightarrow> announces x = Some (TRemove n) \<Longrightarrow>
      reg s' = (case map_of (known s) n of Some i \<Rightarrow> registry_remove i (reg s) | None \<Rightarrow> reg s) \<and>
      known s' = AList.delete n (known s)"
    and finish: "step x s = Done s' \<Longrightarrow> announces x = Some TEnd \<Longrightarrow>
      reg s' = fold registry_remove (map snd (known s)) (reg s) \<and> known s' = []"
begin

definition live :: "'s \<Rightarrow> 'k u64_index set" where
  "live s = {i. registry_lookup (reg s) i \<noteq> None}"

definition mine :: "'s \<Rightarrow> 'k u64_index set" where
  "mine s = snd ` set (known s)"

text \<open>\<open>others\<close> are live and not ours; \<open>ns\<close> are the keys announced and not removed.\<close>

definition track_inv :: "'k u64_index set \<Rightarrow> 'key list \<Rightarrow> 's \<Rightarrow> bool" where
  "track_inv others ns s \<longleftrightarrow>
     registry_inv (reg s) \<and> live s = others \<union> mine s \<and> others \<inter> mine s = {} \<and>
     distinct (map fst (known s)) \<and> distinct (map snd (known s)) \<and> fst ` set (known s) \<subseteq> set ns"

definition adds :: "'s \<Rightarrow> nat" where
  "adds s = length (added_ids (monitor (reg s)))"

lemma lookup_fold_remove:
  "registry_lookup (fold registry_remove is r) i = (if i \<in> set is then None else registry_lookup r i)"
  by (induction "is" arbitrary: r) auto

lemma inv_fold_remove: "registry_inv r \<Longrightarrow> registry_inv (fold registry_remove is r)"
  by (induction "is" arbitrary: r) (auto intro: registry_inv_remove)

lemma adds_fold_remove:
  "added_ids (monitor (fold registry_remove is r)) = added_ids (monitor r)"
  by (induction "is" arbitrary: r) simp_all

lemma step_adds: "step x s = Done s' \<Longrightarrow> adds s \<le> adds s'"
proof (cases "announces x")
  case (Some c)
  assume st: "step x s = Done s'"
  show ?thesis
    using Some add [OF st] remove [OF st] finish [OF st] by (cases c)
      (fastforce simp: adds_def adds_fold_remove added_ids_add split: option.splits)+
qed (auto simp: adds_def dest: other)

lemma step_inv:
  assumes step: "step x s = Done s'" and inv: "track_inv others ns s"
    and own: "announces x = Some c" and fresh: "no_overlap ns (c # cs)" and bound: "adds s' < 2 ^ 64"
  shows "track_inv others (keep_key c ns) s'"
proof (cases c)
  case (TAdd n)
  with own have cl: "announces x = Some (TAdd n)" by simp
  from fresh TAdd have "n \<notin> set ns" by auto
  with inv have new: "n \<notin> fst ` set (known s)" by (auto simp: track_inv_def)
  have b: "length (added_ids (monitor (reg s))) < 2 ^ 64"
    using step_adds [OF step] bound by (simp add: adds_def)
  from inv have free: "registry_lookup (reg s) (next_id (reg s)) = None"
    by (intro next_id_fresh b) (simp add: track_inv_def)
  from add [OF step cl] show ?thesis
  proof (elim disjE exE conjE)
    assume same: "reg s' = reg s" "known s' = known s"
    with inv have "track_inv others (n # ns) s'"
      by (auto simp: track_inv_def live_def mine_def)
    with TAdd show ?thesis by simp
  next
    fix p i
    assume reg': "reg s' = snd (registry_add p i (reg s))"
      and known': "known s' = AList.update n (next_id (reg s)) (known s)"
    have known'': "known s' = known s @ [(n, next_id (reg s))]"
      using known' update_new [OF new] by simp
    have "next_id (reg s) \<notin> live s" using free by (simp add: live_def)
    with inv have "next_id (reg s) \<notin> others" "next_id (reg s) \<notin> snd ` set (known s)"
      by (auto simp: track_inv_def mine_def)
    moreover have "live s' = insert (next_id (reg s)) (live s)" by (auto simp: live_def reg')
    ultimately have "track_inv others (n # ns) s'"
      using inv new reg' known'' by (auto simp: track_inv_def mine_def registry_inv_add)
    with TAdd show ?thesis by simp
  qed
next
  case (TRemove n)
  with own have cl: "announces x = Some (TRemove n)" by simp
  from inv have d: "distinct (map fst (known s))" "distinct (map snd (known s))"
    by (simp_all add: track_inv_def)
  from remove [OF step cl] have known': "known s' = AList.delete n (known s)"
    and reg': "reg s' = (case map_of (known s) n of Some i \<Rightarrow> registry_remove i (reg s) | None \<Rightarrow> reg s)"
    by simp_all
  have mine': "mine s' = (case map_of (known s) n of Some i \<Rightarrow> mine s - {i} | None \<Rightarrow> mine s)"
    unfolding mine_def known' by (rule delete_values [OF d])
  have live': "live s' = (case map_of (known s) n of Some i \<Rightarrow> live s - {i} | None \<Rightarrow> live s)"
    by (auto simp: live_def reg' split: option.splits if_splits)
  have own': "map_of (known s) n = Some i \<Longrightarrow> i \<in> mine s" for i
    by (force simp: mine_def dest: map_of_SomeD)
  have maps: "distinct (map fst (known s'))" "distinct (map snd (known s'))"
    "fst ` set (known s') = fst ` set (known s) - {n}"
    using d by (simp_all add: known' distinct_delete delete_snd_distinct delete_keys)
  have ri: "registry_inv (reg s')"
    using inv by (auto simp: track_inv_def reg' registry_inv_remove split: option.splits)
  have "live s' = others \<union> mine s'" "others \<inter> mine s' = {}"
    using inv own' unfolding track_inv_def live' mine' by (auto split: option.splits)
  with inv ri maps have "track_inv others (removeAll n ns) s'" by (auto simp: track_inv_def)
  with TRemove show ?thesis by simp
next
  case TEnd
  with own have cl: "announces x = Some TEnd" by simp
  from finish [OF step cl] have
    "reg s' = fold registry_remove (map snd (known s)) (reg s)" "known s' = []" by simp_all
  with inv have "track_inv others [] s'"
    by (auto simp: track_inv_def live_def mine_def lookup_fold_remove inv_fold_remove split: if_splits)
  with TEnd show ?thesis by simp
qed

lemma run_unrelated:
  "run_steps step xs s = Done s' \<Longrightarrow> List.map_filter announces xs = [] \<Longrightarrow>
   reg s' = reg s \<and> known s' = known s"
proof (induction xs arbitrary: s)
  case (Cons x xs)
  then obtain s1 where "step x s = Done s1" "run_steps step xs s1 = Done s'"
    by (auto split: outcome.splits)
  with Cons other [of x s s1] show ?case by (auto simp: List.map_filter_simps split: option.splits)
qed simp

lemma run_adds: "run_steps step xs s = Done s' \<Longrightarrow> adds s \<le> adds s'"
proof (induction xs arbitrary: s)
  case (Cons x xs)
  then obtain s1 where "step x s = Done s1" "run_steps step xs s1 = Done s'"
    by (auto split: outcome.splits)
  with Cons.IH [of s1] step_adds show ?case by (meson order_trans)
qed simp

lemma run_inv:
  assumes "run_steps step xs s = Done s'" "track_inv others ns s" "adds s' < 2 ^ 64"
    and "no_overlap ns (List.map_filter announces xs)"
  shows "track_inv others (fold keep_key (List.map_filter announces xs) ns) s'"
  using assms
proof (induction xs arbitrary: s ns)
  case (Cons x xs)
  then obtain s1 where s1: "step x s = Done s1" "run_steps step xs s1 = Done s'"
    by (auto split: outcome.splits)
  from run_adds [OF s1(2)] Cons.prems(3) have b: "adds s1 < 2 ^ 64" by simp
  show ?case
  proof (cases "announces x")
    case (Some c)
    with Cons.prems(4) have "no_overlap ns (c # List.map_filter announces xs)"
      by (simp add: List.map_filter_simps)
    from Cons.IH [OF s1(2) step_inv [OF s1(1) Cons.prems(2) Some this b] Cons.prems(3)
        no_overlap_step [OF this]] Some
    show ?thesis by (simp add: List.map_filter_simps)
  next
    case None
    with other [OF s1(1)] Cons.prems(2) have "track_inv others ns s1"
      by (simp add: track_inv_def live_def mine_def)
    with Cons.IH [OF s1(2) _ Cons.prems(3), of ns] Cons.prems(4) None show ?thesis
      by (simp add: List.map_filter_simps)
  qed
qed (simp add: List.map_filter_simps)

lemma run_ends:
  "run_steps step xs s = Done s' \<Longrightarrow> List.map_filter announces xs = cs @ [TEnd] \<Longrightarrow> known s' = []"
proof (induction xs arbitrary: s cs)
  case (Cons x xs)
  then obtain s1 where s1: "step x s = Done s1" "run_steps step xs s1 = Done s'"
    by (auto split: outcome.splits)
  show ?case
  proof (cases "List.map_filter announces xs = []")
    case True
    with Cons.prems(2) have "announces x = Some TEnd"
      by (auto simp: List.map_filter_simps split: option.splits)
    with finish s1(1) run_unrelated [OF s1(2) True] show ?thesis by simp
  next
    case False
    with Cons.prems(2) obtain cs' where "List.map_filter announces xs = cs' @ [TEnd]"
      by (cases cs) (auto simp: List.map_filter_simps split: option.splits)
    with Cons.IH [OF s1(2)] show ?thesis .
  qed
qed (simp add: List.map_filter_simps)

text \<open>
  A run leaves the items that were there and those it still knows; one that ends by dropping
  all its entries leaves the registry as it found it.
\<close>

lemma run_owns:
  assumes run: "run_steps step xs s = Done s'" and fresh: "no_overlap [] (List.map_filter announces xs)"
    and start: "known s = []" "registry_inv (reg s)" and bound: "adds s' < 2 ^ 64"
  shows "live s' = live s \<union> mine s' \<and> live s \<inter> mine s' = {} \<and>
    distinct (map fst (known s')) \<and> distinct (map snd (known s')) \<and>
    fst ` set (known s') \<subseteq> set (fold keep_key (List.map_filter announces xs) [])"
proof -
  have "track_inv (live s) [] s" using start by (simp add: track_inv_def mine_def)
  from run_inv [OF run this bound fresh] show ?thesis by (auto simp: track_inv_def)
qed

lemma run_leaves_nothing:
  assumes run: "run_steps step xs s = Done s'" and own: "List.map_filter announces xs = cs @ [TEnd]"
    and fresh: "no_overlap [] (List.map_filter announces xs)"
    and start: "known s = []" "registry_inv (reg s)" and bound: "adds s' < 2 ^ 64"
  shows "known s' = [] \<and> live s' = live s"
  using run_ends [OF run own] run_owns [OF run fresh start bound] by (simp add: mine_def)

end

subsection \<open>Keys announced again\<close>

text \<open>How often a key is announced that is announced already and has not gone away.\<close>

fun again :: "'key list \<Rightarrow> 'key track list \<Rightarrow> nat" where
  "again ns [] = 0"
| "again ns (TAdd n # xs) = (if n \<in> set ns then 1 else 0) + again (n # ns) xs"
| "again ns (TRemove n # xs) = again (removeAll n ns) xs"
| "again ns (TEnd # xs) = again [] xs"

lemma again_append: "again ns (xs @ ys) = again ns xs + again (fold keep_key xs ns) ys"
  by (induction ns xs rule: again.induct) auto

lemma again_none: "no_overlap ns xs \<Longrightarrow> again ns xs = 0"
  by (induction ns xs rule: again.induct) auto

lemma update_known: "distinct (map fst m) \<Longrightarrow> set (AList.update n i m) = insert (n, i) {p \<in> set m. fst p \<noteq> n}"
  by (induction m) (auto simp: image_iff)

lemma update_values: "snd ` set (AList.update n i m) \<subseteq> insert i (snd ` set m)"
  by (induction m) auto

lemma update_snd_distinct:
  "distinct (map snd m) \<Longrightarrow> i \<notin> snd ` set m \<Longrightarrow> distinct (map snd (AList.update n i m))"
proof (induction m)
  case (Cons p m)
  with update_values [of n i m] show ?case by (cases p) auto
qed simp

text \<open>
  When adding a key never fails, the map has exactly the keys announced and not removed.
\<close>

locale mirrored_items = tracked_items +
  assumes always: "step x s = Done s' \<Longrightarrow> announces x = Some (TAdd n) \<Longrightarrow>
      known s' = AList.update n (next_id (reg s)) (known s)"
begin

lemma step_keys:
  assumes "step x s = Done s'" "announces x = Some c" "fst ` set (known s) = set ns"
  shows "fst ` set (known s') = set (keep_key c ns)"
  using assms always [OF assms(1)] remove [OF assms(1)] finish [OF assms(1)]
  by (cases c) (auto simp: dom_map_of_conv_image_fst [symmetric] update_conv' delete_conv' split: if_splits)

lemma run_keys:
  "run_steps step xs s = Done s' \<Longrightarrow> fst ` set (known s) = set ns \<Longrightarrow>
   fst ` set (known s') = set (fold keep_key (List.map_filter announces xs) ns)"
proof (induction xs arbitrary: s ns)
  case (Cons x xs)
  then obtain s1 where s1: "step x s = Done s1" "run_steps step xs s1 = Done s'"
    by (auto split: outcome.splits)
  show ?case
  proof (cases "announces x")
    case None
    with Cons.IH [OF s1(2)] Cons.prems(2) other [OF s1(1)] show ?thesis by (simp add: List.map_filter_simps)
  next
    case (Some c)
    with Cons.IH [OF s1(2) step_keys [OF s1(1) Some Cons.prems(2)]] show ?thesis
      by (simp add: List.map_filter_simps)
  qed
qed (simp add: List.map_filter_simps)

text \<open>
  An item whose key is announced again is left behind: its entry is replaced, and it belongs to
  nobody from then on.
\<close>

lemma step_again:
  assumes step: "step x s = Done s'" and inv: "track_inv others ns s"
    and own: "announces x = Some (TAdd n)" and old: "map_of (known s) n = Some i" and bound: "adds s' < 2 ^ 64"
  shows "track_inv (insert i others) (n # ns) s' \<and> i \<notin> others"
proof -
  let ?j = "next_id (reg s)"
  from inv have d: "distinct (map fst (known s))" "distinct (map snd (known s))"
    and ri: "registry_inv (reg s)" and live: "live s = others \<union> mine s" "others \<inter> mine s = {}"
    and keys: "fst ` set (known s) \<subseteq> set ns" by (simp_all add: track_inv_def)
  have i: "(n, i) \<in> set (known s)" using old by (rule map_of_SomeD)
  then have "i \<in> mine s" by (force simp: mine_def)
  have "length (added_ids (monitor (reg s))) < 2 ^ 64"
    using step_adds [OF step] bound by (simp add: adds_def)
  with ri have free: "?j \<notin> live s" by (simp add: live_def next_id_fresh)
  have known': "known s' = AList.update n ?j (known s)" by (rule always [OF step own])
  have "\<not> known s' = known s"
  proof
    assume "known s' = known s"
    with known' old have "i = ?j" by (metis fun_upd_same option.inject update_conv')
    with free \<open>i \<in> mine s\<close> live(1) show False by simp
  qed
  with add [OF step own] have reg': "\<exists>p a. reg s' = snd (registry_add p a (reg s))" by blast
  then have live': "live s' = insert ?j (live s)" and ri': "registry_inv (reg s')"
    using ri by (auto simp: live_def registry_inv_add)
  have "{p \<in> set (known s). fst p \<noteq> n} = set (AList.delete n (known s))" by (auto simp: AList.delete_eq)
  with delete_values [OF d, of n] old have "mine s' = insert ?j (mine s - {i})"
    by (simp add: mine_def known' update_known [OF d(1)])
  moreover have "distinct (map fst (known s'))" "distinct (map snd (known s'))" "fst ` set (known s') \<subseteq> set (n # ns)"
    using d keys free live(1) by (auto simp: known' distinct_update update_known mine_def intro!: update_snd_distinct)
  ultimately show ?thesis
    using live live' ri' free \<open>i \<in> mine s\<close> by (auto simp: track_inv_def)
qed

lemma run_again:
  assumes "run_steps step xs s = Done s'" "track_inv others ns s" "fst ` set (known s) = set ns" "adds s' < 2 ^ 64"
  shows "\<exists>lost. finite lost \<and> card lost = again ns (List.map_filter announces xs) \<and> lost \<inter> others = {} \<and>
    track_inv (others \<union> lost) (fold keep_key (List.map_filter announces xs) ns) s'"
  using assms
proof (induction xs arbitrary: s ns others)
  case (Cons x xs)
  then obtain s1 where s1: "step x s = Done s1" "run_steps step xs s1 = Done s'"
    by (auto split: outcome.splits)
  from run_adds [OF s1(2)] Cons.prems(4) have b: "adds s1 < 2 ^ 64" by simp
  show ?case
  proof (cases "announces x")
    case None
    with other [OF s1(1)] Cons.prems(2,3) have "track_inv others ns s1" "fst ` set (known s1) = set ns"
      by (simp_all add: track_inv_def live_def mine_def)
    with Cons.IH [OF s1(2) this Cons.prems(4)] None show ?thesis by (simp add: List.map_filter_simps)
  next
    case (Some c)
    note keys = step_keys [OF s1(1) Some Cons.prems(3)]
    show ?thesis
    proof (cases "\<exists>n. c = TAdd n \<and> n \<in> set ns")
      case True
      then obtain n where n: "c = TAdd n" "n \<in> set ns" by blast
      with Cons.prems(3) have "map_of (known s) n \<noteq> None" by (simp add: map_of_eq_None_iff)
      then obtain i where i: "map_of (known s) n = Some i" by blast
      from step_again [OF s1(1) Cons.prems(2) _ i b] Some n(1) have
        inv: "track_inv (insert i others) (keep_key c ns) s1" and new: "i \<notin> others" by simp_all
      from Cons.IH [OF s1(2) inv keys Cons.prems(4)] obtain lost where lost: "finite lost"
        "card lost = again (keep_key c ns) (List.map_filter announces xs)" "lost \<inter> insert i others = {}"
        "track_inv (insert i others \<union> lost) (fold keep_key (List.map_filter announces xs) (keep_key c ns)) s'" by blast
      with new n Some show ?thesis
        by (intro exI [of _ "insert i lost"]) (simp add: List.map_filter_simps)
    next
      case False
      then have "no_overlap ns [c]" by (cases c) auto
      from step_inv [OF s1(1) Cons.prems(2) Some this b] have inv: "track_inv others (keep_key c ns) s1" .
      from False have "again ns (c # List.map_filter announces xs) = again (keep_key c ns) (List.map_filter announces xs)"
        by (cases c) auto
      with Cons.IH [OF s1(2) inv keys Cons.prems(4)] Some show ?thesis by (simp add: List.map_filter_simps)
    qed
  qed
qed (auto simp: List.map_filter_simps)

text \<open>
  A run that starts with an empty map: its items are those it knows and, one for every key
  announced again, those left behind, beside the items that were there.
\<close>

lemma run_mirrors:
  assumes run: "run_steps step xs s = Done s'"
    and start: "known s = []" "registry_inv (reg s)" and bound: "adds s' < 2 ^ 64"
  shows "live s \<union> mine s' \<subseteq> live s' \<and> live s \<inter> mine s' = {} \<and>
    distinct (map fst (known s')) \<and> distinct (map snd (known s')) \<and>
    card (live s' - (live s \<union> mine s')) = again [] (List.map_filter announces xs) \<and>
    fst ` set (known s') = set (fold keep_key (List.map_filter announces xs) [])"
proof -
  have "track_inv (live s) [] s" using start by (simp add: track_inv_def mine_def)
  with run_again [OF run] bound start(1) obtain lost where lost:
    "card lost = again [] (List.map_filter announces xs)" "lost \<inter> live s = {}"
    "track_inv (live s \<union> lost) (fold keep_key (List.map_filter announces xs) []) s'" by force
  from lost(2,3) have "live s' - (live s \<union> mine s') = lost" by (auto simp: track_inv_def)
  with lost run_keys [OF run, of "[]"] start(1) show ?thesis by (auto simp: track_inv_def)
qed

end

end
