(* ===== verification/Provider_Common.thy ===== *)
theory Provider_Common
  imports Udev Tracked
begin

section \<open>What the providers share\<close>

text \<open>
  The pieces the providers of local hardware have in common: file names of device nodes, the
  announcements in a stream of device events, the targets a volume hands out (a trait object
  owns its state, so it is a cell of the world the volume works on), and the interface of a
  target that collects a blob before it is sent.
\<close>

subsection \<open>Paths and text\<close>

text \<open>\<^verbatim>\<open>Path::file_name\<close>.\<close>

definition file_name :: "string \<Rightarrow> string option" where
  "file_name path =
     (let cs = filter (\<lambda>c. c \<noteq> '''' \<and> c \<noteq> ''.'') (split_on CHR ''/'' path)
      in if cs = [] \<or> last cs = ''..'' then None else Some (last cs))"

text \<open>\<^verbatim>\<open>trim_end\<close> on ASCII text.\<close>

definition ascii_space :: "char \<Rightarrow> bool" where
  "ascii_space c \<longleftrightarrow> (of_char c :: nat) = 32 \<or> 9 \<le> (of_char c :: nat) \<and> (of_char c :: nat) \<le> 13"

definition trim_end :: "string \<Rightarrow> string" where
  "trim_end s = rev (dropWhile ascii_space (rev s))"

subsection \<open>Announced devices\<close>

type_synonym usb_address = "u8 \<times> u8"

fun announced_path :: "DeviceEvent \<Rightarrow> string track option" where
  "announced_path (EventAdded device seqnum) = Some (TAdd (ud_syspath device))"
| "announced_path (EventRemoved device) = Some (TRemove (ud_syspath device))"

text \<open>
  A provider that registers an item for a device that appears, under its path, and unregisters
  it when the device goes away.
\<close>

locale hotplug =
  fixes event :: "DeviceEvent \<Rightarrow> 's \<Rightarrow> 's"
    and reg :: "'s \<Rightarrow> ('k, 'i) Registry"
    and known :: "'s \<Rightarrow> (string \<times> 'k u64_index) list"
  assumes appear: "reg (event (EventAdded d n) s) = reg s \<and> known (event (EventAdded d n) s) = known s \<or>
      (\<exists>p i. reg (event (EventAdded d n) s) = snd (registry_add p i (reg s)) \<and>
         known (event (EventAdded d n) s) = AList.update (ud_syspath d) (next_id (reg s)) (known s))"
    and vanish: "reg (event (EventRemoved d) s) =
        (case map_of (known s) (ud_syspath d) of Some i \<Rightarrow> registry_remove i (reg s) | None \<Rightarrow> reg s)"
      "known (event (EventRemoved d) s) = AList.delete (ud_syspath d) (known s)"

sublocale hotplug \<subseteq> tracked_items announced_path "\<lambda>ev s. Done (event ev s)" reg known
proof unfold_locales
  fix x s s' n
  assume "Done (event x s) = Done s'" "announced_path x = Some (TAdd n)"
  then show "reg s' = reg s \<and> known s' = known s \<or>
      (\<exists>p i. reg s' = snd (registry_add p i (reg s)) \<and> known s' = AList.update n (next_id (reg s)) (known s))"
    using appear [of _ _ s] by (cases x) auto
next
  fix x s s' n
  assume "Done (event x s) = Done s'" "announced_path x = Some (TRemove n)"
  then show "reg s' = (case map_of (known s) n of Some i \<Rightarrow> registry_remove i (reg s) | None \<Rightarrow> reg s) \<and>
      known s' = AList.delete n (known s)"
    using vanish [of _ s] by (cases x) auto
next
  fix x and s s' :: 's
  assume "announced_path x = None"
  then show "reg s' = reg s \<and> known s' = known s" by (cases x) auto
next
  fix x and s s' :: 's
  assume "announced_path x = Some TEnd"
  then show "reg s' = fold registry_remove (map snd (known s)) (reg s) \<and> known s' = []"
    by (cases x) auto
qed

subsection \<open>Targets with a state of their own\<close>

record ('t, 'w) boxed =
  bx_cells :: "'t list"
  bx_world :: 'w

definition on_cell ::
  "nat \<Rightarrow> ('t \<times> 'w \<Rightarrow> 'a \<times> 't \<times> 'w) \<Rightarrow> ('t, 'w) boxed \<Rightarrow> 'a \<times> ('t, 'w) boxed" where
  "on_cell n f b =
     (case f (bx_cells b ! n, bx_world b) of
        (a, t, w) \<Rightarrow> (a, \<lparr>bx_cells = (bx_cells b)[n := t], bx_world = w\<rparr>))"

definition on_world :: "('w \<Rightarrow> 'a \<times> 'w) \<Rightarrow> ('t, 'w) boxed \<Rightarrow> 'a \<times> ('t, 'w) boxed" where
  "on_world f b = (case f (bx_world b) of (a, w) \<Rightarrow> (a, b\<lparr>bx_world := w\<rparr>))"

definition boxed_target :: "('t \<times> 'w) VolumeTarget \<Rightarrow> nat \<Rightarrow> ('t, 'w) boxed VolumeTarget" where
  "boxed_target vt n =
     \<lparr>vt_read = (\<lambda>len offset. on_cell n (vt_read vt len offset)),
      vt_write = (\<lambda>data offset. on_cell n (vt_write vt data offset)),
      vt_flush = on_cell n (vt_flush vt),
      vt_shutdown = on_cell n (vt_shutdown vt)\<rparr>"

definition box_target ::
  "('t \<times> 'w) VolumeTarget \<Rightarrow> 't \<Rightarrow> ('t, 'w) boxed \<Rightarrow> ('t, 'w) boxed VolumeTarget \<times> ('t, 'w) boxed" where
  "box_target vt t b =
     (boxed_target vt (length (bx_cells b)), b\<lparr>bx_cells := bx_cells b @ [t]\<rparr>)"

text \<open>A method that completes its completion.\<close>

definition completed :: "'a \<times> 'b \<Rightarrow> 'a option \<times> 'b" where
  "completed r = (Some (fst r), snd r)"

text \<open>Targets do not touch each other's state.\<close>

lemma on_cell_frame:
  "on_cell n f b = (a, b') \<Longrightarrow> m \<noteq> n \<Longrightarrow> bx_cells b' ! m = bx_cells b ! m"
  by (auto simp: on_cell_def split: prod.splits)

lemma on_cell_length [simp]: "length (bx_cells (snd (on_cell n f b))) = length (bx_cells b)"
  by (simp add: on_cell_def split: prod.splits)

subsection \<open>Tasks that own a device\<close>

text \<open>
  A task that owns a device is asked through a channel. A request fails when the task ended
  before it was sent, and is not answered when it ends before it answers.
\<close>

datatype task_end = Running | Ended | Ending

datatype 'a task_reply = NotSent | NoReply | Replied 'a

fun ask_task :: "task_end \<Rightarrow> ('w \<Rightarrow> 'a \<times> 'w) \<Rightarrow> 'w \<Rightarrow> 'a task_reply \<times> 'w" where
  "ask_task Running f w = (case f w of (a, w1) \<Rightarrow> (Replied a, w1))"
| "ask_task Ended f w = (NotSent, w)"
| "ask_task Ending f w = (NoReply, w)"

subsection \<open>Targets that collect a blob\<close>

text \<open>
  A boot ROM takes one blob: its target only appends, at the offset that was reached, up to
  the capacity of its buffer, and sends the blob when it is shut down.
\<close>

text \<open>The writes that are accepted, in order.\<close>

fun accepted :: "nat \<Rightarrow> nat \<Rightarrow> (bytes \<times> u64) list \<Rightarrow> bytes list" where
  "accepted pos cap [] = []"
| "accepted pos cap ((d, off) # ws) =
     (if unat off = pos \<and> length d + pos \<le> cap then d # accepted (pos + length d) cap ws
      else accepted pos cap ws)"

text \<open>A blob cut into writes one after another arrives whole.\<close>

fun in_sequence :: "nat \<Rightarrow> bytes list \<Rightarrow> (bytes \<times> u64) list" where
  "in_sequence pos [] = []"
| "in_sequence pos (d # ds) = (d, of_nat pos) # in_sequence (pos + length d) ds"

lemma accepted_sequence:
  "pos + length (concat ds) \<le> cap \<Longrightarrow> cap < 2 ^ 64 \<Longrightarrow> accepted pos cap (in_sequence pos ds) = ds"
proof (induction ds arbitrary: pos)
  case (Cons d ds)
  then have "unat (of_nat pos :: u64) = pos" by (simp add: unat_of_nat_u64)
  with Cons show ?case by (simp add: add.assoc add.commute [of "length d"])
qed simp

definition write_requests :: "(bytes \<times> u64) list \<Rightarrow> TargetOrRequest list" where
  "write_requests ws = map (\<lambda>(d, off). ReqWrite d off) ws"

locale staging =
  fixes buf :: "'t \<Rightarrow> bytes"
    and capacity :: "'t \<Rightarrow> nat"
    and stage :: "bytes \<Rightarrow> u64 \<Rightarrow> 't \<Rightarrow> (status, u64) result \<times> 't"
  assumes accept: "unat offset = length (buf t) \<Longrightarrow> length data + length (buf t) \<le> capacity t \<Longrightarrow>
      \<exists>t'. stage data offset t = (Ok (of_nat (length data)), t') \<and>
        buf t' = buf t @ data \<and> capacity t' = capacity t"
    and refuse: "unat offset \<noteq> length (buf t) \<or> capacity t < length data + length (buf t) \<Longrightarrow>
      \<exists>e. stage data offset t = (Err e, t) \<and> status_code e = OutOfRange"
begin

definition stages :: "(bytes \<times> u64) list \<Rightarrow> 't \<Rightarrow> 't" where
  "stages ws t = fold (\<lambda>(d, off) t. snd (stage d off t)) ws t"

lemma stages_buf:
  "buf (stages ws t) = buf t @ concat (accepted (length (buf t)) (capacity t) ws) \<and>
   capacity (stages ws t) = capacity t"
proof (induction ws arbitrary: t)
  case (Cons w ws)
  obtain d off where w: "w = (d, off)" by force
  show ?case
  proof (cases "unat off = length (buf t) \<and> length d + length (buf t) \<le> capacity t")
    case True
    with accept [of off t d] obtain t' where
      "stage d off t = (Ok (of_nat (length d)), t')" "buf t' = buf t @ d" "capacity t' = capacity t" by auto
    with Cons.IH [of t'] True w show ?thesis by (simp add: stages_def add.commute)
  next
    case False
    with refuse [of off t d] have "snd (stage d off t) = t" by force
    with Cons.IH [of t] False w show ?thesis by (auto simp: stages_def)
  qed
qed (simp add: stages_def)

lemma stages_bounded: "length (buf t) \<le> capacity t \<Longrightarrow> length (buf (stages ws t)) \<le> capacity t"
proof (induction ws arbitrary: t)
  case (Cons w ws)
  obtain d off where w: "w = (d, off)" by force
  show ?case
  proof (cases "unat off = length (buf t) \<and> length d + length (buf t) \<le> capacity t")
    case True
    with accept [of off t d] obtain t' where
      "stage d off t = (Ok (of_nat (length d)), t')" "buf t' = buf t @ d" "capacity t' = capacity t" by auto
    with Cons.IH [of t'] True w show ?thesis by (simp add: stages_def add.commute)
  next
    case False
    with refuse [of off t d] have "snd (stage d off t) = t" by force
    with Cons.IH [of t] Cons.prems w show ?thesis by (simp add: stages_def)
  qed
qed (simp add: stages_def)

lemma stages_sequence:
  assumes "buf t = []" "length (concat ds) \<le> capacity t" "capacity t < 2 ^ 64"
  shows "buf (stages (in_sequence 0 ds) t) = concat ds"
  using stages_buf [of "in_sequence 0 ds" t] accepted_sequence [of 0 ds "capacity t"] assms by simp

text \<open>The same as requests of a \<^verbatim>\<open>VolumeIo\<close> call on a target that stages its writes.\<close>

lemma stages_Cons: "stages ((d, off) # ws) t = stages ws (snd (stage d off t))"
  by (simp add: stages_def)

lemma staged_session:
  assumes vt: "vt_write vt = (\<lambda>d off (t, w). case stage d off t of (r, t1) \<Rightarrow> (Some r, t1, w))"
    and "n < length (bx_cells b)" "length (buf (bx_cells b ! n)) + length (concat ds) \<le> capacity (bx_cells b ! n)"
    and "capacity (bx_cells b ! n) < 2 ^ 64"
  shows "volume_io_loop (boxed_target vt n)
      (requests (write_requests (in_sequence (length (buf (bx_cells b ! n))) ds) @ qs)) b =
    (case volume_io_loop (boxed_target vt n) (requests qs)
        (b\<lparr>bx_cells := (bx_cells b)
            [n := stages (in_sequence (length (buf (bx_cells b ! n))) ds) (bx_cells b ! n)]\<rparr>) of
       (rs, b1) \<Rightarrow> (map (\<lambda>d. QWrite (Some (Ok (of_nat (length d))))) ds @ rs, b1))"
  using assms(2-)
proof (induction ds arbitrary: b)
  case Nil
  show ?case by (simp add: write_requests_def stages_def split_beta)
next
  case (Cons d ds)
  let ?t = "bx_cells b ! n"
  from Cons.prems have off: "unat (of_nat (length (buf ?t)) :: u64) = length (buf ?t)"
    by (simp add: unat_of_nat_u64)
  with accept [of "of_nat (length (buf ?t))" ?t d] Cons.prems obtain t' where
    t': "stage d (of_nat (length (buf ?t))) ?t = (Ok (of_nat (length d)), t')"
      "buf t' = buf ?t @ d" "capacity t' = capacity ?t" by auto
  let ?b = "b\<lparr>bx_cells := (bx_cells b)[n := t']\<rparr>"
  have cell: "bx_cells ?b ! n = t'" using Cons.prems by simp
  have bound: "n < length (bx_cells ?b)"
      "length (buf (bx_cells ?b ! n)) + length (concat ds) \<le> capacity (bx_cells ?b ! n)"
      "capacity (bx_cells ?b ! n) < 2 ^ 64"
    unfolding cell using Cons.prems t' by simp_all
  have wr: "vt_write (boxed_target vt n) d (of_nat (length (buf ?t))) b =
      (Some (Ok (of_nat (length d))), ?b)"
    using t' Cons.prems(1) by (simp add: boxed_target_def on_cell_def vt)
  from Cons.IH [OF bound] t' Cons.prems(1) show ?case
    by (simp add: wr write_requests_def stages_Cons split_beta)
qed

end

subsection \<open>Finding a USB device (boardswarm/src/utils.rs)\<close>

text \<open>\<open>listed\<close> is the list of the nusb library, if it could be had.\<close>

record 'd usb_info =
  bus_number :: "'d \<Rightarrow> u8"
  device_address :: "'d \<Rightarrow> u8"

definition nusb_info_from_bus_dev :: "'d usb_info \<Rightarrow> 'd list option \<Rightarrow> u8 \<Rightarrow> u8 \<Rightarrow> 'd option" where
  "nusb_info_from_bus_dev info listed bus dev =
     Option.bind listed (List.find (\<lambda>d. bus_number info d = bus \<and> device_address info d = dev))"

lemma nusb_info_found:
  "nusb_info_from_bus_dev info listed bus dev = Some d \<Longrightarrow>
     bus_number info d = bus \<and> device_address info d = dev \<and> (\<exists>ds. listed = Some ds \<and> d \<in> set ds)"
  by (cases listed) (auto simp: nusb_info_from_bus_dev_def find_Some_iff)

end
