(* ===== verification/Gpio.thy ===== *)
theory Gpio
  imports Provider_Common
begin

section \<open>The GPIO provider (boardswarm/src/gpio.rs)\<close>

text \<open>
  The configured lines of the first GPIO chip that matches become actuators: those given by
  number, then those given by name. The gpiod library is the record \<open>gpiod\<close>. The code unwraps
  the results of the library, so a failing line panics the provider. The lemmas: which actuators
  a chip gets and in which order, that the provider holds one chip at a time and unregisters
  exactly its actuators, and that the first line of a chip is never found by its name.
\<close>

subsection \<open>Parameters and the library\<close>

record Line =
  line_name :: "string option"
  line_number :: "u32 option"
  gl_name :: string

record GpioParameters =
  gpio_match :: "(string \<times> string) list"
  gpio_lines :: "Line list"

definition lines_by_number :: "GpioParameters \<Rightarrow> Line list" where
  "lines_by_number ps = filter (\<lambda>l. line_number l \<noteq> None) (gpio_lines ps)"

definition lines_by_name :: "GpioParameters \<Rightarrow> Line list" where
  "lines_by_name ps = filter (\<lambda>l. line_name l \<noteq> None) (gpio_lines ps)"

record ('c, 'l, 'e, 'w) gpiod =
  gp_open :: "string \<Rightarrow> 'w \<Rightarrow> ('e, 'c) result \<times> 'w"
  gp_label :: "'c \<Rightarrow> string"
  gp_num_lines :: "'c \<Rightarrow> u32"
  gp_line_name :: "'c \<Rightarrow> u32 \<Rightarrow> 'w \<Rightarrow> ('e, string) result \<times> 'w"
  gp_request :: "'c \<Rightarrow> u32 \<Rightarrow> 'w \<Rightarrow> ('e, 'l) result \<times> 'w"
  gp_set_value :: "'l \<Rightarrow> bool \<Rightarrow> 'w \<Rightarrow> ('e, unit) result \<times> 'w"

subsection \<open>A line\<close>

text \<open>\<open>actuator_of\<close> makes the actuator of a requested line; its method is \<open>gpio_set_mode\<close>.\<close>

definition gpio_set_mode ::
  "('c, 'l, 'e, 'w) gpiod \<Rightarrow> ('p \<Rightarrow> bool option) \<Rightarrow> 'l \<Rightarrow> 'p \<Rightarrow> 'w \<Rightarrow> (ActuatorError, unit) result outcome \<times> 'w" where
  "gpio_set_mode lib decode line params w =
     (case decode params of
        None \<Rightarrow> (Panicked, w)
      | Some v \<Rightarrow>
          (case gp_set_value lib line v w of
             (Err e, w1) \<Rightarrow> (Panicked, w1) | (Ok _, w1) \<Rightarrow> (Done (Ok ()), w1)))"

type_synonym ('p, 'w) gpio_world = "('p, 'w) Server \<times> 'w"

definition line_properties :: "string \<Rightarrow> string \<Rightarrow> u32 \<Rightarrow> Properties \<Rightarrow> Properties" where
  "line_properties name info_name line props =
     (let props1 = properties_insert props NAME name;
          props2 = (if info_name = [] then props1 else properties_insert props1 ''gpio.line_name'' info_name)
      in properties_insert props2 ''gpio.line_number'' (show_nat (unat line)))"

definition setup_gpio_line ::
  "('c, 'l, 'e, 'w) gpiod \<Rightarrow> ('l \<Rightarrow> ('p, 'w) Actuator) \<Rightarrow> 'c \<Rightarrow> u32 \<Rightarrow> string \<Rightarrow> Properties \<Rightarrow>
   ('p, 'w) gpio_world \<Rightarrow> (ActuatorId \<times> ('p, 'w) gpio_world) outcome" where
  "setup_gpio_line lib actuator_of chip line name props sw =
     (case sw of (s, w) \<Rightarrow>
        (case gp_line_name lib chip line w of
           (Err e, w1) \<Rightarrow> Panicked
         | (Ok info_name, w1) \<Rightarrow>
             (case gp_request lib chip line w1 of
                (Err e, w2) \<Rightarrow> Panicked
              | (Ok l, w2) \<Rightarrow>
                  (let (i, s1) = register_actuator (line_properties name info_name line props) (actuator_of l) s
                   in Done (i, s1, w2)))))"

subsection \<open>A chip\<close>

text \<open>The loop over the lines given by number, and that over the lines of the chip.\<close>

fun setup_numbered ::
  "('c, 'l, 'e, 'w) gpiod \<Rightarrow> ('l \<Rightarrow> ('p, 'w) Actuator) \<Rightarrow> 'c \<Rightarrow> Properties \<Rightarrow> Line list \<Rightarrow>
   ActuatorId list \<Rightarrow> ('p, 'w) gpio_world \<Rightarrow> (ActuatorId list \<times> ('p, 'w) gpio_world) outcome" where
  "setup_numbered lib actuator_of chip props [] ids sw = Done (ids, sw)"
| "setup_numbered lib actuator_of chip props (l # ls) ids sw =
     (case line_number l of
        None \<Rightarrow> Panicked
      | Some n \<Rightarrow>
          (case setup_gpio_line lib actuator_of chip n (gl_name l) props sw of
             Panicked \<Rightarrow> Panicked
           | Done (i, sw1) \<Rightarrow> setup_numbered lib actuator_of chip props ls (ids @ [i]) sw1))"

fun setup_named ::
  "('c, 'l, 'e, 'w) gpiod \<Rightarrow> ('l \<Rightarrow> ('p, 'w) Actuator) \<Rightarrow> 'c \<Rightarrow> Properties \<Rightarrow> Line list \<Rightarrow> u32 list \<Rightarrow>
   ActuatorId list \<Rightarrow> ('p, 'w) gpio_world \<Rightarrow> (ActuatorId list \<times> ('p, 'w) gpio_world) outcome" where
  "setup_named lib actuator_of chip props named [] ids sw = Done (ids, sw)"
| "setup_named lib actuator_of chip props named (i # is) ids (s, w) =
     (case gp_line_name lib chip i w of
        (Err e, w1) \<Rightarrow> Panicked
      | (Ok name, w1) \<Rightarrow>
          (case List.find (\<lambda>l. line_name l = Some name) named of
             None \<Rightarrow> setup_named lib actuator_of chip props named is ids (s, w1)
           | Some l \<Rightarrow>
               (case setup_gpio_line lib actuator_of chip i (gl_name l) props (s, w1) of
                  Panicked \<Rightarrow> Panicked
                | Done (j, sw1) \<Rightarrow> setup_named lib actuator_of chip props named is (ids @ [j]) sw1)))"

text \<open>\<^verbatim>\<open>1..chip.num_lines()\<close>\<close>

definition scanned_lines :: "u32 \<Rightarrow> u32 list" where
  "scanned_lines n = map of_nat [1..<unat n]"

definition setup_gpio_chip ::
  "('c, 'l, 'e, 'w) gpiod \<Rightarrow> ('l \<Rightarrow> ('p, 'w) Actuator) \<Rightarrow> string \<Rightarrow> GpioParameters \<Rightarrow> Properties \<Rightarrow>
   ('p, 'w) gpio_world \<Rightarrow> (ActuatorId list option \<times> ('p, 'w) gpio_world) outcome" where
  "setup_gpio_chip lib actuator_of path ps props sw =
     (case sw of (s, w) \<Rightarrow>
        (case gp_open lib path w of
           (Err e, w1) \<Rightarrow> Done (None, s, w1)
         | (Ok chip, w1) \<Rightarrow>
             (let props1 = properties_insert props ''gpio.chip_label'' (gp_label lib chip) in
              case setup_numbered lib actuator_of chip props1 (lines_by_number ps) [] (s, w1) of
                Panicked \<Rightarrow> Panicked
              | Done (ids, sw2) \<Rightarrow>
                  (case (if lines_by_name ps \<noteq> []
                         then setup_named lib actuator_of chip props1 (lines_by_name ps)
                                (scanned_lines (gp_num_lines lib chip)) ids sw2
                         else Done (ids, sw2)) of
                     Panicked \<Rightarrow> Panicked
                   | Done (ids1, sw3) \<Rightarrow> Done (Some ids1, sw3)))))"

subsection \<open>The event loop\<close>

type_synonym gpio_registration = "(string \<times> ActuatorId list) option"

definition unregister_actuators :: "ActuatorId list \<Rightarrow> ('p, 'w) Server \<Rightarrow> ('p, 'w) Server" where
  "unregister_actuators ids s = fold unregister_actuator ids s"

fun gpio_event ::
  "('c, 'l, 'e, 'w) gpiod \<Rightarrow> ('l \<Rightarrow> ('p, 'w) Actuator) \<Rightarrow> (udev_device \<Rightarrow> string option) \<Rightarrow> string \<Rightarrow>
   GpioParameters \<Rightarrow> DeviceEvent \<Rightarrow> gpio_registration \<times> ('p, 'w) gpio_world \<Rightarrow>
   (gpio_registration \<times> ('p, 'w) gpio_world) outcome" where
  "gpio_event lib actuator_of devnode provider_name ps (EventAdded device seqnum) (reg, sw) =
     (if reg \<noteq> None then Done (reg, sw)
      else case devnode device of
             None \<Rightarrow> Done (reg, sw)
           | Some path \<Rightarrow>
               (case file_name path of
                  None \<Rightarrow> Done (reg, sw)
                | Some name \<Rightarrow>
                    (let props = udev_properties device name in
                     if \<not> properties_matches props (gpio_match ps) then Done (reg, sw)
                     else case setup_gpio_chip lib actuator_of path ps
                                 (properties_extend props [(PROVIDER_NAME, provider_name), (PROVIDER, ''gpio'')]) sw of
                            Panicked \<Rightarrow> Panicked
                          | Done (None, sw1) \<Rightarrow> Done (reg, sw1)
                          | Done (Some ids, sw1) \<Rightarrow> Done (Some (ud_syspath device, ids), sw1))))"
| "gpio_event lib actuator_of devnode provider_name ps (EventRemoved device) (reg, s, w) =
     (case reg of
        None \<Rightarrow> Done (reg, s, w)
      | Some (p, ids) \<Rightarrow>
          (if ud_syspath device = p then Done (None, unregister_actuators ids s, w) else Done (reg, s, w)))"

definition gpio_run where
  "gpio_run lib actuator_of devnode provider_name ps =
     run_steps (gpio_event lib actuator_of devnode provider_name ps)"

subsection \<open>The actuators of a chip\<close>

text \<open>The lines that are set up, with their names, on a chip whose lines are named by \<open>nm\<close>.\<close>

definition gpio_plan :: "(u32 \<Rightarrow> string) \<Rightarrow> u32 \<Rightarrow> GpioParameters \<Rightarrow> (u32 \<times> string) list" where
  "gpio_plan nm n ps =
     map (\<lambda>l. (the (line_number l), gl_name l)) (lines_by_number ps) @
     List.map_filter (\<lambda>i. map_option (\<lambda>l. (i, gl_name l))
         (List.find (\<lambda>l. line_name l = Some (nm i)) (lines_by_name ps))) (scanned_lines n)"

text \<open>The actuators \<open>ids\<close> were registered for \<open>plan\<close>, in this order.\<close>

definition actuators_for ::
  "(u32 \<times> string) list \<Rightarrow> ActuatorId list \<Rightarrow> ('p, 'w) Server \<Rightarrow> ('p, 'w) Server \<Rightarrow> bool" where
  "actuators_for plan ids s s' \<longleftrightarrow>
     (\<exists>items. registers (actuators s) items (actuators s') \<and> map fst items = ids \<and>
        map (\<lambda>(i, it). (properties_get (item_properties it) NAME,
            properties_get (item_properties it) ''gpio.line_number'')) items =
          map (\<lambda>(n, name). (Some name, Some (show_nat (unat n)))) plan)"

lemma actuators_for_nil [simp]: "actuators_for [] [] s s"
  by (auto simp: actuators_for_def intro: exI [of _ "[]"])

lemma actuators_for_snoc:
  assumes "actuators_for plan ids s0 s"
  shows "actuators_for (plan @ [(n, name)]) (ids @ [next_id (actuators s)]) s0
    (snd (register_actuator (line_properties name info n props) a s))"
proof -
  from assms obtain items where "registers (actuators s0) items (actuators s)" "map fst items = ids"
    "map (\<lambda>(i, it). (properties_get (item_properties it) NAME,
            properties_get (item_properties it) ''gpio.line_number'')) items =
          map (\<lambda>(n, name). (Some name, Some (show_nat (unat n)))) plan"
    by (auto simp: actuators_for_def)
  moreover have "properties_get (line_properties name info n props) NAME = Some name"
    "properties_get (line_properties name info n props) ''gpio.line_number'' = Some (show_nat (unat n))"
    by (simp_all add: line_properties_def Let_def NAME_def)
  ultimately show ?thesis unfolding actuators_for_def
    by (intro exI [of _ "items @ [(next_id (actuators s), item_new (line_properties name info n props) a)]"])
      (use registers_snoc in \<open>simp add: item_new_def [symmetric]\<close>, simp add: item_new_def)
qed

lemma setup_line_done:
  "setup_gpio_line lib actuator_of chip n name props (s, w) = Done (i, sw') \<Longrightarrow>
   \<exists>info a. i = next_id (actuators s) \<and> fst sw' = snd (register_actuator (line_properties name info n props) a s)"
  by (auto simp: setup_gpio_line_def Let_def split_beta split: prod.splits sum.splits)
    (intro exI, rule refl)

lemma setup_line_for:
  assumes "setup_gpio_line lib actuator_of chip n name props sw = Done (i, sw')" "actuators_for plan ids s0 (fst sw)"
  shows "actuators_for (plan @ [(n, name)]) (ids @ [i]) s0 (fst sw')"
  using setup_line_done [of lib actuator_of chip n name props "fst sw" "snd sw" i sw'] assms
  by (auto intro: actuators_for_snoc)

lemma numbered_for:
  "setup_numbered lib actuator_of chip props ls ids sw = Done (ids', sw') \<Longrightarrow> actuators_for plan ids s0 (fst sw) \<Longrightarrow>
   actuators_for (plan @ map (\<lambda>l. (the (line_number l), gl_name l)) ls) ids' s0 (fst sw')"
proof (induction ls arbitrary: ids sw plan)
  case (Cons l ls)
  from Cons.prems(1) obtain n i sw1 where n: "line_number l = Some n"
    "setup_gpio_line lib actuator_of chip n (gl_name l) props sw = Done (i, sw1)"
    "setup_numbered lib actuator_of chip props ls (ids @ [i]) sw1 = Done (ids', sw')"
    by (auto split: option.splits outcome.splits prod.splits)
  from Cons.IH [OF n(3) setup_line_for [OF n(2) Cons.prems(2)]] n(1) show ?case by simp
qed simp

definition named_plan :: "(u32 \<Rightarrow> string) \<Rightarrow> Line list \<Rightarrow> u32 list \<Rightarrow> (u32 \<times> string) list" where
  "named_plan nm named is = List.map_filter (\<lambda>i. map_option (\<lambda>l. (i, gl_name l))
         (List.find (\<lambda>l. line_name l = Some (nm i)) named)) is"

lemma named_for:
  assumes "\<And>i w name w'. gp_line_name lib chip i w = (Ok name, w') \<Longrightarrow> name = nm i"
  shows "setup_named lib actuator_of chip props named is ids sw = Done (ids', sw') \<Longrightarrow>
    actuators_for plan ids s0 (fst sw) \<Longrightarrow>
    actuators_for (plan @ named_plan nm named is) ids' s0 (fst sw')"
proof (induction "is" arbitrary: ids sw plan)
  case (Cons i "is")
  obtain s w where sw: "sw = (s, w)" by force
  from Cons.prems(1) obtain name w1 where name: "gp_line_name lib chip i w = (Ok name, w1)"
    unfolding sw by (auto split: prod.splits sum.splits)
  with assms have nm: "name = nm i" by blast
  show ?case
  proof (cases "List.find (\<lambda>l. line_name l = Some name) named")
    case None
    with Cons.prems(1) name have "setup_named lib actuator_of chip props named is ids (s, w1) = Done (ids', sw')"
      by (simp add: sw)
    with Cons.IH [OF this] Cons.prems(2) None nm show ?thesis
      by (simp add: named_plan_def List.map_filter_simps sw)
  next
    case (Some l)
    with Cons.prems(1) name obtain j sw1 where j:
      "setup_gpio_line lib actuator_of chip i (gl_name l) props (s, w1) = Done (j, sw1)"
      "setup_named lib actuator_of chip props named is (ids @ [j]) sw1 = Done (ids', sw')"
      by (auto simp: sw split: outcome.splits prod.splits)
    have "actuators_for plan ids s0 (fst (s, w1))" using Cons.prems(2) sw by simp
    from Cons.IH [OF j(2) setup_line_for [OF j(1) this]] Some nm show ?thesis
      by (simp add: named_plan_def List.map_filter_simps)
  qed
qed (simp add: named_plan_def List.map_filter_simps)

text \<open>
  C27. A chip that is set up gets one actuator for every line the configuration gives by number,
  in its order, and then one for every line of the chip but the first whose name the
  configuration gives, in the order of the lines, with the name of its first entry; each
  actuator carries the number of its line.
\<close>

theorem gpio_chip_actuators:
  assumes "setup_gpio_chip lib actuator_of path ps props (s, w) = Done (Some ids, s', w')"
    and "gp_open lib path w = (Ok chip, w1)"
    and "\<And>i w name w'. gp_line_name lib chip i w = (Ok name, w') \<Longrightarrow> name = nm i"
  shows "actuators_for (gpio_plan nm (gp_num_lines lib chip) ps) ids s s' \<and>
    (0, name) \<notin> set (named_plan nm (lines_by_name ps) (scanned_lines (gp_num_lines lib chip)))"
proof
  let ?props = "properties_insert props ''gpio.chip_label'' (gp_label lib chip)"
  let ?is = "scanned_lines (gp_num_lines lib chip)" and ?named = "lines_by_name ps"
  from assms(1,2) obtain ids1 sw1 where n:
    "setup_numbered lib actuator_of chip ?props (lines_by_number ps) [] (s, w1) = Done (ids1, sw1)"
    "(if ?named \<noteq> [] then setup_named lib actuator_of chip ?props ?named ?is ids1 sw1 else Done (ids1, sw1))
       = Done (ids, s', w')"
    by (auto simp: setup_gpio_chip_def Let_def split: outcome.splits prod.splits)
  let ?plan = "map (\<lambda>l. (the (line_number l), gl_name l)) (lines_by_number ps)"
  have first: "actuators_for ?plan ids1 s (fst sw1)" using numbered_for [OF n(1), of "[]" s] by simp
  have "actuators_for (?plan @ named_plan nm ?named ?is) ids s s'"
  proof (cases "?named = []")
    case True
    with n(2) first show ?thesis by (simp add: named_plan_def map_filter_def)
  next
    case False
    with n(2) have "setup_named lib actuator_of chip ?props ?named ?is ids1 sw1 = Done (ids, s', w')" by simp
    from named_for [OF assms(3) this first] show ?thesis by simp
  qed
  then show "actuators_for (gpio_plan nm (gp_num_lines lib chip) ps) ids s s'"
    by (simp add: gpio_plan_def named_plan_def)
  have "0 \<notin> set ?is"
  proof
    assume "0 \<in> set ?is"
    then obtain k where k: "1 \<le> k" "k < unat (gp_num_lines lib chip)" "(of_nat k :: u32) = 0"
      by (auto simp: scanned_lines_def)
    have "unat (gp_num_lines lib chip) < 2 ^ 32"
      using unsigned_less [of "gp_num_lines lib chip", where 'a = nat] by simp
    with k show False by (auto simp: word_of_nat_eq_0_iff dest: dvd_imp_le)
  qed
  then show "(0, name) \<notin> set (named_plan nm ?named ?is)"
    by (auto simp: named_plan_def map_filter_def)
qed

text \<open>A chip of three named lines, for the examples.\<close>

definition three_lines :: "(unit, u32, unit, unit) gpiod" where
  "three_lines =
     \<lparr>gp_open = (\<lambda>path w. (Ok (), w)), gp_label = (\<lambda>c. ''chip''), gp_num_lines = (\<lambda>c. 3),
      gp_line_name = (\<lambda>c i w. (Ok (if i = 0 then ''a'' else if i = 1 then ''b'' else ''c''), w)),
      gp_request = (\<lambda>c i w. (Ok i, w)), gp_set_value = (\<lambda>l v w. (Ok (), w))\<rparr>"

definition example_lines :: GpioParameters where
  "example_lines = \<lparr>gpio_match = [], gpio_lines =
     [\<lparr>line_name = Some ''a'', line_number = None, gl_name = ''power''\<rparr>,
      \<lparr>line_name = Some ''c'', line_number = None, gl_name = ''reset''\<rparr>,
      \<lparr>line_name = None, line_number = Some 1, gl_name = ''boot''\<rparr>]\<rparr>"

lemma gpio_chip_actuators_witness:
  "\<exists>ids s'. setup_gpio_chip three_lines (\<lambda>l. \<lparr>act_set_mode = \<lambda>p w. (Ok (), w)\<rparr>) ''/dev/gpiochip0''
      example_lines (properties_new ''gpiochip0'') (server_new [] ''/etc'' :: (unit, unit) Server, ()) =
      Done (Some ids, s', ()) \<and>
    actuators_for [(1, ''boot''), (2, ''reset'')] ids (server_new [] ''/etc'' :: (unit, unit) Server) s'"
proof -
  let ?s = "server_new [] ''/etc'' :: (unit, unit) Server"
  let ?act = "\<lambda>l :: u32. \<lparr>act_set_mode = \<lambda>p w. (Ok (), w)\<rparr> :: (unit, unit) Actuator"
  let ?nm = "\<lambda>i :: u32. if i = 0 then ''a'' else if i = 1 then ''b'' else ''c''"
  have scan: "scanned_lines 3 = [1, 2]" by (simp add: scanned_lines_def upt_rec)
  have lines: "lines_by_number example_lines = [\<lparr>line_name = None, line_number = Some 1, gl_name = ''boot''\<rparr>]"
    "lines_by_name example_lines = [\<lparr>line_name = Some ''a'', line_number = None, gl_name = ''power''\<rparr>,
      \<lparr>line_name = Some ''c'', line_number = None, gl_name = ''reset''\<rparr>]"
    by (simp_all add: lines_by_number_def lines_by_name_def example_lines_def)
  obtain ids s' where run: "setup_gpio_chip three_lines ?act ''/dev/gpiochip0'' example_lines
      (properties_new ''gpiochip0'') (?s, ()) = Done (Some ids, s', ())"
    by (simp add: setup_gpio_chip_def lines three_lines_def setup_gpio_line_def scan Let_def split_beta)
  have plan: "gpio_plan ?nm 3 example_lines = [(1, ''boot''), (2, ''reset'')]"
    by (simp add: gpio_plan_def lines scan List.map_filter_simps)
  have chip: "gp_open three_lines ''/dev/gpiochip0'' () = (Ok (), ())" "gp_num_lines three_lines () = 3"
    by (simp_all add: three_lines_def)
  have names: "name = ?nm i" if "gp_line_name three_lines () i w = (Ok name, w')" for i w name w'
    using that by (simp add: three_lines_def)
  from gpio_chip_actuators [where nm = ?nm, OF run chip(1) names] plan chip(2)
  have "actuators_for [(1, ''boot''), (2, ''reset'')] ids ?s s'" by simp
  with run show ?thesis by blast
qed

subsection \<open>One chip at a time\<close>

text \<open>The actuators of the registration, and those of others.\<close>

definition gpio_inv ::
  "ActuatorId set \<Rightarrow> gpio_registration \<times> ('p, 'w) gpio_world \<Rightarrow> bool" where
  "gpio_inv others st = (case st of (reg, s, w) \<Rightarrow>
     let mine = (case reg of None \<Rightarrow> [] | Some (p, ids) \<Rightarrow> ids)
     in registry_inv (actuators s) \<and> {i. registry_lookup (actuators s) i \<noteq> None} = others \<union> set mine \<and>
        others \<inter> set mine = {} \<and> distinct mine)"

lemma line_registers:
  assumes "setup_gpio_line lib actuator_of chip n name props sw = Done (i, sw')"
    and "registers r items (actuators (fst sw))"
  shows "\<exists>items'. registers r items' (actuators (fst sw')) \<and> map fst items' = map fst items @ [i]"
proof -
  from setup_line_done [of lib actuator_of chip n name props "fst sw" "snd sw" i sw'] assms(1) obtain info a where
    "i = next_id (actuators (fst sw))"
    "fst sw' = snd (register_actuator (line_properties name info n props) a (fst sw))" by auto
  with registers_snoc [OF assms(2)] show ?thesis
    by (intro exI [of _ "items @ [(i, item_new (line_properties name info n props) a)]"]) simp
qed

lemma numbered_registers:
  "setup_numbered lib actuator_of chip props ls ids sw = Done (ids', sw') \<Longrightarrow>
   registers r items (actuators (fst sw)) \<Longrightarrow> map fst items = ids \<Longrightarrow>
   \<exists>items'. registers r items' (actuators (fst sw')) \<and> map fst items' = ids'"
proof (induction ls arbitrary: ids sw items)
  case (Cons l ls)
  from Cons.prems(1) obtain n i sw1 where n:
    "setup_gpio_line lib actuator_of chip n (gl_name l) props sw = Done (i, sw1)"
    "setup_numbered lib actuator_of chip props ls (ids @ [i]) sw1 = Done (ids', sw')"
    by (auto split: option.splits outcome.splits prod.splits)
  from line_registers [OF n(1) Cons.prems(2)] Cons.prems(3) Cons.IH [OF n(2)] show ?case by auto
qed auto

lemma named_registers:
  "setup_named lib actuator_of chip props named is ids sw = Done (ids', sw') \<Longrightarrow>
   registers r items (actuators (fst sw)) \<Longrightarrow> map fst items = ids \<Longrightarrow>
   \<exists>items'. registers r items' (actuators (fst sw')) \<and> map fst items' = ids'"
proof (induction "is" arbitrary: ids sw items)
  case (Cons i "is")
  obtain s w where sw: "sw = (s, w)" by force
  from Cons.prems(1) obtain name w1 where name: "gp_line_name lib chip i w = (Ok name, w1)"
    unfolding sw by (auto split: prod.splits sum.splits)
  show ?case
  proof (cases "List.find (\<lambda>l. line_name l = Some name) named")
    case None
    with Cons.prems(1) name have "setup_named lib actuator_of chip props named is ids (s, w1) = Done (ids', sw')"
      by (simp add: sw)
    from Cons.IH [OF this] Cons.prems sw show ?thesis by simp
  next
    case (Some l)
    with Cons.prems(1) name obtain j sw1 where j:
      "setup_gpio_line lib actuator_of chip i (gl_name l) props (s, w1) = Done (j, sw1)"
      "setup_named lib actuator_of chip props named is (ids @ [j]) sw1 = Done (ids', sw')"
      by (auto simp: sw split: outcome.splits prod.splits)
    have "registers r items (actuators (fst (s, w1)))" using Cons.prems(2) sw by simp
    from line_registers [OF j(1) this] Cons.prems(3) Cons.IH [OF j(2)] show ?thesis by auto
  qed
qed auto

lemma chip_registers:
  assumes "setup_gpio_chip lib actuator_of path ps props sw = Done (r, sw')"
  shows "\<exists>items. registers (actuators (fst sw)) items (actuators (fst sw')) \<and>
    map fst items = (case r of None \<Rightarrow> [] | Some ids \<Rightarrow> ids)"
proof -
  obtain s w where sw: "sw = (s, w)" by force
  show ?thesis
  proof (cases "gp_open lib path w")
    case (Pair o1 w1)
    show ?thesis
    proof (cases o1)
      case (Inl e)
      with assms Pair sw show ?thesis by (auto simp: setup_gpio_chip_def intro: exI [of _ "[]"])
    next
      case (Inr chip)
      let ?props = "properties_insert props ''gpio.chip_label'' (gp_label lib chip)"
      from assms Pair Inr sw obtain ids ids1 sw1 where n: "r = Some ids"
        "setup_numbered lib actuator_of chip ?props (lines_by_number ps) [] (s, w1) = Done (ids1, sw1)"
        "(if lines_by_name ps \<noteq> [] then setup_named lib actuator_of chip ?props (lines_by_name ps)
            (scanned_lines (gp_num_lines lib chip)) ids1 sw1 else Done (ids1, sw1)) = Done (ids, sw')"
        by (auto simp: setup_gpio_chip_def Let_def split: outcome.splits prod.splits)
      from numbered_registers [OF n(2), of "actuators s" "[]"] obtain items where
        "registers (actuators s) items (actuators (fst sw1))" "map fst items = ids1" by auto
      with named_registers [of lib actuator_of chip ?props "lines_by_name ps" _ ids1 sw1 ids sw' "actuators s" items] n(1,3) sw
      show ?thesis by (auto split: if_splits)
    qed
  qed
qed

definition gpio_adds :: "gpio_registration \<times> ('p, 'w) gpio_world \<Rightarrow> nat" where
  "gpio_adds st = length (added_ids (monitor (actuators (fst (snd st)))))"

lemma unregister_actuators_eq:
  "actuators (unregister_actuators ids s) = fold registry_remove ids (actuators s)"
  by (induction ids arbitrary: s) (simp_all add: unregister_actuators_def)

lemma fold_remove:
  "registry_lookup (fold registry_remove is r) i = (if i \<in> set is then None else registry_lookup r i)"
  "registry_inv r \<Longrightarrow> registry_inv (fold registry_remove is r)"
  "added_ids (monitor (fold registry_remove is r)) = added_ids (monitor r)"
  by (induction "is" arbitrary: r) (auto intro: registry_inv_remove)

text \<open>An event leaves the state alone, sets up a chip, or takes one away.\<close>

lemma gpio_event_cases:
  assumes "gpio_event lib actuator_of devnode nm ps ev (reg, s, w) = Done (reg', s', w')"
  shows "reg' = reg \<and> actuators s' = actuators s \<or>
    (\<exists>p items. reg = None \<and> reg' = Some (p, map fst items) \<and> registers (actuators s) items (actuators s')) \<or>
    (\<exists>p ids. reg = Some (p, ids) \<and> reg' = None \<and> s' = unregister_actuators ids s)"
proof (cases ev)
  case (EventRemoved device)
  with assms show ?thesis by (auto split: option.splits if_splits)
next
  case (EventAdded device seqnum)
  show ?thesis
  proof (cases "reg = None \<and> reg' \<noteq> None")
    case True
    with assms EventAdded obtain path props ids where chip:
      "setup_gpio_chip lib actuator_of path ps props (s, w) = Done (Some ids, s', w')"
      "reg' = Some (ud_syspath device, ids)"
      by (auto simp: Let_def split: option.splits if_splits outcome.splits)
    from chip_registers [OF chip(1)] chip(2) True show ?thesis by auto
  next
    case False
    with assms EventAdded show ?thesis
      by (auto simp: Let_def split: option.splits if_splits outcome.splits dest!: chip_registers)
  qed
qed

lemma gpio_event_adds:
  assumes "gpio_event lib actuator_of devnode nm ps ev st = Done st'"
  shows "gpio_adds st \<le> gpio_adds st'"
proof -
  obtain reg s w where st: "st = (reg, s, w)" by (cases st)
  obtain reg' s' w' where st': "st' = (reg', s', w')" by (cases st')
  from gpio_event_cases [OF assms [unfolded st st']] show ?thesis
    by (auto simp: st st' gpio_adds_def unregister_actuators_eq fold_remove dest: registers_adds)
qed

lemma gpio_event_inv:
  assumes event: "gpio_event lib actuator_of devnode nm ps ev st = Done st'"
    and inv: "gpio_inv others st" and bound: "gpio_adds st' < 2 ^ 64"
  shows "gpio_inv others st'"
proof -
  obtain reg s w where st: "st = (reg, s, w)" by (cases st)
  obtain reg' s' w' where st': "st' = (reg', s', w')" by (cases st')
  from gpio_event_cases [OF event [unfolded st st']] show ?thesis
  proof (elim disjE exE conjE)
    assume "reg' = reg" "actuators s' = actuators s"
    with inv show ?thesis by (simp add: st st' gpio_inv_def Let_def)
  next
    fix p items
    assume reg: "reg = None" "reg' = Some (p, map fst items)" "registers (actuators s) items (actuators s')"
    with inv bound registers_live [OF reg(3)] show ?thesis
      by (auto simp: st st' gpio_inv_def gpio_adds_def Let_def)
  next
    fix p ids
    assume reg: "reg = Some (p, ids)" "reg' = None" "s' = unregister_actuators ids s"
    with inv show ?thesis
      by (auto simp: st st' gpio_inv_def unregister_actuators_eq fold_remove split: if_splits)
  qed
qed

lemma gpio_run_step:
  "gpio_run lib actuator_of devnode nm ps (ev # evs) st = Done st' \<longleftrightarrow>
   (\<exists>st1. gpio_event lib actuator_of devnode nm ps ev st = Done st1 \<and>
      gpio_run lib actuator_of devnode nm ps evs st1 = Done st')"
  by (auto simp: gpio_run_def split: outcome.splits)

lemma gpio_run_adds: "gpio_run lib actuator_of devnode nm ps evs st = Done st' \<Longrightarrow> gpio_adds st \<le> gpio_adds st'"
proof (induction evs arbitrary: st)
  case (Cons ev evs)
  then show ?case by (meson gpio_event_adds gpio_run_step order_trans)
qed (simp add: gpio_run_def)

lemma gpio_run_inv:
  "gpio_run lib actuator_of devnode nm ps evs st = Done st' \<Longrightarrow> gpio_inv others st \<Longrightarrow>
   gpio_adds st' < 2 ^ 64 \<Longrightarrow> gpio_inv others st'"
proof (induction evs arbitrary: st)
  case (Cons ev evs)
  then obtain st1 where st1: "gpio_event lib actuator_of devnode nm ps ev st = Done st1"
    "gpio_run lib actuator_of devnode nm ps evs st1 = Done st'" by (auto simp: gpio_run_step)
  from gpio_run_adds [OF st1(2)] Cons.prems(3) have "gpio_adds st1 < 2 ^ 64" by simp
  from Cons.IH [OF st1(2) gpio_event_inv [OF st1(1) Cons.prems(2) this] Cons.prems(3)] show ?case .
qed (simp add: gpio_run_def)

text \<open>
  The provider holds one chip at a time and owns exactly its actuators: after any events that
  did not panic it, the server has the actuators it had before and those of the chip it holds,
  none when it holds none.
\<close>

lemma gpio_owns_one_chip:
  assumes "gpio_run lib actuator_of devnode nm ps evs (None, s, w) = Done (reg, s', w')"
    and "registry_inv (actuators s)" and "length (added_ids (monitor (actuators s'))) < 2 ^ 64"
  shows "let mine = (case reg of None \<Rightarrow> [] | Some (p, ids) \<Rightarrow> ids) in
    set (registry_ids (actuators s')) = set (registry_ids (actuators s)) \<union> set mine \<and>
    set (registry_ids (actuators s)) \<inter> set mine = {} \<and> distinct mine"
proof -
  have "gpio_inv (set (registry_ids (actuators s))) (None :: gpio_registration, s, w)"
    using assms(2) by (simp add: gpio_inv_def live_ids)
  from gpio_run_inv [OF assms(1) this] assms(3) show ?thesis
    by (simp add: gpio_inv_def gpio_adds_def live_ids Let_def)
qed

end
