(* ===== verification/Pdudaemon.thy ===== *)
theory Pdudaemon
  imports Provider_Common
begin

section \<open>The PDUDaemon provider (boardswarm/src/pdudaemon.rs)\<close>

text \<open>
  Every port of the configured power distribution units becomes an actuator when the server
  starts. The pdudaemon_client library is the record \<open>pdu_lib\<close>. The lemmas: which actuators are
  registered, and what setting a mode does on every branch.
\<close>

datatype Ports = NumPorts u16 | NamedPorts "string list"

record Pdu =
  pdu_name :: string
  pdu_ports :: Ports

record PduDaemonParameters =
  pdu_uri :: string
  pdus :: "Pdu list"

record ('d, 'e, 'w) pdu_lib =
  pl_new :: "string \<Rightarrow> 'd option"
  pl_on :: "'d \<Rightarrow> string \<Rightarrow> string \<Rightarrow> 'w \<Rightarrow> ('e, unit) result \<times> 'w"
  pl_off :: "'d \<Rightarrow> string \<Rightarrow> string \<Rightarrow> 'w \<Rightarrow> ('e, unit) result \<times> 'w"

record 'd PduDaemonActuator =
  pa_daemon :: 'd
  pa_hostname :: string
  pa_port :: string

text \<open>\<open>decode\<close> is the deserialization of the parameters; \<^verbatim>\<open>todo!()\<close> panics.\<close>

definition pdu_set_mode ::
  "('d, 'e, 'w) pdu_lib \<Rightarrow> ('p \<Rightarrow> string option) \<Rightarrow> 'd PduDaemonActuator \<Rightarrow> 'p \<Rightarrow> 'w \<Rightarrow>
   (ActuatorError, unit) result outcome \<times> 'w" where
  "pdu_set_mode lib decode a params w =
     (case decode params of
        None \<Rightarrow> (Panicked, w)
      | Some mode \<Rightarrow>
          (if mode = ''on''
           then (case pl_on lib (pa_daemon a) (pa_hostname a) (pa_port a) w of
                   (r, w1) \<Rightarrow> (Done (map_err (\<lambda>_. ActuatorError) r), w1))
           else if mode = ''off''
           then (case pl_off lib (pa_daemon a) (pa_hostname a) (pa_port a) w of
                   (r, w1) \<Rightarrow> (Done (map_err (\<lambda>_. ActuatorError) r), w1))
           else (Panicked, w)))"

text \<open>\<open>actuator_of\<close> makes a trait object of an actuator; its method is \<open>pdu_set_mode\<close>.\<close>

definition pdu_properties :: "string \<Rightarrow> string \<Rightarrow> string \<Rightarrow> Properties" where
  "pdu_properties name pdu port =
     properties_insert (properties_insert
       (properties_extend (properties_new (name @ ''.'' @ pdu @ ''.port-'' @ port))
          [(PROVIDER_NAME, name), (PROVIDER, ''pdudaemon'')])
       ''pdudaemon.pdu'' pdu) ''pdudaemon.port'' port"

definition setup_pdu_actuator ::
  "('d PduDaemonActuator \<Rightarrow> ('p, 'w) Actuator) \<Rightarrow> 'd \<Rightarrow> string \<Rightarrow> string \<Rightarrow> string \<Rightarrow>
   ('p, 'w) Server \<Rightarrow> ('p, 'w) Server" where
  "setup_pdu_actuator actuator_of daemon name pdu port s =
     snd (register_actuator (pdu_properties name pdu port)
       (actuator_of \<lparr>pa_daemon = daemon, pa_hostname = pdu, pa_port = port\<rparr>) s)"

text \<open>\<^verbatim>\<open>1..=ports\<close>, or the listed ports.\<close>

fun port_names :: "Ports \<Rightarrow> string list" where
  "port_names (NumPorts n) = map show_nat [1..<Suc (unat n)]"
| "port_names (NamedPorts ps) = ps"

definition pdudaemon_start ::
  "('d, 'e, 'w) pdu_lib \<Rightarrow> ('d PduDaemonActuator \<Rightarrow> ('p, 'w) Actuator) \<Rightarrow> string \<Rightarrow> PduDaemonParameters \<Rightarrow>
   ('p, 'w) Server \<Rightarrow> ('p, 'w) Server outcome" where
  "pdudaemon_start lib actuator_of name params s =
     (case pl_new lib (pdu_uri params) of
        None \<Rightarrow> Panicked
      | Some daemon \<Rightarrow>
          Done (fold (\<lambda>pdu. fold (\<lambda>port. setup_pdu_actuator actuator_of daemon name (pdu_name pdu) port)
                  (port_names (pdu_ports pdu))) (pdus params) s))"

subsection \<open>What is registered\<close>

definition pdu_outlets :: "PduDaemonParameters \<Rightarrow> (string \<times> string) list" where
  "pdu_outlets params = concat (map (\<lambda>pdu. map (Pair (pdu_name pdu)) (port_names (pdu_ports pdu))) (pdus params))"

lemma pdudaemon_start_outlets:
  fixes s :: "('p, 'w) Server"
  assumes "pl_new lib (pdu_uri params) = Some daemon"
  shows "pdudaemon_start lib actuator_of name params s =
    Done (fold (\<lambda>(pdu, port). setup_pdu_actuator actuator_of daemon name pdu port) (pdu_outlets params) s)"
proof -
  have inner: "fold (\<lambda>(pdu, port). setup_pdu_actuator actuator_of daemon name pdu port) (map (Pair p) ports) s =
      fold (\<lambda>port. setup_pdu_actuator actuator_of daemon name p port) ports s" for p ports s
    by (simp add: fold_map comp_def)
  have "fold (\<lambda>pdu. fold (\<lambda>port. setup_pdu_actuator actuator_of daemon name (pdu_name pdu) port)
      (port_names (pdu_ports pdu))) ps s =
    fold (\<lambda>(pdu, port). setup_pdu_actuator actuator_of daemon name pdu port)
      (concat (map (\<lambda>pdu. map (Pair (pdu_name pdu)) (port_names (pdu_ports pdu))) ps)) s" for ps
    by (induction ps arbitrary: s) (simp_all add: inner)
  with assms show ?thesis by (simp add: pdudaemon_start_def pdu_outlets_def)
qed

lemma pdu_outlets_registered:
  assumes "registers r items (actuators s)" "map fst items = ids"
  shows "\<exists>items'. registers r (items @ items')
      (actuators (fold (\<lambda>(pdu, port). setup_pdu_actuator actuator_of daemon name pdu port) outlets s)) \<and>
    map (item_properties \<circ> snd) items' = map (\<lambda>(pdu, port). pdu_properties name pdu port) outlets"
  using assms
proof (induction outlets arbitrary: s items ids)
  case Nil
  then show ?case by (intro exI [of _ "[]"]) simp
next
  case (Cons o1 outlets)
  obtain pdu port where o1: "o1 = (pdu, port)" by force
  let ?a = "actuator_of \<lparr>pa_daemon = daemon, pa_hostname = pdu, pa_port = port\<rparr>"
  let ?it = "(next_id (actuators s), item_new (pdu_properties name pdu port) ?a)"
  let ?s = "setup_pdu_actuator actuator_of daemon name pdu port s"
  have "registers r (items @ [?it]) (actuators ?s)"
    using registers_snoc [OF Cons.prems(1)] by (simp add: setup_pdu_actuator_def)
  from Cons.IH [OF this refl] obtain items' where
    "registers r ((items @ [?it]) @ items')
      (actuators (fold (\<lambda>(pdu, port). setup_pdu_actuator actuator_of daemon name pdu port) outlets ?s))"
    "map (item_properties \<circ> snd) items' = map (\<lambda>(pdu, port). pdu_properties name pdu port) outlets" by blast
  then show ?case by (intro exI [of _ "?it # items'"]) (simp add: o1 item_new_def comp_def)
qed

text \<open>
  Every outlet of every unit gets one actuator, in the order of the configuration, with the
  name and the properties of its unit and port.
\<close>

lemma pdudaemon_registers_outlets:
  assumes "pl_new lib (pdu_uri params) = Some daemon"
  shows "\<exists>items s'. pdudaemon_start lib actuator_of name params s = Done s' \<and>
    registers (actuators s) items (actuators s') \<and>
    map (item_properties \<circ> snd) items = map (\<lambda>(pdu, port). pdu_properties name pdu port) (pdu_outlets params)"
  using pdudaemon_start_outlets [OF assms, of actuator_of name s]
    pdu_outlets_registered [of "actuators s" "[]" s "[]" actuator_of daemon name "pdu_outlets params"]
  by auto

text \<open>A mode other than on and off is not an error but panics the caller.\<close>

lemma pdu_unknown_mode_panics:
  "decode params = Some mode \<Longrightarrow> mode \<noteq> ''on'' \<Longrightarrow> mode \<noteq> ''off'' \<Longrightarrow>
   pdu_set_mode lib decode a params w = (Panicked, w)"
  by (simp add: pdu_set_mode_def)

end
