(* ===== verification/Eswin.thy ===== *)
theory Eswin
  imports Provider_Common
begin

section \<open>The Eswin EIC7700 provider (boardswarm/src/eswin\_eic7700\_storage.rs)\<close>

text \<open>
  A board that shows a mass storage device boots the file that is copied to it: the provider
  waits until the device is mounted where it expects it and offers one target, which is that
  file. The file system is modelled as far as the program uses it (\<open>fs\<close>), the table of mounts is
  what a poll reads. The lemmas: a volume is only registered for a device seen at its mount
  point, and the file holds what the session wrote.
\<close>

subsection \<open>Paths and mounts\<close>

text \<open>\<^verbatim>\<open>Path\<close> compares by components: repeated and trailing separators and inner dots do not count.\<close>

definition path_components :: "string \<Rightarrow> bool \<times> string list" where
  "path_components p =
     (let root = (take 1 p = ''/''); cs = filter (\<lambda>c. c \<noteq> []) (split_on CHR ''/'' p)
      in (root, case cs of
                  [] \<Rightarrow> []
                | c # cs' \<Rightarrow> (if c = ''.'' \<and> root then [] else [c]) @ filter (\<lambda>c. c \<noteq> ''.'') cs'))"

definition path_join :: "string \<Rightarrow> string \<Rightarrow> string" where
  "path_join p q =
     (if take 1 q = ''/'' then q
      else if p = [] \<or> last p = CHR ''/'' then p @ q else p @ ''/'' @ q)"

record MountInfo =
  mount_source :: string
  mount_dest :: string

text \<open>
  One poll of the table of mounts: it fails to open, or yields mounts and errors. \<^verbatim>\<open>wait_mount\<close>
  under its timeout, over the polls that fit into it: \<open>None\<close> is the timeout.
\<close>

fun find_mount ::
  "(bool \<times> string list) \<Rightarrow> (bool \<times> string list) \<Rightarrow> ('e, MountInfo) result list \<Rightarrow> ('e, MountInfo) result option" where
  "find_mount source dest [] = None"
| "find_mount source dest (Err e # ms) = Some (Err e)"
| "find_mount source dest (Ok m # ms) =
     (if path_components (mount_source m) = source \<and> path_components (mount_dest m) = dest
      then Some (Ok m) else find_mount source dest ms)"

fun wait_mount ::
  "string \<Rightarrow> string \<Rightarrow> ('e, ('e, MountInfo) result list) result list \<Rightarrow> ('e, MountInfo) result option" where
  "wait_mount source dest [] = None"
| "wait_mount source dest (Err e # polls) = Some (Err e)"
| "wait_mount source dest (Ok ms # polls) =
     (case find_mount (path_components source) (path_components dest) ms of
        Some r \<Rightarrow> Some r | None \<Rightarrow> wait_mount source dest polls)"

subsection \<open>The file system\<close>

text \<open>\<open>fs_broken\<close> makes every operation fail with a message.\<close>

record fs =
  fs_files :: "string \<Rightarrow> bytes option"
  fs_broken :: "string option"

definition fs_op :: "(fs \<Rightarrow> 'a \<times> fs) \<Rightarrow> fs \<Rightarrow> (string, 'a) result \<times> fs" where
  "fs_op f s = (case fs_broken s of Some e \<Rightarrow> (Err e, s) | None \<Rightarrow> (case f s of (a, s1) \<Rightarrow> (Ok a, s1)))"

definition file_create :: "string \<Rightarrow> fs \<Rightarrow> (string, unit) result \<times> fs" where
  "file_create path = fs_op (\<lambda>s. ((), s\<lparr>fs_files := (fs_files s)(path \<mapsto> [])\<rparr>))"

definition put_bytes :: "bytes \<Rightarrow> nat \<Rightarrow> bytes \<Rightarrow> bytes" where
  "put_bytes content pos data =
     (if data = [] then content
      else take pos (content @ replicate (pos - length content) 0) @ data @ drop (pos + length data) content)"

text \<open>
  \<^verbatim>\<open>seek\<close> to the offset and \<^verbatim>\<open>write_all\<close> on a handle, as the target calls them together. The
  offset of a file is signed: the system refuses what does not fit.
\<close>

definition file_seek :: "u64 \<Rightarrow> fs \<Rightarrow> (string, unit) result \<times> fs" where
  "file_seek offset s =
     (if 2 ^ 63 \<le> unat offset then (Err ''Invalid argument (os error 22)'', s) else fs_op (\<lambda>s. ((), s)) s)"

definition file_write_all :: "string \<Rightarrow> u64 \<Rightarrow> bytes \<Rightarrow> fs \<Rightarrow> (string, unit) result \<times> fs" where
  "file_write_all path offset data =
     fs_op (\<lambda>s. ((), s\<lparr>fs_files := (fs_files s)(path :=
       map_option (\<lambda>content. put_bytes content (unat offset) data) (fs_files s path))\<rparr>))"

definition file_flush :: "fs \<Rightarrow> (string, unit) result \<times> fs" where
  "file_flush = fs_op (\<lambda>s. ((), s))"

subsection \<open>The volume and its target\<close>

definition TARGET_BOOTLOADER :: "string \<times> string" where
  "TARGET_BOOTLOADER = (''bootloader'', ''bootloader_ddr5_secboot.bin'')"

record EswinEic7700StorageVolume =
  ev_path :: string
  ev_targets :: "VolumeTargetInfo list"

definition eswin_volume_new :: "string \<Rightarrow> EswinEic7700StorageVolume" where
  "eswin_volume_new path =
     \<lparr>ev_path = path, ev_targets = [\<lparr>target_name = fst TARGET_BOOTLOADER, readable = False, writable = True,
       seekable = True, target_size = None, blocksize = None\<rparr>]\<rparr>"

definition internal :: "string \<Rightarrow> status" where
  "internal e = Status Internal e"

definition eswin_write :: "string \<Rightarrow> bytes \<Rightarrow> u64 \<Rightarrow> fs \<Rightarrow> (status, u64) result option \<times> fs" where
  "eswin_write path data offset s =
     (case file_seek offset s of
        (Err e, s1) \<Rightarrow> (Some (Err (internal e)), s1)
      | (Ok _, s1) \<Rightarrow>
          (case file_write_all path offset data s1 of
             (r, s2) \<Rightarrow> (Some (result_bind (map_err internal r) (\<lambda>_. Ok (of_nat (length data)))), s2)))"

definition eswin_flush :: "fs \<Rightarrow> (status, unit) result option \<times> fs" where
  "eswin_flush s = (case file_flush s of (r, s1) \<Rightarrow> (Some (map_err internal r), s1))"

definition eswin_target :: "string \<Rightarrow> fs VolumeTarget" where
  "eswin_target path =
     \<lparr>vt_read = default_read, vt_write = eswin_write path, vt_flush = eswin_flush, vt_shutdown = eswin_flush\<rparr>"

definition eswin_open ::
  "EswinEic7700StorageVolume \<Rightarrow> string \<Rightarrow> u64 option \<Rightarrow> fs \<Rightarrow>
   (VolumeError, VolumeTargetInfo \<times> fs VolumeTarget) result \<times> fs" where
  "eswin_open v target len s =
     (case List.find (\<lambda>t. target_name t = target) (ev_targets v) of
        None \<Rightarrow> (Err UnknownTargetRequested, s)
      | Some info \<Rightarrow>
          (let path = path_join (ev_path v) (snd TARGET_BOOTLOADER) in
           case file_create path s of
             (Err e, s1) \<Rightarrow> (Err (VolumeInternal e), s1)
           | (Ok _, s1) \<Rightarrow> (Ok (info, eswin_target path), s1)))"

definition eswin_volume :: "EswinEic7700StorageVolume \<Rightarrow> fs Volume" where
  "eswin_volume v =
     \<lparr>vol_targets = (\<lambda>s. (ev_targets v, True)), vol_open = eswin_open v, vol_commit = (\<lambda>s. (Ok (), s)),
      vol_erase = default_erase\<rparr>"

subsection \<open>Setup and the event loop\<close>

text \<open>\<open>canonical\<close> is \<^verbatim>\<open>canonicalize\<close> of the mount point. \<open>None\<close>: the setup failed.\<close>

definition eswin_setup ::
  "(string \<Rightarrow> string option) \<Rightarrow> ('e, ('e, MountInfo) result list) result list \<Rightarrow> string \<Rightarrow> Properties \<Rightarrow>
   (Properties \<times> EswinEic7700StorageVolume) option" where
  "eswin_setup canonical polls mountpoint props =
     (case properties_get props ''udev.DEVNAME'' of
        None \<Rightarrow> None
      | Some devname \<Rightarrow>
     (case properties_get props ''udev.ID_PATH'' of
        None \<Rightarrow> None
      | Some path_id \<Rightarrow>
     (case canonical mountpoint of
        None \<Rightarrow> None
      | Some base \<Rightarrow>
          (let path = path_join base path_id in
           case wait_mount devname path polls of
             Some (Ok m) \<Rightarrow> Some (props, eswin_volume_new path)
           | _ \<Rightarrow> None))))"

record EswinEic7700StorageParameters =
  ep_match :: "(string \<times> string) list"
  ep_mountpoint :: string

text \<open>The setup to spawn for a device that is added.\<close>

fun eswin_event ::
  "string \<Rightarrow> EswinEic7700StorageParameters \<Rightarrow> DeviceEvent \<Rightarrow> registration_map \<Rightarrow> ('p, 'w) Server \<Rightarrow>
   ((string \<times> u64) \<times> string \<times> Properties) option \<times> registration_map \<times> ('p, 'w) Server" where
  "eswin_event name params (EventAdded device seqnum) m s =
     (let props = udev_properties device name in
      if \<not> properties_matches props (ep_match params) then (None, m, s)
      else (case pre_register (ud_syspath device) seqnum m s of
              (prereg, m1, s1) \<Rightarrow>
                (Some (prereg, ep_mountpoint params,
                   properties_extend props [(PROVIDER_NAME, name), (PROVIDER, ''eswin-eic7700-storage'')]), m1, s1)))"
| "eswin_event name params (EventRemoved device) m s =
     (case remove_device (ud_syspath device) m s of (m1, s1) \<Rightarrow> (None, m1, s1))"

text \<open>The end of a setup: the volume is registered through the pre-registration, which is consumed.\<close>

definition eswin_setup_done where
  "eswin_setup_done volume_of prereg r m s =
     (case r of
        None \<Rightarrow> (drop_prereg prereg m, s)
      | Some (props, v) \<Rightarrow> prereg_register_volume prereg props (volume_of v) m s)"

subsection \<open>Mounted devices\<close>

lemma find_mount_ok:
  "find_mount source dest ms = Some (Ok m) \<Longrightarrow>
   Ok m \<in> set ms \<and> path_components (mount_source m) = source \<and> path_components (mount_dest m) = dest"
proof (induction ms)
  case (Cons x ms)
  then show ?case by (cases x) (simp_all split: if_splits)
qed simp

lemma wait_mount_ok:
  "wait_mount source dest polls = Some (Ok m) \<Longrightarrow>
   \<exists>ms. Ok ms \<in> set polls \<and> Ok m \<in> set ms \<and>
     path_components (mount_source m) = path_components source \<and>
     path_components (mount_dest m) = path_components dest"
  by (induction source dest polls rule: wait_mount.induct) (auto split: option.splits dest: find_mount_ok)

text \<open>
  A volume is set up only for a device that a poll saw mounted at its place: the source of
  the mount is the device node, and the volume writes below the destination, the path of the
  device in the mount point.
\<close>

theorem eswin_volume_mounted:
  assumes "eswin_setup canonical polls mountpoint props = Some (props', v)"
  shows "\<exists>devname path_id base ms m. properties_get props ''udev.DEVNAME'' = Some devname \<and>
    properties_get props ''udev.ID_PATH'' = Some path_id \<and> canonical mountpoint = Some base \<and>
    ev_path v = path_join base path_id \<and> Ok ms \<in> set polls \<and> Ok m \<in> set ms \<and>
    path_components (mount_source m) = path_components devname \<and>
    path_components (mount_dest m) = path_components (ev_path v)"
proof -
  from assms obtain devname path_id base m where
    "properties_get props ''udev.DEVNAME'' = Some devname" "properties_get props ''udev.ID_PATH'' = Some path_id"
    "canonical mountpoint = Some base" "ev_path v = path_join base path_id"
    "wait_mount devname (path_join base path_id) polls = Some (Ok m)"
    by (auto simp: eswin_setup_def eswin_volume_new_def Let_def split: option.splits sum.splits)
  with wait_mount_ok show ?thesis by metis
qed

lemma eswin_volume_mounted_witness:
  "\<exists>props' v. eswin_setup Some
      [Ok [], Ok [Ok \<lparr>mount_source = ''/dev/sda'', mount_dest = ''/mnt/usb-0/''\<rparr> :: (unit, MountInfo) result]] ''/mnt''
      (properties_insert (properties_insert (properties_new ''eswin'') ''udev.DEVNAME'' ''/dev/sda'') ''udev.ID_PATH'' ''usb-0'')
      = Some (props', v) \<and> path_components ''/mnt/usb-0/'' = path_components (ev_path v)"
proof -
  let ?polls = "[Ok [], Ok [Ok \<lparr>mount_source = ''/dev/sda'', mount_dest = ''/mnt/usb-0/''\<rparr> :: (unit, MountInfo) result]]
    :: (unit, (unit, MountInfo) result list) result list"
  let ?props = "properties_insert (properties_insert (properties_new ''eswin'') ''udev.DEVNAME'' ''/dev/sda'') ''udev.ID_PATH'' ''usb-0''"
  obtain props' v where run: "eswin_setup Some ?polls ''/mnt'' ?props = Some (props', v)"
    by (simp add: eswin_setup_def path_join_def path_components_def Let_def)
  with eswin_volume_mounted [OF run] show ?thesis by auto
qed

subsection \<open>The file\<close>

lemma put_bytes_end: "put_bytes content (length content) data = content @ data"
  by (simp add: put_bytes_def)

lemma put_bytes_sequence:
  "length content + length (concat ds) < 2 ^ 64 \<Longrightarrow>
   fold (\<lambda>(d, off) c. put_bytes c (unat off) d) (in_sequence (length content) ds) content = content @ concat ds"
proof (induction ds arbitrary: content)
  case (Cons d ds)
  have "put_bytes content (unat (of_nat (length content) :: u64)) d = content @ d"
    using Cons.prems by (simp add: unat_of_nat_u64 put_bytes_end)
  with Cons.IH [of "content @ d"] Cons.prems show ?case by simp
qed simp

definition set_file :: "string \<Rightarrow> bytes \<Rightarrow> fs \<Rightarrow> fs" where
  "set_file path content s = s\<lparr>fs_files := (fs_files s)(path \<mapsto> content)\<rparr>"

lemma set_file_simps [simp]:
  "fs_broken (set_file path c s) = fs_broken s" "fs_files (set_file path c s) = (fs_files s)(path \<mapsto> c)"
  "set_file path c (set_file path c' s) = set_file path c s"
  by (simp_all add: set_file_def)

lemma set_file_same: "fs_files s path = Some c \<Longrightarrow> set_file path c s = s"
  by (simp add: set_file_def fun_upd_idem)

definition small_offset :: "bytes \<times> u64 \<Rightarrow> bool" where
  "small_offset w \<longleftrightarrow> unat (snd w) < 2 ^ 63"

lemma eswin_write_file:
  assumes "fs_broken s = None" "fs_files s path = Some content" "unat offset < 2 ^ 63"
  shows "eswin_write path data offset s =
    (Some (Ok (of_nat (length data))), set_file path (put_bytes content (unat offset) data) s)"
  using assms by (simp add: eswin_write_def file_seek_def file_write_all_def fs_op_def set_file_def)

lemma eswin_writes:
  assumes "fs_broken s = None" "fs_files s path = Some content" "list_all small_offset ws"
  shows "volume_io_loop (eswin_target path) (requests (write_requests ws @ qs)) s =
    (case volume_io_loop (eswin_target path) (requests qs)
        (set_file path (fold (\<lambda>(d, off) c. put_bytes c (unat off) d) ws content) s) of
       (rs, s1) \<Rightarrow> (map (\<lambda>(d, off). QWrite (Some (Ok (of_nat (length d))))) ws @ rs, s1))"
  using assms
proof (induction ws arbitrary: s content)
  case Nil
  then show ?case by (simp add: write_requests_def set_file_same split_beta)
next
  case (Cons w ws)
  obtain d off where w: "w = (d, off)" by force
  let ?s = "set_file path (put_bytes content (unat off) d) s"
  have "fs_broken ?s = None" "fs_files ?s path = Some (put_bytes content (unat off) d)"
    "list_all small_offset ws" and off: "unat off < 2 ^ 63"
    using Cons.prems(1,2) Cons.prems(3) [unfolded list.pred_inject small_offset_def [of w]] by (simp_all add: w)
  note ih = Cons.IH [OF this(1-3)]
  have wr: "vt_write (eswin_target path) d off s = (Some (Ok (of_nat (length d))), ?s)"
    using eswin_write_file [OF Cons.prems(1,2) off] by (simp add: eswin_target_def)
  show ?case using ih by (simp add: w wr write_requests_def split_beta)
qed

text \<open>
  Opening the target creates the boot file empty, every write whose offset a file can have
  puts its bytes at its offset (the gap before it, if any, is zeroes), and after the shutdown the file holds the outcome and
  the other files are as they were; a blob written in sequence is the file.
\<close>

theorem eswin_file_written:
  assumes "fs_broken s = None" "list_all small_offset ws"
  shows "\<exists>info vt s1 s2. vol_open (eswin_volume (eswin_volume_new dir)) ''bootloader'' len s = (Ok (info, vt), s1) \<and>
    volume_io_loop vt (requests (write_requests ws @ [ReqShutdown])) s1 =
      (map (\<lambda>(d, off). QWrite (Some (Ok (of_nat (length d))))) ws @ [QShutdown (Some (Ok ()))], s2) \<and>
    fs_files s2 = (fs_files s)(path_join dir ''bootloader_ddr5_secboot.bin'' \<mapsto>
      fold (\<lambda>(d, off) c. put_bytes c (unat off) d) ws []) \<and>
    (length (concat ds) < 2 ^ 64 \<longrightarrow> ws = in_sequence 0 ds \<longrightarrow>
       fs_files s2 (path_join dir ''bootloader_ddr5_secboot.bin'') = Some (concat ds))"
proof -
  let ?path = "path_join dir ''bootloader_ddr5_secboot.bin''"
  let ?s = "set_file ?path [] s"
  obtain info where op: "vol_open (eswin_volume (eswin_volume_new dir)) ''bootloader'' len s =
      (Ok (info, eswin_target ?path), ?s)"
    using assms by (simp add: eswin_volume_def eswin_open_def eswin_volume_new_def TARGET_BOOTLOADER_def
        file_create_def fs_op_def set_file_def Let_def)
  have "fs_broken ?s = None" "fs_files ?s ?path = Some []" using assms(1) by simp_all
  note run = eswin_writes [OF this assms(2), of "[ReqShutdown]"]
  let ?s2 = "set_file ?path (fold (\<lambda>(d, off) c. put_bytes c (unat off) d) ws []) s"
  have "volume_io_loop (eswin_target ?path) (requests (write_requests ws @ [ReqShutdown])) ?s =
      (map (\<lambda>(d, off). QWrite (Some (Ok (of_nat (length d))))) ws @ [QShutdown (Some (Ok ()))], ?s2)"
    using run assms by (simp add: eswin_target_def eswin_flush_def file_flush_def fs_op_def)
  with op put_bytes_sequence [of "[]" ds] show ?thesis by (intro exI conjI) auto
qed

lemma eswin_file_written_witness:
  "\<exists>info vt s1 s2. vol_open (eswin_volume (eswin_volume_new ''/mnt/a'')) ''bootloader'' None
      \<lparr>fs_files = (\<lambda>_. None), fs_broken = None\<rparr> = (Ok (info, vt), s1) \<and>
    volume_io_loop vt (requests [ReqWrite [1] 0, ReqWrite [2, 3] 1, ReqShutdown]) s1 =
      ([QWrite (Some (Ok 1)), QWrite (Some (Ok 2)), QShutdown (Some (Ok ()))], s2) \<and>
    fs_files s2 ''/mnt/a/bootloader_ddr5_secboot.bin'' = Some [1, 2, 3]"
  using eswin_file_written [of "\<lparr>fs_files = (\<lambda>_. None), fs_broken = None\<rparr>" "[([1], 0), ([2, 3], 1)]"
      "''/mnt/a''" None "[[1], [2, 3]]"]
  by (auto simp: write_requests_def path_join_def small_offset_def)

end
