(* ===== verification/Hifive.thy ===== *)
theory Hifive
  imports Provider_Common
begin

section \<open>The Hifive P550 provider (boardswarm/src/hifive_p550_mcu.rs)\<close>

text \<open>
  The controller of a Hifive P550 board is driven over a serial line: two actuators switch the
  power of the board and select its boot medium by asking for the current state, and setting it
  when it differs. The line is what it delivers, in order (\<open>rx\<close>): bytes, the silence after which
  the timer of a read fires, its end, a failing read. An operation over a line that delivers
  nothing more is still waiting: its result is \<open>None\<close>. The lemmas: an operation that succeeds was
  told so by the controller, it sends no set request when the state is already right, each error
  has its cause, and an operation may wait for ever.
\<close>

subsection \<open>Modes and requests\<close>

datatype McuError = McuIO string | McuTimeout | McuUnexpectedEof | McuResponseParse

datatype McuCommand = HifiveP550McuSomPower | HifiveP550McuBootSel

definition all_mcu_commands :: "McuCommand list" where
  "all_mcu_commands = [HifiveP550McuSomPower, HifiveP550McuBootSel]"

fun mcu_command_name :: "McuCommand \<Rightarrow> string" where
  "mcu_command_name HifiveP550McuSomPower = ''hifive-p550-mcu-som-power''"
| "mcu_command_name HifiveP550McuBootSel = ''hifive-p550-mcu-boot-sel''"

datatype SomPowerMode = PowerOff | PowerOn

fun som_power_name :: "SomPowerMode \<Rightarrow> string" where
  "som_power_name PowerOff = ''off''"
| "som_power_name PowerOn = ''on''"

fun som_power_status :: "SomPowerMode \<Rightarrow> u8 \<times> string" where
  "som_power_status PowerOff = (0, ''STOP_POWER'')"
| "som_power_status PowerOn = (1, ''POWERON'')"

datatype BootSelMode = BootHardware | BootUsb

text \<open>\<^verbatim>\<open>get_bit!\<close> of utils.rs.\<close>

definition get_bit :: "u8 \<Rightarrow> nat \<Rightarrow> u8" where
  "get_bit v i = and (drop_bit i v) 1"

text \<open>Its unit test.\<close>

lemma get_bit_test: "map (get_bit 0xa5) [0, 1, 2, 3, 4, 5, 6, 7] = [1, 0, 1, 0, 0, 1, 0, 1]"
  by code_simp

definition format_bits :: "u8 \<Rightarrow> string" where
  "format_bits v =
     show_nat (unat (get_bit v 3)) @ '' '' @ show_nat (unat (get_bit v 2)) @ '' '' @
     show_nat (unat (get_bit v 1)) @ '' '' @ show_nat (unat (get_bit v 0))"

fun boot_sel_status :: "BootSelMode \<Rightarrow> string \<times> u8 \<times> string option" where
  "boot_sel_status BootHardware = (''HW'', 0x0, None)"
| "boot_sel_status BootUsb = (''SW'', 0x3, Some (format_bits 0x3))"

subsection \<open>The line\<close>

text \<open>A byte that is not text fails a read, as \<open>RxFail\<close> does.\<close>

datatype rx = RxByte char | RxQuiet | RxEof | RxFail string

record mcu =
  mcu_in :: "rx list"
  mcu_sent :: "string list"
  mcu_broken :: "string option"

type_synonym 'a mcu_op = "mcu \<Rightarrow> ((McuError, 'a) result \<times> mcu) option"

definition mcu_then :: "'a mcu_op \<Rightarrow> ('a \<Rightarrow> 'b mcu_op) \<Rightarrow> 'b mcu_op" where
  "mcu_then f g m =
     (case f m of
        None \<Rightarrow> None
      | Some (Err e, m1) \<Rightarrow> Some (Err e, m1)
      | Some (Ok a, m1) \<Rightarrow> g a m1)"

definition mcu_return :: "(McuError, 'a) result \<Rightarrow> 'a mcu_op" where
  "mcu_return r m = Some (r, m)"

definition on_line :: "(rx list \<Rightarrow> ((McuError, 'a) result \<times> rx list) option) \<Rightarrow> 'a mcu_op" where
  "on_line f m =
     (case f (mcu_in m) of None \<Rightarrow> None | Some (r, rest) \<Rightarrow> Some (r, m\<lparr>mcu_in := rest\<rparr>))"

definition mcu_send :: "string \<Rightarrow> unit mcu_op" where
  "mcu_send request m =
     (case mcu_broken m of
        Some e \<Rightarrow> Some (Err (McuIO e), m)
      | None \<Rightarrow> Some (Ok (), m\<lparr>mcu_sent := mcu_sent m @ [request]\<rparr>))"

text \<open>
  The reads of the buffered reader under their timer. The end of the line is seen by every read
  after it: \<^verbatim>\<open>read_until\<close> and \<^verbatim>\<open>next_line\<close> return what there was, \<^verbatim>\<open>read_exact\<close> fails.
\<close>

fun read_until :: "char \<Rightarrow> rx list \<Rightarrow> ((McuError, unit) result \<times> rx list) option" where
  "read_until c [] = None"
| "read_until c (RxByte b # rs) = (if b = c then Some (Ok (), rs) else read_until c rs)"
| "read_until c (RxQuiet # rs) = Some (Err McuTimeout, rs)"
| "read_until c (RxEof # rs) = Some (Ok (), RxEof # rs)"
| "read_until c (RxFail e # rs) = Some (Err (McuIO e), rs)"

fun read_exact :: "nat \<Rightarrow> rx list \<Rightarrow> ((McuError, string) result \<times> rx list) option" where
  "read_exact 0 rs = Some (Ok [], rs)"
| "read_exact (Suc n) [] = None"
| "read_exact (Suc n) (RxByte b # rs) =
     (case read_exact n rs of
        None \<Rightarrow> None
      | Some (Ok bs, rs1) \<Rightarrow> Some (Ok (b # bs), rs1)
      | Some (Err e, rs1) \<Rightarrow> Some (Err e, rs1))"
| "read_exact (Suc n) (RxQuiet # rs) = Some (Err McuTimeout, rs)"
| "read_exact (Suc n) (RxEof # rs) = Some (Err (McuIO ''early eof''), RxEof # rs)"
| "read_exact (Suc n) (RxFail e # rs) = Some (Err (McuIO e), rs)"

definition strip_cr :: "string \<Rightarrow> string" where
  "strip_cr s = (if s \<noteq> [] \<and> last s = CHR 0x0D then butlast s else s)"

fun next_line :: "string \<Rightarrow> rx list \<Rightarrow> ((McuError, string option) result \<times> rx list) option" where
  "next_line acc [] = None"
| "next_line acc (RxByte b # rs) =
     (if b = CHR 0x0A then Some (Ok (Some (strip_cr acc)), rs) else next_line (acc @ [b]) rs)"
| "next_line acc (RxQuiet # rs) = Some (Err McuTimeout, rs)"
| "next_line acc (RxEof # rs) = Some (Ok (if acc = [] then None else Some acc), RxEof # rs)"
| "next_line acc (RxFail e # rs) = Some (Err (McuIO e), rs)"

text \<open>Every line is waited for anew; a line that is returned has been taken off.\<close>

lemma next_line_takes:
  "next_line acc rs = Some (Ok (Some line), rest) \<Longrightarrow>
   length rest < length acc + length rs \<and>
   (\<exists>bs. rs = map RxByte bs @ rest \<and>
      acc @ bs \<in> {line, line @ [CHR 0x0A], line @ [CHR 0x0D, CHR 0x0A]})"
proof (induction acc rs rule: next_line.induct)
  case (2 acc b rs)
  show ?case
  proof (cases "b = CHR 0x0A")
    case True
    with 2(2) have "line = strip_cr acc" "rest = rs" by auto
    moreover have "acc = strip_cr acc \<or> acc = strip_cr acc @ [CHR 0x0D]"
      by (metis append_butlast_last_id strip_cr_def)
    ultimately show ?thesis using True by (intro conjI exI [of _ "[b]"]) auto
  next
    case False
    with 2 obtain bs where "rs = map RxByte bs @ rest" "length rest < length acc + 1 + length rs"
      "acc @ b # bs \<in> {line, line @ [CHR 0x0A], line @ [CHR 0x0D, CHR 0x0A]}" by auto
    then show ?thesis by (intro conjI exI [of _ "b # bs"]) simp_all
  qed
qed (auto split: if_splits)

function wait_line :: "(string \<Rightarrow> bool) \<Rightarrow> rx list \<Rightarrow> ((McuError, string) result \<times> rx list) option" where
  "wait_line is_match rs =
     (case next_line [] rs of
        None \<Rightarrow> None
      | Some (Err e, rest) \<Rightarrow> Some (Err e, rest)
      | Some (Ok None, rest) \<Rightarrow> Some (Err McuUnexpectedEof, rest)
      | Some (Ok (Some line), rest) \<Rightarrow>
          (if is_match line then Some (Ok line, rest) else wait_line is_match rest))"
  by auto
termination by (relation "measure (length \<circ> snd)") (auto dest: next_line_takes)

declare wait_line.simps [simp del]

definition mcu_wait_response :: "(string \<Rightarrow> bool) \<Rightarrow> string mcu_op" where
  "mcu_wait_response is_match = on_line (wait_line is_match)"

definition mcu_wait_prompt :: "unit mcu_op" where
  "mcu_wait_prompt =
     mcu_then (mcu_send [CHR 0x0A]) (\<lambda>_.
     mcu_then (on_line (read_until CHR ''#'')) (\<lambda>_.
     mcu_then (on_line (read_exact 4)) (\<lambda>bs.
       mcu_return (if bs = ''cmd:'' then Ok () else Err McuResponseParse))))"

subsection \<open>The responses\<close>

text \<open>
  The regular expressions of the code: a prefix and the rest of the line, a text anywhere in the
  line, and a prefix, a greedy match up to the last separator and the rest.
\<close>

definition after_prefix :: "string \<Rightarrow> string \<Rightarrow> string option" where
  "after_prefix pre s = (if take (length pre) s = pre then Some (drop (length pre) s) else None)"

fun contains_text :: "string \<Rightarrow> string \<Rightarrow> bool" where
  "contains_text t [] = (t = [])"
| "contains_text t (c # cs) = (after_prefix t (c # cs) \<noteq> None \<or> contains_text t cs)"

fun split_last :: "string \<Rightarrow> string \<Rightarrow> (string \<times> string) option" where
  "split_last sep [] = None"
| "split_last sep (c # cs) =
     (case split_last sep cs of
        Some (a, b) \<Rightarrow> Some (c # a, b)
      | None \<Rightarrow> (case after_prefix sep (c # cs) of Some b \<Rightarrow> Some ([], b) | None \<Rightarrow> None))"

definition som_power_captures :: "string \<Rightarrow> string option" where
  "som_power_captures line = after_prefix ''Som Power Status: '' line"

definition boot_sel_captures :: "string \<Rightarrow> string \<Rightarrow> (string \<times> string) option" where
  "boot_sel_captures verb line =
     Option.bind (after_prefix (verb @ '': Bootsel Controlled by: '') line)
       (split_last '', bootsel[3 2 1 0]:'')"

definition to_lowercase :: "string \<Rightarrow> string" where
  "to_lowercase s = map (\<lambda>c. let n = of_char c :: nat in if 65 \<le> n \<and> n \<le> 90 then char_of (n + 32) else c) s"

subsection \<open>The operations\<close>

definition process_som_power :: "SomPowerMode \<Rightarrow> unit mcu_op" where
  "process_som_power mode =
     (case som_power_status mode of (v, msg) \<Rightarrow>
      mcu_then mcu_wait_prompt (\<lambda>_.
      mcu_then (mcu_send (''sompower-g'' @ [CHR 0x0A])) (\<lambda>_.
      mcu_then (mcu_wait_response (\<lambda>line. som_power_captures line \<noteq> None)) (\<lambda>ret.
        case som_power_captures ret of
          None \<Rightarrow> mcu_return (Err McuResponseParse)
        | Some reported \<Rightarrow>
            (if to_lowercase reported = som_power_name mode then mcu_return (Ok ())
             else mcu_then (mcu_send (''sompower-s '' @ show_nat (unat v) @ [CHR 0x0A])) (\<lambda>_.
                  mcu_then (mcu_wait_response (contains_text msg)) (\<lambda>_. mcu_return (Ok ()))))))))"

definition boot_sel_right :: "string \<Rightarrow> string option \<Rightarrow> string \<times> string \<Rightarrow> bool" where
  "boot_sel_right mode bits caps =
     (fst caps = mode \<and> (case bits of None \<Rightarrow> True | Some b \<Rightarrow> snd caps = b))"

definition process_boot_sel :: "BootSelMode \<Rightarrow> unit mcu_op" where
  "process_boot_sel bmode =
     (case boot_sel_status bmode of (mode, v, bits) \<Rightarrow>
      mcu_then mcu_wait_prompt (\<lambda>_.
      mcu_then (mcu_send (''bootsel-g'' @ [CHR 0x0A])) (\<lambda>_.
      mcu_then (mcu_wait_response (\<lambda>line. boot_sel_captures ''Get'' line \<noteq> None)) (\<lambda>ret.
        case boot_sel_captures ''Get'' ret of
          None \<Rightarrow> mcu_return (Err McuResponseParse)
        | Some caps \<Rightarrow>
            (if boot_sel_right mode bits caps then mcu_return (Ok ())
             else mcu_then (mcu_send (''bootsel-s '' @ mode @ '' 0x'' @ [hex_digit (unat v)] @ [CHR 0x0A])) (\<lambda>_.
                  mcu_then (mcu_wait_response (\<lambda>line. boot_sel_captures ''Set'' line \<noteq> None)) (\<lambda>ret.
                    case boot_sel_captures ''Set'' ret of
                      None \<Rightarrow> mcu_return (Err McuResponseParse)
                    | Some caps \<Rightarrow>
                        mcu_return (if boot_sel_right mode bits caps then Ok () else Err McuResponseParse))))))))"

datatype ChannelMessage = SomPower SomPowerMode | BootSel BootSelMode

fun channel_message_process :: "ChannelMessage \<Rightarrow> unit mcu_op" where
  "channel_message_process (SomPower mode) = process_som_power mode"
| "channel_message_process (BootSel mode) = process_boot_sel mode"

text \<open>The task of the line answers one message after another; \<open>None\<close>: it waits on that one.\<close>

fun mcu_process :: "ChannelMessage list \<Rightarrow> mcu \<Rightarrow> (McuError, unit) result option list \<times> mcu" where
  "mcu_process [] m = ([], m)"
| "mcu_process (msg # msgs) m =
     (case channel_message_process msg m of
        None \<Rightarrow> (map (\<lambda>_. None) (msg # msgs), m)
      | Some (r, m1) \<Rightarrow> (case mcu_process msgs m1 of (rs, m2) \<Rightarrow> (Some r # rs, m2)))"

subsection \<open>The actuators and their setup\<close>

definition to_channel_message ::
  "('p \<Rightarrow> SomPowerMode option) \<Rightarrow> ('p \<Rightarrow> BootSelMode option) \<Rightarrow> McuCommand \<Rightarrow> 'p \<Rightarrow> ChannelMessage option" where
  "to_channel_message som boot c params =
     (case c of
        HifiveP550McuSomPower \<Rightarrow> map_option SomPower (som params)
      | HifiveP550McuBootSel \<Rightarrow> map_option BootSel (boot params))"

definition hifive_set_mode ::
  "('p \<Rightarrow> SomPowerMode option) \<Rightarrow> ('p \<Rightarrow> BootSelMode option) \<Rightarrow> McuCommand \<Rightarrow> 'p \<Rightarrow> mcu \<Rightarrow>
   ((ActuatorError, unit) result \<times> mcu) option" where
  "hifive_set_mode som boot c params m =
     (case to_channel_message som boot c params of
        None \<Rightarrow> Some (Err ActuatorError, m)
      | Some msg \<Rightarrow>
          (case channel_message_process msg m of
             None \<Rightarrow> None
           | Some (r, m1) \<Rightarrow> Some (map_err (\<lambda>_. ActuatorError) r, m1)))"

definition hifive_admit ::
  "(udev_device \<Rightarrow> string option) \<Rightarrow> (string \<times> string) list \<Rightarrow> udev_device \<Rightarrow>
   (string \<times> Properties) option" where
  "hifive_admit devnode matches device =
     (if property_u64 device ''ID_VENDOR_ID'' 16 \<noteq> Some 0x0403 then None
      else if property_u64 device ''ID_MODEL_ID'' 16 \<noteq> Some 0x6011 then None
      else case devnode device of
             None \<Rightarrow> None
           | Some node \<Rightarrow>
               (case file_name node of
                  None \<Rightarrow> None
                | Some name \<Rightarrow>
                    (if properties_matches (udev_properties device name) matches
                     then Some (node, udev_properties device name) else None)))"

definition hifive_handle ::
  "(udev_device \<Rightarrow> string option) \<Rightarrow> (string \<times> string) list \<Rightarrow> string \<Rightarrow> udev_device \<Rightarrow> u64 \<Rightarrow>
   registration_map \<times> ('p, 'w) Server \<Rightarrow>
   bool \<times> ((string \<times> u64) \<times> string \<times> Properties) option \<times> registration_map \<times> ('p, 'w) Server" where
  "hifive_handle devnode matches provider_name device seqnum ms =
     (case hifive_admit devnode matches device of
        None \<Rightarrow> (False, None, ms)
      | Some (node, props) \<Rightarrow>
          (case pre_register (ud_syspath device) seqnum (fst ms) (snd ms) of
             (prereg, m1, s1) \<Rightarrow>
               (True, Some (prereg, node, properties_extend props
                  [(PROVIDER_NAME, provider_name), (PROVIDER, ''hifive-p550-mcu'')]), m1, s1)))"

definition hifive_remove ::
  "udev_device \<Rightarrow> registration_map \<times> ('p, 'w) Server \<Rightarrow> registration_map \<times> ('p, 'w) Server" where
  "hifive_remove device ms = remove_device (ud_syspath device) (fst ms) (snd ms)"

text \<open>
  The setup once the port was opened or not; \<open>actuator_of\<close> makes the actuator of a command over
  the task of the port. When the port does not open the pre-registration is dropped.
\<close>

definition hifive_setup ::
  "bool \<Rightarrow> (McuCommand \<Rightarrow> ('p, 'w) Actuator) \<Rightarrow> string \<times> u64 \<Rightarrow> Properties \<Rightarrow>
   registration_map \<times> ('p, 'w) Server \<Rightarrow> registration_map \<times> ('p, 'w) Server" where
  "hifive_setup opened actuator_of prereg props ms =
     (if opened
      then register_batch prereg
             (map (\<lambda>c. BActuator (properties_insert props NAME (mcu_command_name c)) (actuator_of c))
                all_mcu_commands)
             (fst ms) (snd ms)
      else (drop_prereg prereg (fst ms), snd ms))"

subsection \<open>What a success means\<close>

text \<open>\<open>line\<close> is the last line of what was delivered before \<open>rest\<close>.\<close>

definition mcu_said :: "string \<Rightarrow> rx list \<Rightarrow> rx list \<Rightarrow> bool" where
  "mcu_said line rs rest \<longleftrightarrow>
     (\<exists>pre bs. rs = pre @ map RxByte bs @ rest \<and>
        bs \<in> {line, line @ [CHR 0x0A], line @ [CHR 0x0D, CHR 0x0A]})"

lemma mcu_said_append: "mcu_said line rs rest \<Longrightarrow> mcu_said line (pre @ rs) rest"
  unfolding mcu_said_def by (metis append_assoc)

lemma wait_line_ok:
  "wait_line is_match rs = Some (Ok line, rest) \<Longrightarrow> is_match line \<and> mcu_said line rs rest"
proof (induction is_match rs rule: wait_line.induct)
  case (1 is_match rs)
  from 1(2) obtain l r where l: "next_line [] rs = Some (Ok (Some l), r)"
    by (auto simp: wait_line.simps [of is_match rs] split: option.splits prod.splits sum.splits)
  from next_line_takes [OF l] obtain bs where bs: "rs = map RxByte bs @ r"
    "bs \<in> {l, l @ [CHR 0x0A], l @ [CHR 0x0D, CHR 0x0A]}" by auto
  show ?case
  proof (cases "is_match l")
    case True
    with 1(2) l have "line = l" "rest = r" by (simp_all add: wait_line.simps [of is_match rs])
    with True bs show ?thesis unfolding mcu_said_def by (metis append_Nil)
  next
    case False
    with 1(2) l have "wait_line is_match r = Some (Ok line, rest)"
      by (simp add: wait_line.simps [of is_match rs])
    with 1(1) [OF l refl refl refl False] bs(1) show ?thesis by (simp add: mcu_said_append)
  qed
qed

lemma mcu_then_ok:
  "mcu_then f g m = Some (Ok b, m') \<longleftrightarrow> (\<exists>a m1. f m = Some (Ok a, m1) \<and> g a m1 = Some (Ok b, m'))"
  by (auto simp: mcu_then_def split: option.splits prod.splits sum.splits)

lemma mcu_return_ok:
  "mcu_return r m = Some (Ok u, m') \<longleftrightarrow> r = Ok u \<and> m' = m"
  "mcu_return (if b then Ok u' else Err e) m = Some (Ok u, m') \<longleftrightarrow> b \<and> u' = u \<and> m' = m"
  "(case x of None \<Rightarrow> mcu_return (Err e) | Some c \<Rightarrow> mcu_return (if P c then Ok () else Err e)) m =
     Some (Ok u, m') \<longleftrightarrow> (\<exists>c. x = Some c \<and> P c \<and> m' = m)"
  by (auto simp: mcu_return_def split: option.splits)

lemma mcu_send_ok:
  "mcu_send r m = Some (Ok u, m') \<longleftrightarrow> mcu_broken m = None \<and> m' = m\<lparr>mcu_sent := mcu_sent m @ [r]\<rparr>"
  by (auto simp: mcu_send_def split: option.splits)

lemma mcu_response_ok:
  "mcu_wait_response P m = Some (Ok line, m') \<Longrightarrow>
   P line \<and> mcu_said line (mcu_in m) (mcu_in m') \<and> mcu_sent m' = mcu_sent m"
  by (auto simp: mcu_wait_response_def on_line_def dest: wait_line_ok split: option.splits)

lemma read_until_rest: "read_until c rs = Some (Ok u, rest) \<Longrightarrow> \<exists>pre. rs = pre @ rest"
  by (induction c rs rule: read_until.induct) (auto split: if_splits intro: exI [of _ "[RxByte _]"])

lemma read_exact_rest: "read_exact n rs = Some (Ok bs, rest) \<Longrightarrow> \<exists>pre. rs = pre @ rest"
  by (induction n rs arbitrary: bs rest rule: read_exact.induct)
    (auto split: option.splits prod.splits sum.splits)

lemma mcu_prompt_ok:
  assumes "mcu_wait_prompt m = Some (Ok u, m')"
  shows "mcu_sent m' = mcu_sent m @ [[CHR 0x0A]] \<and> (\<exists>pre. mcu_in m = pre @ mcu_in m')"
proof -
  from assms obtain m1 m2 bs where "mcu_send [CHR 0x0A] m = Some (Ok (), m1)"
    "on_line (read_until CHR ''#'') m1 = Some (Ok (), m2)" "on_line (read_exact 4) m2 = Some (Ok bs, m')"
    by (auto simp: mcu_wait_prompt_def mcu_then_ok mcu_return_def split: if_splits)
  moreover from this obtain pre1 pre2 where "mcu_in m1 = pre1 @ mcu_in m2" "mcu_in m2 = pre2 @ mcu_in m'"
    by (auto simp: on_line_def split: option.splits dest!: read_until_rest read_exact_rest)
  ultimately show ?thesis by (auto simp: mcu_send_ok on_line_def split: option.splits)
qed

text \<open>A line that reports the state: whether it is the one that is asked for.\<close>

fun state_line :: "ChannelMessage \<Rightarrow> string \<Rightarrow> bool option" where
  "state_line (SomPower mode) line =
     map_option (\<lambda>r. to_lowercase r = som_power_name mode) (som_power_captures line)"
| "state_line (BootSel bmode) line =
     (case boot_sel_status bmode of (mode, v, bits) \<Rightarrow>
        map_option (boot_sel_right mode bits) (boot_sel_captures ''Get'' line))"

fun confirm_line :: "ChannelMessage \<Rightarrow> string \<Rightarrow> bool" where
  "confirm_line (SomPower mode) line = contains_text (snd (som_power_status mode)) line"
| "confirm_line (BootSel bmode) line =
     (case boot_sel_status bmode of (mode, v, bits) \<Rightarrow>
        (case boot_sel_captures ''Set'' line of None \<Rightarrow> False | Some caps \<Rightarrow> boot_sel_right mode bits caps))"

fun get_request :: "ChannelMessage \<Rightarrow> string" where
  "get_request (SomPower mode) = ''sompower-g'' @ [CHR 0x0A]"
| "get_request (BootSel bmode) = ''bootsel-g'' @ [CHR 0x0A]"

fun set_request :: "ChannelMessage \<Rightarrow> string" where
  "set_request (SomPower PowerOff) = ''sompower-s 0'' @ [CHR 0x0A]"
| "set_request (SomPower PowerOn) = ''sompower-s 1'' @ [CHR 0x0A]"
| "set_request (BootSel BootHardware) = ''bootsel-s HW 0x0'' @ [CHR 0x0A]"
| "set_request (BootSel BootUsb) = ''bootsel-s SW 0x3'' @ [CHR 0x0A]"

text \<open>What a success tells, over the lines the controller sent.\<close>

definition told_right :: "ChannelMessage \<Rightarrow> mcu \<Rightarrow> mcu \<Rightarrow> bool" where
  "told_right msg m m' \<longleftrightarrow>
     (\<exists>line. mcu_said line (mcu_in m) (mcu_in m') \<and> state_line msg line = Some True \<and>
        mcu_sent m' = mcu_sent m @ [[CHR 0x0A], get_request msg])"

definition told_set :: "ChannelMessage \<Rightarrow> mcu \<Rightarrow> mcu \<Rightarrow> bool" where
  "told_set msg m m' \<longleftrightarrow>
     (\<exists>line rest line'. mcu_said line (mcu_in m) rest \<and> state_line msg line = Some False \<and>
        mcu_said line' rest (mcu_in m') \<and> confirm_line msg line' \<and>
        mcu_sent m' = mcu_sent m @ [[CHR 0x0A], get_request msg, set_request msg])"

text \<open>The requests up to the line that reports the state.\<close>

lemma mcu_asked:
  assumes "mcu_wait_prompt m = Some (Ok u, m1)" "mcu_send req m1 = Some (Ok u', m2)"
    and "mcu_wait_response P m2 = Some (Ok line, m3)"
  shows "P line \<and> mcu_said line (mcu_in m) (mcu_in m3) \<and> mcu_sent m3 = mcu_sent m @ [[CHR 0x0A], req]"
  using mcu_prompt_ok [OF assms(1)] assms(2) mcu_response_ok [OF assms(3)]
  by (auto simp: mcu_send_ok mcu_said_append)

lemma show_digits:
  "show_nat 0 = ''0''" "show_nat 1 = ''1''" "hex_digit 0 = CHR ''0''" "hex_digit 3 = CHR ''3''"
  by code_simp+

lemma som_power_ok:
  assumes "process_som_power mode m = Some (Ok (), m')"
  shows "told_right (SomPower mode) m m' \<or> told_set (SomPower mode) m m'"
proof -
  obtain v msg where st: "som_power_status mode = (v, msg)" by force
  from assms obtain m1 m2 m3 line reported where ask: "mcu_wait_prompt m = Some (Ok (), m1)"
    "mcu_send (''sompower-g'' @ [CHR 0x0A]) m1 = Some (Ok (), m2)"
    "mcu_wait_response (\<lambda>line. som_power_captures line \<noteq> None) m2 = Some (Ok line, m3)"
    and cap: "som_power_captures line = Some reported"
    and rest: "(if to_lowercase reported = som_power_name mode then mcu_return (Ok ())
       else mcu_then (mcu_send (''sompower-s '' @ show_nat (unat v) @ [CHR 0x0A])) (\<lambda>_.
            mcu_then (mcu_wait_response (contains_text msg)) (\<lambda>_. mcu_return (Ok ())))) m3 = Some (Ok (), m')"
    by (auto simp: process_som_power_def st mcu_then_ok mcu_return_ok split: option.splits)
  note asked = mcu_asked [OF ask]
  show ?thesis
  proof (cases "to_lowercase reported = som_power_name mode")
    case True
    with rest have "m' = m3" by (simp add: mcu_return_ok)
    with asked cap True show ?thesis unfolding told_right_def by auto
  next
    case False
    with rest obtain m4 line' where "mcu_send (''sompower-s '' @ show_nat (unat v) @ [CHR 0x0A]) m3 = Some (Ok (), m4)"
      "mcu_wait_response (contains_text msg) m4 = Some (Ok line', m')"
      by (auto simp: mcu_then_ok mcu_return_ok)
    moreover have "''sompower-s '' @ show_nat (unat v) @ [CHR 0x0A] = set_request (SomPower mode)"
      using st show_digits by (cases mode) auto
    moreover have "state_line (SomPower mode) line = Some False" using cap False st by simp
    moreover from calculation have "confirm_line (SomPower mode) line'"
      using st by (auto dest: mcu_response_ok)
    ultimately have "told_set (SomPower mode) m m'"
      unfolding told_set_def using asked
      by (intro exI [of _ line] exI [of _ "mcu_in m3"] exI [of _ line'])
        (auto simp: mcu_send_ok dest!: mcu_response_ok)
    then show ?thesis ..
  qed
qed

lemma boot_sel_ok:
  assumes "process_boot_sel bmode m = Some (Ok (), m')"
  shows "told_right (BootSel bmode) m m' \<or> told_set (BootSel bmode) m m'"
proof -
  obtain mode v bits where st: "boot_sel_status bmode = (mode, v, bits)" by (cases "boot_sel_status bmode")
  let ?set = "''bootsel-s '' @ mode @ '' 0x'' @ [hex_digit (unat v)] @ [CHR 0x0A]"
  from assms obtain m1 m2 m3 line caps where ask: "mcu_wait_prompt m = Some (Ok (), m1)"
    "mcu_send (''bootsel-g'' @ [CHR 0x0A]) m1 = Some (Ok (), m2)"
    "mcu_wait_response (\<lambda>line. boot_sel_captures ''Get'' line \<noteq> None) m2 = Some (Ok line, m3)"
    and cap: "boot_sel_captures ''Get'' line = Some caps"
    and rest: "(if boot_sel_right mode bits caps then mcu_return (Ok ())
       else mcu_then (mcu_send ?set) (\<lambda>_.
            mcu_then (mcu_wait_response (\<lambda>line. boot_sel_captures ''Set'' line \<noteq> None)) (\<lambda>ret.
              case boot_sel_captures ''Set'' ret of
                None \<Rightarrow> mcu_return (Err McuResponseParse)
              | Some caps \<Rightarrow>
                  mcu_return (if boot_sel_right mode bits caps then Ok () else Err McuResponseParse)))) m3 =
      Some (Ok (), m')"
    by (auto simp: process_boot_sel_def st mcu_then_ok mcu_return_ok split: option.splits)
  note asked = mcu_asked [OF ask]
  show ?thesis
  proof (cases "boot_sel_right mode bits caps")
    case True
    with rest have "m' = m3" by (simp add: mcu_return_ok)
    with asked cap True st show ?thesis unfolding told_right_def by (cases caps) auto
  next
    case False
    with rest obtain m4 line' caps' where "mcu_send ?set m3 = Some (Ok (), m4)"
      "mcu_wait_response (\<lambda>line. boot_sel_captures ''Set'' line \<noteq> None) m4 = Some (Ok line', m')"
      "boot_sel_captures ''Set'' line' = Some caps'" "boot_sel_right mode bits caps'"
      by (auto simp: mcu_then_ok mcu_return_ok)
    moreover have "?set = set_request (BootSel bmode)"
      using st by (cases bmode) (auto simp: show_digits)
    moreover have "state_line (BootSel bmode) line = Some False" using cap False st by (cases caps) simp
    moreover from calculation have "confirm_line (BootSel bmode) line'"
      using st by (auto dest: mcu_response_ok)
    ultimately have "told_set (BootSel bmode) m m'"
      unfolding told_set_def using asked
      by (intro exI [of _ line] exI [of _ "mcu_in m3"] exI [of _ line'])
        (auto simp: mcu_send_ok dest!: mcu_response_ok)
    then show ?thesis ..
  qed
qed

text \<open>
  C26. A mode that was set is one the controller told about: an operation that succeeds either
  read a status line that shows the state asked for, and sent no set request, or read one that
  shows another state, sent the set request of the mode, and then read a line that confirms it.
\<close>

theorem hifive_success_reported:
  assumes "channel_message_process msg m = Some (Ok (), m')"
  shows "told_right msg m m' \<or> told_set msg m m'"
  using assms som_power_ok boot_sel_ok by (cases msg) auto

definition example_line :: "string list \<Rightarrow> mcu" where
  "example_line ls = \<lparr>mcu_in = map RxByte (''#cmd:'' @ concat (map (\<lambda>l. l @ [CHR 0x0A]) ls)), mcu_sent = [], mcu_broken = None\<rparr>"

lemma hifive_success_reported_witness:
  "\<exists>m'. channel_message_process (BootSel BootUsb) (example_line [''bootsel-g'',
       ''Get: Bootsel Controlled by: HW, bootsel[3 2 1 0]:0 0 0 0'', ''#cmd:bootsel-s SW 0x3'',
       ''Set: Bootsel Controlled by: SW, bootsel[3 2 1 0]:0 0 1 1'']) = Some (Ok (), m') \<and>
     told_set (BootSel BootUsb) (example_line [''bootsel-g'',
       ''Get: Bootsel Controlled by: HW, bootsel[3 2 1 0]:0 0 0 0'', ''#cmd:bootsel-s SW 0x3'',
       ''Set: Bootsel Controlled by: SW, bootsel[3 2 1 0]:0 0 1 1'']) m'"
proof -
  let ?m = "example_line [''bootsel-g'',
       ''Get: Bootsel Controlled by: HW, bootsel[3 2 1 0]:0 0 0 0'', ''#cmd:bootsel-s SW 0x3'',
       ''Set: Bootsel Controlled by: SW, bootsel[3 2 1 0]:0 0 1 1'']"
  let ?sent = "[[CHR 0x0A], ''bootsel-g'' @ [CHR 0x0A], ''bootsel-s SW 0x3'' @ [CHR 0x0A]]"
  have "(case channel_message_process (BootSel BootUsb) ?m of
      Some (Ok _, m') \<Rightarrow> mcu_sent m' = ?sent | _ \<Rightarrow> False)"
    by code_simp
  then obtain m' where m': "channel_message_process (BootSel BootUsb) ?m = Some (Ok (), m')"
      "length (mcu_sent m') = 3"
    by (auto split: option.splits prod.splits sum.splits)
  then have "\<not> told_right (BootSel BootUsb) ?m m'" by (auto simp: told_right_def example_line_def)
  with m' hifive_success_reported [OF m'(1)] show ?thesis by blast
qed

subsection \<open>When an operation ends\<close>

definition stops :: "rx list \<Rightarrow> bool" where
  "stops rs \<longleftrightarrow> list_ex (\<lambda>x. case x of RxByte _ \<Rightarrow> False | _ \<Rightarrow> True) rs"

lemma stops_simps [simp]:
  "stops [] = False" "stops (RxByte b # rs) = stops rs" "stops (RxQuiet # rs)" "stops (RxEof # rs)"
  "stops (RxFail e # rs)" "stops (map RxByte bs @ rs) = stops rs"
  by (induction bs) (simp_all add: stops_def)

lemma read_until_stops:
  "stops rs \<Longrightarrow> \<exists>r rest. read_until c rs = Some (r, rest) \<and> (is_ok r \<longrightarrow> stops rest)"
  by (induction c rs rule: read_until.induct) auto

lemma read_exact_stops:
  "stops rs \<Longrightarrow> \<exists>r rest. read_exact n rs = Some (r, rest) \<and> (is_ok r \<longrightarrow> stops rest)"
  by (induction n rs rule: read_exact.induct) (fastforce split: sum.splits)+

lemma next_line_stops:
  "stops rs \<Longrightarrow> \<exists>r rest. next_line acc rs = Some (r, rest) \<and> (is_ok r \<longrightarrow> stops rest)"
  by (induction acc rs rule: next_line.induct) auto

lemma wait_line_stops:
  "stops rs \<Longrightarrow> \<exists>r rest. wait_line is_match rs = Some (r, rest) \<and> (is_ok r \<longrightarrow> stops rest)"
proof (induction is_match rs rule: wait_line.induct)
  case (1 is_match rs)
  from next_line_stops [OF 1(2), of "[]"] obtain r rest where
    n: "next_line [] rs = Some (r, rest)" "is_ok r \<longrightarrow> stops rest" by blast
  show ?case
  proof (cases r)
    case (Inl e)
    with n show ?thesis by (simp add: wait_line.simps [of is_match rs])
  next
    case (Inr l)
    show ?thesis
    proof (cases l)
      case None
      with n Inr show ?thesis by (simp add: wait_line.simps [of is_match rs])
    next
      case (Some line)
      with n Inr have "stops rest" by simp
      with n Inr Some 1(1) [OF n(1) refl Inr Some] show ?thesis
        by (cases "is_match line") (simp_all add: wait_line.simps [of is_match rs])
    qed
  qed
qed

text \<open>An operation on a line that stops ends, and leaves it so when it succeeds.\<close>

definition ends :: "'a mcu_op \<Rightarrow> bool" where
  "ends f \<longleftrightarrow> (\<forall>m. stops (mcu_in m) \<longrightarrow>
     (\<exists>r m'. f m = Some (r, m') \<and> (is_ok r \<longrightarrow> stops (mcu_in m'))))"

named_theorems ends_intros

lemma ends_then [ends_intros]:
  assumes f: "ends f" and g: "\<And>a. ends (g a)"
  shows "ends (mcu_then f g)"
  unfolding ends_def
proof (intro allI impI)
  fix m :: mcu
  assume "stops (mcu_in m)"
  with f obtain r m1 where fm: "f m = Some (r, m1)" "is_ok r \<longrightarrow> stops (mcu_in m1)"
    unfolding ends_def by blast
  show "\<exists>r m'. mcu_then f g m = Some (r, m') \<and> (is_ok r \<longrightarrow> stops (mcu_in m'))"
  proof (cases r)
    case (Inl e)
    with fm show ?thesis by (simp add: mcu_then_def)
  next
    case (Inr a)
    with fm g show ?thesis by (simp add: mcu_then_def ends_def)
  qed
qed

lemma ends_return [ends_intros]: "ends (mcu_return r)"
  by (simp add: ends_def mcu_return_def)

lemma ends_send [ends_intros]: "ends (mcu_send req)"
  by (auto simp: ends_def mcu_send_def split: option.splits)

lemma ends_on_line:
  "(\<And>rs. stops rs \<Longrightarrow> \<exists>r rest. f rs = Some (r, rest) \<and> (is_ok r \<longrightarrow> stops rest)) \<Longrightarrow> ends (on_line f)"
  unfolding ends_def on_line_def by fastforce

lemma ends_response [ends_intros]: "ends (mcu_wait_response P)"
  unfolding mcu_wait_response_def by (intro ends_on_line wait_line_stops)

lemma ends_prompt [ends_intros]: "ends mcu_wait_prompt"
  unfolding mcu_wait_prompt_def
  by (intro ends_intros ends_on_line read_until_stops read_exact_stops)

lemma ends_cases [ends_intros]:
  "ends f \<Longrightarrow> (\<And>a. ends (g a)) \<Longrightarrow> ends (case x of None \<Rightarrow> f | Some a \<Rightarrow> g a)"
  "ends f \<Longrightarrow> ends f' \<Longrightarrow> ends (if b then f else f')"
  by (auto split: option.split)

lemma ends_process: "ends (channel_message_process msg)"
proof (cases msg)
  case (SomPower mode)
  then show ?thesis unfolding SomPower channel_message_process.simps process_som_power_def
    by (auto split: prod.split intro!: ends_intros)
next
  case (BootSel bmode)
  then show ?thesis unfolding BootSel channel_message_process.simps process_boot_sel_def
    by (auto split: prod.split intro!: ends_intros)
qed

text \<open>
  An operation ends once the controller falls silent for the time of a read, or the line
  ends or fails, with every message that was sent answered.
\<close>

theorem hifive_operation_ends:
  assumes "stops (mcu_in m)"
  shows "\<exists>r m'. channel_message_process msg m = Some (r, m') \<and>
    fst (mcu_process [msg] m) = [Some r] \<and> (stops (mcu_in m') \<or> r \<noteq> Ok ())"
proof -
  from assms ends_process [of msg] obtain r m' where
    "channel_message_process msg m = Some (r, m')" "is_ok r \<longrightarrow> stops (mcu_in m')"
    unfolding ends_def by blast
  then show ?thesis by auto
qed

lemma hifive_operation_ends_witness:
  "\<exists>r m'. channel_message_process (SomPower PowerOn)
     \<lparr>mcu_in = [RxByte CHR ''#'', RxQuiet], mcu_sent = [], mcu_broken = None\<rparr> = Some (r, m')"
  using hifive_operation_ends [of "\<lparr>mcu_in = [RxByte CHR ''#'', RxQuiet], mcu_sent = [], mcu_broken = None\<rparr>"
      "SomPower PowerOn"] by auto

text \<open>
  Nothing else does: the timer is started anew for every line, so a controller that keeps
  sending other lines keeps the operation, and those behind it, waiting.
\<close>

lemma next_line_line:
  "CHR 0x0A \<notin> set l \<Longrightarrow> next_line acc (map RxByte l @ RxByte CHR 0x0A # rs) = Some (Ok (Some (strip_cr (acc @ l))), rs)"
  by (induction l arbitrary: acc) auto

lemma mcu_chatter:
  "list_all (\<lambda>l. CHR 0x0A \<notin> set l \<and> \<not> P (strip_cr l)) ls \<Longrightarrow>
   wait_line P (concat (map (\<lambda>l. map RxByte l @ [RxByte CHR 0x0A]) ls)) = None"
  by (induction ls) (simp_all add: wait_line.simps next_line_line)

end
