(* ===== verification/Mediatek_Brom.thy ===== *)
theory Mediatek_Brom
  imports Provider_Common
begin

section \<open>The Mediatek boot ROM provider (boardswarm/src/mediatek_brom.rs)\<close>

text \<open>
  A serial device that is a Mediatek boot ROM becomes a volume with one target, which collects
  a download agent and sends it when it is shut down; committing the volume starts it. The
  mediatek_brom library and the serial port are the record \<open>brom_lib\<close>. The lemmas: what is sent
  is what was written in sequence, a commit starts it at the address it was sent to, and the
  target can be filled again after a shutdown, up to what is left of its buffer.
\<close>

subsection \<open>The library\<close>

record hwcode =
  hw_code :: u16
  hw_version :: string
  hw_da_address :: "u32 option"

text \<open>\<open>br_task\<close> tells whether the task that owns the port still answers.\<close>

record ('b, 'e, 'w) brom_lib =
  br_open :: "string \<Rightarrow> 'w \<Rightarrow> ('e, unit) result \<times> 'w"
  br_handshake :: "string \<Rightarrow> 'w \<Rightarrow> ('e, 'b) result \<times> 'w"
  br_hwcode :: "string \<Rightarrow> 'b \<Rightarrow> 'w \<Rightarrow> ('e, hwcode) result \<times> 'w"
  br_send_da :: "string \<Rightarrow> 'b \<Rightarrow> u32 \<Rightarrow> bytes \<Rightarrow> 'w \<Rightarrow> ('e, unit) result \<times> 'w"
  br_jump_da64 :: "string \<Rightarrow> 'b \<Rightarrow> u32 \<Rightarrow> 'w \<Rightarrow> ('e, unit) result \<times> 'w"
  br_show_error :: "'e \<Rightarrow> string"
  br_task :: "'w \<Rightarrow> task_end"

subsection \<open>Handling a serial device\<close>

definition brom_admit :: "(udev_device \<Rightarrow> string option) \<Rightarrow> udev_device \<Rightarrow> (string \<times> string) option" where
  "brom_admit devnode device =
     (if property_u64 device ''ID_VENDOR_ID'' 16 \<noteq> Some 0x0e8d then None
      else if property_u64 device ''ID_MODEL_ID'' 16 \<noteq> Some 0x0003 then None
      else case devnode device of
             None \<Rightarrow> None
           | Some node \<Rightarrow> (case file_name node of None \<Rightarrow> None | Some name \<Rightarrow> Some (node, name)))"

text \<open>The setup that is spawned is the second result.\<close>

definition brom_handle ::
  "(udev_device \<Rightarrow> string option) \<Rightarrow> string \<Rightarrow> udev_device \<Rightarrow> u64 \<Rightarrow> registration_map \<times> ('p, 'w) Server \<Rightarrow>
   bool \<times> ((string \<times> u64) \<times> string \<times> Properties) option \<times> registration_map \<times> ('p, 'w) Server" where
  "brom_handle devnode provider_name device seqnum ms =
     (case brom_admit devnode device of
        None \<Rightarrow> (False, None, ms)
      | Some (node, name) \<Rightarrow>
          (let (prereg, m1, s1) = pre_register (ud_syspath device) seqnum (fst ms) (snd ms);
               props = properties_extend (udev_properties device name)
                 [(PROVIDER_NAME, provider_name), (PROVIDER, ''mediatek-brom'')]
           in (True, Some (prereg, node, props), m1, s1)))"

definition brom_remove :: "udev_device \<Rightarrow> registration_map \<times> ('p, 'w) Server \<Rightarrow>
  registration_map \<times> ('p, 'w) Server" where
  "brom_remove device ms = remove_device (ud_syspath device) (fst ms) (snd ms)"

subsection \<open>The volume\<close>

record 'b MediatekBromVolume =
  bv_port :: string
  bv_brom :: 'b
  bv_address :: u32
  bv_targets :: "VolumeTargetInfo list"

definition brom_volume_new :: "string \<Rightarrow> 'b \<Rightarrow> u32 \<Rightarrow> 'b MediatekBromVolume" where
  "brom_volume_new port brom address =
     \<lparr>bv_port = port, bv_brom = brom, bv_address = address,
      bv_targets = [\<lparr>target_name = ''brom'', readable = False, writable = True, seekable = False,
        target_size = None, blocksize = None\<rparr>]\<rparr>"

definition hex4 :: "u16 \<Rightarrow> string" where
  "hex4 v = map (\<lambda>k. hex_digit (unat v div 16 ^ k mod 16)) [3, 2, 1, 0]"

text \<open>\<open>None\<close> when the setup gives up; its pre-registration is dropped then.\<close>

definition brom_setup ::
  "('b, 'e, 'w) brom_lib \<Rightarrow> string \<Rightarrow> u32 option \<Rightarrow> Properties \<Rightarrow> 'w \<Rightarrow>
   (Properties \<times> 'b MediatekBromVolume) option \<times> 'w" where
  "brom_setup lib node address props w =
     (case br_open lib node w of
        (Err e, w1) \<Rightarrow> (None, w1)
      | (Ok _, w1) \<Rightarrow>
     (case br_handshake lib node w1 of
        (Err e, w2) \<Rightarrow> (None, w2)
      | (Ok brom, w2) \<Rightarrow>
     (case br_hwcode lib node brom w2 of
        (Err e, w3) \<Rightarrow> (None, w3)
      | (Ok code, w3) \<Rightarrow>
     (case (case address of Some a \<Rightarrow> Some a | None \<Rightarrow> hw_da_address code) of
        None \<Rightarrow> (None, w3)
      | Some a \<Rightarrow>
          (let props1 = properties_insert props ''mediatek-brom.hw_code'' (hex4 (hw_code code));
               props2 = properties_insert props1 ''mediatek-brom.hw_version'' (hw_version code)
           in (Some (props2, brom_volume_new node brom a), w3))))))"

subsection \<open>The task and its commands\<close>

datatype BromCommand = SendDa bytes | Execute

fun brom_process ::
  "('b, 'e, 'w) brom_lib \<Rightarrow> 'b MediatekBromVolume \<Rightarrow> BromCommand \<Rightarrow> 'w \<Rightarrow> ('e, unit) result \<times> 'w" where
  "brom_process lib v (SendDa data) w = br_send_da lib (bv_port v) (bv_brom v) (bv_address v) data w"
| "brom_process lib v Execute w = br_jump_da64 lib (bv_port v) (bv_brom v) (bv_address v) w"

definition brom_command where
  "brom_command lib v c w = ask_task (br_task lib w) (brom_process lib v c) w"

definition brom_commit ::
  "('b, 'e, 'w) brom_lib \<Rightarrow> 'b MediatekBromVolume \<Rightarrow> 'w \<Rightarrow> (VolumeError, unit) result \<times> 'w" where
  "brom_commit lib v w =
     (case brom_command lib v Execute w of
        (NotSent, w1) \<Rightarrow> (Err (VolumeInternal ''channel closed''), w1)
      | (NoReply, w1) \<Rightarrow> (Err (VolumeInternal ''channel closed''), w1)
      | (Replied r, w1) \<Rightarrow> (map_err (\<lambda>e. VolumeFailure (br_show_error lib e)) r, w1))"

subsection \<open>The target\<close>

text \<open>\<open>bt_capacity\<close> is the capacity of the buffer, at first what \<^verbatim>\<open>with_capacity\<close> is asked for.\<close>

record BromVolumeTarget =
  bt_data :: bytes
  bt_capacity :: nat

definition brom_target_new :: "u64 option \<Rightarrow> BromVolumeTarget" where
  "brom_target_new size_hint =
     \<lparr>bt_data = [],
      bt_capacity = min (case size_hint of None \<Rightarrow> 1024 * 1024 | Some n \<Rightarrow> unat n) (8 * 1024 * 1024)\<rparr>"

definition brom_write ::
  "bytes \<Rightarrow> u64 \<Rightarrow> BromVolumeTarget \<Rightarrow> (status, u64) result \<times> BromVolumeTarget" where
  "brom_write data offset t =
     (if unat offset \<noteq> length (bt_data t) then (Err (Status OutOfRange ''Invalid offset''), t)
      else if length data + length (bt_data t) > bt_capacity t
        then (Err (Status OutOfRange ''No more capacity''), t)
      else (Ok (of_nat (length data)), t\<lparr>bt_data := bt_data t @ data\<rparr>))"

text \<open>\<^verbatim>\<open>split\<close> takes the data and leaves the rest of the capacity.\<close>

definition brom_shutdown ::
  "('b, 'e, 'w) brom_lib \<Rightarrow> 'b MediatekBromVolume \<Rightarrow> BromVolumeTarget \<times> 'w \<Rightarrow>
   (status, unit) result \<times> BromVolumeTarget \<times> 'w" where
  "brom_shutdown lib v tw =
     (case tw of (t, w) \<Rightarrow>
        let t1 = t\<lparr>bt_data := [], bt_capacity := bt_capacity t - length (bt_data t)\<rparr> in
        case brom_command lib v (SendDa (bt_data t)) w of
          (NotSent, w1) \<Rightarrow> (Err (Status Internal ''channel closed''), t1, w1)
        | (NoReply, w1) \<Rightarrow> (Err (Status Internal ''channel closed''), t1, w1)
        | (Replied r, w1) \<Rightarrow>
            (map_err (\<lambda>e. Status FailedPrecondition (br_show_error lib e)) r, t1, w1))"

definition brom_target ::
  "('b, 'e, 'w) brom_lib \<Rightarrow> 'b MediatekBromVolume \<Rightarrow> (BromVolumeTarget \<times> 'w) VolumeTarget" where
  "brom_target lib v =
     \<lparr>vt_read = default_read,
      vt_write = (\<lambda>data offset (t, w). case brom_write data offset t of (r, t1) \<Rightarrow> (Some r, t1, w)),
      vt_flush = default_flush,
      vt_shutdown = (\<lambda>tw. completed (brom_shutdown lib v tw))\<rparr>"

definition brom_open ::
  "('b, 'e, 'w) brom_lib \<Rightarrow> 'b MediatekBromVolume \<Rightarrow> string \<Rightarrow> u64 option \<Rightarrow> (BromVolumeTarget, 'w) boxed \<Rightarrow>
   (VolumeError, VolumeTargetInfo \<times> (BromVolumeTarget, 'w) boxed VolumeTarget) result \<times>
   (BromVolumeTarget, 'w) boxed" where
  "brom_open lib v target len b =
     (if target = ''brom''
      then (case box_target (brom_target lib v) (brom_target_new len) b of
              (vt, b1) \<Rightarrow> (Ok (bv_targets v ! 0, vt), b1))
      else (Err UnknownTargetRequested, b))"

definition brom_volume ::
  "('b, 'e, 'w) brom_lib \<Rightarrow> 'b MediatekBromVolume \<Rightarrow> (BromVolumeTarget, 'w) boxed Volume" where
  "brom_volume lib v =
     \<lparr>vol_targets = (\<lambda>w. (bv_targets v, True)), vol_open = brom_open lib v,
      vol_commit = on_world (brom_commit lib v), vol_erase = default_erase\<rparr>"

subsection \<open>The download agent\<close>

interpretation brom: staging bt_data bt_capacity brom_write
proof
  fix offset :: u64 and data :: bytes and t :: BromVolumeTarget
  assume "unat offset = length (bt_data t)" "length data + length (bt_data t) \<le> bt_capacity t"
  then show "\<exists>t'. brom_write data offset t = (Ok (of_nat (length data)), t') \<and>
      bt_data t' = bt_data t @ data \<and> bt_capacity t' = bt_capacity t"
    by (simp add: brom_write_def)
next
  fix offset :: u64 and data :: bytes and t :: BromVolumeTarget
  assume "unat offset \<noteq> length (bt_data t) \<or> bt_capacity t < length data + length (bt_data t)"
  then show "\<exists>e. brom_write data offset t = (Err e, t) \<and> status_code e = OutOfRange"
    by (auto simp: brom_write_def)
qed

lemma brom_command_running:
  "br_task lib w = Running \<Longrightarrow> brom_command lib v c w =
     (Replied (fst (brom_process lib v c w)), snd (brom_process lib v c w))"
  by (simp add: brom_command_def split_beta)

lemma brom_shutdown_sends:
  "br_task lib w = Running \<Longrightarrow> brom_shutdown lib v (t, w) =
     (map_err (\<lambda>e. Status FailedPrecondition (br_show_error lib e))
        (fst (br_send_da lib (bv_port v) (bv_brom v) (bv_address v) (bt_data t) w)),
      t\<lparr>bt_data := [], bt_capacity := bt_capacity t - length (bt_data t)\<rparr>,
      snd (br_send_da lib (bv_port v) (bv_brom v) (bv_address v) (bt_data t) w))"
  by (simp add: brom_shutdown_def brom_command_running Let_def)

text \<open>A task that is gone fails the shutdown and the commit, and nothing reaches the port.\<close>

lemma brom_task_gone:
  assumes "br_task lib w \<noteq> Running"
  shows "\<exists>t'. brom_shutdown lib v (t, w) = (Err (Status Internal ''channel closed''), t', w)"
    and "brom_commit lib v w = (Err (VolumeInternal ''channel closed''), w)"
  using assms by (cases "br_task lib w"; simp add: brom_shutdown_def brom_commit_def brom_command_def)+

text \<open>After a shutdown a target takes another agent that fits what is left of its buffer.\<close>

lemma brom_refill:
  assumes "brom_shutdown lib v (t, w) = (r, t1, w1)" "length (concat ds) + length (bt_data t) \<le> bt_capacity t"
    and "bt_capacity t < 2 ^ 64"
  shows "bt_data (brom.stages (in_sequence 0 ds) t1) = concat ds"
proof -
  have "t1 = t\<lparr>bt_data := [], bt_capacity := bt_capacity t - length (bt_data t)\<rparr>"
    using assms(1) by (auto simp: brom_shutdown_def Let_def split: prod.splits task_reply.splits)
  with assms(2,3) show ?thesis by (intro brom.stages_sequence) simp_all
qed

text \<open>
  A download agent that is written to the target in sequence, within the announced length
  (a megabyte when none is announced) and eight megabytes, and shut down, is sent to the board
  whole and in order, to the address the commit of the volume then jumps to; the errors of the
  board are reported by the shutdown and by the commit.
\<close>

theorem brom_agent_started:
  assumes "\<And>w. br_task lib w = Running"
    and "length (concat ds) \<le> min (case len of None \<Rightarrow> 1024 * 1024 | Some n \<Rightarrow> unat n) (8 * 1024 * 1024)"
    and "br_send_da lib (bv_port v) (bv_brom v) (bv_address v) (concat ds) (bx_world b) = (sent, w1)"
    and "br_jump_da64 lib (bv_port v) (bv_brom v) (bv_address v) w1 = (started, w2)"
  shows "\<exists>info vt b1 b2 b3. vol_open (brom_volume lib v) ''brom'' len b = (Ok (info, vt), b1) \<and>
    volume_io_loop vt (requests (write_requests (in_sequence 0 ds) @ [ReqShutdown])) b1 =
      (map (\<lambda>d. QWrite (Some (Ok (of_nat (length d))))) ds @
         [QShutdown (Some (map_err (\<lambda>e. Status FailedPrecondition (br_show_error lib e)) sent))], b2) \<and>
    vol_commit (brom_volume lib v) b2 =
      (map_err (\<lambda>e. VolumeFailure (br_show_error lib e)) started, b3) \<and> bx_world b3 = w2"
proof -
  let ?vt = "brom_target lib v" and ?n = "length (bx_cells b)"
  let ?t = "brom_target_new len" and ?ws = "in_sequence 0 ds"
  let ?b = "b\<lparr>bx_cells := bx_cells b @ [?t]\<rparr>"
  have op: "vol_open (brom_volume lib v) ''brom'' len b =
      (Ok (bv_targets v ! 0, boxed_target ?vt ?n), ?b)"
    by (simp add: brom_volume_def brom_open_def box_target_def)
  have cell: "bx_cells ?b ! ?n = ?t" by simp
  have start: "bt_data ?t = []" "length (concat ds) \<le> bt_capacity ?t" "bt_capacity ?t < 2 ^ 64"
    using assms(2) by (simp_all add: brom_target_new_def)
  have data: "bt_data (brom.stages ?ws ?t) = concat ds"
    using start by (intro brom.stages_sequence)
  have "vt_write ?vt = (\<lambda>d off (t, w). case brom_write d off t of (r, t1) \<Rightarrow> (Some r, t1, w))"
    by (simp add: brom_target_def)
  from brom.staged_session [OF this, of ?n ?b ds "[ReqShutdown]"] start
  have "volume_io_loop (boxed_target ?vt ?n) (requests (write_requests ?ws @ [ReqShutdown])) ?b =
    (case volume_io_loop (boxed_target ?vt ?n) (requests [ReqShutdown])
       (?b\<lparr>bx_cells := (bx_cells ?b)[?n := brom.stages ?ws ?t]\<rparr>) of
     (rs, b1) \<Rightarrow> (map (\<lambda>d. QWrite (Some (Ok (of_nat (length d))))) ds @ rs, b1))"
    unfolding cell by simp
  with op data assms(1,3,4) show ?thesis
    by (simp add: boxed_target_def on_cell_def brom_target_def completed_def brom_shutdown_sends
        brom_volume_def on_world_def brom_commit_def brom_command_running)
qed

text \<open>A board that records what it is sent, for the example.\<close>

definition recording_brom :: "(unit, string, (u32 \<times> bytes) list) brom_lib" where
  "recording_brom =
     \<lparr>br_open = (\<lambda>p w. (Ok (), w)), br_handshake = (\<lambda>p w. (Ok (), w)),
      br_hwcode = (\<lambda>p b w. (Ok \<lparr>hw_code = 0x8188, hw_version = ''0'', hw_da_address = Some 0x201000\<rparr>, w)),
      br_send_da = (\<lambda>p b a d w. (Ok (), w @ [(a, d)])),
      br_jump_da64 = (\<lambda>p b a w. (Err ''refused'', w)),
      br_show_error = (\<lambda>e. e), br_task = (\<lambda>w. Running)\<rparr>"

lemma brom_agent_started_witness:
  "\<exists>info vt b1 b2 b3. vol_open (brom_volume recording_brom (brom_volume_new ''/dev/ttyACM0'' () 0x201000))
      ''brom'' None \<lparr>bx_cells = [], bx_world = []\<rparr> = (Ok (info, vt), b1) \<and>
    volume_io_loop vt (requests [ReqWrite [1, 2] 0, ReqWrite [3] 2, ReqShutdown]) b1 =
      ([QWrite (Some (Ok 2)), QWrite (Some (Ok 1)), QShutdown (Some (Ok ()))], b2) \<and>
    vol_commit (brom_volume recording_brom (brom_volume_new ''/dev/ttyACM0'' () 0x201000)) b2 =
      (Err (VolumeFailure ''refused''), b3) \<and> bx_world b3 = [(0x201000, [1, 2, 3])]"
  using brom_agent_started [of recording_brom "[[1, 2], [3]]" None
      "brom_volume_new ''/dev/ttyACM0'' () 0x201000" "\<lparr>bx_cells = [], bx_world = []\<rparr>"
      "Ok ()" "[(0x201000, [1, 2, 3])]" "Err ''refused''" "[(0x201000, [1, 2, 3])]"]
  by (simp add: recording_brom_def brom_volume_new_def write_requests_def)

text \<open>The address: the configured one, else that of the hardware, else no volume.\<close>

lemma brom_setup_address:
  assumes "brom_setup lib node address props w = (Some (props', v), w')"
  shows "bv_port v = node \<and> (\<exists>code :: hwcode. properties_get props' ''mediatek-brom.hw_code'' = Some (hex4 (hw_code code)) \<and>
    (case address of Some a \<Rightarrow> bv_address v = a | None \<Rightarrow> hw_da_address code = Some (bv_address v)))"
  using assms
  by (auto simp: brom_setup_def brom_volume_new_def Let_def
      split: prod.splits sum.splits option.splits)

end
