(* ===== verification/Provider_Config.thy ===== *)
theory Provider_Config
  imports Config_File Server_Main Fastboot Gpio Pdudaemon Eswin Hifive Mediatek_Brom
begin

section \<open>The parameters of the providers\<close>

text \<open>
  The values that the configuration file holds for the providers, and what the providers make of
  them with \<^verbatim>\<open>serde_yaml::from_value\<close> when they start. A value that is refused is unwrapped: for
  the providers that \<^verbatim>\<open>main\<close> starts itself (the users of the serial provider, PDUDaemon and remote
  boardswarm) the server panics, for the others only their task ends. The lemmas: when starting
  comes to an end, and that the two users of the serial provider cannot be left without
  parameters, although none of their parameters is mandatory.
\<close>

subsection \<open>Their structs\<close>

definition de_word :: "('d, 'y) reader \<Rightarrow> 'd \<Rightarrow> 'a::len word option" where
  "de_word r d =
     Option.bind (rd_int r d) (\<lambda>n. if 0 \<le> n \<and> n < 2 ^ LENGTH('a) then Some (word_of_int n) else None)"

definition de_fastboot :: "('d, 'y) reader \<Rightarrow> 'd \<Rightarrow> FastbootParameters option" where
  "de_fastboot r = de_struct r [''match'', ''targets'', ''stage''] (\<lambda>es.
     Option.bind (de_field ''match'' (de_string_map r) es) (\<lambda>matches.
     Option.bind (de_default ''targets'' [] (de_vec r (rd_string r)) es) (\<lambda>targets.
     Option.bind (de_default ''stage'' False (rd_bool r) es) (\<lambda>stage.
     Some \<lparr>fp_match = matches, fp_targets = targets, fp_stage = stage\<rparr>))))"

definition de_eswin :: "('d, 'y) reader \<Rightarrow> 'd \<Rightarrow> EswinEic7700StorageParameters option" where
  "de_eswin r = de_struct r [''match'', ''mountpoint''] (\<lambda>es.
     Option.bind (de_field ''match'' (de_string_map r) es) (\<lambda>matches.
     Option.bind (de_field ''mountpoint'' (rd_string r) es) (\<lambda>mountpoint.
     Some \<lparr>ep_match = matches, ep_mountpoint = mountpoint\<rparr>)))"

definition de_line :: "('d, 'y) reader \<Rightarrow> 'd \<Rightarrow> Line option" where
  "de_line r = de_struct r [''line_name'', ''line_number'', ''name''] (\<lambda>es.
     Option.bind (de_default ''line_name'' None (de_option r (rd_string r)) es) (\<lambda>l_name.
     Option.bind (de_default ''line_number'' None (de_option r (de_word r)) es) (\<lambda>l_number.
     Option.bind (de_field ''name'' (rd_string r) es) (\<lambda>name.
     Some \<lparr>line_name = l_name, line_number = l_number, gl_name = name\<rparr>))))"

definition de_gpio :: "('d, 'y) reader \<Rightarrow> 'd \<Rightarrow> GpioParameters option" where
  "de_gpio r = de_struct r [''match'', ''lines''] (\<lambda>es.
     Option.bind (de_field ''match'' (de_string_map r) es) (\<lambda>matches.
     Option.bind (de_field ''lines'' (de_vec r (de_line r)) es) (\<lambda>ls.
     Some \<lparr>gpio_match = matches, gpio_lines = ls\<rparr>)))"

text \<open>\<^verbatim>\<open>#[serde(untagged)]\<close>: the first variant that the buffered value can be read as.\<close>

definition de_ports :: "('d, 'y) reader \<Rightarrow> 'd \<Rightarrow> Ports option" where
  "de_ports r d =
     (case de_word r (rd_buffer r d) of
        Some n \<Rightarrow> Some (NumPorts n)
      | None \<Rightarrow> map_option NamedPorts (de_vec r (rd_string r) (rd_buffer r d)))"

definition de_pdu :: "('d, 'y) reader \<Rightarrow> 'd \<Rightarrow> Pdu option" where
  "de_pdu r = de_struct r [''name'', ''ports''] (\<lambda>es.
     Option.bind (de_field ''name'' (rd_string r) es) (\<lambda>name.
     Option.bind (de_field ''ports'' (de_ports r) es) (\<lambda>ports.
     Some \<lparr>pdu_name = name, pdu_ports = ports\<rparr>)))"

definition de_pdudaemon :: "('d, 'y) reader \<Rightarrow> 'd \<Rightarrow> PduDaemonParameters option" where
  "de_pdudaemon r = de_struct r [''uri'', ''pdus''] (\<lambda>es.
     Option.bind (de_field ''uri'' (rd_string r) es) (\<lambda>uri.
     Option.bind (de_field ''pdus'' (de_vec r (de_pdu r)) es) (\<lambda>ps.
     Some \<lparr>pdu_uri = uri, pdus = ps\<rparr>)))"

record HifiveP550MCUParameters =
  hp_match :: "(string \<times> string) list"

definition de_hifive :: "('d, 'y) reader \<Rightarrow> 'd \<Rightarrow> HifiveP550MCUParameters option" where
  "de_hifive r = de_struct r [''match''] (\<lambda>es.
     Option.bind (de_default ''match'' [] (de_string_map r) es) (\<lambda>matches.
     Some \<lparr>hp_match = matches\<rparr>))"

record MediatekBromParameters =
  mp_address :: "u32 option"

definition de_brom :: "('d, 'y) reader \<Rightarrow> 'd \<Rightarrow> MediatekBromParameters option" where
  "de_brom r = de_struct r [''address''] (\<lambda>es.
     Option.bind (de_default ''address'' None (de_option r (de_word r)) es) (\<lambda>address.
     Some \<lparr>mp_address = address\<rparr>))"

record BoardswarmParameters =
  bp_uri :: string
  bp_token :: string

definition de_boardswarm :: "('d, 'y) reader \<Rightarrow> 'd \<Rightarrow> BoardswarmParameters option" where
  "de_boardswarm r = de_struct r [''uri'', ''token''] (\<lambda>es.
     Option.bind (de_field ''uri'' (rd_string r) es) (\<lambda>uri.
     Option.bind (de_field ''token'' (rd_string r) es) (\<lambda>token.
     Some \<lparr>bp_uri = uri, bp_token = token\<rparr>)))"

subsection \<open>How the providers read them\<close>

definition unwrap :: "'a option \<Rightarrow> 'a outcome" where
  "unwrap x = (case x of None \<Rightarrow> Panicked | Some a \<Rightarrow> Done a)"

text \<open>A fastboot or a storage provider without parameters takes the default ones.\<close>

definition fastboot_parameters :: "('y, 'y) reader \<Rightarrow> 'y option \<Rightarrow> FastbootParameters outcome" where
  "fastboot_parameters r y =
     (case y of
        Some v \<Rightarrow> unwrap (de_fastboot r v)
      | None \<Rightarrow> Done \<lparr>fp_match = [], fp_targets = [], fp_stage = False\<rparr>)"

definition eswin_parameters :: "('y, 'y) reader \<Rightarrow> 'y option \<Rightarrow> EswinEic7700StorageParameters outcome" where
  "eswin_parameters r y =
     (case y of
        Some v \<Rightarrow> unwrap (de_eswin r v) | None \<Rightarrow> Done \<lparr>ep_match = [], ep_mountpoint = ''''\<rparr>)"

definition gpio_parameters :: "('y, 'y) reader \<Rightarrow> 'y \<Rightarrow> GpioParameters outcome" where
  "gpio_parameters r v = unwrap (de_gpio r v)"

definition hifive_provider_new :: "('y, 'y) reader \<Rightarrow> 'y \<Rightarrow> HifiveP550MCUParameters outcome" where
  "hifive_provider_new r v = unwrap (de_hifive r v)"

definition brom_provider_new :: "('y, 'y) reader \<Rightarrow> 'y \<Rightarrow> MediatekBromParameters outcome" where
  "brom_provider_new r v = unwrap (de_brom r v)"

definition pdudaemon_provider ::
  "('y, 'y) reader \<Rightarrow> ('d, 'e, 'w) pdu_lib \<Rightarrow> ('d PduDaemonActuator \<Rightarrow> ('p, 'w) Actuator) \<Rightarrow> string \<Rightarrow> 'y \<Rightarrow>
   ('p, 'w) Server \<Rightarrow> ('p, 'w) Server outcome" where
  "pdudaemon_provider r lib actuator_of name v s =
     (case de_pdudaemon r v of
        None \<Rightarrow> Panicked | Some params \<Rightarrow> pdudaemon_start lib actuator_of name params s)"

text \<open>
  The remote boardswarm provider: the address, and in its task the token, which is read from a
  file in the directory of the configuration; without it the task ends.
\<close>

definition boardswarm_provider ::
  "('y, 'y) reader \<Rightarrow> (string \<Rightarrow> 'u option) \<Rightarrow> (string \<Rightarrow> string option) \<Rightarrow> 'y \<Rightarrow> ('p, 'w) Server \<Rightarrow>
   ('u \<times> string option) outcome" where
  "boardswarm_provider r parse_uri read_file v s =
     (case de_boardswarm r v of
        None \<Rightarrow> Panicked
      | Some params \<Rightarrow>
          (case parse_uri (bp_uri params) of
             None \<Rightarrow> Panicked
           | Some uri \<Rightarrow>
               Done (uri, map_option trim_end (read_file (path_join (config_dir s) (bp_token params))))))"

subsection \<open>Starting them\<close>

text \<open>
  What \<^verbatim>\<open>main\<close> starts the providers with: the YAML library, the default value (null), the PDUDaemon
  library and the parser of addresses.
\<close>

record ('y, 'd, 'e, 'u, 'p, 'w) start_env =
  se_reader :: "('y, 'y) reader"
  se_null :: 'y
  se_pdu_lib :: "('d, 'e, 'w) pdu_lib"
  se_pdu_actuator :: "'d PduDaemonActuator \<Rightarrow> ('p, 'w) Actuator"
  se_parse_uri :: "string \<Rightarrow> 'u option"

text \<open>
  An entry of the file that \<open>start_one\<close> accepts, with what its provider does before it spawns a
  task; the panic of a task that was spawned stays in the task.
\<close>

definition parameters_or_null :: "('y, 'd, 'e, 'u, 'p, 'w) start_env \<Rightarrow> 'y ProviderConfig \<Rightarrow> 'y" where
  "parameters_or_null env p = (case pc_parameters p of None \<Rightarrow> se_null env | Some v \<Rightarrow> v)"

definition start_provider ::
  "('y, 'd, 'e, 'u, 'p, 'w) start_env \<Rightarrow> 'y ProviderConfig \<Rightarrow> ('p, 'w) Server \<Rightarrow> ('p, 'w) Server outcome" where
  "start_provider env p s =
     (let v = parameters_or_null env p; kind = pc_provider p; r = se_reader env in
      if kind = ''hifive-p550-mcu'' then
        (case hifive_provider_new r v of Panicked \<Rightarrow> Panicked | Done _ \<Rightarrow> Done s)
      else if kind = ''mediatek-brom'' then
        (case brom_provider_new r v of Panicked \<Rightarrow> Panicked | Done _ \<Rightarrow> Done s)
      else if kind = ''pdudaemon'' then
        pdudaemon_provider r (se_pdu_lib env) (se_pdu_actuator env) (pc_name p) v s
      else if kind = ''boardswarm'' then
        (case boardswarm_provider r (se_parse_uri env) (\<lambda>_. None) v s of Panicked \<Rightarrow> Panicked | Done _ \<Rightarrow> Done s)
      else Done s)"

fun start_entries ::
  "('y, 'd, 'e, 'u, 'p, 'w) start_env \<Rightarrow> 'y ProviderConfig list \<Rightarrow> 'y startup \<Rightarrow> ('p, 'w) Server \<Rightarrow>
   (main_error, 'y startup \<times> ('p, 'w) Server) result outcome" where
  "start_entries env [] st s = Done (Ok (st, s))"
| "start_entries env (p # ps) st s =
     (case start_one p st of
        Err e \<Rightarrow> Done (Err e)
      | Ok st1 \<Rightarrow>
          (case start_provider env p s of Panicked \<Rightarrow> Panicked | Done s1 \<Rightarrow> start_entries env ps st1 s1))"

definition main_providers ::
  "('y, 'd, 'e, 'u, 'p, 'w) start_env \<Rightarrow> 'y ProviderConfig list \<Rightarrow> ('p, 'w) Server \<Rightarrow>
   (main_error, 'y startup \<times> ('p, 'w) Server) result outcome" where
  "main_providers env ps s =
     (case start_entries env ps
         \<lparr>su_serial = map_option (\<lambda>n. (n, [])) (serial_provider ps), su_started = []\<rparr> s of
        Panicked \<Rightarrow> Panicked
      | Done (Err e) \<Rightarrow> Done (Err e)
      | Done (Ok (st, s1)) \<Rightarrow>
          Done (Ok (case su_serial st of
              None \<Rightarrow> st
            | Some (n, us) \<Rightarrow> st\<lparr>su_started := su_started st @ [StartSerial n]\<rparr>, s1)))"

text \<open>\<^verbatim>\<open>main\<close>, from the name of the file to the address it serves on.\<close>

datatype start_error = BadConfig load_error | BadStart main_error

definition main_run ::
  "('y, 'd, 'e, 'u, 'p, 'w) start_env \<Rightarrow> (bytes \<Rightarrow> 'y option) \<Rightarrow> ('a, 'i) addresses \<Rightarrow>
   ('y DeviceConfig \<Rightarrow> 'w Device) \<Rightarrow> (string \<rightharpoonup> bytes) \<Rightarrow> 'a option \<Rightarrow> string \<Rightarrow> string \<Rightarrow>
   (start_error, 'a \<times> 'y startup \<times> ('p, 'w) Server) result outcome" where
  "main_run env parse ad device_of fs opt config_file dir =
     (case load_config (se_reader env) parse fs config_file of
        Err e \<Rightarrow> Done (Err (BadConfig e))
      | Ok config \<Rightarrow>
          (case result_bind (listen_address ad opt (sc_listen (cfg_server config))) (\<lambda>addr.
                  result_bind (main_authentication config_file (cfg_server config)) (\<lambda>authentication.
                  Ok (addr, register_devices device_of (cfg_devices config) (server_new authentication dir)))) of
             Err e \<Rightarrow> Done (Err (BadStart e))
           | Ok (addr, s) \<Rightarrow>
               (case main_providers env (cfg_providers config) s of
                  Panicked \<Rightarrow> Panicked
                | Done r \<Rightarrow> Done (case r of Err e \<Rightarrow> Err (BadStart e) | Ok (st, s1) \<Rightarrow> Ok (addr, st, s1)))))"

subsection \<open>When starting comes to an end\<close>

text \<open>Whether the provider can read its parameters does not depend on the server.\<close>

definition readable_parameters :: "('y, 'd, 'e, 'u, 'p, 'w) start_env \<Rightarrow> 'y ProviderConfig \<Rightarrow> bool" where
  "readable_parameters env p \<longleftrightarrow> start_provider env p (server_new [] []) \<noteq> Panicked"

definition provider_effect ::
  "('y, 'd, 'e, 'u, 'p, 'w) start_env \<Rightarrow> 'y ProviderConfig \<Rightarrow> ('p, 'w) Server \<Rightarrow> ('p, 'w) Server" where
  "provider_effect env p s = (case start_provider env p s of Done s1 \<Rightarrow> s1 | Panicked \<Rightarrow> s)"

lemma start_provider_panics: "start_provider env p s = Panicked \<longleftrightarrow> start_provider env p s' = Panicked"
  by (simp add: start_provider_def Let_def pdudaemon_provider_def pdudaemon_start_def boardswarm_provider_def
      split: option.split outcome.split)

lemma readable_iff: "readable_parameters env p \<longleftrightarrow> start_provider env p s \<noteq> Panicked"
  unfolding readable_parameters_def using start_provider_panics by blast

lemma start_provider_eq:
  "start_provider env p s =
     (if readable_parameters env p then Done (provider_effect env p s) else Panicked)"
  unfolding readable_iff [of env p s] provider_effect_def by (simp split: outcome.split)

lemma start_entries_ok:
  "start_entries env ps st s = Done (Ok (st1, s1)) \<longleftrightarrow>
     start_all ps st = Ok st1 \<and> (\<forall>p\<in>set ps. readable_parameters env p) \<and> s1 = fold (provider_effect env) ps s"
  by (induction ps arbitrary: st s) (auto simp: start_provider_eq result_bind_def split: sum.splits)

lemma start_entries_panic:
  "start_entries env ps st s = Panicked \<longleftrightarrow>
     (\<exists>qs p rest st1. ps = qs @ p # rest \<and> start_all (qs @ [p]) st = Ok st1 \<and>
        (\<forall>q\<in>set qs. readable_parameters env q) \<and> \<not> readable_parameters env p)"
proof (induction ps arbitrary: st s)
  case (Cons p ps)
  show ?case
  proof (cases "start_one p st")
    case (Inl e)
    then show ?thesis by (auto simp: Cons_eq_append_conv)
  next
    case (Inr st1)
    let ?stuck = "\<lambda>xs st. \<exists>qs p rest st1. xs = qs @ p # rest \<and> start_all (qs @ [p]) st = Ok st1 \<and>
        (\<forall>q\<in>set qs. readable_parameters env q) \<and> \<not> readable_parameters env p"
    show ?thesis
    proof (cases "readable_parameters env p")
      case True
      have "?stuck (p # ps) st \<longleftrightarrow> ?stuck ps st1"
      proof
        assume "?stuck (p # ps) st"
        then obtain qs p' rest st2 where stuck: "p # ps = qs @ p' # rest" "start_all (qs @ [p']) st = Ok st2"
          "\<forall>q\<in>set qs. readable_parameters env q" "\<not> readable_parameters env p'" by blast
        with True obtain qs' where "qs = p # qs'" by (cases qs) auto
        with stuck Inr show "?stuck ps st1" by auto
      next
        assume "?stuck ps st1"
        then obtain qs p' rest st2 where stuck: "ps = qs @ p' # rest" "start_all (qs @ [p']) st1 = Ok st2"
          "\<forall>q\<in>set qs. readable_parameters env q" "\<not> readable_parameters env p'" by blast
        with True Inr show "?stuck (p # ps) st"
          by (intro exI [of _ "p # qs"] exI [of _ p'] exI [of _ rest] exI [of _ st2]) simp
      qed
      with True Inr Cons.IH [of st1 "provider_effect env p s"] show ?thesis by (simp add: start_provider_eq)
    next
      case False
      with Inr have "?stuck (p # ps) st"
        by (intro exI [of _ "[]"] exI [of _ p] exI [of _ ps] exI [of _ st1]) simp
      with False Inr show ?thesis by (simp add: start_provider_eq)
    qed
  qed
qed simp

lemma readable_kinds:
  "pc_provider p = ''hifive-p550-mcu'' \<Longrightarrow> readable_parameters env p \<longleftrightarrow>
     de_hifive (se_reader env) (parameters_or_null env p) \<noteq> None"
  "pc_provider p = ''mediatek-brom'' \<Longrightarrow> readable_parameters env p \<longleftrightarrow>
     de_brom (se_reader env) (parameters_or_null env p) \<noteq> None"
  "pc_provider p \<notin> {''hifive-p550-mcu'', ''mediatek-brom'', ''pdudaemon'', ''boardswarm''} \<Longrightarrow>
     readable_parameters env p"
  by (simp_all add: readable_parameters_def start_provider_def hifive_provider_new_def brom_provider_new_def
      unwrap_def split: option.split)

text \<open>
  The default of a missing \<^verbatim>\<open>Value\<close> is null, and a null is no mapping: the users of the serial
  provider panic when the file gives them no parameters.
\<close>

lemma null_parameters_panic:
  assumes "rd_map (se_reader env) (se_null env) = None" and "pc_parameters p = None"
    and "pc_provider p \<in> {''hifive-p550-mcu'', ''mediatek-brom''}"
  shows "\<not> readable_parameters env p"
  using assms by (auto simp: readable_kinds parameters_or_null_def de_hifive_def de_brom_def de_struct_def)

text \<open>
  C39. How the start of the providers ends, with the parameters read: it succeeds exactly when
  every entry finds the serial provider and the parameters it needs, and every provider that
  \<^verbatim>\<open>main\<close> starts itself can read its parameters; then each entry is started once, in the order of
  the file, the users of the serial provider are added to it, and the serial provider comes
  last. It panics exactly when the first entry at fault has its parameters but cannot read
  them.
\<close>

theorem startup_outcome:
  "(main_providers env ps s = Done (Ok (st, s')) \<longleftrightarrow>
     (\<forall>p\<in>set ps. provider_configured (named_serial ps) p \<and> readable_parameters env p) \<and>
     st = \<lparr>su_serial = (if named_serial ps then Some (''serial'', List.map_filter user_of ps) else None),
           su_started = List.map_filter task_of ps @ (if named_serial ps then [StartSerial ''serial''] else [])\<rparr> \<and>
     s' = fold (provider_effect env) ps s) \<and>
   (main_providers env ps s = Panicked \<longleftrightarrow>
     (\<exists>qs p rest. ps = qs @ p # rest \<and>
        (\<forall>q\<in>set qs. provider_configured (named_serial ps) q \<and> readable_parameters env q) \<and>
        provider_configured (named_serial ps) p \<and> \<not> readable_parameters env p))"
proof -
  let ?st = "\<lparr>su_serial = map_option (\<lambda>n. (n, [])) (serial_provider ps), su_started = []\<rparr>"
  have serial: "(su_serial ?st \<noteq> None) = named_serial ps" by (simp add: serial_provider_eq)
  have finish: "(case su_serial (started_after ps ?st) of None \<Rightarrow> started_after ps ?st
      | Some (n, us) \<Rightarrow> (started_after ps ?st)\<lparr>su_started := su_started (started_after ps ?st) @ [StartSerial n]\<rparr>) =
    \<lparr>su_serial = (if named_serial ps then Some (''serial'', List.map_filter user_of ps) else None),
      su_started = List.map_filter task_of ps @ (if named_serial ps then [StartSerial ''serial''] else [])\<rparr>"
    by (simp add: serial_provider_eq started_after_def add_users_def)
  have "main_providers env ps s = Done (Ok (st, s')) \<longleftrightarrow>
      (\<exists>st1. start_entries env ps ?st s = Done (Ok (st1, s')) \<and>
         st = (case su_serial st1 of None \<Rightarrow> st1 | Some (n, us) \<Rightarrow> st1\<lparr>su_started := su_started st1 @ [StartSerial n]\<rparr>))"
    by (auto simp: main_providers_def split: outcome.splits sum.splits)
  also have "\<dots> \<longleftrightarrow> (\<forall>p\<in>set ps. provider_configured (named_serial ps) p \<and> readable_parameters env p) \<and>
      st = (case su_serial (started_after ps ?st) of None \<Rightarrow> started_after ps ?st
        | Some (n, us) \<Rightarrow> (started_after ps ?st)\<lparr>su_started := su_started (started_after ps ?st) @ [StartSerial n]\<rparr>) \<and>
      s' = fold (provider_effect env) ps s"
    unfolding start_entries_ok start_all_iff serial by blast
  finally have ok: "main_providers env ps s = Done (Ok (st, s')) \<longleftrightarrow>
      (\<forall>p\<in>set ps. provider_configured (named_serial ps) p \<and> readable_parameters env p) \<and>
      st = \<lparr>su_serial = (if named_serial ps then Some (''serial'', List.map_filter user_of ps) else None),
           su_started = List.map_filter task_of ps @ (if named_serial ps then [StartSerial ''serial''] else [])\<rparr> \<and>
      s' = fold (provider_effect env) ps s"
    unfolding finish .
  have "main_providers env ps s = Panicked \<longleftrightarrow> start_entries env ps ?st s = Panicked"
    by (simp add: main_providers_def split: outcome.split sum.split prod.split)
  also have "\<dots> \<longleftrightarrow> (\<exists>qs p rest. ps = qs @ p # rest \<and>
        (\<forall>q\<in>set qs. provider_configured (named_serial ps) q \<and> readable_parameters env q) \<and>
        provider_configured (named_serial ps) p \<and> \<not> readable_parameters env p)"
    unfolding start_entries_panic start_all_iff serial set_append by (rule iffI; clarsimp; blast)
  finally show ?thesis using ok by blast
qed

text \<open>
  The entries of the serial and of the Mediatek provider in \<^verbatim>\<open>share/server.conf\<close>, which has no
  parameters for the latter.
\<close>

definition example_start :: "(tree, unit, unit, string, unit, unit) start_env" where
  "example_start =
     \<lparr>se_reader = tree_reader (\<lambda>_. None), se_null = TNull,
      se_pdu_lib = \<lparr>pl_new = (\<lambda>_. None), pl_on = (\<lambda>_ _ _ w. (Ok (), w)), pl_off = (\<lambda>_ _ _ w. (Ok (), w))\<rparr>,
      se_pdu_actuator = (\<lambda>_. \<lparr>act_set_mode = (\<lambda>_ w. (Err ActuatorError, w))\<rparr>), se_parse_uri = Some\<rparr>"

lemma example_start_simps:
  "se_reader example_start = tree_reader (\<lambda>_. None)" "se_null example_start = TNull"
  by (simp_all add: example_start_def)

lemma startup_outcome_witness:
  "main_providers example_start
      [\<lparr>pc_name = ''serial'', pc_provider = ''serial'', pc_parameters = None\<rparr>,
       \<lparr>pc_name = ''mediatek-brom'', pc_provider = ''mediatek-brom'', pc_parameters = None\<rparr>]
      (server_new [] ''/etc'') = Panicked \<and>
   main_providers example_start
      [\<lparr>pc_name = ''serial'', pc_provider = ''serial'', pc_parameters = None\<rparr>,
       \<lparr>pc_name = ''mediatek-brom'', pc_provider = ''mediatek-brom'', pc_parameters = Some (TMap [])\<rparr>]
      (server_new [] ''/etc'') =
    Done (Ok (\<lparr>su_serial = Some (''serial'', [AddBrom ''mediatek-brom'' (Some (TMap []))]),
      su_started = [StartSerial ''serial'']\<rparr>, server_new [] ''/etc''))"
proof -
  let ?serial = "\<lparr>pc_name = ''serial'', pc_provider = ''serial'', pc_parameters = None :: tree option\<rparr>"
  let ?brom = "\<lambda>y. \<lparr>pc_name = ''mediatek-brom'', pc_provider = ''mediatek-brom'', pc_parameters = y :: tree option\<rparr>"
  have readable: "readable_parameters example_start ?serial"
    "\<not> readable_parameters example_start (?brom None)"
    "readable_parameters example_start (?brom (Some (TMap [])))"
    by (simp_all add: readable_kinds null_parameters_panic parameters_or_null_def example_start_simps
        tree_reader_def de_brom_def derived)
  have "main_providers example_start [?serial, ?brom None] (server_new [] ''/etc'') = Panicked"
    by (rule startup_outcome [THEN conjunct2, THEN iffD2],
        intro exI [of _ "[?serial]"] exI [of _ "?brom None"] exI [of _ "[]"])
      (simp add: readable provider_configured_def user_of_def named_serial_def)
  moreover have "main_providers example_start [?serial, ?brom (Some (TMap []))] (server_new [] ''/etc'') =
    Done (Ok (\<lparr>su_serial = Some (''serial'', [AddBrom ''mediatek-brom'' (Some (TMap []))]),
      su_started = [StartSerial ''serial'']\<rparr>, server_new [] ''/etc''))"
    by (rule startup_outcome [THEN conjunct1, THEN iffD2])
      (simp add: readable provider_configured_def user_of_def task_of_def named_serial_def List.map_filter_simps
        provider_effect_def start_provider_def brom_provider_new_def unwrap_def parameters_or_null_def
        example_start_simps tree_reader_def de_brom_def derived)
  ultimately show ?thesis by simp
qed

end
