(* ===== verification/Config_Device.thy ===== *)
theory Config_Device
  imports Server
begin

section \<open>Configured devices (boardswarm/src/config\_device.rs)\<close>

text \<open>
  A device holds one slot per console, volume and mode step of its configuration, each filled
  with the identifier of a registry item that matches it, and a current mode. A task follows
  the three registries and keeps the slots; \<^verbatim>\<open>set_mode\<close> runs the steps of a mode against
  the actuators. \<^verbatim>\<open>Mutex\<close>es guard single reads and writes only, so a call of \<^verbatim>\<open>set_mode\<close>
  is modelled as its lock-protected segments and their interleavings as a step relation.
  The lemmas: what a slot holds after any sequence of changes, the outcome of \<^verbatim>\<open>set_mode\<close>
  on every branch, and when two calls exclude each other.
\<close>

subsection \<open>Slots\<close>

record ('i, 'c) DeviceItem =
  slot_id :: "'i option"
  slot_config :: 'c

definition device_item_new :: "'c \<Rightarrow> ('i, 'c) DeviceItem" where
  "device_item_new c = \<lparr>slot_id = None, slot_config = c\<rparr>"

definition device_item_set :: "'i option \<Rightarrow> ('i, 'c) DeviceItem \<Rightarrow> ('i, 'c) DeviceItem" where
  "device_item_set i d = d\<lparr>slot_id := i\<rparr>"

definition device_item_get :: "('i, 'c) DeviceItem \<Rightarrow> 'i option" where
  "device_item_get d = slot_id d"

definition unset_if_matches :: "'i \<Rightarrow> ('i, 'c) DeviceItem \<Rightarrow> bool \<times> ('i, 'c) DeviceItem" where
  "unset_if_matches i d =
     (case slot_id d of
        Some item_id \<Rightarrow> if item_id = i then (True, d\<lparr>slot_id := None\<rparr>) else (False, d)
      | None \<Rightarrow> (False, d))"

text \<open>The method \<^verbatim>\<open>matches\<close> of the configuration item is the first argument.\<close>

definition set_if_matches ::
  "('c \<Rightarrow> Properties \<Rightarrow> bool) \<Rightarrow> 'i \<Rightarrow> Properties \<Rightarrow> ('i, 'c) DeviceItem \<Rightarrow>
   bool \<times> ('i, 'c) DeviceItem" where
  "set_if_matches matches i p d =
     (if matches (slot_config d) p then (True, device_item_set (Some i) d) else (False, d))"

subsection \<open>The device\<close>

record 'p DevMode =
  dm_name :: string
  dm_depends :: "string option"
  dm_sequence :: "(ActuatorId, 'p ModeStepConfig) DeviceItem list"

text \<open>\<open>cd_notified\<close> counts the messages sent to the watchers.\<close>

record 'p ConfDevice =
  cd_notified :: nat
  cd_name :: string
  cd_current_mode :: "string option"
  cd_consoles :: "(ConsoleId, 'p ConsoleConfig) DeviceItem list"
  cd_volumes :: "(VolumeId, VolumeConfig) DeviceItem list"
  cd_modes :: "'p DevMode list"

definition dev_mode_from :: "'p ModeConfig \<Rightarrow> 'p DevMode" where
  "dev_mode_from c =
     \<lparr>dm_name = mc_name c, dm_depends = mc_depends c,
      dm_sequence = map device_item_new (mc_sequence c)\<rparr>"

definition device_from_config :: "'p DeviceConfig \<Rightarrow> 'p ConfDevice" where
  "device_from_config c =
     \<lparr>cd_notified = 0, cd_name = dc_name c, cd_current_mode = None,
      cd_consoles = map device_item_new (dc_consoles c),
      cd_volumes = map device_item_new (dc_volumes c),
      cd_modes = map dev_mode_from (dc_modes c)\<rparr>"

definition notify :: "'p ConfDevice \<Rightarrow> 'p ConfDevice" where
  "notify d = d\<lparr>cd_notified := Suc (cd_notified d)\<rparr>"

subsection \<open>Following the registries\<close>

text \<open>
  The fold of \<^verbatim>\<open>add_item_with\<close>: every slot that matches takes the identifier, \<open>f\<close> is called
  on it with the item, and the result says whether any matched (or \<open>changed\<close> was set).
\<close>

fun add_item_with ::
  "('c \<Rightarrow> Properties \<Rightarrow> bool) \<Rightarrow> 'i \<Rightarrow> 't Item \<Rightarrow> (('i, 'c) DeviceItem \<Rightarrow> 't \<Rightarrow> 'w \<Rightarrow> 'w) \<Rightarrow>
   bool \<Rightarrow> ('i, 'c) DeviceItem list \<Rightarrow> 'w \<Rightarrow> bool \<times> ('i, 'c) DeviceItem list \<times> 'w" where
  "add_item_with matches i item f changed [] w = (changed, [], w)"
| "add_item_with matches i item f changed (d # ds) w =
     (case set_if_matches matches i (item_properties item) d of
        (True, d1) \<Rightarrow>
          (let w1 = f d1 (item_value item) w;
               (changed1, ds1, w2) = add_item_with matches i item f True ds w1
           in (changed1, d1 # ds1, w2))
      | (False, d1) \<Rightarrow>
          (let (changed1, ds1, w2) = add_item_with matches i item f changed ds w
           in (changed1, d1 # ds1, w2)))"

fun remove_item ::
  "'i \<Rightarrow> bool \<Rightarrow> ('i, 'c) DeviceItem list \<Rightarrow> bool \<times> ('i, 'c) DeviceItem list" where
  "remove_item i changed [] = (changed, [])"
| "remove_item i changed (d # ds) =
     (let (hit, d1) = unset_if_matches i d;
          (changed1, ds1) = remove_item i (hit \<or> changed) ds
      in (changed1, d1 # ds1))"

fun change_with ::
  "('c \<Rightarrow> Properties \<Rightarrow> bool) \<Rightarrow> ('k, 't) RegistryChange \<Rightarrow>
   (('k u64_index, 'c) DeviceItem \<Rightarrow> 't \<Rightarrow> 'w \<Rightarrow> 'w) \<Rightarrow>
   bool \<Rightarrow> ('k u64_index, 'c) DeviceItem list \<Rightarrow> 'w \<Rightarrow>
   bool \<times> ('k u64_index, 'c) DeviceItem list \<times> 'w" where
  "change_with matches (Added i item) f changed ds w = add_item_with matches i item f changed ds w"
| "change_with matches (Removed i) f changed ds w =
     (let (changed1, ds1) = remove_item i changed ds in (changed1, ds1, w))"

definition setup_none :: "('i, 'c) DeviceItem \<Rightarrow> 't \<Rightarrow> 'w \<Rightarrow> 'w" where
  "setup_none d t w = w"

definition setup_console ::
  "(ConsoleId, 'p ConsoleConfig) DeviceItem \<Rightarrow> ('p, 'w) Console \<Rightarrow> 'w \<Rightarrow> 'w" where
  "setup_console d console w = snd (con_configure console (cc_parameters (slot_config d)) w)"

text \<open>
  The slots of the mode steps are the sequences of the modes one after the other
  (\<^verbatim>\<open>flat_map\<close>); the change is applied mode by mode.
\<close>

fun change_modes ::
  "(ActuatorKind, 't) RegistryChange \<Rightarrow> bool \<Rightarrow> 'p DevMode list \<Rightarrow> 'w \<Rightarrow>
   bool \<times> 'p DevMode list \<times> 'w" where
  "change_modes c changed [] w = (changed, [], w)"
| "change_modes c changed (m # ms) w =
     (let (changed1, ds, w1) =
            change_with step_config_matches c setup_none changed (dm_sequence m) w;
          (changed2, ms1, w2) = change_modes c changed1 ms w1
      in (changed2, m\<lparr>dm_sequence := ds\<rparr> # ms1, w2))"

definition console_change ::
  "(ConsoleKind, ('p, 'w) Console) RegistryChange \<Rightarrow> 'p ConfDevice \<Rightarrow> 'w \<Rightarrow>
   bool \<times> 'p ConfDevice \<times> 'w" where
  "console_change c d w =
     (let (changed, ds, w1) =
            change_with console_config_matches c setup_console False (cd_consoles d) w
      in (changed, d\<lparr>cd_consoles := ds\<rparr>, w1))"

definition actuator_change ::
  "(ActuatorKind, 't) RegistryChange \<Rightarrow> 'p ConfDevice \<Rightarrow> 'w \<Rightarrow> bool \<times> 'p ConfDevice \<times> 'w" where
  "actuator_change c d w =
     (let (changed, ms, w1) = change_modes c False (cd_modes d) w
      in (changed, d\<lparr>cd_modes := ms\<rparr>, w1))"

definition volume_change ::
  "(VolumeKind, 't) RegistryChange \<Rightarrow> 'p ConfDevice \<Rightarrow> 'w \<Rightarrow> bool \<times> 'p ConfDevice \<times> 'w" where
  "volume_change c d w =
     (let (changed, ds, w1) = change_with volume_config_matches c setup_none False (cd_volumes d) w
      in (changed, d\<lparr>cd_volumes := ds\<rparr>, w1))"

text \<open>The loops over the contents of the registries when the task starts.\<close>

fun add_contents ::
  "(('k, 't) RegistryChange \<Rightarrow> 'd \<Rightarrow> 'w \<Rightarrow> bool \<times> 'd \<times> 'w) \<Rightarrow>
   ('k u64_index \<times> 't Item) list \<Rightarrow> bool \<Rightarrow> 'd \<Rightarrow> 'w \<Rightarrow> bool \<times> 'd \<times> 'w" where
  "add_contents f [] changed d w = (changed, d, w)"
| "add_contents f ((i, item) # m) changed d w =
     (let (c, d1, w1) = f (Added i item) d w in add_contents f m (changed \<or> c) d1 w1)"

definition monitor_start :: "('p, 'w) Server \<Rightarrow> 'p ConfDevice \<Rightarrow> 'w \<Rightarrow> 'p ConfDevice \<times> 'w" where
  "monitor_start s d w =
     (let (c1, d1, w1) = add_contents actuator_change (registry_contents (actuators s)) False d w;
          (c2, d2, w2) = add_contents console_change (registry_contents (consoles s)) c1 d1 w1;
          (c3, d3, w3) = add_contents volume_change (registry_contents (volumes s)) c2 d2 w2
      in (if c3 then notify d3 else d3, w3))"

text \<open>
  The \<^verbatim>\<open>select!\<close> loop over what the three receivers yield, in the order it picks them. It
  returns at the first receive error (a lag or the end); the task then calls
  \<^verbatim>\<open>monitor_items\<close> again on the same slots.
\<close>

datatype ('p, 'w) monitor_msg =
    ConsoleMsg "(RecvError, (ConsoleKind, ('p, 'w) Console) RegistryChange) result"
  | ActuatorMsg "(RecvError, (ActuatorKind, ('p, 'w) Actuator) RegistryChange) result"
  | VolumeMsg "(RecvError, (VolumeKind, 'w Volume) RegistryChange) result"

fun monitor_event ::
  "('p, 'w) monitor_msg \<Rightarrow> 'p ConfDevice \<Rightarrow> 'w \<Rightarrow> (bool \<times> 'p ConfDevice \<times> 'w) option" where
  "monitor_event (ConsoleMsg (Ok c)) d w = Some (console_change c d w)"
| "monitor_event (ActuatorMsg (Ok c)) d w = Some (actuator_change c d w)"
| "monitor_event (VolumeMsg (Ok c)) d w = Some (volume_change c d w)"
| "monitor_event (ConsoleMsg (Err e)) d w = None"
| "monitor_event (ActuatorMsg (Err e)) d w = None"
| "monitor_event (VolumeMsg (Err e)) d w = None"

fun monitor_loop ::
  "('p, 'w) monitor_msg list \<Rightarrow> 'p ConfDevice \<Rightarrow> 'w \<Rightarrow> 'p ConfDevice \<times> 'w" where
  "monitor_loop [] d w = (d, w)"
| "monitor_loop (msg # msgs) d w =
     (case monitor_event msg d w of
        None \<Rightarrow> (d, w)
      | Some (changed, d1, w1) \<Rightarrow> monitor_loop msgs (if changed then notify d1 else d1) w1)"

definition monitor_items ::
  "('p, 'w) Server \<Rightarrow> ('p, 'w) monitor_msg list \<Rightarrow> 'p ConfDevice \<Rightarrow> 'w \<Rightarrow> 'p ConfDevice \<times> 'w" where
  "monitor_items s msgs d w =
     (let (d1, w1) = monitor_start s d w in monitor_loop msgs d1 w1)"

subsection \<open>set_mode\<close>

text \<open>The first critical section: find the mode, check the dependency, leave the current mode.\<close>

definition set_mode_begin ::
  "string \<Rightarrow> 'p ConfDevice \<Rightarrow> (DeviceSetModeError, 'p ModeStepConfig list \<times> 'p ConfDevice) result" where
  "set_mode_begin mode d =
     (case List.find (\<lambda>m. dm_name m = mode) (cd_modes d) of
        None \<Rightarrow> Err ModeNotFound
      | Some target \<Rightarrow>
          (if (case dm_depends target of Some depend \<Rightarrow> cd_current_mode d \<noteq> Some depend | None \<Rightarrow> False)
           then Err WrongCurrentMode
           else Ok (map slot_config (dm_sequence target), d\<lparr>cd_current_mode := None\<rparr>)))"

text \<open>
  One step: \<open>server\<close> reads the server of the moment from the world, and \<open>sleep\<close> is what
  passing time does to it.
\<close>

definition set_mode_one ::
  "('w \<Rightarrow> ('p, 'w) Server) \<Rightarrow> (nat \<Rightarrow> 'w \<Rightarrow> 'w) \<Rightarrow> 'p ModeStepConfig \<Rightarrow> 'w \<Rightarrow>
   (DeviceSetModeError, unit) result \<times> 'w" where
  "set_mode_one server sleep step w =
     (case find_actuator (server w) (ms_match step) of
        Some provider \<Rightarrow>
          (case act_set_mode provider (ms_parameters step) w of
             (Err e, w1) \<Rightarrow> (Err (ActuatorFailed e), w1)
           | (Ok _, w1) \<Rightarrow>
               (Ok (), case ms_stabilisation step of Some duration \<Rightarrow> sleep duration w1 | None \<Rightarrow> w1))
      | None \<Rightarrow> (Err (ActuatorFailed ActuatorError), w))"

fun set_mode_steps ::
  "('w \<Rightarrow> ('p, 'w) Server) \<Rightarrow> (nat \<Rightarrow> 'w \<Rightarrow> 'w) \<Rightarrow> 'p ModeStepConfig list \<Rightarrow> 'w \<Rightarrow>
   (DeviceSetModeError, unit) result \<times> 'w" where
  "set_mode_steps server sleep [] w = (Ok (), w)"
| "set_mode_steps server sleep (step # steps) w =
     (case set_mode_one server sleep step w of
        (Err e, w1) \<Rightarrow> (Err e, w1)
      | (Ok _, w1) \<Rightarrow> set_mode_steps server sleep steps w1)"

definition set_mode_finish :: "string \<Rightarrow> 'p ConfDevice \<Rightarrow> 'p ConfDevice" where
  "set_mode_finish mode d = notify (d\<lparr>cd_current_mode := Some mode\<rparr>)"

definition set_mode ::
  "('w \<Rightarrow> ('p, 'w) Server) \<Rightarrow> (nat \<Rightarrow> 'w \<Rightarrow> 'w) \<Rightarrow> string \<Rightarrow> 'p ConfDevice \<times> 'w \<Rightarrow>
   (DeviceSetModeError, unit) result \<times> 'p ConfDevice \<times> 'w" where
  "set_mode server sleep mode dw =
     (case dw of (d, w) \<Rightarrow>
        (case set_mode_begin mode d of
           Err e \<Rightarrow> (Err e, d, w)
         | Ok (steps, d1) \<Rightarrow>
             (case set_mode_steps server sleep steps w of
                (Err e, w1) \<Rightarrow> (Err e, d1, w1)
              | (Ok _, w1) \<Rightarrow> (Ok (), set_mode_finish mode d1, w1))))"

subsection \<open>What the device shows\<close>

definition device_consoles :: "'p ConfDevice \<Rightarrow> DeviceConsole list" where
  "device_consoles d =
     map (\<lambda>c. \<lparr>dcon_name = cc_name (slot_config c), dcon_id = device_item_get c\<rparr>) (cd_consoles d)"

definition device_volumes :: "'p ConfDevice \<Rightarrow> DeviceVolume list" where
  "device_volumes d =
     map (\<lambda>v. \<lparr>dvol_name = vc_name (slot_config v), dvol_id = device_item_get v\<rparr>) (cd_volumes d)"

definition device_modes :: "'p ConfDevice \<Rightarrow> DeviceMode list" where
  "device_modes d =
     map (\<lambda>m. \<lparr>dmode_name = dm_name m, dmode_depends = dm_depends m,
        dmode_available = list_all (\<lambda>s. device_item_get s \<noteq> None) (dm_sequence m)\<rparr>) (cd_modes d)"

definition device_current_mode :: "'p ConfDevice \<Rightarrow> string option" where
  "device_current_mode d = cd_current_mode d"

text \<open>The methods of the trait \<^verbatim>\<open>Device\<close>, over the device and the world around it.\<close>

definition conf_device_trait ::
  "('w \<Rightarrow> ('p, 'w) Server) \<Rightarrow> (nat \<Rightarrow> 'w \<Rightarrow> 'w) \<Rightarrow> ('p ConfDevice \<times> 'w) Device" where
  "conf_device_trait server sleep =
     \<lparr>dev_set_mode = set_mode server sleep,
      dev_consoles = (\<lambda>(d, w). device_consoles d),
      dev_volumes = (\<lambda>(d, w). device_volumes d),
      dev_modes = (\<lambda>(d, w). device_modes d),
      dev_current_mode = (\<lambda>(d, w). device_current_mode d)\<rparr>"

subsection \<open>What one change does to one slot\<close>

fun slot_step ::
  "(Properties \<Rightarrow> bool) \<Rightarrow> ('k, 't) RegistryChange \<Rightarrow> 'k u64_index option \<Rightarrow> 'k u64_index option" where
  "slot_step m (Added i item) slot = (if m (item_properties item) then Some i else slot)"
| "slot_step m (Removed i) slot = (if slot = Some i then None else slot)"

lemma add_item_with_slots:
  "fst (snd (add_item_with matches i item f changed ds w)) =
     map (\<lambda>d. d\<lparr>slot_id := slot_step (matches (slot_config d)) (Added i item) (slot_id d)\<rparr>) ds"
  by (induction matches i item f changed ds w rule: add_item_with.induct)
     (auto simp: set_if_matches_def device_item_set_def Let_def split_beta)

lemma remove_item_slots:
  "snd (remove_item i changed ds) =
     map (\<lambda>d. d\<lparr>slot_id := slot_step (matches (slot_config d)) (Removed i) (slot_id d)\<rparr>) ds"
  by (induction ds arbitrary: changed)
     (auto simp: unset_if_matches_def Let_def split_beta split: option.splits)

lemma change_with_slots:
  "fst (snd (change_with matches c f changed ds w)) =
     map (\<lambda>d. d\<lparr>slot_id := slot_step (matches (slot_config d)) c (slot_id d)\<rparr>) ds"
proof (cases c)
  case (Added i item)
  then show ?thesis by (simp add: add_item_with_slots del: slot_step.simps)
next
  case (Removed i)
  then show ?thesis
    using remove_item_slots [of i changed ds matches] by (simp add: split_beta del: slot_step.simps)
qed

text \<open>The result of a change tells whether a slot was set or cleared.\<close>

lemma add_item_with_changed:
  "fst (add_item_with matches i item f changed ds w) \<longleftrightarrow>
     changed \<or> (\<exists>d \<in> set ds. matches (slot_config d) (item_properties item))"
  by (induction matches i item f changed ds w rule: add_item_with.induct)
     (auto simp: set_if_matches_def Let_def split_beta)

lemma remove_item_changed:
  "fst (remove_item i changed ds) \<longleftrightarrow> changed \<or> (\<exists>d \<in> set ds. slot_id d = Some i)"
  by (induction ds arbitrary: changed)
     (auto simp: unset_if_matches_def Let_def split_beta split: option.splits)

lemma change_with_changed:
  assumes "\<not> fst (change_with matches c f False ds w)"
  shows "fst (snd (change_with matches c f False ds w)) = ds"
  unfolding change_with_slots
proof (rule map_idI)
  fix d assume "d \<in> set ds"
  with assms show "d\<lparr>slot_id := slot_step (matches (slot_config d)) c (slot_id d)\<rparr> = d"
    by (cases c) (auto simp: add_item_with_changed remove_item_changed split_beta)
qed

subsection \<open>What a slot holds after a sequence of changes\<close>

definition matching_add :: "(Properties \<Rightarrow> bool) \<Rightarrow> ('k, 't) RegistryChange \<Rightarrow> bool" where
  "matching_add m c = (case c of Added i item \<Rightarrow> m (item_properties item) | Removed i \<Rightarrow> False)"

text \<open>The newest matching item among the announced ones.\<close>

definition newest_match ::
  "(Properties \<Rightarrow> bool) \<Rightarrow> ('k, 't) RegistryChange list \<Rightarrow> 'k u64_index option" where
  "newest_match m cs =
     (if filter (matching_add m) cs = [] then None
      else Some (change_id (last (filter (matching_add m) cs))))"

text \<open>An identifier names one item only.\<close>

definition same_items :: "('k, 't) RegistryChange list \<Rightarrow> bool" where
  "same_items cs \<longleftrightarrow> (\<forall>i x y. Added i x \<in> set cs \<and> Added i y \<in> set cs \<longrightarrow> x = y)"

lemma newest_match_snoc:
  "newest_match m (cs @ [c]) = (if matching_add m c then Some (change_id c) else newest_match m cs)"
  by (simp add: newest_match_def)

lemma newest_match_in:
  "newest_match m cs = Some i \<Longrightarrow> \<exists>item. Added i item \<in> set cs \<and> m (item_properties item)"
proof -
  assume "newest_match m cs = Some i"
  then have ne: "filter (matching_add m) cs \<noteq> []"
    and i: "change_id (last (filter (matching_add m) cs)) = i"
    by (auto simp: newest_match_def split: if_splits)
  from last_in_set [OF ne] have "last (filter (matching_add m) cs) \<in> set cs"
    "matching_add m (last (filter (matching_add m) cs))" by auto
  with i show ?thesis
    by (cases "last (filter (matching_add m) cs)") (auto simp: matching_add_def)
qed

lemma same_items_prefix: "same_items (cs @ ds) \<Longrightarrow> same_items cs"
  by (auto simp: same_items_def)

lemma slot_fold:
  "same_items cs \<Longrightarrow>
   fold (slot_step m) cs None =
     (case newest_match m cs of
        None \<Rightarrow> None
      | Some i \<Rightarrow> if map_of (fold play_change cs []) i = None then None else Some i)"
proof (induction cs rule: rev_induct)
  case Nil
  show ?case by (simp add: newest_match_def)
next
  case (snoc c cs)
  note IH = snoc.IH [OF same_items_prefix [OF snoc.prems]]
  show ?case
  proof (cases c)
    case (Added j x)
    show ?thesis
    proof (cases "m (item_properties x)")
      case True
      then show ?thesis using Added by (simp add: newest_match_snoc matching_add_def)
    next
      case False
      have "i \<noteq> j" if "newest_match m cs = Some i" for i
      proof
        assume "i = j"
        with newest_match_in [OF that] obtain y where
          "Added j y \<in> set cs" "m (item_properties y)" by blast
        with snoc.prems Added False show False by (auto simp: same_items_def)
      qed
      then show ?thesis
        using Added False IH by (auto simp: newest_match_snoc matching_add_def split: option.splits)
    qed
  next
    case (Removed j)
    then show ?thesis
      using IH by (auto simp: newest_match_snoc matching_add_def split: option.splits)
  qed
qed

text \<open>A slot that holds something already keeps it until a match is announced or it is removed.\<close>

lemma slot_fold_old:
  "newest_match m cs = None \<Longrightarrow>
   fold (slot_step m) cs old =
     (case old of None \<Rightarrow> None | Some i \<Rightarrow> if Removed i \<in> set cs then None else Some i)"
proof (induction cs rule: rev_induct)
  case (snoc c cs)
  then have "newest_match m cs = None" "\<not> matching_add m c"
    by (auto simp: newest_match_snoc split: if_splits)
  with snoc.IH show ?case by (cases c) (auto simp: matching_add_def split: option.splits)
qed (simp split: option.splits)

lemma slot_fold_forgets:
  "newest_match m cs \<noteq> None \<Longrightarrow> fold (slot_step m) cs old = fold (slot_step m) cs None"
proof (induction cs rule: rev_induct)
  case (snoc c cs)
  show ?case
  proof (cases "matching_add m c")
    case True
    then show ?thesis by (cases c) (auto simp: matching_add_def)
  next
    case False
    with snoc show ?thesis by (simp add: newest_match_snoc)
  qed
qed (simp add: newest_match_def)

lemma slot_fold_from:
  "same_items cs \<Longrightarrow>
   fold (slot_step m) cs old =
     (case newest_match m cs of
        None \<Rightarrow> (case old of None \<Rightarrow> None | Some i \<Rightarrow> if Removed i \<in> set cs then None else Some i)
      | Some i \<Rightarrow> if map_of (fold play_change cs []) i = None then None else Some i)"
  using slot_fold_old [of m cs old] slot_fold_forgets [of m cs old] slot_fold [of cs m]
  by (cases "newest_match m cs") simp_all

lemma fold_play_adds:
  "distinct (map fst m) \<Longrightarrow> map_of (fold play_change (map (\<lambda>(i, x). Added i x) m) n) = map_of n ++ map_of m"
proof (induction m arbitrary: n)
  case (Cons p m)
  then show ?case
    by (cases p) (auto simp: map_add_def fun_eq_iff map_of_eq_None_iff split: option.splits
        intro: ccontr dest: map_of_SomeD simp: image_iff)
qed simp

lemma registry_same_items:
  assumes "registry_inv r" "length (added_ids (monitor r)) \<le> 2 ^ 64"
  shows "same_items (monitor r)"
proof -
  have "distinct (added_ids (monitor r))" by (rule added_ids_distinct [OF assms])
  moreover have "x = y" if "distinct (added_ids cs)" "Added i x \<in> set cs" "Added i y \<in> set cs"
    for cs :: "('a, 'b) RegistryChange list" and i x y
    using that
  proof (induction cs)
    case (Cons c cs)
    have in_ids: "Added i z \<in> set cs \<Longrightarrow> i \<in> set (added_ids cs)" for z
      by (induction cs) (auto simp: added_ids_def is_added_def split: RegistryChange.splits)
    from Cons show ?case by (cases c) (auto dest: in_ids)
  qed simp
  ultimately show ?thesis by (auto simp: same_items_def)
qed

lemma registry_contents_added:
  assumes "registry_inv r" "(i, x) \<in> set (contents r)"
  shows "Added i x \<in> set (monitor r)"
proof -
  have "map_of (contents r) i = Some x"
    using assms bt_inv_distinct [of "contents r"]
    by (simp add: registry_inv_def map_of_is_SomeI)
  moreover have "map_of (contents r) = map_of (fold play_change (monitor r) [])"
    using assms(1) by (simp add: registry_inv_def)
  ultimately have "(case last_on change_id i (monitor r) of
      Some e \<Rightarrow> change_item e | None \<Rightarrow> None) = Some x"
    using reglog.view_fold [of "monitor r" "[]" i] by (simp split: option.splits)
  then obtain e where "last_on change_id i (monitor r) = Some e" "change_item e = Some x"
    by (auto split: option.splits)
  with last_on_Some [OF this(1)] show ?thesis by (cases e) auto
qed

definition slot_play ::
  "('c \<Rightarrow> Properties \<Rightarrow> bool) \<Rightarrow> ('k, 't) RegistryChange list \<Rightarrow>
   ('k u64_index, 'c) DeviceItem \<Rightarrow> ('k u64_index, 'c) DeviceItem" where
  "slot_play matches cs d =
     d\<lparr>slot_id := fold (slot_step (matches (slot_config d))) cs (slot_id d)\<rparr>"

lemma slot_play_Nil [simp]: "map (slot_play matches []) ds = ds"
  by (simp add: slot_play_def map_idI)

lemma slot_play_append:
  "slot_play matches ds (slot_play matches cs d) = slot_play matches (cs @ ds) d"
  by (simp add: slot_play_def)

lemma slot_play_step:
  "map (\<lambda>d. d\<lparr>slot_id := slot_step (matches (slot_config d)) c (slot_id d)\<rparr>) ds =
     map (slot_play matches [c]) ds"
  by (simp add: slot_play_def)

lemma volume_change_volumes:
  "cd_volumes (fst (snd (volume_change c d w))) = map (slot_play volume_config_matches [c]) (cd_volumes d)"
  using change_with_slots [of volume_config_matches c setup_none False "cd_volumes d" w]
  by (simp add: volume_change_def Let_def split_beta slot_play_step)

lemma other_change_volumes [frame_simps]:
  "cd_volumes (fst (snd (console_change c d w))) = cd_volumes d"
  "cd_volumes (fst (snd (actuator_change c' d w))) = cd_volumes d"
  "cd_volumes (notify d) = cd_volumes d"
  by (simp_all add: console_change_def actuator_change_def notify_def Let_def split_beta)

lemma add_contents_invariant:
  "(\<And>c d w. g (fst (snd (f c d w))) = g d) \<Longrightarrow> g (fst (snd (add_contents f m changed d w))) = g d"
  by (induction m arbitrary: changed d w) (auto simp: Let_def split_beta)

lemma add_contents_volumes:
  "cd_volumes (fst (snd (add_contents volume_change m changed d w))) =
     map (slot_play volume_config_matches (map (\<lambda>(i, x). Added i x) m)) (cd_volumes d)"
proof (induction m arbitrary: changed d w)
  case (Cons p m)
  obtain i x where p: "p = (i, x)" by force
  show ?case
    using Cons [of "changed \<or> fst (volume_change (Added i x) d w)"
        "fst (snd (volume_change (Added i x) d w))" "snd (snd (volume_change (Added i x) d w))"]
    by (simp add: p Let_def split_beta volume_change_volumes slot_play_append comp_def
        del: slot_step.simps)
qed simp

lemma monitor_start_volumes:
  "cd_volumes (fst (monitor_start s d w)) =
     map (slot_play volume_config_matches (map (\<lambda>(i, x). Added i x) (contents (volumes s)))) (cd_volumes d)"
  by (simp add: monitor_start_def Let_def split_beta add_contents_volumes frame_simps
      add_contents_invariant [where g = cd_volumes])

text \<open>The changes of the volumes among the messages, up to the first receive error.\<close>

fun msg_ok :: "('p, 'w) monitor_msg \<Rightarrow> bool" where
  "msg_ok (ConsoleMsg r) = is_ok r"
| "msg_ok (ActuatorMsg r) = is_ok r"
| "msg_ok (VolumeMsg r) = is_ok r"

fun volume_changes :: "('p, 'w) monitor_msg list \<Rightarrow> (VolumeKind, 'w Volume) RegistryChange list" where
  "volume_changes [] = []"
| "volume_changes (VolumeMsg (Ok c) # msgs) = c # volume_changes msgs"
| "volume_changes (_ # msgs) = volume_changes msgs"

lemma monitor_loop_volumes:
  "list_all msg_ok msgs \<Longrightarrow>
   cd_volumes (fst (monitor_loop msgs d w)) =
     map (slot_play volume_config_matches (volume_changes msgs)) (cd_volumes d)"
proof (induction msgs arbitrary: d w)
  case (Cons msg msgs)
  let ?u = "\<lambda>c. fst (snd (volume_change c d w))"
  show ?case
  proof (cases msg)
    case (ConsoleMsg r)
    with Cons show ?thesis by (cases r) (auto simp: frame_simps split_beta)
  next
    case (ActuatorMsg r)
    with Cons show ?thesis by (cases r) (auto simp: frame_simps split_beta)
  next
    case (VolumeMsg r)
    with Cons.prems obtain c where r: "r = Ok c" by (cases r) auto
    from Cons show ?thesis
      by (simp add: VolumeMsg r split_beta frame_simps volume_change_volumes slot_play_append)
  qed
qed simp

lemma monitor_items_volumes:
  "list_all msg_ok msgs \<Longrightarrow>
   cd_volumes (fst (monitor_items s msgs d w)) =
     map (slot_play volume_config_matches
        (map (\<lambda>(i, x). Added i x) (contents (volumes s)) @ volume_changes msgs)) (cd_volumes d)"
  by (simp add: monitor_items_def split_beta monitor_loop_volumes monitor_start_volumes slot_play_append)

subsection \<open>The properties of the slots\<close>

text \<open>
  The sequence of changes a subscriber plays: the snapshot read at \<open>r1\<close> as additions, then
  what was sent since the subscription at \<open>r0\<close>.
\<close>

definition played ::
  "('k, 't) Registry \<Rightarrow> ('k, 't) Registry \<Rightarrow> ('k, 't) Registry \<Rightarrow> ('k, 't) RegistryChange list" where
  "played r0 r1 r2 = map (\<lambda>(i, x). Added i x) (contents r1) @ drop (registry_monitor r0) (monitor r2)"

lemma played_facts:
  assumes "registry_run ops0 registry_new = (ids0, r0)" "registry_run ops1 r0 = (ids1, r1)"
    "registry_run ops2 r1 = (ids2, r2)" "length (ids0 @ ids1 @ ids2) \<le> 2 ^ 64"
  shows "same_items (played r0 r1 r2)"
    and "map_of (fold play_change (played r0 r1 r2) []) = registry_lookup r2"
proof -
  have inv: "registry_inv r0" "registry_inv r1" "registry_inv r2"
    using registry_run_inv assms(1-3) registry_inv_new by blast+
  let ?t0 = "length (monitor r0)" and ?t1 = "length (monitor r1)"
  from assms(2,3) [THEN registry_run_monitor] obtain cs1 cs2 where
    cs: "monitor r1 = monitor r0 @ cs1" "monitor r2 = monitor r1 @ cs2" by blast
  have "added_ids (monitor r2) = ids0 @ ids1 @ ids2"
    using registry_run_added [OF assms(1) registry_inv_new] registry_run_added [OF assms(2) inv(1)]
      registry_run_added [OF assms(3) inv(2)] by (simp add: registry_new_def)
  with assms(4) registry_same_items [OF inv(3)] have "same_items (monitor r2)" by simp
  moreover have "set (played r0 r1 r2) \<subseteq> set (monitor r2)"
    using registry_contents_added [OF inv(2)] cs
    by (auto simp: played_def dest: in_set_dropD)
  ultimately show "same_items (played r0 r1 r2)" unfolding same_items_def by blast
  have "distinct (map fst (contents r1))"
    using inv(2) bt_inv_distinct by (auto simp: registry_inv_def)
  then have "map_of (fold play_change (map (\<lambda>(i, x). Added i x) (contents r1)) []) = map_of (contents r1)"
    using fold_play_adds [of "contents r1" "[]"] by simp
  from reglog.view_fold_cong [OF this]
  have "map_of (fold play_change (played r0 r1 r2) []) =
      map_of (fold play_change (drop ?t0 (monitor r2)) (contents r1))"
    by (simp add: played_def registry_monitor_def)
  also have "contents r1 = fold play_change (take ?t1 (monitor r2)) []"
    using inv(2) cs by (simp add: registry_inv_def)
  also have "map_of (fold play_change (drop ?t0 (monitor r2)) \<dots>) =
      map_of (fold play_change (monitor r2) [])"
    by (rule reglog.resync) (simp add: cs)
  also have "\<dots> = registry_lookup r2" using registry_lookup_replay [OF inv(3)] by simp
  finally show "map_of (fold play_change (played r0 r1 r2) []) = registry_lookup r2" .
qed

text \<open>
  C11. What a volume slot of a device shows after a turn of the task on any slots, those of a
  fresh device or those a lag left: once the task has caught up with the volume registry (it
  subscribed at \<open>r0\<close>, read the contents at \<open>r1\<close>, and has received everything up to \<open>r2\<close>,
  mixed with messages of the other registries), each volume slot holds the newest matching
  volume announced in this turn if that one is still live, and nothing if it is not. When no
  match was announced in this turn, the slot keeps what it held before the turn, unless that
  was removed in the turn. So a slot names a volume that is gone, or that does not match, only
  if it did so when the turn began; a fresh device never does.
\<close>

theorem device_volume_slots:
  assumes "registry_run ops0 registry_new = (ids0, r0)" "registry_run ops1 r0 = (ids1, r1)"
    "registry_run ops2 r1 = (ids2, r2)" "length (ids0 @ ids1 @ ids2) \<le> 2 ^ 64"
    and "volumes s = r1"
    and "list_all msg_ok msgs" and "volume_changes msgs = drop (registry_monitor r0) (monitor r2)"
    and "k < length (cd_volumes d)"
  shows "let old = cd_volumes d ! k;
             slot = cd_volumes (fst (monitor_items s msgs d w)) ! k;
             m = volume_config_matches (slot_config old);
             good = (\<lambda>i. \<exists>item. registry_lookup r2 i = Some item \<and> m (item_properties item))
         in slot_config slot = slot_config old \<and>
            device_item_get slot =
              (case newest_match m (played r0 r1 r2) of
                 None \<Rightarrow>
                   (case device_item_get old of
                      None \<Rightarrow> None
                    | Some i \<Rightarrow> if Removed i \<in> set (played r0 r1 r2) then None else Some i)
               | Some i \<Rightarrow> if registry_lookup r2 i = None then None else Some i) \<and>
            (\<forall>i. device_item_get slot = Some i \<longrightarrow> good i \<or> device_item_get old = Some i) \<and>
            (\<forall>cfg i. d = device_from_config cfg \<longrightarrow> device_item_get slot = Some i \<longrightarrow> good i)"
proof -
  let ?old = "cd_volumes d ! k"
  let ?m = "volume_config_matches (slot_config ?old)"
  let ?slot = "cd_volumes (fst (monitor_items s msgs d w)) ! k"
  have slot: "?slot = slot_play volume_config_matches (played r0 r1 r2) ?old"
    using assms(5-8) by (simp add: monitor_items_volumes played_def)
  have same: "same_items (played r0 r1 r2)"
    and look: "map_of (fold play_change (played r0 r1 r2) []) = registry_lookup r2"
    using played_facts [OF assms(1-4)] by auto
  have id: "device_item_get ?slot = (case newest_match ?m (played r0 r1 r2) of
      None \<Rightarrow> (case device_item_get ?old of None \<Rightarrow> None
        | Some i \<Rightarrow> if Removed i \<in> set (played r0 r1 r2) then None else Some i)
    | Some i \<Rightarrow> if registry_lookup r2 i = None then None else Some i)"
    unfolding slot slot_play_def device_item_get_def look [symmetric]
    using slot_fold_from [OF same, of ?m] by simp
  have good: "\<exists>item. registry_lookup r2 i = Some item \<and> ?m (item_properties item)"
    if "device_item_get ?slot = Some i" "device_item_get ?old \<noteq> Some i" for i
  proof -
    from that id obtain item where new: "newest_match ?m (played r0 r1 r2) = Some i"
      and item: "registry_lookup r2 i = Some item" by (auto split: option.splits if_splits)
    from newest_match_in [OF new] obtain x where
      "Added i x \<in> set (played r0 r1 r2)" and x: "?m (item_properties x)" by blast
    moreover obtain e where e: "last_on change_id i (played r0 r1 r2) = Some e" "change_item e = Some item"
      using item reglog.view_fold [of "played r0 r1 r2" "[]" i] by (auto simp: look split: option.splits)
    from last_on_Some [OF e(1)] e(2) have "Added i item \<in> set (played r0 r1 r2)" by (cases e) auto
    ultimately have "x = item" using same unfolding same_items_def by blast
    with x item show ?thesis by blast
  qed
  have "device_item_get ?old = None" if "d = device_from_config cfg" for cfg
    using that assms(8) by (simp add: device_from_config_def device_item_get_def device_item_new_def)
  with good id show ?thesis by (auto simp: Let_def slot slot_play_def)
qed

definition example_device :: "nat DeviceConfig" where
  "example_device =
     \<lparr>dc_name = ''dut'', dc_consoles = [],
      dc_modes =
        [\<lparr>mc_name = ''off'', mc_depends = None,
          mc_sequence = [\<lparr>ms_match = [(NAME, ''psu'')], ms_parameters = 0, ms_stabilisation = None\<rparr>]\<rparr>,
         \<lparr>mc_name = ''on'', mc_depends = Some ''off'',
          mc_sequence = [\<lparr>ms_match = [(NAME, ''psu'')], ms_parameters = 1, ms_stabilisation = Some 100\<rparr>]\<rparr>],
      dc_volumes = [\<lparr>vc_name = ''boot'', vc_match = [(NAME, ''fastboot'')]\<rparr>]\<rparr>"

lemma device_volume_slots_witness:
  "\<exists>r0 r1 (r2 :: (VolumeKind, nat Volume) Registry).
     let slot = cd_volumes (fst (monitor_items
           ((server_new [] ''/etc'' :: (nat, nat) Server)\<lparr>volumes := r1\<rparr>)
           (map (VolumeMsg \<circ> Ok) (drop (registry_monitor r0) (monitor r2)))
           (device_from_config example_device) 0)) ! 0
     in device_item_get slot =
          (case newest_match (volume_config_matches (dc_volumes example_device ! 0)) (played r0 r1 r2) of
             None \<Rightarrow> None
           | Some i \<Rightarrow> if registry_lookup r2 i = None then None else Some i)"
proof -
  let ?add = "AddOp (properties_new ''fastboot'') (null_volume :: nat Volume)"
  obtain i0 and r0 :: "(VolumeKind, nat Volume) Registry" where
    r0: "registry_run [?add] registry_new = (i0, r0)" by (metis surj_pair)
  obtain i1 r1 where r1: "registry_run [?add] r0 = (i1, r1)" by (metis surj_pair)
  obtain i2 r2 where r2: "registry_run [RemoveOp (U64Index 0)] r1 = (i2, r2)" by (metis surj_pair)
  have bound: "length (i0 @ i1 @ i2) \<le> 2 ^ 64"
    using r0 r1 r2 by (auto simp: Let_def split_beta)
  have ch: "volume_changes (map (VolumeMsg \<circ> Ok) cs) = cs" for cs
    by (induction cs) simp_all
  have ok: "list_all msg_ok (map (VolumeMsg \<circ> Ok) cs)" for cs
    by (induction cs) simp_all
  show ?thesis
    using device_volume_slots [OF r0 r1 r2 bound, of
        "(server_new [] ''/etc'' :: (nat, nat) Server)\<lparr>volumes := r1\<rparr>"
        "map (VolumeMsg \<circ> Ok) (drop (registry_monitor r0) (monitor r2))" 0 "device_from_config example_device" 0]
    by (intro exI [of _ r0] exI [of _ r1] exI [of _ r2])
       (simp add: ch ok Let_def example_device_def device_from_config_def device_item_new_def device_item_get_def
         cong: option.case_cong)
qed

text \<open>
  Two limits of the slots, both on small runs. A slot overridden by a newer match is left
  empty when that one goes, although the older match is still live. And after a lag the task
  starts over on the slots as they are: the removal it missed leaves a dead identifier.
\<close>

lemma device_slot_forgets_older_match:
  defines "add \<equiv> (\<lambda>i. VolumeMsg (Ok (Added (U64Index i)
      (item_new (properties_new ''fastboot'') (null_volume :: nat Volume)))))"
  shows "map device_item_get (cd_volumes (fst (monitor_items (server_new [] ''/etc'' :: (nat, nat) Server)
      [add 0, add 1, VolumeMsg (Ok (Removed (U64Index 1)))] (device_from_config example_device) 0))) = [None]"
  by (simp add: monitor_items_volumes add_def server_new_def registry_new_def device_from_config_def
      example_device_def slot_play_def device_item_get_def device_item_new_def
      volume_config_matches_def properties_matches_iff properties_instance_def item_new_def)

lemma device_slot_stale_after_lag:
  defines "dead \<equiv> VolumeMsg (Ok (Added (U64Index 0)
      (item_new (properties_new ''fastboot'') (null_volume :: nat Volume))))"
  shows "let (d1, w1) = monitor_items (server_new [] ''/etc'' :: (nat, nat) Server)
             [dead, VolumeMsg (Err (Lagged 1))] (device_from_config example_device) 0;
             (d2, w2) = monitor_items (server_new [] ''/etc'') [] d1 w1
         in map device_item_get (cd_volumes d2) = [Some (U64Index 0)]"
  by (simp add: monitor_items_def monitor_start_def server_new_def registry_new_def Let_def dead_def
      device_from_config_def example_device_def volume_change_def set_if_matches_def
      device_item_set_def notify_def setup_none_def
      device_item_get_def device_item_new_def
      volume_config_matches_def properties_matches_iff properties_instance_def item_new_def)

subsection \<open>The outcome of set_mode\<close>

text \<open>The steps a mode still has to run after its first \<open>n\<close> have succeeded.\<close>

lemma set_mode_steps_append:
  "set_mode_steps server sleep (xs @ ys) w =
     (case set_mode_steps server sleep xs w of
        (Err e, w1) \<Rightarrow> (Err e, w1) | (Ok _, w1) \<Rightarrow> set_mode_steps server sleep ys w1)"
  by (induction xs arbitrary: w) (auto split: prod.splits sum.splits)

lemma set_mode_steps_prefix:
  "set_mode_steps server sleep steps w = (r, w') \<Longrightarrow>
   (r = Ok () \<and> (\<forall>n \<le> length steps. is_ok (fst (set_mode_steps server sleep (take n steps) w)))) \<or>
   (\<exists>n < length steps. \<exists>w1 e.
      set_mode_steps server sleep (take n steps) w = (Ok (), w1) \<and>
      set_mode_one server sleep (steps ! n) w1 = (Err (ActuatorFailed e), w') \<and>
      r = Err (ActuatorFailed e))"
proof (induction steps arbitrary: w)
  case (Cons st steps)
  obtain r1 w1 where one: "set_mode_one server sleep st w = (r1, w1)" by force
  show ?case
  proof (cases r1)
    case (Inl e)
    with one have "\<exists>a. e = ActuatorFailed a"
      by (auto simp: set_mode_one_def split: option.splits prod.splits sum.splits)
    with Inl one Cons.prems show ?thesis by (intro disjI2 exI [of _ 0]) auto
  next
    case (Inr u)
    with one Cons.prems have "set_mode_steps server sleep steps w1 = (r, w')" by simp
    from Cons.IH [OF this] show ?thesis
    proof
      assume "r = Ok () \<and> (\<forall>n \<le> length steps. is_ok (fst (set_mode_steps server sleep (take n steps) w1)))"
      with Inr one show ?thesis by (intro disjI1) (auto simp: take_Cons split: nat.splits)
    next
      assume "\<exists>n < length steps. \<exists>w1' e.
        set_mode_steps server sleep (take n steps) w1 = (Ok (), w1') \<and>
        set_mode_one server sleep (steps ! n) w1' = (Err (ActuatorFailed e), w') \<and>
        r = Err (ActuatorFailed e)"
      then obtain n w1' e where n: "n < length steps"
        "set_mode_steps server sleep (take n steps) w1 = (Ok (), w1')"
        "set_mode_one server sleep (steps ! n) w1' = (Err (ActuatorFailed e), w')"
        "r = Err (ActuatorFailed e)" by blast
      with Inr one show ?thesis
        by (intro disjI2 exI [of _ "Suc n"]) auto
    qed
  qed
qed auto

text \<open>
  C12. The outcome of \<^verbatim>\<open>set_mode\<close> on every branch. An unknown mode and a dependency that is
  not the current mode leave the device and the world as they were; a mode that may start
  either runs all its steps, and is then the current mode and announced, or stops at the
  first step whose actuator is missing or fails, and then the device has no current mode.
\<close>

theorem set_mode_outcome:
  "case set_mode server sleep mode (d, w) of
     (Err ModeNotFound, d', w') \<Rightarrow> mode \<notin> dm_name ` set (cd_modes d) \<and> d' = d \<and> w' = w
   | (Err WrongCurrentMode, d', w') \<Rightarrow>
       (\<exists>m dep. List.find (\<lambda>m. dm_name m = mode) (cd_modes d) = Some m \<and>
          dm_depends m = Some dep \<and> cd_current_mode d \<noteq> Some dep) \<and> d' = d \<and> w' = w
   | (Err (ActuatorFailed e), d', w') \<Rightarrow>
       d' = d\<lparr>cd_current_mode := None\<rparr> \<and>
       (\<exists>m n w1. List.find (\<lambda>m. dm_name m = mode) (cd_modes d) = Some m \<and>
          n < length (dm_sequence m) \<and>
          set_mode_steps server sleep (take n (map slot_config (dm_sequence m))) w = (Ok (), w1) \<and>
          set_mode_one server sleep (slot_config (dm_sequence m ! n)) w1 = (Err (ActuatorFailed e), w'))
   | (Ok _, d', w') \<Rightarrow>
       d' = d\<lparr>cd_current_mode := Some mode, cd_notified := Suc (cd_notified d)\<rparr> \<and>
       (\<exists>m. List.find (\<lambda>m. dm_name m = mode) (cd_modes d) = Some m \<and>
          (dm_depends m = None \<or> dm_depends m = cd_current_mode d) \<and>
          set_mode_steps server sleep (map slot_config (dm_sequence m)) w = (Ok (), w'))"
proof (cases "List.find (\<lambda>m. dm_name m = mode) (cd_modes d)")
  case None
  then have "mode \<notin> dm_name ` set (cd_modes d)" by (auto simp: find_None_iff)
  moreover have "set_mode server sleep mode (d, w) = (Err ModeNotFound, d, w)"
    using None by (simp add: set_mode_def set_mode_begin_def)
  ultimately show ?thesis by simp
next
  case (Some m)
  show ?thesis
  proof (cases "case dm_depends m of Some dep \<Rightarrow> cd_current_mode d \<noteq> Some dep | None \<Rightarrow> False")
    case True
    with Some have "set_mode server sleep mode (d, w) = (Err WrongCurrentMode, d, w)"
      by (simp add: set_mode_def set_mode_begin_def)
    with True Some show ?thesis by (simp split: option.splits)
  next
    case False
    obtain r w' where steps: "set_mode_steps server sleep (map slot_config (dm_sequence m)) w = (r, w')"
      by force
    from False have dep: "dm_depends m = None \<or> dm_depends m = cd_current_mode d"
      by (auto split: option.splits)
    have eq: "set_mode server sleep mode (d, w) =
        (case r of Err e \<Rightarrow> (Err e, d\<lparr>cd_current_mode := None\<rparr>, w')
         | Ok _ \<Rightarrow> (Ok (), set_mode_finish mode (d\<lparr>cd_current_mode := None\<rparr>), w'))"
      using Some False steps
      by (auto simp: set_mode_def set_mode_begin_def split: option.splits sum.splits)
    show ?thesis
    proof (cases r)
      case (Inl e)
      with set_mode_steps_prefix [OF steps] Some eq show ?thesis
        by (fastforce simp: take_map)
    next
      case (Inr u)
      with Some eq steps dep show ?thesis by (auto simp: set_mode_finish_def notify_def)
    qed
  qed
qed

subsection \<open>Interleaved calls\<close>

text \<open>
  Calls of \<^verbatim>\<open>set_mode\<close> run concurrently, and the monitor task beside them. A call is
  pending, has the given steps of a mode left, or has returned; one step of the system is one
  critical section, one actuator step, or one message of the monitor task.
\<close>

datatype 'p mode_call =
    Called string
  | Running string "'p ModeStepConfig list"
  | Returned "(DeviceSetModeError, unit) result"

inductive mode_step ::
  "('w \<Rightarrow> ('p, 'w) Server) \<Rightarrow> (nat \<Rightarrow> 'w \<Rightarrow> 'w) \<Rightarrow>
   'p ConfDevice \<times> 'p mode_call list \<times> 'w \<Rightarrow> 'p ConfDevice \<times> 'p mode_call list \<times> 'w \<Rightarrow> bool"
  for server and sleep where
  begin_ok: "n < length cs \<Longrightarrow> cs ! n = Called mode \<Longrightarrow> set_mode_begin mode d = Ok (steps, d') \<Longrightarrow>
     mode_step server sleep (d, cs, w) (d', cs[n := Running mode steps], w)"
| begin_err: "n < length cs \<Longrightarrow> cs ! n = Called mode \<Longrightarrow> set_mode_begin mode d = Err e \<Longrightarrow>
     mode_step server sleep (d, cs, w) (d, cs[n := Returned (Err e)], w)"
| run_ok: "n < length cs \<Longrightarrow> cs ! n = Running mode (st # steps) \<Longrightarrow>
     set_mode_one server sleep st w = (Ok (), w') \<Longrightarrow>
     mode_step server sleep (d, cs, w) (d, cs[n := Running mode steps], w')"
| run_err: "n < length cs \<Longrightarrow> cs ! n = Running mode (st # steps) \<Longrightarrow>
     set_mode_one server sleep st w = (Err e, w') \<Longrightarrow>
     mode_step server sleep (d, cs, w) (d, cs[n := Returned (Err e)], w')"
| finish: "n < length cs \<Longrightarrow> cs ! n = Running mode [] \<Longrightarrow>
     mode_step server sleep (d, cs, w) (set_mode_finish mode d, cs[n := Returned (Ok ())], w)"
| watch: "monitor_event msg d w = Some (changed, d', w') \<Longrightarrow>
     mode_step server sleep (d, cs, w) (if changed then notify d' else d', cs, w')"

inductive_cases mode_stepE: "mode_step server sleep (d, cs, w) t"

text \<open>A call run alone does what \<^verbatim>\<open>set_mode\<close> does.\<close>

lemma mode_step_run:
  "set_mode_steps server sleep steps w = (r, w') \<Longrightarrow> cs = [Running mode steps] \<Longrightarrow>
   (mode_step server sleep)\<^sup>*\<^sup>* (d, cs, w)
     (case r of Err e \<Rightarrow> (d, [Returned (Err e)], w')
      | Ok _ \<Rightarrow> (set_mode_finish mode d, [Returned (Ok ())], w'))"
proof (induction steps arbitrary: w cs)
  case Nil
  then show ?case
    using mode_step.finish [of 0 cs mode server sleep d w] by auto
next
  case (Cons st steps)
  obtain r1 w1 where one: "set_mode_one server sleep st w = (r1, w1)" by force
  show ?case
  proof (cases r1)
    case (Inl e)
    with Cons.prems one mode_step.run_err [of 0 cs mode st steps server sleep w e w1 d]
    show ?thesis by auto
  next
    case (Inr u)
    with Cons.prems one have rest: "set_mode_steps server sleep steps w1 = (r, w')" by simp
    from Cons.prems one Inr mode_step.run_ok [of 0 cs mode st steps server sleep w w1 d]
    have "mode_step server sleep (d, cs, w) (d, [Running mode steps], w1)" by simp
    with Cons.IH [OF rest refl] show ?thesis
      by (rule converse_rtranclp_into_rtranclp [rotated])
  qed
qed

theorem set_mode_is_run:
  "set_mode server sleep mode (d, w) = (r, d', w') \<Longrightarrow>
   (mode_step server sleep)\<^sup>*\<^sup>* (d, [Called mode], w) (d', [Returned r], w')"
proof (cases "set_mode_begin mode d")
  case (Inl e)
  assume "set_mode server sleep mode (d, w) = (r, d', w')"
  with Inl mode_step.begin_err [of 0 "[Called mode]" mode d e server sleep w] show ?thesis
    by (auto simp: set_mode_def)
next
  case (Inr p)
  assume a: "set_mode server sleep mode (d, w) = (r, d', w')"
  obtain steps d1 where p: "p = (steps, d1)" by force
  obtain r1 w1 where steps: "set_mode_steps server sleep steps w = (r1, w1)" by force
  have "mode_step server sleep (d, [Called mode], w) (d1, [Running mode steps], w)"
    using mode_step.begin_ok [of 0 "[Called mode]" mode d steps d1 server sleep w] Inr p by simp
  moreover note mode_step_run [OF steps refl, of d1 mode]
  moreover have "(case r1 of Err e \<Rightarrow> (d1, [Returned (Err e)], w1)
      | Ok _ \<Rightarrow> (set_mode_finish mode d1, [Returned (Ok ())], w1)) = (d', [Returned r], w')"
    using a Inr p steps by (auto simp: set_mode_def split: sum.splits)
  ultimately show ?thesis by (metis converse_rtranclp_into_rtranclp)
qed

subsection \<open>When calls exclude each other\<close>

fun running :: "'p mode_call \<Rightarrow> bool" where
  "running (Running _ _) = True"
| "running _ = False"

text \<open>Every mode of that name depends on another.\<close>

definition dependent :: "'p ConfDevice \<Rightarrow> string \<Rightarrow> bool" where
  "dependent d mode = list_all (\<lambda>m. dm_name m = mode \<longrightarrow> dm_depends m \<noteq> None) (cd_modes d)"

definition mode_heads :: "'p ConfDevice \<Rightarrow> (string \<times> string option) list" where
  "mode_heads d = map (\<lambda>m. (dm_name m, dm_depends m)) (cd_modes d)"

lemma dependent_heads: "dependent d mode = list_all (\<lambda>(n, dep). n = mode \<longrightarrow> dep \<noteq> None) (mode_heads d)"
  by (simp add: dependent_def mode_heads_def list_all_iff)

lemma change_modes_heads:
  "map (\<lambda>m. (dm_name m, dm_depends m)) (fst (snd (change_modes c changed ms w))) =
     map (\<lambda>m. (dm_name m, dm_depends m)) ms"
  by (induction ms arbitrary: changed w) (simp_all add: Let_def split_beta)

lemma monitor_event_frame:
  assumes "monitor_event msg d w = Some (changed, d', w')"
  shows "cd_current_mode d' = cd_current_mode d" and "mode_heads d' = mode_heads d"
proof -
  have "cd_current_mode d' = cd_current_mode d \<and> mode_heads d' = mode_heads d"
    using assms change_modes_heads
    by (cases msg rule: msg_ok.cases; cases "projr (case msg of ConsoleMsg r \<Rightarrow> map_sum id (\<lambda>_. ()) r)")
       (auto simp: console_change_def actuator_change_def volume_change_def mode_heads_def
         Let_def split_beta elim!: monitor_event.elims)
  then show "cd_current_mode d' = cd_current_mode d" and "mode_heads d' = mode_heads d" by auto
qed

definition exclusive :: "'p ConfDevice \<times> 'p mode_call list \<times> 'w \<Rightarrow> bool" where
  "exclusive s = (case s of (d, cs, w) \<Rightarrow>
     (\<forall>n < length cs. \<forall>mode. cs ! n = Called mode \<longrightarrow> dependent d mode) \<and>
     (\<forall>m n. m < length cs \<and> n < length cs \<and> running (cs ! m) \<and> running (cs ! n) \<longrightarrow> m = n) \<and>
     (\<forall>n < length cs. running (cs ! n) \<longrightarrow> cd_current_mode d = None))"

lemma set_mode_begin_dependent:
  assumes "set_mode_begin mode d = Ok (steps, d')" "dependent d mode"
  shows "cd_current_mode d \<noteq> None" and "d' = d\<lparr>cd_current_mode := None\<rparr>"
proof -
  from assms(1) obtain m where m: "List.find (\<lambda>m. dm_name m = mode) (cd_modes d) = Some m"
    by (auto simp: set_mode_begin_def split: option.splits)
  from find_map_Some [OF m] assms(2) have "dm_depends m \<noteq> None"
    by (auto simp: dependent_def list_all_iff)
  with assms(1) m show "cd_current_mode d \<noteq> None"
    by (auto simp: set_mode_begin_def split: if_splits)
  from assms(1) m show "d' = d\<lparr>cd_current_mode := None\<rparr>"
    by (auto simp: set_mode_begin_def split: if_splits)
qed

lemma exclusive_step [inv_intros]:
  assumes "mode_step server sleep s t" "exclusive s"
  shows "exclusive t"
  using assms
proof (cases rule: mode_step.cases)
  case (begin_ok n cs mode d steps d' w)
  with assms(2) have "dependent d mode" by (auto simp: exclusive_def)
  note facts = set_mode_begin_dependent [OF begin_ok(5) this]
  then have none: "\<not> running (cs ! k)" if "k < length cs" for k
    using assms(2) begin_ok(1) that by (auto simp: exclusive_def)
  show ?thesis
    using begin_ok assms(2) facts none
    by (auto simp: exclusive_def nth_list_update dependent_def)
next
  case (watch msg d w changed d' w' cs)
  have "dependent (if changed then notify d' else d') mode = dependent d mode" for mode
    using monitor_event_frame(2) [OF watch(3)] by (simp add: dependent_heads mode_heads_def notify_def)
  moreover have "cd_current_mode (if changed then notify d' else d') = cd_current_mode d"
    using monitor_event_frame(1) [OF watch(3)] by (simp add: notify_def)
  ultimately show ?thesis using watch(1,2) assms(2) by (simp add: exclusive_def)
qed (auto simp: exclusive_def nth_list_update set_mode_finish_def notify_def dependent_def)

text \<open>
  C13. Calls of modes with a dependency exclude each other: when the calls pending on a
  device all name modes that depend on another, then under every interleaving of their steps
  and of the monitor task at most one call is between its start and its end, and meanwhile
  the device has no current mode.
\<close>

theorem set_mode_mutex:
  assumes "(mode_step server sleep)\<^sup>*\<^sup>* (d, cs, w) (d', cs', w')"
    and "\<And>c. c \<in> set cs \<Longrightarrow> \<exists>mode. c = Called mode \<and> dependent d mode"
  shows "(\<forall>m n. m < length cs' \<and> n < length cs' \<and> running (cs' ! m) \<and> running (cs' ! n) \<longrightarrow> m = n) \<and>
    (\<forall>n < length cs'. running (cs' ! n) \<longrightarrow> cd_current_mode d' = None)"
proof -
  have idle: "\<not> running (cs ! n)" if "n < length cs" for n
    using assms(2) [OF nth_mem [OF that]] by auto
  have "exclusive (d, cs, w)"
    using assms(2) idle by (fastforce simp: exclusive_def dest: nth_mem)
  with assms(1) have "exclusive (d', cs', w')"
    by (induction rule: rtranclp_induct) (auto intro: exclusive_step)
  then show ?thesis by (simp add: exclusive_def)
qed

lemma set_mode_mutex_witness:
  "\<exists>d' cs' w'. (mode_step (\<lambda>w. server_new [] ''/etc'' :: (nat, nat) Server) (\<lambda>n w. w))\<^sup>*\<^sup>*
     ((device_from_config example_device)\<lparr>cd_current_mode := Some ''off''\<rparr>, [Called ''on'', Called ''on''], 0)
     (d', cs', w') \<and>
   (\<exists>n < length cs'. running (cs' ! n)) \<and>
   (\<forall>m n. m < length cs' \<and> n < length cs' \<and> running (cs' ! m) \<and> running (cs' ! n) \<longrightarrow> m = n)"
proof -
  let ?sv = "\<lambda>w. server_new [] ''/etc'' :: (nat, nat) Server"
  let ?d = "(device_from_config example_device)\<lparr>cd_current_mode := Some ''off''\<rparr>"
  let ?cs = "[Called ''on'', Called ''on'']"
  obtain steps d1 where b: "set_mode_begin ''on'' ?d = Ok (steps, d1)"
    by (simp add: set_mode_begin_def device_from_config_def dev_mode_from_def example_device_def)
  have "mode_step ?sv (\<lambda>n w. w) (?d, ?cs, 0) (d1, ?cs[0 := Running ''on'' steps], 0)"
    by (rule mode_step.begin_ok [OF _ _ b]) simp_all
  then have run: "(mode_step ?sv (\<lambda>n w. w))\<^sup>*\<^sup>* (?d, ?cs, 0) (d1, ?cs[0 := Running ''on'' steps], 0)" ..
  have "\<And>c. c \<in> set ?cs \<Longrightarrow> \<exists>mode. c = Called mode \<and> dependent ?d mode"
    by (simp add: dependent_def device_from_config_def dev_mode_from_def example_device_def)
  from set_mode_mutex [OF run this] run show ?thesis
    by (intro exI [of _ d1] exI [of _ "?cs[0 := Running ''on'' steps]"] exI [of _ 0]) auto
qed

end
