(* ===== verification/Rockusb.thy ===== *)
theory Rockusb
  imports Provider_Common
begin

section \<open>The Rockchip USB provider (boardswarm/src/rockusb.rs)\<close>

text \<open>
  A Rockchip board is in one of two modes. In mask ROM mode its two targets collect a blob and
  download it when they are shut down; a running loader has one target that reads and writes
  the flash. The task that owns a device answers one command at a time, so a command is a call.
  The rockusb library is the record \<open>rockusb_lib\<close>. The lemmas: the event loop neither leaks
  nor loses volumes, the blob downloaded is what was written in sequence, and the loader target
  refines an array of bytes when the library does.
\<close>

subsection \<open>The library, errors and modes\<close>



text \<open>
  \<open>rl_late\<close> tells how a command fails when the task has found no device: it was sent before
  the task ended, or after. \<open>rl_io_*\<close> are the methods of the flash reader and writer.
\<close>

record ('u, 'e, 'i, 'w) rockusb_lib =
  rl_find :: "usb_address \<Rightarrow> 'w \<Rightarrow> bool \<times> 'w"
  rl_late :: bool
  rl_open :: "usb_address \<Rightarrow> 'w \<Rightarrow> ('u, unit) result \<times> 'w"
  rl_flash_info :: "usb_address \<Rightarrow> 'w \<Rightarrow> ('e, u64) result \<times> 'w"
  rl_flash_id :: "usb_address \<Rightarrow> 'w \<Rightarrow> ('e, string) result \<times> 'w"
  rl_write_maskrom_area :: "usb_address \<Rightarrow> u16 \<Rightarrow> bytes \<Rightarrow> 'w \<Rightarrow> ('e, unit) result \<times> 'w"
  rl_into_io :: "usb_address \<Rightarrow> 'w \<Rightarrow> ('e, unit) result \<times> 'w"
  rl_io_seek :: "usb_address \<Rightarrow> u64 \<Rightarrow> 'w \<Rightarrow> ('i, unit) result \<times> 'w"
  rl_io_write_all :: "usb_address \<Rightarrow> bytes \<Rightarrow> 'w \<Rightarrow> ('i, unit) result \<times> 'w"
  rl_io_read :: "usb_address \<Rightarrow> nat \<Rightarrow> 'w \<Rightarrow> ('i, bytes) result \<times> 'w"
  rl_io_flush :: "usb_address \<Rightarrow> 'w \<Rightarrow> ('i, unit) result \<times> 'w"
  rl_show_unavailable :: "'u \<Rightarrow> string"
  rl_show_error :: "'e \<Rightarrow> string"
  rl_debug_io :: "'i \<Rightarrow> string"

datatype ('u, 'e) RockUsbError = CommandsSend | CommandsRecv | RockUsb 'e | RockDeviceUnavailable 'u

fun rockusb_error_display :: "('u, 'e, 'i, 'w) rockusb_lib \<Rightarrow> ('u, 'e) RockUsbError \<Rightarrow> string" where
  "rockusb_error_display lib CommandsSend = ''Failed to send command to rockusb thread''"
| "rockusb_error_display lib CommandsRecv =
     ''Failed to getting reply from rockusb thread: channel closed''"
| "rockusb_error_display lib (RockUsb e) = ''Rockusb usb error: '' @ rl_show_error lib e"
| "rockusb_error_display lib (RockDeviceUnavailable e) =
     ''Rockusb device not available: '' @ rl_show_unavailable lib e"

definition status_of_rockusb_error :: "('u, 'e, 'i, 'w) rockusb_lib \<Rightarrow> ('u, 'e) RockUsbError \<Rightarrow> status" where
  "status_of_rockusb_error lib e =
     (let msg = rockusb_error_display lib e in
      case e of
        CommandsSend \<Rightarrow> Status Internal msg | CommandsRecv \<Rightarrow> Status Internal msg
      | RockUsb _ \<Rightarrow> Status Aborted msg | RockDeviceUnavailable _ \<Rightarrow> Status Unavailable msg)"

definition volume_error_of_rockusb_error ::
  "('u, 'e, 'i, 'w) rockusb_lib \<Rightarrow> ('u, 'e) RockUsbError \<Rightarrow> VolumeError" where
  "volume_error_of_rockusb_error lib e =
     (let msg = rockusb_error_display lib e in
      case e of
        CommandsSend \<Rightarrow> VolumeInternal msg | CommandsRecv \<Rightarrow> VolumeInternal msg
      | RockDeviceUnavailable _ \<Rightarrow> VolumeFailure msg | RockUsb _ \<Rightarrow> VolumeFailure msg)"

datatype RockUsbMode = MaskRom | Loader string u64

definition open_device ::
  "('u, 'e, 'i, 'w) rockusb_lib \<Rightarrow> usb_address \<Rightarrow> 'w \<Rightarrow> (('u, 'e) RockUsbError, unit) result \<times> 'w" where
  "open_device lib a w = (case rl_open lib a w of (r, w1) \<Rightarrow> (map_err RockDeviceUnavailable r, w1))"

definition determine_mode ::
  "('u, 'e, 'i, 'w) rockusb_lib \<Rightarrow> usb_address \<Rightarrow> 'w \<Rightarrow>
   (('u, 'e) RockUsbError, RockUsbMode) result \<times> 'w" where
  "determine_mode lib a =
     try_then (open_device lib a)
       (\<lambda>w. case rl_flash_info lib a w of
          (Ok sz, w1) \<Rightarrow>
            (case rl_flash_id lib a w1 of
               (Ok f, w2) \<Rightarrow> (Ok (Loader (trim_end f) sz), w2)
             | (Err _, w2) \<Rightarrow> (Ok (Loader ''unknown'' sz), w2))
        | (Err _, w1) \<Rightarrow> (Ok MaskRom, w1))"

definition write_maskrom_area ::
  "('u, 'e, 'i, 'w) rockusb_lib \<Rightarrow> usb_address \<Rightarrow> u16 \<Rightarrow> bytes \<Rightarrow> 'w \<Rightarrow>
   (('u, 'e) RockUsbError, unit) result \<times> 'w" where
  "write_maskrom_area lib a area data =
     try_then (open_device lib a)
       (\<lambda>w. case rl_write_maskrom_area lib a area data w of (r, w1) \<Rightarrow> (map_err RockUsb r, w1))"

text \<open>\<^verbatim>\<open>handle_io\<close> up to the reply to the \<^verbatim>\<open>Open\<close> command.\<close>

definition open_io ::
  "('u, 'e, 'i, 'w) rockusb_lib \<Rightarrow> usb_address \<Rightarrow> 'w \<Rightarrow> (('u, 'e) RockUsbError, unit) result \<times> 'w" where
  "open_io lib a =
     try_then (open_device lib a)
       (\<lambda>w. case rl_into_io lib a w of (r, w1) \<Rightarrow> (map_err RockUsb r, w1))"

subsection \<open>The volume\<close>

record Rockusb =
  rock_address :: usb_address
  rock_targets :: "VolumeTargetInfo list"
  rock_mode :: RockUsbMode

definition maskrom_info :: "string \<Rightarrow> VolumeTargetInfo" where
  "maskrom_info name =
     \<lparr>target_name = name, readable = False, writable = True, seekable = False,
      target_size = None, blocksize = None\<rparr>"

fun mode_targets :: "RockUsbMode \<Rightarrow> VolumeTargetInfo list" where
  "mode_targets MaskRom = [maskrom_info ''471'', maskrom_info ''472'']"
| "mode_targets (Loader name sz) =
     [\<lparr>target_name = name, readable = True, writable = True, seekable = True,
       target_size = Some sz, blocksize = Some 512\<rparr>]"

definition rockusb_new ::
  "('u, 'e, 'i, 'w) rockusb_lib \<Rightarrow> usb_address \<Rightarrow> 'w \<Rightarrow>
   (('u, 'e) RockUsbError, Rockusb) result \<times> 'w" where
  "rockusb_new lib a w =
     (case rl_find lib a w of
        (False, w1) \<Rightarrow> (Err (if rl_late lib then CommandsRecv else CommandsSend), w1)
      | (True, w1) \<Rightarrow>
          (case determine_mode lib a w1 of
             (Err e, w2) \<Rightarrow> (Err e, w2)
           | (Ok mode, w2) \<Rightarrow>
               (Ok \<lparr>rock_address = a, rock_targets = mode_targets mode, rock_mode = mode\<rparr>, w2)))"

subsection \<open>The mask ROM target\<close>

text \<open>
  \<open>mt_capacity\<close> is the capacity of the buffer: that of \<^verbatim>\<open>with_capacity\<close> at first (at least
  what is asked for, exactly that here), 0 after \<^verbatim>\<open>BytesMut::new\<close>.
\<close>

record RockUsbMaskromTarget =
  mt_area :: u16
  mt_data :: bytes
  mt_capacity :: nat

definition maskrom_target_new :: "u16 \<Rightarrow> RockUsbMaskromTarget" where
  "maskrom_target_new area = \<lparr>mt_area = area, mt_data = [], mt_capacity = 1024 * 1024\<rparr>"

definition maskrom_write ::
  "bytes \<Rightarrow> u64 \<Rightarrow> RockUsbMaskromTarget \<Rightarrow> (status, u64) result \<times> RockUsbMaskromTarget" where
  "maskrom_write data offset t =
     (if unat offset \<noteq> length (mt_data t) then (Err (Status OutOfRange ''Invalid offset''), t)
      else if length data + length (mt_data t) > mt_capacity t
        then (Err (Status OutOfRange ''No more capacity''), t)
      else (Ok (of_nat (length data)), t\<lparr>mt_data := mt_data t @ data\<rparr>))"

definition maskrom_shutdown ::
  "('u, 'e, 'i, 'w) rockusb_lib \<Rightarrow> usb_address \<Rightarrow> RockUsbMaskromTarget \<times> 'w \<Rightarrow>
   (status, unit) result \<times> RockUsbMaskromTarget \<times> 'w" where
  "maskrom_shutdown lib a tw =
     (case tw of (t, w) \<Rightarrow>
        (case write_maskrom_area lib a (mt_area t) (mt_data t) w of
           (r, w1) \<Rightarrow> (map_err (status_of_rockusb_error lib) r, t\<lparr>mt_data := [], mt_capacity := 0\<rparr>, w1)))"

subsection \<open>The loader target\<close>

definition loader_status :: "('u, 'e, 'i, 'w) rockusb_lib \<Rightarrow> 'i \<Rightarrow> status" where
  "loader_status lib e = Status Aborted (rl_debug_io lib e)"

definition do_read ::
  "('u, 'e, 'i, 'w) rockusb_lib \<Rightarrow> usb_address \<Rightarrow> u64 \<Rightarrow> u64 \<Rightarrow> 'w \<Rightarrow> (status, bytes) result \<times> 'w" where
  "do_read lib a len offset w =
     (case try_then (rl_io_seek lib a offset) (rl_io_read lib a (unat len)) w of
        (r, w1) \<Rightarrow> (map_err (loader_status lib) r, w1))"

definition do_write ::
  "('u, 'e, 'i, 'w) rockusb_lib \<Rightarrow> usb_address \<Rightarrow> bytes \<Rightarrow> u64 \<Rightarrow> 'w \<Rightarrow> (status, u64) result \<times> 'w" where
  "do_write lib a data offset w =
     (case try_then (rl_io_seek lib a offset) (rl_io_write_all lib a data) w of
        (Err e, w1) \<Rightarrow> (Err (loader_status lib e), w1)
      | (Ok _, w1) \<Rightarrow> (Ok (of_nat (length data)), w1))"

definition do_flush ::
  "('u, 'e, 'i, 'w) rockusb_lib \<Rightarrow> usb_address \<Rightarrow> 'w \<Rightarrow> (status, unit) result \<times> 'w" where
  "do_flush lib a w =
     (case rl_io_flush lib a w of (r, w1) \<Rightarrow> (map_err (loader_status lib) r, w1))"

subsection \<open>The trait objects\<close>

datatype RockTarget = MaskromT RockUsbMaskromTarget | LoaderT

definition maskrom_target ::
  "('u, 'e, 'i, 'w) rockusb_lib \<Rightarrow> usb_address \<Rightarrow> (RockUsbMaskromTarget \<times> 'w) VolumeTarget" where
  "maskrom_target lib a =
     \<lparr>vt_read = default_read,
      vt_write = (\<lambda>data offset (t, w). case maskrom_write data offset t of (r, t1) \<Rightarrow> (Some r, t1, w)),
      vt_flush = default_flush,
      vt_shutdown = (\<lambda>tw. completed (maskrom_shutdown lib a tw))\<rparr>"

definition loader_flush ::
  "('u, 'e, 'i, 'w) rockusb_lib \<Rightarrow> usb_address \<Rightarrow> 'w \<Rightarrow> (status, unit) result option \<times> 'w" where
  "loader_flush lib a w = completed (do_flush lib a w)"

definition loader_target :: "('u, 'e, 'i, 'w) rockusb_lib \<Rightarrow> usb_address \<Rightarrow> 'w VolumeTarget" where
  "loader_target lib a =
     \<lparr>vt_read = (\<lambda>len offset w. completed (do_read lib a len offset w)),
      vt_write = (\<lambda>data offset w. completed (do_write lib a data offset w)),
      vt_flush = loader_flush lib a,
      vt_shutdown = default_shutdown (loader_flush lib a)\<rparr>"

text \<open>The targets of the loader keep no state; those of the mask ROM are cells.\<close>

definition world_target :: "'w VolumeTarget \<Rightarrow> ('t, 'w) boxed VolumeTarget" where
  "world_target vt =
     \<lparr>vt_read = (\<lambda>len offset. on_world (vt_read vt len offset)),
      vt_write = (\<lambda>data offset. on_world (vt_write vt data offset)),
      vt_flush = on_world (vt_flush vt), vt_shutdown = on_world (vt_shutdown vt)\<rparr>"

type_synonym 'w rock_world = "(RockUsbMaskromTarget, 'w) boxed"

definition rockusb_open ::
  "('u, 'e, 'i, 'w) rockusb_lib \<Rightarrow> Rockusb \<Rightarrow> string \<Rightarrow> u64 option \<Rightarrow> 'w rock_world \<Rightarrow>
   (VolumeError, VolumeTargetInfo \<times> 'w rock_world VolumeTarget) result \<times> 'w rock_world" where
  "rockusb_open lib rock target len b =
     (case List.find (\<lambda>t. target_name t = target) (rock_targets rock) of
        None \<Rightarrow> (Err UnknownTargetRequested, b)
      | Some info \<Rightarrow>
          (case rock_mode rock of
             MaskRom \<Rightarrow>
               (case (if target = ''471'' then Some 0x471 else if target = ''472'' then Some 0x472 else None) of
                  None \<Rightarrow> (Err UnknownTargetRequested, b)
                | Some area \<Rightarrow>
                    (case box_target (maskrom_target lib (rock_address rock)) (maskrom_target_new area) b of
                       (vt, b1) \<Rightarrow> (Ok (info, vt), b1)))
           | Loader name sz \<Rightarrow>
               (if name = target
                then (case on_world (open_io lib (rock_address rock)) b of
                        (Err e, b1) \<Rightarrow> (Err (volume_error_of_rockusb_error lib e), b1)
                      | (Ok _, b1) \<Rightarrow> (Ok (info, world_target (loader_target lib (rock_address rock))), b1))
                else (Err UnknownTargetRequested, b))))"

definition rockusb_volume :: "('u, 'e, 'i, 'w) rockusb_lib \<Rightarrow> Rockusb \<Rightarrow> 'w rock_world Volume" where
  "rockusb_volume lib rock =
     \<lparr>vol_targets = (\<lambda>w. (rock_targets rock, True)), vol_open = rockusb_open lib rock,
      vol_commit = (\<lambda>w. (Ok (), w)), vol_erase = default_erase\<rparr>"

subsection \<open>The event loop\<close>

text \<open>\<open>None\<close> when the device is skipped, else its address and its name.\<close>

definition rockusb_admit ::
  "(udev_device \<Rightarrow> string option) \<Rightarrow> udev_device \<Rightarrow> (usb_address \<times> string) option" where
  "rockusb_admit devnode device =
     (case property_u64 device ''ID_VENDOR_ID'' 16 of
        None \<Rightarrow> None
      | Some vendor \<Rightarrow>
          (if vendor \<noteq> 0x2207 \<or> devnode device = None then None else
           case Option.bind (property_u64 device ''BUSNUM'' 10) u64_to_u8 of
             None \<Rightarrow> None
           | Some busnum \<Rightarrow>
          (case Option.bind (property_u64 device ''DEVNUM'' 10) u64_to_u8 of
             None \<Rightarrow> None
           | Some devnum \<Rightarrow>
             (let at = show_nat (unat busnum) @ ''/'' @ show_nat (unat devnum)
              in Some ((busnum, devnum),
                   case udev_property device ''ID_MODEL_ID'' of
                     Some model \<Rightarrow> at @ '' '' @ model | None \<Rightarrow> at)))))"

type_synonym ('p, 'w) rock_state =
  "(string \<times> VolumeId) list \<times> ('p, 'w rock_world) Server \<times> 'w rock_world"

fun rockusb_event ::
  "('u, 'e, 'i, 'w) rockusb_lib \<Rightarrow> (udev_device \<Rightarrow> string option) \<Rightarrow> string \<Rightarrow> DeviceEvent \<Rightarrow>
   ('p, 'w) rock_state \<Rightarrow> ('p, 'w) rock_state" where
  "rockusb_event lib devnode provider_name (EventAdded device seqnum) (m, s, b) =
     (case rockusb_admit devnode device of
        None \<Rightarrow> (m, s, b)
      | Some (a, name) \<Rightarrow>
          (case on_world (rockusb_new lib a) b of
             (Err e, b1) \<Rightarrow> (m, s, b1)
           | (Ok rock, b1) \<Rightarrow>
               (let props = properties_extend (udev_properties device name)
                      [(PROVIDER_NAME, provider_name), (PROVIDER, ''rockusb'')];
                    (i, s1) = register_volume props (rockusb_volume lib rock) s
                in (AList.update (ud_syspath device) i m, s1, b1))))"
| "rockusb_event lib devnode provider_name (EventRemoved device) (m, s, b) =
     (case map_of m (ud_syspath device) of
        Some i \<Rightarrow> (AList.delete (ud_syspath device) m, unregister_volume i s, b)
      | None \<Rightarrow> (m, s, b))"

definition rockusb_run where
  "rockusb_run lib devnode provider_name =
     run_steps (\<lambda>ev st. Done (rockusb_event lib devnode provider_name ev st))"

subsection \<open>Volumes of the event loop\<close>

interpretation rock_volumes: hotplug "rockusb_event lib devnode nm" "\<lambda>st. volumes (fst (snd st))" fst
  for lib :: "('u, 'e, 'i, 'w) rockusb_lib" and devnode nm
proof unfold_locales
  fix d n and st :: "('p, 'w) rock_state"
  obtain m s b where st: "st = (m, s, b)" by (cases st)
  let ?st = "rockusb_event lib devnode nm (EventAdded d n) st"
  show "volumes (fst (snd ?st)) = volumes (fst (snd st)) \<and> fst ?st = fst st \<or>
      (\<exists>p i. volumes (fst (snd ?st)) = snd (registry_add p i (volumes (fst (snd st)))) \<and>
         fst ?st = AList.update (ud_syspath d) (next_id (volumes (fst (snd st)))) (fst st))"
    by (auto simp: st Let_def split_beta split: option.split sum.split)
next
  fix d and st :: "('p, 'w) rock_state"
  obtain m s b where st: "st = (m, s, b)" by (cases st)
  show "volumes (fst (snd (rockusb_event lib devnode nm (EventRemoved d) st))) =
      (case map_of (fst st) (ud_syspath d) of
         Some i \<Rightarrow> registry_remove i (volumes (fst (snd st))) | None \<Rightarrow> volumes (fst (snd st)))"
    by (simp add: st split: option.split)
  show "fst (rockusb_event lib devnode nm (EventRemoved d) st) = AList.delete (ud_syspath d) (fst st)"
    by (simp add: st delete_unknown split: option.split)
qed

text \<open>
  C23. The event loop neither leaks nor steals volumes: after any events, the server has the
  volumes it had before and exactly one for every entry of the loop's map, and every entry is
  for a device that was announced and has not gone away, as long as no device is announced
  again while it is present.
\<close>

theorem rockusb_volumes_follow_devices:
  assumes "rockusb_run lib devnode nm evs ([], s, b) = Done (m, s', b')"
    and "no_overlap [] (List.map_filter announced_path evs)"
    and "registry_inv (volumes s)" and "length (added_ids (monitor (volumes s'))) < 2 ^ 64"
  shows "set (registry_ids (volumes s')) = set (registry_ids (volumes s)) \<union> snd ` set m \<and>
    set (registry_ids (volumes s)) \<inter> snd ` set m = {} \<and> distinct (map snd m) \<and>
    fst ` set m \<subseteq> set (fold keep_key (List.map_filter announced_path evs) [])"
  using rock_volumes.run_owns [OF assms(1) [unfolded rockusb_run_def] assms(2)] assms(3,4)
  by (simp add: rock_volumes.live_def rock_volumes.mine_def rock_volumes.adds_def live_ids)

text \<open>For the examples: a library over a disk and a position, whose boards run a loader.\<close>

definition loader_lib :: "(unit, unit, unit, bytes \<times> nat) rockusb_lib" where
  "loader_lib =
     \<lparr>rl_find = (\<lambda>a w. (True, w)), rl_late = False, rl_open = (\<lambda>a w. (Ok (), w)),
      rl_flash_info = (\<lambda>a (d, p). (Ok (of_nat (length d)), d, p)),
      rl_flash_id = (\<lambda>a w. (Ok ''EMMC '', w)),
      rl_write_maskrom_area = (\<lambda>a area d w. (Err (), w)), rl_into_io = (\<lambda>a w. (Ok (), w)),
      rl_io_seek = (\<lambda>a off (d, p). (Ok (), d, unat off)),
      rl_io_write_all = (\<lambda>a d (disk, p).
        if p + length d \<le> length disk
        then (Ok (), take p disk @ d @ drop (p + length d) disk, p + length d) else (Err (), disk, p)),
      rl_io_read = (\<lambda>a n (disk, p). (Ok (take n (drop p disk)), disk, p + length (take n (drop p disk)))),
      rl_io_flush = (\<lambda>a w. (Ok (), w)), rl_show_unavailable = (\<lambda>_. ''''), rl_show_error = (\<lambda>_. ''''),
      rl_debug_io = (\<lambda>_. '''')\<rparr>"

definition rock_board :: "string \<Rightarrow> udev_device" where
  "rock_board path = UdevDevice path None None
     [(''ID_VENDOR_ID'', ''2207''), (''BUSNUM'', ''1''), (''DEVNUM'', ''7'')] None"

lemma rock_admit:
  "rockusb_admit (\<lambda>_. Some ''/dev'') (rock_board p) = Some ((1, 7), ''1/7'')"
proof -
  have "show_nat 1 = ''1''" "show_nat 7 = ''7''" by code_simp+
  then show ?thesis
    by (simp add: rockusb_admit_def rock_board_def property_u64_def udev_property_def from_str_radix_def
      char_digit_def u64_to_u8_def Let_def)
qed

lemma rockusb_volumes_follow_devices_witness:
  "\<exists>m s' b'. rockusb_run loader_lib (\<lambda>_. Some ''/dev'') ''usb''
      [EventAdded (rock_board ''a'') 1, EventRemoved (rock_board ''a''), EventAdded (rock_board ''b'') 2]
      ([], server_new [] ''/etc'' :: (unit, (bytes \<times> nat) rock_world) Server,
       \<lparr>bx_cells = [], bx_world = (replicate 16 0, 0)\<rparr>) = Done (m, s', b') \<and>
    m = [(''b'', U64Index 1)] \<and> set (registry_ids (volumes s')) = {U64Index 1}"
proof -
  let ?evs = "[EventAdded (rock_board ''a'') 1, EventRemoved (rock_board ''a''), EventAdded (rock_board ''b'') 2]"
  let ?s = "server_new [] ''/etc'' :: (unit, (bytes \<times> nat) rock_world) Server"
  let ?b = "\<lparr>bx_cells = [], bx_world = (replicate 16 0, 0)\<rparr> :: (bytes \<times> nat) rock_world"
  have path: "ud_syspath (rock_board p) = p" for p by (simp add: rock_board_def)
  have new: "\<exists>r. on_world (rockusb_new loader_lib (1, 7)) ?b = (Ok r, ?b)"
    by (simp add: on_world_def rockusb_new_def loader_lib_def determine_mode_def try_then_def
        open_device_def)
  then obtain r where r: "on_world (rockusb_new loader_lib (1, 7)) ?b = (Ok r, ?b)" ..
  obtain s' where s': "rockusb_run loader_lib (\<lambda>_. Some ''/dev'') ''usb'' ?evs ([], ?s, ?b) =
      Done ([(''b'', U64Index 1)], s', ?b)" "length (added_ids (monitor (volumes s'))) = 2"
    by (simp add: rockusb_run_def rock_admit path r Let_def split_beta
      server_new_def registry_new_def registry_add_def index_next_def index_default_def added_ids_add registry_remove_def registry_lookup_def)
  have start: "registry_inv (volumes ?s)" "registry_ids (volumes ?s) = []"
    using registry_inv_new by (simp_all add: server_new_def registry_ids_def registry_new_def)
  from rockusb_volumes_follow_devices [OF s'(1) _ start(1)] s' start(2)
  show ?thesis by (simp add: path List.map_filter_simps)
qed

subsection \<open>The blob of the mask ROM\<close>

interpretation maskrom: staging mt_data mt_capacity maskrom_write
proof
  fix offset :: u64 and data :: bytes and t :: RockUsbMaskromTarget
  assume "unat offset = length (mt_data t)" "length data + length (mt_data t) \<le> mt_capacity t"
  then show "\<exists>t'. maskrom_write data offset t = (Ok (of_nat (length data)), t') \<and>
      mt_data t' = mt_data t @ data \<and> mt_capacity t' = mt_capacity t"
    by (simp add: maskrom_write_def)
next
  fix offset :: u64 and data :: bytes and t :: RockUsbMaskromTarget
  assume "unat offset \<noteq> length (mt_data t) \<or> mt_capacity t < length data + length (mt_data t)"
  then show "\<exists>e. maskrom_write data offset t = (Err e, t) \<and> status_code e = OutOfRange"
    by (auto simp: maskrom_write_def)
qed

lemma maskrom_shutdown_downloads:
  "maskrom_shutdown lib a (t, w) =
     (map_err (status_of_rockusb_error lib) (fst (write_maskrom_area lib a (mt_area t) (mt_data t) w)),
      t\<lparr>mt_data := [], mt_capacity := 0\<rparr>, snd (write_maskrom_area lib a (mt_area t) (mt_data t) w))"
  by (simp add: maskrom_shutdown_def split_beta)

text \<open>
  After the download the target is spent: its buffer has no capacity left, so every write of at
  least one byte is refused.
\<close>

lemma maskrom_spent:
  assumes "maskrom_shutdown lib a (t, w) = (r, t1, w1)" "data \<noteq> []"
  shows "\<exists>e. maskrom_write data offset t1 = (Err e, t1) \<and> status_code e = OutOfRange"
  using assms by (intro maskrom.refuse) (auto simp: maskrom_shutdown_downloads)

lemma maskrom_write_area [simp]: "mt_area (snd (maskrom_write data offset t)) = mt_area t"
  by (simp add: maskrom_write_def)

lemma maskrom_stages_area [simp]: "mt_area (maskrom.stages ws t) = mt_area t"
proof (induction ws arbitrary: t)
  case (Cons w ws)
  then show ?case by (cases w) (simp add: maskrom.stages_Cons)
qed (simp add: maskrom.stages_def)

text \<open>
  C24. A blob of up to a megabyte that is written to a mask ROM target in sequence, in pieces of
  any size, and then shut down is sent to the board in one download to the area of the target,
  whole and in order; the shutdown is answered with the outcome of the download.
\<close>

theorem rockusb_blob_downloaded:
  assumes "rock_mode rock = MaskRom" and "rock_targets rock = mode_targets MaskRom"
    and "target = ''471'' \<and> area = 0x471 \<or> target = ''472'' \<and> area = 0x472"
    and "length (concat ds) \<le> 1024 * 1024"
  shows "\<exists>vt b1 b2. rockusb_open lib rock target len b = (Ok (maskrom_info target, vt), b1) \<and>
    volume_io_loop vt (requests (write_requests (in_sequence 0 ds) @ [ReqShutdown])) b1 =
      (map (\<lambda>d. QWrite (Some (Ok (of_nat (length d))))) ds @
         [QShutdown (Some (map_err (status_of_rockusb_error lib)
            (fst (write_maskrom_area lib (rock_address rock) area (concat ds) (bx_world b)))))], b2) \<and>
    bx_world b2 = snd (write_maskrom_area lib (rock_address rock) area (concat ds) (bx_world b))"
proof -
  let ?vt = "maskrom_target lib (rock_address rock)" and ?n = "length (bx_cells b)"
  let ?t = "maskrom_target_new area" and ?ws = "in_sequence 0 ds"
  let ?b = "b\<lparr>bx_cells := bx_cells b @ [?t]\<rparr>"
  have op: "rockusb_open lib rock target len b = (Ok (maskrom_info target, boxed_target ?vt ?n), ?b)"
    using assms(1-3) by (auto simp: rockusb_open_def maskrom_info_def box_target_def)
  have cell: "bx_cells ?b ! ?n = ?t" by simp
  have start: "mt_data ?t = []" "mt_capacity ?t = 1024 * 1024" "mt_area ?t = area"
    by (simp_all add: maskrom_target_new_def)
  have data: "mt_data (maskrom.stages ?ws ?t) = concat ds"
    using assms(4) start by (intro maskrom.stages_sequence) simp_all
  have "vt_write ?vt = (\<lambda>d off (t, w). case maskrom_write d off t of (r, t1) \<Rightarrow> (Some r, t1, w))"
    by (simp add: maskrom_target_def)
  from maskrom.staged_session [OF this, of ?n ?b ds "[ReqShutdown]"] assms(4) start
  have "volume_io_loop (boxed_target ?vt ?n) (requests (write_requests ?ws @ [ReqShutdown])) ?b =
    (case volume_io_loop (boxed_target ?vt ?n) (requests [ReqShutdown])
       (?b\<lparr>bx_cells := (bx_cells ?b)[?n := maskrom.stages ?ws ?t]\<rparr>) of
     (rs, b1) \<Rightarrow> (map (\<lambda>d. QWrite (Some (Ok (of_nat (length d))))) ds @ rs, b1))"
    unfolding cell by simp
  with op data start(3) show ?thesis
    by (simp add: boxed_target_def on_cell_def maskrom_target_def completed_def
        maskrom_shutdown_downloads split_beta)
qed

lemma rockusb_blob_downloaded_witness:
  "\<exists>vt b1 b2. rockusb_open loader_lib \<lparr>rock_address = (1, 7), rock_targets = mode_targets MaskRom, rock_mode = MaskRom\<rparr>
      ''472'' None \<lparr>bx_cells = [], bx_world = ([], 0)\<rparr> = (Ok (maskrom_info ''472'', vt), b1) \<and>
    volume_io_loop vt (requests [ReqWrite [1, 2] 0, ReqWrite [3] 2, ReqShutdown]) b1 =
      ([QWrite (Some (Ok 2)), QWrite (Some (Ok 1)), QShutdown (Some (Err (Status Aborted ''Rockusb usb error: '')))], b2)"
  using rockusb_blob_downloaded [of
      "\<lparr>rock_address = (1, 7), rock_targets = mode_targets MaskRom, rock_mode = MaskRom\<rparr>" "''472''" "0x472"
      "[[1, 2], [3]]" loader_lib None "\<lparr>bx_cells = [], bx_world = ([], 0)\<rparr>"]
  by (auto simp: write_requests_def write_maskrom_area_def open_device_def try_then_def loader_lib_def
      status_of_rockusb_error_def)

subsection \<open>The flash of the loader\<close>

text \<open>
  What the program relies on in the reader and writer of the library, over a view of the world
  as the bytes of the flash and a position: \<^verbatim>\<open>seek\<close> sets the position, \<^verbatim>\<open>read\<close> returns some of
  the bytes there (possibly fewer than asked for), \<^verbatim>\<open>write_all\<close> in range replaces them all.
\<close>

definition splice :: "bytes \<Rightarrow> nat \<Rightarrow> bytes \<Rightarrow> bytes" where
  "splice d n xs = take n d @ xs @ drop (n + length xs) d"

lemma length_splice [simp]: "n + length xs \<le> length d \<Longrightarrow> length (splice d n xs) = length d"
  by (simp add: splice_def)

definition flash_laws :: "('u, 'e, 'i, 'w) rockusb_lib \<Rightarrow> usb_address \<Rightarrow> ('w \<Rightarrow> bytes) \<Rightarrow> ('w \<Rightarrow> nat) \<Rightarrow> bool" where
  "flash_laws lib a disk pos \<longleftrightarrow>
     (\<forall>off w. \<exists>w'. rl_io_seek lib a off w = (Ok (), w') \<and> disk w' = disk w \<and> pos w' = unat off) \<and>
     (\<forall>n w. \<exists>k w'. rl_io_read lib a n w = (Ok (take k (drop (pos w) (disk w))), w') \<and> k \<le> n \<and>
        disk w' = disk w) \<and>
     (\<forall>d w. pos w + length d \<le> length (disk w) \<longrightarrow>
        (\<exists>w'. rl_io_write_all lib a d w = (Ok (), w') \<and> disk w' = splice (disk w) (pos w) d)) \<and>
     (\<forall>w. \<exists>w'. rl_io_flush lib a w = (Ok (), w') \<and> disk w' = disk w)"

text \<open>The abstract target: an array of bytes.\<close>

inductive array_session :: "bytes \<Rightarrow> TargetOrRequest list \<Rightarrow> VolumeIoReply list \<Rightarrow> bytes \<Rightarrow> bool" where
  ends: "array_session d [] [] d"
| reads: "k \<le> unat len \<Longrightarrow> array_session d qs rs d' \<Longrightarrow>
    array_session d (ReqRead len off # qs) (QRead (Some (Ok (take k (drop (unat off) d)))) # rs) d'"
| writes: "unat off + length xs \<le> length d \<Longrightarrow> array_session (splice d (unat off) xs) qs rs d' \<Longrightarrow>
    array_session d (ReqWrite xs off # qs) (QWrite (Some (Ok (of_nat (length xs)))) # rs) d'"
| flushes: "array_session d qs rs d' \<Longrightarrow>
    array_session d (ReqFlush # qs) (QFlush (Some (Ok ())) # rs) d'"
| shuts: "array_session d qs rs d' \<Longrightarrow>
    array_session d (ReqShutdown # qs) (QShutdown (Some (Ok ())) # rs) d'"

fun within :: "nat \<Rightarrow> TargetOrRequest \<Rightarrow> bool" where
  "within n (ReqWrite xs off) = (unat off + length xs \<le> n)"
| "within n (ReqTarget _ _ _) = False"
| "within n _ = True"

lemma flash_ops:
  assumes "flash_laws lib a disk pos"
  shows "\<exists>k w'. do_read lib a len off w = (Ok (take k (drop (unat off) (disk w))), w') \<and>
      k \<le> unat len \<and> disk w' = disk w"
    and "unat off + length xs \<le> length (disk w) \<Longrightarrow>
      \<exists>w'. do_write lib a xs off w = (Ok (of_nat (length xs)), w') \<and> disk w' = splice (disk w) (unat off) xs"
    and "\<exists>w'. do_flush lib a w = (Ok (), w') \<and> disk w' = disk w"
proof -
  from assms obtain w1 where w1: "rl_io_seek lib a off w = (Ok (), w1)" "disk w1 = disk w" "pos w1 = unat off"
    unfolding flash_laws_def by blast
  moreover from assms obtain k w2 where "rl_io_read lib a (unat len) w1 =
      (Ok (take k (drop (pos w1) (disk w1))), w2)" "k \<le> unat len" "disk w2 = disk w1"
    unfolding flash_laws_def by blast
  ultimately show "\<exists>k w'. do_read lib a len off w = (Ok (take k (drop (unat off) (disk w))), w') \<and>
      k \<le> unat len \<and> disk w' = disk w"
    by (auto simp: do_read_def try_then_def intro!: exI [of _ k])
  show "\<exists>w'. do_write lib a xs off w = (Ok (of_nat (length xs)), w') \<and> disk w' = splice (disk w) (unat off) xs"
    if range: "unat off + length xs \<le> length (disk w)"
  proof -
    have "pos w1 + length xs \<le> length (disk w1)" using range w1 by simp
    with assms obtain w3 where "rl_io_write_all lib a xs w1 = (Ok (), w3)"
      "disk w3 = splice (disk w1) (pos w1) xs"
      unfolding flash_laws_def by blast
    with w1 show ?thesis by (simp add: do_write_def try_then_def)
  qed
  from assms obtain w4 where "rl_io_flush lib a w = (Ok (), w4)" "disk w4 = disk w"
    unfolding flash_laws_def by blast
  then show "\<exists>w'. do_flush lib a w = (Ok (), w') \<and> disk w' = disk w" by (simp add: do_flush_def)
qed

lemma loader_loop:
  "volume_io_loop (loader_target lib a) (Ok (Some (ReqRead len off)) # ms) w =
     (case do_read lib a len off w of (r, w1) \<Rightarrow>
      case volume_io_loop (loader_target lib a) ms w1 of (cs, w2) \<Rightarrow> (QRead (Some r) # cs, w2))"
  "volume_io_loop (loader_target lib a) (Ok (Some (ReqWrite xs off)) # ms) w =
     (case do_write lib a xs off w of (r1, w1) \<Rightarrow>
      case volume_io_loop (loader_target lib a) ms w1 of (cs, w2) \<Rightarrow> (QWrite (Some r1) # cs, w2))"
  "volume_io_loop (loader_target lib a) (Ok (Some ReqFlush) # ms) w =
     (case do_flush lib a w of (r2, w1) \<Rightarrow>
      case volume_io_loop (loader_target lib a) ms w1 of (cs, w2) \<Rightarrow> (QFlush (Some r2) # cs, w2))"
  "volume_io_loop (loader_target lib a) (Ok (Some ReqShutdown) # ms) w =
     (case do_flush lib a w of (r2, w1) \<Rightarrow>
      case volume_io_loop (loader_target lib a) ms w1 of (cs, w2) \<Rightarrow> (QShutdown (Some r2) # cs, w2))"
  by (simp_all add: loader_target_def default_shutdown_def loader_flush_def completed_def split_beta)

lemma loader_session:
  assumes "flash_laws lib a disk pos" and "list_all (within (length (disk w))) qs"
    and "volume_io_loop (loader_target lib a) (requests qs) w = (cs, w')"
  shows "array_session (disk w) qs cs (disk w')"
  using assms(2,3)
proof (induction qs arbitrary: w cs)
  case Nil
  then show ?case by (auto intro: array_session.ends)
next
  case (Cons q qs)
  note ops = flash_ops [OF assms(1)]
  show ?case
  proof (cases q)
    case (ReqTarget n t l)
    with Cons.prems show ?thesis by simp
  next
    case (ReqRead len off)
    from ops(1) [of len off w] obtain k w1 where w1:
      "do_read lib a len off w = (Ok (take k (drop (unat off) (disk w))), w1)" "k \<le> unat len" "disk w1 = disk w"
      by blast
    with Cons.IH [of w1] Cons.prems ReqRead show ?thesis
      by (auto simp: loader_loop simp del: volume_io_loop.simps intro: array_session.reads split: prod.splits)
  next
    case (ReqWrite xs off)
    with Cons.prems(1) have range: "unat off + length xs \<le> length (disk w)" by simp
    from ops(2) [OF this] obtain w1 where w1:
      "do_write lib a xs off w = (Ok (of_nat (length xs)), w1)" "disk w1 = splice (disk w) (unat off) xs" by blast
    with Cons.IH [of w1] Cons.prems range ReqWrite show ?thesis
      by (auto simp: loader_loop simp del: volume_io_loop.simps intro: array_session.writes split: prod.splits)
  next
    case ReqFlush
    from ops(3) [of w] obtain w1 where "do_flush lib a w = (Ok (), w1)" "disk w1 = disk w" by blast
    with Cons.IH [of w1] Cons.prems ReqFlush show ?thesis
      by (auto simp: loader_loop simp del: volume_io_loop.simps intro: array_session.flushes split: prod.splits)
  next
    case ReqShutdown
    from ops(3) [of w] obtain w1 where "do_flush lib a w = (Ok (), w1)" "disk w1 = disk w" by blast
    with Cons.IH [of w1] Cons.prems ReqShutdown show ?thesis
      by (auto simp: loader_loop simp del: volume_io_loop.simps intro: array_session.shuts split: prod.splits)
  qed
qed

text \<open>
  C25. The loader target refines an array of bytes: on a library that reads and writes the
  flash, every session of reads, writes within the flash, flushes and a shutdown has the replies
  and the effect on the flash of the same session on an array.
\<close>

theorem rockusb_loader_refines_array:
  assumes "flash_laws lib a disk pos" and "list_all (within (length (disk w))) qs"
    and "volume_io_loop (loader_target lib a) (requests qs) w = (cs, w')"
  shows "array_session (disk w) qs cs (disk w')"
  using assms by (rule loader_session)

lemma rockusb_loader_refines_array_witness:
  "\<exists>cs w'. volume_io_loop (loader_target loader_lib (1, 7)) (requests [ReqWrite [9, 8] 1, ReqRead 3 0, ReqShutdown])
      ([0, 0, 0, 0], 0) = (cs, w') \<and>
    array_session [0, 0, 0, 0] [ReqWrite [9, 8] 1, ReqRead 3 0, ReqShutdown] cs [0, 9, 8, 0]"
proof -
  let ?qs = "[ReqWrite [9, 8] 1, ReqRead 3 0, ReqShutdown]"
  have laws: "flash_laws loader_lib (1, 7) fst snd"
    by (auto simp: flash_laws_def loader_lib_def splice_def)
  have run: "volume_io_loop (loader_target loader_lib (1, 7)) (requests ?qs) ([0, 0, 0, 0], 0) =
      ([QWrite (Some (Ok 2)), QRead (Some (Ok [0, 9, 8])), QShutdown (Some (Ok ()))], [0, 9, 8, 0], 3)"
    by (simp add: loader_target_def default_shutdown_def loader_flush_def completed_def do_read_def
        do_write_def do_flush_def try_then_def loader_lib_def)
  with rockusb_loader_refines_array [OF laws _ run] show ?thesis by auto
qed

end
