(* ===== verification/Rockusb_Task.thy ===== *)
theory Rockusb_Task
  imports Rockusb
begin

section \<open>The task of a Rockchip device (boardswarm/src/rockusb.rs)\<close>

text \<open>
  One task owns a Rockchip device. It takes commands from a queue, one after another; an \<^verbatim>\<open>Open\<close>
  hands the client a channel for operations, and the task serves that channel until the
  client drops its end before it takes the next command. Here clients and the task are
  interleaved: a schedule is a list of steps, and a step that is not possible changes nothing.
  The lemmas: the device sees the commands and sessions one after another in the order they
  were asked for, and while a client keeps a target open nobody else is served.
\<close>

subsection \<open>Commands and operations\<close>

datatype RockUsbCommand = CmdMode | CmdWriteMaskromArea u16 bytes | CmdOpen
datatype RockUsbIO = IoWrite bytes u64 | IoRead u64 u64 | IoFlush

datatype ('u, 'e, 'i) rock_reply =
    ModeReply "(('u, 'e) RockUsbError, RockUsbMode) result"
  | AreaReply "(('u, 'e) RockUsbError, unit) result"
  | OpenReply "(('u, 'e) RockUsbError, unit) result"
  | DoneReply "('i, unit) result"
  | DataReply "('i, bytes) result"

definition rock_command ::
  "('u, 'e, 'i, 'w) rockusb_lib \<Rightarrow> usb_address \<Rightarrow> RockUsbCommand \<Rightarrow> 'w \<Rightarrow> ('u, 'e, 'i) rock_reply \<times> 'w" where
  "rock_command lib a c w =
     (case c of
        CmdMode \<Rightarrow> (case determine_mode lib a w of (r, w1) \<Rightarrow> (ModeReply r, w1))
      | CmdWriteMaskromArea area data \<Rightarrow>
          (case write_maskrom_area lib a area data w of (r, w1) \<Rightarrow> (AreaReply r, w1))
      | CmdOpen \<Rightarrow> (case open_io lib a w of (r, w1) \<Rightarrow> (OpenReply r, w1)))"

text \<open>The loop of \<^verbatim>\<open>handle_io\<close>, for one operation.\<close>

definition rock_io ::
  "('u, 'e, 'i, 'w) rockusb_lib \<Rightarrow> usb_address \<Rightarrow> RockUsbIO \<Rightarrow> 'w \<Rightarrow> ('u, 'e, 'i) rock_reply \<times> 'w" where
  "rock_io lib a op w =
     (case op of
        IoWrite data offset \<Rightarrow>
          (case try_then (rl_io_seek lib a offset) (rl_io_write_all lib a data) w of
             (r, w1) \<Rightarrow> (DoneReply r, w1))
      | IoRead len offset \<Rightarrow>
          (case try_then (rl_io_seek lib a offset) (rl_io_read lib a (unat len)) w of
             (r, w1) \<Rightarrow> (DataReply r, w1))
      | IoFlush \<Rightarrow> (case rl_io_flush lib a w of (r, w1) \<Rightarrow> (DoneReply r, w1)))"

datatype rock_call = CallCommand RockUsbCommand | CallIO RockUsbIO

fun rock_call_run ::
  "('u, 'e, 'i, 'w) rockusb_lib \<Rightarrow> usb_address \<Rightarrow> rock_call \<Rightarrow> 'w \<Rightarrow> ('u, 'e, 'i) rock_reply \<times> 'w" where
  "rock_call_run lib a (CallCommand c) w = rock_command lib a c w"
| "rock_call_run lib a (CallIO op) w = rock_io lib a op w"

subsection \<open>Clients and the task\<close>

text \<open>
  Every command has a number, in the order of the queue, and an opened target that of its
  command. \<open>rk_held\<close> are the targets clients hold, \<open>rk_serving\<close> the one whose operations the
  task serves, \<open>rk_cancelled\<close> the commands whose client has gone, and \<open>rk_log\<close> what the task
  has done and answered.
\<close>

record ('u, 'e, 'i, 'w) rock_task =
  rk_running :: bool
  rk_next :: nat
  rk_commands :: "(nat \<times> RockUsbCommand) list"
  rk_cancelled :: "nat list"
  rk_serving :: "nat option"
  rk_held :: "nat list"
  rk_ops :: "(nat \<times> RockUsbIO) list"
  rk_log :: "(nat \<times> rock_call \<times> ('u, 'e, 'i) rock_reply) list"
  rk_world :: 'w

definition rock_task_new ::
  "('u, 'e, 'i, 'w) rockusb_lib \<Rightarrow> usb_address \<Rightarrow> 'w \<Rightarrow> ('u, 'e, 'i, 'w) rock_task" where
  "rock_task_new lib a w =
     (case rl_find lib a w of (found, w1) \<Rightarrow>
        \<lparr>rk_running = found, rk_next = 0, rk_commands = [], rk_cancelled = [], rk_serving = None,
         rk_held = [], rk_ops = [], rk_log = [], rk_world = w1\<rparr>)"

datatype rock_step =
    SendCommand RockUsbCommand | CancelCommand nat | SendIO nat RockUsbIO | DropTarget nat | TaskTurn

definition task_command ::
  "('u, 'e, 'i, 'w) rockusb_lib \<Rightarrow> usb_address \<Rightarrow> nat \<Rightarrow> RockUsbCommand \<Rightarrow>
   ('u, 'e, 'i, 'w) rock_task \<Rightarrow> ('u, 'e, 'i, 'w) rock_task" where
  "task_command lib a n c s =
     (case rock_command lib a c (rk_world s) of
        (r, w) \<Rightarrow>
          (let s1 = s\<lparr>rk_log := rk_log s @ [(n, CallCommand c, r)], rk_world := w\<rparr> in
           if r = OpenReply (Ok ())
           then s1\<lparr>rk_serving := Some n, rk_held := (if n \<in> set (rk_cancelled s) then [] else [n])\<rparr>
           else s1))"

definition task_turn ::
  "('u, 'e, 'i, 'w) rockusb_lib \<Rightarrow> usb_address \<Rightarrow>
   ('u, 'e, 'i, 'w) rock_task \<Rightarrow> ('u, 'e, 'i, 'w) rock_task" where
  "task_turn lib a s =
     (if \<not> rk_running s then s
      else
        (case rk_serving s of
           None \<Rightarrow>
             (case rk_commands s of
                [] \<Rightarrow> s
              | (n, c) # rest \<Rightarrow> task_command lib a n c (s\<lparr>rk_commands := rest\<rparr>))
         | Some h \<Rightarrow>
             (case rk_ops s of
                [] \<Rightarrow> if h \<in> set (rk_held s) then s else s\<lparr>rk_serving := None\<rparr>
              | (k, op) # rest \<Rightarrow>
                  (case rock_io lib a op (rk_world s) of
                     (r, w) \<Rightarrow>
                       s\<lparr>rk_ops := rest, rk_log := rk_log s @ [(k, CallIO op, r)], rk_world := w\<rparr>))))"

fun rock_step_run ::
  "('u, 'e, 'i, 'w) rockusb_lib \<Rightarrow> usb_address \<Rightarrow> rock_step \<Rightarrow>
   ('u, 'e, 'i, 'w) rock_task \<Rightarrow> ('u, 'e, 'i, 'w) rock_task" where
  "rock_step_run lib a (SendCommand c) s =
     (if rk_running s
      then s\<lparr>rk_commands := rk_commands s @ [(rk_next s, c)], rk_next := Suc (rk_next s)\<rparr> else s)"
| "rock_step_run lib a (CancelCommand n) s = s\<lparr>rk_cancelled := n # rk_cancelled s\<rparr>"
| "rock_step_run lib a (SendIO h op) s =
     (if h \<in> set (rk_held s) then s\<lparr>rk_ops := rk_ops s @ [(h, op)]\<rparr> else s)"
| "rock_step_run lib a (DropTarget h) s = s\<lparr>rk_held := removeAll h (rk_held s)\<rparr>"
| "rock_step_run lib a TaskTurn s = task_turn lib a s"

definition rock_task_run where
  "rock_task_run lib a steps s = fold (rock_step_run lib a) steps s"

subsection \<open>One after another\<close>

text \<open>
  A log in turn: commands have growing numbers, and an operation belongs to the target opened
  by the command last answered.
\<close>

fun in_turn :: "nat \<Rightarrow> nat option \<Rightarrow> (nat \<times> rock_call \<times> ('u, 'e, 'i) rock_reply) list \<Rightarrow> bool" where
  "in_turn lo cur [] \<longleftrightarrow> True"
| "in_turn lo cur ((n, CallCommand c, r) # l) \<longleftrightarrow>
     lo \<le> n \<and> in_turn (Suc n) (if r = OpenReply (Ok ()) then Some n else None) l"
| "in_turn lo cur ((n, CallIO op, r) # l) \<longleftrightarrow> cur = Some n \<and> in_turn lo cur l"

text \<open>The calls of a log, made one after another by one client.\<close>

fun serial ::
  "('u, 'e, 'i, 'w) rockusb_lib \<Rightarrow> usb_address \<Rightarrow> rock_call list \<Rightarrow> 'w \<Rightarrow>
   ('u, 'e, 'i) rock_reply list \<times> 'w" where
  "serial lib a [] w = ([], w)"
| "serial lib a (c # cs) w =
     (case rock_call_run lib a c w of (r, w1) \<Rightarrow>
      case serial lib a cs w1 of (rs, w2) \<Rightarrow> (r # rs, w2))"

lemma serial_snoc:
  "serial lib a (cs @ [c]) w =
     (case serial lib a cs w of (rs, w1) \<Rightarrow>
      case rock_call_run lib a c w1 of (r, w2) \<Rightarrow> (rs @ [r], w2))"
  by (induction cs arbitrary: w) (auto split: prod.splits)

text \<open>The numbers a log leaves for the next command, and the target opened last.\<close>

fun turn_after :: "nat \<times> nat option \<Rightarrow> (nat \<times> rock_call \<times> ('u, 'e, 'i) rock_reply) list \<Rightarrow> nat \<times> nat option" where
  "turn_after t [] = t"
| "turn_after t ((n, CallCommand c, r) # l) =
     turn_after (Suc n, if r = OpenReply (Ok ()) then Some n else None) l"
| "turn_after t ((n, CallIO op, r) # l) = turn_after t l"

lemma in_turn_append:
  "in_turn lo cur (l @ l') \<longleftrightarrow>
     in_turn lo cur l \<and> in_turn (fst (turn_after (lo, cur) l)) (snd (turn_after (lo, cur) l)) l'"
  by (induction lo cur l rule: in_turn.induct) auto

lemma turn_after_append: "turn_after t (l @ l') = turn_after (turn_after t l) l'"
  by (induction t l rule: turn_after.induct) auto

definition task_inv ::
  "('u, 'e, 'i, 'w) rockusb_lib \<Rightarrow> usb_address \<Rightarrow> 'w \<Rightarrow> ('u, 'e, 'i, 'w) rock_task \<Rightarrow> bool" where
  "task_inv lib a w0 s \<longleftrightarrow>
     in_turn 0 None (rk_log s) \<and>
     serial lib a (map (fst \<circ> snd) (rk_log s)) w0 = (map (snd \<circ> snd) (rk_log s), rk_world s) \<and>
     sorted_wrt (<) (map fst (rk_commands s)) \<and>
     list_all (\<lambda>n. fst (turn_after (0, None) (rk_log s)) \<le> n \<and> n < rk_next s) (map fst (rk_commands s)) \<and>
     fst (turn_after (0, None) (rk_log s)) \<le> rk_next s \<and>
     (case rk_serving s of
        None \<Rightarrow> rk_held s = [] \<and> rk_ops s = []
      | Some h \<Rightarrow> snd (turn_after (0, None) (rk_log s)) = Some h \<and> set (rk_held s) \<subseteq> {h} \<and>
          list_all (\<lambda>(k, op). k = h) (rk_ops s))"

lemma task_inv_new: "task_inv lib a (snd (rl_find lib a w)) (rock_task_new lib a w)"
  by (simp add: task_inv_def rock_task_new_def split_beta)

lemma task_inv_command:
  assumes "task_inv lib a w0 s" "rk_serving s = None" "rk_commands s = (n, c) # rest"
  shows "task_inv lib a w0 (task_command lib a n c (s\<lparr>rk_commands := rest\<rparr>))"
proof (cases "rock_command lib a c (rk_world s)")
  case (Pair r w)
  have later: "list_all (\<lambda>m. Suc n \<le> m \<and> m < rk_next s) (map fst rest)"
    using assms(1,3) by (auto simp: task_inv_def list_all_iff)
  with assms Pair show ?thesis
    by (auto simp: task_inv_def task_command_def Let_def in_turn_append turn_after_append serial_snoc)
qed

lemma task_inv_io:
  assumes "task_inv lib a w0 s" "rk_serving s = Some h" "rk_ops s = (k, op) # rest"
    "rock_io lib a op (rk_world s) = (r, w)"
  shows "task_inv lib a w0
    (s\<lparr>rk_ops := rest, rk_log := rk_log s @ [(k, CallIO op, r)], rk_world := w\<rparr>)"
  using assms by (auto simp: task_inv_def in_turn_append turn_after_append serial_snoc)

lemma task_inv_turn: "task_inv lib a w0 s \<Longrightarrow> task_inv lib a w0 (task_turn lib a s)"
proof -
  assume inv: "task_inv lib a w0 s"
  show ?thesis
  proof (cases "rk_serving s")
    case None
    then show ?thesis
      using inv task_inv_command [OF inv None] by (auto simp: task_turn_def split: list.splits)
  next
    case (Some h)
    show ?thesis
    proof (cases "rk_ops s")
      case Nil
      with Some inv show ?thesis by (cases "rk_held s") (auto simp: task_turn_def task_inv_def)
    next
      case (Cons x rest)
      then show ?thesis
        using inv Some task_inv_io [OF inv Some]
        by (cases x) (auto simp: task_turn_def split: prod.splits)
    qed
  qed
qed

lemma task_inv_step: "task_inv lib a w0 s \<Longrightarrow> task_inv lib a w0 (rock_step_run lib a x s)"
proof (cases x)
  case (SendCommand c)
  moreover assume "task_inv lib a w0 s"
  ultimately show ?thesis
    by (cases "rk_serving s") (auto simp: task_inv_def sorted_wrt_append list_all_iff)
next
  case (SendIO h op)
  moreover assume "task_inv lib a w0 s"
  ultimately show ?thesis by (auto simp: task_inv_def split: option.splits)
next
  case (DropTarget h)
  moreover assume "task_inv lib a w0 s"
  ultimately show ?thesis by (auto simp: task_inv_def split: option.splits)
next
  case (CancelCommand n)
  moreover assume "task_inv lib a w0 s"
  ultimately show ?thesis by (cases "rk_serving s") (simp_all add: task_inv_def)
next
  case TaskTurn
  moreover assume "task_inv lib a w0 s"
  ultimately show ?thesis by (simp add: task_inv_turn)
qed

lemma task_inv_run: "task_inv lib a w0 s \<Longrightarrow> task_inv lib a w0 (rock_task_run lib a steps s)"
  unfolding rock_task_run_def by (induction steps arbitrary: s) (simp_all add: task_inv_step)

text \<open>
  C38. However clients and the task of a Rockchip device interleave, the device is used as by
  one client at a time: the commands and the operations on opened targets are carried out one
  command or session after another, in the order of the commands, no operation of one session
  falls into another, and the answers and the effect on the device are those of the same calls
  made in that order.
\<close>

theorem rock_task_serializes:
  "let s = rock_task_run lib a steps (rock_task_new lib a w) in
     in_turn 0 None (rk_log s) \<and>
     serial lib a (map (fst \<circ> snd) (rk_log s)) (snd (rl_find lib a w)) =
       (map (snd \<circ> snd) (rk_log s), rk_world s)"
  using task_inv_run [OF task_inv_new, of lib a w steps] by (simp add: Let_def task_inv_def)

text \<open>While a client keeps a target open, only its own operations are carried out.\<close>

lemma open_target_blocks:
  assumes "task_inv lib a w0 s" "rk_serving s = Some h" "h \<in> set (rk_held s)" "DropTarget h \<notin> set steps"
  shows "\<exists>l. rk_log (rock_task_run lib a steps s) = rk_log s @ l \<and>
    list_all (\<lambda>(k, c, r). k = h \<and> (\<exists>op. c = CallIO op)) l"
  using assms
proof (induction steps arbitrary: s)
  case Nil
  then show ?case by (simp add: rock_task_run_def)
next
  case (Cons x steps)
  let ?s = "rock_step_run lib a x s"
  have keep: "rk_serving ?s = Some h" "h \<in> set (rk_held ?s)"
    and log: "\<exists>l. rk_log ?s = rk_log s @ l \<and> list_all (\<lambda>(k, c, r). k = h \<and> (\<exists>op. c = CallIO op)) l"
    using Cons.prems
    by (cases x; auto simp: task_turn_def task_inv_def split: list.splits prod.splits)+
  from Cons.IH [OF task_inv_step [OF Cons.prems(1)] keep] Cons.prems(4) obtain l' where
    "rk_log (rock_task_run lib a steps ?s) = rk_log ?s @ l'"
    "list_all (\<lambda>(k, c, r). k = h \<and> (\<exists>op. c = CallIO op)) l'" by auto
  with log show ?case by (auto simp: rock_task_run_def)
qed

end
