(* ===== verification/Serial.thy ===== *)
theory Serial
  imports Provider_Common
begin

section \<open>The serial provider (boardswarm/src/serial/mod.rs)\<close>

text \<open>
  Every tty with a parent becomes a console unless one of the providers that were added wants
  it (the Mediatek and Hifive providers). A console opens its port at first use and shares one
  connection: a task reads it and broadcasts what it read to the clients. The tty itself is the
  record \<open>serial_lib\<close>. The lemmas: the loop neither leaks nor loses consoles, one connection is
  opened and shared when uses follow each other (and not when two of them race), and a client
  sees the bytes of the port in order until it lags behind, which ends its stream.
\<close>

subsection \<open>Providers and the event loop\<close>

record 's SerialProvider =
  sp_handle :: "udev_device \<Rightarrow> u64 \<Rightarrow> 's \<Rightarrow> bool \<times> 's"
  sp_remove :: "udev_device \<Rightarrow> 's \<Rightarrow> 's"

text \<open>\<^verbatim>\<open>iter_mut().any(..)\<close> stops at the first provider that handles the device.\<close>

fun any_handles :: "'s SerialProvider list \<Rightarrow> udev_device \<Rightarrow> u64 \<Rightarrow> 's \<Rightarrow> bool \<times> 's" where
  "any_handles [] device seqnum st = (False, st)"
| "any_handles (p # ps) device seqnum st =
     (case sp_handle p device seqnum st of
        (True, st1) \<Rightarrow> (True, st1)
      | (False, st1) \<Rightarrow> any_handles ps device seqnum st1)"

definition all_remove :: "'s SerialProvider list \<Rightarrow> udev_device \<Rightarrow> 's \<Rightarrow> 's" where
  "all_remove ps device st = fold (\<lambda>p. sp_remove p device) ps st"

text \<open>
  The state of the loop is its map and the state of the providers, which includes the server.
  \<open>new_console\<close> is \<^verbatim>\<open>SerialPort::new\<close>, given below.
\<close>

type_synonym ('x, 'p, 'w) serial_state = "(string \<times> ConsoleId) list \<times> 'x \<times> ('p, 'w) Server"

fun serial_event ::
  "(udev_device \<Rightarrow> string option) \<Rightarrow> ('x \<times> ('p, 'w) Server) SerialProvider list \<Rightarrow>
   (string \<Rightarrow> ('p, 'w) Console) \<Rightarrow> string \<Rightarrow> DeviceEvent \<Rightarrow>
   ('x, 'p, 'w) serial_state \<Rightarrow> ('x, 'p, 'w) serial_state" where
  "serial_event devnode providers new_console provider_name (EventAdded device seqnum) (m, st) =
     (if ud_parent device = None then (m, st)
      else case any_handles providers device seqnum st of
             (True, st1) \<Rightarrow> (m, st1)
           | (False, x1, s1) \<Rightarrow>
               (case devnode device of
                  None \<Rightarrow> (m, x1, s1)
                | Some node \<Rightarrow>
                    (case file_name node of
                       None \<Rightarrow> (m, x1, s1)
                     | Some name \<Rightarrow>
                         (let props = properties_extend (udev_properties device name)
                                [(PROVIDER_NAME, provider_name), (PROVIDER, ''serial'')];
                              (i, s2) = register_console props (new_console node) s1
                          in (AList.update (ud_syspath device) i m, x1, s2)))))"
| "serial_event devnode providers new_console provider_name (EventRemoved device) (m, st) =
     (case all_remove providers device st of
        (x1, s1) \<Rightarrow>
          (case map_of m (ud_syspath device) of
             Some i \<Rightarrow> (AList.delete (ud_syspath device) m, x1, unregister_console i s1)
           | None \<Rightarrow> (m, x1, s1)))"

definition serial_run where
  "serial_run devnode providers new_console provider_name =
     run_steps (\<lambda>ev st. Done (serial_event devnode providers new_console provider_name ev st))"

subsection \<open>The port\<close>

record ('p, 'e, 'w) serial_lib =
  sl_open :: "string \<Rightarrow> u32 \<Rightarrow> 'w \<Rightarrow> ('e, unit) result \<times> 'w"
  sl_write_all :: "string \<Rightarrow> nat \<Rightarrow> bytes \<Rightarrow> 'w \<Rightarrow> ('e, unit) result \<times> 'w"
  sl_receives :: "string \<Rightarrow> nat \<Rightarrow> 'w \<Rightarrow> (RecvError, bytes) result list"
  sl_show_error :: "'e \<Rightarrow> string"
  sl_rate :: "'p \<Rightarrow> u32 option"

text \<open>
  A connection is named by its number: \<open>ser_opened\<close> counts how often the tty was opened, and
  \<open>ser_open\<close> is the one in use.
\<close>

record SerialPort =
  ser_path :: string
  ser_rate :: u32
  ser_open :: "nat option"
  ser_opened :: nat

definition serial_port_new :: "string \<Rightarrow> SerialPort" where
  "serial_port_new path = \<lparr>ser_path = path, ser_rate = 115200, ser_open = None, ser_opened = 0\<rparr>"

definition serial_open ::
  "('p, 'e, 'w) serial_lib \<Rightarrow> SerialPort \<times> 'w \<Rightarrow> ('e, unit) result \<times> SerialPort \<times> 'w" where
  "serial_open lib pw =
     (case pw of (p, w) \<Rightarrow>
        (case sl_open lib (ser_path p) (ser_rate p) w of
           (Err e, w1) \<Rightarrow> (Err e, p, w1)
         | (Ok _, w1) \<Rightarrow>
             (Ok (), p\<lparr>ser_open := Some (ser_opened p), ser_opened := ser_opened p + 1\<rparr>, w1)))"

text \<open>
  \<^verbatim>\<open>get_writer\<close> and \<^verbatim>\<open>get_reader\<close> take the lock three times; the sections are the steps of
  \<open>get_step\<close>, and the call is their sequence. The last one finds the port open.
\<close>

datatype get_phase = GetFresh | GetClosed | GetOpened | GetDone "(ConsoleError, nat) result" | GetPanicked

definition serial_unavailable :: "('p, 'e, 'w) serial_lib \<Rightarrow> string \<Rightarrow> 'e \<Rightarrow> ConsoleError" where
  "serial_unavailable lib path e =
     ConsoleUnavailable (''Failed to open '' @ [CHR 0x27] @ path @ [CHR 0x27] @ '' serial: '' @ sl_show_error lib e)"

fun get_step ::
  "('p, 'e, 'w) serial_lib \<Rightarrow> get_phase \<Rightarrow> SerialPort \<times> 'w \<Rightarrow> get_phase \<times> SerialPort \<times> 'w" where
  "get_step lib GetFresh (p, w) =
     (case ser_open p of Some k \<Rightarrow> (GetDone (Ok k), p, w) | None \<Rightarrow> (GetClosed, p, w))"
| "get_step lib GetClosed (p, w) =
     (case serial_open lib (p, w) of
        (Err e, p1, w1) \<Rightarrow> (GetDone (Err (serial_unavailable lib (ser_path p) e)), p1, w1)
      | (Ok _, p1, w1) \<Rightarrow> (GetOpened, p1, w1))"
| "get_step lib GetOpened (p, w) =
     (case ser_open p of Some k \<Rightarrow> (GetDone (Ok k), p, w) | None \<Rightarrow> (GetPanicked, p, w))"
| "get_step lib ph pw = (ph, pw)"

definition serial_get ::
  "('p, 'e, 'w) serial_lib \<Rightarrow> SerialPort \<times> 'w \<Rightarrow> (ConsoleError, nat) result outcome \<times> SerialPort \<times> 'w" where
  "serial_get lib pw =
     (case get_step lib GetFresh pw of (ph1, pw1) \<Rightarrow>
      case get_step lib ph1 pw1 of (ph2, pw2) \<Rightarrow>
      case get_step lib ph2 pw2 of (ph3, pw3) \<Rightarrow>
        ((case ph3 of GetDone r \<Rightarrow> Done r | _ \<Rightarrow> Panicked), pw3))"

definition serial_configure ::
  "('p, 'e, 'w) serial_lib \<Rightarrow> 'p \<Rightarrow> SerialPort \<times> 'w \<Rightarrow> (ConsoleError, unit) result outcome \<times> SerialPort \<times> 'w" where
  "serial_configure lib params pw =
     (case pw of (p, w) \<Rightarrow>
        (case sl_rate lib params of
           None \<Rightarrow> (Panicked, p, w)
         | Some rate \<Rightarrow> (Done (Ok ()), p\<lparr>ser_rate := rate\<rparr>, w)))"

definition serial_sink ::
  "('p, 'e, 'w) serial_lib \<Rightarrow> nat \<Rightarrow> bytes \<Rightarrow> SerialPort \<times> 'w \<Rightarrow>
   (ConsoleError, unit) result outcome \<times> SerialPort \<times> 'w" where
  "serial_sink lib k data pw =
     (case pw of (p, w) \<Rightarrow>
        (case sl_write_all lib (ser_path p) k data w of
           (Err e, w1) \<Rightarrow> (Panicked, p, w1) | (Ok _, w1) \<Rightarrow> (Done (Ok ()), p, w1)))"

definition recv_data :: "(RecvError, bytes) result \<Rightarrow> (ConsoleError, bytes) result" where
  "recv_data r = (case r of Ok data \<Rightarrow> Ok data | Err e \<Rightarrow> Err ConsoleClosed)"

text \<open>
  The console. Its callers unwrap the results of \<^verbatim>\<open>configure\<close> and of the sink, so a panic
  there is an error here: both panic the caller. \<open>get_writer\<close> and \<open>get_reader\<close> do not panic
  (lemma \<open>serial_get_returns\<close>).
\<close>

definition or_closed :: "(ConsoleError, 'a) result outcome \<times> 'b \<Rightarrow> (ConsoleError, 'a) result \<times> 'b" where
  "or_closed r = ((case fst r of Done x \<Rightarrow> x | Panicked \<Rightarrow> Err ConsoleClosed), snd r)"

definition serial_console ::
  "('p, 'e, 'w) serial_lib \<Rightarrow> nat \<Rightarrow> ('p, (SerialPort, 'w) boxed) Console" where
  "serial_console lib n =
     \<lparr>con_configure = (\<lambda>params b. or_closed (on_cell n (serial_configure lib params) b)),
      con_input = (\<lambda>b. case or_closed (on_cell n (serial_get lib) b) of
         (Err e, b1) \<Rightarrow> (Err e, b1)
       | (Ok k, b1) \<Rightarrow> (Ok (\<lambda>data b. or_closed (on_cell n (serial_sink lib k data) b)), b1)),
      con_output = (\<lambda>b. case or_closed (on_cell n (serial_get lib) b) of
         (Err e, b1) \<Rightarrow> (Err e, b1)
       | (Ok k, b1) \<Rightarrow>
           (Ok (map recv_data (sl_receives lib (ser_path (bx_cells b1 ! n)) k (bx_world b1))), b1))\<rparr>"

subsection \<open>Reading and broadcasting\<close>

text \<open>The task of a connection, over what its reads return: what it sends, and how it ended.\<close>

datatype read_end = StillReading | AtEof | ReadPanicked

fun read_task :: "('e, bytes) result list \<Rightarrow> bytes list \<times> read_end" where
  "read_task [] = ([], StillReading)"
| "read_task (Ok data # rs) =
     (if data = [] then ([], AtEof)
      else case read_task rs of (ms, e) \<Rightarrow> (data # ms, e))"
| "read_task (Err e # rs) = ([], ReadPanicked)"

text \<open>
  A receiver of \<^verbatim>\<open>broadcast::channel(64)\<close> from its subscription on, over the sends of the task
  and its own receives: the channel keeps 64 messages, and a receiver that is further behind is
  told how many it missed and goes on with the oldest. A receive with nothing to take waits.
\<close>

datatype chan_op = SendOp bytes | RecvOp

definition BROADCAST :: nat where
  "BROADCAST = 64"

fun subscriber :: "bytes list \<Rightarrow> chan_op list \<Rightarrow> (RecvError, bytes) result list" where
  "subscriber pend [] = []"
| "subscriber pend (SendOp m # ops) = subscriber (pend @ [m]) ops"
| "subscriber pend (RecvOp # ops) =
     (if length pend > BROADCAST
      then Err (Lagged (of_nat (length pend - BROADCAST))) #
             subscriber (drop (length pend - BROADCAST) pend) ops
      else case pend of [] \<Rightarrow> subscriber [] ops | m # ms \<Rightarrow> Ok m # subscriber ms ops)"

subsection \<open>Consoles of the event loop\<close>

text \<open>The contract of the loop: the providers leave the consoles of the server alone.\<close>

locale serial_consoles =
  fixes providers :: "('x \<times> ('p, 'w) Server) SerialProvider list"
  assumes handle_frame: "p \<in> set providers \<Longrightarrow>
      consoles (snd (snd (sp_handle p device seqnum st))) = consoles (snd st)"
    and remove_frame: "p \<in> set providers \<Longrightarrow> consoles (snd (sp_remove p device st)) = consoles (snd st)"
begin

lemma any_handles_frame:
  "set ps \<subseteq> set providers \<Longrightarrow>
   consoles (snd (snd (any_handles ps device seqnum st))) = consoles (snd st)"
proof (induction ps arbitrary: st)
  case (Cons p ps)
  obtain b st1 where h: "sp_handle p device seqnum st = (b, st1)" by (meson prod.exhaust_sel)
  with handle_frame [of p device seqnum st] Cons.prems have "consoles (snd st1) = consoles (snd st)" by simp
  with Cons h show ?case by (cases b) simp_all
qed simp

lemma all_remove_frame: "consoles (snd (all_remove providers device st)) = consoles (snd st)"
proof -
  have "set ps \<subseteq> set providers \<Longrightarrow>
      consoles (snd (fold (\<lambda>p. sp_remove p device) ps st)) = consoles (snd st)" for ps
    by (induction ps arbitrary: st) (simp_all add: remove_frame)
  then show ?thesis by (simp add: all_remove_def)
qed

end

sublocale serial_consoles \<subseteq> tty: hotplug "serial_event devnode providers new_console nm"
    "\<lambda>st. consoles (snd (snd st))" fst
  for devnode new_console nm
proof unfold_locales
  fix d n and st :: "('x, 'p, 'w) serial_state"
  obtain m st0 where st: "st = (m, st0)" by (cases st)
  obtain b x1 s1 where h: "any_handles providers d n st0 = (b, x1, s1)" by (cases "any_handles providers d n st0")
  with any_handles_frame [of providers d n st0] have frame: "consoles s1 = consoles (snd st0)" by simp
  let ?st = "serial_event devnode providers new_console nm (EventAdded d n) st"
  show "consoles (snd (snd ?st)) = consoles (snd (snd st)) \<and> fst ?st = fst st \<or>
      (\<exists>p i. consoles (snd (snd ?st)) = snd (registry_add p i (consoles (snd (snd st)))) \<and>
         fst ?st = AList.update (ud_syspath d) (next_id (consoles (snd (snd st)))) (fst st))"
    using h frame by (auto simp: st Let_def split_beta split: option.split bool.split)
next
  fix d and st :: "('x, 'p, 'w) serial_state"
  obtain m st0 where st: "st = (m, st0)" by (cases st)
  obtain x1 s1 where r: "all_remove providers d st0 = (x1, s1)" by force
  with all_remove_frame [of d st0] have frame: "consoles s1 = consoles (snd st0)" by simp
  with r show "consoles (snd (snd (serial_event devnode providers new_console nm (EventRemoved d) st))) =
      (case map_of (fst st) (ud_syspath d) of
         Some i \<Rightarrow> registry_remove i (consoles (snd (snd st))) | None \<Rightarrow> consoles (snd (snd st)))"
    by (simp add: st split: option.split)
  from r show "fst (serial_event devnode providers new_console nm (EventRemoved d) st) =
      AList.delete (ud_syspath d) (fst st)"
    by (simp add: st delete_unknown split: option.split)
qed

text \<open>The loop as it starts, before a provider is added.\<close>

interpretation no_providers: serial_consoles "[]"
  by unfold_locales simp_all

text \<open>The device goes to the first provider that wants it; those after it are not asked.\<close>

lemma any_handles_first:
  assumes "any_handles ps device seqnum st = (True, st')"
  shows "\<exists>before p after st0. ps = before @ p # after \<and> any_handles before device seqnum st = (False, st0) \<and>
    sp_handle p device seqnum st0 = (True, st')"
  using assms
proof (induction ps arbitrary: st)
  case (Cons p ps)
  obtain b st1 where h: "sp_handle p device seqnum st = (b, st1)" by (meson prod.exhaust_sel)
  show ?case
  proof (cases b)
    case True
    with h Cons.prems show ?thesis by (intro exI [of _ "[]"] exI [of _ p] exI [of _ ps]) simp
  next
    case False
    with h Cons.prems have "any_handles ps device seqnum st1 = (True, st')" by simp
    from Cons.IH [OF this] obtain before q after st0 where
      "ps = before @ q # after" "any_handles before device seqnum st1 = (False, st0)"
      "sp_handle q device seqnum st0 = (True, st')" by blast
    with h False show ?thesis by (intro exI [of _ "p # before"] exI [of _ q] exI [of _ after]) simp
  qed
qed simp

context serial_consoles
begin

lemma run_follows_devices:
  assumes "serial_run devnode providers new_console nm evs ([], x, s) = Done (m, x', s')"
    and "no_overlap [] (List.map_filter announced_path evs)"
    and "registry_inv (consoles s)" and "length (added_ids (monitor (consoles s'))) < 2 ^ 64"
  shows "set (registry_ids (consoles s')) = set (registry_ids (consoles s)) \<union> snd ` set m \<and>
    set (registry_ids (consoles s)) \<inter> snd ` set m = {} \<and> distinct (map snd m) \<and>
    fst ` set m \<subseteq> set (fold keep_key (List.map_filter announced_path evs) [])"
  using tty.run_owns [OF assms(1) [unfolded serial_run_def] assms(2)] assms(3,4)
  by (simp add: tty.live_def tty.mine_def tty.adds_def live_ids)

end

text \<open>
  The serial loop neither leaks nor steals consoles, whatever providers it asks first, as
  long as they leave the consoles alone: after any events the server has the consoles it had
  before and exactly one for every entry of the loop's map, and every entry is for a device that
  was announced and has not gone away, if no device is announced again while it is present.
\<close>

theorem serial_consoles_follow_devices:
  assumes "\<And>p device seqnum st. p \<in> set providers \<Longrightarrow>
      consoles (snd (snd (sp_handle p device seqnum st))) = consoles (snd st)"
    and "\<And>p device st. p \<in> set providers \<Longrightarrow> consoles (snd (sp_remove p device st)) = consoles (snd st)"
    and run: "serial_run devnode providers new_console nm evs ([], x, s) = Done (m, x', s')"
    and fresh: "no_overlap [] (List.map_filter announced_path evs)"
    and start: "registry_inv (consoles s)" and bound: "length (added_ids (monitor (consoles s'))) < 2 ^ 64"
  shows "set (registry_ids (consoles s')) = set (registry_ids (consoles s)) \<union> snd ` set m \<and>
    set (registry_ids (consoles s)) \<inter> snd ` set m = {} \<and> distinct (map snd m) \<and>
    fst ` set m \<subseteq> set (fold keep_key (List.map_filter announced_path evs) [])"
proof -
  have "serial_consoles providers" using assms(1,2) by unfold_locales
  from serial_consoles.run_follows_devices [OF this run fresh start bound] show ?thesis .
qed

text \<open>For the examples: a tty that always opens, over a log of the rates it was opened with.\<close>

definition plain_tty :: "(u32, unit, u32 list) serial_lib" where
  "plain_tty =
     \<lparr>sl_open = (\<lambda>path rate w. (Ok (), w @ [rate])), sl_write_all = (\<lambda>path k d w. (Ok (), w)),
      sl_receives = (\<lambda>path k w. []), sl_show_error = (\<lambda>e. ''''), sl_rate = Some\<rparr>"

definition usb_tty :: udev_device where
  "usb_tty = UdevDevice ''/sys/tty1'' None None [] (Some (UdevDevice ''/sys/usb1'' None None [] None))"

lemma serial_consoles_follow_devices_witness:
  "\<exists>m s'. serial_run (\<lambda>d. Some ''/dev/ttyUSB0'') [] (\<lambda>_. serial_console plain_tty 0) ''serial''
      [EventAdded usb_tty 1] ([], (), server_new [] ''/etc'') = Done (m, (), s') \<and>
    m = [(''/sys/tty1'', U64Index 0)] \<and> set (registry_ids (consoles s')) = {U64Index 0}"
proof -
  let ?s = "server_new [] ''/etc'' :: (u32, (SerialPort, u32 list) boxed) Server"
  have dev: "ud_parent usb_tty \<noteq> None" "ud_syspath usb_tty = ''/sys/tty1''"
    by (simp_all add: usb_tty_def)
  have name: "file_name ''/dev/ttyUSB0'' = Some ''ttyUSB0''"
    by (simp add: file_name_def Let_def)
  obtain s' where s': "serial_run (\<lambda>d. Some ''/dev/ttyUSB0'') [] (\<lambda>_. serial_console plain_tty 0) ''serial''
      [EventAdded usb_tty 1] ([], (), ?s) = Done ([(''/sys/tty1'', U64Index 0)], (), s')"
      "length (added_ids (monitor (consoles s'))) = 1"
    using dev by (simp add: serial_run_def name Let_def split_beta server_new_def registry_new_def
        index_default_def added_ids_add)
  have start: "registry_inv (consoles ?s)" "registry_ids (consoles ?s) = []"
    using registry_inv_new by (simp_all add: server_new_def registry_ids_def registry_new_def)
  from serial_consoles_follow_devices [OF _ _ s'(1) _ start(1)] s' start(2) dev
  show ?thesis by (simp add: List.map_filter_simps)
qed

subsection \<open>One connection\<close>

lemma serial_get_returns: "fst (serial_get lib pw) \<noteq> Panicked"
  by (cases pw) (auto simp: serial_get_def serial_open_def split: prod.splits option.splits sum.splits)

text \<open>Uses of a port that follow each other.\<close>

datatype 'p serial_use = Configure 'p | Connect

fun serial_uses ::
  "('p, 'e, 'w) serial_lib \<Rightarrow> 'p serial_use list \<Rightarrow> SerialPort \<times> 'w \<Rightarrow>
   (ConsoleError, nat) result outcome list \<times> SerialPort \<times> 'w" where
  "serial_uses lib [] pw = ([], pw)"
| "serial_uses lib (Configure params # us) pw = serial_uses lib us (snd (serial_configure lib params pw))"
| "serial_uses lib (Connect # us) pw =
     (case serial_get lib pw of (r, pw1) \<Rightarrow>
      case serial_uses lib us pw1 of (rs, pw2) \<Rightarrow> (r # rs, pw2))"

lemma serial_uses_open:
  assumes "ser_open p = Some k"
  shows "\<exists>n p' w'. serial_uses lib us (p, w) = (replicate n (Done (Ok k)), p', w') \<and>
    ser_open p' = Some k \<and> ser_opened p' = ser_opened p \<and> ser_path p' = ser_path p"
  using assms
proof (induction us arbitrary: p w)
  case (Cons u us)
  show ?case
  proof (cases u)
    case (Configure params)
    obtain p1 w1 where c: "snd (serial_configure lib params (p, w)) = (p1, w1)" by force
    then have "ser_open p1 = Some k" "ser_opened p1 = ser_opened p" "ser_path p1 = ser_path p"
      using Cons.prems by (auto simp: serial_configure_def split: option.splits)
    with Cons.IH [of p1 w1] Configure c show ?thesis by simp
  next
    case Connect
    from Cons.prems have "serial_get lib (p, w) = (Done (Ok k), p, w)" by (simp add: serial_get_def)
    with Cons.IH [OF Cons.prems, of w] Connect obtain n p' w' where
      "serial_uses lib (u # us) (p, w) = (Done (Ok k) # replicate n (Done (Ok k)), p', w')"
      "ser_open p' = Some k" "ser_opened p' = ser_opened p" "ser_path p' = ser_path p" by auto
    then show ?thesis by (intro exI [of _ "Suc n"]) simp
  qed
qed simp

lemma serial_uses_closed:
  assumes "ser_open p = None" "ser_opened p = 0" "ser_path p = path"
  shows "case serial_uses lib us (p, w) of (rs, p', w') \<Rightarrow>
     \<exists>es n. rs = map (\<lambda>e. Done (Err (serial_unavailable lib path e))) es @ replicate n (Done (Ok 0)) \<and>
       ser_opened p' = min n 1 \<and> ser_open p' = (if n = 0 then None else Some 0)"
  using assms
proof (induction us arbitrary: p w)
  case (Cons u us)
  show ?case
  proof (cases u)
    case (Configure params)
    obtain p1 w1 where c: "snd (serial_configure lib params (p, w)) = (p1, w1)" by force
    then have "ser_open p1 = None" "ser_opened p1 = 0" "ser_path p1 = path"
      using Cons.prems by (auto simp: serial_configure_def split: option.splits)
    with Cons.IH [of p1 w1] Configure c show ?thesis by simp
  next
    case Connect
    show ?thesis
    proof (cases "sl_open lib path (ser_rate p) w")
      case (Pair r w1)
      show ?thesis
      proof (cases r)
        case (Inl e)
        with Pair Cons.prems have "serial_get lib (p, w) = (Done (Err (serial_unavailable lib path e)), p, w1)"
          by (simp add: serial_get_def serial_open_def)
        moreover obtain rs p' w' where u: "serial_uses lib us (p, w1) = (rs, p', w')" by (cases "serial_uses lib us (p, w1)")
        moreover from Cons.IH [OF Cons.prems, of w1] u obtain es n where
          "rs = map (\<lambda>e. Done (Err (serial_unavailable lib path e))) es @ replicate n (Done (Ok 0))"
          "ser_opened p' = min n 1" "ser_open p' = (if n = 0 then None else Some 0)" by auto
        ultimately have "serial_uses lib (u # us) (p, w) =
            (map (\<lambda>e. Done (Err (serial_unavailable lib path e))) (e # es) @ replicate n (Done (Ok 0)), p', w')"
          using Connect by simp
        with \<open>ser_opened p' = min n 1\<close> \<open>ser_open p' = (if n = 0 then None else Some 0)\<close>
        show ?thesis by (simp only: prod.case) blast
      next
        case (Inr a)
        let ?p = "p\<lparr>ser_open := Some 0, ser_opened := 1\<rparr>"
        from Pair Inr Cons.prems have g: "serial_get lib (p, w) = (Done (Ok 0), ?p, w1)"
          by (simp add: serial_get_def serial_open_def)
        from serial_uses_open [of ?p 0 lib us w1] obtain n p' w' where
          "serial_uses lib us (?p, w1) = (replicate n (Done (Ok 0)), p', w')"
          "ser_open p' = Some 0" "ser_opened p' = 1" by auto
        with g Connect show ?thesis by (simp, intro exI [of _ "[]"] exI [of _ "Suc n"]) simp
      qed
    qed
  qed
qed (auto intro!: exI [of _ "[]"])

text \<open>
  Uses of a port that follow each other share one connection: until the tty can be opened
  every use is answered with the reason, then it is opened once, and every later use gets that
  connection.
\<close>

theorem serial_shares_connection:
  "case serial_uses lib us (serial_port_new path, w) of (rs, p, w') \<Rightarrow>
     \<exists>es n. rs = map (\<lambda>e. Done (Err (serial_unavailable lib path e))) es @ replicate n (Done (Ok 0)) \<and>
       ser_opened p = min n 1 \<and> ser_open p = (if n = 0 then None else Some 0)"
  by (rule serial_uses_closed) (simp_all add: serial_port_new_def)

text \<open>
  Nothing closes a port: also when its task has read the end of the tty, or panicked on an
  error, the port keeps the connection, which will never yield another byte.
\<close>

lemma serial_never_reopened:
  assumes "ser_open p = Some k"
  shows "ser_open (fst (snd (get_step lib ph (p, w)))) \<noteq> None"
    and "ser_open (fst (snd (serial_configure lib params (p, w)))) = Some k"
    and "ser_open (fst (snd (serial_sink lib k' data (p, w)))) = Some k"
  using assms
  by (cases ph; auto simp: serial_open_def serial_configure_def serial_sink_def
      split: prod.splits option.splits sum.splits)+

text \<open>Two uses whose sections interleave: \<open>True\<close> is a step of the second.\<close>

fun get_race ::
  "('p, 'e, 'w) serial_lib \<Rightarrow> bool list \<Rightarrow> get_phase \<times> get_phase \<Rightarrow> SerialPort \<times> 'w \<Rightarrow>
   (get_phase \<times> get_phase) \<times> SerialPort \<times> 'w" where
  "get_race lib [] phs pw = (phs, pw)"
| "get_race lib (b # bs) (ph1, ph2) pw =
     (if b then (case get_step lib ph2 pw of (ph, pw1) \<Rightarrow> get_race lib bs (ph1, ph) pw1)
      else (case get_step lib ph1 pw of (ph, pw1) \<Rightarrow> get_race lib bs (ph, ph2) pw1))"

text \<open>Both may find the port closed and open it: then two tasks read the same tty.\<close>

lemma serial_race_opens_twice:
  "get_race plain_tty [False, True, False, False, True, True] (GetFresh, GetFresh) (serial_port_new path, []) =
     ((GetDone (Ok 0), GetDone (Ok 1)),
      \<lparr>ser_path = path, ser_rate = 115200, ser_open = Some 1, ser_opened = 2\<rparr>, [115200, 115200])"
  by (simp add: serial_port_new_def serial_open_def plain_tty_def)

text \<open>A rate that is configured once the port is open is not applied.\<close>

lemma serial_rate_too_late:
  "serial_uses plain_tty [Connect, Configure 9600, Connect] (serial_port_new path, []) =
     ([Done (Ok 0), Done (Ok 0)],
      \<lparr>ser_path = path, ser_rate = 9600, ser_open = Some 0, ser_opened = 1\<rparr>, [115200])"
  by (simp add: serial_port_new_def serial_get_def serial_open_def serial_configure_def plain_tty_def)

subsection \<open>What a client sees\<close>

fun sends :: "chan_op list \<Rightarrow> bytes list" where
  "sends [] = []"
| "sends (SendOp m # ops) = m # sends ops"
| "sends (RecvOp # ops) = sends ops"

fun keeps_up :: "nat \<Rightarrow> chan_op list \<Rightarrow> bool" where
  "keeps_up n [] = True"
| "keeps_up n (SendOp m # ops) = keeps_up (n + 1) ops"
| "keeps_up n (RecvOp # ops) = (n \<le> BROADCAST \<and> keeps_up (n - 1) ops)"

lemma recv_data_simps [simp]:
  "recv_data (Ok data) = Ok data" "recv_data (Err e) = Err ConsoleClosed"
  by (simp_all add: recv_data_def)

text \<open>How many messages a receiver with \<open>n\<close> pending ones takes: it stops at the first lag.\<close>

fun taken :: "nat \<Rightarrow> chan_op list \<Rightarrow> nat" where
  "taken n [] = 0"
| "taken n (SendOp m # ops) = taken (n + 1) ops"
| "taken n (RecvOp # ops) =
     (if n > BROADCAST then 0 else if n = 0 then taken 0 ops else Suc (taken (n - 1) ops))"

lemma taken_le: "taken n ops \<le> n + length (sends ops)"
  by (induction n ops rule: taken.induct) auto

lemma subscriber_items:
  "output_items (map recv_data (subscriber pend ops)) =
     map Done (take (taken (length pend) ops) (pend @ sends ops)) @
     (if keeps_up (length pend) ops then [] else [Panicked])"
proof (induction pend ops rule: subscriber.induct)
  case (3 pend ops)
  then show ?case by (cases pend) auto
qed simp_all

text \<open>
  What a client of a console is sent are the messages broadcast since it subscribed, in
  order and none twice or missing, for as long as it is never more than 64 of them behind when
  it takes one; the first time it is, its stream ends with a panic. The messages broadcast are
  the data of the reads, up to the end of the tty or an error.
\<close>

lemma serial_stream_in_order:
  "output_items (map recv_data (subscriber [] ops)) =
     map Done (take (taken 0 ops) (sends ops)) @ (if keeps_up 0 ops then [] else [Panicked])"
  using subscriber_items [of "[]" ops] by simp

text \<open>A receiver that keeps up and has taken what was pending has all of it.\<close>

lemma taken_drained:
  "n + length (sends ops) \<le> j \<Longrightarrow> keeps_up n (ops @ replicate j RecvOp) \<Longrightarrow>
   taken n (ops @ replicate j RecvOp) = n + length (sends ops)"
proof (induction n ops rule: taken.induct)
  case (1 n)
  then show ?case
  proof (induction j arbitrary: n)
    case (Suc j)
    then show ?case by (cases n) auto
  qed simp
qed auto

lemma read_task_data:
  "fst (read_task (map Ok ds @ rest)) =
     (if [] \<in> set ds then takeWhile (\<lambda>d. d \<noteq> []) ds else ds @ fst (read_task rest))"
  by (induction ds) (auto split: prod.splits)

end
