(* ===== verification/Dfu.thy ===== *)
theory Dfu
  imports Provider_Common
begin

section \<open>The DFU provider (boardswarm/src/dfu.rs)\<close>

text \<open>
  A device in DFU mode becomes a volume with one target per alternate setting. Opening a target
  starts a download, to which the writes are passed on through a channel; committing the volume
  resets the device. One task owns the device and handles one command after another, a download
  until it ends. The nusb and dfu libraries are the record \<open>dfu_lib\<close>, and the interleaving of
  clients and task is a step relation. The lemmas: the event loop neither leaks nor loses
  volumes, a download takes a prefix of what is written to its target, in order, and a device
  is not reset before the downloads that were started earlier have ended.
\<close>

subsection \<open>The interfaces of a device\<close>

record DfuInterface =
  di_interface :: u8
  di_alt :: u8

record alt_setting =
  as_interface :: u8
  as_alt :: u8
  as_class :: u8
  as_subclass :: u8
  as_protocol :: u8
  as_string_index :: "u8 option"

text \<open>
  \<open>df_alts\<close> lists the alternate settings of all interfaces of all configurations, or fails when
  the device is not found or does not open; \<open>df_order\<close> is the order in which the keys of the
  map of interfaces are visited.
\<close>

record ('e, 'w) dfu_lib =
  df_alts :: "usb_address \<Rightarrow> 'w \<Rightarrow> ('e, alt_setting list) result \<times> 'w"
  df_string :: "usb_address \<Rightarrow> u8 \<Rightarrow> 'w \<Rightarrow> ('e, string) result \<times> 'w"
  df_order :: "string list \<Rightarrow> string list"

type_synonym dfu_interfaces = "(string \<times> DfuInterface) list"

fun collect_dfu ::
  "('e, 'w) dfu_lib \<Rightarrow> usb_address \<Rightarrow> alt_setting list \<Rightarrow> dfu_interfaces \<Rightarrow> 'w \<Rightarrow>
   ('e, dfu_interfaces) result \<times> 'w" where
  "collect_dfu lib a [] found w = (Ok found, w)"
| "collect_dfu lib a (alt # alts) found w =
     (if as_class alt = 0xfe \<and> as_subclass alt = 0x1 \<and> as_protocol alt = 0x2
      then (case as_string_index alt of
              None \<Rightarrow> collect_dfu lib a alts found w
            | Some s_i \<Rightarrow>
                (case df_string lib a s_i w of
                   (Err e, w1) \<Rightarrow> (Err e, w1)
                 | (Ok descriptor, w1) \<Rightarrow>
                     collect_dfu lib a alts (AList.update descriptor
                       \<lparr>di_interface = as_interface alt, di_alt = as_alt alt\<rparr> found) w1))
      else collect_dfu lib a alts found w)"

definition dfu_setup_device ::
  "('e, 'w) dfu_lib \<Rightarrow> usb_address \<Rightarrow> 'w \<Rightarrow> ('e, dfu_interfaces) result \<times> 'w" where
  "dfu_setup_device lib a w =
     (case df_alts lib a w of
        (Err e, w1) \<Rightarrow> (Err e, w1) | (Ok alts, w1) \<Rightarrow> collect_dfu lib a alts [] w1)"

subsection \<open>The volume\<close>

text \<open>
  \<open>dfu_interfaces\<close> is \<open>None\<close> when the task gave up on the device: it has no targets then.
\<close>

record Dfu =
  dfu_known :: "dfu_interfaces option"
  dfu_targets :: "VolumeTargetInfo list"

definition dfu_new :: "('e, 'w) dfu_lib \<Rightarrow> usb_address \<Rightarrow> 'w \<Rightarrow> Dfu \<times> 'w" where
  "dfu_new lib a w =
     (case dfu_setup_device lib a w of
        (r, w1) \<Rightarrow>
          (let known = (case r of Err e \<Rightarrow> None | Ok found \<Rightarrow> Some found);
               names = (case known of None \<Rightarrow> [] | Some found \<Rightarrow> df_order lib (map fst found))
           in (\<lparr>dfu_known = known,
                dfu_targets = map (\<lambda>name. \<lparr>target_name = name, readable = False, writable = True,
                  seekable = False, target_size = None, blocksize = None\<rparr>) names\<rparr>, w1)))"

subsection \<open>The event loop\<close>

definition dfu_admit ::
  "(udev_device \<Rightarrow> string option) \<Rightarrow> udev_device \<Rightarrow> (usb_address \<times> string) option" where
  "dfu_admit devnode device =
     (case udev_property device ''ID_USB_INTERFACES'' of
        None \<Rightarrow> None
      | Some interface \<Rightarrow>
          (if interface \<noteq> '':fe0102:'' \<or> devnode device = None then None else
           case Option.bind (property_u64 device ''BUSNUM'' 10) u64_to_u8 of
             None \<Rightarrow> None
           | Some busnum \<Rightarrow>
          (case Option.bind (property_u64 device ''DEVNUM'' 10) u64_to_u8 of
             None \<Rightarrow> None
           | Some devnum \<Rightarrow>
               Some ((busnum, devnum),
                 case udev_property device ''ID_MODEL'' of
                   Some model \<Rightarrow> show_nat (unat busnum) @ ''/'' @ show_nat (unat devnum) @ '' '' @ model
                 | None \<Rightarrow> show_nat (unat devnum) @ ''/'' @ show_nat (unat devnum)))))"

text \<open>\<open>volume_of\<close> makes a trait object of a volume; its methods are given below.\<close>

type_synonym ('p, 'w) dfu_state = "(string \<times> VolumeId) list \<times> ('p, 'w) Server \<times> 'w"

fun dfu_event ::
  "('e, 'w) dfu_lib \<Rightarrow> (Dfu \<Rightarrow> 'w Volume) \<Rightarrow> (udev_device \<Rightarrow> string option) \<Rightarrow> string \<Rightarrow> DeviceEvent \<Rightarrow>
   ('p, 'w) dfu_state \<Rightarrow> ('p, 'w) dfu_state" where
  "dfu_event lib volume_of devnode provider_name (EventAdded device seqnum) (m, s, w) =
     (case dfu_admit devnode device of
        None \<Rightarrow> (m, s, w)
      | Some (a, name) \<Rightarrow>
          (case dfu_new lib a w of
             (dfu, w1) \<Rightarrow>
               (let props = properties_extend (udev_properties device name)
                      [(PROVIDER_NAME, provider_name), (PROVIDER, ''dfu'')];
                    (i, s1) = register_volume props (volume_of dfu) s
                in (AList.update (ud_syspath device) i m, s1, w1))))"
| "dfu_event lib volume_of devnode provider_name (EventRemoved device) (m, s, w) =
     (case map_of m (ud_syspath device) of
        Some i \<Rightarrow> (AList.delete (ud_syspath device) m, unregister_volume i s, w)
      | None \<Rightarrow> (m, s, w))"

interpretation dfu_volumes: hotplug "dfu_event lib volume_of devnode nm" "\<lambda>st. volumes (fst (snd st))" fst
  for lib :: "('e, 'w) dfu_lib" and volume_of devnode nm
proof unfold_locales
  fix d n and st :: "('p, 'w) dfu_state"
  obtain m s w where st: "st = (m, s, w)" by (cases st)
  let ?st = "dfu_event lib volume_of devnode nm (EventAdded d n) st"
  show "volumes (fst (snd ?st)) = volumes (fst (snd st)) \<and> fst ?st = fst st \<or>
      (\<exists>p i. volumes (fst (snd ?st)) = snd (registry_add p i (volumes (fst (snd st)))) \<and>
         fst ?st = AList.update (ud_syspath d) (next_id (volumes (fst (snd st)))) (fst st))"
    by (auto simp: st Let_def split_beta split: option.split)
next
  fix d and st :: "('p, 'w) dfu_state"
  obtain m s w where st: "st = (m, s, w)" by (cases st)
  show "volumes (fst (snd (dfu_event lib volume_of devnode nm (EventRemoved d) st))) =
      (case map_of (fst st) (ud_syspath d) of
         Some i \<Rightarrow> registry_remove i (volumes (fst (snd st))) | None \<Rightarrow> volumes (fst (snd st)))"
    by (simp add: st split: option.split)
  show "fst (dfu_event lib volume_of devnode nm (EventRemoved d) st) = AList.delete (ud_syspath d) (fst st)"
    by (simp add: st delete_unknown split: option.split)
qed

subsection \<open>The task and its clients\<close>

text \<open>
  A download or a reset is named by a number, in the order in which they are asked for. The
  channel of a download holds what was written and not taken yet; its receiver lives while the
  command is queued or carried out.
\<close>

datatype DfuCommand = Download nat string u32 | Reset nat

datatype dfu_log = Wrote nat bytes | Took nat bytes | ResetDone nat

record dfu_task =
  dt_queue :: "DfuCommand list"
  dt_busy :: "nat option"
  dt_chan :: "nat \<Rightarrow> bytes list"
  dt_open :: "nat list"
  dt_next :: nat
  dt_log :: "dfu_log list"

definition dfu_task_new :: dfu_task where
  "dfu_task_new = \<lparr>dt_queue = [], dt_busy = None, dt_chan = (\<lambda>_. []), dt_open = [], dt_next = 0, dt_log = []\<rparr>"

fun command_id :: "DfuCommand \<Rightarrow> nat" where
  "command_id (Download n target len) = n"
| "command_id (Reset n) = n"

fun is_download :: "nat \<Rightarrow> DfuCommand \<Rightarrow> bool" where
  "is_download n (Download m target len) = (m = n)"
| "is_download n (Reset m) = False"

definition receiving :: "nat \<Rightarrow> dfu_task \<Rightarrow> bool" where
  "receiving n t = (dt_busy t = Some n \<or> list_ex (is_download n) (dt_queue t))"

text \<open>\<^verbatim>\<open>open\<close>, over the targets the volume was made with; the length is cut to 32 bits.\<close>

definition dfu_open ::
  "Dfu \<Rightarrow> string \<Rightarrow> u64 option \<Rightarrow> dfu_task \<Rightarrow> (VolumeError, VolumeTargetInfo \<times> nat) result \<times> dfu_task" where
  "dfu_open dfu target len t =
     (case List.find (\<lambda>i. target_name i = target) (dfu_targets dfu) of
        None \<Rightarrow> (Err UnknownTargetRequested, t)
      | Some info \<Rightarrow>
          (let n = dt_next t in
           (Ok (info, n), t\<lparr>dt_queue := dt_queue t @ [Download n target (ucast (case len of None \<Rightarrow> 0 | Some l \<Rightarrow> l))],
              dt_open := n # dt_open t, dt_next := n + 1\<rparr>)))"

text \<open>The write of a target; its other methods are the defaults. A send to a dropped receiver is ignored.\<close>

definition dfu_write :: "nat \<Rightarrow> bytes \<Rightarrow> u64 \<Rightarrow> dfu_task \<Rightarrow> (status, u64) result option \<times> dfu_task" where
  "dfu_write n data offset t =
     (Some (Ok (of_nat (length data))),
      t\<lparr>dt_chan := (if receiving n t then (dt_chan t)(n := dt_chan t n @ [data]) else dt_chan t),
        dt_log := dt_log t @ [Wrote n data]\<rparr>)"

definition dfu_target :: "nat \<Rightarrow> dfu_task VolumeTarget" where
  "dfu_target n =
     \<lparr>vt_read = default_read, vt_write = dfu_write n, vt_flush = default_flush,
      vt_shutdown = default_shutdown default_flush\<rparr>"

definition dfu_close :: "nat \<Rightarrow> dfu_task \<Rightarrow> dfu_task" where
  "dfu_close n t = t\<lparr>dt_open := removeAll n (dt_open t)\<rparr>"

text \<open>\<^verbatim>\<open>commit\<close> queues the reset and waits for it.\<close>

definition dfu_commit :: "dfu_task \<Rightarrow> nat \<times> dfu_task" where
  "dfu_commit t =
     (dt_next t, t\<lparr>dt_queue := dt_queue t @ [Reset (dt_next t)], dt_next := dt_next t + 1\<rparr>)"

text \<open>
  The task: it takes the next command when it is idle, a download goes on until the library has
  enough of it or the channel ends, and what is left in the channel is dropped with it.
\<close>

inductive dfu_step :: "Dfu \<Rightarrow> dfu_task \<Rightarrow> dfu_task \<Rightarrow> bool" for dfu where
  opens: "dfu_open dfu target len t = (Ok (info, n), t') \<Longrightarrow> dfu_step dfu t t'"
| writes: "n \<in> set (dt_open t) \<Longrightarrow> dfu_write n data offset t = (r, t') \<Longrightarrow> dfu_step dfu t t'"
| closes: "dfu_step dfu t (dfu_close n t)"
| commits: "dfu_commit t = (n, t') \<Longrightarrow> dfu_step dfu t t'"
| starts: "dt_busy t = None \<Longrightarrow> dt_queue t = Download n target len # q \<Longrightarrow>
    dfu_known dfu = Some known \<Longrightarrow> map_of known target = Some i \<Longrightarrow>
    dfu_step dfu t (t\<lparr>dt_queue := q, dt_busy := Some n\<rparr>)"
| unknown: "dt_busy t = None \<Longrightarrow> dt_queue t = Download n target len # q \<Longrightarrow>
    dfu_known dfu = Some known \<Longrightarrow> map_of known target = None \<Longrightarrow>
    dfu_step dfu t (t\<lparr>dt_queue := q, dt_chan := (dt_chan t)(n := [])\<rparr>)"
| takes: "dt_busy t = Some n \<Longrightarrow> dt_chan t n = data # rest \<Longrightarrow>
    dfu_step dfu t (t\<lparr>dt_chan := (dt_chan t)(n := rest), dt_log := dt_log t @ [Took n data]\<rparr>)"
| finishes: "dt_busy t = Some n \<Longrightarrow>
    dfu_step dfu t (t\<lparr>dt_busy := None, dt_chan := (dt_chan t)(n := [])\<rparr>)"
| resets: "dt_busy t = None \<Longrightarrow> dt_queue t = Reset n # q \<Longrightarrow>
    dfu_step dfu t (t\<lparr>dt_queue := q, dt_log := dt_log t @ [ResetDone n]\<rparr>)"

inductive dfu_reachable :: "Dfu \<Rightarrow> dfu_task \<Rightarrow> bool" for dfu where
  initial: "dfu_reachable dfu dfu_task_new"
| step: "dfu_reachable dfu t \<Longrightarrow> dfu_step dfu t t' \<Longrightarrow> dfu_reachable dfu t'"

fun wrote :: "nat \<Rightarrow> dfu_log list \<Rightarrow> bytes list" where
  "wrote n [] = []"
| "wrote n (Wrote m d # l) = (if m = n then d # wrote n l else wrote n l)"
| "wrote n (_ # l) = wrote n l"

fun took :: "nat \<Rightarrow> dfu_log list \<Rightarrow> bytes list" where
  "took n [] = []"
| "took n (Took m d # l) = (if m = n then d # took n l else took n l)"
| "took n (_ # l) = took n l"

fun ordered_log :: "dfu_log list \<Rightarrow> bool" where
  "ordered_log [] = True"
| "ordered_log (ResetDone c # l) = (list_all (\<lambda>e. case e of Took n d \<Rightarrow> c < n | _ \<Rightarrow> True) l \<and> ordered_log l)"
| "ordered_log (_ # l) = ordered_log l"

lemma wrote_append [simp]: "wrote n (l @ l') = wrote n l @ wrote n l'"
  by (induction n l rule: wrote.induct) simp_all

lemma took_append [simp]: "took n (l @ l') = took n l @ took n l'"
  by (induction n l rule: took.induct) simp_all

definition resets_below :: "nat \<Rightarrow> dfu_log list \<Rightarrow> bool" where
  "resets_below n l = list_all (\<lambda>e. case e of ResetDone c \<Rightarrow> c < n | _ \<Rightarrow> True) l"

lemma resets_below_simps [simp]:
  "resets_below n []" "resets_below n (e # l) \<longleftrightarrow> (case e of ResetDone c \<Rightarrow> c < n | _ \<Rightarrow> True) \<and> resets_below n l"
  "resets_below n (l @ l') \<longleftrightarrow> resets_below n l \<and> resets_below n l'"
  by (simp_all add: resets_below_def)

lemma resets_below_mono: "resets_below n l \<Longrightarrow> n \<le> m \<Longrightarrow> resets_below m l"
  by (induction l) (auto split: dfu_log.splits)

lemma ordered_log_took: "ordered_log (l @ [Took n d]) \<longleftrightarrow> ordered_log l \<and> resets_below n l"
  by (induction l rule: ordered_log.induct) auto

lemma ordered_log_other:
  "ordered_log (l @ [Wrote n d]) \<longleftrightarrow> ordered_log l" "ordered_log (l @ [ResetDone c]) \<longleftrightarrow> ordered_log l"
  by (induction l rule: ordered_log.induct) (auto split: dfu_log.split)

text \<open>
  The commands wait in the order of their numbers, behind the download that is carried out;
  every reset that was done came before them; and a download has taken what was written to it
  but the content of its channel.
\<close>

definition queue_inv :: "dfu_task \<Rightarrow> bool" where
  "queue_inv t \<longleftrightarrow>
     sorted_wrt (<) (map command_id (dt_queue t)) \<and>
     (\<forall>c \<in> set (dt_queue t). command_id c < dt_next t \<and> resets_below (command_id c) (dt_log t)) \<and>
     (case dt_busy t of None \<Rightarrow> True
      | Some n \<Rightarrow> n < dt_next t \<and> resets_below n (dt_log t) \<and> (\<forall>c \<in> set (dt_queue t). n < command_id c)) \<and>
     resets_below (dt_next t) (dt_log t) \<and> ordered_log (dt_log t)"

definition data_inv :: "dfu_task \<Rightarrow> bool" where
  "data_inv t \<longleftrightarrow>
     (\<forall>n. (if receiving n t then took n (dt_log t) @ dt_chan t n = wrote n (dt_log t)
           else dt_chan t n = [] \<and> (\<exists>lost. wrote n (dt_log t) = took n (dt_log t) @ lost)) \<and>
          (dt_next t \<le> n \<longrightarrow> wrote n (dt_log t) = [])) \<and>
     (\<forall>n \<in> set (dt_open t). n < dt_next t)"

lemma dfu_step_queue: "dfu_step dfu t t' \<Longrightarrow> queue_inv t \<Longrightarrow> queue_inv t'"
proof (induction rule: dfu_step.induct)
  case (opens target len t info n t')
  then show ?case
    by (auto simp: dfu_open_def queue_inv_def sorted_wrt_append Let_def less_Suc_eq
        split: option.splits intro: resets_below_mono)
next
  case (writes n t data offset r t')
  then show ?case by (auto simp: dfu_write_def queue_inv_def ordered_log_other split: option.splits)
next
  case (closes t n)
  then show ?case by (auto simp: dfu_close_def queue_inv_def split: option.splits)
next
  case (commits t n t')
  then show ?case
    by (auto simp: dfu_commit_def queue_inv_def sorted_wrt_append less_Suc_eq split: option.splits intro: resets_below_mono)
next
  case (starts t n target len q known i)
  then show ?case by (auto simp: queue_inv_def)
next
  case (unknown t n target len q known)
  then show ?case by (auto simp: queue_inv_def)
next
  case (takes t n data rest)
  then show ?case by (auto simp: queue_inv_def ordered_log_took)
next
  case (finishes t n)
  then show ?case by (auto simp: queue_inv_def)
next
  case (resets t n q)
  then show ?case by (auto simp: queue_inv_def ordered_log_other)
qed

lemma receiving_known: "queue_inv t \<Longrightarrow> receiving n t \<Longrightarrow> n < dt_next t"
  by (auto simp: queue_inv_def receiving_def list_ex_iff elim!: is_download.elims)

lemma queued_download:
  "queue_inv t \<Longrightarrow> dt_queue t = c # q \<Longrightarrow> \<not> list_ex (is_download (command_id c)) q"
  by (auto simp: queue_inv_def list_ex_iff elim!: is_download.elims)

lemma data_inv_receiving:
  assumes "data_inv t" "receiving n t"
  shows "wrote n (dt_log t) = took n (dt_log t) @ dt_chan t n"
proof -
  from assms(1) have "if receiving n t then took n (dt_log t) @ dt_chan t n = wrote n (dt_log t)
      else dt_chan t n = [] \<and> (\<exists>lost. wrote n (dt_log t) = took n (dt_log t) @ lost)"
    unfolding data_inv_def by blast
  with assms(2) show ?thesis by simp
qed

lemma data_inv_prefix:
  assumes "data_inv t"
  shows "\<exists>lost. wrote n (dt_log t) = took n (dt_log t) @ lost"
proof -
  from assms have "if receiving n t then took n (dt_log t) @ dt_chan t n = wrote n (dt_log t)
      else dt_chan t n = [] \<and> (\<exists>lost. wrote n (dt_log t) = took n (dt_log t) @ lost)"
    unfolding data_inv_def by blast
  then show ?thesis by (metis data_inv_receiving [OF assms])
qed

lemma dfu_step_data: "dfu_step dfu t t' \<Longrightarrow> queue_inv t \<Longrightarrow> data_inv t \<Longrightarrow> data_inv t'"
proof (induction rule: dfu_step.induct)
  case (opens target len t info n t')
  then have n: "n = dt_next t" and t': "t' = t\<lparr>dt_queue := dt_queue t @ [Download n target (ucast (case len of None \<Rightarrow> 0 | Some l \<Rightarrow> l))],
              dt_open := n # dt_open t, dt_next := n + 1\<rparr>"
    by (auto simp: dfu_open_def Let_def split: option.splits)
  have rec: "receiving m t' \<longleftrightarrow> receiving m t \<or> m = n" for m by (auto simp: t' receiving_def)
  from opens(2) have "\<not> receiving n t" using receiving_known n by blast
  with opens(3) n have "took n (dt_log t) = []" "dt_chan t n = []" "wrote n (dt_log t) = []"
    by (auto simp: data_inv_def)
  with opens(3) show ?case unfolding data_inv_def rec by (auto simp: t' n less_Suc_eq)
next
  case (writes n t data offset r t')
  then have t': "t' = t\<lparr>dt_chan := (if receiving n t then (dt_chan t)(n := dt_chan t n @ [data]) else dt_chan t),
        dt_log := dt_log t @ [Wrote n data]\<rparr>" by (auto simp: dfu_write_def)
  have rec: "receiving m t' \<longleftrightarrow> receiving m t" for m by (auto simp: t' receiving_def)
  show ?case using writes(1,4) unfolding data_inv_def rec by (auto simp: t' split: if_splits)
next
  case (closes t n)
  then show ?case by (auto simp: dfu_close_def data_inv_def receiving_def)
next
  case (commits t n t')
  then show ?case by (auto simp: dfu_commit_def data_inv_def receiving_def less_Suc_eq)
next
  case (starts t n target len q known i)
  then have "receiving m (t\<lparr>dt_queue := q, dt_busy := Some n\<rparr>) \<longleftrightarrow> receiving m t" for m
    by (auto simp: receiving_def)
  with starts show ?case by (simp add: data_inv_def)
next
  case (unknown t n target len q known)
  let ?t = "t\<lparr>dt_queue := q, dt_chan := (dt_chan t)(n := [])\<rparr>"
  have rec: "receiving m ?t \<longleftrightarrow> receiving m t \<and> m \<noteq> n" for m
    using queued_download [OF unknown(5,2)] unknown(1,2) by (auto simp: receiving_def)
  have "receiving n t" using unknown(2) by (simp add: receiving_def)
  from data_inv_receiving [OF unknown(6) this] have "wrote n (dt_log t) = took n (dt_log t) @ dt_chan t n" .
  with unknown(6) show ?case unfolding data_inv_def rec by auto
next
  case (takes t n data rest)
  let ?t = "t\<lparr>dt_chan := (dt_chan t)(n := rest), dt_log := dt_log t @ [Took n data]\<rparr>"
  have rec: "receiving m ?t \<longleftrightarrow> receiving m t" for m by (auto simp: receiving_def)
  have r: "receiving n t" using takes(1) by (simp add: receiving_def)
  from data_inv_receiving [OF takes(4) r] takes(2) have "wrote n (dt_log t) = took n (dt_log t) @ data # rest"
    by simp
  with takes(4) r show ?case unfolding data_inv_def rec by auto
next
  case (finishes t n)
  let ?t = "t\<lparr>dt_busy := None, dt_chan := (dt_chan t)(n := [])\<rparr>"
  have "\<not> list_ex (is_download n) (dt_queue t)"
    using finishes(1,2) by (auto simp: queue_inv_def list_ex_iff elim!: is_download.elims)
  then have rec: "receiving m ?t \<longleftrightarrow> receiving m t \<and> m \<noteq> n" for m
    using finishes(1) by (auto simp: receiving_def)
  have "receiving n t" using finishes(1) by (simp add: receiving_def)
  from data_inv_receiving [OF finishes(3) this] have "wrote n (dt_log t) = took n (dt_log t) @ dt_chan t n" .
  with finishes(3) show ?case unfolding data_inv_def rec by auto
next
  case (resets t n q)
  then have "receiving m (t\<lparr>dt_queue := q, dt_log := dt_log t @ [ResetDone n]\<rparr>) \<longleftrightarrow> receiving m t" for m
    by (auto simp: receiving_def)
  with resets show ?case by (simp add: data_inv_def)
qed

lemma dfu_reachable_inv: "dfu_reachable dfu t \<Longrightarrow> queue_inv t \<and> data_inv t"
proof (induction rule: dfu_reachable.induct)
  case initial
  show ?case by (simp add: dfu_task_new_def queue_inv_def data_inv_def receiving_def)
next
  case (step t t')
  then show ?case using dfu_step_queue dfu_step_data by blast
qed

text \<open>
  C28. However clients and the task interleave, a download takes a prefix of what is written to
  its target, in order, and a device is reset for a commit only after the downloads that were
  opened before it have ended: after the reset, data is taken only for targets opened later.
\<close>

theorem dfu_downloads_in_order:
  assumes "dfu_reachable dfu t"
  shows "(\<exists>lost. wrote n (dt_log t) = took n (dt_log t) @ lost) \<and>
    (\<forall>before c after m data. dt_log t = before @ ResetDone c # after \<longrightarrow> Took m data \<in> set after \<longrightarrow> c < m)"
proof -
  have inv: "data_inv t" "ordered_log (dt_log t)"
    using dfu_reachable_inv [OF assms] by (simp_all add: queue_inv_def)
  from data_inv_prefix [OF inv(1)] have "\<exists>lost. wrote n (dt_log t) = took n (dt_log t) @ lost" .
  moreover have "c < m" if "ordered_log l" "l = before @ ResetDone c # after" "Took m data \<in> set after"
    for l before c after m data
    using that
  proof (induction before arbitrary: l)
    case Nil
    then show ?case by (auto simp: list_all_iff)
  next
    case (Cons e before)
    from Cons.prems have "ordered_log (before @ ResetDone c # after)" by (cases e) auto
    with Cons.IH Cons.prems(3) show ?case by blast
  qed
  ultimately show ?thesis using inv(2) by blast
qed

text \<open>A device with one target: a write, a commit, then the task takes the data and resets.\<close>

definition example_dfu :: Dfu where
  "example_dfu = \<lparr>dfu_known = Some [(''flash'', \<lparr>di_interface = 0, di_alt = 0\<rparr>)],
     dfu_targets = [\<lparr>target_name = ''flash'', readable = False, writable = True, seekable = False,
       target_size = None, blocksize = None\<rparr>]\<rparr>"

lemma dfu_downloads_in_order_witness:
  "\<exists>t. dfu_reachable example_dfu t \<and>
     dt_log t = [Wrote 0 [1, 2], Took 0 [1, 2], ResetDone 1] \<and>
     (\<exists>lost. wrote 0 (dt_log t) = took 0 (dt_log t) @ lost)"
proof -
  obtain info t1 where o1: "dfu_open example_dfu ''flash'' None dfu_task_new = (Ok (info, 0), t1)"
    and t1: "t1 = dfu_task_new\<lparr>dt_queue := [Download 0 ''flash'' 0], dt_open := [0], dt_next := 1\<rparr>"
    by (simp add: dfu_open_def example_dfu_def dfu_task_new_def Let_def)
  let ?t2 = "snd (dfu_write 0 [1, 2] 0 t1)" let ?t3 = "snd (dfu_commit ?t2)"
  let ?t4 = "?t3\<lparr>dt_queue := [Reset 1], dt_busy := Some 0\<rparr>"
  let ?t5 = "?t4\<lparr>dt_chan := (dt_chan ?t4)(0 := []), dt_log := dt_log ?t4 @ [Took 0 [1, 2]]\<rparr>"
  let ?t6 = "?t5\<lparr>dt_busy := None, dt_chan := (dt_chan ?t5)(0 := [])\<rparr>"
  let ?t7 = "?t6\<lparr>dt_queue := [], dt_log := dt_log ?t6 @ [ResetDone 1]\<rparr>"
  note defs = t1 dfu_task_new_def dfu_write_def dfu_commit_def receiving_def
  have "dfu_reachable example_dfu t1"
    using dfu_reachable.step [OF dfu_reachable.initial dfu_step.opens [OF o1]] .
  then have "dfu_reachable example_dfu ?t2"
    by (rule dfu_reachable.step) (rule dfu_step.writes [of 0 _ "[1, 2]" 0 "fst (dfu_write 0 [1, 2] 0 t1)"], simp_all add: defs)
  then have "dfu_reachable example_dfu ?t3"
    by (rule dfu_reachable.step) (rule dfu_step.commits [of _ "fst (dfu_commit ?t2)"], simp)
  then have "dfu_reachable example_dfu ?t4"
    by (rule dfu_reachable.step) (rule dfu_step.starts [of _ 0 "''flash''" 0 _ _ "[(''flash'', \<lparr>di_interface = 0, di_alt = 0\<rparr>)]"
        "\<lparr>di_interface = 0, di_alt = 0\<rparr>"], simp_all add: defs example_dfu_def)
  then have "dfu_reachable example_dfu ?t5"
    by (rule dfu_reachable.step) (rule dfu_step.takes, simp_all add: defs)
  then have "dfu_reachable example_dfu ?t6"
    by (rule dfu_reachable.step) (rule dfu_step.finishes, simp)
  then have r7: "dfu_reachable example_dfu ?t7"
    by (rule dfu_reachable.step) (rule dfu_step.resets, simp_all add: defs)
  from dfu_downloads_in_order [OF r7, of 0] r7 show ?thesis by (intro exI [of _ ?t7]) (simp add: defs)
qed

text \<open>
  A write is always answered as done, also when the device is not known or the download has
  failed or ended: then it is dropped. Its offset is ignored.
\<close>

lemma dfu_write_always_ok:
  "fst (dfu_write n data offset t) = Some (Ok (of_nat (length data)))"
  "\<not> receiving n t \<Longrightarrow> dt_chan (snd (dfu_write n data offset t)) = dt_chan t"
  "dfu_write n data offset t = dfu_write n data 0 t"
  by (simp_all add: dfu_write_def)

text \<open>The length of a download is taken modulo \<open>2 ^ 32\<close>.\<close>

lemma dfu_length_cut:
  assumes "dfu_open dfu target (Some 0x100000001) t = (Ok (info, n), t')"
  shows "last (dt_queue t') = Download n target 1"
  using assms by (auto simp: dfu_open_def Let_def split: option.splits)

text \<open>A device without a model is named by its number twice, not by its bus and number.\<close>

lemma dfu_name_without_model:
  assumes "dfu_admit devnode device = Some ((busnum, devnum), name)"
    and "udev_property device ''ID_MODEL'' = None"
  shows "name = show_nat (unat devnum) @ ''/'' @ show_nat (unat devnum)"
  using assms by (auto simp: dfu_admit_def split: option.splits if_splits)

text \<open>The event loop owns its volumes, as that of the Rockchip provider does.\<close>

lemma dfu_volumes_follow_devices:
  assumes "run_steps (\<lambda>ev st. Done (dfu_event lib volume_of devnode nm ev st)) evs ([], s, w) = Done (m, s', w')"
    and "no_overlap [] (List.map_filter announced_path evs)"
    and "registry_inv (volumes s)" and "length (added_ids (monitor (volumes s'))) < 2 ^ 64"
  shows "set (registry_ids (volumes s')) = set (registry_ids (volumes s)) \<union> snd ` set m \<and>
    set (registry_ids (volumes s)) \<inter> snd ` set m = {} \<and> distinct (map snd m)"
  using dfu_volumes.run_owns [OF assms(1,2)] assms(3,4)
  by (simp add: dfu_volumes.live_def dfu_volumes.mine_def dfu_volumes.adds_def live_ids)

end
