(* ===== verification/Boardswarm_Provider.thy ===== *)
theory Boardswarm_Provider
  imports Server Tracked
begin

section \<open>The remote boardswarm provider (boardswarm/src/boardswarm_provider/)\<close>

text \<open>
  A provider mirrors the items of another boardswarm server: it follows the four monitor
  streams of the remote and registers a proxy for every item, keeping a map from remote to
  local identifiers. The client library's calls are the record \<open>Remote\<close> over the world
  \<open>'w\<close> outside; the shared cells of the provider (its maps, the state behind the
  \<^verbatim>\<open>Arc\<close>s of its devices and consoles) are the record \<open>bs_world\<close>, over which the proxies
  are trait objects. The lemmas: a connection that breaks takes its items away again, what
  goes wrong when an item is announced twice, the mirrored view of a device follows the
  provider's maps, and a proxied mode change reports what the remote device reported.
\<close>

subsection \<open>The calls of the client library\<close>

text \<open>
  \<^verbatim>\<open>VolumeIo\<close> as the proxies use it: what the future of a request eventually yields, and
  \<open>None\<close> for \<^verbatim>\<open>VolumeIoNoMoreRequests\<close>.
\<close>

record 'w VolumeIo =
  io_read :: "u64 \<Rightarrow> u64 \<Rightarrow> 'w \<Rightarrow> (status, bytes) result option \<times> 'w"
  io_write :: "bytes \<Rightarrow> u64 \<Rightarrow> 'w \<Rightarrow> (status, u64) result option \<times> 'w"
  io_flush :: "'w \<Rightarrow> (status, unit) result option \<times> 'w"
  io_shutdown :: "'w \<Rightarrow> (status, unit) result option \<times> 'w"

text \<open>
  Parameters are of type \<open>'q\<close>; \<open>rem_parameters\<close> is \<^verbatim>\<open>Parameters::deserialize\<close> on what a caller
  passes.
\<close>

record ('p, 'q, 'w) Remote =
  rem_properties :: "ItemType \<Rightarrow> u64 \<Rightarrow> 'w \<Rightarrow> (status, (string \<times> string) list) result \<times> 'w"
  rem_device_info :: "u64 \<Rightarrow> 'w \<Rightarrow> (status, (status, ProtoDevice) result option) result \<times> 'w"
  rem_device_change_mode :: "u64 \<Rightarrow> string \<Rightarrow> 'w \<Rightarrow> (status, unit) result \<times> 'w"
  rem_actuator_change_mode :: "u64 \<Rightarrow> 'q \<Rightarrow> 'w \<Rightarrow> (status, unit) result \<times> 'w"
  rem_console_configure :: "u64 \<Rightarrow> 'q \<Rightarrow> 'w \<Rightarrow> (status, unit) result \<times> 'w"
  rem_console_input :: "u64 \<Rightarrow> 'w \<Rightarrow> (bytes \<Rightarrow> 'w \<Rightarrow> 'w) \<times> 'w"
  rem_console_output :: "u64 \<Rightarrow> 'w \<Rightarrow> (status, bytes list) result \<times> 'w"
  rem_volume_info :: "u64 \<Rightarrow> 'w \<Rightarrow> (status, VolumeTargetInfo list \<times> bool) result \<times> 'w"
  rem_volume_io :: "u64 \<Rightarrow> string \<Rightarrow> u64 option \<Rightarrow> 'w \<Rightarrow>
    (status, VolumeTargetInfo \<times> 'w VolumeIo) result \<times> 'w"
  rem_volume_commit :: "u64 \<Rightarrow> 'w \<Rightarrow> (status, unit) result \<times> 'w"
  rem_volume_erase :: "u64 \<Rightarrow> string \<Rightarrow> 'w \<Rightarrow> (status, unit) result \<times> 'w"
  rem_show_status :: "status \<Rightarrow> string"
  rem_parameters :: "'p \<Rightarrow> 'q option"

subsection \<open>The provider and its cells\<close>

text \<open>Remote to local identifiers; \<open>pv_notified\<close> counts the messages of \<^verbatim>\<open>notifier\<close>.\<close>

record Provider =
  pv_actuators :: "(u64 \<times> ActuatorId) list"
  pv_consoles :: "(u64 \<times> ConsoleId) list"
  pv_devices :: "(u64 \<times> DeviceId) list"
  pv_volumes :: "(u64 \<times> VolumeId) list"
  pv_notified :: nat

definition provider_new :: Provider where
  "provider_new = \<lparr>pv_actuators = [], pv_consoles = [], pv_devices = [], pv_volumes = [], pv_notified = 0\<rparr>"

definition console_id :: "Provider \<Rightarrow> u64 \<Rightarrow> ConsoleId option" where
  "console_id pv remote = map_of (pv_consoles pv) remote"

definition actuator_id :: "Provider \<Rightarrow> u64 \<Rightarrow> ActuatorId option" where
  "actuator_id pv remote = map_of (pv_actuators pv) remote"

definition volume_id :: "Provider \<Rightarrow> u64 \<Rightarrow> VolumeId option" where
  "volume_id pv remote = map_of (pv_volumes pv) remote"

definition notify_all :: "Provider \<Rightarrow> Provider" where
  "notify_all pv = pv\<lparr>pv_notified := Suc (pv_notified pv)\<rparr>"

record DeviceInner =
  di_console_mapping :: "(u64 \<times> ConsoleId) list"
  di_volume_mapping :: "(u64 \<times> VolumeId) list"
  di_info :: ProtoDevice

text \<open>
  The cells: of each device its inner state and the messages its notifier sent, of each console
  its parameters. \<open>bw_panicked\<close> tells that a task of the provider or a method of a
  proxy panicked.
\<close>

record ('q, 'w) bs_world =
  bw_provider :: Provider
  bw_devices :: "(DeviceInner \<times> nat) list"
  bw_consoles :: "'q option list"
  bw_panicked :: bool
  bw_net :: 'w

definition on_net :: "('w \<Rightarrow> 'a \<times> 'w) \<Rightarrow> ('q, 'w) bs_world \<Rightarrow> 'a \<times> ('q, 'w) bs_world" where
  "on_net f w = (case f (bw_net w) of (a, n) \<Rightarrow> (a, w\<lparr>bw_net := n\<rparr>))"

text \<open>A method that panics does not return; the flag records it.\<close>

definition unwound ::
  "'e \<Rightarrow> ('e, 'a) result outcome \<times> ('q, 'w) bs_world \<Rightarrow> ('e, 'a) result \<times> ('q, 'w) bs_world" where
  "unwound e r =
     (case r of (Done x, w) \<Rightarrow> (x, w) | (Panicked, w) \<Rightarrow> (Err e, w\<lparr>bw_panicked := True\<rparr>))"

subsection \<open>device.rs\<close>

definition map_consoles :: "Provider \<Rightarrow> ProtoConsole list \<Rightarrow> (u64 \<times> ConsoleId) list" where
  "map_consoles pv cs =
     fold (\<lambda>c m. case pcon_id c of
         None \<Rightarrow> m
       | Some remote \<Rightarrow>
           (case console_id pv remote of None \<Rightarrow> m | Some local \<Rightarrow> AList.update remote local m)) cs []"

definition map_volumes :: "Provider \<Rightarrow> ProtoVolume list \<Rightarrow> (u64 \<times> VolumeId) list" where
  "map_volumes pv vs =
     fold (\<lambda>v m. case pvol_id v of
         None \<Rightarrow> m
       | Some remote \<Rightarrow>
           (case volume_id pv remote of None \<Rightarrow> m | Some local \<Rightarrow> AList.update remote local m)) vs []"

definition update_mappings :: "Provider \<Rightarrow> DeviceInner \<Rightarrow> DeviceInner" where
  "update_mappings pv d =
     d\<lparr>di_console_mapping := map_consoles pv (pdev_consoles (di_info d)),
       di_volume_mapping := map_volumes pv (pdev_volumes (di_info d))\<rparr>"

definition inner_new :: "Provider \<Rightarrow> ProtoDevice \<Rightarrow> DeviceInner" where
  "inner_new pv info =
     update_mappings pv \<lparr>di_console_mapping = [], di_volume_mapping = [], di_info = info\<rparr>"

definition provider_sync :: "Provider \<Rightarrow> DeviceInner \<Rightarrow> bool \<times> DeviceInner" where
  "provider_sync pv d =
     (let changed =
        list_ex (\<lambda>remote. console_id pv remote \<noteq> map_of (di_console_mapping d) remote)
          (List.map_filter pcon_id (pdev_consoles (di_info d))) \<or>
        list_ex (\<lambda>remote. volume_id pv remote \<noteq> map_of (di_volume_mapping d) remote)
          (List.map_filter pvol_id (pdev_volumes (di_info d)))
      in (changed, if changed then update_mappings pv d else d))"

definition inner_update :: "Provider \<Rightarrow> ProtoDevice \<Rightarrow> DeviceInner \<Rightarrow> DeviceInner" where
  "inner_update pv info d = update_mappings pv (d\<lparr>di_info := info\<rparr>)"

text \<open>
  \<^verbatim>\<open>monitor_device\<close>: one turn of its loop, on an item of the remote's stream (\<open>None\<close> is its
  end) or on anything the watch of the provider yields. The flag is whether the loop goes on.
\<close>

datatype device_turn = DeviceUpdate "(status, ProtoDevice) result option" | ProviderChanged

definition monitor_device_turn ::
  "Provider \<Rightarrow> device_turn \<Rightarrow> DeviceInner \<times> nat \<Rightarrow> bool \<times> DeviceInner \<times> nat" where
  "monitor_device_turn pv turn cell =
     (case cell of (d, notified) \<Rightarrow>
       (case turn of
          DeviceUpdate (Some (Ok info)) \<Rightarrow> (True, inner_update pv info d, Suc notified)
        | DeviceUpdate _ \<Rightarrow> (False, d, notified)
        | ProviderChanged \<Rightarrow>
            (case provider_sync pv d of
               (changed, d1) \<Rightarrow> (True, d1, if changed then Suc notified else notified))))"

definition monitor_device ::
  "nat \<Rightarrow> device_turn \<Rightarrow> ('q, 'w) bs_world \<Rightarrow> bool \<times> ('q, 'w) bs_world" where
  "monitor_device cell turn w =
     (case monitor_device_turn (bw_provider w) turn (bw_devices w ! cell) of
        (go, c) \<Rightarrow> (go, w\<lparr>bw_devices := (bw_devices w)[cell := c]\<rparr>))"

definition set_mode_error :: "status \<Rightarrow> DeviceSetModeError" where
  "set_mode_error e =
     (case status_code e of
        NotFound \<Rightarrow> ModeNotFound
      | FailedPrecondition \<Rightarrow> WrongCurrentMode
      | Aborted \<Rightarrow> ActuatorFailed ActuatorError
      | _ \<Rightarrow> ActuatorFailed ActuatorError)"

definition inner_consoles :: "DeviceInner \<Rightarrow> DeviceConsole list" where
  "inner_consoles d =
     map (\<lambda>c. \<lparr>dcon_name = pcon_name c,
               dcon_id = Option.bind (pcon_id c) (map_of (di_console_mapping d))\<rparr>)
       (pdev_consoles (di_info d))"

definition inner_volumes :: "DeviceInner \<Rightarrow> DeviceVolume list" where
  "inner_volumes d =
     map (\<lambda>v. \<lparr>dvol_name = pvol_name v,
               dvol_id = Option.bind (pvol_id v) (map_of (di_volume_mapping d))\<rparr>)
       (pdev_volumes (di_info d))"

definition inner_modes :: "DeviceInner \<Rightarrow> DeviceMode list" where
  "inner_modes d =
     map (\<lambda>m. \<lparr>dmode_name = pmode_name m, dmode_depends = pmode_depends m,
               dmode_available = pmode_available m\<rparr>) (pdev_modes (di_info d))"

definition bs_device :: "('p, 'q, 'w) Remote \<Rightarrow> u64 \<Rightarrow> nat \<Rightarrow> ('q, 'w) bs_world Device" where
  "bs_device remote n cell =
     \<lparr>dev_set_mode = (\<lambda>mode w. case on_net (rem_device_change_mode remote n mode) w of
        (r, w1) \<Rightarrow> (map_err set_mode_error r, w1)),
      dev_consoles = (\<lambda>w. inner_consoles (fst (bw_devices w ! cell))),
      dev_volumes = (\<lambda>w. inner_volumes (fst (bw_devices w ! cell))),
      dev_modes = (\<lambda>w. inner_modes (fst (bw_devices w ! cell))),
      dev_current_mode = (\<lambda>w. pdev_current_mode (di_info (fst (bw_devices w ! cell))))\<rparr>"

text \<open>\<^verbatim>\<open>BoardswarmDevice::new\<close>: a new cell, unless the first state does not arrive.\<close>

definition bs_device_new ::
  "('p, 'q, 'w) Remote \<Rightarrow> u64 \<Rightarrow> ('q, 'w) bs_world \<Rightarrow>
   (status, ('q, 'w) bs_world Device) result \<times> ('q, 'w) bs_world" where
  "bs_device_new remote n w =
     (case on_net (rem_device_info remote n) w of
        (Err e, w1) \<Rightarrow> (Err e, w1)
      | (Ok (Some (Err e)), w1) \<Rightarrow> (Err e, w1)
      | (Ok None, w1) \<Rightarrow> (Err (Status Unavailable ''Device not available''), w1)
      | (Ok (Some (Ok info)), w1) \<Rightarrow>
          (Ok (bs_device remote n (length (bw_devices w1))),
           w1\<lparr>bw_devices := bw_devices w1 @ [(inner_new (bw_provider w1) info, 0)]\<rparr>))"

subsection \<open>console.rs and actuator.rs\<close>

text \<open>\<^verbatim>\<open>input\<close> and \<^verbatim>\<open>output\<close> configure the remote first, if there are parameters.\<close>

definition bs_configured ::
  "('p, 'q, 'w) Remote \<Rightarrow> u64 \<Rightarrow> nat \<Rightarrow> ('q, 'w) bs_world \<Rightarrow> unit outcome \<times> ('q, 'w) bs_world" where
  "bs_configured remote n cell w =
     (case bw_consoles w ! cell of
        None \<Rightarrow> (Done (), w)
      | Some p \<Rightarrow>
          (case on_net (rem_console_configure remote n p) w of
             (Ok _, w1) \<Rightarrow> (Done (), w1) | (Err e, w1) \<Rightarrow> (Panicked, w1)))"

definition bs_console_configure ::
  "('p, 'q, 'w) Remote \<Rightarrow> nat \<Rightarrow> 'p \<Rightarrow> ('q, 'w) bs_world \<Rightarrow>
   (ConsoleError, unit) result outcome \<times> ('q, 'w) bs_world" where
  "bs_console_configure remote cell params w =
     (case rem_parameters remote params of
        None \<Rightarrow> (Panicked, w)
      | Some p \<Rightarrow> (Done (Ok ()), w\<lparr>bw_consoles := (bw_consoles w)[cell := Some p]\<rparr>))"

definition bs_console_input ::
  "('p, 'q, 'w) Remote \<Rightarrow> u64 \<Rightarrow> nat \<Rightarrow> ('q, 'w) bs_world \<Rightarrow>
   (ConsoleError, ('q, 'w) bs_world console_sink) result outcome \<times> ('q, 'w) bs_world" where
  "bs_console_input remote n cell w =
     (case bs_configured remote n cell w of
        (Panicked, w1) \<Rightarrow> (Panicked, w1)
      | (Done _, w1) \<Rightarrow>
          (case on_net (rem_console_input remote n) w1 of
             (send, w2) \<Rightarrow> (Done (Ok (\<lambda>b. on_net (\<lambda>v. (Ok (), send b v)))), w2)))"

definition bs_console_output ::
  "('p, 'q, 'w) Remote \<Rightarrow> u64 \<Rightarrow> nat \<Rightarrow> ('q, 'w) bs_world \<Rightarrow>
   (ConsoleError, (ConsoleError, bytes) result list) result outcome \<times> ('q, 'w) bs_world" where
  "bs_console_output remote n cell w =
     (case bs_configured remote n cell w of
        (Panicked, w1) \<Rightarrow> (Panicked, w1)
      | (Done _, w1) \<Rightarrow>
          (case on_net (rem_console_output remote n) w1 of
             (Err e, w2) \<Rightarrow> (Panicked, w2)
           | (Ok items, w2) \<Rightarrow> (Done (Ok (map Ok items)), w2)))"

definition bs_console :: "('p, 'q, 'w) Remote \<Rightarrow> u64 \<Rightarrow> nat \<Rightarrow> ('p, ('q, 'w) bs_world) Console" where
  "bs_console remote n cell =
     \<lparr>con_configure = (\<lambda>p w. unwound ConsoleClosed (bs_console_configure remote cell p w)),
      con_input = (\<lambda>w. unwound ConsoleClosed (bs_console_input remote n cell w)),
      con_output = (\<lambda>w. unwound ConsoleClosed (bs_console_output remote n cell w))\<rparr>"

definition bs_actuator_set_mode ::
  "('p, 'q, 'w) Remote \<Rightarrow> u64 \<Rightarrow> 'p \<Rightarrow> ('q, 'w) bs_world \<Rightarrow>
   (ActuatorError, unit) result outcome \<times> ('q, 'w) bs_world" where
  "bs_actuator_set_mode remote n params w =
     (case rem_parameters remote params of
        None \<Rightarrow> (Panicked, w)
      | Some p \<Rightarrow>
          (case on_net (rem_actuator_change_mode remote n p) w of
             (Ok _, w1) \<Rightarrow> (Done (Ok ()), w1) | (Err e, w1) \<Rightarrow> (Panicked, w1)))"

definition bs_actuator :: "('p, 'q, 'w) Remote \<Rightarrow> u64 \<Rightarrow> ('p, ('q, 'w) bs_world) Actuator" where
  "bs_actuator remote n =
     \<lparr>act_set_mode = (\<lambda>p w. unwound ActuatorError (bs_actuator_set_mode remote n p w))\<rparr>"

subsection \<open>volume.rs\<close>

definition bs_volume_error :: "('p, 'q, 'w) Remote \<Rightarrow> status \<Rightarrow> VolumeError" where
  "bs_volume_error remote e =
     (case status_code e of
        NotFound \<Rightarrow> UnknownTargetRequested
      | Aborted \<Rightarrow> VolumeFailure (rem_show_status remote e)
      | Internal \<Rightarrow> VolumeInternal (rem_show_status remote e)
      | _ \<Rightarrow> VolumeInternal (rem_show_status remote e))"

text \<open>What the completion of a request is completed with.\<close>

definition io_completion ::
  "(status, 'a) result option \<times> ('q, 'w) bs_world \<Rightarrow> (status, 'a) result option \<times> ('q, 'w) bs_world" where
  "io_completion r =
     (case r of
        (Some x, w) \<Rightarrow> (Some x, w)
      | (None, w) \<Rightarrow>
          (Some (Err (Status Unavailable ''Target no longer available: No more requests can be send'')), w))"

definition bs_volume_target :: "'w VolumeIo \<Rightarrow> ('q, 'w) bs_world VolumeTarget" where
  "bs_volume_target io =
     \<lparr>vt_read = (\<lambda>len offset w. io_completion (on_net (io_read io len offset) w)),
      vt_write = (\<lambda>data offset w. io_completion (on_net (io_write io data offset) w)),
      vt_flush = (\<lambda>w. io_completion (on_net (io_flush io) w)),
      vt_shutdown = (\<lambda>w. io_completion (on_net (io_shutdown io) w))\<rparr>"

definition bs_volume ::
  "('p, 'q, 'w) Remote \<Rightarrow> u64 \<Rightarrow> VolumeTargetInfo list \<times> bool \<Rightarrow> ('q, 'w) bs_world Volume" where
  "bs_volume remote n info =
     \<lparr>vol_targets = (\<lambda>w. info),
      vol_open = (\<lambda>target len w. case on_net (rem_volume_io remote n target len) w of
         (Err e, w1) \<Rightarrow> (Err (VolumeInternal (rem_show_status remote e)), w1)
       | (Ok (i, io), w1) \<Rightarrow> (Ok (i, bs_volume_target io), w1)),
      vol_commit = (\<lambda>w. case on_net (rem_volume_commit remote n) w of
         (r, w1) \<Rightarrow> (map_err (bs_volume_error remote) r, w1)),
      vol_erase = (\<lambda>target w. case on_net (rem_volume_erase remote n target) w of
         (r, w1) \<Rightarrow> (map_err (bs_volume_error remote) r, w1))\<rparr>"

definition bs_volume_new ::
  "('p, 'q, 'w) Remote \<Rightarrow> u64 \<Rightarrow> ('q, 'w) bs_world \<Rightarrow>
   (status, ('q, 'w) bs_world Volume) result \<times> ('q, 'w) bs_world" where
  "bs_volume_new remote n w =
     (case on_net (rem_volume_info remote n) w of
        (Err e, w1) \<Rightarrow> (Err e, w1) | (Ok info, w1) \<Rightarrow> (Ok (bs_volume remote n info), w1))"

subsection \<open>mod.rs: adding and removing items\<close>

type_synonym ('p, 'q, 'w) bs_server = "('p, ('q, 'w) bs_world) Server"
type_synonym ('p, 'q, 'w) bs_state = "('p, 'q, 'w) bs_server \<times> ('q, 'w) bs_world"

definition set_provider :: "(Provider \<Rightarrow> Provider) \<Rightarrow> ('q, 'w) bs_world \<Rightarrow> ('q, 'w) bs_world" where
  "set_provider f w = w\<lparr>bw_provider := f (bw_provider w)\<rparr>"

definition add_console ::
  "('p, 'q, 'w) Remote \<Rightarrow> Properties \<Rightarrow> u64 \<Rightarrow> ('p, 'q, 'w) bs_state \<Rightarrow> ('p, 'q, 'w) bs_state" where
  "add_console remote props n st =
     (case st of (s, w) \<Rightarrow>
        (let cell = length (bw_consoles w);
             (i, s1) = register_console props (bs_console remote n cell) s
         in (s1, set_provider (\<lambda>pv. pv\<lparr>pv_consoles := AList.update n i (pv_consoles pv)\<rparr>)
                   (w\<lparr>bw_consoles := bw_consoles w @ [None]\<rparr>))))"

definition add_actuator ::
  "('p, 'q, 'w) Remote \<Rightarrow> Properties \<Rightarrow> u64 \<Rightarrow> ('p, 'q, 'w) bs_state \<Rightarrow> ('p, 'q, 'w) bs_state" where
  "add_actuator remote props n st =
     (case st of (s, w) \<Rightarrow>
        (let (i, s1) = register_actuator props (bs_actuator remote n) s
         in (s1, set_provider (\<lambda>pv. pv\<lparr>pv_actuators := AList.update n i (pv_actuators pv)\<rparr>) w)))"

definition add_device ::
  "('p, 'q, 'w) Remote \<Rightarrow> Properties \<Rightarrow> u64 \<Rightarrow> ('p, 'q, 'w) bs_state \<Rightarrow> ('p, 'q, 'w) bs_state" where
  "add_device remote props n st =
     (case st of (s, w) \<Rightarrow>
        (case bs_device_new remote n w of
           (Err e, w1) \<Rightarrow> (s, w1)
         | (Ok d, w1) \<Rightarrow>
             (let (i, s1) = register_device props d s
              in (s1, set_provider (\<lambda>pv. pv\<lparr>pv_devices := AList.update n i (pv_devices pv)\<rparr>) w1))))"

definition add_volume ::
  "('p, 'q, 'w) Remote \<Rightarrow> Properties \<Rightarrow> u64 \<Rightarrow> ('p, 'q, 'w) bs_state \<Rightarrow> ('p, 'q, 'w) bs_state" where
  "add_volume remote props n st =
     (case st of (s, w) \<Rightarrow>
        (case bs_volume_new remote n w of
           (Err e, w1) \<Rightarrow> (s, w1)
         | (Ok v, w1) \<Rightarrow>
             (let (i, s1) = register_volume props v s
              in (s1, set_provider (\<lambda>pv. pv\<lparr>pv_volumes := AList.update n i (pv_volumes pv)\<rparr>) w1))))"

definition provider_add_item ::
  "('p, 'q, 'w) Remote \<Rightarrow> string \<Rightarrow> ItemType \<Rightarrow> u64 \<Rightarrow> ('p, 'q, 'w) bs_state \<Rightarrow>
   ('p, 'q, 'w) bs_state outcome" where
  "provider_add_item remote inst t n st =
     (case st of (s, w) \<Rightarrow>
        (case on_net (rem_properties remote t n) w of
           (Err e, w1) \<Rightarrow> Panicked
         | (Ok props, w1) \<Rightarrow>
             (let p = properties_insert (properties_from props) INSTANCE inst;
                  (s2, w2) = (case t of
                      ItemConsole \<Rightarrow> add_console remote p n (s, w1)
                    | ItemActuator \<Rightarrow> add_actuator remote p n (s, w1)
                    | ItemDevice \<Rightarrow> add_device remote p n (s, w1)
                    | ItemVolume \<Rightarrow> add_volume remote p n (s, w1))
              in Done (s2, set_provider notify_all w2))))"

text \<open>\<^verbatim>\<open>HashMap::remove\<close> and the unregistration of what it returned.\<close>

definition forget_item :: "ItemType \<Rightarrow> u64 \<Rightarrow> ('p, 'q, 'w) bs_state \<Rightarrow> ('p, 'q, 'w) bs_state" where
  "forget_item t n st =
     (case st of (s, w) \<Rightarrow>
        (let pv = bw_provider w in
         (case t of
            ItemConsole \<Rightarrow>
              (case map_of (pv_consoles pv) n of Some i \<Rightarrow> unregister_console i s | None \<Rightarrow> s)
          | ItemActuator \<Rightarrow>
              (case map_of (pv_actuators pv) n of Some i \<Rightarrow> unregister_actuator i s | None \<Rightarrow> s)
          | ItemDevice \<Rightarrow>
              (case map_of (pv_devices pv) n of Some i \<Rightarrow> unregister_device i s | None \<Rightarrow> s)
          | ItemVolume \<Rightarrow>
              (case map_of (pv_volumes pv) n of Some i \<Rightarrow> unregister_volume i s | None \<Rightarrow> s),
          set_provider (\<lambda>pv. (case t of
            ItemConsole \<Rightarrow> pv\<lparr>pv_consoles := AList.delete n (pv_consoles pv)\<rparr>
          | ItemActuator \<Rightarrow> pv\<lparr>pv_actuators := AList.delete n (pv_actuators pv)\<rparr>
          | ItemDevice \<Rightarrow> pv\<lparr>pv_devices := AList.delete n (pv_devices pv)\<rparr>
          | ItemVolume \<Rightarrow> pv\<lparr>pv_volumes := AList.delete n (pv_volumes pv)\<rparr>)) w)))"

definition provider_remove_item :: "ItemType \<Rightarrow> u64 \<Rightarrow> ('p, 'q, 'w) bs_state \<Rightarrow> ('p, 'q, 'w) bs_state" where
  "provider_remove_item t n st = (case forget_item t n st of (s, w) \<Rightarrow> (s, set_provider notify_all w))"

text \<open>The end of \<^verbatim>\<open>monitor_items\<close>: the connection broke.\<close>

definition drain_items :: "ItemType \<Rightarrow> ('p, 'q, 'w) bs_state \<Rightarrow> ('p, 'q, 'w) bs_state" where
  "drain_items t st =
     (case st of (s, w) \<Rightarrow>
        (let pv = bw_provider w in
         (case t of
            ItemConsole \<Rightarrow> fold (\<lambda>(_, i). unregister_console i) (pv_consoles pv) s
          | ItemActuator \<Rightarrow> fold (\<lambda>(_, i). unregister_actuator i) (pv_actuators pv) s
          | ItemDevice \<Rightarrow> fold (\<lambda>(_, i). unregister_device i) (pv_devices pv) s
          | ItemVolume \<Rightarrow> fold (\<lambda>(_, i). unregister_volume i) (pv_volumes pv) s,
          set_provider (\<lambda>pv. (case t of
            ItemConsole \<Rightarrow> pv\<lparr>pv_consoles := []\<rparr>
          | ItemActuator \<Rightarrow> pv\<lparr>pv_actuators := []\<rparr>
          | ItemDevice \<Rightarrow> pv\<lparr>pv_devices := []\<rparr>
          | ItemVolume \<Rightarrow> pv\<lparr>pv_volumes := []\<rparr>)) w)))"

subsection \<open>mod.rs: a connection\<close>

text \<open>
  The four \<^verbatim>\<open>monitor_items\<close> of a connection run interleaved at their \<^verbatim>\<open>await\<close>s. A step is
  one item added (its registration and bookkeeping come after the last \<^verbatim>\<open>await\<close> of
  \<^verbatim>\<open>add_item\<close>), one removed, the end of one of the four, or the \<^verbatim>\<open>unwrap\<close> of a monitor call
  that failed, and \<open>monitor_items\<close> is what one type does with the answer to its call.
\<close>

datatype conn_step =
  AddStep ItemType u64 | RemoveStep ItemType u64 | EndStep ItemType | PanicStep ItemType

fun step_type :: "conn_step \<Rightarrow> ItemType" where
  "step_type (AddStep t n) = t" | "step_type (RemoveStep t n) = t" | "step_type (EndStep t) = t"
| "step_type (PanicStep t) = t"

fun event_steps :: "ItemType \<Rightarrow> ItemEvent \<Rightarrow> conn_step list" where
  "event_steps t (EventAdd items) = map (\<lambda>i. AddStep t (pi_id i)) items"
| "event_steps t (EventRemove n) = [RemoveStep t n]"

fun monitor_steps :: "ItemType \<Rightarrow> (status, ItemEvent) result list \<Rightarrow> conn_step list" where
  "monitor_steps t [] = [EndStep t]"
| "monitor_steps t (Err e # events) = [EndStep t]"
| "monitor_steps t (Ok event # events) = event_steps t event @ monitor_steps t events"

definition provider_monitor_items ::
  "ItemType \<Rightarrow> (status, (status, ItemEvent) result list) result \<Rightarrow> conn_step list" where
  "provider_monitor_items t r = (case r of Err e \<Rightarrow> [PanicStep t] | Ok events \<Rightarrow> monitor_steps t events)"

fun connection_step ::
  "('p, 'q, 'w) Remote \<Rightarrow> string \<Rightarrow> conn_step \<Rightarrow> ('p, 'q, 'w) bs_state \<Rightarrow> ('p, 'q, 'w) bs_state outcome" where
  "connection_step remote inst (AddStep t n) st = provider_add_item remote inst t n st"
| "connection_step remote inst (RemoveStep t n) st = Done (provider_remove_item t n st)"
| "connection_step remote inst (EndStep t) st = Done (drain_items t st)"
| "connection_step remote inst (PanicStep t) st = Panicked"

definition conn_run ::
  "('p, 'q, 'w) Remote \<Rightarrow> string \<Rightarrow> conn_step list \<Rightarrow> ('p, 'q, 'w) bs_state \<Rightarrow>
   ('p, 'q, 'w) bs_state outcome" where
  "conn_run remote inst = run_steps (connection_step remote inst)"

text \<open>
  The loop of \<^verbatim>\<open>start_provider\<close>, over its attempts to connect: \<open>None\<close> is a failed attempt,
  and a panic ends the task.
\<close>

fun provider_loop ::
  "string \<Rightarrow> (('p, 'q, 'w) Remote \<times> conn_step list) option list \<Rightarrow> ('p, 'q, 'w) bs_state \<Rightarrow>
   ('p, 'q, 'w) bs_state outcome" where
  "provider_loop name [] st = Done st"
| "provider_loop name (None # tries) st = provider_loop name tries st"
| "provider_loop name (Some (remote, steps) # tries) st =
     (case conn_run remote name steps st of
        Panicked \<Rightarrow> Panicked | Done st1 \<Rightarrow> provider_loop name tries st1)"


subsection \<open>What a step announces\<close>

definition announced :: "ItemType \<Rightarrow> conn_step \<Rightarrow> u64 track option" where
  "announced t x =
     (case x of
        AddStep t' n \<Rightarrow> if t' = t then Some (TAdd n) else None
      | RemoveStep t' n \<Rightarrow> if t' = t then Some (TRemove n) else None
      | EndStep t' \<Rightarrow> if t' = t then Some TEnd else None
      | PanicStep t' \<Rightarrow> None)"

lemma announced_iff:
  "announced t x = Some (TAdd n) \<longleftrightarrow> x = AddStep t n"
  "announced t x = Some (TRemove n) \<longleftrightarrow> x = RemoveStep t n"
  "announced t x = Some TEnd \<longleftrightarrow> x = EndStep t"
  by (auto simp: announced_def split: conn_step.splits)

lemma announced_none:
  "announced t x = None \<Longrightarrow> connection_step remote inst x st = Done st' \<Longrightarrow> step_type x \<noteq> t"
  by (cases x) (auto simp: announced_def split: if_splits)

lemma announced_filter:
  "List.map_filter (announced t) (filter (\<lambda>x. step_type x = t) xs) = List.map_filter (announced t) xs"
proof (induction xs)
  case (Cons x xs)
  then show ?case
    by (cases x) (auto simp: List.map_filter_simps announced_def split: option.splits)
qed (simp add: List.map_filter_simps)

lemma monitor_steps_end:
  "\<exists>cs. List.map_filter (announced t) (monitor_steps t evs) = cs @ [TEnd]"
proof (induction t evs rule: monitor_steps.induct)
  case (3 t event events)
  then show ?case by (auto simp: map_filter_def)
qed (simp_all add: List.map_filter_simps announced_def)

subsection \<open>The four types keep the contract\<close>

lemma fold_registry:
  assumes "\<And>i s. f (g i s) = registry_remove i (f s)"
  shows "f (fold (\<lambda>(_, i). g i) m s) = fold registry_remove (map snd m) (f s)"
  by (induction m arbitrary: s) (simp_all add: case_prod_unfold assms)

lemma fold_frame:
  assumes "\<And>i s. f (g i s) = f s"
  shows "f (fold (\<lambda>(_, i). g i) m s) = f s"
  by (induction m arbitrary: s) (simp_all add: case_prod_unfold assms)

lemmas fold_unregister =
  fold_registry [where f = consoles and g = unregister_console]
  fold_registry [where f = actuators and g = unregister_actuator]
  fold_registry [where f = devices and g = unregister_device]
  fold_registry [where f = volumes and g = unregister_volume]
  fold_frame [where f = consoles and g = unregister_actuator]
  fold_frame [where f = consoles and g = unregister_device]
  fold_frame [where f = consoles and g = unregister_volume]
  fold_frame [where f = actuators and g = unregister_console]
  fold_frame [where f = actuators and g = unregister_device]
  fold_frame [where f = actuators and g = unregister_volume]
  fold_frame [where f = devices and g = unregister_console]
  fold_frame [where f = devices and g = unregister_actuator]
  fold_frame [where f = devices and g = unregister_volume]
  fold_frame [where f = volumes and g = unregister_console]
  fold_frame [where f = volumes and g = unregister_actuator]
  fold_frame [where f = volumes and g = unregister_device]

lemma on_net_provider: "on_net f w = (a, w1) \<Longrightarrow> bw_provider w1 = bw_provider w"
  by (auto simp: on_net_def split: prod.splits)

lemma bs_device_new_provider: "bs_device_new remote n w = (r, w1) \<Longrightarrow> bw_provider w1 = bw_provider w"
  by (auto simp: bs_device_new_def split: prod.splits sum.splits option.splits dest: on_net_provider)

lemma bs_volume_new_provider: "bs_volume_new remote n w = (r, w1) \<Longrightarrow> bw_provider w1 = bw_provider w"
  by (auto simp: bs_volume_new_def split: prod.splits sum.splits dest: on_net_provider)

lemma provider_fields [simp]:
  "bw_provider (set_provider f w) = f (bw_provider w)"
  "pv_consoles (notify_all pv) = pv_consoles pv" "pv_actuators (notify_all pv) = pv_actuators pv"
  "pv_devices (notify_all pv) = pv_devices pv" "pv_volumes (notify_all pv) = pv_volumes pv"
  by (simp_all add: set_provider_def notify_all_def)

lemma add_frames:
  "add_console remote p n (s, w) = (s', w') \<Longrightarrow>
     actuators s' = actuators s \<and> devices s' = devices s \<and> volumes s' = volumes s \<and>
     pv_actuators (bw_provider w') = pv_actuators (bw_provider w) \<and>
     pv_devices (bw_provider w') = pv_devices (bw_provider w) \<and>
     pv_volumes (bw_provider w') = pv_volumes (bw_provider w)"
  "add_actuator remote p n (s, w) = (s', w') \<Longrightarrow>
     consoles s' = consoles s \<and> devices s' = devices s \<and> volumes s' = volumes s \<and>
     pv_consoles (bw_provider w') = pv_consoles (bw_provider w) \<and>
     pv_devices (bw_provider w') = pv_devices (bw_provider w) \<and>
     pv_volumes (bw_provider w') = pv_volumes (bw_provider w)"
  "add_device remote p n (s, w) = (s', w') \<Longrightarrow>
     consoles s' = consoles s \<and> actuators s' = actuators s \<and> volumes s' = volumes s \<and>
     pv_consoles (bw_provider w') = pv_consoles (bw_provider w) \<and>
     pv_actuators (bw_provider w') = pv_actuators (bw_provider w) \<and>
     pv_volumes (bw_provider w') = pv_volumes (bw_provider w)"
  "add_volume remote p n (s, w) = (s', w') \<Longrightarrow>
     consoles s' = consoles s \<and> actuators s' = actuators s \<and> devices s' = devices s \<and>
     pv_consoles (bw_provider w') = pv_consoles (bw_provider w) \<and>
     pv_actuators (bw_provider w') = pv_actuators (bw_provider w) \<and>
     pv_devices (bw_provider w') = pv_devices (bw_provider w)"
  by (auto simp: add_console_def add_actuator_def add_device_def add_volume_def Let_def
      register_console_def register_actuator_def register_device_def register_volume_def
      registry_add_def
      dest: bs_device_new_provider bs_volume_new_provider split: prod.splits sum.splits)

text \<open>Adding either does nothing to the registry and the map of its type, or one entry in each.\<close>

lemma add_own:
  "add_console remote p n (s, w) = (s', w') \<Longrightarrow>
     \<exists>i. consoles s' = snd (registry_add p i (consoles s)) \<and>
       pv_consoles (bw_provider w') = AList.update n (next_id (consoles s)) (pv_consoles (bw_provider w))"
  "add_actuator remote p n (s, w) = (s', w') \<Longrightarrow>
     \<exists>i. actuators s' = snd (registry_add p i (actuators s)) \<and>
       pv_actuators (bw_provider w') = AList.update n (next_id (actuators s)) (pv_actuators (bw_provider w))"
  "add_device remote p n (s, w) = (s', w') \<Longrightarrow>
     devices s' = devices s \<and> pv_devices (bw_provider w') = pv_devices (bw_provider w) \<or>
     (\<exists>i. devices s' = snd (registry_add p i (devices s)) \<and>
       pv_devices (bw_provider w') = AList.update n (next_id (devices s)) (pv_devices (bw_provider w)))"
  "add_volume remote p n (s, w) = (s', w') \<Longrightarrow>
     volumes s' = volumes s \<and> pv_volumes (bw_provider w') = pv_volumes (bw_provider w) \<or>
     (\<exists>i. volumes s' = snd (registry_add p i (volumes s)) \<and>
       pv_volumes (bw_provider w') = AList.update n (next_id (volumes s)) (pv_volumes (bw_provider w)))"
  subgoal
    by (rule exI [of _ "bs_console remote n (length (bw_consoles w))"])
      (auto simp: add_console_def Let_def register_console_def registry_add_def)
  subgoal
    by (rule exI [of _ "bs_actuator remote n"])
      (auto simp: add_actuator_def Let_def register_actuator_def registry_add_def)
  subgoal
    by (cases "bs_device_new remote n w"; cases "fst (bs_device_new remote n w)")
      (auto simp: add_device_def Let_def register_device_def registry_add_def
        dest: bs_device_new_provider)
  subgoal
    by (cases "bs_volume_new remote n w"; cases "fst (bs_volume_new remote n w)")
      (auto simp: add_volume_def Let_def register_volume_def registry_add_def
        dest: bs_volume_new_provider)
  done

lemma provider_add_item_done:
  assumes "provider_add_item remote inst t n (s, w) = Done (s', w')"
  obtains props w1 p s2 w2 where "on_net (rem_properties remote t n) w = (Ok props, w1)"
    "p = properties_insert (properties_from props) INSTANCE inst" "bw_provider w1 = bw_provider w"
    "(case t of ItemConsole \<Rightarrow> add_console remote p n (s, w1)
      | ItemActuator \<Rightarrow> add_actuator remote p n (s, w1)
      | ItemDevice \<Rightarrow> add_device remote p n (s, w1)
      | ItemVolume \<Rightarrow> add_volume remote p n (s, w1)) = (s2, w2)"
    "s' = s2" "w' = set_provider notify_all w2"
  using assms
  by (auto simp: provider_add_item_def Let_def split: prod.splits sum.splits dest: on_net_provider)

lemma conn_other:
  assumes "connection_step remote inst x (s, w) = Done (s', w')"
  shows "step_type x \<noteq> ItemConsole \<Longrightarrow>
      consoles s' = consoles s \<and> pv_consoles (bw_provider w') = pv_consoles (bw_provider w)"
    "step_type x \<noteq> ItemActuator \<Longrightarrow>
      actuators s' = actuators s \<and> pv_actuators (bw_provider w') = pv_actuators (bw_provider w)"
    "step_type x \<noteq> ItemDevice \<Longrightarrow>
      devices s' = devices s \<and> pv_devices (bw_provider w') = pv_devices (bw_provider w)"
    "step_type x \<noteq> ItemVolume \<Longrightarrow>
      volumes s' = volumes s \<and> pv_volumes (bw_provider w') = pv_volumes (bw_provider w)"
  using assms
  by (cases x; cases "step_type x"; auto simp: provider_remove_item_def forget_item_def drain_items_def
      Let_def fold_unregister frame_simps elim!: provider_add_item_done dest: add_frames
      split: option.splits)+

lemma conn_add:
  assumes "connection_step remote inst (AddStep t n) (s, w) = Done (s', w')"
  shows "t = ItemConsole \<Longrightarrow> \<exists>p i. consoles s' = snd (registry_add p i (consoles s)) \<and>
      pv_consoles (bw_provider w') = AList.update n (next_id (consoles s)) (pv_consoles (bw_provider w))"
    "t = ItemActuator \<Longrightarrow> \<exists>p i. actuators s' = snd (registry_add p i (actuators s)) \<and>
      pv_actuators (bw_provider w') = AList.update n (next_id (actuators s)) (pv_actuators (bw_provider w))"
    "t = ItemDevice \<Longrightarrow> devices s' = devices s \<and> pv_devices (bw_provider w') = pv_devices (bw_provider w) \<or>
      (\<exists>p i. devices s' = snd (registry_add p i (devices s)) \<and>
        pv_devices (bw_provider w') = AList.update n (next_id (devices s)) (pv_devices (bw_provider w)))"
    "t = ItemVolume \<Longrightarrow> volumes s' = volumes s \<and> pv_volumes (bw_provider w') = pv_volumes (bw_provider w) \<or>
      (\<exists>p i. volumes s' = snd (registry_add p i (volumes s)) \<and>
        pv_volumes (bw_provider w') = AList.update n (next_id (volumes s)) (pv_volumes (bw_provider w)))"
  using assms by (fastforce elim!: provider_add_item_done dest: add_own)+

lemmas conn_ops = provider_remove_item_def forget_item_def drain_items_def Let_def fold_unregister

interpretation mirrored_consoles: tracked_items "announced ItemConsole" "connection_step remote inst"
    "\<lambda>(s, w). consoles s" "\<lambda>(s, w). pv_consoles (bw_provider w)"
  for remote :: "('p, 'q, 'w) Remote" and inst
proof unfold_locales
  fix x and st st' :: "('p, 'q, 'w) bs_state"
  assume "connection_step remote inst x st = Done st'" "announced ItemConsole x = None"
  with announced_none [OF this(2,1)]
  show "(case st' of (s, w) \<Rightarrow> consoles s) = (case st of (s, w) \<Rightarrow> consoles s) \<and>
      (case st' of (s, w) \<Rightarrow> pv_consoles (bw_provider w)) = (case st of (s, w) \<Rightarrow> pv_consoles (bw_provider w))"
    by (cases st; cases st') (auto dest: conn_other)
next
  fix x n and st st' :: "('p, 'q, 'w) bs_state"
  assume "connection_step remote inst x st = Done st'" "announced ItemConsole x = Some (TAdd n)"
  then have "connection_step remote inst (AddStep ItemConsole n) st = Done st'" by (simp only: announced_iff)
  then show "(case st' of (s, w) \<Rightarrow> consoles s) = (case st of (s, w) \<Rightarrow> consoles s) \<and>
      (case st' of (s, w) \<Rightarrow> pv_consoles (bw_provider w)) = (case st of (s, w) \<Rightarrow> pv_consoles (bw_provider w)) \<or>
      (\<exists>p i. (case st' of (s, w) \<Rightarrow> consoles s) = snd (registry_add p i (case st of (s, w) \<Rightarrow> consoles s)) \<and>
        (case st' of (s, w) \<Rightarrow> pv_consoles (bw_provider w)) =
          AList.update n (next_id (case st of (s, w) \<Rightarrow> consoles s)) (case st of (s, w) \<Rightarrow> pv_consoles (bw_provider w)))"
    by (cases st; cases st'; simp only: prod.case) (drule conn_add(1) [OF _ refl], blast)
qed (auto simp: announced_iff conn_ops split: option.splits)

interpretation mirrored_actuators: tracked_items "announced ItemActuator" "connection_step remote inst"
    "\<lambda>(s, w). actuators s" "\<lambda>(s, w). pv_actuators (bw_provider w)"
  for remote :: "('p, 'q, 'w) Remote" and inst
proof unfold_locales
  fix x and st st' :: "('p, 'q, 'w) bs_state"
  assume "connection_step remote inst x st = Done st'" "announced ItemActuator x = None"
  with announced_none [OF this(2,1)]
  show "(case st' of (s, w) \<Rightarrow> actuators s) = (case st of (s, w) \<Rightarrow> actuators s) \<and>
      (case st' of (s, w) \<Rightarrow> pv_actuators (bw_provider w)) = (case st of (s, w) \<Rightarrow> pv_actuators (bw_provider w))"
    by (cases st; cases st') (auto dest: conn_other)
next
  fix x n and st st' :: "('p, 'q, 'w) bs_state"
  assume "connection_step remote inst x st = Done st'" "announced ItemActuator x = Some (TAdd n)"
  then have "connection_step remote inst (AddStep ItemActuator n) st = Done st'" by (simp only: announced_iff)
  then show "(case st' of (s, w) \<Rightarrow> actuators s) = (case st of (s, w) \<Rightarrow> actuators s) \<and>
      (case st' of (s, w) \<Rightarrow> pv_actuators (bw_provider w)) = (case st of (s, w) \<Rightarrow> pv_actuators (bw_provider w)) \<or>
      (\<exists>p i. (case st' of (s, w) \<Rightarrow> actuators s) = snd (registry_add p i (case st of (s, w) \<Rightarrow> actuators s)) \<and>
        (case st' of (s, w) \<Rightarrow> pv_actuators (bw_provider w)) =
          AList.update n (next_id (case st of (s, w) \<Rightarrow> actuators s)) (case st of (s, w) \<Rightarrow> pv_actuators (bw_provider w)))"
    by (cases st; cases st'; simp only: prod.case) (drule conn_add(2) [OF _ refl], blast)
qed (auto simp: announced_iff conn_ops split: option.splits)

interpretation mirrored_devices: tracked_items "announced ItemDevice" "connection_step remote inst"
    "\<lambda>(s, w). devices s" "\<lambda>(s, w). pv_devices (bw_provider w)"
  for remote :: "('p, 'q, 'w) Remote" and inst
proof unfold_locales
  fix x and st st' :: "('p, 'q, 'w) bs_state"
  assume "connection_step remote inst x st = Done st'" "announced ItemDevice x = None"
  with announced_none [OF this(2,1)]
  show "(case st' of (s, w) \<Rightarrow> devices s) = (case st of (s, w) \<Rightarrow> devices s) \<and>
      (case st' of (s, w) \<Rightarrow> pv_devices (bw_provider w)) = (case st of (s, w) \<Rightarrow> pv_devices (bw_provider w))"
    by (cases st; cases st') (auto dest: conn_other)
next
  fix x n and st st' :: "('p, 'q, 'w) bs_state"
  assume "connection_step remote inst x st = Done st'" "announced ItemDevice x = Some (TAdd n)"
  then have "connection_step remote inst (AddStep ItemDevice n) st = Done st'" by (simp only: announced_iff)
  then show "(case st' of (s, w) \<Rightarrow> devices s) = (case st of (s, w) \<Rightarrow> devices s) \<and>
      (case st' of (s, w) \<Rightarrow> pv_devices (bw_provider w)) = (case st of (s, w) \<Rightarrow> pv_devices (bw_provider w)) \<or>
      (\<exists>p i. (case st' of (s, w) \<Rightarrow> devices s) = snd (registry_add p i (case st of (s, w) \<Rightarrow> devices s)) \<and>
        (case st' of (s, w) \<Rightarrow> pv_devices (bw_provider w)) =
          AList.update n (next_id (case st of (s, w) \<Rightarrow> devices s)) (case st of (s, w) \<Rightarrow> pv_devices (bw_provider w)))"
    by (cases st; cases st'; simp only: prod.case) (drule conn_add(3) [OF _ refl], blast)
qed (auto simp: announced_iff conn_ops split: option.splits)

interpretation mirrored_volumes: tracked_items "announced ItemVolume" "connection_step remote inst"
    "\<lambda>(s, w). volumes s" "\<lambda>(s, w). pv_volumes (bw_provider w)"
  for remote :: "('p, 'q, 'w) Remote" and inst
proof unfold_locales
  fix x and st st' :: "('p, 'q, 'w) bs_state"
  assume "connection_step remote inst x st = Done st'" "announced ItemVolume x = None"
  with announced_none [OF this(2,1)]
  show "(case st' of (s, w) \<Rightarrow> volumes s) = (case st of (s, w) \<Rightarrow> volumes s) \<and>
      (case st' of (s, w) \<Rightarrow> pv_volumes (bw_provider w)) = (case st of (s, w) \<Rightarrow> pv_volumes (bw_provider w))"
    by (cases st; cases st') (auto dest: conn_other)
next
  fix x n and st st' :: "('p, 'q, 'w) bs_state"
  assume "connection_step remote inst x st = Done st'" "announced ItemVolume x = Some (TAdd n)"
  then have "connection_step remote inst (AddStep ItemVolume n) st = Done st'" by (simp only: announced_iff)
  then show "(case st' of (s, w) \<Rightarrow> volumes s) = (case st of (s, w) \<Rightarrow> volumes s) \<and>
      (case st' of (s, w) \<Rightarrow> pv_volumes (bw_provider w)) = (case st of (s, w) \<Rightarrow> pv_volumes (bw_provider w)) \<or>
      (\<exists>p i. (case st' of (s, w) \<Rightarrow> volumes s) = snd (registry_add p i (case st of (s, w) \<Rightarrow> volumes s)) \<and>
        (case st' of (s, w) \<Rightarrow> pv_volumes (bw_provider w)) =
          AList.update n (next_id (case st of (s, w) \<Rightarrow> volumes s)) (case st of (s, w) \<Rightarrow> pv_volumes (bw_provider w)))"
    by (cases st; cases st'; simp only: prod.case) (drule conn_add(4) [OF _ refl], blast)
qed (auto simp: announced_iff conn_ops split: option.splits)

subsection \<open>The properties of the provider\<close>

definition item_ids :: "ItemType \<Rightarrow> ('p, 'w) Server \<Rightarrow> u64 list" where
  "item_ids t s =
     (case t of
        ItemConsole \<Rightarrow> map index_u64 (registry_ids (consoles s))
      | ItemActuator \<Rightarrow> map index_u64 (registry_ids (actuators s))
      | ItemDevice \<Rightarrow> map index_u64 (registry_ids (devices s))
      | ItemVolume \<Rightarrow> map index_u64 (registry_ids (volumes s)))"

definition items_added :: "ItemType \<Rightarrow> ('p, 'w) Server \<Rightarrow> nat" where
  "items_added t s =
     (case t of
        ItemConsole \<Rightarrow> length (added_ids (monitor (consoles s)))
      | ItemActuator \<Rightarrow> length (added_ids (monitor (actuators s)))
      | ItemDevice \<Rightarrow> length (added_ids (monitor (devices s)))
      | ItemVolume \<Rightarrow> length (added_ids (monitor (volumes s))))"

definition remote_ids :: "ItemType \<Rightarrow> Provider \<Rightarrow> u64 list" where
  "remote_ids t pv =
     (case t of
        ItemConsole \<Rightarrow> map fst (pv_consoles pv) | ItemActuator \<Rightarrow> map fst (pv_actuators pv)
      | ItemDevice \<Rightarrow> map fst (pv_devices pv) | ItemVolume \<Rightarrow> map fst (pv_volumes pv))"

definition registries_inv :: "('p, 'w) Server \<Rightarrow> bool" where
  "registries_inv s \<longleftrightarrow> registry_inv (consoles s) \<and> registry_inv (actuators s) \<and>
     registry_inv (devices s) \<and> registry_inv (volumes s)"

lemma registries_inv_new: "registries_inv (server_new auth dir)"
  by (simp add: registries_inv_def server_new_def registry_inv_new)

text \<open>
  C9. A connection that breaks leaves nothing behind: however the four monitor streams of a
  connection are interleaved, whatever setups fail, and whatever the streams announce, as long
  as no stream announces an item that it announced and did not remove, the server has after
  the end of a stream exactly the items of that type it had before, and the provider's map is
  empty again.
\<close>

theorem provider_connection_leaves_nothing:
  assumes "conn_run remote inst xs (s, w) = Done (s', w')"
    and "filter (\<lambda>x. step_type x = t) xs = provider_monitor_items t (Ok events)"
    and "no_overlap [] (List.map_filter (announced t) (provider_monitor_items t (Ok events)))"
    and "remote_ids t (bw_provider w) = []" and "registries_inv s" and "items_added t s' < 2 ^ 64"
  shows "set (item_ids t s') = set (item_ids t s) \<and> remote_ids t (bw_provider w') = []"
proof -
  have own: "List.map_filter (announced t) xs = List.map_filter (announced t) (monitor_steps t events)"
    using assms(2) announced_filter [of t xs] by (simp add: provider_monitor_items_def)
  then have fresh: "no_overlap [] (List.map_filter (announced t) xs)"
    using assms(3) by (simp add: provider_monitor_items_def)
  from monitor_steps_end own obtain cs where ends: "List.map_filter (announced t) xs = cs @ [TEnd]" by metis
  note run = assms(1) [unfolded conn_run_def]
  show ?thesis
  proof (cases t)
    case ItemConsole
    with mirrored_consoles.run_leaves_nothing [OF run] ends fresh assms(4-6) show ?thesis
      by (simp add: remote_ids_def registries_inv_def items_added_def item_ids_def
          mirrored_consoles.adds_def mirrored_consoles.live_def live_ids)
  next
    case ItemActuator
    with mirrored_actuators.run_leaves_nothing [OF run] ends fresh assms(4-6) show ?thesis
      by (simp add: remote_ids_def registries_inv_def items_added_def item_ids_def
          mirrored_actuators.adds_def mirrored_actuators.live_def live_ids)
  next
    case ItemDevice
    with mirrored_devices.run_leaves_nothing [OF run] ends fresh assms(4-6) show ?thesis
      by (simp add: remote_ids_def registries_inv_def items_added_def item_ids_def
          mirrored_devices.adds_def mirrored_devices.live_def live_ids)
  next
    case ItemVolume
    with mirrored_volumes.run_leaves_nothing [OF run] ends fresh assms(4-6) show ?thesis
      by (simp add: remote_ids_def registries_inv_def items_added_def item_ids_def
          mirrored_volumes.adds_def mirrored_volumes.live_def live_ids)
  qed
qed

text \<open>A remote that answers every call, for the examples.\<close>

definition quiet_remote :: "(unit, unit, unit) Remote" where
  "quiet_remote =
     \<lparr>rem_properties = (\<lambda>t n w. (Ok [(NAME, ''x'')], w)),
      rem_device_info = (\<lambda>n w. (Ok None, w)),
      rem_device_change_mode = (\<lambda>n m w. (Ok (), w)),
      rem_actuator_change_mode = (\<lambda>n p w. (Ok (), w)),
      rem_console_configure = (\<lambda>n p w. (Ok (), w)),
      rem_console_input = (\<lambda>n w. (\<lambda>b v. v, w)),
      rem_console_output = (\<lambda>n w. (Ok [], w)),
      rem_volume_info = (\<lambda>n w. (Ok ([], True), w)),
      rem_volume_io = (\<lambda>n t l w. (Err (Status NotFound ''''), w)),
      rem_volume_commit = (\<lambda>n w. (Ok (), w)),
      rem_volume_erase = (\<lambda>n t w. (Ok (), w)),
      rem_show_status = status_msg,
      rem_parameters = Some\<rparr>"

definition empty_world :: "(unit, unit) bs_world" where
  "empty_world = \<lparr>bw_provider = provider_new, bw_devices = [], bw_consoles = [], bw_panicked = False,
     bw_net = ()\<rparr>"

lemma provider_connection_leaves_nothing_witness:
  "\<exists>s' w'. conn_run quiet_remote ''lab''
      [AddStep ItemConsole 5, AddStep ItemVolume 7, AddStep ItemConsole 6, RemoveStep ItemConsole 5,
       EndStep ItemConsole] (server_new [] ''/etc'', empty_world) = Done (s', w') \<and>
    set (item_ids ItemConsole s') = set (item_ids ItemConsole (server_new [] ''/etc'' :: (unit, nat) Server)) \<and>
    remote_ids ItemConsole (bw_provider w') = [] \<and> remote_ids ItemVolume (bw_provider w') = [7]"
proof -
  let ?xs = "[AddStep ItemConsole 5, AddStep ItemVolume 7, AddStep ItemConsole 6,
    RemoveStep ItemConsole 5, EndStep ItemConsole]"
  let ?item = "\<lambda>n. \<lparr>pi_id = n, pi_name = ''x'', pi_instance = None\<rparr>"
  let ?events = "[Ok (EventAdd [?item 5, ?item 6]), Ok (EventRemove 5), Err (Status Unavailable '''')]"
  obtain s' w' where run: "conn_run quiet_remote ''lab'' ?xs (server_new [] ''/etc'', empty_world) = Done (s', w')"
    and facts: "items_added ItemConsole s' = 2" "remote_ids ItemVolume (bw_provider w') = [7]"
    by (simp add: conn_run_def quiet_remote_def empty_world_def provider_add_item_def on_net_def add_console_def
        add_volume_def bs_volume_new_def Let_def register_console_def register_volume_def registry_add_def
        server_new_def registry_new_def conn_ops set_provider_def notify_all_def provider_new_def
        frame_simps index_default_def index_next_def items_added_def remote_ids_def)
  have "set (item_ids ItemConsole s') = set (item_ids ItemConsole (server_new [] ''/etc'' :: (unit, (unit, unit) bs_world) Server)) \<and>
      remote_ids ItemConsole (bw_provider w') = []"
    using facts(1)
    by (intro provider_connection_leaves_nothing [OF run, where events = ?events])
      (simp_all add: announced_def List.map_filter_simps provider_monitor_items_def remote_ids_def empty_world_def provider_new_def registries_inv_new)
  with run facts(2) show ?thesis by (auto simp: item_ids_def server_new_def registry_new_def registry_ids_def)
qed

text \<open>
  An item announced twice is left behind: when a console is added to the remote between the
  subscription of its monitor call and the reading of its list, the stream announces it twice,
  and the first of the two local consoles is still registered after the connection ended.
\<close>

theorem provider_overlap_leaks:
  fixes r0 r1 :: "(ConsoleKind, 'c) Registry"
  assumes "r0 = registry_new" and "r1 = snd (registry_add p c r0)"
    and "events = to_item_stream r1 (map Ok (drop (registry_monitor r0) (monitor r1)) @ [Err e])"
    and "conn_run remote inst (provider_monitor_items ItemConsole (Ok (map Ok events))) (s, w) = Done (s', w')"
    and "registry_inv (consoles s)" and "items_added ItemConsole s' < 2 ^ 64"
    and "remote_ids ItemConsole (bw_provider w) = []"
  shows "set (item_ids ItemConsole s') =
    insert (index_u64 (next_id (consoles s))) (set (item_ids ItemConsole s)) \<and>
    index_u64 (next_id (consoles s)) \<notin> set (item_ids ItemConsole s)"
proof -
  let ?i = "next_id (consoles s)"
  have "provider_monitor_items ItemConsole (Ok (map Ok events)) =
      [AddStep ItemConsole 0, AddStep ItemConsole 0, EndStep ItemConsole]"
    using assms(1-3) by (simp add: provider_monitor_items_def to_item_stream_def to_item_list_def registry_new_def
        registry_add_def registry_monitor_def Let_def index_default_def to_proto_item_def)
  with assms(4) obtain s1 w1 s2 w2 where
    1: "connection_step remote inst (AddStep ItemConsole 0) (s, w) = Done (s1, w1)" and
    2: "connection_step remote inst (AddStep ItemConsole 0) (s1, w1) = Done (s2, w2)" and
    3: "connection_step remote inst (EndStep ItemConsole) (s2, w2) = Done (s', w')"
    by (auto simp: conn_run_def simp del: connection_step.simps split: outcome.splits)
  from conn_add(1) [OF 1 refl] obtain p1 c1 where
    r1: "consoles s1 = snd (registry_add p1 c1 (consoles s))" and
    k1: "pv_consoles (bw_provider w1) = [(0, ?i)]"
    using assms(7) by (auto simp: remote_ids_def)
  from conn_add(1) [OF 2 refl] obtain p2 c2 where
    r2: "consoles s2 = snd (registry_add p2 c2 (consoles s1))" and
    k2: "pv_consoles (bw_provider w2) = [(0, next_id (consoles s1))]"
    using k1 by auto
  from 3 have r3: "consoles s' = registry_remove (next_id (consoles s1)) (consoles s2)"
    by (auto simp: conn_ops k2)
  have n: "length (added_ids (monitor (consoles s1))) < 2 ^ 64" "length (added_ids (monitor (consoles s))) < 2 ^ 64"
    using assms(6) by (simp_all add: items_added_def r1 r2 r3 added_ids_add)
  have free: "registry_lookup (consoles s) ?i = None"
    "registry_lookup (consoles s1) (next_id (consoles s1)) = None"
    using next_id_fresh [OF assms(5) n(2)] next_id_fresh [OF _ n(1)] registry_inv_add [OF assms(5)]
    by (simp_all add: r1)
  have l1: "registry_lookup (consoles s1) = (registry_lookup (consoles s))(?i \<mapsto> item_new p1 c1)"
    by (simp add: r1)
  with free(2) have "next_id (consoles s1) \<noteq> ?i" by auto
  with free(2) l1 have "registry_lookup (consoles s') = (registry_lookup (consoles s))(?i \<mapsto> item_new p1 c1)"
    by (auto simp: r3 r2 fun_eq_iff)
  then have "set (registry_ids (consoles s')) = insert ?i (set (registry_ids (consoles s)))"
    by (auto simp: live_ids)
  moreover have "?i \<notin> set (registry_ids (consoles s))" using free(1) by (simp add: live_ids)
  ultimately show ?thesis
    by (auto simp: item_ids_def) (metis u64_index.expand)
qed

lemma provider_overlap_leaks_witness:
  "\<exists>s' w'. conn_run quiet_remote ''lab'' [AddStep ItemConsole 0, AddStep ItemConsole 0, EndStep ItemConsole]
      (server_new [] ''/etc'', empty_world) = Done (s', w') \<and>
    0 \<in> set (item_ids ItemConsole s') \<and> remote_ids ItemConsole (bw_provider w') = []"
proof -
  let ?r0 = "registry_new :: (ConsoleKind, nat) Registry"
  let ?r1 = "snd (registry_add (properties_new ''c'') 3 ?r0)"
  let ?events = "to_item_stream ?r1 (map Ok (drop (registry_monitor ?r0) (monitor ?r1)) @ [Err Closed])"
  have steps: "provider_monitor_items ItemConsole (Ok (map Ok ?events)) =
      [AddStep ItemConsole 0, AddStep ItemConsole 0, EndStep ItemConsole]"
    by (simp add: provider_monitor_items_def to_item_stream_def to_item_list_def registry_new_def
        registry_add_def registry_monitor_def Let_def index_default_def to_proto_item_def)
  obtain s' w' where run: "conn_run quiet_remote ''lab'' (provider_monitor_items ItemConsole (Ok (map Ok ?events)))
      (server_new [] ''/etc'', empty_world) = Done (s', w')"
    and facts: "items_added ItemConsole s' = 2" "remote_ids ItemConsole (bw_provider w') = []"
    unfolding steps
    by (simp add: conn_run_def quiet_remote_def empty_world_def provider_add_item_def on_net_def add_console_def
        Let_def register_console_def registry_add_def server_new_def registry_new_def conn_ops
        set_provider_def notify_all_def provider_new_def index_default_def index_next_def
        items_added_def remote_ids_def)
  have "set (item_ids ItemConsole s') =
      insert (index_u64 (next_id (consoles (server_new [] ''/etc'' :: (unit, unit, unit) bs_server))))
        (set (item_ids ItemConsole (server_new [] ''/etc'' :: (unit, unit, unit) bs_server))) \<and>
      index_u64 (next_id (consoles (server_new [] ''/etc'' :: (unit, unit, unit) bs_server))) \<notin>
        set (item_ids ItemConsole (server_new [] ''/etc'' :: (unit, unit, unit) bs_server))"
    by (rule provider_overlap_leaks [OF refl refl refl run])
      (simp_all add: facts server_new_def registry_inv_new remote_ids_def empty_world_def provider_new_def)
  then have "0 \<in> set (item_ids ItemConsole s')"
    by (simp add: server_new_def registry_new_def index_default_def)
  with run facts(2) steps show ?thesis by auto
qed

subsection \<open>The mirrored view of a device\<close>

lemma map_of_map_consoles:
  "map_of (map_consoles pv cs) remote =
     (if Some remote \<in> pcon_id ` set cs then console_id pv remote else None)"
proof -
  have "map_of (fold (\<lambda>c m. case pcon_id c of None \<Rightarrow> m
       | Some remote \<Rightarrow> (case console_id pv remote of None \<Rightarrow> m | Some local \<Rightarrow> AList.update remote local m)) cs m) remote =
     (if Some remote \<in> pcon_id ` set cs \<and> console_id pv remote \<noteq> None then console_id pv remote else map_of m remote)"
    for m
    by (induction cs arbitrary: m) (auto simp: update_conv' split: option.splits)
  from this [of "[]"] show ?thesis by (auto simp: map_consoles_def)
qed

lemma map_of_map_volumes:
  "map_of (map_volumes pv vs) remote =
     (if Some remote \<in> pvol_id ` set vs then volume_id pv remote else None)"
proof -
  have "map_of (fold (\<lambda>v m. case pvol_id v of None \<Rightarrow> m
       | Some remote \<Rightarrow> (case volume_id pv remote of None \<Rightarrow> m | Some local \<Rightarrow> AList.update remote local m)) vs m) remote =
     (if Some remote \<in> pvol_id ` set vs \<and> volume_id pv remote \<noteq> None then volume_id pv remote else map_of m remote)"
    for m
    by (induction vs arbitrary: m) (auto simp: update_conv' split: option.splits)
  from this [of "[]"] show ?thesis by (auto simp: map_volumes_def)
qed

lemma bind_mapped:
  "c \<in> set cs \<Longrightarrow> Option.bind (pcon_id c) (map_of (map_consoles pv cs)) = Option.bind (pcon_id c) (console_id pv)"
  "v \<in> set vs \<Longrightarrow> Option.bind (pvol_id v) (map_of (map_volumes pv vs)) = Option.bind (pvol_id v) (volume_id pv)"
  by (cases "pcon_id c", simp, force simp: map_of_map_consoles)
     (cases "pvol_id v", simp, force simp: map_of_map_volumes)

lemma inner_consoles_updated:
  "inner_consoles (update_mappings pv d) =
     map (\<lambda>c. \<lparr>dcon_name = pcon_name c, dcon_id = Option.bind (pcon_id c) (console_id pv)\<rparr>)
       (pdev_consoles (di_info d))"
  by (simp add: inner_consoles_def update_mappings_def bind_mapped)

lemma inner_volumes_updated:
  "inner_volumes (update_mappings pv d) =
     map (\<lambda>v. \<lparr>dvol_name = pvol_name v, dvol_id = Option.bind (pvol_id v) (volume_id pv)\<rparr>)
       (pdev_volumes (di_info d))"
  by (simp add: inner_volumes_def update_mappings_def bind_mapped)

lemma di_info_updated [simp]: "di_info (update_mappings pv d) = di_info d"
  by (simp add: update_mappings_def)

text \<open>
  What a device shows, and what it should show of a remote state: the remote consoles and
  volumes, each with the local identifier that the map of the provider has for it and without
  one if it has none, and the remote modes.
\<close>

type_synonym device_view = "DeviceConsole list \<times> DeviceVolume list \<times> DeviceMode list \<times> string option"

definition shown_view :: "'w Device \<Rightarrow> 'w \<Rightarrow> device_view" where
  "shown_view d w = (dev_consoles d w, dev_volumes d w, dev_modes d w, dev_current_mode d w)"

definition remote_view :: "Provider \<Rightarrow> ProtoDevice \<Rightarrow> device_view" where
  "remote_view pv info =
     (map (\<lambda>c. \<lparr>dcon_name = pcon_name c, dcon_id = Option.bind (pcon_id c) (console_id pv)\<rparr>) (pdev_consoles info),
      map (\<lambda>v. \<lparr>dvol_name = pvol_name v, dvol_id = Option.bind (pvol_id v) (volume_id pv)\<rparr>) (pdev_volumes info),
      map (\<lambda>m. \<lparr>dmode_name = pmode_name m, dmode_depends = pmode_depends m, dmode_available = pmode_available m\<rparr>)
        (pdev_modes info),
      pdev_current_mode info)"

lemma provider_sync_changed:
  "fst (provider_sync pv d) \<longleftrightarrow>
     inner_consoles (update_mappings pv d) \<noteq> inner_consoles d \<or> inner_volumes (update_mappings pv d) \<noteq> inner_volumes d"
proof -
  let ?u = "update_mappings pv d"
  have c: "list_ex (\<lambda>remote. console_id pv remote \<noteq> map_of (di_console_mapping d) remote)
      (List.map_filter pcon_id (pdev_consoles (di_info d))) \<longleftrightarrow> inner_consoles ?u \<noteq> inner_consoles d"
    unfolding inner_consoles_updated
    by (auto simp: inner_consoles_def list_ex_iff map_filter_def split: Option.bind_splits)
  have v: "list_ex (\<lambda>remote. volume_id pv remote \<noteq> map_of (di_volume_mapping d) remote)
      (List.map_filter pvol_id (pdev_volumes (di_info d))) \<longleftrightarrow> inner_volumes ?u \<noteq> inner_volumes d"
    unfolding inner_volumes_updated
    by (auto simp: inner_volumes_def list_ex_iff map_filter_def split: Option.bind_splits)
  show ?thesis unfolding provider_sync_def Let_def c v by auto
qed

lemma provider_sync_view:
  "inner_consoles (snd (provider_sync pv d)) = inner_consoles (update_mappings pv d)"
  "inner_volumes (snd (provider_sync pv d)) = inner_volumes (update_mappings pv d)"
  "di_info (snd (provider_sync pv d)) = di_info d"
proof -
  have s: "snd (provider_sync pv d) = (if fst (provider_sync pv d) then update_mappings pv d else d)"
    by (simp add: provider_sync_def Let_def)
  show "inner_consoles (snd (provider_sync pv d)) = inner_consoles (update_mappings pv d)"
    "inner_volumes (snd (provider_sync pv d)) = inner_volumes (update_mappings pv d)"
    "di_info (snd (provider_sync pv d)) = di_info d"
    unfolding s using provider_sync_changed [of pv d] by auto
qed

text \<open>
  C22. The mirrored device follows the remote one and the provider, turn by turn of its task: an
  update of the remote state makes it show exactly that state with the local identifiers of the
  provider, and always notifies its watchers, once; a change of the provider makes it show the state
  it has with the identifiers the provider has now, and notifies them, once, exactly if that
  changed what is shown; the end or an error of the stream of updates ends the task and changes
  nothing. No other device changes.
\<close>

theorem device_view_follows_provider:
  assumes "cell < length (bw_devices w)" "bw_devices w ! cell = (d, told)"
    and "monitor_device cell turn w = (go, w')"
  shows "(case turn of
      DeviceUpdate (Some (Ok info)) \<Rightarrow>
        go \<and> shown_view (bs_device remote n cell) w' = remote_view (bw_provider w) info \<and>
        snd (bw_devices w' ! cell) = Suc told
    | DeviceUpdate _ \<Rightarrow> \<not> go \<and> w' = w
    | ProviderChanged \<Rightarrow>
        go \<and> shown_view (bs_device remote n cell) w' = remote_view (bw_provider w) (di_info d) \<and>
        snd (bw_devices w' ! cell) =
          (if shown_view (bs_device remote n cell) w' = shown_view (bs_device remote n cell) w then told else Suc told)) \<and>
    (\<forall>other. other \<noteq> cell \<longrightarrow> bw_devices w' ! other = bw_devices w ! other)"
proof (cases turn)
  case ProviderChanged
  obtain changed d1 where s: "provider_sync (bw_provider w) d = (changed, d1)" by force
  with assms ProviderChanged have go: "go"
    and w': "w' = w\<lparr>bw_devices := (bw_devices w)[cell := (d1, if changed then Suc told else told)]\<rparr>"
    by (auto simp: monitor_device_def monitor_device_turn_def)
  from provider_sync_view [of "bw_provider w" d] s have view:
    "inner_consoles d1 = inner_consoles (update_mappings (bw_provider w) d)"
    "inner_volumes d1 = inner_volumes (update_mappings (bw_provider w) d)" "di_info d1 = di_info d" by simp_all
  moreover have "changed \<longleftrightarrow> inner_consoles d1 \<noteq> inner_consoles d \<or> inner_volumes d1 \<noteq> inner_volumes d"
    using provider_sync_changed [of "bw_provider w" d] s view by simp
  ultimately show ?thesis
    using assms(1,2) ProviderChanged go
    by (auto simp: w' shown_view_def remote_view_def bs_device_def inner_consoles_updated inner_volumes_updated inner_modes_def)
next
  case (DeviceUpdate item)
  show ?thesis
  proof (cases "\<exists>info. item = Some (Ok info)")
    case True
    with DeviceUpdate assms show ?thesis
      by (auto simp: monitor_device_def monitor_device_turn_def shown_view_def remote_view_def bs_device_def
          inner_update_def inner_consoles_updated inner_volumes_updated inner_modes_def)
  next
    case False
    with DeviceUpdate assms have "\<not> go" "w' = w\<lparr>bw_devices := (bw_devices w)[cell := bw_devices w ! cell]\<rparr>"
      by (auto simp: monitor_device_def monitor_device_turn_def split: option.splits sum.splits)
    then have "\<not> go" "w' = w" by simp_all
    with DeviceUpdate False show ?thesis by (auto split: option.splits sum.splits)
  qed
qed

definition watched_device :: ProtoDevice where
  "watched_device =
     \<lparr>pdev_consoles = [\<lparr>pcon_name = ''main'', pcon_id = Some 4\<rparr>], pdev_volumes = [], pdev_modes = [],
      pdev_current_mode = None\<rparr>"

lemma device_view_follows_provider_witness:
  "let pv = provider_new\<lparr>pv_consoles := [(4, U64Index 9)]\<rparr>;
       w = empty_world\<lparr>bw_provider := pv, bw_devices := [(inner_new provider_new watched_device, 0)]\<rparr>;
       (go, w') = monitor_device 0 ProviderChanged w
   in go \<and> snd (bw_devices w' ! 0) = 1 \<and>
     dev_consoles (bs_device quiet_remote 5 0) w' = [\<lparr>dcon_name = ''main'', dcon_id = Some (U64Index 9)\<rparr>]"
proof -
  let ?pv = "provider_new\<lparr>pv_consoles := [(4, U64Index 9)]\<rparr>"
  let ?d = "inner_new provider_new watched_device"
  let ?w = "empty_world\<lparr>bw_provider := ?pv, bw_devices := [(?d, 0)]\<rparr>"
  obtain go w' where run: "monitor_device 0 ProviderChanged ?w = (go, w')" by force
  have "go \<and> shown_view (bs_device quiet_remote 5 0) w' = remote_view ?pv (di_info ?d) \<and>
      snd (bw_devices w' ! 0) = (if shown_view (bs_device quiet_remote 5 0) w' = shown_view (bs_device quiet_remote 5 0) ?w
        then 0 else Suc 0)"
    using device_view_follows_provider [OF _ _ run, of ?d 0 quiet_remote 5] by simp
  then show ?thesis
    using run by (simp add: shown_view_def remote_view_def watched_device_def inner_new_def bs_device_def
        inner_consoles_def update_mappings_def map_consoles_def console_id_def provider_new_def)
qed

subsection \<open>What a proxy reports\<close>

text \<open>
  A proxied mode change reports what the remote device reported: when the call reaches a
  server that has the device, the proxy returns the device's own result, success and each of
  the errors, after exactly the device's own effects.
\<close>

theorem proxied_set_mode_transparent:
  assumes "rem_device_change_mode remote n = rpc_device_change_mode s n"
    and "get_device s n = Some d"
  shows "dev_set_mode (bs_device remote n cell) mode w =
    (fst (dev_set_mode d mode (bw_net w)), w\<lparr>bw_net := snd (dev_set_mode d mode (bw_net w))\<rparr>)"
proof -
  have inv: "set_mode_error (status_of_set_mode_error e) = e" for e
    by (cases e) (simp_all add: set_mode_error_def, metis ActuatorError.exhaust)
  obtain r n1 where r: "dev_set_mode d mode (bw_net w) = (r, n1)" by force
  then show ?thesis
    using assms by (cases r) (simp_all add: bs_device_def on_net_def rpc_device_change_mode_def inv)
qed

definition stuck_device :: "'w Device" where
  "stuck_device =
     \<lparr>dev_set_mode = (\<lambda>mode w. (if mode = ''on'' then Ok () else Err WrongCurrentMode, w)),
      dev_consoles = (\<lambda>w. []), dev_volumes = (\<lambda>w. []), dev_modes = (\<lambda>w. []),
      dev_current_mode = (\<lambda>w. None)\<rparr>"

lemma proxied_set_mode_transparent_witness:
  "dev_set_mode (bs_device (quiet_remote\<lparr>rem_device_change_mode := rpc_device_change_mode
       (server_run [RegisterDevice (properties_new ''d'') stuck_device]
          (server_new [] ''/etc'' :: (unit, unit) Server))\<rparr>) 0 5) ''off'' empty_world =
    (Err WrongCurrentMode, empty_world)"
proof -
  let ?s = "server_run [RegisterDevice (properties_new ''d'') stuck_device]
    (server_new [] ''/etc'' :: (unit, unit) Server)"
  have d: "get_device ?s 0 = Some stuck_device"
    by (simp add: get_device_def server_run_def registry_lookup_def registry_add_def Let_def
        server_new_def registry_new_def index_default_def item_new_def)
  show ?thesis
    by (subst proxied_set_mode_transparent [OF _ d]) (simp_all add: stuck_device_def empty_world_def)
qed

text \<open>
  A commit or an erase keeps the kind of the volume's error, except that \<open>NotImplemented\<close>
  becomes an internal error; a failed open is always an internal error.
\<close>

lemma proxied_volume_errors:
  "bs_volume_error remote (status_of_volume_error UnknownTargetRequested) = UnknownTargetRequested"
  "\<exists>m. bs_volume_error remote (status_of_volume_error (VolumeFailure e)) = VolumeFailure m"
  "\<exists>m. bs_volume_error remote (status_of_volume_error (VolumeInternal e)) = VolumeInternal m"
  "\<exists>m. bs_volume_error remote (status_of_volume_error NotImplemented) = VolumeInternal m"
  by (simp_all add: bs_volume_error_def)

lemma proxied_open_error:
  "fst (rem_volume_io remote n target len (bw_net w)) = Err e \<Longrightarrow>
   fst (vol_open (bs_volume remote n info) target len w) = Err (VolumeInternal (rem_show_status remote e))"
  by (auto simp: bs_volume_def on_net_def split: prod.splits)

text \<open>
  An item that is gone when its properties are asked for, a console that refuses its
  parameters and an actuator that reports an error panic the provider.
\<close>

lemma vanished_item_panics:
  "fst (rem_properties remote t n (bw_net w)) = Err e \<Longrightarrow>
   conn_run remote inst (AddStep t n # xs) (s, w) = Panicked"
  by (auto simp: conn_run_def provider_add_item_def on_net_def split: prod.splits)

lemma failing_actuator_panics:
  "rem_parameters remote p = Some q \<Longrightarrow> fst (rem_actuator_change_mode remote n q (bw_net w)) = Err e \<Longrightarrow>
   bw_panicked (snd (act_set_mode (bs_actuator remote n) p w))"
  by (auto simp: bs_actuator_def bs_actuator_set_mode_def unwound_def on_net_def split: prod.splits)

end
