(* ===== verification/Mirror.thy ===== *)
theory Mirror
  imports Boardswarm_Provider
begin

section \<open>A mirrored registry follows the remote one\<close>

text \<open>
  The two ends of a connection together: a registry of the remote server, whose changes its
  monitor handler streams (Server), and the provider that follows the stream
  (Boardswarm_Provider). The lemmas turn a run of the registry into the announcements of its
  stream; for the types whose proxies are always registered, consoles and actuators, the map of
  the provider then has exactly the items the remote registry has. The handler subscribes before
  it lists, so an item added in between is told twice; the local item of the first telling is
  then left behind, and only then.
\<close>

interpretation mirror_consoles: mirrored_items "announced ItemConsole" "connection_step remote inst"
    "\<lambda>(s, w). consoles s" "\<lambda>(s, w). pv_consoles (bw_provider w)"
  for remote :: "('p, 'q, 'w) Remote" and inst
proof unfold_locales
  fix x n and st st' :: "('p, 'q, 'w) bs_state"
  assume "connection_step remote inst x st = Done st'" "announced ItemConsole x = Some (TAdd n)"
  then have "connection_step remote inst (AddStep ItemConsole n) st = Done st'" by (simp only: announced_iff)
  then show "(case st' of (s, w) \<Rightarrow> pv_consoles (bw_provider w)) =
      AList.update n (next_id (case st of (s, w) \<Rightarrow> consoles s)) (case st of (s, w) \<Rightarrow> pv_consoles (bw_provider w))"
    by (cases st; cases st'; simp only: prod.case) (drule conn_add(1) [OF _ refl], blast)
qed

interpretation mirror_actuators: mirrored_items "announced ItemActuator" "connection_step remote inst"
    "\<lambda>(s, w). actuators s" "\<lambda>(s, w). pv_actuators (bw_provider w)"
  for remote :: "('p, 'q, 'w) Remote" and inst
proof unfold_locales
  fix x n and st st' :: "('p, 'q, 'w) bs_state"
  assume "connection_step remote inst x st = Done st'" "announced ItemActuator x = Some (TAdd n)"
  then have "connection_step remote inst (AddStep ItemActuator n) st = Done st'" by (simp only: announced_iff)
  then show "(case st' of (s, w) \<Rightarrow> pv_actuators (bw_provider w)) =
      AList.update n (next_id (case st of (s, w) \<Rightarrow> actuators s)) (case st of (s, w) \<Rightarrow> pv_actuators (bw_provider w))"
    by (cases st; cases st'; simp only: prod.case) (drule conn_add(2) [OF _ refl], blast)
qed

subsection \<open>The announcements of a registry\<close>

fun change_track :: "('k, 't) RegistryChange \<Rightarrow> u64 track" where
  "change_track (Added i item) = TAdd (index_u64 i)"
| "change_track (Removed i) = TRemove (index_u64 i)"

definition live_numbers :: "('k, 't) Registry \<Rightarrow> u64 set" where
  "live_numbers r = index_u64 ` {i. registry_lookup r i \<noteq> None}"

lemma live_numbers_iff: "n \<in> live_numbers r \<longleftrightarrow> registry_lookup r (U64Index n) \<noteq> None"
  by (force simp: live_numbers_def)

lemma index_eq: "U64Index n = i \<longleftrightarrow> n = index_u64 i"
  by (cases i) simp

lemma live_numbers_add [simp]:
  "live_numbers (snd (registry_add p t r)) = insert (index_u64 (next_id r)) (live_numbers r)"
  by (auto simp: live_numbers_iff index_eq split: if_splits)

lemma live_numbers_remove [simp]: "live_numbers (registry_remove i r) = live_numbers r - {index_u64 i}"
  by (auto simp: live_numbers_iff index_eq split: if_splits)

lemma registry_remove_monitor:
  "\<exists>cs. monitor (registry_remove i r) = monitor r @ cs \<and>
     (cs = [] \<and> i \<notin> {i. registry_lookup r i \<noteq> None} \<or> cs = [Removed i])"
  by (auto simp: registry_remove_def registry_lookup_def split: option.splits)

text \<open>
  A run announces no live item again, and the items announced and not removed are the live ones.
\<close>

lemma registry_run_announces:
  assumes "registry_run ops r = (ids, r2)" and "registry_inv r"
    and "length (added_ids (monitor r2)) \<le> 2 ^ 64" and "set ns = live_numbers r"
  shows "\<exists>cs. monitor r2 = monitor r @ cs \<and> no_overlap ns (map change_track cs) \<and>
    set (fold keep_key (map change_track cs) ns) = live_numbers r2"
  using assms
proof (induction ops r arbitrary: ids ns rule: registry_run.induct)
  case (1 r)
  then show ?case by simp
next
  case (2 p t ops r)
  obtain i item r1 where add: "registry_add p t r = ((i, item), r1)" by (metis surj_pair)
  obtain ids' where run: "registry_run ops r1 = (ids', r2)"
    using 2(2) add by (auto simp: Let_def split: prod.splits)
  from add have r1: "r1 = snd (registry_add p t r)" and i: "i = next_id r" "monitor r1 = monitor r @ [Added i item]"
    by (auto simp: registry_add_def Let_def)
  have inv: "registry_inv r1" unfolding r1 by (rule registry_inv_add [OF 2(3)])
  have "length (added_ids (monitor r)) < 2 ^ 64"
    using registry_run_added [OF run inv] 2(4) i by simp
  with next_id_fresh [OF 2(3)] have "index_u64 i \<notin> live_numbers r" by (simp add: live_numbers_iff i)
  moreover have "set (index_u64 i # ns) = live_numbers r1" using 2(5) by (simp add: r1 i)
  from 2(1) [OF add [symmetric] refl refl run inv 2(4) this] obtain cs where
    "monitor r2 = monitor r1 @ cs" "no_overlap (index_u64 i # ns) (map change_track cs)"
    "set (fold keep_key (map change_track cs) (index_u64 i # ns)) = live_numbers r2" by blast
  ultimately show ?case using 2(5) i(2) by (intro exI [of _ "Added i item # cs"]) simp
next
  case (3 i ops r)
  from registry_remove_monitor [of i r] obtain cs1 where
    cs1: "monitor (registry_remove i r) = monitor r @ cs1"
      "cs1 = [] \<and> i \<notin> {i. registry_lookup r i \<noteq> None} \<or> cs1 = [Removed i]" by blast
  have ns: "set (fold keep_key (map change_track cs1) ns) = live_numbers (registry_remove i r)"
  proof (cases "cs1 = []")
    case True
    with cs1(2) have "index_u64 i \<notin> live_numbers r" by (simp add: live_numbers_iff)
    with True 3(5) show ?thesis by simp
  next
    case False
    with cs1(2) have "cs1 = [Removed i]" by simp
    with 3(5) show ?thesis by auto
  qed
  from 3(2) have run: "registry_run ops (registry_remove i r) = (ids, r2)" by (simp only: registry_run.simps)
  from 3(1) [OF run registry_inv_remove [OF 3(3)] 3(4) ns] obtain cs where
    cs: "monitor r2 = monitor (registry_remove i r) @ cs"
    "no_overlap (fold keep_key (map change_track cs1) ns) (map change_track cs)"
    "set (fold keep_key (map change_track cs) (fold keep_key (map change_track cs1) ns)) = live_numbers r2"
    by metis
  from cs1(2) have "no_overlap ns (map change_track (cs1 @ cs))" using cs(2) by auto
  with cs1(1) cs(1,3) show ?case by (intro exI [of _ "cs1 @ cs"]) simp
qed

subsection \<open>Changes the snapshot has already\<close>

text \<open>
  An item that has left the registry does not come back: its number is not handed out again.
\<close>

lemma registry_removed_stays:
  assumes "registry_run ops (registry_remove i r) = (ids, r')" and "registry_inv r"
    and "registry_lookup r i \<noteq> None" and "length (added_ids (monitor r')) \<le> 2 ^ 64"
  shows "registry_lookup r' i = None"
proof -
  let ?r = "registry_remove i r"
  have inv: "registry_inv ?r" by (rule registry_inv_remove [OF assms(2)])
  have "i \<in> set (added_ids (monitor r))"
    using assms(2,3) by (force simp: registry_inv_def registry_lookup_def dest: map_of_SomeD)
  then have "i \<in> set (added_ids (monitor ?r))" by simp
  moreover have "distinct (added_ids (monitor r'))"
    using registry_run_inv [OF assms(1) inv] assms(4) by (rule added_ids_distinct)
  ultimately have "i \<notin> set ids"
    using registry_run_added [OF assms(1) inv] by auto
  then show ?thesis by (intro registry_run_not_added [OF assms(1)]) simp
qed

lemma finite_live [simp]: "finite (live_numbers r)"
  by (simp add: live_numbers_def live_ids)

text \<open>
  Changes told before the snapshot, read after it: every item added by them that is still in the
  snapshot is announced again, and nothing else; in the end the keys are those of the snapshot.
\<close>

lemma registry_run_again:
  assumes "registry_run ops r = (ids, r1)" and "registry_inv r"
    and "length (added_ids (monitor r1)) \<le> 2 ^ 64"
    and "live_numbers r1 \<subseteq> set ns" and "set ns \<subseteq> live_numbers r1 \<union> live_numbers r"
  shows "\<exists>cs. monitor r1 = monitor r @ cs \<and> again ns (map change_track cs) = card (live_numbers r1 - live_numbers r) \<and>
    set (fold keep_key (map change_track cs) ns) = live_numbers r1"
  using assms
proof (induction ops r arbitrary: ids ns rule: registry_run.induct)
  case (1 r)
  then show ?case by auto
next
  case (2 p t ops r)
  obtain i item r' where add: "registry_add p t r = ((i, item), r')" by (metis surj_pair)
  obtain ids' where run: "registry_run ops r' = (ids', r1)"
    using 2(2) add by (auto simp: Let_def split: prod.splits)
  from add have r': "r' = snd (registry_add p t r)" and i: "i = next_id r" "monitor r' = monitor r @ [Added i item]"
    by (auto simp: registry_add_def Let_def)
  have inv: "registry_inv r'" unfolding r' by (rule registry_inv_add [OF 2(3)])
  have "length (added_ids (monitor r)) < 2 ^ 64"
    using registry_run_added [OF run inv] 2(4) i by simp
  with next_id_fresh [OF 2(3)] have new: "index_u64 i \<notin> live_numbers r" by (simp add: live_numbers_iff i)
  have live': "live_numbers r' = insert (index_u64 i) (live_numbers r)" by (simp add: r' i)
  have "live_numbers r1 \<subseteq> set (index_u64 i # ns)" "set (index_u64 i # ns) \<subseteq> live_numbers r1 \<union> live_numbers r'"
    using 2(5,6) by (auto simp: live')
  from 2(1) [OF add [symmetric] refl refl run inv 2(4) this] obtain cs where
    cs: "monitor r1 = monitor r' @ cs"
    "again (index_u64 i # ns) (map change_track cs) = card (live_numbers r1 - live_numbers r')"
    "set (fold keep_key (map change_track cs) (index_u64 i # ns)) = live_numbers r1" by blast
  have "card (live_numbers r1 - live_numbers r) =
      (if index_u64 i \<in> set ns then 1 else 0) + card (live_numbers r1 - live_numbers r')"
  proof (cases "index_u64 i \<in> set ns")
    case True
    with new 2(6) have "live_numbers r1 - live_numbers r = insert (index_u64 i) (live_numbers r1 - live_numbers r')"
      by (auto simp: live')
    with True show ?thesis by (simp add: live')
  next
    case False
    with 2(5) have "live_numbers r1 - live_numbers r = live_numbers r1 - live_numbers r'" by (auto simp: live')
    with False show ?thesis by simp
  qed
  with cs i(2) show ?case by (intro exI [of _ "Added i item # cs"]) simp
next
  case (3 i ops r)
  let ?r = "registry_remove i r"
  from 3(2) have run: "registry_run ops ?r = (ids, r1)" by (simp only: registry_run.simps)
  note inv = registry_inv_remove [OF 3(3), of i]
  show ?case
  proof (cases "registry_lookup r i = None")
    case True
    then have same: "?r = r" by (simp add: registry_remove_def registry_lookup_def)
    from 3(1) [OF run inv 3(4)] 3(5,6) show ?thesis unfolding same by blast
  next
    case False
    have gone: "index_u64 i \<notin> live_numbers r1"
      using registry_removed_stays [OF run 3(3) False 3(4)] by (simp add: live_numbers_iff)
    from False registry_remove_monitor [of i r] have mon: "monitor ?r = monitor r @ [Removed i]"
      by (auto simp: registry_remove_def registry_lookup_def split: option.splits)
    have "live_numbers r1 \<subseteq> set (removeAll (index_u64 i) ns)"
      "set (removeAll (index_u64 i) ns) \<subseteq> live_numbers r1 \<union> live_numbers ?r"
      using 3(5,6) gone by auto
    from 3(1) [OF run inv 3(4) this] obtain cs where
      cs: "monitor r1 = monitor ?r @ cs"
      "again (removeAll (index_u64 i) ns) (map change_track cs) = card (live_numbers r1 - live_numbers ?r)"
      "set (fold keep_key (map change_track cs) (removeAll (index_u64 i) ns)) = live_numbers r1" by blast
    have "live_numbers r1 - live_numbers ?r = live_numbers r1 - live_numbers r" using gone by auto
    with cs mon show ?thesis by (intro exI [of _ "Removed i # cs"]) simp
  qed
qed

subsection \<open>Its stream, as the provider reads it\<close>

lemma change_steps:
  "List.map_filter (announced t) (concat (map (event_steps t) (monitor_events (map Ok cs)))) = map change_track cs"
proof (induction cs)
  case (Cons c cs)
  then show ?case
    by (cases c) (simp_all add: List.map_filter_simps announced_def to_proto_item_def)
qed (simp add: List.map_filter_simps)

lemma snapshot_steps:
  "List.map_filter (announced t) (event_steps t (EventAdd (to_item_list r))) =
     map (\<lambda>i. TAdd (index_u64 i)) (registry_ids r)"
proof -
  have "List.map_filter (announced t) (map (\<lambda>i. AddStep t (pi_id i)) (map (\<lambda>(i, item). to_proto_item i item) m)) =
      map (\<lambda>i. TAdd (index_u64 i)) (map fst m)" for m :: "('a u64_index \<times> 'b Item) list"
    by (induction m) (auto simp: List.map_filter_simps announced_def to_proto_item_def)
  then show ?thesis by (simp add: to_item_list_def registry_ids_def)
qed

lemma no_overlap_adds:
  "no_overlap ns (map TAdd xs @ cs) \<longleftrightarrow>
     distinct xs \<and> set xs \<inter> set ns = {} \<and> no_overlap (rev xs @ ns) cs"
  by (induction xs arbitrary: ns) auto

lemma keep_adds: "fold keep_key (map TAdd xs) ns = rev xs @ ns"
  by (induction xs arbitrary: ns) auto

lemma map_filter_append: "List.map_filter f (xs @ ys) = List.map_filter f xs @ List.map_filter f ys"
  by (simp add: List.map_filter_def)

lemma monitor_steps_ok: "monitor_steps t (map Ok evs) = concat (map (event_steps t) evs) @ [EndStep t]"
  by (induction evs) simp_all

text \<open>
  The stream of a subscription in r0 and a listing in r1, read up to r2: the items added in
  between that are still listed are announced twice.
\<close>

lemma stream_announces:
  assumes "registry_run ops0 registry_new = (ids0, r0)" and "registry_run ops1 r0 = (ids1, r1)"
    and "registry_run ops2 r1 = (ids2, r2)" and "length ids0 + length ids1 + length ids2 \<le> 2 ^ 64"
    and steps: "provider_monitor_items t (Ok (map Ok (to_item_stream r1
        (map Ok (drop (registry_monitor r0) (monitor r2)))))) = steps @ [EndStep t]"
  shows "again [] (List.map_filter (announced t) steps) = card (live_numbers r1 - live_numbers r0) \<and>
    set (fold keep_key (List.map_filter (announced t) steps) []) = live_numbers r2"
proof -
  let ?ns = "map index_u64 (registry_ids r1)"
  note inv0 = registry_run_registry_inv [OF assms(1)]
  note inv1 = registry_run_inv [OF assms(2) inv0]
  note added = registry_run_added [OF assms(1) registry_inv_new] registry_run_added [OF assms(2) inv0]
    registry_run_added [OF assms(3) inv1]
  then have bounds: "length (added_ids (monitor r1)) \<le> 2 ^ 64" "length (added_ids (monitor r2)) \<le> 2 ^ 64"
    using assms(4) by (simp_all add: registry_new_def)
  have ns: "set (rev ?ns) = live_numbers r1" by (simp add: live_numbers_def live_ids)
  with registry_run_again [OF assms(2) inv0 bounds(1), of "rev ?ns"] obtain cs1 where
    cs1: "monitor r1 = monitor r0 @ cs1"
      "again (rev ?ns) (map change_track cs1) = card (live_numbers r1 - live_numbers r0)"
      "set (fold keep_key (map change_track cs1) (rev ?ns)) = live_numbers r1" by auto
  from registry_run_announces [OF assms(3) inv1 bounds(2) cs1(3)] obtain cs2 where
    cs2: "monitor r2 = monitor r1 @ cs2"
      "no_overlap (fold keep_key (map change_track cs1) (rev ?ns)) (map change_track cs2)"
      "set (fold keep_key (map change_track cs2) (fold keep_key (map change_track cs1) (rev ?ns))) = live_numbers r2"
    by blast
  have "steps = event_steps t (EventAdd (to_item_list r1)) @ concat (map (event_steps t) (monitor_events (map Ok (cs1 @ cs2))))"
    using steps cs1(1) cs2(1) by (simp add: provider_monitor_items_def monitor_steps_ok to_item_stream_def
        registry_monitor_def del: event_steps.simps map_append)
  then have anns: "List.map_filter (announced t) steps = map TAdd ?ns @ map change_track cs1 @ map change_track cs2"
    by (simp add: map_filter_append snapshot_steps change_steps comp_def del: event_steps.simps map_append)
      (simp add: map_append)
  have "distinct ?ns"
    using inv1 bt_inv_distinct [of "contents r1"]
    by (simp add: registry_inv_def registry_ids_def distinct_map inj_on_def u64_index.expand)
  then have "again [] (map TAdd ?ns) = 0" by (intro again_none) (simp add: no_overlap_adds [of _ _ "[]", simplified] del: map_map)
  with anns cs1(2) cs2(2,3) show ?thesis by (simp add: again_append again_none keep_adds del: map_map)
qed

subsection \<open>The mirror\<close>

definition local_ids :: "ItemType \<Rightarrow> Provider \<Rightarrow> u64 list" where
  "local_ids t pv =
     (case t of
        ItemConsole \<Rightarrow> map index_u64 (map snd (pv_consoles pv))
      | ItemActuator \<Rightarrow> map index_u64 (map snd (pv_actuators pv))
      | ItemDevice \<Rightarrow> map index_u64 (map snd (pv_devices pv))
      | ItemVolume \<Rightarrow> map index_u64 (map snd (pv_volumes pv)))"

lemma numbers_distinct: "distinct is \<Longrightarrow> distinct (map index_u64 is)"
  by (simp add: distinct_map inj_on_def u64_index.expand)

lemma numbers_disjoint: "A \<inter> B = {} \<Longrightarrow> index_u64 ` A \<inter> index_u64 ` B = {}"
  by (auto simp: disjoint_iff dest: u64_index.expand)

lemma numbers_lost: "card (index_u64 ` A - index_u64 ` B) = card (A - B)"
proof -
  have inj: "inj index_u64" by (rule injI) (rule u64_index.expand)
  show ?thesis by (simp add: image_set_diff [OF inj, symmetric] card_image [OF inj_on_subset [OF inj]])
qed

text \<open>
  C10. The mirror follows the remote. A remote registry takes any run of changes; the monitor
  handler subscribes in r0, lists in r1 and streams the changes from r0 on, so that the changes
  between the two are in the list and in the stream. While the connection is up, however its
  four streams are interleaved, the consoles (and likewise the actuators) that the provider
  mirrors are exactly those of the remote registry after the changes streamed so far, r2, and
  each has a local item of its own, beside the items the server had before. Any other local
  item is one left behind by the overlap: there are exactly as many of them as items that were
  added between the subscription and the list and are in the list, none when there is no such
  item.
\<close>

theorem mirror_follows_remote:
  assumes "t = ItemConsole \<or> t = ItemActuator"
    and "registry_run ops0 registry_new = (ids0, r0)" and "registry_run ops1 r0 = (ids1, r1)"
    and "registry_run ops2 r1 = (ids2, r2)" and "length ids0 + length ids1 + length ids2 \<le> 2 ^ 64"
    and "conn_run remote inst xs (s, w) = Done (s', w')"
    and "provider_monitor_items t (Ok (map Ok (to_item_stream r1
        (map Ok (drop (registry_monitor r0) (monitor r2)))))) = filter (\<lambda>x. step_type x = t) xs @ [EndStep t]"
    and "remote_ids t (bw_provider w) = []" and "registries_inv s" and "items_added t s' < 2 ^ 64"
  shows "set (remote_ids t (bw_provider w')) = live_numbers r2 \<and> distinct (remote_ids t (bw_provider w')) \<and>
    set (item_ids t s) \<union> set (local_ids t (bw_provider w')) \<subseteq> set (item_ids t s') \<and>
    set (item_ids t s) \<inter> set (local_ids t (bw_provider w')) = {} \<and> distinct (local_ids t (bw_provider w')) \<and>
    card (set (item_ids t s') - (set (item_ids t s) \<union> set (local_ids t (bw_provider w')))) =
      card (live_numbers r1 - live_numbers r0)"
proof -
  from stream_announces [OF assms(2-5,7)]
  have twice: "again [] (List.map_filter (announced t) xs) = card (live_numbers r1 - live_numbers r0)"
    and kept: "set (fold keep_key (List.map_filter (announced t) xs) []) = live_numbers r2"
    by (simp_all add: announced_filter)
  note run = assms(6) [unfolded conn_run_def]
  from assms(1) show ?thesis
  proof
    assume t: "t = ItemConsole"
    with mirror_consoles.run_mirrors [OF run] twice kept assms(8-10)
    show ?thesis
      by (simp add: remote_ids_def registries_inv_def items_added_def item_ids_def local_ids_def live_ids
          mirrored_consoles.adds_def mirrored_consoles.live_def mirrored_consoles.mine_def
          numbers_distinct numbers_disjoint numbers_lost image_mono image_Un [symmetric] del: map_map image_Un)
  next
    assume t: "t = ItemActuator"
    with mirror_actuators.run_mirrors [OF run] twice kept assms(8-10)
    show ?thesis
      by (simp add: remote_ids_def registries_inv_def items_added_def item_ids_def local_ids_def live_ids
          mirrored_actuators.adds_def mirrored_actuators.live_def mirrored_actuators.mine_def
          numbers_distinct numbers_disjoint numbers_lost image_mono image_Un [symmetric] del: map_map image_Un)
  qed
qed

lemma mirror_follows_remote_witness:
  "\<exists>s' w'. conn_run quiet_remote ''lab''
      [AddStep ItemConsole 0, AddStep ItemConsole 1, AddStep ItemVolume 7, AddStep ItemConsole 1,
       RemoveStep ItemConsole 0] (server_new [] ''/etc'', empty_world) = Done (s', w') \<and>
    set (remote_ids ItemConsole (bw_provider w')) = {1} \<and>
    card (set (item_ids ItemConsole s') - set (local_ids ItemConsole (bw_provider w'))) = 1"
proof -
  let ?xs = "[AddStep ItemConsole 0, AddStep ItemConsole 1, AddStep ItemVolume 7, AddStep ItemConsole 1,
    RemoveStep ItemConsole 0]"
  let ?add = "AddOp (properties_new ''v'') (5 :: nat)"
  let ?start = "server_new [] ''/etc'' :: (unit, (unit, unit) bs_world) Server"
  note reg = registry_add_def registry_new_def Let_def index_default_def index_next_def
  obtain ids0 and r0 :: "(ConsoleKind, nat) Registry" where
    r0: "registry_run [?add] registry_new = (ids0, r0)" by (metis surj_pair)
  obtain ids1 r1 where r1: "registry_run [?add] r0 = (ids1, r1)" by (metis surj_pair)
  obtain ids2 r2 where r2: "registry_run [RemoveOp (U64Index 0)] r1 = (ids2, r2)" by (metis surj_pair)
  let ?item = "item_new (properties_new ''v'') (5 :: nat)"
  from r0 have r0v: "r0 = \<lparr>monitor = [Added (U64Index 0) ?item], next_id = U64Index 1, contents = [(U64Index 0, ?item)]\<rparr>"
    and ids0: "ids0 = [U64Index 0]" by (auto simp: reg)
  from r1 have r1v: "monitor r1 = [Added (U64Index 0) ?item, Added (U64Index 1) ?item]"
    "contents r1 = [(U64Index 0, ?item), (U64Index 1, ?item)]" and ids1: "ids1 = [U64Index 1]"
    by (auto simp: r0v reg less_u64_index_def)
  from r2 have r2v: "monitor r2 = [Added (U64Index 0) ?item, Added (U64Index 1) ?item, Removed (U64Index 0)]"
    "contents r2 = [(U64Index 1, ?item)]" and ids2: "ids2 = []"
    by (auto simp: r1v registry_remove_def bt_remove_def)
  have "live_numbers r0 = {0}" "live_numbers r1 = {0, 1}"
    by (auto simp: r0v r1v live_numbers_iff registry_lookup_def split: if_splits)
  then have overlap: "card (live_numbers r1 - live_numbers r0) = 1" by simp
  have facts: "length ids0 + length ids1 + length ids2 \<le> 2 ^ 64" "live_numbers r2 = {1}"
    "provider_monitor_items ItemConsole (Ok (map Ok (to_item_stream r1
      (map Ok (drop (registry_monitor r0) (monitor r2)))))) =
      filter (\<lambda>x. step_type x = ItemConsole) ?xs @ [EndStep ItemConsole]"
    by (auto simp: r0v r1v r2v ids0 ids1 ids2 registry_monitor_def to_item_stream_def to_item_list_def
        provider_monitor_items_def to_proto_item_def live_numbers_iff registry_lookup_def split: if_splits)
  obtain s' w' where run: "conn_run quiet_remote ''lab'' ?xs (?start, empty_world) = Done (s', w')"
    and added: "items_added ItemConsole s' = 3"
    by (simp add: conn_run_def quiet_remote_def empty_world_def provider_add_item_def on_net_def add_console_def
        add_volume_def bs_volume_new_def register_console_def register_volume_def reg
        server_new_def conn_ops set_provider_def notify_all_def provider_new_def frame_simps items_added_def)
  have "remote_ids ItemConsole (bw_provider empty_world) = []" by (simp add: remote_ids_def empty_world_def provider_new_def)
  from mirror_follows_remote [OF disjI1 [OF refl] r0 r1 r2 facts(1) run facts(3) this registries_inv_new] added facts(2) overlap
  have "set (remote_ids ItemConsole (bw_provider w')) = {1}"
    "card (set (item_ids ItemConsole s') - (set (item_ids ItemConsole ?start) \<union>
        set (local_ids ItemConsole (bw_provider w')))) = 1" by simp_all
  moreover have "set (item_ids ItemConsole ?start) = {}"
    by (simp add: item_ids_def server_new_def registry_ids_def registry_new_def)
  ultimately show ?thesis using run by auto
qed

end
