(* ===== verification/Protocol.thy ===== *)
theory Protocol
  imports Prelude Complex_Main "HOL-Library.List_Lexorder" "HOL-Library.Char_ord"
begin

section \<open>Protocol parameters (boardswarm-protocol/src/lib.rs)\<close>

text \<open>
  The parameters of actuators and consoles travel as protobuf values: they are deserialized from
  YAML or JSON into \<^verbatim>\<open>ParamValue\<close>, and the servers deserialize their own types from it. The
  documents that serde reads are \<open>document\<close>, the calls a deserializer makes to a visitor are
  \<open>visit\<close>. The lemmas: what is built has no null and sorted, distinct keys, such a value survives
  the way through both directions, and integers do up to 2 to the 53 and not above.
\<close>

subsection \<open>Numbers\<close>

text \<open>
  A double is a finite number, an infinity or not a number; the sign of zero does not matter
  here. \<open>int_to_f64\<close> is the cast of an integer: to the nearest number of 53 bits, ties to even.
\<close>

datatype f64 = Finite rat | Infinite bool | NaN

function excess_bits :: "nat \<Rightarrow> nat" where
  "excess_bits m = (if m < 2 ^ 53 then 0 else Suc (excess_bits (m div 2)))"
  by auto
termination by (relation "measure id") auto

declare excess_bits.simps [simp del]

definition round_53 :: "nat \<Rightarrow> nat" where
  "round_53 m =
     (let b = excess_bits m; q = m div 2 ^ b; r = m mod 2 ^ b; half = 2 ^ (b - 1)
      in if b = 0 then m
         else (if r > half \<or> r = half \<and> odd q then q + 1 else q) * 2 ^ b)"

definition int_to_f64 :: "int \<Rightarrow> f64" where
  "int_to_f64 n = Finite (of_int (sgn n * int (round_53 (nat \<bar>n\<bar>))))"

definition fract_is_zero :: "f64 \<Rightarrow> bool" where
  "fract_is_zero v = (case v of Finite x \<Rightarrow> of_int \<lfloor>x\<rfloor> = x | _ \<Rightarrow> False)"

text \<open>\<^verbatim>\<open>v as i64\<close> truncates and saturates.\<close>

definition clamp :: "int \<Rightarrow> int \<Rightarrow> int \<Rightarrow> int" where
  "clamp lo hi n = max lo (min hi n)"

definition as_i64 :: "f64 \<Rightarrow> int" where
  "as_i64 v =
     (case v of
        Finite x \<Rightarrow> clamp (- (2 ^ 63)) (2 ^ 63 - 1) (if x \<ge> 0 then \<lfloor>x\<rfloor> else \<lceil>x\<rceil>)
      | Infinite positive \<Rightarrow> (if positive then 2 ^ 63 - 1 else - (2 ^ 63))
      | NaN \<Rightarrow> 0)"

datatype int_type = I8 | I16 | I32 | I64 | U8 | U16 | U32 | U64

fun int_min :: "int_type \<Rightarrow> int" where
  "int_min I8 = - (2 ^ 7)" | "int_min I16 = - (2 ^ 15)" | "int_min I32 = - (2 ^ 31)" | "int_min I64 = - (2 ^ 63)"
| "int_min U8 = 0" | "int_min U16 = 0" | "int_min U32 = 0" | "int_min U64 = 0"

fun int_max :: "int_type \<Rightarrow> int" where
  "int_max I8 = 2 ^ 7 - 1" | "int_max I16 = 2 ^ 15 - 1" | "int_max I32 = 2 ^ 31 - 1" | "int_max I64 = 2 ^ 63 - 1"
| "int_max U8 = 2 ^ 8 - 1" | "int_max U16 = 2 ^ 16 - 1" | "int_max U32 = 2 ^ 32 - 1" | "int_max U64 = 2 ^ 64 - 1"

definition fits :: "int_type \<Rightarrow> int \<Rightarrow> bool" where
  "fits ty n = (int_min ty \<le> n \<and> n \<le> int_max ty)"

subsection \<open>Values\<close>

text \<open>A \<^verbatim>\<open>prost_types::Value\<close>, its kind or none; the fields of a struct are a map ordered by key.\<close>

datatype param_value =
    NoKind
  | NullValue
  | NumberValue f64
  | StringValue string
  | BoolValue bool
  | StructValue "(string \<times> param_value) list"
  | ListValue "param_value list"

type_synonym Parameters = "(string \<times> param_value) list"

definition parameters_insert :: "string \<Rightarrow> param_value \<Rightarrow> Parameters \<Rightarrow> Parameters" where
  "parameters_insert k v p = bt_insert k v p"

text \<open>The documents serde deserializes from, as they call a visitor.\<close>

datatype document =
    DocNone
  | DocInt int
  | DocFloat f64
  | DocStr string
  | DocBool bool
  | DocMap "(string \<times> document) list"
  | DocSeq "document list"

text \<open>
  \<^verbatim>\<open>Deserialize for ParamValue\<close>: the visitor has no method for none and unit, so they are
  refused; the first entry or element that fails ends a map or a sequence.
\<close>

fun value_of :: "document \<Rightarrow> param_value option"
  and fields_of :: "(string \<times> document) list \<Rightarrow> Parameters \<Rightarrow> Parameters option"
  and values_of :: "document list \<Rightarrow> param_value list option" where
  "value_of DocNone = None"
| "value_of (DocInt n) = Some (NumberValue (int_to_f64 n))"
| "value_of (DocFloat v) = Some (NumberValue v)"
| "value_of (DocStr s) = Some (StringValue s)"
| "value_of (DocBool b) = Some (BoolValue b)"
| "value_of (DocMap es) = map_option StructValue (fields_of es [])"
| "value_of (DocSeq ds) = map_option ListValue (values_of ds)"
| "fields_of [] p = Some p"
| "fields_of ((k, d) # es) p =
     (case value_of d of None \<Rightarrow> None | Some v \<Rightarrow> fields_of es (parameters_insert k v p))"
| "values_of [] = Some []"
| "values_of (d # ds) =
     (case value_of d of
        None \<Rightarrow> None
      | Some v \<Rightarrow> (case values_of ds of None \<Rightarrow> None | Some vs \<Rightarrow> Some (v # vs)))"

text \<open>\<^verbatim>\<open>Deserialize for Parameters\<close> asks for a map.\<close>

definition parameters_of :: "document \<Rightarrow> Parameters option" where
  "parameters_of d = (case d of DocMap es \<Rightarrow> fields_of es [] | _ \<Rightarrow> None)"

subsection \<open>Values as deserializers\<close>

datatype visit =
    VisitNone
  | VisitF64 f64
  | VisitInt int_type int
  | VisitString string
  | VisitBool bool
  | VisitMap Parameters
  | VisitSeq "param_value list"

fun deserialize_any :: "param_value \<Rightarrow> visit" where
  "deserialize_any NoKind = VisitNone"
| "deserialize_any NullValue = VisitNone"
| "deserialize_any (NumberValue v) = VisitF64 v"
| "deserialize_any (StringValue s) = VisitString s"
| "deserialize_any (BoolValue b) = VisitBool b"
| "deserialize_any (StructValue p) = VisitMap p"
| "deserialize_any (ListValue vs) = VisitSeq vs"

definition deserialize_number :: "int_type \<Rightarrow> param_value \<Rightarrow> visit" where
  "deserialize_number ty v =
     (case v of
        NumberValue x \<Rightarrow>
          (if fract_is_zero x \<and> fits ty (as_i64 x) then VisitInt ty (as_i64 x) else deserialize_any v)
      | _ \<Rightarrow> deserialize_any v)"

text \<open>An integer type of the standard library takes the integers that fit, and no other call.\<close>

definition take_int :: "int_type \<Rightarrow> visit \<Rightarrow> int option" where
  "take_int ty v = (case v of VisitInt t n \<Rightarrow> (if fits ty n then Some n else None) | _ \<Rightarrow> None)"

definition deserialize_int :: "int_type \<Rightarrow> param_value \<Rightarrow> int option" where
  "deserialize_int ty v = take_int ty (deserialize_number ty v)"

text \<open>The document a visitor sees when it asks for anything, all the way down.\<close>

fun seen_as :: "param_value \<Rightarrow> document" where
  "seen_as NoKind = DocNone"
| "seen_as NullValue = DocNone"
| "seen_as (NumberValue v) = DocFloat v"
| "seen_as (StringValue s) = DocStr s"
| "seen_as (BoolValue b) = DocBool b"
| "seen_as (StructValue p) = DocMap (map (\<lambda>(k, v). (k, seen_as v)) p)"
| "seen_as (ListValue vs) = DocSeq (map seen_as vs)"

subsection \<open>Round trips\<close>

text \<open>No null anywhere, and the keys of every struct in order, none twice.\<close>

fun wf_value :: "param_value \<Rightarrow> bool" where
  "wf_value NoKind = False"
| "wf_value NullValue = False"
| "wf_value (StructValue p) = (sorted_wrt (<) (map fst p) \<and> list_all (\<lambda>(k, v). wf_value v) p)"
| "wf_value (ListValue vs) = list_all wf_value vs"
| "wf_value _ = True"

definition wf_parameters :: "Parameters \<Rightarrow> bool" where
  "wf_parameters p \<longleftrightarrow> wf_value (StructValue p)"

lemma wf_insert:
  assumes "wf_parameters p" "wf_value v"
  shows "wf_parameters (parameters_insert k v p)"
proof -
  have "list_all (\<lambda>(k, v). wf_value v) p \<Longrightarrow> list_all (\<lambda>(k, v). wf_value v) (bt_insert k v p)"
    using assms(2) by (induction k v p rule: bt_insert.induct) auto
  with assms bt_inv_insert [of p k v] show ?thesis
    by (simp add: wf_parameters_def parameters_insert_def bt_inv_def)
qed

lemma built_wf:
  "value_of d = Some v \<Longrightarrow> wf_value v"
  "fields_of es p = Some p' \<Longrightarrow> wf_parameters p \<Longrightarrow> wf_parameters p'"
  "values_of ds = Some vs \<Longrightarrow> list_all wf_value vs"
proof (induction d and es p and ds arbitrary: v and p' and vs rule: value_of_fields_of_values_of.induct)
  case (6 es)
  then show ?case by (auto simp: wf_parameters_def simp del: wf_value.simps) (auto simp: wf_parameters_def)
next
  case (9 k d es p)
  then show ?case by (auto split: option.splits intro: wf_insert)
qed (auto split: option.splits)

text \<open>
  C29. Every value that is built from a document is well formed: it has no null anywhere, and
  the fields of its structs are in order, none twice.
\<close>

theorem param_value_wf:
  "pred_option wf_value (value_of d) \<and> pred_option wf_parameters (parameters_of d)"
  using built_wf(1) [of d] built_wf(2) [of _ "[]"]
  by (auto simp: pred_option_def parameters_of_def wf_parameters_def split: document.splits elim: option.set_cases)

lemma fields_of_sorted:
  assumes "\<And>k v. (k, v) \<in> set p \<Longrightarrow> value_of (seen_as v) = Some v"
    and "sorted_wrt (<) (map fst (q @ p))"
  shows "fields_of (map (\<lambda>(k, v). (k, seen_as v)) p) q = Some (q @ p)"
  using assms
proof (induction p arbitrary: q)
  case (Cons e p)
  obtain k v where e: "e = (k, v)" by force
  have "\<forall>k' \<in> fst ` set q. k' < k" using Cons.prems(2) e by (auto simp: sorted_wrt_append)
  then have "parameters_insert k v q = q @ [(k, v)]"
    unfolding parameters_insert_def by (rule bt_insert_last)
  moreover have "value_of (seen_as v) = Some v" using Cons.prems(1) [of k v] e by simp
  moreover have "fields_of (map (\<lambda>(k, v). (k, seen_as v)) p) (q @ [(k, v)]) = Some ((q @ [(k, v)]) @ p)"
    using Cons.prems e by (intro Cons.IH) auto
  ultimately show ?case by (simp add: e)
qed simp

lemma values_of_map:
  "(\<And>v. v \<in> set vs \<Longrightarrow> value_of (seen_as v) = Some v) \<Longrightarrow> values_of (map seen_as vs) = Some vs"
  by (induction vs) auto

text \<open>
  C30. Parameters survive being passed on: a well-formed value, deserialized as a value from
  what it shows as a deserializer, is itself again, and so are whole parameters.
\<close>

theorem param_value_roundtrip:
  assumes "wf_value v"
  shows "value_of (seen_as v) = Some v \<and>
    (case v of StructValue p \<Rightarrow> parameters_of (seen_as v) = Some p | _ \<Rightarrow> parameters_of (seen_as v) = None)"
proof -
  have round: "value_of (seen_as v) = Some v" if "wf_value v" for v
    using that
  proof (induction v)
    case (StructValue p)
    have "value_of (seen_as v) = Some v" if "(k, v) \<in> set p" for k v
      using StructValue.IH [OF that] StructValue.prems that by (auto simp: list_all_iff)
    from fields_of_sorted [where p = p and q = "[]", OF this] StructValue.prems show ?case by simp
  next
    case (ListValue vs)
    have "values_of (map seen_as vs) = Some vs"
      using ListValue by (intro values_of_map) (simp_all add: list_all_iff)
    then show ?case by simp
  qed simp_all
  show ?thesis
  proof (cases v)
    case (StructValue p)
    with round [OF assms] have "fields_of (map (\<lambda>(k, v). (k, seen_as v)) p) [] = Some p" by simp
    with round [OF assms] StructValue show ?thesis by (simp add: parameters_of_def)
  qed (use round [OF assms] in \<open>simp_all add: parameters_of_def\<close>)
qed

lemma param_value_roundtrip_witness:
  "value_of (DocMap [(''list'', DocSeq [DocStr ''a'', DocFloat (Finite 2)]), (''mode'', DocStr ''on'')]) =
     Some (StructValue [(''list'', ListValue [StringValue ''a'', NumberValue (Finite 2)]), (''mode'', StringValue ''on'')])"
proof -
  have "''list'' < ''mode''" by code_simp
  then have "wf_value (StructValue [(''list'', ListValue [StringValue ''a'', NumberValue (Finite 2)]), (''mode'', StringValue ''on'')])"
    by simp
  from param_value_roundtrip [OF this] show ?thesis by simp
qed

text \<open>A null, which YAML and JSON have, is refused anywhere in the parameters.\<close>

lemma param_null_refused:
  "value_of DocNone = None" "value_of (DocMap [(k, DocNone)]) = None" "value_of (DocSeq [d, DocNone]) = None"
  by (simp_all split: option.split)

subsection \<open>Integers\<close>

lemma round_53_small: "m < 2 ^ 53 \<Longrightarrow> round_53 m = m"
  by (simp add: round_53_def excess_bits.simps [of m] Let_def)

text \<open>
  C31. An integer of magnitude below 2 to the 53 survives the way through a parameter: read back
  as its own type it is the same, and read as another type it is the same or refused.
\<close>

theorem param_int_roundtrip:
  assumes "\<bar>n\<bar> < 2 ^ 53"
  shows "map_option (deserialize_int ty) (value_of (DocInt n)) = Some (if fits ty n then Some n else None)"
proof -
  have "nat \<bar>n\<bar> < 2 ^ 53" using assms by (simp add: nat_less_iff)
  then have "int_to_f64 n = Finite (of_int n)"
    by (simp add: int_to_f64_def round_53_small sgn_if flip: of_int_mult)
  moreover have "as_i64 (Finite (of_int n)) = n"
    using assms by (simp add: as_i64_def clamp_def)
  moreover have "fract_is_zero (Finite (of_int n))" by (simp add: fract_is_zero_def)
  ultimately show ?thesis
    by (simp add: deserialize_int_def deserialize_number_def take_int_def)
qed

lemma param_int_roundtrip_witness:
  "map_option (deserialize_int U32) (value_of (DocInt 115200)) = Some (Some 115200) \<and>
   map_option (deserialize_int U16) (value_of (DocInt 115200)) = Some None"
  using param_int_roundtrip [of 115200 U32] param_int_roundtrip [of 115200 U16] by (simp add: fits_def)

text \<open>
  The unit test \<^verbatim>\<open>test_deserialize\<close>: a document as a JSON reader calls it, and the parameters that
  come of it, ordered by key.
\<close>

lemma deserialize_test:
  fixes fields :: "(string \<times> document) list"
  defines "fields \<equiv> [(''number'', DocInt 115200), (''bool'', DocBool True), (''string'', DocStr ''gnirts''),
    (''list'', DocSeq [DocStr ''a'', DocInt 2])]"
    and "params \<equiv> [(''bool'', BoolValue True), (''list'', ListValue [StringValue ''a'', NumberValue (Finite 2)]),
      (''number'', NumberValue (Finite 115200)), (''string'', StringValue ''gnirts'')]"
  shows "parameters_of (DocMap (fields @ [(''struct'', DocMap fields)])) =
    Some (params @ [(''struct'', StructValue params)])"
  by (simp add: fields_def params_def parameters_of_def parameters_insert_def int_to_f64_def round_53_def Let_def
      excess_bits.simps)

text \<open>
  Above, an integer may be rounded, and an unsigned one from 2 to the 63 on is read back as the
  largest signed one: a wrong number, not an error.
\<close>

lemma param_int_rounded: "map_option (deserialize_int I64) (value_of (DocInt (2 ^ 53 + 1))) = Some (Some (2 ^ 53))"
proof -
  have "excess_bits (2 ^ 53 + 1) = 1" by (simp add: excess_bits.simps)
  then have "round_53 (2 ^ 53 + 1) = 2 ^ 53" by (simp add: round_53_def Let_def)
  then have "int_to_f64 (2 ^ 53 + 1) = Finite (of_int (2 ^ 53))" by (simp add: int_to_f64_def nat_add_distrib)
  then show ?thesis
    by (simp add: deserialize_int_def deserialize_number_def take_int_def fract_is_zero_def as_i64_def clamp_def fits_def)
qed

lemma param_int_saturates: "map_option (deserialize_int U64) (value_of (DocInt (2 ^ 63))) = Some (Some (2 ^ 63 - 1))"
proof -
  have "excess_bits (2 ^ 63) = 11" by (simp add: excess_bits.simps)
  then have "round_53 (2 ^ 63) = 2 ^ 63" by (simp add: round_53_def Let_def)
  then have "int_to_f64 (2 ^ 63) = Finite (of_int (2 ^ 63))" by (simp add: int_to_f64_def)
  then show ?thesis
    by (simp add: deserialize_int_def deserialize_number_def take_int_def fract_is_zero_def as_i64_def clamp_def fits_def)
qed

end
