(* ===== verification/Volume_Client.thy ===== *)
theory Volume_Client
  imports Volume_Api
begin

section \<open>The client side of a volume (boardswarm-client/src/client.rs)\<close>

text \<open>
  \<^verbatim>\<open>VolumeIo\<close> sends requests and a task resolves them, in the order they were sent, with the
  replies of the server. \<^verbatim>\<open>VolumeIoRW\<close> makes a byte stream of it: a poll machine whose
  states are the one operation it waits for. The model keeps the requests sent so far; a
  request is named by its position among them, and an environment tells for each poll
  whether the channel has room and which requests are resolved. The lemmas: a stream of
  writes covers consecutive places, a flush that returns has waited for everything before
  it, seeks saturate, and what the task makes of any reply stream.
\<close>

subsection \<open>Opening a target\<close>

text \<open>
  The first reply of \<^verbatim>\<open>volume_io\<close>: what \<^verbatim>\<open>replies.message()\<close> yields, \<open>None\<close> being the end.
\<close>

definition open_reply :: "(status, VolumeIoReplyMsg option) result \<Rightarrow> (status, VolumeTargetInfo) result" where
  "open_reply r =
     (case r of
        Err e \<Rightarrow> Err e
      | Ok (Some (Some (RepTarget target))) \<Rightarrow>
          ok_or (Status FailedPrecondition ''Empty target reply'') target
      | Ok _ \<Rightarrow> Err (Status FailedPrecondition ''Didn't get Target reply as expected''))"

subsection \<open>The task that resolves requests\<close>

datatype Outstanding = OutWrite | OutRead | OutFlush | OutShutdown

text \<open>What the future of a request yields.\<close>

datatype completion = CompWrite u64 | CompRead bytes | CompFlush | CompShutdown

definition unmatched :: status where
  "unmatched = Status FailedPrecondition ''Unmatched client request and server reply''"

text \<open>The future of a request whose sender was dropped (\<^verbatim>\<open>unwrap_or_else\<close> in the polls).\<close>

fun not_received :: "Outstanding \<Rightarrow> status" where
  "not_received OutShutdown = Status Aborted ''Shutdown request not received: RecvError(())''"
| "not_received _ = Status Aborted ''Request not received''"

fun match_reply :: "Outstanding \<Rightarrow> Reply \<Rightarrow> completion option" where
  "match_reply OutRead (RepRead d) = Some (CompRead d)"
| "match_reply OutWrite (RepWrite n) = Some (CompWrite n)"
| "match_reply OutFlush RepFlush = Some CompFlush"
| "match_reply OutShutdown RepShutdown = Some CompShutdown"
| "match_reply _ _ = None"

text \<open>
  \<^verbatim>\<open>monitor_task\<close> over the replies the stream yields before it ends: the results of the
  outstanding requests. After a \<^verbatim>\<open>break\<close> the remaining senders are dropped.
\<close>

fun monitor_task ::
  "(status, VolumeIoReplyMsg) result list \<Rightarrow> Outstanding list \<Rightarrow> (status, completion) result list" where
  "monitor_task replies [] = []"
| "monitor_task [] (o1 # os) = Err unmatched # map (\<lambda>x. Err (not_received x)) os"
| "monitor_task (Err s # replies) (o1 # os) = Err s # monitor_task replies os"
| "monitor_task (Ok None # replies) (o1 # os) =
     Err (Status Internal ''Reply didn't have reply data'') # monitor_task replies os"
| "monitor_task (Ok (Some reply) # replies) (o1 # os) =
     (case match_reply o1 reply of
        Some c \<Rightarrow> Ok c # monitor_task replies os
      | None \<Rightarrow> Err unmatched # map (\<lambda>x. Err (not_received x)) os)"

text \<open>The request and the outstanding entry of each kind (\<^verbatim>\<open>prepare_*\<close>).\<close>

fun outstanding_of :: "TargetOrRequest \<Rightarrow> Outstanding" where
  "outstanding_of (ReqWrite d off) = OutWrite"
| "outstanding_of (ReqRead n off) = OutRead"
| "outstanding_of ReqFlush = OutFlush"
| "outstanding_of _ = OutShutdown"

subsection \<open>The poll machine\<close>

datatype io_error = Unsupported string | NotConnected | InvalidInput string | IoOther status

datatype 'a polled = Polled "'a poll" | PollPanicked

datatype SeekFrom = SeekStart u64 | SeekEnd i64 | SeekCurrent i64

text \<open>
  \<open>Reserve True\<close> is a reservation that has already failed: the future is finished, and
  polling it again panics.
\<close>

datatype io_state = Idle | Reserve bool | Flushing | ShuttingDown | Reading nat

datatype pending = PWrite nat | PFlush nat | PShutdown nat

fun pending_id :: "pending \<Rightarrow> nat" where
  "pending_id (PWrite n) = n" | "pending_id (PFlush n) = n" | "pending_id (PShutdown n) = n"

record VolumeIoRW =
  rw_sent :: "TargetOrRequest list"
  rw_info :: VolumeTargetInfo
  rw_pos :: u64
  rw_state :: io_state
  rw_pending_seek :: "SeekFrom option"
  rw_pending :: "pending list"
  rw_buffered_read :: bytes

text \<open>
  The environment of a poll: what polling a reservation of the channel yields (\<open>False\<close> when
  the channel is closed), and what polling the futures of the requests yields.
\<close>

record poll_env =
  env_reserve :: "bool poll"
  env_done :: "nat \<Rightarrow> (status, unit) result poll"
  env_read :: "nat \<Rightarrow> (status, bytes) result poll"

definition MAX_WRITE_SIZE :: nat where
  "MAX_WRITE_SIZE = 3 * 1024 * 1024"

definition rw_new :: "VolumeTargetInfo \<Rightarrow> VolumeIoRW" where
  "rw_new info =
     \<lparr>rw_sent = [], rw_info = info, rw_pos = 0, rw_state = Idle, rw_pending_seek = None,
      rw_pending = [], rw_buffered_read = []\<rparr>"

definition u64_saturating_add :: "u64 \<Rightarrow> u64 \<Rightarrow> u64" where
  "u64_saturating_add a b = (if unat a + unat b < 2 ^ 64 then a + b else -1)"

definition u64_saturating_sub :: "u64 \<Rightarrow> u64 \<Rightarrow> u64" where
  "u64_saturating_sub a b = (if b \<le> a then a - b else 0)"

fun cleanup_pending :: "poll_env \<Rightarrow> pending list \<Rightarrow> (io_error, unit) result \<times> pending list" where
  "cleanup_pending env [] = (Ok (), [])"
| "cleanup_pending env (p # ps) =
     (case env_done env (pending_id p) of
        Ready (Ok _) \<Rightarrow> cleanup_pending env ps
      | Ready (Err s) \<Rightarrow> (Err (IoOther s), ps)
      | Pending \<Rightarrow> (Ok (), p # ps))"

definition cleanup_pending_requests ::
  "poll_env \<Rightarrow> VolumeIoRW \<Rightarrow> (io_error, unit) result \<times> VolumeIoRW" where
  "cleanup_pending_requests env rw =
     (let (r, ps) = cleanup_pending env (rw_pending rw) in (r, rw\<lparr>rw_pending := ps\<rparr>))"

text \<open>\<open>remaining\<close> is the room in the caller's buffer; the result is what is copied into it.\<close>

definition copy_buffered_read :: "nat \<Rightarrow> VolumeIoRW \<Rightarrow> bytes option \<times> VolumeIoRW" where
  "copy_buffered_read remaining rw =
     (if rw_buffered_read rw \<noteq> [] then
        (let available = min remaining (length (rw_buffered_read rw)) in
         (Some (take available (rw_buffered_read rw)),
          rw\<lparr>rw_buffered_read := drop available (rw_buffered_read rw),
             rw_pos := u64_saturating_add (rw_pos rw) (of_nat available)\<rparr>))
      else (None, rw))"

definition invalidate_read_buffer :: "VolumeIoRW \<Rightarrow> VolumeIoRW" where
  "invalidate_read_buffer rw = rw\<lparr>rw_buffered_read := []\<rparr>"

text \<open>A request goes to the channel when a reservation is granted.\<close>

definition send_request :: "TargetOrRequest \<Rightarrow> VolumeIoRW \<Rightarrow> VolumeIoRW" where
  "send_request q rw = rw\<lparr>rw_sent := rw_sent rw @ [q]\<rparr>"

function write_loop_rw :: "poll_env \<Rightarrow> bytes \<Rightarrow> VolumeIoRW \<Rightarrow> (io_error, nat) result polled \<times> VolumeIoRW" where
  "write_loop_rw env buf rw =
     (case rw_state rw of
        Idle \<Rightarrow> write_loop_rw env buf (rw\<lparr>rw_state := Reserve False\<rparr>)
      | Reserve True \<Rightarrow> (PollPanicked, rw)
      | Reserve False \<Rightarrow>
          (case env_reserve env of
             Pending \<Rightarrow> (Polled Pending, rw)
           | Ready True \<Rightarrow>
               (let len = min (length buf) MAX_WRITE_SIZE;
                    rw1 = rw\<lparr>rw_pending := rw_pending rw @ [PWrite (length (rw_sent rw))]\<rparr>;
                    rw2 = send_request (ReqWrite (take len buf) (rw_pos rw)) rw1
                in (Polled (Ready (Ok len)),
                    rw2\<lparr>rw_pos := u64_saturating_add (rw_pos rw) (of_nat len), rw_state := Idle\<rparr>))
           | Ready False \<Rightarrow> (Polled (Ready (Err NotConnected)), rw\<lparr>rw_state := Reserve True\<rparr>))
      | _ \<Rightarrow> write_loop_rw env buf (rw\<lparr>rw_state := Idle\<rparr>))"
  by pat_completeness auto

fun write_rank :: "io_state \<Rightarrow> nat" where
  "write_rank (Reserve b) = 0" | "write_rank Idle = 1" | "write_rank _ = 2"

termination write_loop_rw
  by (relation "measure (\<lambda>(env, buf, rw). write_rank (rw_state rw))") (auto split: io_state.splits)

declare write_loop_rw.simps [simp del]

definition rw_poll_write ::
  "poll_env \<Rightarrow> bytes \<Rightarrow> VolumeIoRW \<Rightarrow> (io_error, nat) result polled \<times> VolumeIoRW" where
  "rw_poll_write env buf rw =
     (if \<not> writable (rw_info rw)
      then (Polled (Ready (Err (Unsupported ''Target doesn't support writing''))), rw)
      else
        (case cleanup_pending_requests env (invalidate_read_buffer rw) of
           (Err e, rw1) \<Rightarrow> (Polled (Ready (Err e)), rw1)
         | (Ok _, rw1) \<Rightarrow> write_loop_rw env buf rw1))"

function rw_poll_flush :: "poll_env \<Rightarrow> VolumeIoRW \<Rightarrow> (io_error, unit) result polled \<times> VolumeIoRW" where
  "rw_poll_flush env rw =
     (case cleanup_pending_requests env rw of
        (Err e, rw1) \<Rightarrow> (Polled (Ready (Err e)), rw1\<lparr>rw_state := Idle\<rparr>)
      | (Ok _, rw1) \<Rightarrow>
          (case rw_state rw1 of
             Idle \<Rightarrow> rw_poll_flush env (rw1\<lparr>rw_state := Reserve False\<rparr>)
           | Reserve True \<Rightarrow> (PollPanicked, rw1)
           | Reserve False \<Rightarrow>
               (case env_reserve env of
                  Pending \<Rightarrow> (Polled Pending, rw1)
                | Ready True \<Rightarrow>
                    rw_poll_flush env (send_request ReqFlush
                      (rw1\<lparr>rw_pending := rw_pending rw1 @ [PFlush (length (rw_sent rw1))],
                           rw_state := Flushing\<rparr>))
                | Ready False \<Rightarrow> (Polled (Ready (Err NotConnected)), rw1\<lparr>rw_state := Reserve True\<rparr>))
           | Flushing \<Rightarrow>
               (if rw_pending rw1 = [] then (Polled (Ready (Ok ())), rw1\<lparr>rw_state := Idle\<rparr>)
                else (Polled Pending, rw1))
           | Reading n \<Rightarrow> rw_poll_flush env (rw1\<lparr>rw_state := Idle\<rparr>)
           | ShuttingDown \<Rightarrow> (Polled (Ready (Err (InvalidInput ''Flush after shutdown''))), rw1)))"
  by pat_completeness auto

fun flush_rank :: "io_state \<Rightarrow> nat" where
  "flush_rank (Reading n) = 3" | "flush_rank Idle = 2" | "flush_rank (Reserve b) = 1"
| "flush_rank _ = 0"

lemma cleanup_state: "cleanup_pending_requests env rw = (r, rw1) \<Longrightarrow> rw_state rw1 = rw_state rw"
  by (auto simp: cleanup_pending_requests_def Let_def split: prod.splits)

termination rw_poll_flush
  by (relation "measure (\<lambda>(env, rw). flush_rank (rw_state rw))")
     (auto simp: send_request_def dest!: cleanup_state [OF sym])

declare rw_poll_flush.simps [simp del]

function rw_poll_shutdown :: "poll_env \<Rightarrow> VolumeIoRW \<Rightarrow> (io_error, unit) result polled \<times> VolumeIoRW" where
  "rw_poll_shutdown env rw =
     (case cleanup_pending_requests env rw of
        (Err e, rw1) \<Rightarrow> (Polled (Ready (Err e)), rw1\<lparr>rw_state := Idle\<rparr>)
      | (Ok _, rw1) \<Rightarrow>
          (case rw_state rw1 of
             Idle \<Rightarrow> rw_poll_shutdown env (rw1\<lparr>rw_state := Reserve False\<rparr>)
           | Reserve True \<Rightarrow> (PollPanicked, rw1)
           | Reserve False \<Rightarrow>
               (case env_reserve env of
                  Pending \<Rightarrow> (Polled Pending, rw1)
                | Ready True \<Rightarrow>
                    rw_poll_shutdown env (send_request ReqShutdown
                      (rw1\<lparr>rw_pending := rw_pending rw1 @ [PShutdown (length (rw_sent rw1))],
                           rw_state := ShuttingDown\<rparr>))
                | Ready False \<Rightarrow> (Polled (Ready (Err NotConnected)), rw1\<lparr>rw_state := Reserve True\<rparr>))
           | ShuttingDown \<Rightarrow>
               (if rw_pending rw1 = [] then (Polled (Ready (Ok ())), rw1\<lparr>rw_state := Idle\<rparr>)
                else (Polled Pending, rw1))
           | _ \<Rightarrow> rw_poll_shutdown env (rw1\<lparr>rw_state := Idle\<rparr>)))"
  by pat_completeness auto

fun shutdown_rank :: "io_state \<Rightarrow> nat" where
  "shutdown_rank (Reading n) = 3" | "shutdown_rank Flushing = 3" | "shutdown_rank Idle = 2"
| "shutdown_rank (Reserve b) = 1" | "shutdown_rank ShuttingDown = 0"

termination rw_poll_shutdown
  by (relation "measure (\<lambda>(env, rw). shutdown_rank (rw_state rw))")
     (auto simp: send_request_def dest!: cleanup_state [OF sym])

declare rw_poll_shutdown.simps [simp del]

text \<open>\<open>remaining\<close> is the room in the buffer; a ready result carries what was put into it.\<close>

function read_loop_rw :: "poll_env \<Rightarrow> nat \<Rightarrow> VolumeIoRW \<Rightarrow> (io_error, bytes) result polled \<times> VolumeIoRW" where
  "read_loop_rw env remaining rw =
     (case rw_state rw of
        Idle \<Rightarrow> read_loop_rw env remaining (rw\<lparr>rw_state := Reserve False\<rparr>)
      | Reserve True \<Rightarrow> (PollPanicked, rw)
      | Reserve False \<Rightarrow>
          (case env_reserve env of
             Pending \<Rightarrow> (Polled Pending, rw)
           | Ready True \<Rightarrow>
               read_loop_rw env remaining (send_request (ReqRead (of_nat remaining) (rw_pos rw))
                 (rw\<lparr>rw_state := Reading (length (rw_sent rw))\<rparr>))
           | Ready False \<Rightarrow> (Polled (Ready (Err NotConnected)), rw\<lparr>rw_state := Reserve True\<rparr>))
      | Reading n \<Rightarrow>
          (case env_read env n of
             Pending \<Rightarrow> (Polled Pending, rw)
           | Ready (Err e) \<Rightarrow> (Polled (Ready (Err (IoOther e))), rw\<lparr>rw_state := Idle\<rparr>)
           | Ready (Ok b) \<Rightarrow>
               (let (copied, rw1) = copy_buffered_read remaining (rw\<lparr>rw_state := Idle, rw_buffered_read := b\<rparr>)
                in (Polled (Ready (Ok (case copied of Some d \<Rightarrow> d | None \<Rightarrow> []))), rw1)))
      | _ \<Rightarrow> read_loop_rw env remaining (rw\<lparr>rw_state := Idle\<rparr>))"
  by pat_completeness auto

fun read_rank :: "io_state \<Rightarrow> nat" where
  "read_rank Flushing = 3" | "read_rank ShuttingDown = 3" | "read_rank Idle = 2"
| "read_rank (Reserve b) = 1" | "read_rank (Reading n) = 0"

termination read_loop_rw
  by (relation "measure (\<lambda>(env, n, rw). read_rank (rw_state rw))") (auto simp: send_request_def)

declare read_loop_rw.simps [simp del]

definition rw_poll_read ::
  "poll_env \<Rightarrow> nat \<Rightarrow> VolumeIoRW \<Rightarrow> (io_error, bytes) result polled \<times> VolumeIoRW" where
  "rw_poll_read env remaining rw =
     (if \<not> readable (rw_info rw)
      then (Polled (Ready (Err (Unsupported ''Target doesn't support reading''))), rw)
      else
        (case copy_buffered_read remaining rw of
           (Some d, rw1) \<Rightarrow> (Polled (Ready (Ok d)), rw1)
         | (None, rw1) \<Rightarrow> read_loop_rw env remaining rw1))"

definition rw_start_seek :: "SeekFrom \<Rightarrow> VolumeIoRW \<Rightarrow> (io_error, unit) result \<times> VolumeIoRW" where
  "rw_start_seek position rw =
     (if seekable (rw_info rw) then (Ok (), rw\<lparr>rw_pending_seek := Some position\<rparr>)
      else (Err (Unsupported ''Target doesn't support seek''), rw))"

text \<open>The position a seek from \<open>base\<close> by \<open>offset\<close> leads to.\<close>

definition seek_from :: "u64 \<Rightarrow> i64 \<Rightarrow> u64" where
  "seek_from base offset =
     (if sint offset > 0 then u64_saturating_add base offset
      else u64_saturating_sub base (word_of_int \<bar>sint offset\<bar>))"

definition rw_poll_complete :: "VolumeIoRW \<Rightarrow> (io_error, u64) result \<times> VolumeIoRW" where
  "rw_poll_complete rw =
     (if \<not> seekable (rw_info rw) then (Err (Unsupported ''Target doesn't support seek''), rw)
      else
        (let rw1 = rw\<lparr>rw_pending_seek := None\<rparr> in
         case rw_pending_seek rw of
           None \<Rightarrow> (Ok (rw_pos rw), rw)
         | Some (SeekStart s) \<Rightarrow> (Ok (seek_from s 0), rw1\<lparr>rw_pos := seek_from s 0\<rparr>)
         | Some (SeekEnd e) \<Rightarrow>
             (case target_size (rw_info rw) of
                None \<Rightarrow> (Err (Unsupported ''Target has no known size''), rw1)
              | Some sz \<Rightarrow> (Ok (seek_from sz e), rw1\<lparr>rw_pos := seek_from sz e\<rparr>))
         | Some (SeekCurrent off) \<Rightarrow>
             (Ok (seek_from (rw_pos rw) off), rw1\<lparr>rw_pos := seek_from (rw_pos rw) off\<rparr>)))"

subsection \<open>What single polls do\<close>

lemma cleanup_frame [frame_simps]:
  assumes "cleanup_pending_requests env rw = (r, rw1)"
  shows "rw_sent rw1 = rw_sent rw" "rw_pos rw1 = rw_pos rw" "rw_info rw1 = rw_info rw"
    "rw_state rw1 = rw_state rw" "rw_buffered_read rw1 = rw_buffered_read rw"
  using assms by (auto simp: cleanup_pending_requests_def Let_def split: prod.splits)

lemma cleanup_pending_ok:
  "cleanup_pending env ps = (Ok u, ps') \<Longrightarrow>
   \<exists>qs. ps = qs @ ps' \<and> (\<forall>q \<in> set qs. env_done env (pending_id q) = Ready (Ok ()))"
proof (induction ps)
  case (Cons p ps)
  show ?case
  proof (cases "env_done env (pending_id p)")
    case (Ready r)
    with Cons.prems obtain v where r: "r = Ok v" by (cases r) auto
    with Ready Cons obtain qs where "ps = qs @ ps'" "\<forall>q \<in> set qs. env_done env (pending_id q) = Ready (Ok ())"
      by auto
    with Ready r show ?thesis by (intro exI [of _ "p # qs"]) simp
  next
    case Pending
    with Cons.prems show ?thesis by (intro exI [of _ "[]"]) auto
  qed
qed simp

lemma cleanup_requests_ok:
  assumes "cleanup_pending_requests env rw = (Ok u, rw1)" "p \<in> set (rw_pending rw)"
  shows "p \<in> set (rw_pending rw1) \<or> env_done env (pending_id p) = Ready (Ok ())"
  using assms cleanup_pending_ok [of env "rw_pending rw" "()" "rw_pending rw1"]
  by (auto simp: cleanup_pending_requests_def Let_def split: prod.splits)

text \<open>A write takes the front of the data and sends it as one request, or changes no position.\<close>

definition write_result :: "(io_error, nat) result polled \<Rightarrow> bytes \<Rightarrow> VolumeIoRW \<Rightarrow> VolumeIoRW \<Rightarrow> bool" where
  "write_result r buf rw rw' =
     (case r of
        Polled (Ready (Ok n)) \<Rightarrow>
          n = min (length buf) MAX_WRITE_SIZE \<and>
          rw_sent rw' = rw_sent rw @ [ReqWrite (take n buf) (rw_pos rw)] \<and>
          rw_pos rw' = u64_saturating_add (rw_pos rw) (of_nat n)
      | _ \<Rightarrow> rw_sent rw' = rw_sent rw \<and> rw_pos rw' = rw_pos rw)"

lemma write_result_cong:
  "rw_sent rw1 = rw_sent rw \<Longrightarrow> rw_pos rw1 = rw_pos rw \<Longrightarrow>
   write_result r buf rw1 rw' = write_result r buf rw rw'"
  by (simp add: write_result_def split: polled.splits poll.splits sum.splits)

lemma write_result_frame: "write_result r buf (rw\<lparr>rw_state := st\<rparr>) rw' = write_result r buf rw rw'"
  by (rule write_result_cong) simp_all

lemma write_loop_result:
  "write_loop_rw env buf rw = (r, rw') \<Longrightarrow> write_result r buf rw rw'"
proof (induction env buf rw rule: write_loop_rw.induct)
  case (1 env buf rw)
  show ?case
  proof (cases "rw_state rw")
    case (Reserve b)
    with 1(5) show ?thesis
      by (subst (asm) write_loop_rw.simps)
         (auto simp: write_result_def send_request_def Let_def split: bool.splits poll.splits)
  next
    case Idle
    with 1(5) have "write_loop_rw env buf (rw\<lparr>rw_state := Reserve False\<rparr>) = (r, rw')"
      by (subst (asm) write_loop_rw.simps) simp
    from 1(1) [OF Idle this] show ?thesis by (simp add: write_result_frame)
  next
    case Flushing
    with 1(5) have "write_loop_rw env buf (rw\<lparr>rw_state := Idle\<rparr>) = (r, rw')"
      by (subst (asm) write_loop_rw.simps) simp
    from 1(2) [OF Flushing this] show ?thesis by (simp add: write_result_frame)
  next
    case ShuttingDown
    with 1(5) have "write_loop_rw env buf (rw\<lparr>rw_state := Idle\<rparr>) = (r, rw')"
      by (subst (asm) write_loop_rw.simps) simp
    from 1(3) [OF ShuttingDown this] show ?thesis by (simp add: write_result_frame)
  next
    case (Reading n)
    with 1(5) have "write_loop_rw env buf (rw\<lparr>rw_state := Idle\<rparr>) = (r, rw')"
      by (subst (asm) write_loop_rw.simps) simp
    from 1(4) [OF Reading this] show ?thesis by (simp add: write_result_frame)
  qed
qed

lemma poll_write_result:
  assumes "rw_poll_write env buf rw = (r, rw')"
  shows "write_result r buf rw rw'"
proof (cases "writable (rw_info rw)")
  case False
  with assms show ?thesis by (auto simp: rw_poll_write_def write_result_def)
next
  case True
  obtain c rw1 where c: "cleanup_pending_requests env (invalidate_read_buffer rw) = (c, rw1)" by force
  from cleanup_frame [OF c] have f: "rw_sent rw1 = rw_sent rw" "rw_pos rw1 = rw_pos rw"
    by (simp_all add: invalidate_read_buffer_def)
  show ?thesis
  proof (cases c)
    case (Inl e)
    with True c f assms show ?thesis by (auto simp: rw_poll_write_def write_result_def)
  next
    case (Inr u)
    with True c assms have "write_loop_rw env buf rw1 = (r, rw')" by (simp add: rw_poll_write_def)
    from write_loop_result [OF this] show ?thesis by (simp add: write_result_cong [OF f])
  qed
qed

subsection \<open>A stream of writes\<close>

text \<open>The bytes a sequence of polls accepts, and where it leaves the stream.\<close>

fun write_run :: "(poll_env \<times> bytes) list \<Rightarrow> VolumeIoRW \<Rightarrow> bytes \<times> VolumeIoRW" where
  "write_run [] rw = ([], rw)"
| "write_run ((env, buf) # polls) rw =
     (let (r, rw1) = rw_poll_write env buf rw;
          (acc, rw2) = write_run polls rw1
      in (case r of Polled (Ready (Ok n)) \<Rightarrow> (take n buf @ acc, rw2) | _ \<Rightarrow> (acc, rw2)))"

fun write_requests :: "u64 \<Rightarrow> bytes list \<Rightarrow> TargetOrRequest list" where
  "write_requests pos [] = []"
| "write_requests pos (d # ds) = ReqWrite d pos # write_requests (pos + of_nat (length d)) ds"

lemma saturating_add_exact:
  "unat a + n < 2 ^ 64 \<Longrightarrow> u64_saturating_add a (of_nat n) = a + of_nat n \<and> unat (a + of_nat n) = unat a + n"
proof -
  assume a: "unat a + n < 2 ^ 64"
  then have "unat (of_nat n :: u64) = n" by (simp add: unat_of_nat take_bit_eq_mod)
  with a show ?thesis by (simp add: u64_saturating_add_def unat_word_ariths)
qed

text \<open>
  C19. A stream of writes covers consecutive places: whatever the channel and the replies do,
  the requests sent by any sequence of write polls hold exactly the accepted bytes, in order
  and without gap from the position on, none larger than the message limit allows, and the
  position advances by their number.
\<close>

theorem client_writes_contiguous:
  assumes "write_run polls rw = (acc, rw')" "unat (rw_pos rw) + length acc < 2 ^ 64"
  shows "\<exists>ds. rw_sent rw' = rw_sent rw @ write_requests (rw_pos rw) ds \<and> concat ds = acc \<and>
    list_all (\<lambda>d. length d \<le> MAX_WRITE_SIZE) ds \<and> rw_pos rw' = rw_pos rw + of_nat (length acc)"
  using assms
proof (induction polls arbitrary: rw acc)
  case Nil
  then show ?case by (intro exI [of _ "[]"]) auto
next
  case (Cons p polls)
  obtain env buf where p: "p = (env, buf)" by force
  obtain r rw1 where r: "rw_poll_write env buf rw = (r, rw1)" by force
  obtain acc1 rw2 where run: "write_run polls rw1 = (acc1, rw2)" by force
  note res = poll_write_result [OF r]
  show ?case
  proof (cases "\<exists>n. r = Polled (Ready (Ok n))")
    case True
    then obtain n where n: "r = Polled (Ready (Ok n))" ..
    with Cons.prems(1) p r run have acc: "acc = take n buf @ acc1" "rw' = rw2" by auto
    from res n have n': "n = min (length buf) MAX_WRITE_SIZE"
      and sent: "rw_sent rw1 = rw_sent rw @ [ReqWrite (take n buf) (rw_pos rw)]"
      and pos: "rw_pos rw1 = u64_saturating_add (rw_pos rw) (of_nat n)"
      by (auto simp: write_result_def)
    have len: "length (take n buf) = n" using n' by simp
    with Cons.prems(2) acc saturating_add_exact [of "rw_pos rw" n]
    have pos1: "rw_pos rw1 = rw_pos rw + of_nat n" "unat (rw_pos rw1) + length acc1 < 2 ^ 64"
      by (simp_all add: pos)
    from Cons.IH [OF _ pos1(2)] run acc obtain ds where
      "rw_sent rw' = rw_sent rw1 @ write_requests (rw_pos rw1) ds" "concat ds = acc1"
      "list_all (\<lambda>d. length d \<le> MAX_WRITE_SIZE) ds" "rw_pos rw' = rw_pos rw1 + of_nat (length acc1)"
      by blast
    with acc sent pos1 len n' show ?thesis
      by (intro exI [of _ "take n buf # ds"]) (auto simp: min_def)
  next
    case False
    then have same: "rw_sent rw1 = rw_sent rw" "rw_pos rw1 = rw_pos rw"
      using res by (auto simp: write_result_def split: polled.splits poll.splits sum.splits)
    from False Cons.prems(1) p r run have "acc = acc1" "rw' = rw2"
      by (auto split: polled.splits poll.splits sum.splits)
    with Cons.IH [of rw1 acc1] Cons.prems(2) run same show ?thesis by auto
  qed
qed

definition example_info :: VolumeTargetInfo where
  "example_info = \<lparr>target_name = ''boot'', readable = True, writable = True, seekable = True,
     target_size = Some 1000, blocksize = None\<rparr>"

definition open_env :: poll_env where
  "open_env = \<lparr>env_reserve = Ready True, env_done = (\<lambda>n. Pending), env_read = (\<lambda>n. Pending)\<rparr>"

lemma write_loop_rw_idle:
  "rw_state rw = Idle \<Longrightarrow> write_loop_rw env buf rw = write_loop_rw env buf (rw\<lparr>rw_state := Reserve False\<rparr>)"
  by (subst write_loop_rw.simps) simp

lemma client_writes_contiguous_witness:
  "\<exists>acc rw' ds. write_run [(open_env, [1, 2]), (open_env, [3])] (rw_new example_info) = (acc, rw') \<and>
    rw_sent rw' = rw_sent (rw_new example_info) @ write_requests (rw_pos (rw_new example_info)) ds \<and>
    concat ds = acc \<and> acc = [1, 2, 3]"
proof -
  obtain acc rw' where run: "write_run [(open_env, [1, 2]), (open_env, [3])] (rw_new example_info) = (acc, rw')"
    by force
  then have acc: "acc = [1, 2, 3]"
    by (auto simp: rw_poll_write_def rw_new_def example_info_def open_env_def write_loop_rw_idle
        write_loop_rw.simps cleanup_pending_requests_def invalidate_read_buffer_def send_request_def
        Let_def MAX_WRITE_SIZE_def)
  then have "unat (rw_pos (rw_new example_info)) + length acc < 2 ^ 64" by (simp add: rw_new_def)
  from client_writes_contiguous [OF run this] run acc show ?thesis by blast
qed

subsection \<open>Flushing\<close>

text \<open>Any use of the stream, poll by poll, with what each poll returned.\<close>

datatype rw_op = RwWrite bytes | RwFlush | RwShutdown | RwRead nat | RwSeek SeekFrom | RwComplete

definition no_value :: "(io_error, 'a) result polled \<Rightarrow> (io_error, unit) result polled" where
  "no_value r =
     (case r of
        PollPanicked \<Rightarrow> PollPanicked
      | Polled Pending \<Rightarrow> Polled Pending
      | Polled (Ready (Err e)) \<Rightarrow> Polled (Ready (Err e))
      | Polled (Ready (Ok v)) \<Rightarrow> Polled (Ready (Ok ())))"

fun rw_poll :: "poll_env \<Rightarrow> rw_op \<Rightarrow> VolumeIoRW \<Rightarrow> (io_error, unit) result polled \<times> VolumeIoRW" where
  "rw_poll env (RwWrite buf) rw = apfst no_value (rw_poll_write env buf rw)"
| "rw_poll env RwFlush rw = rw_poll_flush env rw"
| "rw_poll env RwShutdown rw = rw_poll_shutdown env rw"
| "rw_poll env (RwRead n) rw = apfst no_value (rw_poll_read env n rw)"
| "rw_poll env (RwSeek position) rw = apfst (\<lambda>r. Polled (Ready r)) (rw_start_seek position rw)"
| "rw_poll env RwComplete rw = apfst (\<lambda>r. no_value (Polled (Ready r))) (rw_poll_complete rw)"

fun rw_run :: "(poll_env \<times> rw_op) list \<Rightarrow> VolumeIoRW \<Rightarrow> (io_error, unit) result polled list \<times> VolumeIoRW" where
  "rw_run [] rw = ([], rw)"
| "rw_run ((env, op) # polls) rw =
     (case rw_poll env op rw of (r, rw1) \<Rightarrow>
      case rw_run polls rw1 of (rs, rw2) \<Rightarrow> (r # rs, rw2))"

text \<open>A poll found request \<open>k\<close> resolved: without error, or it returned the error.\<close>

definition settles :: "poll_env \<Rightarrow> (io_error, unit) result polled \<Rightarrow> nat \<Rightarrow> bool" where
  "settles env r k \<longleftrightarrow>
     env_done env k = Ready (Ok ()) \<or>
     (\<exists>e. env_done env k = Ready (Err e) \<and> r = Polled (Ready (Err (IoOther e))))"

text \<open>
  The requests that are waited for are pending or in \<open>S\<close>, and while a flush is waited for it is
  the last request.
\<close>

definition awaited :: "TargetOrRequest \<Rightarrow> bool" where
  "awaited q = (case q of ReqRead n off \<Rightarrow> False | _ \<Rightarrow> True)"

definition flush_inv :: "nat set \<Rightarrow> VolumeIoRW \<Rightarrow> bool" where
  "flush_inv S rw \<longleftrightarrow>
     (\<forall>k < length (rw_sent rw). awaited (rw_sent rw ! k) \<longrightarrow> k \<in> pending_id ` set (rw_pending rw) \<or> k \<in> S) \<and>
     (rw_state rw = Flushing \<longrightarrow> rw_sent rw \<noteq> [] \<and> last (rw_sent rw) = ReqFlush)"

lemma flush_inv_mono: "flush_inv S rw \<Longrightarrow> S \<inter> {..<length (rw_sent rw)} \<subseteq> S' \<Longrightarrow> flush_inv S' rw"
  unfolding flush_inv_def by blast

lemma flush_inv_other:
  "flush_inv S rw \<Longrightarrow> rw_sent rw' = rw_sent rw \<Longrightarrow> rw_pending rw' = rw_pending rw \<Longrightarrow>
   rw_state rw' = rw_state rw \<or> rw_state rw' \<noteq> Flushing \<Longrightarrow> flush_inv S rw'"
  by (auto simp: flush_inv_def)

lemma flush_inv_state: "flush_inv S rw \<Longrightarrow> st \<noteq> Flushing \<Longrightarrow> flush_inv S (rw\<lparr>rw_state := st\<rparr>)"
  by (auto simp: flush_inv_def)

lemma flush_inv_send:
  "flush_inv S rw \<Longrightarrow> rw_sent rw' = rw_sent rw @ [q] \<Longrightarrow> set (rw_pending rw) \<subseteq> set (rw_pending rw') \<Longrightarrow>
   (awaited q \<Longrightarrow> length (rw_sent rw) \<in> pending_id ` set (rw_pending rw')) \<Longrightarrow>
   rw_state rw' = Flushing \<longrightarrow> q = ReqFlush \<Longrightarrow> flush_inv S rw'"
  by (auto simp: flush_inv_def nth_append less_Suc_eq dest!: image_mono [of _ _ pending_id])

lemma cleanup_pending_settles:
  "cleanup_pending env ps = (c, ps') \<Longrightarrow> p \<in> set ps \<Longrightarrow> p \<in> set ps' \<or>
   env_done env (pending_id p) = Ready (Ok ()) \<or>
   (\<exists>e. env_done env (pending_id p) = Ready (Err e) \<and> c = Err (IoOther e))"
  by (induction env ps arbitrary: ps' rule: cleanup_pending.induct) (auto split: poll.splits sum.splits)

text \<open>What a poll adds to the settled requests, given what it returns.\<close>

lemma flush_inv_cleanup:
  assumes "cleanup_pending_requests env rw = (c, rw1)" "flush_inv S rw"
  shows "flush_inv (S \<union> {k. env_done env k = Ready (Ok ()) \<or> (\<exists>e. env_done env k = Ready (Err e) \<and> c = Err (IoOther e))}) rw1"
proof -
  have "cleanup_pending env (rw_pending rw) = (c, rw_pending rw1)"
    using assms(1) by (auto simp: cleanup_pending_requests_def Let_def split: prod.splits)
  from cleanup_pending_settles [OF this]
  have "k \<in> pending_id ` set (rw_pending rw) \<Longrightarrow> k \<in> pending_id ` set (rw_pending rw1) \<or>
      env_done env k = Ready (Ok ()) \<or> (\<exists>e. env_done env k = Ready (Err e) \<and> c = Err (IoOther e))" for k
    by blast
  with assms(2) show ?thesis
    unfolding flush_inv_def cleanup_frame(1,4) [OF assms(1)] by (simp only: mem_Collect_eq Un_iff) metis
qed

lemma flush_inv_cleaned:
  assumes "cleanup_pending_requests env rw = (Ok v, rw1)" "flush_inv (S \<union> Collect (settles env r)) rw"
  shows "flush_inv (S \<union> Collect (settles env r)) rw1"
  using flush_inv_cleanup [OF assms] by (rule flush_inv_mono) (auto simp: settles_def)

lemma flush_inv_failed:
  assumes "cleanup_pending_requests env rw = (Err e, rw1)"
    and "flush_inv (S \<union> Collect (settles env (Polled (Ready (Err e))))) rw"
  shows "flush_inv (S \<union> Collect (settles env (Polled (Ready (Err e))))) rw1"
  using flush_inv_cleanup [OF assms] by (rule flush_inv_mono) (auto simp: settles_def)

text \<open>The polls one by one: \<open>S\<close> holds what the poll settles, and the loops keep the invariant.\<close>

lemma flush_inv_flush:
  "rw_poll_flush env rw = (r, rw') \<Longrightarrow> flush_inv (S \<union> Collect (settles env r)) rw \<Longrightarrow>
   flush_inv (S \<union> Collect (settles env r)) rw' \<and>
   (\<forall>u. r = Polled (Ready (Ok u)) \<longrightarrow> rw_pending rw' = [] \<and> rw_sent rw' \<noteq> [] \<and> last (rw_sent rw') = ReqFlush)"
proof (induction env rw rule: rw_poll_flush.induct)
  case (1 env rw)
  let ?S = "S \<union> Collect (settles env r)"
  obtain c rw1 where c: "cleanup_pending_requests env rw = (c, rw1)" by force
  show ?case
  proof (cases c)
    case (Inl e)
    with 1(4) c have r: "r = Polled (Ready (Err e))" "rw' = rw1\<lparr>rw_state := Idle\<rparr>"
      by (simp_all add: rw_poll_flush.simps [of env rw])
    with flush_inv_failed [OF c [unfolded Inl]] 1(5) have "flush_inv ?S rw1" by simp
    with r show ?thesis by (auto intro: flush_inv_state)
  next
    case (Inr v)
    from flush_inv_cleaned [OF c [unfolded Inr] 1(5)] have inv: "flush_inv ?S rw1" .
    note prem = 1(4) [unfolded rw_poll_flush.simps [of env rw] c Inr prod.case sum.case]
    show ?thesis
    proof (cases "rw_state rw1")
      case Idle
      with prem have "rw_poll_flush env (rw1\<lparr>rw_state := Reserve False\<rparr>) = (r, rw')" by simp
      from 1(1) [OF c [symmetric] Inr Idle this flush_inv_state [OF inv]] show ?thesis by simp
    next
      case (Reading n)
      with prem have "rw_poll_flush env (rw1\<lparr>rw_state := Idle\<rparr>) = (r, rw')" by simp
      from 1(3) [OF c [symmetric] Inr Reading this flush_inv_state [OF inv]] show ?thesis by simp
    next
      case (Reserve b)
      show ?thesis
      proof (cases "\<not> b \<and> env_reserve env = Ready True")
        case True
        let ?rw2 = "send_request ReqFlush
          (rw1\<lparr>rw_pending := rw_pending rw1 @ [PFlush (length (rw_sent rw1))], rw_state := Flushing\<rparr>)"
        from prem Reserve True have rec: "rw_poll_flush env ?rw2 = (r, rw')" by simp
        from Reserve True have st: "rw_state rw1 = Reserve False" by simp
        have "flush_inv ?S ?rw2" by (rule flush_inv_send [OF inv]) (auto simp: send_request_def)
        from 1(2) [OF c [symmetric] Inr st _ _ _ rec this] True show ?thesis by auto
      next
        case False
        with prem Reserve inv show ?thesis by (auto split: bool.splits poll.splits intro: flush_inv_state)
      qed
    next
      case Flushing
      with prem inv show ?thesis by (auto split: if_splits simp: flush_inv_def)
    next
      case ShuttingDown
      with prem inv show ?thesis by auto
    qed
  qed
qed

lemma flush_inv_shutdown:
  "rw_poll_shutdown env rw = (r, rw') \<Longrightarrow> flush_inv (S \<union> Collect (settles env r)) rw \<Longrightarrow>
   flush_inv (S \<union> Collect (settles env r)) rw'"
proof (induction env rw rule: rw_poll_shutdown.induct)
  case (1 env rw)
  let ?S = "S \<union> Collect (settles env r)"
  obtain c rw1 where c: "cleanup_pending_requests env rw = (c, rw1)" by force
  show ?case
  proof (cases c)
    case (Inl e)
    with 1(5) c have r: "r = Polled (Ready (Err e))" "rw' = rw1\<lparr>rw_state := Idle\<rparr>"
      by (simp_all add: rw_poll_shutdown.simps [of env rw])
    with flush_inv_failed [OF c [unfolded Inl]] 1(6) have "flush_inv ?S rw1" by simp
    with r show ?thesis by (auto intro: flush_inv_state)
  next
    case (Inr v)
    from flush_inv_cleaned [OF c [unfolded Inr] 1(6)] have inv: "flush_inv ?S rw1" .
    note prem = 1(5) [unfolded rw_poll_shutdown.simps [of env rw] c Inr prod.case sum.case]
    show ?thesis
    proof (cases "rw_state rw1")
      case Idle
      with prem have "rw_poll_shutdown env (rw1\<lparr>rw_state := Reserve False\<rparr>) = (r, rw')" by simp
      from 1(1) [OF c [symmetric] Inr Idle this flush_inv_state [OF inv]] show ?thesis by simp
    next
      case (Reading n)
      with prem have "rw_poll_shutdown env (rw1\<lparr>rw_state := Idle\<rparr>) = (r, rw')" by simp
      from 1(4) [OF c [symmetric] Inr Reading this flush_inv_state [OF inv]] show ?thesis by simp
    next
      case Flushing
      with prem have "rw_poll_shutdown env (rw1\<lparr>rw_state := Idle\<rparr>) = (r, rw')" by simp
      from 1(3) [OF c [symmetric] Inr Flushing this flush_inv_state [OF inv]] show ?thesis by simp
    next
      case (Reserve b)
      show ?thesis
      proof (cases "\<not> b \<and> env_reserve env = Ready True")
        case True
        let ?rw2 = "send_request ReqShutdown
          (rw1\<lparr>rw_pending := rw_pending rw1 @ [PShutdown (length (rw_sent rw1))], rw_state := ShuttingDown\<rparr>)"
        from prem Reserve True have rec: "rw_poll_shutdown env ?rw2 = (r, rw')" by simp
        from Reserve True have st: "rw_state rw1 = Reserve False" by simp
        have "flush_inv ?S ?rw2" by (rule flush_inv_send [OF inv]) (auto simp: send_request_def)
        from 1(2) [OF c [symmetric] Inr st _ _ _ rec this] True show ?thesis by auto
      next
        case False
        with prem Reserve inv show ?thesis by (auto split: bool.splits poll.splits intro: flush_inv_state)
      qed
    next
      case ShuttingDown
      with prem inv show ?thesis by (auto split: if_splits intro: flush_inv_state)
    qed
  qed
qed

lemma flush_inv_write_loop:
  "write_loop_rw env buf rw = (r, rw') \<Longrightarrow> flush_inv S rw \<Longrightarrow> flush_inv S rw'"
proof (induction env buf rw rule: write_loop_rw.induct)
  case (1 env buf rw)
  note prem = 1(5) [unfolded write_loop_rw.simps [of env buf rw]]
  show ?case
  proof (cases "rw_state rw")
    case (Reserve b)
    show ?thesis
    proof (cases "\<not> b \<and> env_reserve env = Ready True")
      case True
      with prem Reserve have
        "rw_sent rw' = rw_sent rw @ [ReqWrite (take (min (length buf) MAX_WRITE_SIZE) buf) (rw_pos rw)]"
        "rw_pending rw' = rw_pending rw @ [PWrite (length (rw_sent rw))]" "rw_state rw' = Idle"
        by (auto simp: send_request_def Let_def)
      then show ?thesis by (intro flush_inv_send [OF 1(6)]) auto
    next
      case False
      with prem Reserve 1(6) show ?thesis by (auto split: bool.splits poll.splits intro: flush_inv_state)
    qed
  next
    case Idle
    with prem 1(1) [OF Idle] flush_inv_state [OF 1(6)] show ?thesis by simp
  next
    case Flushing
    with prem 1(2) [OF Flushing] flush_inv_state [OF 1(6)] show ?thesis by simp
  next
    case ShuttingDown
    with prem 1(3) [OF ShuttingDown] flush_inv_state [OF 1(6)] show ?thesis by simp
  next
    case (Reading n)
    with prem 1(4) [OF Reading] flush_inv_state [OF 1(6)] show ?thesis by simp
  qed
qed

lemma flush_inv_write:
  assumes "rw_poll_write env buf rw = (r, rw')" "flush_inv (S \<union> Collect (settles env (no_value r))) rw"
  shows "flush_inv (S \<union> Collect (settles env (no_value r))) rw'"
proof (cases "writable (rw_info rw)")
  case True
  obtain c rw1 where c: "cleanup_pending_requests env (invalidate_read_buffer rw) = (c, rw1)" by force
  have start: "flush_inv (S \<union> Collect (settles env (no_value r))) (invalidate_read_buffer rw)"
    using assms(2) by (simp add: flush_inv_def invalidate_read_buffer_def)
  show ?thesis
  proof (cases c)
    case (Inl e)
    with True c assms(1) have "r = Polled (Ready (Err e))" "rw' = rw1" by (simp_all add: rw_poll_write_def)
    with flush_inv_failed [OF c [unfolded Inl]] start show ?thesis by (simp add: no_value_def)
  next
    case (Inr v)
    with True c assms(1) have "write_loop_rw env buf rw1 = (r, rw')" by (simp add: rw_poll_write_def)
    from flush_inv_write_loop [OF this flush_inv_cleaned [OF c [unfolded Inr] start]] show ?thesis .
  qed
next
  case False
  with assms show ?thesis by (simp add: rw_poll_write_def)
qed

lemma flush_inv_read_loop:
  "read_loop_rw env n rw = (r, rw') \<Longrightarrow> flush_inv S rw \<Longrightarrow> flush_inv S rw'"
proof (induction env n rw rule: read_loop_rw.induct)
  case (1 env n rw)
  note prem = 1(5) [unfolded read_loop_rw.simps [of env n rw]]
  show ?case
  proof (cases "rw_state rw")
    case (Reserve b)
    show ?thesis
    proof (cases "\<not> b \<and> env_reserve env = Ready True")
      case True
      let ?rw2 = "send_request (ReqRead (of_nat n) (rw_pos rw)) (rw\<lparr>rw_state := Reading (length (rw_sent rw))\<rparr>)"
      have inv: "flush_inv S ?rw2" by (rule flush_inv_send [OF 1(6)]) (auto simp: send_request_def awaited_def)
      from True Reserve prem have rec: "read_loop_rw env n ?rw2 = (r, rw')" by simp
      from Reserve True have "rw_state rw = Reserve False" by simp
      from 1(2) [OF this _ _ _ rec inv] True show ?thesis by auto
    next
      case False
      with prem Reserve 1(6) show ?thesis by (auto split: bool.splits poll.splits intro: flush_inv_state)
    qed
  next
    case (Reading m)
    with prem 1(6) show ?thesis
      by (auto simp: copy_buffered_read_def Let_def split: poll.splits sum.splits if_splits prod.splits intro: flush_inv_state)
        (auto simp: flush_inv_def)
  next
    case Idle
    with prem 1(1) [OF Idle] flush_inv_state [OF 1(6)] show ?thesis by simp
  next
    case Flushing
    with prem 1(3) [OF Flushing] flush_inv_state [OF 1(6)] show ?thesis by simp
  next
    case ShuttingDown
    with prem 1(4) [OF ShuttingDown] flush_inv_state [OF 1(6)] show ?thesis by simp
  qed
qed

lemma flush_inv_poll:
  assumes "rw_poll env op rw = (r, rw')" "flush_inv S rw"
  shows "flush_inv (S \<union> {k. k < length (rw_sent rw') \<and> settles env r k}) rw'"
proof -
  let ?S = "S \<union> Collect (settles env r)"
  have inv: "flush_inv ?S rw" by (rule flush_inv_mono [OF assms(2)]) auto
  have "flush_inv ?S rw'"
  proof (cases op)
    case (RwRead n)
    then obtain q where "rw_poll_read env n rw = (q, rw')"
      using assms(1) by (auto simp: apfst_def map_prod_def split: prod.splits)
    with inv show ?thesis
      by (auto simp: rw_poll_read_def copy_buffered_read_def Let_def split: if_splits dest: flush_inv_read_loop)
        (auto simp: flush_inv_def)
  next
    case (RwWrite buf)
    then obtain q where "rw_poll_write env buf rw = (q, rw')" "r = no_value q"
      using assms(1) by (auto simp: apfst_def map_prod_def split: prod.splits)
    with flush_inv_write [of env buf rw q rw' S] inv show ?thesis by simp
  next
    case (RwSeek position)
    with assms(1) inv show ?thesis by (auto simp: rw_start_seek_def flush_inv_def split: if_splits)
  next
    case RwComplete
    with assms(1) inv show ?thesis
      by (auto simp: rw_poll_complete_def flush_inv_def Let_def split: if_splits option.splits SeekFrom.splits)
  next
    case RwFlush
    with assms(1) flush_inv_flush [OF _ inv] show ?thesis by simp
  next
    case RwShutdown
    with assms(1) flush_inv_shutdown [OF _ inv] show ?thesis by simp
  qed
  then show ?thesis by (rule flush_inv_mono) auto
qed

text \<open>The requests that the polls of a use found settled, after they were sent.\<close>

fun settled_in :: "(poll_env \<times> rw_op) list \<Rightarrow> VolumeIoRW \<Rightarrow> nat set" where
  "settled_in [] rw = {}"
| "settled_in ((env, op) # polls) rw =
     (case rw_poll env op rw of (r, rw1) \<Rightarrow>
        {k. k < length (rw_sent rw1) \<and> settles env r k} \<union> settled_in polls rw1)"

lemma flush_inv_run:
  "flush_inv S rw \<Longrightarrow> flush_inv (S \<union> settled_in polls rw) (snd (rw_run polls rw))"
proof (induction polls arbitrary: S rw)
  case (Cons p polls)
  obtain env op where p: "p = (env, op)" by force
  obtain r rw1 where r: "rw_poll env op rw = (r, rw1)" by force
  from Cons.IH [OF flush_inv_poll [OF r Cons.prems]] show ?case
    by (simp add: p r split_beta Un_assoc)
qed simp

text \<open>
  C20. A flush that returns has waited: however a stream was used before (writes, flushes,
  shutdowns, reads and seeks, whatever each poll met), when \<^verbatim>\<open>poll_flush\<close> succeeds, by the poll that
  sent the flush or by a later one, a flush is the last request sent, and every write, flush and
  shutdown sent has been resolved: it was found done without error, or with an error that the
  poll which found it returned.
\<close>

theorem client_flush_waits:
  assumes "rw_run polls (rw_new info) = (rs, rw)" "rw_poll_flush env rw = (Polled (Ready (Ok u)), rw')"
  shows "rw_pending rw' = [] \<and> rw_sent rw' \<noteq> [] \<and> last (rw_sent rw') = ReqFlush \<and>
    (\<forall>k < length (rw_sent rw'). awaited (rw_sent rw' ! k) \<longrightarrow>
       k \<in> settled_in polls (rw_new info) \<or> env_done env k = Ready (Ok ()))"
proof -
  have "flush_inv {} (rw_new info)" by (simp add: flush_inv_def rw_new_def)
  from flush_inv_run [OF this, of polls] assms(1) have "flush_inv (settled_in polls (rw_new info)) rw" by simp
  then have "flush_inv (settled_in polls (rw_new info) \<union> Collect (settles env (Polled (Ready (Ok u))))) rw"
    by (rule flush_inv_mono) auto
  from flush_inv_flush [OF assms(2) this] show ?thesis by (auto simp: flush_inv_def settles_def)
qed

lemma client_flush_waits_witness:
  "\<exists>rs rw rw'. rw_run [(open_env, RwWrite [1]), (open_env, RwFlush)] (rw_new example_info) = (rs, rw) \<and>
    rs = [Polled (Ready (Ok ())), Polled Pending] \<and>
    rw_poll_flush (open_env\<lparr>env_done := \<lambda>n. Ready (Ok ())\<rparr>) rw = (Polled (Ready (Ok ())), rw') \<and>
    rw_sent rw' = [ReqWrite [1] 0, ReqFlush] \<and> last (rw_sent rw') = ReqFlush \<and> rw_pending rw' = []"
proof -
  let ?env = "open_env\<lparr>env_done := \<lambda>n. Ready (Ok ())\<rparr>"
  obtain rw where run: "rw_run [(open_env, RwWrite [1]), (open_env, RwFlush)] (rw_new example_info) =
      ([Polled (Ready (Ok ())), Polled Pending], rw)"
    and rw: "rw_state rw = Flushing" "rw_sent rw = [ReqWrite [1] 0, ReqFlush]" "rw_pending rw = [PWrite 0, PFlush 1]"
    by (simp add: rw_poll_write_def rw_new_def example_info_def open_env_def write_loop_rw.simps rw_poll_flush.simps
        cleanup_pending_requests_def invalidate_read_buffer_def send_request_def MAX_WRITE_SIZE_def no_value_def)
  obtain rw' where flush: "rw_poll_flush ?env rw = (Polled (Ready (Ok ())), rw')" "rw_sent rw' = rw_sent rw"
    by (simp add: rw_poll_flush.simps open_env_def cleanup_pending_requests_def rw)
  from client_flush_waits [OF run flush(1)] have "last (rw_sent rw') = ReqFlush" "rw_pending rw' = []" by simp_all
  with run flush rw(2) show ?thesis by auto
qed

subsection \<open>Seeking\<close>

text \<open>
  Seeks saturate: the position a seek leads to is the base plus the signed offset, cut off
  at 0 and at the largest 64 bit number.
\<close>

theorem seek_saturates:
  "uint (seek_from base offset) = max 0 (min (2 ^ 64 - 1) (uint base + sint offset))"
proof (cases "sint offset > 0")
  case True
  then have off: "sint offset = uint offset"
    using sint_lt [of offset] by (simp add: uint_sint take_bit_int_eq_self)
  have nn: "0 \<le> uint base" "0 \<le> uint offset" by simp_all
  have lt: "unat base + unat offset < 2 ^ 64 \<longleftrightarrow> uint base + uint offset < 2 ^ 64"
  proof -
    have e: "uint base + uint offset = int (unat base + unat offset)" by simp
    have "\<And>n :: nat. n < 2 ^ 64 \<longleftrightarrow> int n < 2 ^ 64" by auto
    then show ?thesis unfolding e .
  qed
  have seek: "seek_from base offset = u64_saturating_add base offset"
    using True by (simp add: seek_from_def)
  show ?thesis
  proof (cases "uint base + uint offset < 2 ^ 64")
    case True
    then have "uint (base + offset) = uint base + uint offset"
      by (simp add: uint_word_ariths)
    moreover have "seek_from base offset = base + offset"
      using seek lt True by (simp add: u64_saturating_add_def)
    ultimately show ?thesis using True nn off by (simp add: max_def min_def)
  next
    case False
    have "uint (-1 :: u64) = 2 ^ 64 - 1" by (simp add: unsigned_minus_1_eq_mask mask_eq_exp_minus_1)
    moreover have "seek_from base offset = -1"
      using seek lt False by (simp add: u64_saturating_add_def)
    ultimately show ?thesis using False off by (simp add: max_def min_def)
  qed
next
  case False
  have "- (2 ^ 63) \<le> sint offset" using sint_ge [of offset] by simp
  with False have small: "0 \<le> \<bar>sint offset\<bar>" "\<bar>sint offset\<bar> < 2 ^ 64" by auto
  define m where "m = (word_of_int \<bar>sint offset\<bar> :: u64)"
  from small have u: "uint m = \<bar>sint offset\<bar>" by (simp add: m_def uint_word_of_int)
  have seek: "seek_from base offset = u64_saturating_sub base m"
    using False by (simp add: seek_from_def m_def)
  have lt: "uint base < 2 ^ 64" using uint_lt2p [of base] by simp
  have nn: "0 \<le> uint base" by simp
  show ?thesis
  proof (cases "m \<le> base")
    case True
    then have "uint (base - m) = uint base - uint m" by (simp add: uint_sub_if' word_le_def)
    moreover have "uint m \<le> uint base" using True by (simp add: word_le_def)
    ultimately show ?thesis
      using True False u lt unfolding seek u64_saturating_sub_def by simp
  next
    case False': False
    then have "uint base < uint m" by (simp add: word_le_def)
    then show ?thesis
      using False False' u lt unfolding seek u64_saturating_sub_def by simp
  qed
qed

text \<open>
  A seek does not drop the bytes buffered from an earlier read: the next read returns them,
  whatever the new position.
\<close>

lemma seek_keeps_read_buffer:
  assumes "rw_buffered_read rw \<noteq> []" "seekable (rw_info rw)" "readable (rw_info rw)"
    and "rw_start_seek position rw = (Ok (), rw1)" "rw_poll_complete rw1 = (Ok p, rw2)"
  shows "\<exists>rw3. rw_poll_read env remaining rw2 =
    (Polled (Ready (Ok (take (min remaining (length (rw_buffered_read rw))) (rw_buffered_read rw)))), rw3)"
proof -
  have "rw_buffered_read rw2 = rw_buffered_read rw" "rw_info rw2 = rw_info rw"
    using assms by (auto simp: rw_start_seek_def rw_poll_complete_def Let_def
        split: if_splits option.splits SeekFrom.splits)
  with assms show ?thesis by (simp add: rw_poll_read_def copy_buffered_read_def Let_def)
qed

text \<open>
  A closed channel is reported once: the poll after the error polls the finished reservation
  again and panics.
\<close>

lemma closed_channel_panics:
  "let env = open_env\<lparr>env_reserve := Ready False\<rparr>;
       (r1, rw1) = rw_poll_write env [1] (rw_new example_info);
       (r2, rw2) = rw_poll_shutdown env rw1
   in r1 = Polled (Ready (Err NotConnected)) \<and> r2 = PollPanicked"
  by (simp add: rw_poll_write_def rw_new_def example_info_def open_env_def write_loop_rw.simps
      rw_poll_shutdown.simps cleanup_pending_requests_def invalidate_read_buffer_def)

subsection \<open>Which reply resolves which request\<close>

text \<open>
  C21. A request is only ever resolved with its own reply: whatever stream of replies the
  server sends, the \<open>k\<close>-th request succeeds only with the \<open>k\<close>-th reply, and only when that
  reply is of the kind of the request; and every request is resolved.
\<close>

theorem monitor_task_own_reply:
  "length (monitor_task replies os) = length os \<and>
   (k < length os \<longrightarrow> monitor_task replies os ! k = Ok c \<longrightarrow>
      k < length replies \<and> (\<exists>r. replies ! k = Ok (Some r) \<and> match_reply (os ! k) r = Some c))"
proof (induction replies os arbitrary: k rule: monitor_task.induct)
  case (5 reply replies o1 os)
  then show ?case
    by (cases k; cases "match_reply o1 reply") (auto simp: nth_map)
qed (auto simp: nth_Cons split: nat.splits)

lemma monitor_task_own_reply_witness:
  "monitor_task [Ok (Some (RepRead [7])), Ok (Some RepFlush)] [OutRead, OutFlush] ! 1 = Ok CompFlush \<and>
   (\<exists>r. [Ok (Some (RepRead [7])), Ok (Some RepFlush)] ! 1 = (Ok (Some r) :: (status, VolumeIoReplyMsg) result) \<and>
        match_reply ([OutRead, OutFlush] ! 1) r = Some CompFlush)"
  using monitor_task_own_reply
    [of "[Ok (Some (RepRead [7])), Ok (Some RepFlush)]" "[OutRead, OutFlush]" 1 CompFlush]
  by simp

end
