(* ===== verification/Volume_Session.thy ===== *)
theory Volume_Session
  imports Server Volume_Client
begin

section \<open>A volume session from the client's requests to the target and back\<close>

text \<open>
  The client's \<^verbatim>\<open>VolumeIo\<close> (Volume_Client) composed with the server's \<^verbatim>\<open>volume_io\<close>
  (Server, Volume_Api): the handler answers the opening message and the requests, the gRPC
  stream carries the replies, the client takes the first reply as the description of the
  target and resolves its requests with the rest. The stream between them is a parameter;
  gRPC ends a response stream with the first error status, so what arrives is the replies up
  to and including the first error.
\<close>

fun up_to_error :: "('e, 'a) result list \<Rightarrow> ('e, 'a) result list" where
  "up_to_error [] = []"
| "up_to_error (Ok x # rs) = Ok x # up_to_error rs"
| "up_to_error (Err e # rs) = [Err e]"

text \<open>What the first reply and the futures of the requests yield.\<close>

definition client_session ::
  "((status, VolumeIoReplyMsg) result list \<Rightarrow> (status, VolumeIoReplyMsg) result list) \<Rightarrow>
   ('p, 'w) Server \<Rightarrow> u64 \<Rightarrow> string \<Rightarrow> u64 option \<Rightarrow> TargetOrRequest list \<Rightarrow> nat \<Rightarrow> 'w \<Rightarrow>
   (status, VolumeTargetInfo \<times> (status, completion) result list) result \<times> 'w" where
  "client_session deliver s v target len qs alive w =
     (case rpc_volume_io s (Ok (Some (ReqTarget v target len)) # requests qs) alive w of
        (Err e, w1) \<Rightarrow> (Err e, w1)
      | (Ok stream, w1) \<Rightarrow>
          (let replies = deliver stream;
               first = (case replies of [] \<Rightarrow> Ok None | Ok r # _ \<Rightarrow> Ok (Some r) | Err e # _ \<Rightarrow> Err e)
           in (case open_reply first of
                 Err e \<Rightarrow> Err e
               | Ok info \<Rightarrow> Ok (info, monitor_task (tl replies) (map outstanding_of qs)), w1)))"

text \<open>The result a completion stands for; \<open>None\<close> when the target dropped it.\<close>

fun completion_of :: "VolumeIoReply \<Rightarrow> (status, completion) result option" where
  "completion_of (QRead r) = map_option (\<lambda>r. case r of Err e \<Rightarrow> Err e | Ok d \<Rightarrow> Ok (CompRead d)) r"
| "completion_of (QWrite r) = map_option (\<lambda>r. case r of Err e \<Rightarrow> Err e | Ok n \<Rightarrow> Ok (CompWrite n)) r"
| "completion_of (QFlush r) = map_option (\<lambda>r. case r of Err e \<Rightarrow> Err e | Ok _ \<Rightarrow> Ok CompFlush) r"
| "completion_of (QShutdown r) = map_option (\<lambda>r. case r of Err e \<Rightarrow> Err e | Ok _ \<Rightarrow> Ok CompShutdown) r"
| "completion_of _ = None"

text \<open>
  The results of a session as they should be: those of the target, up to and including the
  first error. After it, or from a dropped completion on, the session is over.
\<close>

fun session_results :: "TargetOrRequest list \<Rightarrow> VolumeIoReply list \<Rightarrow> (status, completion) result list" where
  "session_results (q # qs) (c # cs) =
     (case completion_of c of
        Some (Ok x) \<Rightarrow> Ok x # session_results qs cs
      | Some (Err e) \<Rightarrow> Err e # monitor_task [] (map outstanding_of qs)
      | None \<Rightarrow> monitor_task [] (map outstanding_of (q # qs)))"
| "session_results qs _ = monitor_task [] (map outstanding_of qs)"

lemma reply_completion:
  "queued_for q c \<Longrightarrow>
   (case completion_of c of
      None \<Rightarrow> reply_of c = None
    | Some (Err e) \<Rightarrow> reply_of c = Some (Err e)
    | Some (Ok x) \<Rightarrow> \<exists>r. reply_of c = Some (Ok (Some r)) \<and> match_reply (outstanding_of q) r = Some x)"
  by (cases "(q, c)" rule: queued_for.cases) (auto split: option.splits sum.splits)

lemma monitor_task_session:
  "list_all2 queued_for qs cs \<Longrightarrow> length qs \<le> alive \<Longrightarrow>
   monitor_task (up_to_error (replies_task alive cs)) (map outstanding_of qs) = session_results qs cs"
proof (induction qs cs arbitrary: alive rule: list_all2_induct)
  case Nil
  show ?case by simp
next
  case (Cons q qs c cs)
  from Cons.prems obtain a where a: "alive = Suc a" "length qs \<le> a" by (cases alive) auto
  note IH = Cons(3) [OF a(2)]
  show ?case
  proof (cases "completion_of c")
    case None
    with reply_completion [OF Cons(1)] show ?thesis by simp
  next
    case (Some r)
    with reply_completion [OF Cons(1)] a IH show ?thesis
      by (cases r) (auto split: option.splits)
  qed
qed

lemma session_runs:
  assumes "\<And>rs. deliver rs = up_to_error rs"
    and "get_volume s (U64Index v) = Some volume"
    and "vol_open volume target len w = (Ok (info, vt), w1)"
    and "list_all (\<lambda>q. \<not> is_target q) qs" and "length qs < alive"
  shows "client_session deliver s v target len qs alive w =
    (Ok (info, session_results qs (fst (volume_io_loop vt (requests qs) w1))),
     snd (volume_io_loop vt (requests qs) w1))"
proof -
  from assms(5) obtain a where a: "alive = Suc a" "length qs \<le> a" by (cases alive) auto
  from volume_io_loop_queue [OF assms(4), of vt w1] obtain cs w2 where
    cs: "list_all2 queued_for qs cs" and eq: "volume_io_loop vt (requests qs) w1 = (cs, w2)"
    by (metis append_Nil2 fst_conv snd_conv volume_io_loop.simps(1))
  from monitor_task_session [OF cs a(2)] show ?thesis
    using assms(1-3) a(1) eq
    by (simp add: client_session_def rpc_volume_io_def open_reply_def)
qed

text \<open>
  C6. A volume session end to end: when the volume is live and its target opens, the client gets
  the target's description, and its requests resolve, each in its own place, with exactly what
  the target completed them with, up to and including the first error; the requests after an
  error are failed and not lost, and the effects are those of the requests run one after
  another on the target. (The requests are those that reach the server.)
\<close>

theorem volume_session_end_to_end:
  assumes "\<And>rs. deliver rs = up_to_error rs"
    and "get_volume s (U64Index v) = Some volume"
    and "vol_open volume target len w = (Ok (info, vt), w1)"
    and "list_all (\<lambda>q. \<not> is_target q) qs" and "length qs < alive"
  shows "client_session deliver s v target len qs alive w =
    (Ok (info, session_results qs (fst (volume_io_loop vt (requests qs) w1))),
     snd (volume_io_loop vt (requests qs) w1))"
  using assms by (rule session_runs)

text \<open>A target that reads zeros and fails writes, for the example.\<close>

definition reading_volume :: "'w Volume" where
  "reading_volume = null_volume\<lparr>vol_open := (\<lambda>t l w.
     (Ok (\<lparr>target_name = t, readable = True, writable = False, seekable = True,
           target_size = l, blocksize = None\<rparr>,
         default_target\<lparr>vt_read := (\<lambda>n off w. (Some (Ok (replicate (unat n) 0)), w))\<rparr>), w))\<rparr>"

lemma volume_session_end_to_end_witness:
  "client_session up_to_error
      (server_run [RegisterVolume (properties_new ''a'') reading_volume]
         (server_new [] ''/etc'' :: (unit, nat) Server)) 0 ''boot'' None
      [ReqRead 2 0, ReqFlush, ReqWrite [1] 0, ReqFlush] 8 42 =
    (Ok (\<lparr>target_name = ''boot'', readable = True, writable = False, seekable = True,
          target_size = None, blocksize = None\<rparr>,
       [Ok (CompRead [0, 0]), Ok CompFlush, Err (Status Unimplemented ''Target is not writable''),
        Err unmatched]), 42)"
proof -
  let ?s = "server_run [RegisterVolume (properties_new ''a'') reading_volume]
    (server_new [] ''/etc'' :: (unit, nat) Server)"
  have v: "get_volume ?s (U64Index 0) = Some reading_volume"
    by (simp add: get_volume_def server_run_def registry_lookup_def registry_add_def Let_def
        server_new_def registry_new_def index_default_def item_new_def)
  have o: "vol_open reading_volume ''boot'' None (42 :: nat) =
      (Ok (\<lparr>target_name = ''boot'', readable = True, writable = False, seekable = True,
          target_size = None, blocksize = None\<rparr>,
         default_target\<lparr>vt_read := (\<lambda>n off w. (Some (Ok (replicate (unat n) 0)), w))\<rparr>), 42)"
    by (simp add: reading_volume_def)
  moreover have "replicate 2 (0 :: u8) = [0, 0]" by (simp add: numeral_2_eq_2)
  ultimately show ?thesis
    using volume_session_end_to_end [OF refl v o, of "[ReqRead 2 0, ReqFlush, ReqWrite [1] 0, ReqFlush]" 8]
    by (simp add: is_target_def default_target_def default_flush_def default_write_def)
qed

end
