(* ===== verification/Proxy_Session.thy ===== *)
theory Proxy_Session
  imports Boardswarm_Provider Volume_Session
begin

section \<open>A volume through two servers\<close>

text \<open>
  The remote boardswarm provider (Boardswarm_Provider) on top of the client library and of the
  server it mirrors (Volume_Session): the calls that the proxies of volumes and devices make
  are answered by the handlers of a server \<open>a\<close> of the model, and a session on the proxied
  volume is one more session, in which the target forwards to the first. A request is sent, run
  by the handler and resolved by the client's \<^verbatim>\<open>monitor_task\<close>; the lemmas show that this
  incremental library yields what the task makes of the whole stream, and that the second hop
  changes neither the results nor the effects.
\<close>

subsection \<open>The client library on a server, request by request\<close>

text \<open>
  Where the \<^verbatim>\<open>monitor_task\<close> of a session is: receiving replies, at the end of a stream that
  ended with an error, or gone after a \<^verbatim>\<open>break\<close>.
\<close>

datatype monitor_state = Streaming | StreamOver | MonitorGone

text \<open>One turn of its loop; the reply is \<open>None\<close> when the server's reply task ended without one.\<close>

definition monitor_turn ::
  "(status, VolumeIoReplyMsg) result option \<Rightarrow> Outstanding \<Rightarrow> monitor_state \<Rightarrow>
   (status, completion) result \<times> monitor_state" where
  "monitor_turn reply out m =
     (case m of
        MonitorGone \<Rightarrow> (Err (not_received out), MonitorGone)
      | StreamOver \<Rightarrow> (Err unmatched, MonitorGone)
      | Streaming \<Rightarrow>
          (case reply of
             None \<Rightarrow> (Err unmatched, MonitorGone)
           | Some (Err s) \<Rightarrow> (Err s, StreamOver)
           | Some (Ok None) \<Rightarrow> (Err (Status Internal ''Reply didn't have reply data''), Streaming)
           | Some (Ok (Some r)) \<Rightarrow>
               (case match_reply out r of
                  Some c \<Rightarrow> (Ok c, Streaming) | None \<Rightarrow> (Err unmatched, MonitorGone))))"

text \<open>The world behind the connection: that of the server's volumes, and its sessions.\<close>

record 'w hop =
  hop_world :: 'w
  hop_monitors :: "monitor_state list"

definition hop_new :: "'w \<Rightarrow> 'w hop" where
  "hop_new w = \<lparr>hop_world = w, hop_monitors = []\<rparr>"

definition on_hop :: "('w \<Rightarrow> 'a \<times> 'w) \<Rightarrow> 'w hop \<Rightarrow> 'a \<times> 'w hop" where
  "on_hop f h = (case f (hop_world h) of (a, w) \<Rightarrow> (a, h\<lparr>hop_world := w\<rparr>))"

text \<open>
  A request of session \<open>i\<close>, sent to the server whose target is \<open>vt\<close>, and the result its future
  yields. Every request reaches the server, as in \<open>client_session\<close>: the client does not wait for
  replies, and the requests are sent before the reply comes that makes the monitor task break.
  (A request made after that break fails with the same error, but is not sent.)
\<close>

definition hop_request ::
  "'w VolumeTarget \<Rightarrow> nat \<Rightarrow> TargetOrRequest \<Rightarrow> 'w hop \<Rightarrow> (status, completion) result \<times> 'w hop" where
  "hop_request vt i q h =
     (case volume_io_loop vt [Ok (Some q)] (hop_world h) of
        (cs, w1) \<Rightarrow>
          (case monitor_turn (reply_of (hd cs)) (outstanding_of q) (hop_monitors h ! i) of
             (r, m) \<Rightarrow> (r, h\<lparr>hop_world := w1, hop_monitors := (hop_monitors h)[i := m]\<rparr>)))"

fun hop_requests ::
  "'w VolumeTarget \<Rightarrow> nat \<Rightarrow> TargetOrRequest list \<Rightarrow> 'w hop \<Rightarrow>
   (status, completion) result list \<times> 'w hop" where
  "hop_requests vt i [] h = ([], h)"
| "hop_requests vt i (q # qs) h =
     (case hop_request vt i q h of
        (r, h1) \<Rightarrow> (case hop_requests vt i qs h1 of (rs, h2) \<Rightarrow> (r # rs, h2)))"

text \<open>
  The futures of \<^verbatim>\<open>request_read\<close> and the others, each of its own type; a completion of another
  kind is never sent to them.
\<close>

definition future ::
  "(completion \<Rightarrow> 'a option) \<Rightarrow> Outstanding \<Rightarrow> (status, completion) result \<times> 'w \<Rightarrow>
   (status, 'a) result option \<times> 'w" where
  "future kind out r =
     (case r of
        (Err e, h) \<Rightarrow> (Some (Err e), h)
      | (Ok c, h) \<Rightarrow> (Some (ok_or (not_received out) (kind c)), h))"

definition hop_io :: "'w VolumeTarget \<Rightarrow> nat \<Rightarrow> 'w hop VolumeIo" where
  "hop_io vt i =
     \<lparr>io_read = (\<lambda>len offset h.
        future (\<lambda>c. case c of CompRead d \<Rightarrow> Some d | _ \<Rightarrow> None) OutRead
          (hop_request vt i (ReqRead len offset) h)),
      io_write = (\<lambda>data offset h.
        future (\<lambda>c. case c of CompWrite n \<Rightarrow> Some n | _ \<Rightarrow> None) OutWrite
          (hop_request vt i (ReqWrite data offset) h)),
      io_flush = (\<lambda>h.
        future (\<lambda>c. case c of CompFlush \<Rightarrow> Some () | _ \<Rightarrow> None) OutFlush (hop_request vt i ReqFlush h)),
      io_shutdown = (\<lambda>h.
        future (\<lambda>c. case c of CompShutdown \<Rightarrow> Some () | _ \<Rightarrow> None) OutShutdown
          (hop_request vt i ReqShutdown h))\<rparr>"

text \<open>
  \<^verbatim>\<open>Boardswarm::volume_io\<close> on the server \<open>a\<close>: its handler up to the reply that describes the
  target, which is what the client reads before it returns, and a new session.
\<close>

definition hop_volume_io ::
  "('p, 'w) Server \<Rightarrow> u64 \<Rightarrow> string \<Rightarrow> u64 option \<Rightarrow> 'w hop \<Rightarrow>
   (status, VolumeTargetInfo \<times> 'w hop VolumeIo) result \<times> 'w hop" where
  "hop_volume_io a v target len h =
     (case get_volume a (U64Index v) of
        None \<Rightarrow> (Err (Status NotFound ''No volume by that name''), h)
      | Some volume \<Rightarrow>
          (case on_hop (vol_open volume target len) h of
             (Err e, h1) \<Rightarrow> (Err (status_of_volume_error e), h1)
           | (Ok (info, vt), h1) \<Rightarrow>
               (Ok (info, hop_io vt (length (hop_monitors h1))),
                h1\<lparr>hop_monitors := hop_monitors h1 @ [Streaming]\<rparr>)))"

text \<open>The calls on volumes, on device modes and on properties; the others stay as in \<open>rest\<close>.\<close>

definition item_type_number :: "ItemType \<Rightarrow> 32 word" where
  "item_type_number t =
     (case t of ItemDevice \<Rightarrow> 0 | ItemConsole \<Rightarrow> 1 | ItemActuator \<Rightarrow> 2 | ItemVolume \<Rightarrow> 3)"

definition remote_of ::
  "('p, 'w) Server \<Rightarrow> ('r, 'q, 'w hop) Remote \<Rightarrow> ('r, 'q, 'w hop) Remote" where
  "remote_of a rest = rest
     \<lparr>rem_properties := (\<lambda>t n h. (rpc_item_properties a (item_type_number t) n, h)),
      rem_device_change_mode := (\<lambda>n mode. on_hop (rpc_device_change_mode a n mode)),
      rem_volume_info := (\<lambda>n h. (rpc_volume_info a n (hop_world h), h)),
      rem_volume_io := hop_volume_io a,
      rem_volume_commit := (\<lambda>n. on_hop (rpc_volume_commit a n)),
      rem_volume_erase := (\<lambda>n target. on_hop (rpc_volume_erase a n target))\<rparr>"

subsection \<open>Request by request is the session as a whole\<close>

fun resolved ::
  "monitor_state \<Rightarrow> TargetOrRequest list \<Rightarrow> VolumeIoReply list \<Rightarrow> (status, completion) result list" where
  "resolved Streaming qs cs = session_results qs cs"
| "resolved StreamOver qs cs = monitor_task [] (map outstanding_of qs)"
| "resolved MonitorGone qs cs = map (\<lambda>q. Err (not_received (outstanding_of q))) qs"

lemma resolved_Nil [simp]: "resolved m [] cs = []"
  by (cases m) simp_all

lemma resolved_Cons:
  assumes "queued_for q c"
  shows "resolved m (q # qs) (c # cs) =
    (case monitor_turn (reply_of c) (outstanding_of q) m of (r, m1) \<Rightarrow> r # resolved m1 qs cs)"
proof (cases m)
  case Streaming
  show ?thesis
  proof (cases "completion_of c")
    case None
    with reply_completion [OF assms] Streaming show ?thesis
      by (simp add: monitor_turn_def comp_def)
  next
    case (Some r)
    with reply_completion [OF assms] Streaming show ?thesis
      by (cases r) (auto simp: monitor_turn_def)
  qed
qed (simp_all add: monitor_turn_def comp_def)

lemma hop_requests_session:
  assumes "list_all (\<lambda>q. \<not> is_target q) qs" and "i < length (hop_monitors h)"
  shows "fst (hop_requests vt i qs h) =
      resolved (hop_monitors h ! i) qs (fst (volume_io_loop vt (requests qs) (hop_world h)))"
    and "hop_world (snd (hop_requests vt i qs h)) =
      snd (volume_io_loop vt (requests qs) (hop_world h))"
  using assms
proof (induction qs arbitrary: h)
  case (Cons q qs)
  {
    case 1
    then have "\<not> is_target q" by simp
    then obtain c w1 where c: "queued_for q c"
      and loop: "\<And>ms. volume_io_loop vt (Ok (Some q) # ms) (hop_world h) =
        (c # fst (volume_io_loop vt ms w1), snd (volume_io_loop vt ms w1))"
      using volume_io_loop_step [of q vt "hop_world h"] by blast
    obtain r m where "monitor_turn (reply_of c) (outstanding_of q) (hop_monitors h ! i) = (r, m)" by force
    with 1 Cons(1) [of "h\<lparr>hop_world := w1, hop_monitors := (hop_monitors h)[i := m]\<rparr>"] show ?case
      by (auto simp: hop_request_def loop resolved_Cons [OF c] split: prod.splits)
  next
    case 2
    then have "\<not> is_target q" by simp
    then obtain c w1 where
      loop: "\<And>ms. volume_io_loop vt (Ok (Some q) # ms) (hop_world h) =
        (c # fst (volume_io_loop vt ms w1), snd (volume_io_loop vt ms w1))"
      using volume_io_loop_step [of q vt "hop_world h"] by blast
    obtain r m where "monitor_turn (reply_of c) (outstanding_of q) (hop_monitors h ! i) = (r, m)" by force
    with 2 Cons(2) [of "h\<lparr>hop_world := w1, hop_monitors := (hop_monitors h)[i := m]\<rparr>"] show ?case
      by (auto simp: hop_request_def loop split: prod.splits)
  }
qed simp_all

lemma hop_volume_io_session:
  assumes "get_volume a (U64Index n) = Some volume"
    and "vol_open volume target len (hop_world h) = (Ok (info, vt), w1)"
  shows "hop_volume_io a n target len h =
    (Ok (info, hop_io vt (length (hop_monitors h))),
     h\<lparr>hop_world := w1, hop_monitors := hop_monitors h @ [Streaming]\<rparr>)"
  using assms by (simp add: hop_volume_io_def on_hop_def)

subsection \<open>The proxied target\<close>

text \<open>What the proxy's target completes a request with, whose future yields \<open>r\<close>.\<close>

fun queue_entry :: "TargetOrRequest \<Rightarrow> (status, completion) result \<Rightarrow> VolumeIoReply" where
  "queue_entry (ReqRead _ _) r = QRead (Some (case r of Ok (CompRead d) \<Rightarrow> Ok d
     | Ok _ \<Rightarrow> Err (not_received OutRead) | Err e \<Rightarrow> Err e))"
| "queue_entry (ReqWrite _ _) r = QWrite (Some (case r of Ok (CompWrite n) \<Rightarrow> Ok n
     | Ok _ \<Rightarrow> Err (not_received OutWrite) | Err e \<Rightarrow> Err e))"
| "queue_entry ReqFlush r = QFlush (Some (case r of Ok CompFlush \<Rightarrow> Ok ()
     | Ok _ \<Rightarrow> Err (not_received OutFlush) | Err e \<Rightarrow> Err e))"
| "queue_entry _ r = QShutdown (Some (case r of Ok CompShutdown \<Rightarrow> Ok ()
     | Ok _ \<Rightarrow> Err (not_received OutShutdown) | Err e \<Rightarrow> Err e))"

lemma proxied_requests:
  "list_all (\<lambda>q. \<not> is_target q) qs \<Longrightarrow>
   volume_io_loop (bs_volume_target (hop_io vt i)) (requests qs) w =
     (map2 queue_entry qs (fst (hop_requests vt i qs (bw_net w))),
      w\<lparr>bw_net := snd (hop_requests vt i qs (bw_net w))\<rparr>)"
proof (induction qs arbitrary: w)
  case Nil
  show ?case by simp
next
  case (Cons q qs)
  obtain r h1 where r: "hop_request vt i q (bw_net w) = (r, h1)" by force
  obtain rs h2 where "hop_requests vt i qs h1 = (rs, h2)" by force
  with r Cons.IH [of "w\<lparr>bw_net := h1\<rparr>"] Cons.prems show ?case
    by (cases q; cases r)
      (auto simp: bs_volume_target_def hop_io_def on_net_def future_def io_completion_def
        is_target_def split: completion.splits)
qed

text \<open>A completion that carries on what a completion of the same request carried.\<close>

lemma queue_entry_completion:
  assumes "queued_for q c" and "completion_of c = Some r"
  shows "completion_of (queue_entry q r) = Some r"
proof (cases "(q, c)" rule: queued_for.cases)
  case (1 n off x)
  with assms obtain y where "x = Some y" by auto
  with 1 assms show ?thesis by (cases y) auto
next
  case (2 d off x)
  with assms obtain y where "x = Some y" by auto
  with 2 assms show ?thesis by (cases y) auto
next
  case (3 x)
  with assms obtain y where "x = Some y" by auto
  with 3 assms show ?thesis by (cases y) auto
next
  case (4 x)
  with assms obtain y where "x = Some y" by auto
  with 4 assms show ?thesis by (cases y) auto
qed (use assms in auto)

lemma queue_entry_error: "completion_of (queue_entry q (Err e)) = Some (Err e)"
  by (cases q) simp_all

text \<open>Resolving twice is resolving once, when the target completes every request.\<close>

lemma session_results_twice:
  "list_all2 queued_for qs cs \<Longrightarrow> list_all (\<lambda>c. completion_of c \<noteq> None) cs \<Longrightarrow>
   session_results qs (map2 queue_entry qs (session_results qs cs)) = session_results qs cs"
proof (induction qs cs rule: list_all2_induct)
  case Nil
  show ?case by simp
next
  case (Cons q qs c cs)
  from Cons.prems obtain r where r: "completion_of c = Some r" by auto
  with Cons queue_entry_completion [OF Cons(1) r] show ?case
    by (cases r) (simp_all add: queue_entry_error)
qed

subsection \<open>The second hop adds nothing\<close>

lemma remote_of_simps [simp]:
  "rem_properties (remote_of a rest) t n h = (rpc_item_properties a (item_type_number t) n, h)"
  "rem_volume_info (remote_of a rest) n h = (rpc_volume_info a n (hop_world h), h)"
  "rem_volume_io (remote_of a rest) = hop_volume_io a"
  "rem_volume_commit (remote_of a rest) n = on_hop (rpc_volume_commit a n)"
  "rem_volume_erase (remote_of a rest) n target = on_hop (rpc_volume_erase a n target)"
  by (simp_all add: remote_of_def)

lemma register_volume_lookup:
  "register_volume p v s = (i, s1) \<Longrightarrow> get_volume s1 i = Some v"
  by (auto simp: register_volume_def registry_add_def get_volume_def registry_lookup_def item_new_def Let_def)

lemma proxied_volume_added:
  assumes "provider_add_item (remote_of a rest) inst ItemVolume n (b, w) = Done (b1, w1)"
    and "get_volume a (U64Index n) = Some volume"
  shows "\<exists>v. volume_id (bw_provider w1) n = Some (U64Index v) \<and>
    get_volume b1 (U64Index v) =
      Some (bs_volume (remote_of a rest) n (vol_targets volume (hop_world (bw_net w)))) \<and>
    bw_net w1 = bw_net w"
proof -
  let ?v = "bs_volume (remote_of a rest) n (vol_targets volume (hop_world (bw_net w)))"
  have new: "bs_volume_new (remote_of a rest) n w = (Ok ?v, w)"
    using assms(2) by (simp add: bs_volume_new_def on_net_def rpc_volume_info_def split: prod.splits)
  obtain props where props: "rpc_item_properties a (item_type_number ItemVolume) n = Ok props"
    using assms(1) by (auto simp: provider_add_item_def on_net_def split: sum.splits)
  let ?p = "properties_insert (properties_from props) INSTANCE inst"
  obtain i s1 where reg: "register_volume ?p ?v b = (i, s1)" by force
  with assms(1) have "b1 = s1" and "w1 = set_provider notify_all (set_provider (\<lambda>pv. pv\<lparr>pv_volumes :=
        AList.update n i (pv_volumes pv)\<rparr>) w)"
    by (simp_all add: provider_add_item_def on_net_def props add_volume_def new)
  with register_volume_lookup [OF reg] show ?thesis
    by (cases i) (simp add: volume_id_def set_provider_def notify_all_def update_conv')
qed

text \<open>
  C7. A volume through a proxying server is the volume itself: after the provider has added
  the volume of the remote server, a session on the proxy describes the target, resolves every
  request and changes the remote's world exactly as the same session on the remote server
  would, the first error and what follows it included, provided the target there completes
  every request.
\<close>

theorem proxied_volume_session:
  assumes "provider_add_item (remote_of a rest) inst ItemVolume n (b, w) = Done (b1, w1)"
    and "get_volume a (U64Index n) = Some volume"
    and "vol_open volume target len (hop_world (bw_net w1)) = (Ok (info, vt), u1)"
    and "list_all (\<lambda>q. \<not> is_target q) qs" and "length qs < alive"
    and "list_all (\<lambda>c. completion_of c \<noteq> None) (fst (volume_io_loop vt (requests qs) u1))"
  shows "\<exists>v. volume_id (bw_provider w1) n = Some (U64Index v) \<and>
    (case client_session up_to_error b1 v target len qs alive w1 of
       (r, w2) \<Rightarrow> (r, hop_world (bw_net w2))) =
    client_session up_to_error a n target len qs alive (hop_world (bw_net w1))"
proof -
  let ?h = "(bw_net w1)\<lparr>hop_world := u1, hop_monitors := hop_monitors (bw_net w1) @ [Streaming]\<rparr>"
  let ?i = "length (hop_monitors (bw_net w1))"
  from proxied_volume_added [OF assms(1,2)] obtain v where
    v: "volume_id (bw_provider w1) n = Some (U64Index v)"
    and proxy: "get_volume b1 (U64Index v) =
      Some (bs_volume (remote_of a rest) n (vol_targets volume (hop_world (bw_net w))))" by blast
  have opened: "vol_open (bs_volume (remote_of a rest) n (vol_targets volume (hop_world (bw_net w)))) target len w1 =
      (Ok (info, bs_volume_target (hop_io vt ?i)), w1\<lparr>bw_net := ?h\<rparr>)"
    by (simp add: bs_volume_def on_net_def hop_volume_io_session [OF assms(2,3)])
  obtain cs where cs: "list_all2 queued_for qs cs" "fst (volume_io_loop vt (requests qs) u1) = cs"
    using volume_io_loop_queue [OF assms(4), of vt u1] by (metis append_Nil2 fst_conv volume_io_loop.simps(1))
  have "fst (hop_requests vt ?i qs ?h) = session_results qs cs"
    and "hop_world (snd (hop_requests vt ?i qs ?h)) = snd (volume_io_loop vt (requests qs) u1)"
    using hop_requests_session [OF assms(4), of ?i ?h vt] cs(2) by simp_all
  with session_runs [OF refl proxy opened assms(4,5)] session_runs [OF refl assms(2-5)]
    session_results_twice [OF cs(1)] assms(6) cs(2) v
  show ?thesis by (simp add: proxied_requests [OF assms(4)])
qed

text \<open>A remote none of whose other calls succeeds, for the example.\<close>

definition idle_remote :: "(unit, unit, 'w) Remote" where
  "idle_remote =
     \<lparr>rem_properties = (\<lambda>t n w. (Err unmatched, w)),
      rem_device_info = (\<lambda>n w. (Ok None, w)),
      rem_device_change_mode = (\<lambda>n m w. (Err unmatched, w)),
      rem_actuator_change_mode = (\<lambda>n p w. (Err unmatched, w)),
      rem_console_configure = (\<lambda>n p w. (Err unmatched, w)),
      rem_console_input = (\<lambda>n w. (\<lambda>b v. v, w)),
      rem_console_output = (\<lambda>n w. (Err unmatched, w)),
      rem_volume_info = (\<lambda>n w. (Err unmatched, w)),
      rem_volume_io = (\<lambda>n t l w. (Err unmatched, w)),
      rem_volume_commit = (\<lambda>n w. (Err unmatched, w)),
      rem_volume_erase = (\<lambda>n t w. (Err unmatched, w)),
      rem_show_status = status_msg,
      rem_parameters = Some\<rparr>"

definition fresh_world :: "'w \<Rightarrow> (unit, 'w hop) bs_world" where
  "fresh_world w = \<lparr>bw_provider = provider_new, bw_devices = [], bw_consoles = [], bw_panicked = False,
     bw_net = hop_new w\<rparr>"

lemma proxied_volume_session_witness:
  "\<exists>b1 w1 v. provider_add_item (remote_of
        (server_run [RegisterVolume (properties_new ''a'') reading_volume]
          (server_new [] ''/etc'' :: (unit, nat) Server)) idle_remote) ''lab'' ItemVolume 0
        (server_new [] ''/b'', fresh_world 42) = Done (b1, w1) \<and>
    (case client_session up_to_error b1 v ''boot'' None
        [ReqRead 2 0, ReqFlush, ReqWrite [1] 0, ReqFlush] 8 w1 of (r, w2) \<Rightarrow> (r, hop_world (bw_net w2))) =
      (Ok (\<lparr>target_name = ''boot'', readable = True, writable = False, seekable = True,
            target_size = None, blocksize = None\<rparr>,
         [Ok (CompRead [0, 0]), Ok CompFlush, Err (Status Unimplemented ''Target is not writable''),
          Err unmatched]), 42)"
proof -
  let ?a = "server_run [RegisterVolume (properties_new ''a'') reading_volume]
    (server_new [] ''/etc'' :: (unit, nat) Server)"
  let ?qs = "[ReqRead 2 0, ReqFlush, ReqWrite [1] 0, ReqFlush]"
  let ?vt = "default_target\<lparr>vt_read := (\<lambda>n off w. (Some (Ok (replicate (unat n) 0)), w))\<rparr> :: nat VolumeTarget"
  note reg = server_run_def registry_lookup_def registry_add_def Let_def server_new_def registry_new_def
    index_default_def item_new_def
  have a: "get_volume ?a (U64Index 0) = Some reading_volume" by (simp add: get_volume_def reg)
  let ?add = "provider_add_item (remote_of ?a idle_remote) ''lab'' ItemVolume 0 (server_new [] ''/b'', fresh_world 42)"
  have "?add \<noteq> Panicked"
    by (simp add: provider_add_item_def on_net_def rpc_item_properties_def item_type_number_def
        item_type_try_from_def lookup_properties_def reg split: prod.splits)
  then obtain b1 w1 where added: "?add = Done (b1, w1)" by (metis outcome.exhaust surj_pair)
  with proxied_volume_added [OF added a] have "hop_world (bw_net w1) = 42"
    by (auto simp: fresh_world_def hop_new_def)
  moreover have o: "vol_open reading_volume ''boot'' None 42 =
      (Ok (\<lparr>target_name = ''boot'', readable = True, writable = False, seekable = True,
          target_size = None, blocksize = None\<rparr>, ?vt), 42)"
    by (simp add: reading_volume_def)
  moreover have "replicate 2 (0 :: u8) = [0, 0]" by (simp add: numeral_2_eq_2)
  ultimately show ?thesis
    using proxied_volume_session [OF added a, of "''boot''" None _ ?vt 42 ?qs 8]
      session_runs [OF refl a o, of ?qs 8] added
    by (auto simp: is_target_def default_target_def default_flush_def default_write_def)
qed

text \<open>
  A commit and an erase reach the remote as they are; its errors come back as the proxy's.
\<close>

lemma proxied_commit_erase:
  assumes "get_volume b (U64Index v) = Some (bs_volume (remote_of a rest) n targets)"
  shows "rpc_volume_commit b v w =
      (case on_hop (rpc_volume_commit a n) (bw_net w) of
         (r, h) \<Rightarrow> (map_err (\<lambda>e. status_of_volume_error (bs_volume_error (remote_of a rest) e)) r,
                  w\<lparr>bw_net := h\<rparr>))"
    and "rpc_volume_erase b v target w =
      (case on_hop (rpc_volume_erase a n target) (bw_net w) of
         (r, h) \<Rightarrow> (map_err (\<lambda>e. status_of_volume_error (bs_volume_error (remote_of a rest) e)) r,
                  w\<lparr>bw_net := h\<rparr>))"
  using assms
  by (auto simp: rpc_volume_commit_def [of b] rpc_volume_erase_def [of b] bs_volume_def on_net_def
      map_err_def split: prod.splits sum.splits)

end
