(* ===== verification/Batch_Writer.thy ===== *)
theory Batch_Writer
  imports Volume_Client
begin

section \<open>Batched writes (boardswarm-cli/src/utils.rs)\<close>

text \<open>
  \<^verbatim>\<open>BatchWriter\<close> collects small writes into writes of a size close to the message limit.
  It relies on one law of the stream below it, stated as a locale and proved for
  \<^verbatim>\<open>VolumeIoRW\<close>: a write poll takes a front part of the data or nothing. What it adds: the
  bytes it has accepted are, in order, those passed on and those it still holds.

  The definitions take the write poll of the stream as an argument. The environments of the
  successive polls of the stream are a list; when it is used up the stream is not ready.
\<close>

type_synonym ('env, 'w) write_poll = "'env \<Rightarrow> bytes \<Rightarrow> 'w \<Rightarrow> (io_error, nat) result polled \<times> 'w"

record 'w BatchWriter =
  bw_buffer_size :: nat
  bw_writer :: 'w
  bw_state :: "bytes option"
  bw_discard_flush :: bool
  bw_pending_seek :: "SeekFrom option"

definition batch_size :: "u32 option \<Rightarrow> nat outcome" where
  "batch_size bs =
     (let n = (case bs of Some b \<Rightarrow> unat b | None \<Rightarrow> 4096) in
      if n = 0 then Panicked else Done (MAX_WRITE_SIZE - MAX_WRITE_SIZE mod n))"

definition batch_new :: "VolumeIoRW \<Rightarrow> VolumeIoRW BatchWriter outcome" where
  "batch_new writer =
     (case batch_size (blocksize (rw_info writer)) of
        Panicked \<Rightarrow> Panicked
      | Done n \<Rightarrow>
          Done \<lparr>bw_buffer_size = n, bw_writer = writer, bw_state = None,
                bw_discard_flush = False, bw_pending_seek = None\<rparr>)"

definition batch_discard_flush :: "'w BatchWriter \<Rightarrow> 'w BatchWriter" where
  "batch_discard_flush bw = bw\<lparr>bw_discard_flush := True\<rparr>"

fun batch_flush_data ::
  "('env, 'w) write_poll \<Rightarrow> 'env list \<Rightarrow> 'w BatchWriter \<Rightarrow> (io_error, unit) result polled \<times> 'w BatchWriter" where
  "batch_flush_data pw envs bw =
     (case bw_state bw of
        None \<Rightarrow> (Polled (Ready (Ok ())), bw)
      | Some b \<Rightarrow>
          (case envs of
             [] \<Rightarrow> (Polled Pending, bw)
           | env # envs1 \<Rightarrow>
               (case pw env b (bw_writer bw) of
                  (PollPanicked, w) \<Rightarrow> (PollPanicked, bw\<lparr>bw_writer := w\<rparr>)
                | (Polled Pending, w) \<Rightarrow> (Polled Pending, bw\<lparr>bw_writer := w\<rparr>)
                | (Polled (Ready (Err e)), w) \<Rightarrow> (Polled (Ready (Err e)), bw\<lparr>bw_writer := w\<rparr>)
                | (Polled (Ready (Ok written)), w) \<Rightarrow>
                    batch_flush_data pw envs1
                      (bw\<lparr>bw_writer := w,
                          bw_state := if written \<ge> length b then None else Some (drop written b)\<rparr>))))"

declare batch_flush_data.simps [simp del]

definition batch_poll_write ::
  "('env, 'w) write_poll \<Rightarrow> 'env \<Rightarrow> bytes \<Rightarrow> 'w BatchWriter \<Rightarrow>
   (io_error, nat) result polled \<times> 'w BatchWriter" where
  "batch_poll_write pw env buf bw =
     (case bw_state bw of
        None \<Rightarrow>
          (if length buf \<ge> bw_buffer_size bw
           then (case pw env buf (bw_writer bw) of (r, w) \<Rightarrow> (r, bw\<lparr>bw_writer := w\<rparr>))
           else (Polled (Ready (Ok (length buf))), bw\<lparr>bw_state := Some buf\<rparr>))
      | Some b \<Rightarrow>
          (let cached = length b in
           if length buf + cached < bw_buffer_size bw
           then (Polled (Ready (Ok (length buf))), bw\<lparr>bw_state := Some (b @ buf)\<rparr>)
           else
             (let remaining = bw_buffer_size bw - cached;
                  b1 = b @ take remaining buf
              in case pw env b1 (bw_writer bw) of
                   (Polled (Ready (Ok written)), w) \<Rightarrow>
                     (if written \<ge> length b1
                      then (Polled (Ready (Ok remaining)), bw\<lparr>bw_writer := w, bw_state := None\<rparr>)
                      else (Polled (Ready (Ok remaining)), bw\<lparr>bw_writer := w, bw_state := Some (drop written b1)\<rparr>))
                 | (Polled (Ready (Err e)), w) \<Rightarrow>
                     (Polled (Ready (Err e)), bw\<lparr>bw_writer := w, bw_state := Some (take cached b1)\<rparr>)
                 | (Polled Pending, w) \<Rightarrow>
                     (Polled Pending, bw\<lparr>bw_writer := w, bw_state := Some (take cached b1)\<rparr>)
                 | (PollPanicked, w) \<Rightarrow> (PollPanicked, bw\<lparr>bw_writer := w, bw_state := Some b1\<rparr>))))"

text \<open>
  \<^verbatim>\<open>force_flush\<close>, \<^verbatim>\<open>poll_flush\<close> and \<^verbatim>\<open>poll_shutdown\<close>: the batch is passed on, then the
  operation of the stream is polled. \<open>op_poll\<close> is that operation.
\<close>

definition batch_then ::
  "('env, 'w) write_poll \<Rightarrow> ('w \<Rightarrow> (io_error, 'a) result polled \<times> 'w) \<Rightarrow> 'env list \<Rightarrow> 'w BatchWriter \<Rightarrow>
   (io_error, 'a) result polled \<times> 'w BatchWriter" where
  "batch_then pw op_poll envs bw =
     (case batch_flush_data pw envs bw of
        (Polled (Ready (Ok _)), bw1) \<Rightarrow>
          (case op_poll (bw_writer bw1) of (r, w) \<Rightarrow> (r, bw1\<lparr>bw_writer := w\<rparr>))
      | (Polled (Ready (Err e)), bw1) \<Rightarrow> (Polled (Ready (Err e)), bw1)
      | (Polled Pending, bw1) \<Rightarrow> (Polled Pending, bw1)
      | (PollPanicked, bw1) \<Rightarrow> (PollPanicked, bw1))"

definition batch_force_flush where
  "batch_force_flush pw flush = batch_then pw flush"

definition batch_poll_flush ::
  "('env, 'w) write_poll \<Rightarrow> ('w \<Rightarrow> (io_error, unit) result polled \<times> 'w) \<Rightarrow> 'env list \<Rightarrow> 'w BatchWriter \<Rightarrow>
   (io_error, unit) result polled \<times> 'w BatchWriter" where
  "batch_poll_flush pw flush envs bw =
     (if bw_discard_flush bw then (Polled (Ready (Ok ())), bw) else batch_then pw flush envs bw)"

definition batch_poll_shutdown where
  "batch_poll_shutdown pw shutdown = batch_then pw shutdown"

definition batch_start_seek ::
  "SeekFrom \<Rightarrow> VolumeIoRW BatchWriter \<Rightarrow> (io_error, unit) result \<times> VolumeIoRW BatchWriter" where
  "batch_start_seek position bw =
     (case bw_state bw of
        None \<Rightarrow> (case rw_start_seek position (bw_writer bw) of (r, w) \<Rightarrow> (r, bw\<lparr>bw_writer := w\<rparr>))
      | Some b \<Rightarrow>
          (if bw_pending_seek bw \<noteq> None then (Err (IoOther (Status OtherCode ''Seek in progress'')), bw)
           else (Ok (), bw\<lparr>bw_pending_seek := Some position\<rparr>)))"

definition batch_poll_complete ::
  "(poll_env, VolumeIoRW) write_poll \<Rightarrow> poll_env list \<Rightarrow> VolumeIoRW BatchWriter \<Rightarrow>
   (io_error, u64) result polled \<times> VolumeIoRW BatchWriter" where
  "batch_poll_complete pw envs bw =
     (case batch_flush_data pw envs bw of
        (Polled (Ready (Ok _)), bw1) \<Rightarrow>
          (let (r1, w1) = (case bw_pending_seek bw1 of
                 Some position \<Rightarrow> rw_start_seek position (bw_writer bw1)
               | None \<Rightarrow> (Ok (), bw_writer bw1));
               bw2 = bw1\<lparr>bw_pending_seek := None, bw_writer := w1\<rparr>
           in case r1 of
                Err e \<Rightarrow> (Polled (Ready (Err e)), bw2)
              | Ok _ \<Rightarrow>
                  (case rw_poll_complete w1 of
                     (r, w2) \<Rightarrow> (Polled (Ready r), bw2\<lparr>bw_writer := w2\<rparr>)))
      | (Polled (Ready (Err e)), bw1) \<Rightarrow> (Polled (Ready (Err e)), bw1)
      | (Polled Pending, bw1) \<Rightarrow> (Polled Pending, bw1)
      | (PollPanicked, bw1) \<Rightarrow> (PollPanicked, bw1))"

subsection \<open>The contract of the stream\<close>

definition batch_buffer :: "'w BatchWriter \<Rightarrow> bytes" where
  "batch_buffer bw = (case bw_state bw of None \<Rightarrow> [] | Some b \<Rightarrow> b)"

locale byte_sink =
  fixes pw :: "'env \<Rightarrow> bytes \<Rightarrow> 'w \<Rightarrow> (io_error, nat) result polled \<times> 'w"
    and sink :: "'w \<Rightarrow> bytes"
  assumes write_ok: "pw env buf w = (Polled (Ready (Ok n)), w') \<Longrightarrow>
      n \<le> length buf \<and> sink w' = sink w @ take n buf"
    and write_not: "pw env buf w = (r, w') \<Longrightarrow> (\<And>n. r \<noteq> Polled (Ready (Ok n))) \<Longrightarrow> sink w' = sink w"
begin

text \<open>Everything the batch writer has accepted.\<close>

definition accepted :: "'w BatchWriter \<Rightarrow> bytes" where
  "accepted bw = sink (bw_writer bw) @ batch_buffer bw"

lemma flush_data_accepted:
  "batch_flush_data pw envs bw = (r, bw') \<Longrightarrow>
   accepted bw' = accepted bw \<and> bw_buffer_size bw' = bw_buffer_size bw \<and>
   length (batch_buffer bw') \<le> length (batch_buffer bw) \<and>
   (r = Polled (Ready (Ok ())) \<longrightarrow> bw_state bw' = None)"
proof (induction envs arbitrary: bw)
  case Nil
  then show ?case by (subst (asm) batch_flush_data.simps) (auto split: option.splits)
next
  case (Cons env envs)
  show ?case
  proof (cases "bw_state bw")
    case None
    with Cons.prems show ?thesis by (subst (asm) batch_flush_data.simps) auto
  next
    case (Some b)
    obtain x w where x: "pw env b (bw_writer bw) = (x, w)" by force
    show ?thesis
    proof (cases "\<exists>n. x = Polled (Ready (Ok n))")
      case True
      then obtain n where n: "x = Polled (Ready (Ok n))" ..
      let ?bw = "bw\<lparr>bw_writer := w, bw_state := if n \<ge> length b then None else Some (drop n b)\<rparr>"
      have "batch_flush_data pw envs ?bw = (r, bw')"
        using Cons.prems Some x n by (subst (asm) batch_flush_data.simps) simp
      from Cons.IH [OF this] write_ok [OF x [unfolded n]] Some show ?thesis
        by (cases "length b = n") (auto simp: accepted_def batch_buffer_def)
    next
      case False
      with write_not [OF x] have "sink w = sink (bw_writer bw)" by blast
      with Cons.prems Some x False show ?thesis
        by (subst (asm) batch_flush_data.simps)
           (auto simp: accepted_def batch_buffer_def split: polled.splits poll.splits sum.splits)
    qed
  qed
qed

lemma poll_write_accepted:
  assumes "batch_poll_write pw env buf bw = (r, bw')" "length (batch_buffer bw) \<le> bw_buffer_size bw"
  shows "accepted bw' = accepted bw @ (case r of Polled (Ready (Ok n)) \<Rightarrow> take n buf | _ \<Rightarrow> []) \<or> r = PollPanicked"
    and "bw_buffer_size bw' = bw_buffer_size bw"
    and "r \<noteq> PollPanicked \<Longrightarrow> length (batch_buffer bw') \<le> bw_buffer_size bw'"
    and "r = Polled (Ready (Ok n)) \<Longrightarrow> n \<le> length buf"
proof -
  have "(accepted bw' = accepted bw @ (case r of Polled (Ready (Ok n)) \<Rightarrow> take n buf | _ \<Rightarrow> []) \<or> r = PollPanicked) \<and>
    bw_buffer_size bw' = bw_buffer_size bw \<and>
    (r \<noteq> PollPanicked \<longrightarrow> length (batch_buffer bw') \<le> bw_buffer_size bw') \<and>
    (\<forall>n. r = Polled (Ready (Ok n)) \<longrightarrow> n \<le> length buf)"
  proof (cases "bw_state bw")
    case None
    obtain x w where x: "pw env buf (bw_writer bw) = (x, w)" by force
    note none = write_not [OF x] and ok = write_ok [of env buf "bw_writer bw"]
    show ?thesis
      using assms None x none ok
      by (cases "\<exists>n. x = Polled (Ready (Ok n))")
         (auto simp: batch_poll_write_def accepted_def batch_buffer_def
           split: if_splits polled.splits poll.splits sum.splits)
  next
    case (Some b)
    let ?n = "bw_buffer_size bw - length b"
    obtain x w where x: "pw env (b @ take ?n buf) (bw_writer bw) = (x, w)" by force
    note none = write_not [OF x] and ok = write_ok [of env "b @ take ?n buf" "bw_writer bw"]
    show ?thesis
    proof (cases "length buf + length b < bw_buffer_size bw")
      case True
      with assms Some show ?thesis
        by (auto simp: batch_poll_write_def accepted_def batch_buffer_def Let_def)
    next
      case full: False
      show ?thesis
      proof (cases "\<exists>n. x = Polled (Ready (Ok n))")
        case True
        then obtain n where n: "x = Polled (Ready (Ok n))" ..
        from ok x n have "n \<le> length (b @ take ?n buf)"
          and sink: "sink w = sink (bw_writer bw) @ take n (b @ take ?n buf)" by auto
        moreover have "take n (b @ take ?n buf) @ drop n (b @ take ?n buf) = b @ take ?n buf"
          by (rule append_take_drop_id)
        ultimately show ?thesis
          using assms Some full x n
          by (auto simp: batch_poll_write_def accepted_def batch_buffer_def Let_def split: if_splits)
      next
        case False
        with none have "sink w = sink (bw_writer bw)" by blast
        with assms Some full x False show ?thesis
          by (auto simp: batch_poll_write_def accepted_def batch_buffer_def Let_def
              split: polled.splits poll.splits sum.splits)
      qed
    qed
  qed
  then show "accepted bw' = accepted bw @ (case r of Polled (Ready (Ok n)) \<Rightarrow> take n buf | _ \<Rightarrow> []) \<or> r = PollPanicked"
    and "bw_buffer_size bw' = bw_buffer_size bw"
    and "r \<noteq> PollPanicked \<Longrightarrow> length (batch_buffer bw') \<le> bw_buffer_size bw'"
    and "r = Polled (Ready (Ok n)) \<Longrightarrow> n \<le> length buf" by blast+
qed

text \<open>An operation of the stream that sends no bytes, after the batch has been passed on.\<close>

lemma then_accepted:
  assumes "batch_then pw op_poll envs bw = (r, bw')" "\<And>w. sink (snd (op_poll w)) = sink w"
  shows "accepted bw' = accepted bw" "bw_buffer_size bw' = bw_buffer_size bw"
    "length (batch_buffer bw') \<le> length (batch_buffer bw)" "r = Polled (Ready (Ok v)) \<Longrightarrow> batch_buffer bw' = []"
proof -
  obtain q bw1 where q: "batch_flush_data pw envs bw = (q, bw1)" by force
  note data = flush_data_accepted [OF q]
  obtain r1 w1 where w1: "op_poll (bw_writer bw1) = (r1, w1)" by force
  from assms(2) [of "bw_writer bw1"] w1 have "sink w1 = sink (bw_writer bw1)" by simp
  with assms(1) q w1 data show "accepted bw' = accepted bw" "bw_buffer_size bw' = bw_buffer_size bw"
    "length (batch_buffer bw') \<le> length (batch_buffer bw)" "r = Polled (Ready (Ok v)) \<Longrightarrow> batch_buffer bw' = []"
    by (auto simp: batch_then_def accepted_def batch_buffer_def split: polled.splits poll.splits sum.splits)
qed

end

subsection \<open>VolumeIoRW keeps the contract\<close>

definition sent_bytes :: "VolumeIoRW \<Rightarrow> bytes" where
  "sent_bytes rw = concat (map (\<lambda>q. case q of ReqWrite d off \<Rightarrow> d | _ \<Rightarrow> []) (rw_sent rw))"

interpretation volume_sink: byte_sink rw_poll_write sent_bytes
proof unfold_locales
  fix env buf w n w'
  assume "rw_poll_write env buf w = (Polled (Ready (Ok n)), w')"
  from poll_write_result [OF this] show "n \<le> length buf \<and> sent_bytes w' = sent_bytes w @ take n buf"
    by (auto simp: write_result_def sent_bytes_def)
next
  fix env buf w r w'
  assume a: "rw_poll_write env buf w = (r, w')" and r: "\<And>n. r \<noteq> Polled (Ready (Ok n))"
  from poll_write_result [OF a] r show "sent_bytes w' = sent_bytes w"
    by (auto simp: write_result_def sent_bytes_def split: polled.splits poll.splits sum.splits)
qed

subsection \<open>The properties of the batch writer\<close>

text \<open>
  The polls of a batch writer: the environment of the operation itself and those of the writes
  that pass the batch on. A ready result is how many bytes were accepted, which only a write does.
\<close>

datatype batch_op =
    BatchWrite bytes | BatchFlush | BatchForceFlush | BatchShutdown | BatchSeek SeekFrom | BatchComplete

definition accepts_none :: "(io_error, 'a) result polled \<Rightarrow> (io_error, nat) result polled" where
  "accepts_none r =
     (case r of
        PollPanicked \<Rightarrow> PollPanicked
      | Polled Pending \<Rightarrow> Polled Pending
      | Polled (Ready (Err e)) \<Rightarrow> Polled (Ready (Err e))
      | Polled (Ready (Ok v)) \<Rightarrow> Polled (Ready (Ok 0)))"

fun batch_poll ::
  "poll_env \<Rightarrow> poll_env list \<Rightarrow> batch_op \<Rightarrow> VolumeIoRW BatchWriter \<Rightarrow>
   (io_error, nat) result polled \<times> VolumeIoRW BatchWriter" where
  "batch_poll env envs (BatchWrite buf) bw = batch_poll_write rw_poll_write env buf bw"
| "batch_poll env envs BatchFlush bw = apfst accepts_none (batch_poll_flush rw_poll_write (rw_poll_flush env) envs bw)"
| "batch_poll env envs BatchForceFlush bw =
     apfst accepts_none (batch_force_flush rw_poll_write (rw_poll_flush env) envs bw)"
| "batch_poll env envs BatchShutdown bw =
     apfst accepts_none (batch_poll_shutdown rw_poll_write (rw_poll_shutdown env) envs bw)"
| "batch_poll env envs (BatchSeek position) bw =
     apfst (\<lambda>r. accepts_none (Polled (Ready r))) (batch_start_seek position bw)"
| "batch_poll env envs BatchComplete bw = apfst accepts_none (batch_poll_complete rw_poll_write envs bw)"

text \<open>The bytes an operation accepts, and the operations that leave nothing behind.\<close>

definition taken_by :: "batch_op \<Rightarrow> (io_error, nat) result polled \<Rightarrow> bytes" where
  "taken_by op r = (case (op, r) of (BatchWrite buf, Polled (Ready (Ok n))) \<Rightarrow> take n buf | _ \<Rightarrow> [])"

definition passes_on :: "batch_op \<Rightarrow> VolumeIoRW BatchWriter \<Rightarrow> bool" where
  "passes_on op bw =
     (case op of
        BatchFlush \<Rightarrow> \<not> bw_discard_flush bw | BatchForceFlush \<Rightarrow> True | BatchShutdown \<Rightarrow> True
      | BatchComplete \<Rightarrow> True | _ \<Rightarrow> False)"

text \<open>A use of the writer: the bytes accepted, and \<open>None\<close> when a poll panicked.\<close>

fun batch_run ::
  "(poll_env \<times> poll_env list \<times> batch_op) list \<Rightarrow> VolumeIoRW BatchWriter \<Rightarrow>
   (bytes \<times> VolumeIoRW BatchWriter) option" where
  "batch_run [] bw = Some ([], bw)"
| "batch_run ((env, envs, op) # polls) bw =
     (case batch_poll env envs op bw of
        (PollPanicked, bw1) \<Rightarrow> None
      | (r, bw1) \<Rightarrow>
          (case batch_run polls bw1 of
             None \<Rightarrow> None | Some (acc, bw2) \<Rightarrow> Some (taken_by op r @ acc, bw2)))"

text \<open>The other operations of the stream send no bytes.\<close>

lemma flush_sends_nothing: "sent_bytes (snd (rw_poll_flush env rw)) = sent_bytes rw"
proof (induction env rw rule: rw_poll_flush.induct)
  case (1 env rw)
  obtain c rw1 where c: "cleanup_pending_requests env rw = (c, rw1)" by force
  from cleanup_frame(1) [OF c] have same: "sent_bytes rw1 = sent_bytes rw" by (simp add: sent_bytes_def)
  show ?case
    by (subst rw_poll_flush.simps)
       (use 1 c same in \<open>auto simp: sent_bytes_def send_request_def
          split: sum.splits io_state.splits bool.splits poll.splits\<close>)
qed

lemma shutdown_sends_nothing: "sent_bytes (snd (rw_poll_shutdown env rw)) = sent_bytes rw"
proof (induction env rw rule: rw_poll_shutdown.induct)
  case (1 env rw)
  obtain c rw1 where c: "cleanup_pending_requests env rw = (c, rw1)" by force
  from cleanup_frame(1) [OF c] have same: "sent_bytes rw1 = sent_bytes rw" by (simp add: sent_bytes_def)
  show ?case
    by (subst rw_poll_shutdown.simps)
       (use 1 c same in \<open>auto simp: sent_bytes_def send_request_def
          split: sum.splits io_state.splits bool.splits poll.splits\<close>)
qed

lemma seek_sends_nothing:
  "rw_start_seek position rw = (r, rw') \<Longrightarrow> sent_bytes rw' = sent_bytes rw"
  "rw_poll_complete rw = (q, rw') \<Longrightarrow> sent_bytes rw' = sent_bytes rw"
  by (auto simp: rw_start_seek_def rw_poll_complete_def sent_bytes_def Let_def
      split: option.splits SeekFrom.splits if_splits)

text \<open>A poll accepts what it takes, keeps the batch small, and may pass all of it on.\<close>

definition poll_keeps ::
  "batch_op \<Rightarrow> (io_error, nat) result polled \<Rightarrow> VolumeIoRW BatchWriter \<Rightarrow> VolumeIoRW BatchWriter \<Rightarrow> bool" where
  "poll_keeps op r bw bw' \<longleftrightarrow>
     volume_sink.accepted bw' = volume_sink.accepted bw @ taken_by op r \<and>
     length (batch_buffer bw') \<le> bw_buffer_size bw' \<and>
     (passes_on op bw \<longrightarrow> (\<exists>n. r = Polled (Ready (Ok n))) \<longrightarrow> batch_buffer bw' = [])"

lemma accepts_none_ok: "accepts_none q = Polled (Ready (Ok n)) \<longleftrightarrow> n = 0 \<and> (\<exists>v. q = Polled (Ready (Ok v)))"
  by (auto simp: accepts_none_def split: polled.splits poll.splits sum.splits)

lemma start_seek_keeps:
  assumes "batch_start_seek position bw = (q, bw')"
  shows "sent_bytes (bw_writer bw') = sent_bytes (bw_writer bw) \<and> bw_state bw' = bw_state bw \<and>
    bw_buffer_size bw' = bw_buffer_size bw"
  using assms seek_sends_nothing(1) [of position "bw_writer bw"]
  by (auto simp: batch_start_seek_def split: option.splits prod.splits if_splits)

lemma then_keeps:
  assumes "apfst accepts_none (batch_then rw_poll_write op_poll envs bw) = (r, bw')"
    and "\<And>w. sent_bytes (snd (op_poll w)) = sent_bytes w" "length (batch_buffer bw) \<le> bw_buffer_size bw"
    and "taken_by op r = []"
  shows "poll_keeps op r bw bw'"
proof -
  obtain q where q: "batch_then rw_poll_write op_poll envs bw = (q, bw')" "r = accepts_none q"
    using assms(1) by (auto simp: apfst_def map_prod_def split: prod.splits)
  note kept = volume_sink.then_accepted [OF q(1) assms(2)]
  with q(2) assms(3,4) show ?thesis by (auto simp: poll_keeps_def accepts_none_ok)
qed

lemma poll_accepted:
  assumes "batch_poll env envs op bw = (r, bw')" "r \<noteq> PollPanicked" "length (batch_buffer bw) \<le> bw_buffer_size bw"
  shows "poll_keeps op r bw bw'"
proof (cases op)
  case (BatchWrite buf)
  with assms(1) have w: "batch_poll_write rw_poll_write env buf bw = (r, bw')" by simp
  from volume_sink.poll_write_accepted(1,3) [OF w assms(3)] assms(2) BatchWrite show ?thesis
    by (auto simp: poll_keeps_def taken_by_def passes_on_def split: polled.splits poll.splits sum.splits)
next
  case BatchFlush
  show ?thesis
  proof (cases "bw_discard_flush bw")
    case True
    with assms BatchFlush show ?thesis
      by (auto simp: poll_keeps_def taken_by_def passes_on_def batch_poll_flush_def accepts_none_def)
  next
    case False
    with assms(1) BatchFlush then_keeps [OF _ flush_sends_nothing assms(3)] show ?thesis
      by (simp add: batch_poll_flush_def taken_by_def)
  qed
next
  case BatchForceFlush
  with assms(1) then_keeps [OF _ flush_sends_nothing assms(3)] show ?thesis
    by (simp add: batch_force_flush_def taken_by_def)
next
  case BatchShutdown
  with assms(1) then_keeps [OF _ shutdown_sends_nothing assms(3)] show ?thesis
    by (simp add: batch_poll_shutdown_def taken_by_def)
next
  case (BatchSeek position)
  obtain q where q: "batch_start_seek position bw = (q, bw')"
    using assms(1) BatchSeek by (auto simp: apfst_def map_prod_def split: prod.splits)
  with start_seek_keeps [OF q] BatchSeek assms(3) show ?thesis
    by (simp add: poll_keeps_def taken_by_def passes_on_def volume_sink.accepted_def batch_buffer_def)
next
  case BatchComplete
  obtain q where q: "batch_poll_complete rw_poll_write envs bw = (q, bw')" "r = accepts_none q"
    using assms(1) BatchComplete by (auto simp: apfst_def map_prod_def split: prod.splits)
  obtain x bw1 where x: "batch_flush_data rw_poll_write envs bw = (x, bw1)" by force
  note data = volume_sink.flush_data_accepted [OF x]
  have "volume_sink.accepted bw' = volume_sink.accepted bw1" "batch_buffer bw' = batch_buffer bw1"
    "bw_buffer_size bw' = bw_buffer_size bw1" "(\<exists>v. q = Polled (Ready (Ok v))) \<Longrightarrow> x = Polled (Ready (Ok ()))"
    using q(1) x
    by (auto simp: batch_poll_complete_def volume_sink.accepted_def batch_buffer_def Let_def
        split: polled.splits poll.splits sum.splits option.splits prod.splits dest!: seek_sends_nothing)
  with data q(2) assms(3) BatchComplete show ?thesis
    by (auto simp: poll_keeps_def taken_by_def batch_buffer_def accepts_none_ok)
qed

lemma run_accepted:
  "batch_run polls bw = Some (acc, bw') \<Longrightarrow> length (batch_buffer bw) \<le> bw_buffer_size bw \<Longrightarrow>
   volume_sink.accepted bw' = volume_sink.accepted bw @ acc \<and> length (batch_buffer bw') \<le> bw_buffer_size bw'"
proof (induction polls arbitrary: bw acc)
  case (Cons p polls)
  obtain env envs op where p: "p = (env, envs, op)" by (metis prod.exhaust)
  obtain r bw1 where r: "batch_poll env envs op bw = (r, bw1)" by force
  with Cons.prems(1) p obtain acc1 where run: "r \<noteq> PollPanicked" "batch_run polls bw1 = Some (acc1, bw')"
    "acc = taken_by op r @ acc1" by (auto split: polled.splits option.splits)
  from poll_accepted [OF r run(1) Cons.prems(2)] Cons.IH [OF run(2)] run(3) show ?case
    by (simp add: poll_keeps_def)
qed simp

text \<open>
  C18. Batching loses nothing: whatever polls are made on a new batch writer, in any order and
  whatever each meets (writes, short ones included, flushes discarded or not, forced flushes,
  shutdowns and seeks; a panic excepted), the bytes accepted by the writes are, in order, those
  sent to the volume and those held in a buffer no larger than the batch size; and when a forced
  flush, a shutdown, the completion of a seek, or a flush that is not discarded returns, all of
  them have been sent.
\<close>

theorem batch_writer_loses_nothing:
  assumes "batch_new (rw_new info) = Done bw0" "bw = bw0 \<or> bw = batch_discard_flush bw0"
    and "batch_run polls bw = Some (acc, bw1)" "batch_poll env envs op bw1 = (r, bw2)"
  shows "sent_bytes (bw_writer bw1) @ batch_buffer bw1 = acc \<and>
    length (batch_buffer bw1) \<le> bw_buffer_size bw1 \<and>
    (passes_on op bw1 \<and> r = Polled (Ready (Ok n)) \<longrightarrow>
       batch_buffer bw2 = [] \<and> sent_bytes (bw_writer bw2) = acc)"
proof -
  have start: "volume_sink.accepted bw = []" "length (batch_buffer bw) \<le> bw_buffer_size bw"
    using assms(1,2)
    by (auto simp: batch_new_def rw_new_def volume_sink.accepted_def batch_buffer_def sent_bytes_def
        batch_discard_flush_def split: outcome.splits)
  from run_accepted [OF assms(3) start(2)] start(1)
  have acc: "volume_sink.accepted bw1 = acc" "length (batch_buffer bw1) \<le> bw_buffer_size bw1" by simp_all
  have "batch_buffer bw2 = [] \<and> sent_bytes (bw_writer bw2) = acc" if "passes_on op bw1" "r = Polled (Ready (Ok n))"
  proof -
    have "taken_by op r = []" using that(1) by (cases op) (simp_all add: passes_on_def taken_by_def)
    with poll_accepted [OF assms(4) _ acc(2)] that acc(1) show ?thesis
      by (auto simp: poll_keeps_def volume_sink.accepted_def)
  qed
  with acc show ?thesis by (auto simp: volume_sink.accepted_def)
qed

lemma batch_writer_loses_nothing_witness:
  "\<exists>bw bw1 bw2. batch_new (rw_new example_info) = Done bw \<and>
    batch_run [(open_env, [], BatchWrite [1, 2]), (open_env, [], BatchShutdown), (open_env, [], BatchWrite [3])] bw =
      Some ([1, 2, 3], bw1) \<and>
    batch_poll (open_env\<lparr>env_done := \<lambda>n. Ready (Ok ())\<rparr>) [open_env] BatchShutdown bw1 = (Polled (Ready (Ok 0)), bw2) \<and>
    sent_bytes (bw_writer bw2) = [1, 2, 3]"
proof -
  let ?env = "open_env\<lparr>env_done := \<lambda>n. Ready (Ok ())\<rparr>"
  obtain bw where bw: "batch_new (rw_new example_info) = Done bw"
    by (simp add: batch_new_def batch_size_def rw_new_def example_info_def)
  then have "bw_state bw = None" "bw_buffer_size bw = 3145728" "bw_writer bw = rw_new example_info"
    by (auto simp: batch_new_def batch_size_def rw_new_def example_info_def MAX_WRITE_SIZE_def)
  then obtain bw1 where run: "batch_run [(open_env, [], BatchWrite [1, 2]), (open_env, [], BatchShutdown),
      (open_env, [], BatchWrite [3])] bw = Some ([1, 2, 3], bw1)"
    and bw1: "bw_state bw1 = Some [1, 2, 3]" "bw_writer bw1 = rw_new example_info"
    by (auto simp: batch_poll_write_def batch_poll_shutdown_def batch_then_def accepts_none_def taken_by_def
        batch_flush_data.simps)
  obtain bw2 where last: "batch_poll ?env [open_env] BatchShutdown bw1 = (Polled (Ready (Ok 0)), bw2)"
    by (simp add: batch_poll_shutdown_def batch_then_def accepts_none_def batch_flush_data.simps bw1 open_env_def
        rw_poll_write_def rw_new_def example_info_def write_loop_rw.simps rw_poll_shutdown.simps
        cleanup_pending_requests_def invalidate_read_buffer_def send_request_def MAX_WRITE_SIZE_def)
  have "passes_on BatchShutdown bw1" by (simp add: passes_on_def)
  with batch_writer_loses_nothing [OF bw _ run last, of 0] bw run last show ?thesis by auto
qed

end
