(* ===== verification/Async_Io.thy ===== *)
theory Async_Io
  imports Batch_Writer Fastboot
begin

section \<open>Awaiting the batch writer, and the place of what is written\<close>

text \<open>
  The command line writes to a volume through the extension methods of tokio (\<^verbatim>\<open>write_all\<close>,
  \<^verbatim>\<open>seek\<close>, \<^verbatim>\<open>flush\<close>, \<^verbatim>\<open>shutdown\<close>, \<^verbatim>\<open>copy\<close>) on a \<^verbatim>\<open>BatchWriter\<close> over a \<^verbatim>\<open>VolumeIoRW\<close>. Those
  methods poll until the operation is ready; the polls take their environments from a supply,
  and a method that is still waiting at its end yields \<open>Waiting\<close>. The interface \<open>placing_writer\<close> states
  what the rest of the command line relies on: bytes end up on the volume at the position
  of the writer. It is proved for the batch writer, whatever the channel and the replies do.
\<close>

subsection \<open>Awaited operations\<close>

datatype 'a awaited = Returned 'a | Waiting | Unwound

definition await_then ::
  "('w \<Rightarrow> ('e, 'a) result awaited \<times> 'w) \<Rightarrow> ('a \<Rightarrow> 'w \<Rightarrow> ('e, 'b) result awaited \<times> 'w) \<Rightarrow> 'w \<Rightarrow>
   ('e, 'b) result awaited \<times> 'w" where
  "await_then m f w =
     (case m w of
        (Returned (Ok a), w1) \<Rightarrow> f a w1
      | (Returned (Err e), w1) \<Rightarrow> (Returned (Err e), w1)
      | (Waiting, w1) \<Rightarrow> (Waiting, w1)
      | (Unwound, w1) \<Rightarrow> (Unwound, w1))"

definition await_map_err ::
  "('e \<Rightarrow> 'f) \<Rightarrow> ('w \<Rightarrow> ('e, 'a) result awaited \<times> 'w) \<Rightarrow> 'w \<Rightarrow> ('f, 'a) result awaited \<times> 'w" where
  "await_map_err h m w =
     (case m w of
        (Returned r, w1) \<Rightarrow> (Returned (map_err h r), w1)
      | (Waiting, w1) \<Rightarrow> (Waiting, w1)
      | (Unwound, w1) \<Rightarrow> (Unwound, w1))"

fun await_each :: "('x \<Rightarrow> 'w \<Rightarrow> ('e, unit) result awaited \<times> 'w) \<Rightarrow> 'x list \<Rightarrow> 'w \<Rightarrow>
    ('e, unit) result awaited \<times> 'w" where
  "await_each f [] w = (Returned (Ok ()), w)"
| "await_each f (x # xs) w = await_then (f x) (\<lambda>_. await_each f xs) w"

lemma await_then_ok:
  "await_then m f w = (Returned (Ok b), w') \<longleftrightarrow>
   (\<exists>a w1. m w = (Returned (Ok a), w1) \<and> f a w1 = (Returned (Ok b), w'))"
  by (auto simp: await_then_def split: prod.splits awaited.splits sum.splits)

lemma await_map_err_ok:
  "await_map_err h m w = (Returned (Ok b), w') \<longleftrightarrow> m w = (Returned (Ok b), w')"
  by (auto simp: await_map_err_def map_err_def split: prod.splits awaited.splits sum.splits)

text \<open>
  A writer, as \<^verbatim>\<open>AsyncWriteExt\<close> and \<^verbatim>\<open>AsyncSeekExt\<close> present it over a state \<open>'w\<close>.
\<close>

record 'w async_writer =
  wr_write_all :: "bytes \<Rightarrow> 'w \<Rightarrow> (io_error, unit) result awaited \<times> 'w"
  wr_flush :: "'w \<Rightarrow> (io_error, unit) result awaited \<times> 'w"
  wr_seek :: "SeekFrom \<Rightarrow> 'w \<Rightarrow> (io_error, u64) result awaited \<times> 'w"
  wr_shutdown :: "'w \<Rightarrow> (io_error, unit) result awaited \<times> 'w"

text \<open>\<^verbatim>\<open>tokio::io::copy\<close> reads 8 KiB at a time, writes each piece and flushes at the end.\<close>

function copy_pieces :: "bytes \<Rightarrow> bytes list" where
  "copy_pieces d = (if d = [] then [] else take 8192 d # copy_pieces (drop 8192 d))"
  by pat_completeness auto
termination by (relation "measure length") auto

declare copy_pieces.simps [simp del]

definition copy_to :: "('w, 'x) async_writer_scheme \<Rightarrow> bytes \<Rightarrow> 'w \<Rightarrow> (io_error, unit) result awaited \<times> 'w" where
  "copy_to wr d = await_then (await_each (wr_write_all wr) (copy_pieces d)) (\<lambda>_. wr_flush wr)"

lemma concat_copy_pieces [simp]: "concat (copy_pieces d) = d"
  by (induction d rule: copy_pieces.induct) (subst copy_pieces.simps, simp)

subsection \<open>The batch writer as such a writer\<close>

text \<open>
  Each poll of the batch writer gets an environment for the poll of the stream a write makes,
  and those for the polls a flush of the batch makes.
\<close>

type_synonym batch_supply = "(poll_env \<times> poll_env list) list"
type_synonym batch_stack = "batch_supply \<times> VolumeIoRW BatchWriter"

definition write_zero :: io_error where
  "write_zero = IoOther (Status OtherCode ''failed to write whole buffer'')"

fun batch_write_all ::
  "bytes \<Rightarrow> batch_supply \<Rightarrow> VolumeIoRW BatchWriter \<Rightarrow> (io_error, unit) result awaited \<times> batch_stack" where
  "batch_write_all buf [] bw = (if buf = [] then Returned (Ok ()) else Waiting, [], bw)"
| "batch_write_all buf (e # feed) bw =
     (if buf = [] then (Returned (Ok ()), e # feed, bw)
      else
        (case batch_poll_write rw_poll_write (fst e) buf bw of
           (PollPanicked, bw1) \<Rightarrow> (Unwound, feed, bw1)
         | (Polled Pending, bw1) \<Rightarrow> batch_write_all buf feed bw1
         | (Polled (Ready (Err x)), bw1) \<Rightarrow> (Returned (Err x), feed, bw1)
         | (Polled (Ready (Ok n)), bw1) \<Rightarrow>
             (if n = 0 then (Returned (Err write_zero), feed, bw1)
              else batch_write_all (drop n buf) feed bw1)))"

fun await_polls ::
  "(poll_env \<times> poll_env list \<Rightarrow> 'b \<Rightarrow> (io_error, 'a) result polled \<times> 'b) \<Rightarrow> batch_supply \<Rightarrow> 'b \<Rightarrow>
   (io_error, 'a) result awaited \<times> batch_supply \<times> 'b" where
  "await_polls poll [] bw = (Waiting, [], bw)"
| "await_polls poll (e # feed) bw =
     (case poll e bw of
        (PollPanicked, bw1) \<Rightarrow> (Unwound, feed, bw1)
      | (Polled Pending, bw1) \<Rightarrow> await_polls poll feed bw1
      | (Polled (Ready r), bw1) \<Rightarrow> (Returned r, feed, bw1))"

text \<open>\<^verbatim>\<open>AsyncSeekExt::seek\<close> first waits until no seek is in progress.\<close>

definition batch_seek ::
  "SeekFrom \<Rightarrow> batch_stack \<Rightarrow> (io_error, u64) result awaited \<times> batch_stack" where
  "batch_seek position =
     await_then (\<lambda>(feed, bw). await_polls (\<lambda>(_, envs). batch_poll_complete rw_poll_write envs) feed bw)
       (\<lambda>_. await_then (\<lambda>(feed, bw).
            case batch_start_seek position bw of (r, bw1) \<Rightarrow> (Returned r, feed, bw1))
         (\<lambda>_ (feed, bw). await_polls (\<lambda>(_, envs). batch_poll_complete rw_poll_write envs) feed bw))"

definition batch_async :: "batch_stack async_writer" where
  "batch_async =
     \<lparr>wr_write_all = (\<lambda>d (feed, bw). batch_write_all d feed bw),
      wr_flush = (\<lambda>(feed, bw). await_polls
        (\<lambda>(env, envs). batch_poll_flush rw_poll_write (rw_poll_flush env) envs) feed bw),
      wr_seek = batch_seek,
      wr_shutdown = (\<lambda>(feed, bw). await_polls
        (\<lambda>(env, envs). batch_poll_shutdown rw_poll_write (rw_poll_shutdown env) envs) feed bw)\<rparr>"

subsection \<open>The interface: bytes end up at the position of the writer\<close>

locale placing_writer =
  fixes wr :: "'w async_writer"
    and good :: "'w \<Rightarrow> bool"
    and place :: "'w \<Rightarrow> nat"
    and content :: "'w \<Rightarrow> (nat \<rightharpoonup> u8)"
    and settled :: "'w \<Rightarrow> bool"
  assumes write_places: "wr_write_all wr d w = (Returned (Ok ()), w') \<Longrightarrow> good w \<Longrightarrow>
      place w + length d < 2 ^ 64 \<Longrightarrow>
      good w' \<and> place w' = place w + length d \<and> content w' = content w ++ write_at (place w) d"
    and flush_keeps: "wr_flush wr w = (Returned (Ok ()), w') \<Longrightarrow> good w \<Longrightarrow>
      good w' \<and> place w' = place w \<and> content w' = content w"
    and seek_moves: "wr_seek wr (SeekCurrent (of_nat n)) w = (Returned (Ok p), w') \<Longrightarrow> good w \<Longrightarrow>
      place w + n < 2 ^ 64 \<Longrightarrow> n < 2 ^ 63 \<Longrightarrow>
      good w' \<and> place w' = place w + n \<and> content w' = content w"
    and seek_starts: "wr_seek wr (SeekStart s) w = (Returned (Ok p), w') \<Longrightarrow> good w \<Longrightarrow>
      good w' \<and> place w' = unat s \<and> content w' = content w"
    and shutdown_keeps: "wr_shutdown wr w = (Returned (Ok ()), w') \<Longrightarrow> good w \<Longrightarrow>
      content w' = content w \<and> settled w'"
begin

lemma each_places:
  "await_each (wr_write_all wr) ds w = (Returned (Ok ()), w') \<Longrightarrow> good w \<Longrightarrow>
   place w + length (concat ds) < 2 ^ 64 \<Longrightarrow>
   good w' \<and> place w' = place w + length (concat ds) \<and>
   content w' = content w ++ write_at (place w) (concat ds)"
proof (induction ds arbitrary: w)
  case Nil
  then show ?case by simp
next
  case (Cons d ds)
  then obtain w1 where w1: "wr_write_all wr d w = (Returned (Ok ()), w1)"
    "await_each (wr_write_all wr) ds w1 = (Returned (Ok ()), w')"
    by (auto simp: await_then_ok)
  from write_places [OF w1(1)] Cons.prems(2,3)
  have d: "good w1" "place w1 = place w + length d" "content w1 = content w ++ write_at (place w) d" by auto
  from Cons.IH [OF w1(2) d(1)] d Cons.prems(3) show ?case by (simp add: write_at_append)
qed

lemma copy_places:
  assumes "copy_to wr d w = (Returned (Ok ()), w')" "good w" "place w + length d < 2 ^ 64"
  shows "good w'" "place w' = place w + length d" "content w' = content w ++ write_at (place w) d"
proof -
  from assms(1) obtain w1 where w1: "await_each (wr_write_all wr) (copy_pieces d) w = (Returned (Ok ()), w1)"
    "wr_flush wr w1 = (Returned (Ok ()), w')"
    by (auto simp: copy_to_def await_then_ok)
  from each_places [OF w1(1) assms(2)] assms(3) flush_keeps [OF w1(2)]
  show "good w'" "place w' = place w + length d" "content w' = content w ++ write_at (place w) d" by auto
qed

end

subsection \<open>The batch writer keeps the contract\<close>

fun placed :: "TargetOrRequest \<Rightarrow> (nat \<rightharpoonup> u8)" where
  "placed (ReqWrite d offset) = write_at (unat offset) d"
| "placed q = Map.empty"

text \<open>What the requests write, later ones over earlier ones.\<close>

definition volume_content :: "TargetOrRequest list \<Rightarrow> (nat \<rightharpoonup> u8)" where
  "volume_content qs = foldl (\<lambda>m q. m ++ placed q) Map.empty qs"

lemma volume_content_simps [simp]:
  "volume_content [] = Map.empty" "volume_content (qs @ [q]) = volume_content qs ++ placed q"
  by (simp_all add: volume_content_def)

text \<open>
  Where the next byte goes, and what the volume holds once the batch has been passed on.
\<close>

definition batch_place :: "VolumeIoRW BatchWriter \<Rightarrow> nat" where
  "batch_place bw = unat (rw_pos (bw_writer bw)) + length (batch_buffer bw)"

definition batch_content :: "VolumeIoRW BatchWriter \<Rightarrow> (nat \<rightharpoonup> u8)" where
  "batch_content bw =
     volume_content (rw_sent (bw_writer bw)) ++ write_at (unat (rw_pos (bw_writer bw))) (batch_buffer bw)"

definition batch_good :: "VolumeIoRW BatchWriter \<Rightarrow> bool" where
  "batch_good bw \<longleftrightarrow>
     length (batch_buffer bw) \<le> bw_buffer_size bw \<and> batch_place bw < 2 ^ 64 \<and> bw_discard_flush bw \<and>
     bw_pending_seek bw = None \<and> rw_pending_seek (bw_writer bw) = None"

lemma write_loop_frame:
  "write_loop_rw env buf rw = (r, rw') \<Longrightarrow>
   rw_pending_seek rw' = rw_pending_seek rw \<and> rw_info rw' = rw_info rw"
proof (induction env buf rw rule: write_loop_rw.induct)
  case (1 env buf rw)
  show ?case
  proof (cases "rw_state rw")
    case (Reserve b)
    with 1(5) show ?thesis
      by (subst (asm) write_loop_rw.simps)
         (auto simp: send_request_def Let_def split: bool.splits poll.splits)
  next
    case Idle
    with 1(1) 1(5) show ?thesis by (subst (asm) (2) write_loop_rw.simps) auto
  next
    case Flushing
    with 1(2) 1(5) show ?thesis by (subst (asm) (2) write_loop_rw.simps) auto
  next
    case ShuttingDown
    with 1(3) 1(5) show ?thesis by (subst (asm) (2) write_loop_rw.simps) auto
  next
    case (Reading n)
    with 1(4) 1(5) show ?thesis by (subst (asm) (2) write_loop_rw.simps) auto
  qed
qed

lemma cleanup_seek: "cleanup_pending_requests env rw = (r, rw1) \<Longrightarrow> rw_pending_seek rw1 = rw_pending_seek rw"
  by (auto simp: cleanup_pending_requests_def Let_def split: prod.splits)

lemma poll_write_frame:
  assumes "rw_poll_write env buf rw = (r, rw')"
  shows "rw_pending_seek rw' = rw_pending_seek rw"
proof (cases "writable (rw_info rw)")
  case True
  obtain c rw1 where c: "cleanup_pending_requests env (invalidate_read_buffer rw) = (c, rw1)" by force
  from cleanup_seek [OF c] have "rw_pending_seek rw1 = rw_pending_seek rw"
    by (simp add: invalidate_read_buffer_def)
  with True c assms write_loop_frame [of env buf rw1] show ?thesis
    by (cases c) (auto simp: rw_poll_write_def)
qed (use assms in \<open>auto simp: rw_poll_write_def\<close>)

text \<open>A poll of the stream with data for its position puts a front part of it there.\<close>

lemma stream_write_places:
  assumes "rw_poll_write env b rw = (Polled (Ready (Ok n)), rw')" "unat (rw_pos rw) + length b < 2 ^ 64"
  shows "n \<le> length b" "unat (rw_pos rw') = unat (rw_pos rw) + n"
    "volume_content (rw_sent rw') = volume_content (rw_sent rw) ++ write_at (unat (rw_pos rw)) (take n b)"
    "volume_content (rw_sent rw') ++ write_at (unat (rw_pos rw')) (drop n b) =
     volume_content (rw_sent rw) ++ write_at (unat (rw_pos rw)) b"
proof -
  from poll_write_result [OF assms(1)] have n: "n = min (length b) MAX_WRITE_SIZE"
    and sent: "rw_sent rw' = rw_sent rw @ [ReqWrite (take n b) (rw_pos rw)]"
    and pos: "rw_pos rw' = u64_saturating_add (rw_pos rw) (of_nat n)"
    by (auto simp: write_result_def)
  show len: "n \<le> length b" using n by simp
  with assms(2) saturating_add_exact [of "rw_pos rw" n]
  show pos': "unat (rw_pos rw') = unat (rw_pos rw) + n" by (simp add: pos)
  from sent show c: "volume_content (rw_sent rw') =
      volume_content (rw_sent rw) ++ write_at (unat (rw_pos rw)) (take n b)" by simp
  from write_at_append [of "unat (rw_pos rw)" "take n b" "drop n b"] len
  show "volume_content (rw_sent rw') ++ write_at (unat (rw_pos rw')) (drop n b) =
     volume_content (rw_sent rw) ++ write_at (unat (rw_pos rw)) b"
    by (simp add: c pos')
qed

lemma stream_write_not:
  assumes "rw_poll_write env b rw = (r, rw')" "\<And>n. r \<noteq> Polled (Ready (Ok n))"
  shows "rw_sent rw' = rw_sent rw" "rw_pos rw' = rw_pos rw"
  using poll_write_result [OF assms(1)] assms(2)
  by (auto simp: write_result_def split: polled.splits poll.splits sum.splits)

lemma batch_flush_places:
  "batch_flush_data rw_poll_write envs bw = (r, bw') \<Longrightarrow> batch_good bw \<Longrightarrow>
   batch_good bw' \<and> batch_place bw' = batch_place bw \<and> batch_content bw' = batch_content bw \<and>
   (r = Polled (Ready (Ok ())) \<longrightarrow> bw_state bw' = None)"
proof (induction envs arbitrary: bw)
  case Nil
  then show ?case by (subst (asm) batch_flush_data.simps) (auto split: option.splits)
next
  case (Cons env envs)
  show ?case
  proof (cases "bw_state bw")
    case None
    with Cons.prems show ?thesis by (subst (asm) batch_flush_data.simps) auto
  next
    case (Some b)
    then have b: "batch_buffer bw = b" by (simp add: batch_buffer_def)
    obtain x w where x: "rw_poll_write env b (bw_writer bw) = (x, w)" by force
    note seek = poll_write_frame [OF x]
    show ?thesis
    proof (cases "\<exists>n. x = Polled (Ready (Ok n))")
      case True
      then obtain n where n: "x = Polled (Ready (Ok n))" ..
      let ?bw = "bw\<lparr>bw_writer := w, bw_state := if n \<ge> length b then None else Some (drop n b)\<rparr>"
      have run: "batch_flush_data rw_poll_write envs ?bw = (r, bw')"
        using Cons.prems(1) Some x n by (subst (asm) batch_flush_data.simps) simp
      have "unat (rw_pos (bw_writer bw)) + length b < 2 ^ 64"
        using Cons.prems(2) b by (simp add: batch_good_def batch_place_def)
      note w = stream_write_places [OF x [unfolded n] this]
      have buf: "batch_buffer ?bw = drop n b" by (simp add: batch_buffer_def)
      have "batch_good ?bw" "batch_place ?bw = batch_place bw" "batch_content ?bw = batch_content bw"
        using Cons.prems(2) b w seek buf by (auto simp: batch_good_def batch_place_def batch_content_def)
      with Cons.IH [OF run] show ?thesis by simp
    next
      case False
      with stream_write_not [OF x] have same: "rw_sent w = rw_sent (bw_writer bw)"
        "rw_pos w = rw_pos (bw_writer bw)" by blast+
      from Cons.prems(1) Some x False have "bw' = bw\<lparr>bw_writer := w\<rparr>" "r \<noteq> Polled (Ready (Ok ()))"
        by (subst (asm) batch_flush_data.simps, auto split: polled.splits poll.splits sum.splits)+
      with Cons.prems(2) same seek show ?thesis
        by (auto simp: batch_good_def batch_place_def batch_content_def batch_buffer_def)
    qed
  qed
qed

definition taken_by :: "(io_error, nat) result polled \<Rightarrow> nat" where
  "taken_by r = (case r of Polled (Ready (Ok n)) \<Rightarrow> n | _ \<Rightarrow> 0)"

lemma taken_by_simps [simp]:
  "taken_by (Polled (Ready (Ok n))) = n" "taken_by (Polled (Ready (Err e))) = 0"
  "taken_by (Polled Pending) = 0"
  by (simp_all add: taken_by_def)

lemma batch_write_places:
  assumes "batch_poll_write rw_poll_write env buf bw = (r, bw')" "batch_good bw"
    and "batch_place bw + length buf < 2 ^ 64" "r \<noteq> PollPanicked"
  shows "batch_good bw' \<and> taken_by r \<le> length buf \<and> batch_place bw' = batch_place bw + taken_by r \<and>
    batch_content bw' = batch_content bw ++ write_at (batch_place bw) (take (taken_by r) buf)"
proof (cases "bw_state bw")
  case None
  then have b: "batch_buffer bw = []" by (simp add: batch_buffer_def)
  show ?thesis
  proof (cases "length buf \<ge> bw_buffer_size bw")
    case False
    then have "r = Polled (Ready (Ok (length buf)))" "bw' = bw\<lparr>bw_state := Some buf\<rparr>"
      using assms(1) None by (auto simp: batch_poll_write_def)
    with assms(2,3) b False show ?thesis
      by (auto simp: batch_good_def batch_place_def batch_content_def batch_buffer_def)
  next
    case True
    obtain x w where x: "rw_poll_write env buf (bw_writer bw) = (x, w)" by force
    with assms(1) None True have r: "r = x" "bw' = bw\<lparr>bw_writer := w\<rparr>" by (auto simp: batch_poll_write_def)
    have b': "batch_buffer bw' = []" using None r by (simp add: batch_buffer_def)
    note seek = poll_write_frame [OF x]
    show ?thesis
    proof (cases "\<exists>n. x = Polled (Ready (Ok n))")
      case True
      then obtain n where n: "x = Polled (Ready (Ok n))" ..
      from assms(3) b have "unat (rw_pos (bw_writer bw)) + length buf < 2 ^ 64" by (simp add: batch_place_def)
      note w = stream_write_places [OF x [unfolded n] this]
      with assms(2,3) b b' r n seek show ?thesis
        by (auto simp: batch_good_def batch_place_def batch_content_def)
    next
      case False
      with stream_write_not [OF x] have same: "rw_sent w = rw_sent (bw_writer bw)"
        "rw_pos w = rw_pos (bw_writer bw)" by blast+
      from False have "taken_by x = 0" by (simp add: taken_by_def split: polled.splits poll.splits sum.splits)
      with assms(2) b b' r same seek show ?thesis
        by (auto simp: batch_good_def batch_place_def batch_content_def)
    qed
  qed
next
  case (Some b)
  then have b: "batch_buffer bw = b" by (simp add: batch_buffer_def)
  show ?thesis
  proof (cases "length buf + length b < bw_buffer_size bw")
    case True
    then have "r = Polled (Ready (Ok (length buf)))" "bw' = bw\<lparr>bw_state := Some (b @ buf)\<rparr>"
      using assms(1) Some by (auto simp: batch_poll_write_def Let_def)
    with assms(2,3) b True show ?thesis
      by (auto simp: batch_good_def batch_place_def batch_content_def batch_buffer_def write_at_append)
  next
    case full: False
    let ?n = "bw_buffer_size bw - length b" let ?b1 = "b @ take ?n buf"
    obtain x w where x: "rw_poll_write env ?b1 (bw_writer bw) = (x, w)" by force
    note seek = poll_write_frame [OF x]
    from assms(2) b full have n: "?n \<le> length buf" "length b \<le> bw_buffer_size bw"
      by (auto simp: batch_good_def)
    show ?thesis
    proof (cases "\<exists>k. x = Polled (Ready (Ok k))")
      case True
      then obtain k where k: "x = Polled (Ready (Ok k))" ..
      from assms(3) b n have "unat (rw_pos (bw_writer bw)) + length ?b1 < 2 ^ 64"
        by (simp add: batch_place_def)
      note w = stream_write_places [OF x [unfolded k] this]
      have r: "r = Polled (Ready (Ok ?n))"
        "bw' = bw\<lparr>bw_writer := w, bw_state := if k \<ge> length ?b1 then None else Some (drop k ?b1)\<rparr>"
        using assms(1) Some full x k by (auto simp: batch_poll_write_def Let_def split: if_splits)
      have buf: "batch_buffer bw' = drop k ?b1" unfolding r by (simp add: batch_buffer_def)
      have t: "taken_by r = ?n" using r by simp
      have "batch_good bw'" using assms(2,3) b n w seek buf
        unfolding r by (auto simp: batch_good_def batch_place_def)
      moreover have "batch_place bw' = batch_place bw + taken_by r"
        using b n w(1,2) buf unfolding t by (simp add: batch_place_def r(2))
      moreover have "batch_content bw' = batch_content bw ++ write_at (batch_place bw) (take (taken_by r) buf)"
        using b w(4) buf unfolding t
        by (simp add: batch_content_def batch_place_def r(2) write_at_append)
      ultimately show ?thesis using n t by simp
    next
      case False
      with stream_write_not [OF x] have same: "rw_sent w = rw_sent (bw_writer bw)"
        "rw_pos w = rw_pos (bw_writer bw)" by blast+
      from assms(1,4) Some full x False have "r = x" "bw' = bw\<lparr>bw_writer := w, bw_state := Some b\<rparr>"
        by (auto simp: batch_poll_write_def Let_def split: polled.splits poll.splits sum.splits)
      moreover from False have "taken_by x = 0"
        by (simp add: taken_by_def split: polled.splits poll.splits sum.splits)
      ultimately show ?thesis using assms(2) b same seek
        by (auto simp: batch_good_def batch_place_def batch_content_def batch_buffer_def)
    qed
  qed
qed

lemma batch_write_all_places:
  "batch_write_all buf feed bw = (Returned (Ok ()), feed', bw') \<Longrightarrow> batch_good bw \<Longrightarrow>
   batch_place bw + length buf < 2 ^ 64 \<Longrightarrow>
   batch_good bw' \<and> batch_place bw' = batch_place bw + length buf \<and>
   batch_content bw' = batch_content bw ++ write_at (batch_place bw) buf"
proof (induction feed arbitrary: buf bw)
  case Nil
  then show ?case by (auto split: if_splits)
next
  case (Cons e feed)
  show ?case
  proof (cases "buf = []")
    case True
    with Cons.prems show ?thesis by auto
  next
    case False
    obtain r bw1 where r: "batch_poll_write rw_poll_write (fst e) buf bw = (r, bw1)" by force
    from Cons.prems(1) r False have np: "r \<noteq> PollPanicked" by auto
    note step = batch_write_places [OF r Cons.prems(2,3) np]
    have "batch_write_all (drop (taken_by r) buf) feed bw1 = (Returned (Ok ()), feed', bw')"
      using Cons.prems(1) r False by (auto split: polled.splits poll.splits sum.splits if_splits)
    from Cons.IH [OF this] step Cons.prems(3)
      write_at_append [of "batch_place bw" "take (taken_by r) buf" "drop (taken_by r) buf"]
    show ?thesis by auto
  qed
qed

definition batch_same :: "VolumeIoRW BatchWriter \<Rightarrow> VolumeIoRW BatchWriter \<Rightarrow> bool" where
  "batch_same bw b \<longleftrightarrow>
     batch_good b \<and> batch_place b = batch_place bw \<and> batch_content b = batch_content bw"

lemma batch_same_refl: "batch_good bw \<Longrightarrow> batch_same bw bw"
  by (simp add: batch_same_def)

lemma await_polls_inv:
  assumes "await_polls poll feed bw = (Returned (Ok a), feed', bw')" "I bw"
    and "\<And>e b b'. poll e b = (Polled Pending, b') \<Longrightarrow> I b \<Longrightarrow> I b'"
  shows "\<exists>e b. I b \<and> poll e b = (Polled (Ready (Ok a)), bw')"
  using assms(1,2)
proof (induction feed arbitrary: bw)
  case Nil
  then show ?case by simp
next
  case (Cons e feed)
  obtain r bw1 where r: "poll e bw = (r, bw1)" by force
  show ?case
  proof (cases "r = Polled Pending")
    case True
    with Cons r assms(3) [of e bw bw1] show ?thesis by auto
  next
    case False
    with Cons.prems r have "poll e bw = (Polled (Ready (Ok a)), bw')"
      by (auto split: polled.splits poll.splits sum.splits)
    with Cons.prems(2) show ?thesis by blast
  qed
qed

text \<open>The polls of a seek: without one in progress, and with one that has been started.\<close>

lemma poll_complete_pending:
  assumes "batch_poll_complete rw_poll_write envs bw = (Polled Pending, bw')"
  shows "batch_flush_data rw_poll_write envs bw = (Polled Pending, bw')"
  using assms by (auto simp: batch_poll_complete_def Let_def
      split: prod.splits polled.splits poll.splits sum.splits option.splits)

lemma poll_complete_ok:
  assumes "batch_poll_complete rw_poll_write envs bw = (Polled (Ready (Ok p)), bw')" "batch_good bw"
  shows "batch_good bw'" "batch_place bw' = batch_place bw" "batch_content bw' = batch_content bw"
    "bw_state bw' = None"
proof -
  obtain r bw1 where f: "batch_flush_data rw_poll_write envs bw = (r, bw1)" by force
  from assms(1) f have r: "r = Polled (Ready (Ok ()))"
    by (auto simp: batch_poll_complete_def split: polled.splits poll.splits sum.splits)
  note flush = batch_flush_places [OF f assms(2)]
  with assms(1) f r have "bw' = bw1" "bw_state bw1 = None"
    by (auto simp: batch_poll_complete_def batch_good_def rw_poll_complete_def split: if_splits)
  with flush show "batch_good bw'" "batch_place bw' = batch_place bw"
    "batch_content bw' = batch_content bw" "bw_state bw' = None" by auto
qed

definition target_of :: "SeekFrom \<Rightarrow> u64 \<Rightarrow> u64 option" where
  "target_of position base =
     (case position of SeekStart s \<Rightarrow> Some s | SeekCurrent off \<Rightarrow> Some (seek_from base off) | SeekEnd e \<Rightarrow> None)"

lemma seek_from_0 [simp]: "seek_from s 0 = s"
  by (simp add: seek_from_def u64_saturating_sub_def)

lemma seek_completes:
  assumes "batch_start_seek position bw = (Ok (), bw1)" "batch_good bw" "bw_state bw = None"
    and "await_polls (\<lambda>(_, envs). batch_poll_complete rw_poll_write envs) feed bw1 =
      (Returned (Ok p), feed', bw')"
    and "target_of position (rw_pos (bw_writer bw)) = Some t"
  shows "batch_good bw'" "batch_place bw' = unat t" "batch_content bw' = batch_content bw"
proof -
  from assms(1-3) have bw1: "bw1 = bw\<lparr>bw_writer := (bw_writer bw)\<lparr>rw_pending_seek := Some position\<rparr>\<rparr>"
    and seekable: "seekable (rw_info (bw_writer bw))"
    by (auto simp: batch_start_seek_def rw_start_seek_def split: if_splits)
  have idle: "batch_flush_data rw_poll_write envs bw1 = (Polled (Ready (Ok ())), bw1)" for envs
    using assms(3) by (subst batch_flush_data.simps) (simp add: bw1)
  have poll: "batch_poll_complete rw_poll_write envs bw1 =
      (Polled (Ready (Ok t)), bw1\<lparr>bw_writer := (bw_writer bw)\<lparr>rw_pos := t, rw_pending_seek := None\<rparr>\<rparr>)" for envs
    using assms(2,5) seekable idle [of envs]
    by (cases position)
       (auto simp: batch_poll_complete_def batch_good_def rw_poll_complete_def bw1 target_of_def)
  from assms(4) have "bw' = bw1\<lparr>bw_writer := (bw_writer bw)\<lparr>rw_pos := t, rw_pending_seek := None\<rparr>\<rparr>"
    by (cases feed) (auto simp: poll)
  with assms(2,3) unsigned_less [of t] show "batch_good bw'" "batch_place bw' = unat t" "batch_content bw' = batch_content bw"
    by (auto simp: batch_good_def batch_place_def batch_content_def batch_buffer_def bw1)
qed

lemma batch_seek_places:
  assumes "batch_seek position (feed, bw) = (Returned (Ok p), feed', bw')" "batch_good bw"
    and "\<And>base. unat base = batch_place bw \<Longrightarrow> target_of position base = Some (t base)"
  shows "\<exists>base. unat base = batch_place bw \<and> batch_good bw' \<and> batch_place bw' = unat (t base) \<and>
    batch_content bw' = batch_content bw"
proof -
  let ?poll = "\<lambda>(_ :: poll_env, envs). batch_poll_complete rw_poll_write envs"
  let ?rest = "\<lambda>s1 bw1. await_then (\<lambda>(feed, bw). case batch_start_seek position bw of (r, bw1) \<Rightarrow> (Returned r, feed, bw1))
      (\<lambda>_ (feed, bw). await_polls ?poll feed bw) (s1, bw1)"
  from assms(1) obtain q s1 bw1 where
    first: "await_polls ?poll feed bw = (Returned (Ok q), s1, bw1)" and
    "?rest s1 bw1 = (Returned (Ok p), feed', bw')"
    by (auto simp: batch_seek_def await_then_ok [where f = "\<lambda>_. await_then _ _"])
  moreover obtain r bw2 where r: "batch_start_seek position bw1 = (r, bw2)" by force
  ultimately have start: "batch_start_seek position bw1 = (Ok (), bw2)"
    and second: "await_polls ?poll s1 bw2 = (Returned (Ok p), feed', bw')"
    by (auto simp: await_then_ok)
  have keep: "batch_same bw b'" if "?poll e b = (Polled Pending, b')" "batch_same bw b" for e b b'
    using batch_flush_places [OF poll_complete_pending, of "snd e" b b'] that
    by (cases e) (auto simp: batch_same_def)
  have "\<exists>e b. batch_same bw b \<and> ?poll e b = (Polled (Ready (Ok q)), bw1)"
    by (rule await_polls_inv [where I = "batch_same bw", OF first batch_same_refl [OF assms(2)]])
       (rule keep)
  then obtain e b where "batch_good b \<and> batch_place b = batch_place bw \<and> batch_content b = batch_content bw"
    "?poll e b = (Polled (Ready (Ok q)), bw1)" unfolding batch_same_def by blast
  with poll_complete_ok [of "snd e" b q bw1]
  have bw1: "batch_good bw1" "batch_place bw1 = batch_place bw" "batch_content bw1 = batch_content bw"
    and empty: "bw_state bw1 = None"
    by (auto simp: split_beta)
  then have base: "unat (rw_pos (bw_writer bw1)) = batch_place bw"
    by (simp add: batch_place_def batch_buffer_def)
  from seek_completes [OF start bw1(1) empty second assms(3) [OF base]] bw1 base show ?thesis by auto
qed

lemma seek_current_exact:
  assumes "unat base + n < 2 ^ 64" "n < 2 ^ 63"
  shows "unat (seek_from base (of_nat n)) = unat base + n"
proof -
  have n: "sint (of_nat n :: i64) = int n"
    using assms(2) by (subst signed_of_nat) (simp add: signed_take_bit_int_eq_self)
  show ?thesis
  proof (cases "n = 0")
    case False
    with n saturating_add_exact [OF assms(1)] show ?thesis by (simp add: seek_from_def)
  qed simp
qed

lemma poll_shutdown_frame:
  "rw_poll_shutdown env rw = (r, rw') \<Longrightarrow>
   volume_content (rw_sent rw') = volume_content (rw_sent rw) \<and> rw_pos rw' = rw_pos rw \<and>
   rw_pending_seek rw' = rw_pending_seek rw"
proof (induction env rw rule: rw_poll_shutdown.induct)
  case (1 env rw)
  obtain c rw1 where c: "cleanup_pending_requests env rw = (c, rw1)" by force
  note f = cleanup_frame(1,2) [OF c] cleanup_seek [OF c]
  show ?case
  proof (cases c)
    case (Inl e)
    with 1(5) c f show ?thesis by (subst (asm) rw_poll_shutdown.simps) auto
  next
    case (Inr u)
    note IH = 1(1-4) [OF c [symmetric] Inr]
    show ?thesis
    proof (cases "rw_state rw1")
      case Idle
      with 1(5) c f Inr IH(1) show ?thesis by (subst (asm) rw_poll_shutdown.simps) auto
    next
      case (Reserve b)
      with 1(5) c f Inr IH(2) show ?thesis
        by (subst (asm) rw_poll_shutdown.simps)
           (auto simp: send_request_def split: bool.splits poll.splits)
    next
      case Flushing
      with 1(5) c f Inr IH(3) show ?thesis by (subst (asm) rw_poll_shutdown.simps) auto
    next
      case ShuttingDown
      with 1(5) c f Inr show ?thesis by (subst (asm) rw_poll_shutdown.simps) (auto split: if_splits)
    next
      case (Reading n)
      with 1(5) c f Inr IH(4) show ?thesis by (subst (asm) rw_poll_shutdown.simps) auto
    qed
  qed
qed

lemma poll_shutdown_places:
  assumes "batch_poll_shutdown rw_poll_write (rw_poll_shutdown env) envs b = (r, b')" "batch_same bw b"
    and "r \<noteq> PollPanicked"
  shows "batch_same bw b' \<and> (r = Polled (Ready (Ok ())) \<longrightarrow> bw_state b' = None)"
proof -
  obtain x b1 where f: "batch_flush_data rw_poll_write envs b = (x, b1)" by force
  from batch_flush_places [OF f] assms(2) have b1: "batch_same bw b1"
    and empty: "x = Polled (Ready (Ok ())) \<longrightarrow> bw_state b1 = None" by (simp_all add: batch_same_def)
  obtain y w where w: "rw_poll_shutdown env (bw_writer b1) = (y, w)" by force
  from assms(1) f w empty
  have "(b' = b1 \<or> b' = b1\<lparr>bw_writer := w\<rparr>) \<and> (r = Polled (Ready (Ok ())) \<longrightarrow> bw_state b' = None)"
    by (auto simp: batch_poll_shutdown_def batch_then_def split: polled.splits poll.splits sum.splits)
  with b1 poll_shutdown_frame [OF w] show ?thesis
    by (auto simp: batch_same_def batch_good_def batch_place_def batch_content_def batch_buffer_def)
qed

interpretation batch_volume: placing_writer batch_async
  "\<lambda>(feed, bw). batch_good bw" "\<lambda>(feed, bw). batch_place bw" "\<lambda>(feed, bw). batch_content bw"
  "\<lambda>(feed, bw). bw_state bw = None"
proof (unfold_locales, goal_cases)
  case (1 d w w')
  then show ?case by (cases w; cases w') (auto simp: batch_async_def dest!: batch_write_all_places)
next
  case (2 w w')
  obtain feed bw where w: "w = (feed, bw)" by force
  from 2 w have "bw_discard_flush bw" by (auto simp: batch_good_def)
  then have "batch_poll_flush rw_poll_write (rw_poll_flush env) envs bw = (Polled (Ready (Ok ())), bw)" for env envs
    by (simp add: batch_poll_flush_def)
  with 2 w show ?case by (cases feed) (auto simp: batch_async_def)
next
  case (3 n w p w')
  obtain feed bw feed' bw' where w: "w = (feed, bw)" "w' = (feed', bw')" by (metis prod.collapse)
  from 3 w have seek: "batch_seek (SeekCurrent (of_nat n)) (feed, bw) = (Returned (Ok p), feed', bw')"
    and good: "batch_good bw" by (auto simp: batch_async_def)
  from batch_seek_places [OF seek good, where t = "\<lambda>base. seek_from base (of_nat n)"] 3 w
  obtain base where "unat base = batch_place bw" "batch_good bw'"
    "batch_place bw' = unat (seek_from base (of_nat n))" "batch_content bw' = batch_content bw"
    by (auto simp: target_of_def)
  with seek_current_exact [of base n] 3 w show ?case by simp
next
  case (4 s w p w')
  obtain feed bw feed' bw' where w: "w = (feed, bw)" "w' = (feed', bw')" by (metis prod.collapse)
  from 4 w have seek: "batch_seek (SeekStart s) (feed, bw) = (Returned (Ok p), feed', bw')"
    and good: "batch_good bw" by (auto simp: batch_async_def)
  from batch_seek_places [OF seek good, where t = "\<lambda>_. s"] w show ?case by (auto simp: target_of_def)
next
  case (5 w w')
  obtain feed bw feed' bw' where w: "w = (feed, bw)" "w' = (feed', bw')" by (metis prod.collapse)
  let ?poll = "\<lambda>(env, envs). batch_poll_shutdown rw_poll_write (rw_poll_shutdown env) envs"
  from 5 w have run: "await_polls ?poll feed bw = (Returned (Ok ()), feed', bw')" and good: "batch_good bw"
    by (auto simp: batch_async_def)
  have keep: "batch_same bw b'" if "?poll e b = (Polled Pending, b')" "batch_same bw b" for e b b'
    using poll_shutdown_places [of "fst e" "snd e" b "Polled Pending" b' bw] that by (cases e) auto
  have "\<exists>e b. batch_same bw b \<and> ?poll e b = (Polled (Ready (Ok ())), bw')"
    by (rule await_polls_inv [where I = "batch_same bw", OF run batch_same_refl [OF good]]) (rule keep)
  then obtain e b where "batch_same bw b" "?poll e b = (Polled (Ready (Ok ())), bw')" by blast
  with poll_shutdown_places [of "fst e" "snd e" b "Polled (Ready (Ok ()))" bw' bw]
  have "batch_same bw bw'" "bw_state bw' = None" by (cases e; auto)+
  with w show ?case by (simp add: batch_same_def)
qed

subsection \<open>The batch writer returns when the stream is ready\<close>

locale finishing_writer = placing_writer +
  fixes live :: "'a \<Rightarrow> bool"
    and fuel :: "'a \<Rightarrow> nat"
  assumes write_finishes: "live w \<Longrightarrow> length d \<le> fuel w \<Longrightarrow>
      \<exists>w'. wr_write_all wr d w = (Returned (Ok ()), w') \<and> live w' \<and> fuel w \<le> fuel w' + length d"
    and flush_finishes: "live w \<Longrightarrow> 1 \<le> fuel w \<Longrightarrow>
      \<exists>w'. wr_flush wr w = (Returned (Ok ()), w') \<and> live w' \<and> fuel w \<le> fuel w' + 1"
    and seek_finishes: "live w \<Longrightarrow> 2 \<le> fuel w \<Longrightarrow> (\<And>e. position \<noteq> SeekEnd e) \<Longrightarrow>
      \<exists>w' p. wr_seek wr position w = (Returned (Ok p), w') \<and> live w' \<and> fuel w \<le> fuel w' + 2"
    and shutdown_finishes: "live w \<Longrightarrow> 1 \<le> fuel w \<Longrightarrow>
      \<exists>w'. wr_shutdown wr w = (Returned (Ok ()), w')"
begin

lemma each_finishes:
  "live w \<Longrightarrow> length (concat ds) \<le> fuel w \<Longrightarrow>
   \<exists>w'. await_each (wr_write_all wr) ds w = (Returned (Ok ()), w') \<and> live w' \<and>
     fuel w \<le> fuel w' + length (concat ds)"
proof (induction ds arbitrary: w)
  case Nil
  then show ?case by simp
next
  case (Cons d ds)
  from write_finishes [OF Cons.prems(1), of d] Cons.prems(2) obtain w1 where
    w1: "wr_write_all wr d w = (Returned (Ok ()), w1)" "live w1" "fuel w \<le> fuel w1 + length d" by auto
  with Cons.prems(2) Cons.IH [of w1] show ?case by (fastforce simp: await_then_def)
qed

lemma copy_finishes:
  assumes "live w" "length d + 1 \<le> fuel w"
  shows "\<exists>w'. copy_to wr d w = (Returned (Ok ()), w') \<and> live w' \<and> fuel w \<le> fuel w' + length d + 1"
proof -
  from each_finishes [of w "copy_pieces d"] assms obtain w1 where
    "await_each (wr_write_all wr) (copy_pieces d) w = (Returned (Ok ()), w1)" "live w1"
    "fuel w \<le> fuel w1 + length d" by auto
  with flush_finishes [of w1] assms show ?thesis by (fastforce simp: copy_to_def await_then_def)
qed

end

text \<open>The channel grants every reservation and the requests have been answered.\<close>

definition env_ready :: "poll_env \<Rightarrow> bool" where
  "env_ready env \<longleftrightarrow> env_reserve env = Ready True \<and> (\<forall>n. env_done env n = Ready (Ok ()))"

lemma cleanup_ready: "env_ready env \<Longrightarrow> cleanup_pending_requests env rw = (Ok (), rw\<lparr>rw_pending := []\<rparr>)"
proof -
  assume "env_ready env"
  then have "cleanup_pending env ps = (Ok (), [])" for ps by (induction ps) (simp_all add: env_ready_def)
  then show ?thesis by (simp add: cleanup_pending_requests_def)
qed

definition rw_live :: "VolumeIoRW \<Rightarrow> bool" where
  "rw_live rw \<longleftrightarrow> writable (rw_info rw) \<and> seekable (rw_info rw) \<and> rw_state rw \<noteq> Reserve True"

lemma write_loop_reserved:
  "env_ready env \<Longrightarrow> rw_state rw = Reserve False \<Longrightarrow> \<exists>rw'. write_loop_rw env b rw =
    (Polled (Ready (Ok (min (length b) MAX_WRITE_SIZE))), rw') \<and> rw_state rw' = Idle"
  by (subst write_loop_rw.simps) (auto simp: env_ready_def Let_def)

lemma write_loop_idle:
  "env_ready env \<Longrightarrow> rw_state rw = Idle \<Longrightarrow> \<exists>rw'. write_loop_rw env b rw =
    (Polled (Ready (Ok (min (length b) MAX_WRITE_SIZE))), rw') \<and> rw_state rw' = Idle"
  by (subst write_loop_rw.simps) (simp add: write_loop_reserved)

lemma write_loop_ready:
  assumes "env_ready env" "rw_state rw \<noteq> Reserve True"
  shows "\<exists>rw'. write_loop_rw env b rw = (Polled (Ready (Ok (min (length b) MAX_WRITE_SIZE))), rw') \<and>
    rw_state rw' = Idle"
proof (cases "rw_state rw = Idle \<or> rw_state rw = Reserve False")
  case True
  with assms write_loop_reserved write_loop_idle show ?thesis by blast
next
  case False
  with assms have "write_loop_rw env b rw = write_loop_rw env b (rw\<lparr>rw_state := Idle\<rparr>)"
    by (subst write_loop_rw.simps) (auto split: io_state.splits)
  with assms write_loop_idle [of env "rw\<lparr>rw_state := Idle\<rparr>"] show ?thesis by simp
qed

lemma poll_write_ready:
  assumes "env_ready env" "rw_live rw"
  shows "\<exists>rw'. rw_poll_write env b rw = (Polled (Ready (Ok (min (length b) MAX_WRITE_SIZE))), rw') \<and> rw_live rw'"
proof -
  let ?rw = "(invalidate_read_buffer rw)\<lparr>rw_pending := []\<rparr>"
  from assms(2) have st: "rw_state ?rw \<noteq> Reserve True" "rw_info ?rw = rw_info rw"
    by (simp_all add: rw_live_def invalidate_read_buffer_def)
  from write_loop_ready [OF assms(1) st(1), of b] obtain rw' where
    w: "write_loop_rw env b ?rw = (Polled (Ready (Ok (min (length b) MAX_WRITE_SIZE))), rw')" "rw_state rw' = Idle"
    by blast
  with write_loop_frame [OF w(1)] st assms show ?thesis
    by (simp add: rw_poll_write_def rw_live_def cleanup_ready)
qed

lemma shutdown_reserved:
  assumes "env_ready env" "rw_state rw = Reserve False"
  shows "\<exists>rw'. rw_poll_shutdown env rw = (Polled (Ready (Ok ())), rw')"
proof -
  have down: "rw_state r = ShuttingDown \<Longrightarrow>
      rw_poll_shutdown env r = (Polled (Ready (Ok ())), r\<lparr>rw_pending := [], rw_state := Idle\<rparr>)" for r
    by (subst rw_poll_shutdown.simps) (simp add: cleanup_ready [OF assms(1)])
  from assms show ?thesis
    by (subst rw_poll_shutdown.simps) (simp add: cleanup_ready send_request_def down env_ready_def)
qed

lemma shutdown_idle:
  assumes "env_ready env" "rw_state rw = Idle"
  shows "\<exists>rw'. rw_poll_shutdown env rw = (Polled (Ready (Ok ())), rw')"
  using assms by (subst rw_poll_shutdown.simps) (simp add: cleanup_ready shutdown_reserved)

lemma poll_shutdown_ready:
  assumes "env_ready env" "rw_live rw"
  shows "\<exists>rw'. rw_poll_shutdown env rw = (Polled (Ready (Ok ())), rw')"
proof (cases "rw_state rw")
  case Idle
  with assms shutdown_idle show ?thesis by blast
next
  case (Reserve b)
  with assms shutdown_reserved [of env rw] show ?thesis by (auto simp: rw_live_def)
next
  case ShuttingDown
  with assms show ?thesis by (subst rw_poll_shutdown.simps) (simp add: cleanup_ready)
next
  case Flushing
  with assms show ?thesis by (subst rw_poll_shutdown.simps) (simp add: cleanup_ready shutdown_idle)
next
  case (Reading n)
  with assms show ?thesis by (subst rw_poll_shutdown.simps) (simp add: cleanup_ready shutdown_idle)
qed

definition batch_live :: "VolumeIoRW BatchWriter \<Rightarrow> bool" where
  "batch_live bw \<longleftrightarrow>
     rw_live (bw_writer bw) \<and> bw_discard_flush bw \<and> bw_pending_seek bw = None \<and>
     rw_pending_seek (bw_writer bw) = None \<and> bw_buffer_size bw \<le> MAX_WRITE_SIZE \<and>
     (case bw_state bw of None \<Rightarrow> True | Some b \<Rightarrow> length b < bw_buffer_size bw)"

definition feed_ready :: "batch_supply \<Rightarrow> bool" where
  "feed_ready feed = list_all (\<lambda>(env, envs). env_ready env \<and> envs \<noteq> [] \<and> list_all env_ready envs) feed"

lemma flush_data_ready:
  assumes "batch_live bw" "envs \<noteq> []" "list_all env_ready envs"
  shows "\<exists>bw'. batch_flush_data rw_poll_write envs bw = (Polled (Ready (Ok ())), bw') \<and>
    batch_live bw' \<and> bw_state bw' = None"
proof (cases "bw_state bw")
  case None
  with assms show ?thesis by (subst batch_flush_data.simps) simp
next
  case (Some b)
  from assms obtain env envs1 where e: "envs = env # envs1" "env_ready env" by (cases envs) auto
  from assms(1) Some have b: "min (length b) MAX_WRITE_SIZE = length b" by (simp add: batch_live_def)
  from poll_write_ready [OF e(2), of "bw_writer bw" b] assms(1) b obtain w where
    w: "rw_poll_write env b (bw_writer bw) = (Polled (Ready (Ok (length b))), w)" "rw_live w"
    by (auto simp: batch_live_def)
  let ?bw = "bw\<lparr>bw_writer := w, bw_state := None\<rparr>"
  have "batch_flush_data rw_poll_write envs bw = batch_flush_data rw_poll_write envs1 ?bw"
    using Some e w by (subst batch_flush_data.simps) simp
  also have "\<dots> = (Polled (Ready (Ok ())), ?bw)" by (subst batch_flush_data.simps) simp
  finally show ?thesis using assms(1) w poll_write_frame [OF w(1)] by (simp add: batch_live_def)
qed

lemma batch_write_ready:
  assumes "batch_live bw" "env_ready env" "buf \<noteq> []"
  shows "\<exists>n bw'. batch_poll_write rw_poll_write env buf bw = (Polled (Ready (Ok n)), bw') \<and>
    0 < n \<and> n \<le> length buf \<and> batch_live bw'"
proof (cases "bw_state bw")
  case None
  from poll_write_ready [OF assms(2), of "bw_writer bw" buf] assms(1) obtain w where
    w: "rw_poll_write env buf (bw_writer bw) = (Polled (Ready (Ok (min (length buf) MAX_WRITE_SIZE))), w)"
      "rw_live w"
    by (auto simp: batch_live_def)
  have "0 < min (length buf) MAX_WRITE_SIZE" using assms(3) by (simp add: MAX_WRITE_SIZE_def)
  with None w assms poll_write_frame [OF w(1)] show ?thesis
    by (auto simp: batch_poll_write_def batch_live_def)
next
  case (Some b)
  show ?thesis
  proof (cases "length buf + length b < bw_buffer_size bw")
    case True
    with Some assms show ?thesis by (auto simp: batch_poll_write_def batch_live_def)
  next
    case full: False
    let ?n = "bw_buffer_size bw - length b" let ?b1 = "b @ take ?n buf"
    from assms(1) Some full have n: "0 < ?n" "?n \<le> length buf" "min (length ?b1) MAX_WRITE_SIZE = length ?b1"
      by (auto simp: batch_live_def)
    from poll_write_ready [OF assms(2), of "bw_writer bw" ?b1] assms(1) obtain w where
      w: "rw_poll_write env ?b1 (bw_writer bw) = (Polled (Ready (Ok (min (length ?b1) MAX_WRITE_SIZE))), w)"
        "rw_live w"
      by (auto simp: batch_live_def)
    have "batch_poll_write rw_poll_write env buf bw =
        (Polled (Ready (Ok ?n)), bw\<lparr>bw_writer := w, bw_state := None\<rparr>)"
      using Some full w(1) unfolding n(3) by (simp add: batch_poll_write_def Let_def)
    with n w(2) assms(1) poll_write_frame [OF w(1)] show ?thesis by (simp add: batch_live_def)
  qed
qed

lemma write_all_ready:
  "batch_live bw \<Longrightarrow> feed_ready feed \<Longrightarrow> length d \<le> length feed \<Longrightarrow>
   \<exists>feed' bw'. batch_write_all d feed bw = (Returned (Ok ()), feed', bw') \<and> batch_live bw' \<and>
     feed_ready feed' \<and> length feed \<le> length feed' + length d"
proof (induction feed arbitrary: d bw)
  case Nil
  then show ?case by simp
next
  case (Cons e feed)
  show ?case
  proof (cases "d = []")
    case True
    with Cons.prems show ?thesis by simp
  next
    case False
    have "env_ready (fst e)" "feed_ready feed" using Cons.prems(2) by (auto simp: feed_ready_def)
    from batch_write_ready [OF Cons.prems(1) this(1) False] obtain n bw1 where
      n: "batch_poll_write rw_poll_write (fst e) d bw = (Polled (Ready (Ok n)), bw1)"
        "0 < n" "n \<le> length d" "batch_live bw1" by blast
    have "length (drop n d) \<le> length feed" using n Cons.prems(3) by simp
    from Cons.IH [OF n(4) \<open>feed_ready feed\<close> this] obtain feed' bw' where
      "batch_write_all (drop n d) feed bw1 = (Returned (Ok ()), feed', bw')" "batch_live bw'"
      "feed_ready feed'" "length feed \<le> length feed' + length (drop n d)" by blast
    with n False show ?thesis by auto
  qed
qed

lemma poll_complete_ready:
  assumes "batch_live bw" "envs \<noteq> []" "list_all env_ready envs"
  shows "\<exists>p bw'. batch_poll_complete rw_poll_write envs bw = (Polled (Ready (Ok p)), bw') \<and>
    batch_live bw' \<and> bw_state bw' = None"
proof -
  from flush_data_ready [OF assms] obtain bw' where
    f: "batch_flush_data rw_poll_write envs bw = (Polled (Ready (Ok ())), bw')" and
    live: "batch_live bw'" "bw_state bw' = None" by blast
  from live have "rw_poll_complete (bw_writer bw') = (Ok (rw_pos (bw_writer bw')), bw_writer bw')"
    by (simp add: rw_poll_complete_def batch_live_def rw_live_def)
  with f live have "batch_poll_complete rw_poll_write envs bw =
      (Polled (Ready (Ok (rw_pos (bw_writer bw')))), bw')"
    by (simp add: batch_poll_complete_def batch_live_def)
  with live show ?thesis by blast
qed

lemma seek_ready:
  assumes "batch_live bw" "feed_ready feed" "2 \<le> length feed" "\<And>e. position \<noteq> SeekEnd e"
  shows "\<exists>p feed' bw'. batch_seek position (feed, bw) = (Returned (Ok p), feed', bw') \<and>
    batch_live bw' \<and> feed_ready feed' \<and> length feed \<le> length feed' + 2"
proof -
  from assms(2,3) obtain e1 envs1 e2 envs2 rest where feed: "feed = (e1, envs1) # (e2, envs2) # rest"
    and r: "envs1 \<noteq> []" "list_all env_ready envs1" "envs2 \<noteq> []" "list_all env_ready envs2" "feed_ready rest"
    by (cases feed; cases "tl feed") (auto simp: feed_ready_def)
  from poll_complete_ready [OF assms(1) r(1,2)] obtain q bw1 where
    first: "batch_poll_complete rw_poll_write envs1 bw = (Polled (Ready (Ok q)), bw1)" and
    live: "batch_live bw1" "bw_state bw1 = None" by blast
  let ?w = "(bw_writer bw1)\<lparr>rw_pending_seek := Some position\<rparr>"
  let ?bw2 = "bw1\<lparr>bw_writer := ?w\<rparr>"
  have start: "batch_start_seek position bw1 = (Ok (), ?bw2)"
    using live by (simp add: batch_start_seek_def rw_start_seek_def batch_live_def rw_live_def)
  have idle: "batch_flush_data rw_poll_write envs2 ?bw2 = (Polled (Ready (Ok ())), ?bw2)"
    using live(2) by (subst batch_flush_data.simps) simp
  obtain p where p: "target_of position (rw_pos (bw_writer bw1)) = Some p"
    using assms(4) by (cases position) (auto simp: target_of_def)
  let ?bw3 = "bw1\<lparr>bw_writer := (bw_writer bw1)\<lparr>rw_pos := p, rw_pending_seek := None\<rparr>\<rparr>"
  have second: "batch_poll_complete rw_poll_write envs2 ?bw2 = (Polled (Ready (Ok p)), ?bw3)"
    using idle live p
    by (cases position) (auto simp: batch_poll_complete_def rw_poll_complete_def batch_live_def rw_live_def target_of_def)
  have "batch_live ?bw3" using live by (simp add: batch_live_def rw_live_def)
  with first start second r(5) show ?thesis
    by (simp add: batch_seek_def await_then_def feed)
qed

interpretation ready_volume: finishing_writer batch_async
  "\<lambda>(feed, bw). batch_good bw" "\<lambda>(feed, bw). batch_place bw" "\<lambda>(feed, bw). batch_content bw"
  "\<lambda>(feed, bw). bw_state bw = None"
  "\<lambda>(feed, bw). batch_live bw \<and> feed_ready feed" "\<lambda>(feed, bw). length feed"
proof (unfold_locales, goal_cases)
  case (1 w d)
  then show ?case using write_all_ready [of "snd w" "fst w" d]
    by (cases w) (fastforce simp: batch_async_def)
next
  case (2 w)
  then obtain env envs feed bw where w: "w = ((env, envs) # feed, bw)" by (cases w; cases "fst w") auto
  with 2 show ?case
    by (simp add: batch_async_def batch_poll_flush_def feed_ready_def batch_live_def)
next
  case (3 w position)
  then show ?case using seek_ready [of "snd w" "fst w" position]
    by (cases w) (fastforce simp: batch_async_def)
next
  case (4 w)
  then obtain env envs feed bw where w: "w = ((env, envs) # feed, bw)" by (cases w; cases "fst w") auto
  with 4 have r: "env_ready env" "envs \<noteq> []" "list_all env_ready envs" "batch_live bw"
    by (auto simp: feed_ready_def)
  from flush_data_ready [OF r(4,2,3)] obtain bw' where
    f: "batch_flush_data rw_poll_write envs bw = (Polled (Ready (Ok ())), bw')" "batch_live bw'" by blast
  with poll_shutdown_ready [OF r(1), of "bw_writer bw'"] obtain rw' where
    "rw_poll_shutdown env (bw_writer bw') = (Polled (Ready (Ok ())), rw')" by (auto simp: batch_live_def)
  with w f show ?case by (simp add: batch_async_def batch_poll_shutdown_def batch_then_def)
qed

end
