(* ===== verification/Volume_Read.thy ===== *)
theory Volume_Read
  imports Async_Io
begin

section \<open>Reading a volume (boardswarm-client/src/client.rs, boardswarm-cli/src/main.rs)\<close>

text \<open>
  The read command copies a volume, or a part of it, into a file: a \<^verbatim>\<open>BufReader\<close> of a
  megabyte over \<^verbatim>\<open>VolumeIoRW\<close>, which sends one request at a time and keeps what a caller had no
  room for. The polls take their environments from a list; a copy that is still waiting at
  its end yields \<open>Waiting\<close>. The lemmas: polls of the reader return consecutive bytes of
  the volume whatever their timing and however short the replies are, and the file holds exactly
  the part that was asked for.
\<close>

subsection \<open>The copy\<close>

definition READ_BUFFER :: nat where
  "READ_BUFFER = 1024 * 1024"

text \<open>
  \<^verbatim>\<open>copy_buf\<close> from the buffered reader, below \<open>limit\<close> if \<^verbatim>\<open>take\<close> is around it. The buffer
  is filled only when it is empty, and what lies behind the limit stays in it.
\<close>

fun copy_read ::
  "nat option \<Rightarrow> poll_env list \<Rightarrow> VolumeIoRW \<Rightarrow> (io_error, unit) result awaited \<times> bytes \<times> VolumeIoRW" where
  "copy_read limit [] rw = (if limit = Some 0 then Returned (Ok ()) else Waiting, [], rw)"
| "copy_read limit (e # es) rw =
     (if limit = Some 0 then (Returned (Ok ()), [], rw)
      else
        (case rw_poll_read e READ_BUFFER rw of
           (PollPanicked, rw1) \<Rightarrow> (Unwound, [], rw1)
         | (Polled Pending, rw1) \<Rightarrow> copy_read limit es rw1
         | (Polled (Ready (Err x)), rw1) \<Rightarrow> (Returned (Err x), [], rw1)
         | (Polled (Ready (Ok d)), rw1) \<Rightarrow>
             (if d = [] then (Returned (Ok ()), [], rw1)
              else
                (let part = (case limit of None \<Rightarrow> d | Some l \<Rightarrow> take l d) in
                 case copy_read (map_option (\<lambda>l. l - length part) limit) es rw1 of
                   (r, file, rw2) \<Rightarrow> (r, part @ file, rw2)))))"

definition rw_seek :: "SeekFrom \<Rightarrow> VolumeIoRW \<Rightarrow> (io_error, u64) result \<times> VolumeIoRW" where
  "rw_seek position rw =
     (case rw_poll_complete rw of
        (Err e, rw1) \<Rightarrow> (Err e, rw1)
      | (Ok _, rw1) \<Rightarrow>
          (case rw_start_seek position rw1 of
             (Err e, rw2) \<Rightarrow> (Err e, rw2)
           | (Ok _, rw2) \<Rightarrow> rw_poll_complete rw2))"

text \<open>The read command once the target is open: the file it leaves.\<close>

definition read_target ::
  "u64 option \<Rightarrow> u64 option \<Rightarrow> poll_env list \<Rightarrow> VolumeIoRW \<Rightarrow>
   (io_error, unit) result awaited \<times> bytes \<times> VolumeIoRW" where
  "read_target offset len envs rw =
     (case offset of
        None \<Rightarrow> copy_read (map_option unat len) envs rw
      | Some off \<Rightarrow>
          (case rw_seek (SeekStart off) rw of
             (Err e, rw1) \<Rightarrow> (Returned (Err e), [], rw1)
           | (Ok _, rw1) \<Rightarrow> copy_read (map_option unat len) envs rw1))"

subsection \<open>Reads return consecutive bytes\<close>

text \<open>
  The replies are those of a volume with the content \<open>c\<close>: a read is answered with bytes from its
  offset on, at least one if there is one and it asked for any.
\<close>

definition answers :: "bytes \<Rightarrow> TargetOrRequest list \<Rightarrow> poll_env \<Rightarrow> bool" where
  "answers c sent env \<longleftrightarrow>
     (\<forall>n < length sent. \<forall>len off b. sent ! n = ReqRead len off \<longrightarrow> env_read env n = Ready (Ok b) \<longrightarrow>
        (\<exists>k. b = take k (drop (unat off) c)) \<and> (b = [] \<longrightarrow> len = 0 \<or> length c \<le> unat off))"

definition reading_ok :: "bytes \<Rightarrow> VolumeIoRW \<Rightarrow> bool" where
  "reading_ok c rw \<longleftrightarrow>
     (\<exists>k. rw_buffered_read rw = take k (drop (unat (rw_pos rw)) c)) \<and>
     (case rw_state rw of
        Reading n \<Rightarrow> rw_buffered_read rw = [] \<and> n < length (rw_sent rw) \<and>
          (\<exists>len. len \<noteq> 0 \<and> rw_sent rw ! n = ReqRead len (rw_pos rw))
      | _ \<Rightarrow> True)"

lemma answers_prefix: "answers c (sent @ later) env \<Longrightarrow> answers c sent env"
  unfolding answers_def
proof (intro allI impI)
  fix n len off b
  assume all: "\<forall>n < length (sent @ later). \<forall>len off b. (sent @ later) ! n = ReqRead len off \<longrightarrow>
      env_read env n = Ready (Ok b) \<longrightarrow>
      (\<exists>k. b = take k (drop (unat off) c)) \<and> (b = [] \<longrightarrow> len = 0 \<or> length c \<le> unat off)"
    and "n < length sent" "sent ! n = ReqRead len off" "env_read env n = Ready (Ok b)"
  then show "(\<exists>k. b = take k (drop (unat off) c)) \<and> (b = [] \<longrightarrow> len = 0 \<or> length c \<le> unat off)"
    using all [rule_format, of n len off b] by (simp add: nth_append)
qed

lemma copy_buffered_frame:
  assumes "copy_buffered_read remaining rw = (copied, rw1)"
  shows "rw_state rw1 = rw_state rw" "rw_sent rw1 = rw_sent rw" "rw_info rw1 = rw_info rw"
  using assms by (auto simp: copy_buffered_read_def Let_def split: if_splits)

lemma copy_buffered_places:
  assumes "copy_buffered_read remaining rw = (copied, rw1)" "length c < 2 ^ 64"
    and "rw_buffered_read rw = take k (drop (unat (rw_pos rw)) c)"
  shows "\<exists>j. rw_buffered_read rw1 = take j (drop (unat (rw_pos rw1)) c)"
    and "copied = Some d \<Longrightarrow> d = take (length d) (drop (unat (rw_pos rw)) c) \<and>
      unat (rw_pos rw1) = unat (rw_pos rw) + length d \<and> (d = [] \<longrightarrow> remaining = 0)"
    and "copied = None \<Longrightarrow> rw1 = rw \<and> rw_buffered_read rw = []"
proof -
  let ?p = "unat (rw_pos rw)" and ?b = "rw_buffered_read rw" and ?n = "min remaining (length (rw_buffered_read rw))"
  have fits: "?p + ?n < 2 ^ 64" if "?b \<noteq> []"
  proof -
    from that assms(3) have "?p < length c" "length ?b \<le> length c - ?p" by auto
    with assms(2) show ?thesis by linarith
  qed
  have pos: "unat (u64_saturating_add (rw_pos rw) (of_nat ?n)) = ?p + ?n" if "?b \<noteq> []"
    using saturating_add_exact [OF fits [OF that]] by simp
  show "\<exists>j. rw_buffered_read rw1 = take j (drop (unat (rw_pos rw1)) c)"
    using assms(1,3) pos
    by (cases "?b = []")
       (auto simp: copy_buffered_read_def Let_def drop_take add.commute intro!: exI [of _ "k - ?n"])
  show "d = take (length d) (drop ?p c) \<and> unat (rw_pos rw1) = ?p + length d \<and> (d = [] \<longrightarrow> remaining = 0)"
    if "copied = Some d"
  proof -
    from that assms(1) have ne: "?b \<noteq> []" and d: "d = take ?n ?b"
      and p: "rw_pos rw1 = u64_saturating_add (rw_pos rw) (of_nat ?n)"
      by (auto simp: copy_buffered_read_def Let_def split: if_splits)
    from d have n: "length d = ?n" by simp
    have "d = take ?n (drop ?p c)" unfolding d using assms(3) by (simp add: min_def)
    then have "d = take (length d) (drop ?p c)" unfolding n .
    moreover have "unat (rw_pos rw1) = ?p + length d" using pos [OF ne] p n by simp
    moreover have "remaining = 0" if "d = []" using n that ne by (simp add: min_def split: if_splits)
    ultimately show ?thesis by blast
  qed
  show "rw1 = rw \<and> ?b = []" if "copied = None"
    using that assms(1) by (auto simp: copy_buffered_read_def Let_def split: if_splits)
qed

definition read_result :: "bytes \<Rightarrow> nat \<Rightarrow> (io_error, bytes) result polled \<Rightarrow> nat \<Rightarrow> bool" where
  "read_result c p r p1 \<longleftrightarrow>
     (case r of
        Polled (Ready (Ok d)) \<Rightarrow>
          d = take (length d) (drop p c) \<and> p1 = p + length d \<and> (d = [] \<longrightarrow> length c \<le> p)
      | _ \<Rightarrow> p1 = p)"

definition read_step :: "bytes \<Rightarrow> VolumeIoRW \<Rightarrow> (io_error, bytes) result polled \<Rightarrow> VolumeIoRW \<Rightarrow> bool" where
  "read_step c rw r rw1 \<longleftrightarrow>
     reading_ok c rw1 \<and> read_result c (unat (rw_pos rw)) r (unat (rw_pos rw1)) \<and>
     rw_info rw1 = rw_info rw \<and> (\<exists>later. rw_sent rw1 = rw_sent rw @ later)"

lemma read_loop_reading:
  assumes "rw_state rw = Reading n" "read_loop_rw env remaining rw = (r, rw1)" "length c < 2 ^ 64"
    and "0 < remaining" "reading_ok c rw" "answers c (rw_sent rw1) env"
  shows "read_step c rw r rw1"
proof (cases "env_read env n")
  case Pending
  with assms show ?thesis
    by (subst (asm) read_loop_rw.simps) (auto simp: read_step_def read_result_def)
next
  case (Ready x)
  from assms(1,5) obtain len where n: "n < length (rw_sent rw)" "rw_sent rw ! n = ReqRead len (rw_pos rw)"
    "len \<noteq> 0" "rw_buffered_read rw = []"
    by (auto simp: reading_ok_def)
  show ?thesis
  proof (cases x)
    case (Inl e)
    with assms(1,2) Ready n(4) show ?thesis
      by (subst (asm) read_loop_rw.simps)
        (auto simp: read_step_def read_result_def reading_ok_def intro: exI [of _ 0])
  next
    case (Inr b)
    let ?rw = "rw\<lparr>rw_state := Idle, rw_buffered_read := b\<rparr>"
    obtain copied rw2 where cp: "copy_buffered_read remaining ?rw = (copied, rw2)" by force
    with assms(1,2) Ready Inr have r: "r = Polled (Ready (Ok (case copied of Some d \<Rightarrow> d | None \<Rightarrow> [])))" "rw1 = rw2"
      by (subst (asm) read_loop_rw.simps, simp)+
    note frame = copy_buffered_frame [OF cp]
    have "env_read env n = Ready (Ok b)" using Ready Inr by simp
    with assms(6) n(1,2) r(2) frame(2) obtain k where
      k: "b = take k (drop (unat (rw_pos rw)) c)" "b = [] \<longrightarrow> len = 0 \<or> length c \<le> unat (rw_pos rw)"
      unfolding answers_def by fastforce
    note places = copy_buffered_places [OF cp assms(3), simplified, OF k(1)]
    have "read_result c (unat (rw_pos rw)) r (unat (rw_pos rw1))"
    proof (cases copied)
      case None
      with places(3) k n(3) r show ?thesis by (auto simp: read_result_def)
    next
      case (Some d)
      with places(2) [OF Some] assms(4) r show ?thesis by (auto simp: read_result_def)
    qed
    moreover have "reading_ok c rw1" using places(1) frame(1) r(2) by (simp add: reading_ok_def)
    ultimately show ?thesis using frame r(2) by (simp add: read_step_def)
  qed
qed

lemma read_loop_reserved:
  assumes "rw_state rw = Reserve b" "read_loop_rw env remaining rw = (r, rw1)" "length c < 2 ^ 64"
    and "0 < remaining" "remaining < 2 ^ 64" "rw_buffered_read rw = []" "answers c (rw_sent rw1) env"
  shows "read_step c rw r rw1"
proof (cases "b \<or> env_reserve env \<noteq> Ready True")
  case True
  with assms(1,2,6) show ?thesis
    by (subst (asm) read_loop_rw.simps)
      (auto simp: read_step_def read_result_def reading_ok_def intro: exI [of _ 0]
        split: poll.splits bool.splits)
next
  case False
  let ?q = "ReqRead (of_nat remaining) (rw_pos rw)"
  let ?rw = "send_request ?q (rw\<lparr>rw_state := Reading (length (rw_sent rw))\<rparr>)"
  have "(of_nat remaining :: u64) \<noteq> 0" using assms(4,5) unat_of_nat_u64 [of remaining] by auto
  then have ok: "reading_ok c ?rw" using assms(6) by (auto simp: reading_ok_def send_request_def intro: exI [of _ 0])
  have "read_loop_rw env remaining ?rw = (r, rw1)"
    using assms(1,2) False by (subst (asm) read_loop_rw.simps) simp
  from read_loop_reading [OF _ this assms(3,4) ok assms(7)] show ?thesis
    by (auto simp: read_step_def send_request_def)
qed

lemma read_loop_places:
  assumes "read_loop_rw env remaining rw = (r, rw1)" "length c < 2 ^ 64"
    and "0 < remaining" "remaining < 2 ^ 64"
    and "reading_ok c rw" "rw_buffered_read rw = []" "answers c (rw_sent rw1) env"
  shows "read_step c rw r rw1"
proof -
  have idle: ?thesis
    if "read_loop_rw env remaining (rw\<lparr>rw_state := Idle\<rparr>) = (r, rw1)"
  proof -
    from that have "read_loop_rw env remaining (rw\<lparr>rw_state := Reserve False\<rparr>) = (r, rw1)"
      by (subst (asm) read_loop_rw.simps) simp
    from read_loop_reserved [of _ False, OF _ this assms(2-4)] assms(6,7) show ?thesis
      by (simp add: read_step_def)
  qed
  show ?thesis
  proof (cases "rw_state rw")
    case Idle
    then have "rw\<lparr>rw_state := Idle\<rparr> = rw" by (cases rw) simp
    with idle assms(1) show ?thesis by simp
  next
    case (Reserve b)
    from read_loop_reserved [OF this assms(1-4,6,7)] show ?thesis .
  next
    case (Reading n)
    from read_loop_reading [OF this assms(1-3,5,7)] show ?thesis .
  qed (rule idle, use assms(1) in \<open>subst (asm) read_loop_rw.simps, simp\<close>)+
qed

lemma poll_read_places:
  assumes "rw_poll_read env remaining rw = (r, rw1)" "readable (rw_info rw)" "length c < 2 ^ 64"
    and "0 < remaining" "remaining < 2 ^ 64" "reading_ok c rw" "answers c (rw_sent rw1) env"
  shows "read_step c rw r rw1"
proof -
  obtain copied rw2 where cp: "copy_buffered_read remaining rw = (copied, rw2)" by force
  from assms(6) obtain k where k: "rw_buffered_read rw = take k (drop (unat (rw_pos rw)) c)"
    by (auto simp: reading_ok_def)
  note places = copy_buffered_places [OF cp assms(3) k]
  show ?thesis
  proof (cases copied)
    case None
    with assms(1,2) cp places(3) have "read_loop_rw env remaining rw = (r, rw1)" "rw_buffered_read rw = []"
      by (auto simp: rw_poll_read_def)
    from read_loop_places [OF this(1) assms(3-6) this(2) assms(7)] show ?thesis .
  next
    case (Some d)
    with assms(1,2) cp have "r = Polled (Ready (Ok d))" "rw1 = rw2" by (simp_all add: rw_poll_read_def)
    moreover have "reading_ok c rw2"
    proof (cases "rw_state rw")
      case (Reading n)
      with assms(6) Some cp show ?thesis
        by (auto simp: reading_ok_def copy_buffered_read_def)
    qed (use places(1) copy_buffered_frame [OF cp] in \<open>simp_all add: reading_ok_def\<close>)
    ultimately show ?thesis
      using places(2) [OF Some] copy_buffered_frame [OF cp] assms(4)
      by (simp add: read_step_def read_result_def)
  qed
qed

subsection \<open>The file holds what was asked for\<close>

lemma read_loop_sent: "\<exists>later. rw_sent (snd (read_loop_rw env remaining rw)) = rw_sent rw @ later"
proof (induction env remaining rw rule: read_loop_rw.induct)
  case (1 env remaining rw)
  then show ?case
    by (subst read_loop_rw.simps)
      (auto simp: send_request_def copy_buffered_read_def Let_def
        split: io_state.split bool.split poll.split sum.split)
qed

lemma poll_read_sent: "rw_poll_read env remaining rw = (r, rw1) \<Longrightarrow> \<exists>later. rw_sent rw1 = rw_sent rw @ later"
proof -
  assume r: "rw_poll_read env remaining rw = (r, rw1)"
  obtain copied rw2 where cp: "copy_buffered_read remaining rw = (copied, rw2)" by force
  from r cp copy_buffered_frame(2) [OF cp] read_loop_sent [of env remaining rw2] show ?thesis
    by (auto simp: rw_poll_read_def split: if_splits option.splits)
qed

lemma copy_read_sent: "copy_read limit es rw = (r, out, rw') \<Longrightarrow> \<exists>later. rw_sent rw' = rw_sent rw @ later"
proof (induction limit es rw arbitrary: r out rw' rule: copy_read.induct)
  case (2 limit e es rw)
  obtain p rw1 where p: "rw_poll_read e READ_BUFFER rw = (p, rw1)" by force
  from poll_read_sent [OF this] obtain later where "rw_sent rw1 = rw_sent rw @ later" by blast
  with "2" p show ?case
    by (fastforce simp: Let_def split: if_splits polled.splits poll.splits sum.splits prod.splits)
qed auto

lemma copy_read_places:
  assumes "copy_read limit es rw = (Returned (Ok ()), out, rw')" "readable (rw_info rw)" "length c < 2 ^ 64"
    and "reading_ok c rw" "\<forall>e \<in> set es. answers c (rw_sent rw') e"
  shows "out = (case limit of None \<Rightarrow> drop (unat (rw_pos rw)) c | Some l \<Rightarrow> take l (drop (unat (rw_pos rw)) c))"
  using assms(1,2,4,5)
proof (induction limit es rw arbitrary: out rule: copy_read.induct)
  case (1 limit rw)
  then show ?case by (auto split: if_splits)
next
  case (2 limit e es rw)
  show ?case
  proof (cases "limit = Some 0")
    case True
    with "2.prems" show ?thesis by simp
  next
    case False
    obtain p rw1 where p: "rw_poll_read e READ_BUFFER rw = (p, rw1)" by force
    have sent: "\<exists>later. rw_sent rw' = rw_sent rw1 @ later"
      using "2.prems"(1) False p
      by (auto simp: Let_def dest: copy_read_sent split: if_splits polled.splits poll.splits sum.splits prod.splits)
    then have "answers c (rw_sent rw1) e" using "2.prems"(4) by (auto dest: answers_prefix)
    from poll_read_places [OF p "2.prems"(2) assms(3) _ _ "2.prems"(3) this]
    have step: "read_step c rw p rw1" by (simp add: READ_BUFFER_def)
    then have ok: "reading_ok c rw1" "readable (rw_info rw1)" using "2.prems"(2) by (simp_all add: read_step_def)
    show ?thesis
    proof (cases "\<exists>d. p = Polled (Ready (Ok d)) \<and> d \<noteq> []")
      case True
      then obtain d where d: "p = Polled (Ready (Ok d))" "d \<noteq> []" by blast
      let ?part = "case limit of None \<Rightarrow> d | Some l \<Rightarrow> take l d"
      let ?limit = "map_option (\<lambda>l. l - length ?part) limit"
      obtain out1 where out1: "copy_read ?limit es rw1 = (Returned (Ok ()), out1, rw')" "out = ?part @ out1"
        using "2.prems"(1) False p d by (auto simp: Let_def split: prod.splits)
      from step d have places: "d = take (length d) (drop (unat (rw_pos rw)) c)"
        "unat (rw_pos rw1) = unat (rw_pos rw) + length d"
        by (simp_all add: read_step_def read_result_def)
      have rest: "drop (unat (rw_pos rw)) c = d @ drop (unat (rw_pos rw1)) c"
        using places by (metis append_take_drop_id drop_drop add.commute)
      have "out1 = (case ?limit of None \<Rightarrow> drop (unat (rw_pos rw1)) c
          | Some l \<Rightarrow> take l (drop (unat (rw_pos rw1)) c))"
        using "2.IH"(1) [OF False p[symmetric] d(1) refl refl d(2) refl out1(1) ok(2,1)] "2.prems"(4) by simp
      with out1(2) rest show ?thesis by (cases limit) (auto simp: min_def)
    next
      case other: False
      then consider "p = Polled Pending" | "p = Polled (Ready (Ok []))"
        using "2.prems"(1) False p by (auto split: polled.splits poll.splits sum.splits)
      then show ?thesis
      proof cases
        case 1
        with step have "unat (rw_pos rw1) = unat (rw_pos rw)" by (simp add: read_step_def read_result_def)
        then have "rw_pos rw1 = rw_pos rw" by (simp add: unsigned_word_eqI)
        with "2.IH"(2) [OF False p[symmetric] 1 refl _ ok(2,1)] "2.prems"(1,4) False p 1 show ?thesis by (simp split: option.splits)
      next
        case 2
        with step have "length c \<le> unat (rw_pos rw)" by (simp add: read_step_def read_result_def)
        with "2.prems"(1) False p 2 show ?thesis by (auto split: option.splits)
      qed
    qed
  qed
qed

text \<open>When the channel and the replies keep up, every poll is ready, and the copy ends.\<close>

definition prompt :: "poll_env \<Rightarrow> bool" where
  "prompt env \<longleftrightarrow> env_reserve env = Ready True \<and> (\<forall>n. \<exists>b. env_read env n = Ready (Ok b))"

lemma poll_read_prompt:
  assumes "prompt env" "readable (rw_info rw)" "rw_state rw \<noteq> Reserve True"
  shows "\<exists>d rw1. rw_poll_read env remaining rw = (Polled (Ready (Ok d)), rw1) \<and> rw_state rw1 \<noteq> Reserve True"
proof -
  let ?ok = "\<lambda>rw. \<exists>d rw1. read_loop_rw env remaining rw = (Polled (Ready (Ok d)), rw1) \<and> rw_state rw1 \<noteq> Reserve True"
  have reading: "?ok rw" if state: "rw_state rw = Reading n" for rw n
  proof -
    obtain b where "env_read env n = Ready (Ok b)" using assms(1) by (auto simp: prompt_def)
    with state show ?thesis
      by (subst read_loop_rw.simps) (simp add: copy_buffered_read_def Let_def)
  qed
  have reserved: "?ok rw" if state: "rw_state rw = Reserve False" for rw
  proof -
    let ?rw = "send_request (ReqRead (of_nat remaining) (rw_pos rw)) (rw\<lparr>rw_state := Reading (length (rw_sent rw))\<rparr>)"
    have "?ok ?rw" by (rule reading [of _ "length (rw_sent rw)"]) (simp add: send_request_def)
    then show ?thesis using state assms(1) by (subst read_loop_rw.simps) (simp add: prompt_def)
  qed
  have idle: "?ok rw" if state: "rw_state rw = Idle" for rw
  proof -
    have "?ok (rw\<lparr>rw_state := Reserve False\<rparr>)" by (rule reserved) simp
    then show ?thesis using state by (subst read_loop_rw.simps) simp
  qed
  have loop: "?ok rw" if "rw_state rw \<noteq> Reserve True" for rw
  proof (cases "rw_state rw")
    case Flushing
    then show ?thesis using idle [of "rw\<lparr>rw_state := Idle\<rparr>"] by (subst read_loop_rw.simps) simp
  next
    case ShuttingDown
    then show ?thesis using idle [of "rw\<lparr>rw_state := Idle\<rparr>"] by (subst read_loop_rw.simps) simp
  qed (use that reading reserved idle in auto)
  obtain copied rw2 where cp: "copy_buffered_read remaining rw = (copied, rw2)" by force
  show ?thesis
    using assms(2,3) cp loop [of rw2] copy_buffered_frame(1) [OF cp]
    by (cases copied) (auto simp: rw_poll_read_def)
qed

lemma copy_read_ends:
  assumes "copy_read limit es rw = (r, out, rw')" "readable (rw_info rw)" "length c < 2 ^ 64"
    and "reading_ok c rw" "rw_state rw \<noteq> Reserve True" "\<forall>e \<in> set es. prompt e \<and> answers c (rw_sent rw') e"
    and "length c - unat (rw_pos rw) < length es"
  shows "r = Returned (Ok ())"
  using assms(1,2,4-7)
proof (induction es arbitrary: limit rw out)
  case (Cons e es)
  show ?case
  proof (cases "limit = Some 0")
    case True
    with Cons.prems(1) show ?thesis by simp
  next
    case False
    from poll_read_prompt [of e rw READ_BUFFER] Cons.prems(2,4,5) obtain d rw1 where
      p: "rw_poll_read e READ_BUFFER rw = (Polled (Ready (Ok d)), rw1)" "rw_state rw1 \<noteq> Reserve True" by auto
    show ?thesis
    proof (cases "d = []")
      case True
      with Cons.prems(1) False p show ?thesis by simp
    next
      case ne: False
      let ?part = "case limit of None \<Rightarrow> d | Some l \<Rightarrow> take l d"
      obtain out1 where out1: "copy_read (map_option (\<lambda>l. l - length ?part) limit) es rw1 = (r, out1, rw')"
        using Cons.prems(1) False p(1) ne by (auto simp: Let_def split: prod.splits)
      from copy_read_sent [OF this] Cons.prems(5) have "answers c (rw_sent rw1) e" by (auto dest: answers_prefix)
      from poll_read_places [OF p(1) Cons.prems(2) assms(3) _ _ Cons.prems(3) this]
      have step: "read_step c rw (Polled (Ready (Ok d))) rw1" by (simp add: READ_BUFFER_def)
      then have "unat (rw_pos rw1) = unat (rw_pos rw) + length d" "d = take (length d) (drop (unat (rw_pos rw)) c)"
        by (simp_all add: read_step_def read_result_def)
      with ne Cons.prems(6) have "length c - unat (rw_pos rw1) < length es" by (cases d) (auto dest!: arg_cong [where f = length])
      with Cons.IH [OF out1 _ _ p(2)] step Cons.prems(2,5) show ?thesis by (simp add: read_step_def)
    qed
  qed
qed simp

lemma rw_seek_start:
  assumes "seekable info"
  shows "rw_seek (SeekStart off) (rw_new info) = (Ok off, (rw_new info)\<lparr>rw_pos := off\<rparr>)"
  using assms by (simp add: rw_seek_def rw_poll_complete_def rw_start_seek_def rw_new_def seek_from_def
      u64_saturating_sub_def)

lemma rw_seek_refused: "\<not> seekable info \<Longrightarrow> \<exists>e. rw_seek position (rw_new info) = (Err e, rw_new info)"
  by (simp add: rw_seek_def rw_poll_complete_def rw_new_def)

lemma read_copies:
  assumes "read_target offset len envs (rw_new info) = (r, out, rw')"
    and "readable info" "length c < 2 ^ 64" "\<forall>e \<in> set envs. answers c (rw_sent rw') e"
  shows "(r = Returned (Ok ()) \<longrightarrow>
      out = (let part = drop (case offset of None \<Rightarrow> 0 | Some off \<Rightarrow> unat off) c
             in case len of None \<Rightarrow> part | Some l \<Rightarrow> take (unat l) part)) \<and>
    ((\<forall>e \<in> set envs. prompt e) \<and> length c < length envs \<and> (offset = None \<or> seekable info) \<longrightarrow>
      r = Returned (Ok ()))"
proof (cases "offset = None \<or> seekable info")
  case True
  let ?rw = "(rw_new info)\<lparr>rw_pos := case offset of None \<Rightarrow> 0 | Some off \<Rightarrow> off\<rparr>"
  have copy: "copy_read (map_option unat len) envs ?rw = (r, out, rw')"
    using assms(1) True rw_seek_start [of info] by (auto simp: read_target_def rw_new_def split: option.splits)
  have rw: "readable (rw_info ?rw)" "reading_ok c ?rw" "rw_state ?rw \<noteq> Reserve True"
    using assms(2) by (auto simp: rw_new_def reading_ok_def intro: exI [of _ 0])
  have pos: "unat (rw_pos ?rw) = (case offset of None \<Rightarrow> 0 | Some off \<Rightarrow> unat off)" by (simp split: option.split)
  have "out = (let part = drop (unat (rw_pos ?rw)) c in case len of None \<Rightarrow> part | Some l \<Rightarrow> take (unat l) part)"
    if "r = Returned (Ok ())"
    using copy_read_places [OF copy [unfolded that] rw(1) assms(3) rw(2) assms(4)]
    by (simp add: Let_def split: option.splits)
  moreover have "r = Returned (Ok ())" if "\<forall>e \<in> set envs. prompt e" "length c < length envs"
    using that assms(4) by (intro copy_read_ends [OF copy rw(1) assms(3) rw(2,3)]) auto
  ultimately show ?thesis unfolding pos by blast
next
  case False
  then obtain off where off: "offset = Some off" "\<not> seekable info" by auto
  from rw_seek_refused [OF off(2), of "SeekStart off"] obtain e where
    "rw_seek (SeekStart off) (rw_new info) = (Err e, rw_new info)" by blast
  with assms(1) off show ?thesis by (auto simp: read_target_def)
qed

text \<open>
  C37. Reading a volume, or the part of it from an offset or up to a length: whatever the timing
  of the channel, and however short the replies, the file of a read that succeeds holds exactly
  that part of the content of the volume. And it does succeed, within one poll more than the
  volume has bytes, when the channel and the replies keep up, unless an offset is given for a
  target that does not support seeking.
\<close>

theorem volume_read_copies:
  assumes "read_target offset len envs (rw_new info) = (r, out, rw')"
    and "readable info" "length c < 2 ^ 64" "\<forall>e \<in> set envs. answers c (rw_sent rw') e"
  shows "(r = Returned (Ok ()) \<longrightarrow>
      out = (let part = drop (case offset of None \<Rightarrow> 0 | Some off \<Rightarrow> unat off) c
             in case len of None \<Rightarrow> part | Some l \<Rightarrow> take (unat l) part)) \<and>
    ((\<forall>e \<in> set envs. prompt e) \<and> length c < length envs \<and> (offset = None \<or> seekable info) \<longrightarrow>
      r = Returned (Ok ()))"
  using assms by (rule read_copies)

definition short_env :: poll_env where
  "short_env = \<lparr>env_reserve = Ready True, env_done = (\<lambda>n. Pending),
     env_read = (\<lambda>n. Ready (Ok (if n = 0 then [8] else if n = 1 then [9] else [])))\<rparr>"

lemma short_read_run:
  "read_target (Some 1) None [short_env, short_env, short_env, short_env] (rw_new example_info) =
     (Returned (Ok ()), [8, 9],
      (rw_new example_info)\<lparr>rw_pos := 3, rw_sent :=
        [ReqRead (of_nat READ_BUFFER) 1, ReqRead (of_nat READ_BUFFER) 2, ReqRead (of_nat READ_BUFFER) 3]\<rparr>)"
proof -
  have seek: "rw_seek (SeekStart 1) (rw_new example_info) = (Ok 1, (rw_new example_info)\<lparr>rw_pos := 1\<rparr>)"
    by (rule rw_seek_start) (simp add: example_info_def)
  show ?thesis
    by (simp add: read_target_def seek [unfolded rw_new_def example_info_def, simplified] rw_poll_read_def copy_buffered_read_def read_loop_rw.simps
        short_env_def rw_new_def example_info_def send_request_def READ_BUFFER_def u64_saturating_add_def)
qed

lemma volume_read_copies_witness:
  "\<exists>out rw'. read_target (Some 1) None [short_env, short_env, short_env, short_env] (rw_new example_info) =
      (Returned (Ok ()), out, rw') \<and> out = drop 1 [7, 8, 9]"
proof -
  let ?envs = "[short_env, short_env, short_env, short_env]"
  have "answers [7, 8, 9] [ReqRead (of_nat READ_BUFFER) 1, ReqRead (of_nat READ_BUFFER) 2,
      ReqRead (of_nat READ_BUFFER) 3] short_env"
    by (auto simp: answers_def nth_Cons short_env_def split: nat.splits intro: exI [of _ 1])
  then show ?thesis
    using volume_read_copies [OF short_read_run, of "[7, 8, 9]"] short_read_run
    by (simp add: example_info_def)
qed

end
