(* ===== verification/Client_Calls.thy ===== *)
theory Client_Calls
  imports Server
begin

section \<open>The calls of the client (boardswarm-client/src/client.rs)\<close>

text \<open>
  \<^verbatim>\<open>Boardswarm\<close> wraps the generated gRPC client: it builds the messages and takes the replies
  apart. The generated client with tonic below it is the record \<open>grpc\<close> over a world \<open>'w\<close>; the
  enum numbers and the fields are those of boardswarm.proto. \<open>server_grpc\<close> is that record for a
  client of the modelled server, and the lemmas say what the calls then return: the two ends
  agree on the items, the properties and the streams. The session of a volume is in
  Volume_Client and Volume_Session.
\<close>

subsection \<open>The generated client\<close>

text \<open>
  Streams of replies are the list of what they yield. An item event, a login method and
  the payload of a console message are optional fields.
\<close>

record ('q, 'w) grpc =
  g_login_info :: "'w \<Rightarrow> (status, (string \<times> (string \<times> string) option) list) result \<times> 'w"
  g_list :: "32 word \<Rightarrow> 'w \<Rightarrow> (status, ProtoItem list) result \<times> 'w"
  g_item_properties :: "32 word \<Rightarrow> u64 \<Rightarrow> 'w \<Rightarrow> (status, (string \<times> string) list) result \<times> 'w"
  g_monitor :: "32 word \<Rightarrow> 'w \<Rightarrow> (status, (status, ItemEvent option) result list) result \<times> 'w"
  g_device_info :: "u64 \<Rightarrow> 'w \<Rightarrow> (status, (status, ProtoDevice) result list) result \<times> 'w"
  g_device_change_mode :: "u64 \<Rightarrow> string \<Rightarrow> 'w \<Rightarrow> (status, unit) result \<times> 'w"
  g_console_stream_input :: "TargetOrData option list \<Rightarrow> 'w \<Rightarrow> (status, unit) result \<times> 'w"
  g_console_stream_output :: "u64 \<Rightarrow> 'w \<Rightarrow> (status, (status, bytes) result list) result \<times> 'w"
  g_console_configure :: "u64 \<Rightarrow> 'q option \<Rightarrow> 'w \<Rightarrow> (status, unit) result \<times> 'w"
  g_actuator_change_mode :: "u64 \<Rightarrow> 'q option \<Rightarrow> 'w \<Rightarrow> (status, unit) result \<times> 'w"
  g_volume_info :: "u64 \<Rightarrow> 'w \<Rightarrow> (status, VolumeTargetInfo list \<times> bool) result \<times> 'w"
  g_volume_commit :: "u64 \<Rightarrow> 'w \<Rightarrow> (status, unit) result \<times> 'w"
  g_volume_erase :: "u64 \<Rightarrow> string \<Rightarrow> 'w \<Rightarrow> (status, unit) result \<times> 'w"

subsection \<open>The calls\<close>

definition on_reply ::
  "('a \<Rightarrow> 'b) \<Rightarrow> (status, 'a) result \<times> 'w \<Rightarrow> (status, 'b) result \<times> 'w" where
  "on_reply f r = (result_bind (fst r) (\<lambda>a. Ok (f a)), snd r)"

text \<open>The generated \<^verbatim>\<open>From<ItemType> for i32\<close>.\<close>

fun item_type_number :: "ItemType \<Rightarrow> 32 word" where
  "item_type_number ItemDevice = 0" | "item_type_number ItemConsole = 1"
| "item_type_number ItemActuator = 2" | "item_type_number ItemVolume = 3"

definition client_login_info :: "('q, 'w) grpc \<Rightarrow> 'w \<Rightarrow> (status, LoginInfo list) result \<times> 'w" where
  "client_login_info g w =
     on_reply
       (List.map_filter (\<lambda>(description, method).
          map_option (\<lambda>(url, client_id). \<lparr>li_description = description, li_url = url, li_client_id = client_id\<rparr>)
            method))
       (g_login_info g w)"

definition client_list :: "('q, 'w) grpc \<Rightarrow> ItemType \<Rightarrow> 'w \<Rightarrow> (status, ProtoItem list) result \<times> 'w" where
  "client_list g t w = on_reply (\<lambda>items. items) (g_list g (item_type_number t) w)"

text \<open>The pairs are collected into a \<^verbatim>\<open>HashMap\<close>.\<close>

definition client_properties ::
  "('q, 'w) grpc \<Rightarrow> ItemType \<Rightarrow> u64 \<Rightarrow> 'w \<Rightarrow> (status, (string \<times> string) list) result \<times> 'w" where
  "client_properties g t i w =
     on_reply (\<lambda>ps. fold (\<lambda>(k, v). AList.update k v) ps []) (g_item_properties g (item_type_number t) i w)"

text \<open>Events without content are dropped, errors of the stream are passed on.\<close>

definition keep_event :: "(status, ItemEvent option) result \<Rightarrow> (status, ItemEvent) result option" where
  "keep_event r =
     (case r of Err e \<Rightarrow> Some (Err e) | Ok None \<Rightarrow> None | Ok (Some ev) \<Rightarrow> Some (Ok ev))"

definition client_monitor ::
  "('q, 'w) grpc \<Rightarrow> ItemType \<Rightarrow> 'w \<Rightarrow> (status, (status, ItemEvent) result list) result \<times> 'w" where
  "client_monitor g t w = on_reply (List.map_filter keep_event) (g_monitor g (item_type_number t) w)"

definition client_device_info ::
  "('q, 'w) grpc \<Rightarrow> u64 \<Rightarrow> 'w \<Rightarrow> (status, (status, ProtoDevice) result list) result \<times> 'w" where
  "client_device_info g device w = on_reply (\<lambda>r. r) (g_device_info g device w)"

definition client_device_change_mode ::
  "('q, 'w) grpc \<Rightarrow> u64 \<Rightarrow> string \<Rightarrow> 'w \<Rightarrow> (status, unit) result \<times> 'w" where
  "client_device_change_mode g device mode w = on_reply (\<lambda>_. ()) (g_device_change_mode g device mode w)"

definition client_console_stream_input ::
  "('q, 'w) grpc \<Rightarrow> u64 \<Rightarrow> bytes list \<Rightarrow> 'w \<Rightarrow> (status, unit) result \<times> 'w" where
  "client_console_stream_input g console input w =
     on_reply (\<lambda>_. ())
       (g_console_stream_input g (Some (TdConsole console) # map (\<lambda>d. Some (TdData d)) input) w)"

text \<open>Errors within the output are dropped.\<close>

definition client_console_stream_output ::
  "('q, 'w) grpc \<Rightarrow> u64 \<Rightarrow> 'w \<Rightarrow> (status, bytes list) result \<times> 'w" where
  "client_console_stream_output g console w =
     on_reply (List.map_filter (\<lambda>r. case r of Ok d \<Rightarrow> Some d | Err e \<Rightarrow> None))
       (g_console_stream_output g console w)"

definition client_console_configure ::
  "('q, 'w) grpc \<Rightarrow> u64 \<Rightarrow> 'q \<Rightarrow> 'w \<Rightarrow> (status, unit) result \<times> 'w" where
  "client_console_configure g console parameters w =
     on_reply (\<lambda>_. ()) (g_console_configure g console (Some parameters) w)"

definition client_actuator_change_mode ::
  "('q, 'w) grpc \<Rightarrow> u64 \<Rightarrow> 'q \<Rightarrow> 'w \<Rightarrow> (status, unit) result \<times> 'w" where
  "client_actuator_change_mode g actuator parameters w =
     on_reply (\<lambda>_. ()) (g_actuator_change_mode g actuator (Some parameters) w)"

definition client_volume_info ::
  "('q, 'w) grpc \<Rightarrow> u64 \<Rightarrow> 'w \<Rightarrow> (status, VolumeTargetInfo list \<times> bool) result \<times> 'w" where
  "client_volume_info g volume w = on_reply (\<lambda>i. i) (g_volume_info g volume w)"

definition client_volume_commit :: "('q, 'w) grpc \<Rightarrow> u64 \<Rightarrow> 'w \<Rightarrow> (status, unit) result \<times> 'w" where
  "client_volume_commit g volume w = on_reply (\<lambda>_. ()) (g_volume_commit g volume w)"

definition client_volume_erase :: "('q, 'w) grpc \<Rightarrow> u64 \<Rightarrow> string \<Rightarrow> 'w \<Rightarrow> (status, unit) result \<times> 'w" where
  "client_volume_erase g volume target w = on_reply (\<lambda>_. ()) (g_volume_erase g volume target w)"

subsection \<open>A client of the modelled server\<close>

text \<open>
  The state is the server with its world. \<open>gone\<close> is the status of a call whose handler
  panicked, \<open>rcv\<close> what the subscriptions of a monitor call receive and \<open>watch\<close> what those of a
  device do.
\<close>

definition reply_of_handler :: "status \<Rightarrow> (status, 'a) result outcome \<Rightarrow> (status, 'a) result" where
  "reply_of_handler gone r = (case r of Done x \<Rightarrow> x | Panicked \<Rightarrow> Err gone)"

definition at_server ::
  "(('p, 'w) Server \<Rightarrow> 'w \<Rightarrow> 'a \<times> 'w) \<Rightarrow> ('p, 'w) Server \<times> 'w \<Rightarrow> 'a \<times> ('p, 'w) Server \<times> 'w" where
  "at_server h s = (case h (fst s) (snd s) of (a, w) \<Rightarrow> (a, fst s, w))"

definition server_grpc ::
  "status \<Rightarrow> ('p, 'w) received_changes \<Rightarrow> ((RecvError, unit) result \<times> 'w) list \<Rightarrow>
   ('p, ('p, 'w) Server \<times> 'w) grpc" where
  "server_grpc gone rcv watch =
     \<lparr>g_login_info = at_server (\<lambda>s w.
        (Ok (map (\<lambda>l. (li_description l, Some (li_url l, li_client_id l))) (rpc_login_info s)), w)),
      g_list = (\<lambda>t. at_server (\<lambda>s w. (rpc_list s t, w))),
      g_item_properties = (\<lambda>t i. at_server (\<lambda>s w. (rpc_item_properties s t i, w))),
      g_monitor = (\<lambda>t. at_server (\<lambda>s w.
        (result_bind (rpc_monitor s t rcv) (\<lambda>evs. Ok (map (\<lambda>ev. Ok (Some ev)) evs)), w))),
      g_device_info = (\<lambda>i. at_server (\<lambda>s w.
        (result_bind (rpc_device_info s i w watch) (\<lambda>ds. Ok (map Ok ds)), w))),
      g_device_change_mode = (\<lambda>i mode. at_server (\<lambda>s. rpc_device_change_mode s i mode)),
      g_console_stream_input = (\<lambda>msgs. at_server (\<lambda>s w.
        (case rpc_console_stream_input s (map Ok msgs) w of (r, w1) \<Rightarrow> (reply_of_handler gone r, w1)))),
      g_console_stream_output = (\<lambda>i. at_server (\<lambda>s w.
        (case rpc_console_stream_output s i w of (r, w1) \<Rightarrow>
           (result_bind r (\<lambda>os. Ok (map (\<lambda>d. case d of Done b \<Rightarrow> Ok b | Panicked \<Rightarrow> Err gone) os)), w1)))),
      g_console_configure = (\<lambda>i p. at_server (\<lambda>s w.
        (case rpc_console_configure s i p w of (r, w1) \<Rightarrow> (reply_of_handler gone r, w1)))),
      g_actuator_change_mode = (\<lambda>i p. at_server (\<lambda>s w.
        (case rpc_actuator_change_mode s i p w of (r, w1) \<Rightarrow> (reply_of_handler gone r, w1)))),
      g_volume_info = (\<lambda>i. at_server (\<lambda>s w. (rpc_volume_info s i w, w))),
      g_volume_commit = (\<lambda>i. at_server (\<lambda>s. rpc_volume_commit s i)),
      g_volume_erase = (\<lambda>i target. at_server (\<lambda>s. rpc_volume_erase s i target))\<rparr>"

lemma item_type_roundtrip [simp]: "item_type_try_from (item_type_number t) = Some t"
  by (cases t) (simp_all add: item_type_try_from_def)

lemma map_filter_Some: "List.map_filter Some xs = xs"
  by (induction xs) (simp_all add: List.map_filter_simps)

lemma client_server_list: "client_list (server_grpc gone rcv watch) t (s, w) = (Ok (item_list_for s t), s, w)"
  by (simp add: client_list_def server_grpc_def at_server_def on_reply_def rpc_list_def)

lemma client_server_login:
  "client_login_info (server_grpc gone rcv watch) (s, w) = (Ok (rpc_login_info s), s, w)"
proof -
  have "List.map_filter ((\<lambda>(description, method). map_option (\<lambda>(url, client_id).
      \<lparr>li_description = description, li_url = url, li_client_id = client_id\<rparr>) method) \<circ>
      (\<lambda>l. (li_description l, Some (li_url l, li_client_id l)))) ls = ls" for ls :: "LoginInfo list"
    by (induction ls) (simp_all add: List.map_filter_simps)
  then show ?thesis
    by (simp add: client_login_info_def server_grpc_def at_server_def on_reply_def List.map_filter_def comp_def
        filter_map)
qed

text \<open>The events of the server arrive as they are.\<close>

lemma client_server_monitor:
  "client_monitor (server_grpc gone rcv watch) t (s, w) =
   (result_bind (rpc_monitor s (item_type_number t) rcv) (\<lambda>evs. Ok (map Ok evs)), s, w)"
proof -
  have "List.map_filter keep_event (map (\<lambda>ev. Ok (Some ev)) evs) = map Ok evs" for evs
    by (induction evs) (simp_all add: List.map_filter_simps keep_event_def)
  then show ?thesis
    by (cases "rpc_monitor s (item_type_number t) rcv")
       (simp_all add: client_monitor_def server_grpc_def at_server_def on_reply_def)
qed

text \<open>What a client types reaches the console in order.\<close>

lemma client_server_input:
  "client_console_stream_input (server_grpc gone rcv watch) console input (s, w) =
   (case rpc_console_stream_input s (Ok (Some (TdConsole console)) # map (\<lambda>d. Ok (Some (TdData d))) input) w of
      (r, w1) \<Rightarrow> (reply_of_handler gone r, s, w1))"
  by (auto simp: client_console_stream_input_def server_grpc_def at_server_def on_reply_def comp_def
      result_bind_def split: prod.splits sum.splits)

end
