(* ===== verification/Client_Device.thy ===== *)
theory Client_Device
  imports Client_Calls
begin

section \<open>Devices of the client (boardswarm-client/src/device.rs)\<close>

text \<open>
  A \<^verbatim>\<open>Device\<close> caches the state of a device; a task follows the stream of the server and
  replaces the cached state, with a notification after each. Volumes and consoles of the
  device are names, looked up in the cached state when they are used; a caller can wait for one to
  become available or to go away. Waiting is a step relation of the waiter and the task. The lemmas:
  what a lookup answers, that no wake-up is lost, and what happens when the task has ended.
\<close>

subsection \<open>Looking up devices, volumes and consoles\<close>

text \<open>\<^verbatim>\<open>Device::new\<close>: the first state, and what the task will see of the stream.\<close>

definition device_new ::
  "('q, 'w) grpc \<Rightarrow> u64 \<Rightarrow> 'w \<Rightarrow>
   (status, ProtoDevice \<times> (status, ProtoDevice) result list) result \<times> 'w" where
  "device_new g i w =
     (case client_device_info g i w of
        (Err e, w1) \<Rightarrow> (Err e, w1)
      | (Ok [], w1) \<Rightarrow> (Err (Status NotFound ''bla''), w1)
      | (Ok (Err e # _), w1) \<Rightarrow> (Err e, w1)
      | (Ok (Ok d # updates), w1) \<Rightarrow> (Ok (d, updates), w1))"

definition device_by_name ::
  "('q, 'w) grpc \<Rightarrow> string \<Rightarrow> 'w \<Rightarrow>
   (status, (u64 \<times> ProtoDevice \<times> (status, ProtoDevice) result list) option) result \<times> 'w" where
  "device_by_name g name w =
     (case client_list g ItemDevice w of
        (Err e, w1) \<Rightarrow> (Err e, w1)
      | (Ok items, w1) \<Rightarrow>
          (case List.find (\<lambda>i. pi_name i = name) items of
             None \<Rightarrow> (Ok None, w1)
           | Some i \<Rightarrow>
               (case device_new g (pi_id i) w1 of
                  (Err e, w2) \<Rightarrow> (Err e, w2)
                | (Ok (d, updates), w2) \<Rightarrow> (Ok (Some (pi_id i, d, updates)), w2))))"

definition volume_get_id :: "ProtoDevice \<Rightarrow> string \<Rightarrow> u64 option" where
  "volume_get_id d name = Option.bind (List.find (\<lambda>v. pvol_name v = name) (pdev_volumes d)) pvol_id"

definition console_get_id :: "ProtoDevice \<Rightarrow> string \<Rightarrow> u64 option" where
  "console_get_id d name = Option.bind (List.find (\<lambda>c. pcon_name c = name) (pdev_consoles d)) pcon_id"

definition volume_available :: "string \<Rightarrow> ProtoDevice \<Rightarrow> bool" where
  "volume_available name d = (volume_get_id d name \<noteq> None)"

definition console_available :: "string \<Rightarrow> ProtoDevice \<Rightarrow> bool" where
  "console_available name d = (console_get_id d name \<noteq> None)"

definition first_console :: "ProtoDevice \<Rightarrow> string option" where
  "first_console d = (case pdev_consoles d of [] \<Rightarrow> None | c # _ \<Rightarrow> Some (pcon_name c))"

definition console_by_name :: "ProtoDevice \<Rightarrow> string \<Rightarrow> string option" where
  "console_by_name d name = map_option pcon_name (List.find (\<lambda>c. pcon_name c = name) (pdev_consoles d))"

definition device_volume_names :: "ProtoDevice \<Rightarrow> string list" where
  "device_volume_names d = map pvol_name (pdev_volumes d)"

definition volume_by_name :: "ProtoDevice \<Rightarrow> string \<Rightarrow> string option" where
  "volume_by_name d name = map_option pvol_name (List.find (\<lambda>v. pvol_name v = name) (pdev_volumes d))"

subsection \<open>Operations on a volume or console by its name\<close>

definition volume_unavailable :: status where
  "volume_unavailable = Status Unavailable ''Volume currently not available''"

definition console_unavailable :: status where
  "console_unavailable = Status Unavailable ''Console currently not available''"

definition with_volume ::
  "ProtoDevice \<Rightarrow> string \<Rightarrow> (u64 \<Rightarrow> 'w \<Rightarrow> (status, 'a) result \<times> 'w) \<Rightarrow> 'w \<Rightarrow> (status, 'a) result \<times> 'w" where
  "with_volume d name call w =
     (case volume_get_id d name of None \<Rightarrow> (Err volume_unavailable, w) | Some i \<Rightarrow> call i w)"

definition with_console ::
  "ProtoDevice \<Rightarrow> string \<Rightarrow> (u64 \<Rightarrow> 'w \<Rightarrow> (status, 'a) result \<times> 'w) \<Rightarrow> 'w \<Rightarrow> (status, 'a) result \<times> 'w" where
  "with_console d name call w =
     (case console_get_id d name of None \<Rightarrow> (Err console_unavailable, w) | Some i \<Rightarrow> call i w)"

definition device_volume_info where
  "device_volume_info g d name = with_volume d name (client_volume_info g)"

definition device_volume_commit where
  "device_volume_commit g d name = with_volume d name (client_volume_commit g)"

definition device_volume_erase where
  "device_volume_erase g d name target = with_volume d name (\<lambda>i. client_volume_erase g i target)"

text \<open>\<open>open_io\<close> is \<^verbatim>\<open>Boardswarm::volume_io\<close>, with or without \<^verbatim>\<open>VolumeIoRW\<close> around it.\<close>

definition device_volume_open ::
  "(u64 \<Rightarrow> string \<Rightarrow> u64 option \<Rightarrow> 'w \<Rightarrow> (status, 'io) result \<times> 'w) \<Rightarrow> ProtoDevice \<Rightarrow> string \<Rightarrow>
   string \<Rightarrow> u64 option \<Rightarrow> 'w \<Rightarrow> (status, 'io) result \<times> 'w" where
  "device_volume_open open_io d name target len = with_volume d name (\<lambda>i. open_io i target len)"

definition device_stream_input where
  "device_stream_input g d name input = with_console d name (\<lambda>i. client_console_stream_input g i input)"

definition device_stream_output where
  "device_stream_output g d name = with_console d name (client_console_stream_output g)"

definition device_change_mode :: "('q, 'w) grpc \<Rightarrow> u64 \<Rightarrow> string \<Rightarrow> 'w \<Rightarrow> (status, unit) result \<times> 'w" where
  "device_change_mode g i mode w = on_reply (\<lambda>_. ()) (client_device_change_mode g i mode w)"

subsection \<open>The task and a waiter\<close>

text \<open>
  The task: waiting for the stream, or about to notify after it has replaced the state. The
  waiter runs \<^verbatim>\<open>wait\<close>, \<^verbatim>\<open>wait_unavailable\<close> or \<^verbatim>\<open>wait_available\<close>: it subscribes, then
  checks the state and waits for a notification later than the last it has seen, until the
  state is as wanted. \<open>dw_version\<close> counts the notifications.
\<close>

datatype task_state = Following | Notifying | Ended
datatype wait_state = NotSubscribed | Checking nat | Sleeping nat | Woken

record device_wait =
  dw_device :: ProtoDevice
  dw_updates :: "(status, ProtoDevice) result list"
  dw_version :: nat
  dw_task :: task_state
  dw_waiter :: wait_state

definition wait_init :: "ProtoDevice \<Rightarrow> (status, ProtoDevice) result list \<Rightarrow> device_wait" where
  "wait_init d updates =
     \<lparr>dw_device = d, dw_updates = updates, dw_version = 0, dw_task = Following, dw_waiter = NotSubscribed\<rparr>"

inductive wait_step :: "(ProtoDevice \<Rightarrow> bool) \<Rightarrow> device_wait \<Rightarrow> device_wait \<Rightarrow> bool" for wanted where
  update: "dw_task s = Following \<Longrightarrow> dw_updates s = Ok d # rest \<Longrightarrow>
    wait_step wanted s (s\<lparr>dw_device := d, dw_updates := rest, dw_task := Notifying\<rparr>)"
| failed: "dw_task s = Following \<Longrightarrow> dw_updates s = Err e # rest \<Longrightarrow>
    wait_step wanted s (s\<lparr>dw_task := Ended\<rparr>)"
| finished: "dw_task s = Following \<Longrightarrow> dw_updates s = [] \<Longrightarrow> wait_step wanted s (s\<lparr>dw_task := Ended\<rparr>)"
| notify: "dw_task s = Notifying \<Longrightarrow>
    wait_step wanted s (s\<lparr>dw_version := Suc (dw_version s), dw_task := Following\<rparr>)"
| subscribe: "dw_waiter s = NotSubscribed \<Longrightarrow> wait_step wanted s (s\<lparr>dw_waiter := Checking (dw_version s)\<rparr>)"
| found: "dw_waiter s = Checking v \<Longrightarrow> wanted (dw_device s) \<Longrightarrow> wait_step wanted s (s\<lparr>dw_waiter := Woken\<rparr>)"
| sleep: "dw_waiter s = Checking v \<Longrightarrow> \<not> wanted (dw_device s) \<Longrightarrow>
    wait_step wanted s (s\<lparr>dw_waiter := Sleeping v\<rparr>)"
| wake: "dw_waiter s = Sleeping v \<Longrightarrow> v \<noteq> dw_version s \<Longrightarrow>
    wait_step wanted s (s\<lparr>dw_waiter := Checking (dw_version s)\<rparr>)"

inductive wait_reachable :: "(ProtoDevice \<Rightarrow> bool) \<Rightarrow> device_wait \<Rightarrow> device_wait \<Rightarrow> bool" for wanted s0 where
  start: "wait_reachable wanted s0 s0"
| next_step: "wait_reachable wanted s0 s \<Longrightarrow> wait_step wanted s s' \<Longrightarrow> wait_reachable wanted s0 s'"

inductive_cases wait_stepE: "wait_step wanted s s'"

definition stuck :: "(ProtoDevice \<Rightarrow> bool) \<Rightarrow> device_wait \<Rightarrow> bool" where
  "stuck wanted s \<longleftrightarrow> (\<forall>s'. \<not> wait_step wanted s s')"

subsection \<open>No wake-up is lost, and every wait ends\<close>

text \<open>The state the stream ends with: its states up to the first error.\<close>

fun final_device :: "ProtoDevice \<Rightarrow> (status, ProtoDevice) result list \<Rightarrow> ProtoDevice" where
  "final_device d [] = d"
| "final_device d (Ok d' # rest) = final_device d' rest"
| "final_device d (Err e # rest) = d"

fun seen_by :: "wait_state \<Rightarrow> nat option" where
  "seen_by (Checking v) = Some v" | "seen_by (Sleeping v) = Some v" | "seen_by w = None"

definition wait_inv :: "(ProtoDevice \<Rightarrow> bool) \<Rightarrow> ProtoDevice \<Rightarrow> device_wait \<Rightarrow> bool" where
  "wait_inv wanted final s \<longleftrightarrow>
     (case seen_by (dw_waiter s) of None \<Rightarrow> True | Some v \<Rightarrow> v \<le> dw_version s) \<and>
     (dw_waiter s = Sleeping (dw_version s) \<longrightarrow> dw_task s \<noteq> Notifying \<longrightarrow> \<not> wanted (dw_device s)) \<and>
     (if dw_task s = Ended then dw_device s = final else final_device (dw_device s) (dw_updates s) = final)"

lemma wait_inv_step [inv_intros]:
  assumes "wait_step wanted s s'" "wait_inv wanted final s"
  shows "wait_inv wanted final s'"
  using assms by (cases rule: wait_step.cases) (auto simp: wait_inv_def split: option.splits)

lemma wait_inv_reachable:
  "wait_reachable wanted (wait_init d updates) s \<Longrightarrow> wait_inv wanted (final_device d updates) s"
proof (induction rule: wait_reachable.induct)
  case start
  then show ?case by (simp add: wait_inv_def wait_init_def)
next
  case (next_step s s')
  then show ?case by (auto intro: wait_inv_step)
qed

text \<open>A bound on the steps that are left.\<close>

fun waiter_steps :: "nat \<Rightarrow> wait_state \<Rightarrow> nat" where
  "waiter_steps version NotSubscribed = 6"
| "waiter_steps version (Checking v) = (if v = version then 1 else 3)"
| "waiter_steps version (Sleeping v) = (if v = version then 0 else 2)"
| "waiter_steps version Woken = 0"

definition steps_left :: "device_wait \<Rightarrow> nat" where
  "steps_left s =
     (case dw_task s of
        Following \<Rightarrow> 4 * length (dw_updates s) + 1
      | Notifying \<Rightarrow> 4 * length (dw_updates s) + 4
      | Ended \<Rightarrow> 0) + waiter_steps (dw_version s) (dw_waiter s)"

lemma waiter_steps_notify: "waiter_steps (Suc n) w \<le> waiter_steps n w + 2"
  by (cases w) auto

lemma steps_left_decrease: "wait_step wanted s s' \<Longrightarrow> steps_left s' < steps_left s"
proof (induction rule: wait_step.induct)
  case (notify s)
  then show ?case using waiter_steps_notify [of "dw_version s" "dw_waiter s"] by (simp add: steps_left_def)
qed (auto simp: steps_left_def split: task_state.split)

lemma wait_reachable_bound:
  "wait_reachable wanted s0 s \<Longrightarrow> steps_left s \<le> steps_left s0"
  by (induction rule: wait_reachable.induct) (auto dest: steps_left_decrease)

text \<open>Where nothing moves any more, the stream has ended and the waiter sleeps or has returned.\<close>

lemma stuck_cases:
  assumes "stuck wanted s"
  shows "dw_task s = Ended" "dw_waiter s = Woken \<or> dw_waiter s = Sleeping (dw_version s)"
proof -
  note no = assms [unfolded stuck_def, rule_format]
  show "dw_task s = Ended"
  proof (cases "dw_task s")
    case Following
    then show ?thesis
      using no update [of s] failed [of s] finished [of s]
      by (cases "dw_updates s"; cases "hd (dw_updates s)") auto
  qed (use no notify in blast)+
  show "dw_waiter s = Woken \<or> dw_waiter s = Sleeping (dw_version s)"
    using no subscribe [of s wanted] found [of s _ wanted] sleep [of s _ wanted] wake [of s _ wanted]
    by (cases "dw_waiter s"; cases "wanted (dw_device s)") auto
qed

text \<open>
  C35. Waiting for a volume or console loses no wake-up: under any interleaving of the waiter
  with the task that follows the stream, the waiter sleeps on the last notification only while
  the cached state is not the wanted one or a notification is about to be sent; every run comes
  to rest within a bound on its steps, and there the waiter has returned unless the state the
  stream ended with is not the wanted one.
\<close>

theorem device_wait_wakes:
  assumes "wait_reachable wanted (wait_init d updates) s"
  shows "(dw_waiter s = Sleeping (dw_version s) \<longrightarrow> dw_task s = Notifying \<or> \<not> wanted (dw_device s)) \<and>
    (\<forall>s'. wait_step wanted s s' \<longrightarrow> steps_left s' < steps_left s) \<and>
    (stuck wanted s \<longrightarrow> dw_waiter s = Woken \<or> \<not> wanted (final_device d updates))"
proof -
  note inv = wait_inv_reachable [OF assms]
  then have "dw_waiter s = Sleeping (dw_version s) \<longrightarrow> dw_task s = Notifying \<or> \<not> wanted (dw_device s)"
    by (auto simp: wait_inv_def)
  moreover have "dw_waiter s = Woken \<or> \<not> wanted (final_device d updates)" if "stuck wanted s"
    using stuck_cases [OF that] inv by (auto simp: wait_inv_def)
  ultimately show ?thesis using steps_left_decrease by blast
qed

definition example_device :: "u64 option \<Rightarrow> ProtoDevice" where
  "example_device i =
     \<lparr>pdev_consoles = [], pdev_volumes = [\<lparr>pvol_name = ''boot'', pvol_id = i\<rparr>], pdev_modes = [],
      pdev_current_mode = None\<rparr>"

lemma device_wait_wakes_witness:
  "\<exists>s. wait_reachable (volume_available ''boot'') (wait_init (example_device None) [Ok (example_device (Some 7))]) s \<and>
    dw_waiter s = Sleeping (dw_version s) \<and> dw_task s = Notifying \<and> steps_left s = 4"
proof -
  let ?P = "volume_available ''boot''" and ?s0 = "wait_init (example_device None) [Ok (example_device (Some 7))]"
  let ?s1 = "?s0\<lparr>dw_waiter := Checking 0\<rparr>" and ?s2 = "?s0\<lparr>dw_waiter := Sleeping 0\<rparr>"
  let ?s3 = "?s2\<lparr>dw_device := example_device (Some 7), dw_updates := [], dw_task := Notifying\<rparr>"
  have "\<not> ?P (example_device None)"
    by (simp add: volume_available_def volume_get_id_def example_device_def)
  then have "wait_step ?P ?s0 ?s1" "wait_step ?P ?s1 ?s2" "wait_step ?P ?s2 ?s3"
    using subscribe [of ?s0 ?P] sleep [of ?s1 0 ?P] update [of ?s2 "example_device (Some 7)" "[]" ?P]
    by (simp_all add: wait_init_def)
  then have r: "wait_reachable ?P ?s0 ?s3" by (meson wait_reachable.intros)
  from device_wait_wakes [OF r] have "dw_task ?s3 = Notifying \<or> \<not> ?P (dw_device ?s3)"
    by (simp add: wait_init_def)
  with r show ?thesis by (intro exI [of _ ?s3]) (simp add: wait_init_def steps_left_def)
qed

text \<open>
  A wait that sleeps when the stream has ended is never woken: a lost connection leaves the
  caller waiting.
\<close>

lemma wait_after_end:
  assumes "dw_task s = Ended" "dw_waiter s = Sleeping (dw_version s)"
  shows "stuck wanted s"
  using assms by (auto simp: stuck_def elim!: wait_step.cases)

end
