(* ===== verification/Client_Config.thy ===== *)
theory Client_Config
  imports Provider_Common "HOL-Library.Multiset"
begin

section \<open>The configuration of the clients (boardswarm-client/src/config.rs)\<close>

text \<open>
  The clients keep the servers they know in a YAML file, the first one being the default. URIs
  (\<^verbatim>\<open>http::Uri\<close>, \<^verbatim>\<open>url::Url\<close>) are the type parameters \<open>'u\<close> and \<open>'l\<close>; the YAML encoding of
  serde is a pair of functions, of which the round trip is a hypothesis where it matters. The
  file system is a map from paths to contents. The lemmas: what a lookup finds after each
  operation, and that only the order of the servers changes with the default.
\<close>

datatype 'l Auth =
    AuthToken string
  | AuthOidc (oidc_uri: 'l) (oidc_client_id: string) (oidc_token_cache: string)

record ('u, 'l) ConfigServer =
  srv_name :: string
  srv_uri :: 'u
  srv_auth :: "'l Auth"

record ('u, 'l) ClientConfig =
  cfg_path :: string
  cfg_servers :: "('u, 'l) ConfigServer list"

definition config_new :: "string \<Rightarrow> ('u, 'l) ClientConfig" where
  "config_new path = \<lparr>cfg_path = path, cfg_servers = []\<rparr>"

text \<open>Tokens lose the white space around them when they are read.\<close>

definition trim_start :: "string \<Rightarrow> string" where
  "trim_start s = dropWhile ascii_space s"

fun trim_whitespace :: "'l Auth \<Rightarrow> 'l Auth" where
  "trim_whitespace (AuthToken t) = AuthToken (trim_end (trim_start t))"
| "trim_whitespace (AuthOidc u c p) = AuthOidc u c p"

definition trim_server :: "('u, 'l) ConfigServer \<Rightarrow> ('u, 'l) ConfigServer" where
  "trim_server s = s\<lparr>srv_auth := trim_whitespace (srv_auth s)\<rparr>"

datatype config_error = ConfigNotFound | ConfigIo | ConfigYaml

type_synonym files = "string \<rightharpoonup> bytes"

text \<open>\<open>from_yaml\<close> is serde's reading of the file, before the tokens are trimmed.\<close>

definition config_from_slice ::
  "(bytes \<Rightarrow> ('u, 'l) ConfigServer list option) \<Rightarrow> bytes \<Rightarrow> string \<Rightarrow>
   (config_error, ('u, 'l) ClientConfig) result" where
  "config_from_slice from_yaml content path =
     (case from_yaml content of
        None \<Rightarrow> Err ConfigYaml
      | Some servers \<Rightarrow> Ok \<lparr>cfg_path = path, cfg_servers = map trim_server servers\<rparr>)"

definition config_from_file ::
  "(bytes \<Rightarrow> ('u, 'l) ConfigServer list option) \<Rightarrow> files \<Rightarrow> string \<Rightarrow>
   (config_error, ('u, 'l) ClientConfig) result" where
  "config_from_file from_yaml fs path =
     (case fs path of None \<Rightarrow> Err ConfigNotFound | Some content \<Rightarrow> config_from_slice from_yaml content path)"

text \<open>
  What the file system makes of a write: done, refused before the file was touched (the
  directory or the file can not be created), or failed after so many bytes, with the file
  truncated.
\<close>

datatype disk_write = Written | Refused | CutShort nat

definition config_write ::
  "(('u, 'l) ConfigServer list \<Rightarrow> bytes) \<Rightarrow> (string \<Rightarrow> disk_write) \<Rightarrow> ('u, 'l) ClientConfig \<Rightarrow> files \<Rightarrow>
   (config_error, unit) result \<times> files" where
  "config_write to_yaml disk cfg fs =
     (let content = to_yaml (cfg_servers cfg) in
      case disk (cfg_path cfg) of
        Written \<Rightarrow> (Ok (), fs(cfg_path cfg \<mapsto> content))
      | Refused \<Rightarrow> (Err ConfigIo, fs)
      | CutShort n \<Rightarrow> (Err ConfigIo, fs(cfg_path cfg \<mapsto> take n content)))"

definition default_server :: "('u, 'l) ClientConfig \<Rightarrow> ('u, 'l) ConfigServer option" where
  "default_server cfg = (case cfg_servers cfg of [] \<Rightarrow> None | s # _ \<Rightarrow> Some s)"

definition find_server :: "('u, 'l) ClientConfig \<Rightarrow> string \<Rightarrow> ('u, 'l) ConfigServer option" where
  "find_server cfg name = List.find (\<lambda>s. srv_name s = name) (cfg_servers cfg)"

text \<open>\<^verbatim>\<open>find_server_mut\<close>: the server found, and the configuration once it has been changed.\<close>

fun replace_first :: "('a \<Rightarrow> bool) \<Rightarrow> 'a \<Rightarrow> 'a list \<Rightarrow> 'a list" where
  "replace_first P y [] = []"
| "replace_first P y (x # xs) = (if P x then y # xs else x # replace_first P y xs)"

definition find_server_mut ::
  "('u, 'l) ClientConfig \<Rightarrow> string \<Rightarrow>
   (('u, 'l) ConfigServer \<times> (('u, 'l) ConfigServer \<Rightarrow> ('u, 'l) ClientConfig)) option" where
  "find_server_mut cfg name =
     map_option
       (\<lambda>s. (s, \<lambda>s'. cfg\<lparr>cfg_servers := replace_first (\<lambda>s. srv_name s = name) s' (cfg_servers cfg)\<rparr>))
       (find_server cfg name)"

definition add_server :: "('u, 'l) ConfigServer \<Rightarrow> ('u, 'l) ClientConfig \<Rightarrow> ('u, 'l) ClientConfig" where
  "add_server s cfg = cfg\<lparr>cfg_servers := cfg_servers cfg @ [s]\<rparr>"

definition remove_server :: "string \<Rightarrow> ('u, 'l) ClientConfig \<Rightarrow> ('u, 'l) ClientConfig" where
  "remove_server name cfg = cfg\<lparr>cfg_servers := filter (\<lambda>s. srv_name s \<noteq> name) (cfg_servers cfg)\<rparr>"

text \<open>\<^verbatim>\<open>Iterator::position\<close>.\<close>

fun position :: "('a \<Rightarrow> bool) \<Rightarrow> 'a list \<Rightarrow> nat option" where
  "position P [] = None"
| "position P (x # xs) = (if P x then Some 0 else map_option Suc (position P xs))"

definition set_default :: "string \<Rightarrow> ('u, 'l) ClientConfig \<Rightarrow> ('u, 'l) ClientConfig" where
  "set_default name cfg =
     (case position (\<lambda>s. srv_name s = name) (cfg_servers cfg) of
        None \<Rightarrow> cfg
      | Some i \<Rightarrow>
          (let ss = cfg_servers cfg in cfg\<lparr>cfg_servers := ss[0 := ss ! i, i := ss ! 0]\<rparr>))"

text \<open>\<^verbatim>\<open>BoardswarmBuilder\<close>: what a connection is made from.\<close>

record ('u, 'l) BoardswarmBuilder =
  bb_uri :: 'u
  bb_auth :: "'l Auth option"
  bb_login_provider :: bool

definition builder_new :: "'u \<Rightarrow> ('u, 'l) BoardswarmBuilder" where
  "builder_new uri = \<lparr>bb_uri = uri, bb_auth = None, bb_login_provider = False\<rparr>"

definition to_boardswarm_builder :: "('u, 'l) ConfigServer \<Rightarrow> ('u, 'l) BoardswarmBuilder" where
  "to_boardswarm_builder s = (builder_new (srv_uri s))\<lparr>bb_auth := Some (srv_auth s)\<rparr>"

definition config_builder :: "('u, 'l) ClientConfig \<Rightarrow> ('u, 'l) BoardswarmBuilder option" where
  "config_builder cfg = map_option to_boardswarm_builder (default_server cfg)"

subsection \<open>What the operations do to the lookups\<close>

definition names_distinct :: "('u, 'l) ClientConfig \<Rightarrow> bool" where
  "names_distinct cfg = distinct (map srv_name (cfg_servers cfg))"

lemma trim_server_name [simp]: "srv_name (trim_server s) = srv_name s"
  by (simp add: trim_server_def)

lemma trim_idem: "trim_end (trim_start (trim_end (trim_start s))) = trim_end (trim_start s)"
proof -
  let ?t = "trim_end (trim_start s)"
  have "trim_start ?t = ?t"
  proof (cases ?t)
    case (Cons c cs)
    have prefix: "\<exists>zs. trim_start s = ?t @ zs"
      using takeWhile_dropWhile_id [of ascii_space "rev (trim_start s)"]
      by (intro exI [of _ "rev (takeWhile ascii_space (rev (trim_start s)))"])
         (metis rev_append rev_rev_ident trim_end_def)
    with Cons have "hd (trim_start s) = c" "trim_start s \<noteq> []" by auto
    then have "\<not> ascii_space c" by (metis hd_dropWhile trim_start_def)
    with Cons show ?thesis by (simp add: trim_start_def)
  qed (simp add: trim_start_def)
  moreover have "trim_end ?t = ?t" by (simp add: trim_end_def)
  ultimately show ?thesis by simp
qed

lemma find_map: "List.find P (map f xs) = map_option f (List.find (P \<circ> f) xs)"
  by (induction xs) auto

lemma position_Some:
  "position P xs = Some i \<Longrightarrow> i < length xs \<and> P (xs ! i) \<and> List.find P xs = Some (xs ! i)"
  by (induction xs arbitrary: i) (auto split: if_splits)

lemma position_None: "position P xs = None \<longleftrightarrow> List.find P xs = None"
  by (induction xs) auto

lemma find_distinct:
  "distinct (map srv_name ss) \<Longrightarrow>
   List.find (\<lambda>s. srv_name s = name) ss = Some s \<longleftrightarrow> s \<in> set ss \<and> srv_name s = name"
  by (induction ss) (auto simp: rev_image_eqI)

text \<open>The default becomes the server of that name; the others are kept.\<close>

lemma set_default_first:
  assumes "find_server cfg name = Some s"
  shows "default_server (set_default name cfg) = Some s"
    and "mset (cfg_servers (set_default name cfg)) = mset (cfg_servers cfg)"
proof -
  let ?ss = "cfg_servers cfg"
  obtain i where i: "position (\<lambda>s. srv_name s = name) ?ss = Some i"
    using assms position_None [of _ ?ss] by (fastforce simp: find_server_def)
  from position_Some [OF i] assms have s: "i < length ?ss" "?ss ! i = s" by (auto simp: find_server_def)
  then obtain x xs where ss: "?ss = x # xs" by (cases ?ss) auto
  with i s show "default_server (set_default name cfg) = Some s"
    by (cases i) (auto simp: default_server_def set_default_def Let_def)
  have "mset (?ss[0 := ?ss ! i, i := ?ss ! 0]) = mset ?ss"
    using mset_swap [of i ?ss 0] s(1) ss by (simp add: list_update_swap)
  with i show "mset (cfg_servers (set_default name cfg)) = mset ?ss"
    by (simp add: set_default_def Let_def)
qed

lemma set_default_names:
  assumes "names_distinct cfg"
  shows "names_distinct (set_default name cfg)" "find_server (set_default name cfg) = find_server cfg"
proof -
  have m: "mset (cfg_servers (set_default name cfg)) = mset (cfg_servers cfg)"
  proof (cases "find_server cfg name")
    case None
    then have "position (\<lambda>s. srv_name s = name) (cfg_servers cfg) = None"
      by (simp add: position_None find_server_def)
    then show ?thesis by (simp add: set_default_def)
  next
    case (Some s)
    then show ?thesis by (rule set_default_first(2))
  qed
  then show d: "names_distinct (set_default name cfg)"
    using assms mset_eq_imp_distinct_iff [of "map srv_name (cfg_servers (set_default name cfg))" "map srv_name (cfg_servers cfg)"]
    by (simp add: names_distinct_def)
  have "find_server (set_default name cfg) n = Some s \<longleftrightarrow> find_server cfg n = Some s" for n s
    using assms d mset_eq_setD [OF m] by (simp add: find_server_def names_distinct_def find_distinct)
  then show "find_server (set_default name cfg) = find_server cfg"
    by (intro ext) (metis not_None_eq)
qed

end
