(* ===== verification/Oidc.thy ===== *)
theory Oidc
  imports Client_Config
begin

section \<open>Tokens of the client (boardswarm-client/src/oidc.rs, authenticator.rs)\<close>

text \<open>
  Every request of the client carries the token of its \<^verbatim>\<open>Authenticator\<close>: none, a fixed one,
  or one of an OIDC client, which keeps a token in memory and in a cache file, refreshes it
  when it has expired and logs in when that fails. The HTTP exchanges (oauth2, reqwest), the
  clock and the cache file are the record \<open>oidc_lib\<close> over a world \<open>'w\<close>. A time is in nanoseconds
  since the epoch. The lemmas: a token that is handed out was valid or has just been issued, what
  the cache file keeps, and what a request carries.
\<close>

subsection \<open>The token and its file\<close>

record OidcToken =
  tk_refresh :: "string option"
  tk_expires :: "nat option"
  tk_access :: string

text \<open>
  The document in the cache file: \<^verbatim>\<open>since_epoch_se\<close> writes whole seconds or null, and
  \<^verbatim>\<open>since_epoch_de\<close> reads a number.
\<close>

record token_doc =
  td_refresh :: "string option"
  td_expires :: "nat option"
  td_access :: string

definition token_to_doc :: "OidcToken \<Rightarrow> token_doc" where
  "token_to_doc t =
     \<lparr>td_refresh = tk_refresh t, td_expires = map_option (\<lambda>ns. ns div 10 ^ 9) (tk_expires t),
      td_access = tk_access t\<rparr>"

definition token_from_doc :: "token_doc \<Rightarrow> OidcToken option" where
  "token_from_doc d =
     (case td_expires d of
        None \<Rightarrow> None
      | Some secs \<Rightarrow>
          Some \<lparr>tk_refresh = td_refresh d, tk_expires = Some (secs * 10 ^ 9), tk_access = td_access d\<rparr>)"

subsection \<open>The OIDC client\<close>

record TokenResponse =
  tr_access :: string
  tr_refresh :: "string option"
  tr_expires_in :: "nat option"

datatype refresh_reply = Refreshed TokenResponse | InvalidGrant | ServerError | RefreshFailed

text \<open>
  \<open>ol_discover\<close> is the discovery with the endpoints it names, \<open>ol_device_code\<close> the start of a
  device login, \<open>ol_get_token\<close> its end.
\<close>

record 'w oidc_lib =
  ol_discover :: "'w \<Rightarrow> bool \<times> 'w"
  ol_device_code :: "'w \<Rightarrow> bool \<times> 'w"
  ol_get_token :: "'w \<Rightarrow> TokenResponse option \<times> 'w"
  ol_refresh :: "string \<Rightarrow> 'w \<Rightarrow> refresh_reply \<times> 'w"
  ol_now :: "'w \<Rightarrow> nat"
  ol_read_cache :: "string \<Rightarrow> 'w \<Rightarrow> token_doc option"
  ol_write_cache :: "string \<Rightarrow> token_doc \<Rightarrow> 'w \<Rightarrow> 'w"

datatype LoginProvider = NoAuth | StdoutAuth

record 'l OidcClient =
  oc_url :: 'l
  oc_client_id :: string
  oc_login_provider :: LoginProvider
  oc_discovered :: bool
  oc_token :: "OidcToken option"
  oc_token_cache :: "string option"

text \<open>\<^verbatim>\<open>OidcClientBuilder\<close>: without a login provider every login is aborted.\<close>

definition oidc_build :: "'l \<Rightarrow> string \<Rightarrow> LoginProvider option \<Rightarrow> string option \<Rightarrow> 'l OidcClient" where
  "oidc_build url client_id login_provider token_cache =
     \<lparr>oc_url = url, oc_client_id = client_id,
      oc_login_provider = (case login_provider of Some p \<Rightarrow> p | None \<Rightarrow> NoAuth),
      oc_discovered = False, oc_token = None, oc_token_cache = token_cache\<rparr>"

datatype oidc_error = LoginAborted | LoginResponse | DeviceCode | NoAccessToken

definition login :: "'w oidc_lib \<Rightarrow> LoginProvider \<Rightarrow> 'w \<Rightarrow> (oidc_error, TokenResponse) result \<times> 'w" where
  "login lib provider w =
     (case provider of
        NoAuth \<Rightarrow> (Err LoginAborted, w)
      | StdoutAuth \<Rightarrow>
          (case ol_get_token lib w of
             (None, w1) \<Rightarrow> (Err LoginResponse, w1)
           | (Some r, w1) \<Rightarrow> (Ok r, w1)))"

text \<open>The OAuth client is made once; a discovery that fails panics.\<close>

definition oidc_client :: "'w oidc_lib \<Rightarrow> 'l OidcClient \<times> 'w \<Rightarrow> unit outcome \<times> 'l OidcClient \<times> 'w" where
  "oidc_client lib s =
     (case s of (c, w) \<Rightarrow>
        if oc_discovered c then (Done (), c, w)
        else (case ol_discover lib w of
          (False, w1) \<Rightarrow> (Panicked, c, w1)
        | (True, w1) \<Rightarrow> (Done (), c\<lparr>oc_discovered := True\<rparr>, w1)))"

definition update_token :: "'w oidc_lib \<Rightarrow> TokenResponse \<Rightarrow> 'l OidcClient \<times> 'w \<Rightarrow> 'l OidcClient \<times> 'w" where
  "update_token lib r s =
     (case s of (c, w) \<Rightarrow>
        (let expires = map_option (\<lambda>d. ol_now lib w + d) (tr_expires_in r);
             token = \<lparr>tk_refresh = (case tr_refresh r of
                   Some x \<Rightarrow> Some x
                 | None \<Rightarrow> Option.bind (oc_token c) tk_refresh),
               tk_expires = expires, tk_access = tr_access r\<rparr>;
             w1 = (case oc_token_cache c of
                 Some cache \<Rightarrow> ol_write_cache lib cache (token_to_doc token) w
               | None \<Rightarrow> w)
         in (c\<lparr>oc_token := Some token\<rparr>, w1)))"

definition oidc_auth ::
  "'w oidc_lib \<Rightarrow> 'l OidcClient \<times> 'w \<Rightarrow> (oidc_error, unit) result outcome \<times> 'l OidcClient \<times> 'w" where
  "oidc_auth lib s =
     (case oidc_client lib s of
        (Panicked, s1) \<Rightarrow> (Panicked, s1)
      | (Done _, c, w) \<Rightarrow>
          (case ol_device_code lib w of
             (False, w1) \<Rightarrow> (Done (Err DeviceCode), c, w1)
           | (True, w1) \<Rightarrow>
               (case login lib (oc_login_provider c) w1 of
                  (Err e, w2) \<Rightarrow> (Done (Err e), c, w2)
                | (Ok r, w2) \<Rightarrow> (Done (Ok ()), update_token lib r (c, w2)))))"

definition oidc_refresh ::
  "'w oidc_lib \<Rightarrow> 'l OidcClient \<times> 'w \<Rightarrow> (oidc_error, unit) result outcome \<times> 'l OidcClient \<times> 'w" where
  "oidc_refresh lib s =
     (case oidc_client lib s of
        (Panicked, s1) \<Rightarrow> (Panicked, s1)
      | (Done _, c, w) \<Rightarrow>
          (case Option.bind (oc_token c) tk_refresh of
             None \<Rightarrow> oidc_auth lib (c, w)
           | Some refresh \<Rightarrow>
               (case ol_refresh lib refresh w of
                  (Refreshed r, w1) \<Rightarrow> (Done (Ok ()), update_token lib r (c, w1))
                | (_, w1) \<Rightarrow> oidc_auth lib (c, w1))))"

text \<open>The token in memory, or else in the cache file.\<close>

definition with_cached :: "'w oidc_lib \<Rightarrow> 'l OidcClient \<Rightarrow> 'w \<Rightarrow> 'l OidcClient" where
  "with_cached lib c w =
     (case (oc_token c, oc_token_cache c) of
        (None, Some cache) \<Rightarrow> c\<lparr>oc_token := Option.bind (ol_read_cache lib cache w) token_from_doc\<rparr>
      | _ \<Rightarrow> c)"

definition access_token ::
  "'w oidc_lib \<Rightarrow> 'l OidcClient \<times> 'w \<Rightarrow> (oidc_error, string) result outcome \<times> 'l OidcClient \<times> 'w" where
  "access_token lib s =
     (case s of (c0, w) \<Rightarrow>
        (let c = with_cached lib c0 w in
         case
           (case oc_token c of
              Some token \<Rightarrow>
                (case tk_expires token of
                   Some expires \<Rightarrow>
                     if expires < ol_now lib w then oidc_refresh lib (c, w) else (Done (Ok ()), c, w)
                 | None \<Rightarrow> (Done (Ok ()), c, w))
            | None \<Rightarrow> oidc_auth lib (c, w)) of
           (Panicked, s1) \<Rightarrow> (Panicked, s1)
         | (Done (Err e), s1) \<Rightarrow> (Done (Err e), s1)
         | (Done (Ok _), c1, w1) \<Rightarrow>
             (case oc_token c1 of
                Some token \<Rightarrow> (Done (Ok (tk_access token)), c1, w1)
              | None \<Rightarrow> (Done (Err NoAccessToken), c1, w1))))"

subsection \<open>authenticator.rs\<close>

datatype 'l Authenticator = AuthenticatorNone | AuthenticatorToken string | AuthenticatorOidc "'l OidcClient"

definition authenticator_token ::
  "'w oidc_lib \<Rightarrow> 'l Authenticator \<times> 'w \<Rightarrow> string option outcome \<times> 'l Authenticator \<times> 'w" where
  "authenticator_token lib s =
     (case s of
        (AuthenticatorNone, w) \<Rightarrow> (Done None, s)
      | (AuthenticatorToken t, w) \<Rightarrow> (Done (Some t), s)
      | (AuthenticatorOidc c, w) \<Rightarrow>
          (case access_token lib (c, w) of
             (Panicked, c1, w1) \<Rightarrow> (Panicked, AuthenticatorOidc c1, w1)
           | (Done (Ok t), c1, w1) \<Rightarrow> (Done (Some t), AuthenticatorOidc c1, w1)
           | (Done (Err e), c1, w1) \<Rightarrow> (Done None, AuthenticatorOidc c1, w1)))"

text \<open>
  A header value: visible ASCII, spaces and tabs, and bytes from 128 on; anything else cannot
  be parsed, and the unwrap panics. The headers of the request are a map.
\<close>

definition header_value :: "string \<Rightarrow> bool" where
  "header_value s = list_all (\<lambda>c. let n = (of_char c :: nat) in n = 9 \<or> 32 \<le> n \<and> n \<noteq> 127) s"

definition authenticated_call ::
  "'w oidc_lib \<Rightarrow> (string \<rightharpoonup> string) \<Rightarrow> 'l Authenticator \<times> 'w \<Rightarrow>
   (string \<rightharpoonup> string) outcome \<times> 'l Authenticator \<times> 'w" where
  "authenticated_call lib headers s =
     (case authenticator_token lib s of
        (Panicked, s1) \<Rightarrow> (Panicked, s1)
      | (Done None, s1) \<Rightarrow> (Done headers, s1)
      | (Done (Some t), s1) \<Rightarrow>
          (let v = ''Bearer '' @ t in
           if header_value v then (Done (headers(''authorization'' \<mapsto> v)), s1) else (Panicked, s1)))"

text \<open>
  The authenticator \<^verbatim>\<open>BoardswarmBuilder::connect\<close> puts before the channel. The provider the
  command line sets is \<^verbatim>\<open>StdoutAuth\<close>.
\<close>

definition builder_authenticator :: "('u, 'l) BoardswarmBuilder \<Rightarrow> 'l Authenticator" where
  "builder_authenticator b =
     (case bb_auth b of
        Some (AuthToken t) \<Rightarrow> AuthenticatorToken t
      | Some (AuthOidc uri client_id token_cache) \<Rightarrow>
          AuthenticatorOidc (oidc_build uri client_id
            (if bb_login_provider b then Some StdoutAuth else None) (Some token_cache))
      | None \<Rightarrow> AuthenticatorNone)"

subsection \<open>The tokens that are handed out\<close>

definition issued :: "'w oidc_lib \<Rightarrow> TokenResponse \<Rightarrow> bool" where
  "issued lib r \<longleftrightarrow>
     (\<exists>w w1. ol_get_token lib w = (Some r, w1)) \<or>
     (\<exists>refresh w w1. ol_refresh lib refresh w = (Refreshed r, w1))"

definition unexpired :: "'w oidc_lib \<Rightarrow> OidcToken \<Rightarrow> 'w \<Rightarrow> bool" where
  "unexpired lib t w \<longleftrightarrow> (case tk_expires t of None \<Rightarrow> True | Some e \<Rightarrow> ol_now lib w \<le> e)"

definition holds_issued :: "'w oidc_lib \<Rightarrow> 'l OidcClient \<Rightarrow> bool" where
  "holds_issued lib c \<longleftrightarrow> (\<exists>t r. oc_token c = Some t \<and> issued lib r \<and> tk_access t = tr_access r)"

lemma update_token_issued:
  "issued lib r \<Longrightarrow> update_token lib r s = (c', w') \<Longrightarrow> holds_issued lib c'"
  by (auto simp: update_token_def holds_issued_def Let_def split: prod.splits)

lemma oidc_auth_issued:
  assumes "oidc_auth lib s = (Done (Ok ()), c', w')"
  shows "holds_issued lib c'"
proof -
  from assms obtain c w r w1 where l: "login lib (oc_login_provider c) w = (Ok r, w1)"
    and u: "update_token lib r (c, w1) = (c', w')"
    by (auto simp: oidc_auth_def split: prod.splits outcome.splits bool.splits sum.splits)
  from l have "issued lib r"
    by (auto simp: login_def issued_def split: LoginProvider.splits prod.splits option.splits)
  from update_token_issued [OF this u] show ?thesis .
qed

lemma oidc_refresh_issued:
  assumes "oidc_refresh lib s = (Done (Ok ()), c', w')"
  shows "holds_issued lib c'"
proof -
  obtain c w where "oidc_client lib s = (Done (), c, w)"
    using assms by (auto simp: oidc_refresh_def split: prod.splits outcome.splits)
  with assms consider (auth) w1 where "oidc_auth lib (c, w1) = (Done (Ok ()), c', w')"
    | (refreshed) x r w1 where "ol_refresh lib x w = (Refreshed r, w1)" "update_token lib r (c, w1) = (c', w')"
    by (auto simp: oidc_refresh_def split: option.splits prod.splits refresh_reply.splits)
  then show ?thesis
  proof cases
    case auth
    then show ?thesis by (rule oidc_auth_issued)
  next
    case refreshed
    then have "issued lib r" by (auto simp: issued_def)
    from update_token_issued [OF this refreshed(2)] show ?thesis .
  qed
qed

lemma access_token_kept:
  "oc_token c = Some t \<Longrightarrow> unexpired lib t w \<Longrightarrow> access_token lib (c, w) = (Done (Ok (tk_access t)), c, w)"
  by (auto simp: access_token_def with_cached_def unexpired_def Let_def split: option.splits)

text \<open>
  C34. A token that is handed out is valid as far as the client can know: it is the one held
  in memory or in the cache file and has not expired, and then nothing was exchanged, or the
  OIDC server issued it in answer to a login or a refresh. And until it expires, later requests
  carry the same token without any exchange.
\<close>

theorem access_token_valid:
  assumes "access_token lib (c, w) = (Done (Ok tok), c', w')"
  shows "\<exists>t. oc_token c' = Some t \<and> tk_access t = tok \<and>
    (oc_token (with_cached lib c w) = Some t \<and> unexpired lib t w \<and> w' = w \<or>
     (\<exists>r. issued lib r \<and> tr_access r = tok)) \<and>
    (\<forall>w2. unexpired lib t w2 \<longrightarrow> access_token lib (c', w2) = (Done (Ok tok), c', w2))"
proof -
  let ?c = "with_cached lib c w"
  obtain t where t: "oc_token c' = Some t" "tk_access t = tok"
    using assms by (auto simp: access_token_def Let_def split: outcome.splits sum.splits prod.splits option.splits)
  have "oc_token ?c = Some t \<and> unexpired lib t w \<and> w' = w \<or> holds_issued lib c'"
  proof (cases "oc_token ?c")
    case None
    with assms have "oidc_auth lib (?c, w) = (Done (Ok ()), c', w')"
      by (auto simp: access_token_def Let_def split: outcome.splits sum.splits prod.splits option.splits)
    from oidc_auth_issued [OF this] show ?thesis ..
  next
    case (Some u)
    show ?thesis
    proof (cases "unexpired lib u w")
      case True
      with Some assms t show ?thesis
        by (auto simp: access_token_def unexpired_def Let_def split: option.splits if_splits)
    next
      case False
      with Some assms have "oidc_refresh lib (?c, w) = (Done (Ok ()), c', w')"
        by (auto simp: access_token_def unexpired_def Let_def
            split: outcome.splits sum.splits prod.splits option.splits if_splits)
      from oidc_refresh_issued [OF this] show ?thesis ..
    qed
  qed
  then have "oc_token ?c = Some t \<and> unexpired lib t w \<and> w' = w \<or> (\<exists>r. issued lib r \<and> tr_access r = tok)"
    using t by (auto simp: holds_issued_def)
  with t access_token_kept [of c' t lib] show ?thesis by blast
qed

text \<open>
  C36. The cache file carries a token over to the next run: a client that has just obtained a
  token with a life time hands the same token to a new client with that cache, without an
  exchange, up to the whole second before it expires. A token without a life time is written
  as well, but cannot be read back: the new client logs in again.
\<close>

theorem token_cache_next_run:
  assumes "\<And>p d w. ol_read_cache lib p (ol_write_cache lib p d w) = Some d"
    and "oc_token_cache c = Some p"
    and "update_token lib r (c, w) = (c1, w1)"
  shows "case tr_expires_in r of
      Some d \<Rightarrow>
        ol_now lib w1 \<le> (ol_now lib w + d) div 10 ^ 9 * 10 ^ 9 \<longrightarrow>
        (\<exists>c2. access_token lib (oidc_build url client_id provider (Some p), w1) =
          (Done (Ok (tr_access r)), c2, w1))
    | None \<Rightarrow>
        with_cached lib (oidc_build url client_id provider (Some p)) w1 = oidc_build url client_id provider (Some p) \<and>
        access_token lib (oidc_build url client_id provider (Some p), w1) =
        (case oidc_auth lib (oidc_build url client_id provider (Some p), w1) of
           (Panicked, s) \<Rightarrow> (Panicked, s)
         | (Done (Err e), s) \<Rightarrow> (Done (Err e), s)
         | (Done (Ok _), c2, w2) \<Rightarrow>
             (case oc_token c2 of
                Some t \<Rightarrow> (Done (Ok (tk_access t)), c2, w2)
              | None \<Rightarrow> (Done (Err NoAccessToken), c2, w2)))"
proof -
  let ?new = "oidc_build url client_id provider (Some p)"
  let ?doc = "\<lparr>td_refresh = (case tr_refresh r of Some x \<Rightarrow> Some x | None \<Rightarrow> Option.bind (oc_token c) tk_refresh),
    td_expires = map_option (\<lambda>d. (ol_now lib w + d) div 10 ^ 9) (tr_expires_in r), td_access = tr_access r\<rparr>"
  from assms(2,3) have "w1 = ol_write_cache lib p ?doc w"
    by (auto simp: update_token_def token_to_doc_def Let_def option.map_comp comp_def split: option.splits)
  with assms(1) have cache: "ol_read_cache lib p w1 = Some ?doc" by simp
  show ?thesis
  proof (cases "tr_expires_in r")
    case None
    with cache have "with_cached lib ?new w1 = ?new"
      by (simp add: with_cached_def oidc_build_def token_from_doc_def)
    with None show ?thesis by (simp add: access_token_def Let_def) (simp add: oidc_build_def)
  next
    case (Some d)
    with cache show ?thesis
      by (simp add: access_token_def with_cached_def oidc_build_def token_from_doc_def Let_def)
  qed
qed

subsection \<open>Examples and the header of a request\<close>

text \<open>A server that issues one token for an hour; the world is the time and the cache files.\<close>

definition example_lib :: "(nat \<times> (string \<rightharpoonup> token_doc)) oidc_lib" where
  "example_lib =
     \<lparr>ol_discover = (\<lambda>w. (True, w)), ol_device_code = (\<lambda>w. (True, w)),
      ol_get_token = (\<lambda>w. (Some \<lparr>tr_access = ''abc'', tr_refresh = None, tr_expires_in = Some (3600 * 10 ^ 9)\<rparr>, w)),
      ol_refresh = (\<lambda>x w. (InvalidGrant, w)), ol_now = fst,
      ol_read_cache = (\<lambda>p w. snd w p), ol_write_cache = (\<lambda>p d w. (fst w, (snd w)(p \<mapsto> d)))\<rparr>"

lemma access_token_valid_witness:
  "\<exists>c' w'. access_token example_lib (oidc_build () ''id'' (Some StdoutAuth) (Some ''cache''), 5, Map.empty) =
      (Done (Ok ''abc''), c', w') \<and>
    access_token example_lib (c', 7, Map.empty) = (Done (Ok ''abc''), c', 7, Map.empty)"
proof -
  let ?c = "oidc_build () ''id'' (Some StdoutAuth) (Some ''cache'')"
  have run: "access_token example_lib (?c, 5, Map.empty) =
      (Done (Ok ''abc''), (?c\<lparr>oc_discovered := True, oc_token := Some \<lparr>tk_refresh = None,
         tk_expires = Some (5 + 3600 * 10 ^ 9), tk_access = ''abc''\<rparr>\<rparr>,
       5, [''cache'' \<mapsto> \<lparr>td_refresh = None, td_expires = Some (3600), td_access = ''abc''\<rparr>]))"
    by (simp add: access_token_def with_cached_def oidc_build_def oidc_auth_def oidc_client_def login_def
        update_token_def token_to_doc_def example_lib_def Let_def)
  from access_token_valid [OF run]
  have "access_token example_lib (?c\<lparr>oc_discovered := True, oc_token := Some \<lparr>tk_refresh = None,
      tk_expires = Some (5 + 3600 * 10 ^ 9), tk_access = ''abc''\<rparr>\<rparr>, 7, Map.empty) =
    (Done (Ok ''abc''), ?c\<lparr>oc_discovered := True, oc_token := Some \<lparr>tk_refresh = None,
      tk_expires = Some (5 + 3600 * 10 ^ 9), tk_access = ''abc''\<rparr>\<rparr>, 7, Map.empty)"
    by (simp add: unexpired_def example_lib_def)
  with run show ?thesis by blast
qed

lemma token_cache_next_run_witness:
  "\<exists>c1 w1 c2. update_token example_lib \<lparr>tr_access = ''abc'', tr_refresh = None, tr_expires_in = Some (10 ^ 10)\<rparr>
      (oidc_build () ''id'' None (Some ''cache''), 5, Map.empty) = (c1, w1) \<and>
    access_token example_lib (oidc_build () ''id'' None (Some ''cache''), w1) = (Done (Ok ''abc''), c2, w1)"
proof -
  let ?c = "oidc_build () ''id'' None (Some ''cache'')"
  let ?r = "\<lparr>tr_access = ''abc'', tr_refresh = None, tr_expires_in = Some (10 ^ 10)\<rparr>"
  obtain c1 w1 where u: "update_token example_lib ?r (?c, 5, Map.empty) = (c1, w1)"
    by (metis prod.collapse)
  have law: "ol_read_cache example_lib p (ol_write_cache example_lib p d w) = Some d" for p d w
    by (simp add: example_lib_def)
  have cache: "oc_token_cache ?c = Some ''cache''" by (simp add: oidc_build_def)
  from u have "fst w1 = 5" by (auto simp: update_token_def example_lib_def oidc_build_def Let_def)
  with token_cache_next_run [OF law cache u, of "()" "''id''" None] u show ?thesis
    by (auto simp: example_lib_def)
qed

text \<open>
  A request carries a fixed token as a bearer; the login of an OIDC client that fails sends it
  without one, and a token that is no header value panics.
\<close>

lemma static_token_sent:
  "header_value t \<Longrightarrow> authenticated_call lib headers (AuthenticatorToken t, w) =
   (Done (headers(''authorization'' \<mapsto> ''Bearer '' @ t)), AuthenticatorToken t, w)"
  by (simp add: authenticated_call_def authenticator_token_def header_value_def)

lemma failed_login_sent_without:
  "access_token lib (c, w) = (Done (Err e), c', w') \<Longrightarrow>
   authenticated_call lib headers (AuthenticatorOidc c, w) = (Done headers, AuthenticatorOidc c', w')"
  by (simp add: authenticated_call_def authenticator_token_def)

lemma token_with_newline_panics:
  "fst (authenticated_call lib headers (AuthenticatorToken [CHR 0x0A], w)) = Panicked"
  by (simp add: authenticated_call_def authenticator_token_def header_value_def)

text \<open>An OIDC server that cannot be discovered panics the request.\<close>

lemma discovery_panics:
  assumes "\<not> fst (ol_discover lib w)" "oc_token c = None" "oc_token_cache c = None" "\<not> oc_discovered c"
  shows "fst (authenticated_call lib headers (AuthenticatorOidc c, w)) = Panicked"
  using assms by (auto simp: authenticated_call_def authenticator_token_def access_token_def with_cached_def
      oidc_auth_def oidc_client_def Let_def split: prod.splits bool.splits)

end
