(* ===== verification/Cli_Image.thy ===== *)
theory Cli_Image
  imports Async_Io
begin

section \<open>Writing images (boardswarm-cli/src/main.rs)\<close>

text \<open>
  The command line writes plain files, Android sparse images and bmap images to a volume. Here:
  the search for the bmap file, and the expansion of a sparse image while it is written. The
  format itself (android_sparse_image) is the record \<open>sparse_reader\<close>; copying by a bmap is the
  bmap_parser library. The lemmas: which bmap files are tried and in which order, an image
  ends up on the volume as it expands, the command returns when the stream is ready, and what
  it does with files that are cut short or carry checksums.
\<close>

subsection \<open>The bmap file of an image\<close>

text \<open>
  \<^verbatim>\<open>Path::extension\<close> and \<^verbatim>\<open>Path::set_extension\<close> with an empty extension on a file name: the
  last dot counts, unless it is the first character.
\<close>

definition last_dot :: "string \<Rightarrow> nat option" where
  "last_dot name =
     (let after = takeWhile (\<lambda>c. c \<noteq> CHR ''.'') (rev name) in
      if length after < length name then Some (length name - length after - 1) else None)"

definition extension :: "string \<Rightarrow> string option" where
  "extension name =
     (if name = ''..'' then None
      else case last_dot name of
        None \<Rightarrow> None
      | Some i \<Rightarrow> if i = 0 then None else Some (drop (Suc i) name))"

definition drop_extension :: "string \<Rightarrow> string" where
  "drop_extension name =
     (if name = ''..'' then name
      else case last_dot name of
        None \<Rightarrow> name
      | Some i \<Rightarrow> if i = 0 then name else take i name)"

text \<open>\<open>found\<close> tells which files exist in the directory of the image.\<close>

function find_bmap :: "(string \<Rightarrow> bool) \<Rightarrow> string \<Rightarrow> string option" where
  "find_bmap found name =
     (let bmap = name @ ''.bmap'' in
      if found bmap then Some bmap
      else
        (let base = drop_extension bmap in
         if extension base = None then None
         else find_bmap found (drop_extension base)))"
  by pat_completeness auto

lemma last_dot_append:
  assumes "CHR ''.'' \<notin> set ext"
  shows "last_dot (name @ CHR ''.'' # ext) = Some (length name)"
proof -
  have "takeWhile (\<lambda>c. c \<noteq> CHR ''.'') (rev ext @ CHR ''.'' # rev name) = rev ext"
    using assms by (subst takeWhile_append2) auto
  then show ?thesis by (simp add: last_dot_def Let_def)
qed

lemma last_dot_less: "last_dot name = Some i \<Longrightarrow> i < length name"
  by (auto simp: last_dot_def Let_def split: if_splits)

lemma drop_bmap [simp]: "drop_extension (name @ ''.bmap'') = (if name = [] then ''.bmap'' else name)"
proof -
  have "last_dot (name @ ''.bmap'') = Some (length name)"
    using last_dot_append [of "''bmap''" name] by simp
  moreover have "name @ ''.bmap'' \<noteq> ''..''" by (cases name rule: rev_cases) auto
  ultimately show ?thesis by (simp add: drop_extension_def)
qed

lemma length_drop_extension:
  "extension name \<noteq> None \<Longrightarrow> length (drop_extension name) < length name"
  using last_dot_less [of name] by (auto simp: extension_def drop_extension_def split: option.splits if_splits)

lemma extension_bmap [simp]: "extension ''.bmap'' = None"
  by (simp add: extension_def last_dot_def Let_def)

termination find_bmap
  by (relation "measure (length \<circ> snd)") (auto simp: length_drop_extension split: if_splits)

declare find_bmap.simps [simp del]

text \<open>The names tried: the image's, then without one extension after the other.\<close>

function bmap_names :: "string \<Rightarrow> string list" where
  "bmap_names name =
     (name @ ''.bmap'') # (if extension name = None then [] else bmap_names (drop_extension name))"
  by pat_completeness auto
termination by (relation "measure length") (auto simp: length_drop_extension)

declare bmap_names.simps [simp del]

lemma find_bmap_first: "name \<noteq> [] \<Longrightarrow> find_bmap found name = List.find found (bmap_names name)"
proof (induction found name rule: find_bmap.induct)
  case (1 found name)
  have "drop_extension name \<noteq> []" if "extension name \<noteq> None"
    using that last_dot_less [of name] by (auto simp: extension_def drop_extension_def split: option.splits if_splits)
  with 1 show ?case
    by (subst find_bmap.simps, subst bmap_names.simps) (auto simp: Let_def)
qed

lemma bmap_names_example:
  "bmap_names ''disk.img.gz'' = [''disk.img.gz.bmap'', ''disk.img.bmap'', ''disk.bmap'']"
  by (simp add: bmap_names.simps extension_def drop_extension_def last_dot_def Let_def)

subsection \<open>Android sparse images\<close>

datatype ChunkType = ChunkRaw | ChunkFill | ChunkDontCare | ChunkCrc32

text \<open>
  The parsers of the format: the sizes of the headers, the parsed headers \<open>'h\<close> and \<open>'c\<close>, and
  what is read of them.
\<close>

record ('h, 'c) sparse_reader =
  file_header_len :: nat
  chunk_header_len :: nat
  parse_file_header :: "bytes \<Rightarrow> 'h option"
  header_chunks :: "'h \<Rightarrow> u32"
  parse_chunk_header :: "bytes \<Rightarrow> 'c option"
  chunk_type :: "'c \<Rightarrow> ChunkType"
  out_size :: "'c \<Rightarrow> 'h \<Rightarrow> nat"

datatype aimg_error = ImageOpen | UnexpectedEof | BadFileHeader | BadChunkHeader | ImageWrite io_error

text \<open>A file that is read from the front is what is left of it.\<close>

definition reader_exact :: "nat \<Rightarrow> bytes \<Rightarrow> (bytes \<times> bytes) option" where
  "reader_exact n file = (if n \<le> length file then Some (take n file, drop n file) else None)"

fun write_chunks ::
  "('h, 'c) sparse_reader \<Rightarrow> 'w async_writer \<Rightarrow> 'h \<Rightarrow> nat \<Rightarrow> bytes \<Rightarrow> 'w \<Rightarrow>
   (aimg_error, unit) result awaited \<times> 'w" where
  "write_chunks rd wr header 0 file w = (Returned (Ok ()), w)"
| "write_chunks rd wr header (Suc n) file w =
     (case reader_exact (chunk_header_len rd) file of
        None \<Rightarrow> (Returned (Err UnexpectedEof), w)
      | Some (chunk_bytes, file1) \<Rightarrow>
          (case parse_chunk_header rd chunk_bytes of
             None \<Rightarrow> (Returned (Err BadChunkHeader), w)
           | Some chunk \<Rightarrow>
               (let out = out_size rd chunk header in
                case chunk_type rd chunk of
                  ChunkRaw \<Rightarrow>
                    await_then (await_map_err ImageWrite (copy_to wr (take out file1)))
                      (\<lambda>_. write_chunks rd wr header n (drop out file1)) w
                | ChunkFill \<Rightarrow>
                    (case reader_exact 4 file1 of
                       None \<Rightarrow> (Returned (Err UnexpectedEof), w)
                     | Some (fill, file2) \<Rightarrow>
                         await_then (await_map_err ImageWrite
                             (await_each (wr_write_all wr) (replicate (out div 4) fill)))
                           (\<lambda>_. write_chunks rd wr header n file2) w)
                | ChunkDontCare \<Rightarrow>
                    await_then (await_map_err ImageWrite (wr_seek wr (SeekCurrent (of_nat out))))
                      (\<lambda>_. write_chunks rd wr header n file1) w
                | ChunkCrc32 \<Rightarrow> write_chunks rd wr header n file1 w)))"

definition write_aimg ::
  "('h, 'c) sparse_reader \<Rightarrow> 'w async_writer \<Rightarrow> bytes option \<Rightarrow> 'w \<Rightarrow>
   (aimg_error, unit) result awaited \<times> 'w" where
  "write_aimg rd wr path w =
     (case path of
        None \<Rightarrow> (Returned (Err ImageOpen), w)
      | Some file \<Rightarrow>
          (case reader_exact (file_header_len rd) file of
             None \<Rightarrow> (Returned (Err UnexpectedEof), w)
           | Some (header_bytes, file1) \<Rightarrow>
               (case parse_file_header rd header_bytes of
                  None \<Rightarrow> (Returned (Err BadFileHeader), w)
                | Some header \<Rightarrow>
                    await_then (write_chunks rd wr header (unat (header_chunks rd header)) file1)
                      (\<lambda>_. await_map_err ImageWrite (wr_shutdown wr)) w)))"

text \<open>
  What an image is: a list of parts, each with the bytes of its chunk header and its body. A
  checksum has no body here (see \<open>aimg_checksum_shifts\<close>).
\<close>

datatype aimg_part = RawPart bytes | FillPart bytes nat | SkipPart nat | CrcPart

fun part_data :: "aimg_part \<Rightarrow> bytes" where
  "part_data (RawPart d) = d"
| "part_data (FillPart f n) = concat (replicate n f)"
| "part_data p = []"

fun part_size :: "aimg_part \<Rightarrow> nat" where
  "part_size (SkipPart n) = n"
| "part_size p = length (part_data p)"

fun part_body :: "aimg_part \<Rightarrow> bytes" where
  "part_body (RawPart d) = d" | "part_body (FillPart f n) = f" | "part_body p = []"

fun part_chunk :: "('h, 'c) sparse_reader \<Rightarrow> 'h \<Rightarrow> 'c \<Rightarrow> aimg_part \<Rightarrow> bool" where
  "part_chunk rd h c (RawPart d) \<longleftrightarrow> chunk_type rd c = ChunkRaw \<and> out_size rd c h = length d"
| "part_chunk rd h c (FillPart f n) \<longleftrightarrow>
     chunk_type rd c = ChunkFill \<and> length f = 4 \<and> out_size rd c h div 4 = n"
| "part_chunk rd h c (SkipPart n) \<longleftrightarrow> chunk_type rd c = ChunkDontCare \<and> out_size rd c h = n"
| "part_chunk rd h c CrcPart \<longleftrightarrow> chunk_type rd c = ChunkCrc32"

definition part_ok :: "('h, 'c) sparse_reader \<Rightarrow> 'h \<Rightarrow> bytes \<times> aimg_part \<Rightarrow> bool" where
  "part_ok rd h x \<longleftrightarrow>
     length (fst x) = chunk_header_len rd \<and>
     (case parse_chunk_header rd (fst x) of None \<Rightarrow> False | Some c \<Rightarrow> part_chunk rd h c (snd x))"

definition parts_bytes :: "(bytes \<times> aimg_part) list \<Rightarrow> bytes" where
  "parts_bytes xs = concat (map (\<lambda>(header, part). header @ part_body part) xs)"

definition image_of :: "('h, 'c) sparse_reader \<Rightarrow> bytes \<Rightarrow> (bytes \<times> aimg_part) list \<Rightarrow> bool" where
  "image_of rd header xs \<longleftrightarrow>
     length header = file_header_len rd \<and>
     (case parse_file_header rd header of
        None \<Rightarrow> False
      | Some h \<Rightarrow> unat (header_chunks rd h) = length xs \<and> list_all (part_ok rd h) xs)"

text \<open>What the parts expand to from a position on, and how much room they take.\<close>

fun expand_parts :: "nat \<Rightarrow> aimg_part list \<Rightarrow> (nat \<rightharpoonup> u8)" where
  "expand_parts pos [] = Map.empty"
| "expand_parts pos (p # ps) = write_at pos (part_data p) ++ expand_parts (pos + part_size p) ps"

definition parts_size :: "aimg_part list \<Rightarrow> nat" where
  "parts_size ps = sum_list (map part_size ps)"

lemma reader_exact_append [simp]: "length a = n \<Longrightarrow> reader_exact n (a @ b) = Some (a, b)"
  by (simp add: reader_exact_def)

text \<open>One round of the loop on a part, whatever follows it.\<close>

definition part_step :: "'w async_writer \<Rightarrow> aimg_part \<Rightarrow> 'w \<Rightarrow> (io_error, unit) result awaited \<times> 'w" where
  "part_step wr p w =
     (case p of
        RawPart d \<Rightarrow> copy_to wr d w
      | FillPart f n \<Rightarrow> await_each (wr_write_all wr) (replicate n f) w
      | SkipPart n \<Rightarrow> await_then (wr_seek wr (SeekCurrent (of_nat n))) (\<lambda>_ w. (Returned (Ok ()), w)) w
      | CrcPart \<Rightarrow> (Returned (Ok ()), w))"

lemma write_chunks_part:
  assumes "part_ok rd h (header, part)"
  shows "write_chunks rd wr h (Suc n) (header @ part_body part @ rest) w =
    await_then (await_map_err ImageWrite (part_step wr part)) (\<lambda>_. write_chunks rd wr h n rest) w"
proof -
  obtain c where c: "parse_chunk_header rd header = Some c" "part_chunk rd h c part"
    "length header = chunk_header_len rd"
    using assms by (auto simp: part_ok_def split: option.splits)
  then show ?thesis
    by (cases part)
       (auto simp: part_step_def await_then_def await_map_err_def split: prod.splits awaited.splits sum.splits)
qed

lemma write_chunks_parts:
  "list_all (part_ok rd h) xs \<Longrightarrow>
   write_chunks rd wr h (length xs) (parts_bytes xs @ rest) w =
     await_map_err ImageWrite (await_each (part_step wr) (map snd xs)) w"
proof (induction xs arbitrary: w)
  case Nil
  then show ?case by (simp add: parts_bytes_def await_map_err_def)
next
  case (Cons x xs)
  obtain header part where x: "x = (header, part)" by force
  have "parts_bytes (x # xs) @ rest = header @ part_body part @ (parts_bytes xs @ rest)"
    by (simp add: parts_bytes_def x)
  moreover from Cons.prems x have "part_ok rd h (header, part)" "list_all (part_ok rd h) xs" by auto
  moreover from Cons.IH [OF \<open>list_all (part_ok rd h) xs\<close>]
  have "write_chunks rd wr h (length xs) (parts_bytes xs @ rest) =
      await_map_err ImageWrite (await_each (part_step wr) (map snd xs))" by (rule ext)
  ultimately have "write_chunks rd wr h (length (x # xs)) (parts_bytes (x # xs) @ rest) w =
      await_then (await_map_err ImageWrite (part_step wr part))
        (\<lambda>_. await_map_err ImageWrite (await_each (part_step wr) (map snd xs))) w"
    using write_chunks_part [of rd h header part wr "length xs" "parts_bytes xs @ rest" w]
    by (simp del: write_chunks.simps)
  also have "\<dots> = await_map_err ImageWrite (await_each (part_step wr) (map snd (x # xs))) w"
    by (auto simp: x await_then_def await_map_err_def split: prod.splits awaited.splits sum.splits)
  finally show ?case .
qed

context placing_writer
begin

lemma part_step_places:
  assumes "part_step wr p w = (Returned (Ok ()), w')" "good w"
    and "place w + part_size p < 2 ^ 64" "part_size p < 2 ^ 63"
  shows "good w' \<and> place w' = place w + part_size p \<and> content w' = content w ++ write_at (place w) (part_data p)"
proof (cases p)
  case (RawPart d)
  with assms copy_places [of d w w'] show ?thesis by (simp add: part_step_def)
next
  case (FillPart f n)
  with assms each_places [of "replicate n f" w w'] show ?thesis by (simp add: part_step_def)
next
  case (SkipPart n)
  with assms seek_moves [of n w _ w'] show ?thesis by (auto simp: part_step_def await_then_ok)
next
  case CrcPart
  with assms show ?thesis by (simp add: part_step_def)
qed

lemma parts_place:
  "await_each (part_step wr) ps w = (Returned (Ok ()), w') \<Longrightarrow> good w \<Longrightarrow>
   place w + parts_size ps < 2 ^ 64 \<Longrightarrow> list_all (\<lambda>p. part_size p < 2 ^ 63) ps \<Longrightarrow>
   good w' \<and> place w' = place w + parts_size ps \<and> content w' = content w ++ expand_parts (place w) ps"
proof (induction ps arbitrary: w)
  case Nil
  then show ?case by (simp add: parts_size_def)
next
  case (Cons p ps)
  then obtain w1 where w1: "part_step wr p w = (Returned (Ok ()), w1)"
    "await_each (part_step wr) ps w1 = (Returned (Ok ()), w')"
    by (auto simp: await_then_ok)
  from part_step_places [OF w1(1) Cons.prems(2)] Cons.prems(3,4)
  have p: "good w1" "place w1 = place w + part_size p"
    "content w1 = content w ++ write_at (place w) (part_data p)" by (auto simp: parts_size_def)
  with Cons.IH [OF w1(2)] Cons.prems(3,4) show ?case by (auto simp: parts_size_def)
qed

text \<open>An image that was written is on the volume as it expands.\<close>

lemma aimg_places:
  assumes "image_of rd header xs" "good w" "place w + parts_size (map snd xs) < 2 ^ 64"
    and "list_all (\<lambda>p. part_size p < 2 ^ 63) (map snd xs)"
    and "write_aimg rd wr (Some (header @ parts_bytes xs @ rest)) w = (Returned (Ok ()), w')"
  shows "content w' = content w ++ expand_parts (place w) (map snd xs) \<and> settled w'"
proof -
  obtain h where h: "parse_file_header rd header = Some h" "length header = file_header_len rd"
    "unat (header_chunks rd h) = length xs" "list_all (part_ok rd h) xs"
    using assms(1) by (auto simp: image_of_def split: option.splits)
  from assms(5) h obtain w1 where
    "await_each (part_step wr) (map snd xs) w = (Returned (Ok ()), w1)" "wr_shutdown wr w1 = (Returned (Ok ()), w')"
    by (auto simp: write_aimg_def await_then_ok await_map_err_ok write_chunks_parts)
  with parts_place [of "map snd xs" w w1] assms(2-4) shutdown_keeps [of w1 w'] show ?thesis by auto
qed

end

text \<open>The polls a part needs: one for each byte at most, and two for a seek or a flush.\<close>

fun part_polls :: "aimg_part \<Rightarrow> nat" where
  "part_polls (SkipPart n) = 2"
| "part_polls p = length (part_data p) + 1"

context finishing_writer
begin

lemma part_step_finishes:
  assumes "live w" "part_polls p \<le> fuel w"
  shows "\<exists>w'. part_step wr p w = (Returned (Ok ()), w') \<and> live w' \<and> fuel w \<le> fuel w' + part_polls p"
proof (cases p)
  case (RawPart d)
  with assms copy_finishes [of w d] show ?thesis by (auto simp: part_step_def)
next
  case (FillPart f n)
  with assms each_finishes [of w "replicate n f"] show ?thesis by (fastforce simp: part_step_def)
next
  case (SkipPart n)
  with assms seek_finishes [of w "SeekCurrent (of_nat n)"] show ?thesis by (fastforce simp: part_step_def await_then_def)
next
  case CrcPart
  with assms show ?thesis by (simp add: part_step_def)
qed

lemma parts_finish:
  "live w \<Longrightarrow> sum_list (map part_polls ps) \<le> fuel w \<Longrightarrow>
   \<exists>w'. await_each (part_step wr) ps w = (Returned (Ok ()), w') \<and> live w' \<and>
     fuel w \<le> fuel w' + sum_list (map part_polls ps)"
proof (induction ps arbitrary: w)
  case Nil
  then show ?case by simp
next
  case (Cons p ps)
  from part_step_finishes [OF Cons.prems(1), of p] Cons.prems(2) obtain w1 where
    w1: "part_step wr p w = (Returned (Ok ()), w1)" "live w1" "fuel w \<le> fuel w1 + part_polls p" by auto
  with Cons.prems(2) Cons.IH [of w1] show ?case by (fastforce simp: await_then_def)
qed

lemma aimg_finishes:
  assumes "image_of rd header xs" "live w" "sum_list (map part_polls (map snd xs)) + 1 \<le> fuel w"
  shows "\<exists>w'. write_aimg rd wr (Some (header @ parts_bytes xs @ rest)) w = (Returned (Ok ()), w')"
proof -
  obtain h where h: "parse_file_header rd header = Some h" "length header = file_header_len rd"
    "unat (header_chunks rd h) = length xs" "list_all (part_ok rd h) xs"
    using assms(1) by (auto simp: image_of_def split: option.splits)
  from parts_finish [OF assms(2), of "map snd xs"] assms(3) obtain w1 where
    "await_each (part_step wr) (map snd xs) w = (Returned (Ok ()), w1)" "live w1" "1 \<le> fuel w1" by auto
  with shutdown_finishes [of w1] h show ?thesis
    by (auto simp: write_aimg_def await_then_def await_map_err_def write_chunks_parts)
qed

end

subsection \<open>The properties of writing an image\<close>

lemma batch_new_fresh:
  assumes "batch_new (rw_new info) = Done bw"
  shows "batch_good (batch_discard_flush bw)" "batch_place (batch_discard_flush bw) = 0"
    "batch_content (batch_discard_flush bw) = Map.empty"
    "writable info \<Longrightarrow> seekable info \<Longrightarrow> batch_live (batch_discard_flush bw)"
  using assms
  by (auto simp: batch_new_def batch_size_def rw_new_def batch_good_def batch_place_def batch_content_def
      batch_buffer_def batch_discard_flush_def batch_live_def rw_live_def Let_def
      split: outcome.splits if_splits)

lemma aimg_content:
  assumes "image_of rd header xs" "parts_size (map snd xs) < 2 ^ 63"
    and "batch_new (rw_new info) = Done bw"
    and "write_aimg rd batch_async (Some (header @ parts_bytes xs @ rest)) (feed, batch_discard_flush bw) =
      (Returned (Ok ()), feed', bw')"
  shows "volume_content (rw_sent (bw_writer bw')) = expand_parts 0 (map snd xs) \<and> batch_buffer bw' = []"
proof -
  have "list_all (\<lambda>p. part_size p < 2 ^ 63) (map snd xs)"
    using assms(2) member_le_sum_list [of _ "map part_size (map snd xs)"]
    by (fastforce simp: parts_size_def list_all_iff)
  from batch_volume.aimg_places [OF assms(1) _ _ this, of "(feed, batch_discard_flush bw)" rest "(feed', bw')"]
    batch_new_fresh(1-3) [OF assms(3)] assms(2,4)
  show ?thesis by (auto simp: batch_content_def batch_buffer_def)
qed

text \<open>
  C33. Writing a sparse image through a new batch writer: whatever the channel and the replies
  do, an image the command reports as written is on the volume as it expands, every byte of
  it sent; and when every reservation is granted, the requests are answered and there are
  enough polls, the command does return with success on a volume that can be written and
  sought.
\<close>

theorem aimg_written:
  assumes "image_of rd header xs" "parts_size (map snd xs) < 2 ^ 63"
    and "batch_new (rw_new info) = Done bw"
    and "write_aimg rd batch_async (Some (header @ parts_bytes xs @ rest)) (feed, batch_discard_flush bw) =
      (r, feed', bw')"
  shows "(r = Returned (Ok ()) \<longrightarrow>
      volume_content (rw_sent (bw_writer bw')) = expand_parts 0 (map snd xs) \<and> batch_buffer bw' = []) \<and>
    (writable info \<and> seekable info \<and> feed_ready feed \<and>
      sum_list (map part_polls (map snd xs)) < length feed \<longrightarrow> r = Returned (Ok ()))"
proof -
  have "volume_content (rw_sent (bw_writer bw')) = expand_parts 0 (map snd xs) \<and> batch_buffer bw' = []"
    if ok: "r = Returned (Ok ())"
    by (rule aimg_content [OF assms(1-3) assms(4) [unfolded ok]])
  moreover have "r = Returned (Ok ())"
    if "writable info" "seekable info" "feed_ready feed" "sum_list (map part_polls (map snd xs)) < length feed"
    using ready_volume.aimg_finishes [OF assms(1), of "(feed, batch_discard_flush bw)" rest] batch_new_fresh(4) [OF assms(3)] assms(4) that
    by auto
  ultimately show ?thesis by blast
qed

text \<open>A format for examples: one byte of file header (the number of chunks), two of a chunk header.\<close>

definition tiny_reader :: "(u8, u8 \<times> u8) sparse_reader" where
  "tiny_reader =
     \<lparr>file_header_len = 1, chunk_header_len = 2,
      parse_file_header = (\<lambda>b. Some (b ! 0)), header_chunks = ucast,
      parse_chunk_header = (\<lambda>b. if b ! 0 < 4 then Some (b ! 0, b ! 1) else None),
      chunk_type = (\<lambda>(t, n). if t = 0 then ChunkRaw else if t = 1 then ChunkFill
        else if t = 2 then ChunkDontCare else ChunkCrc32),
      out_size = (\<lambda>(t, n) h. unat n)\<rparr>"

definition tiny_image :: "(bytes \<times> aimg_part) list" where
  "tiny_image = [([0, 2], RawPart [10, 11]), ([2, 8], SkipPart 8), ([1, 8], FillPart [1, 2, 3, 4] 2)]"

definition ready_env :: poll_env where
  "ready_env = \<lparr>env_reserve = Ready True, env_done = (\<lambda>n. Ready (Ok ())), env_read = (\<lambda>n. Pending)\<rparr>"

lemma ready_feed: "feed_ready (replicate n (ready_env, [ready_env]))"
  by (induction n) (simp_all add: feed_ready_def env_ready_def ready_env_def)

lemma replicate_two: "replicate 2 x = [x, x]"
  by (simp only: numeral_2_eq_2 replicate.simps)

lemma tiny_image_ok: "image_of tiny_reader [3] tiny_image" "parts_size (map snd tiny_image) = 18"
  by (simp_all add: image_of_def tiny_reader_def tiny_image_def part_ok_def parts_size_def replicate_two)

lemma aimg_written_witness:
  "\<exists>bw feed' bw'. batch_new (rw_new example_info) = Done bw \<and>
    write_aimg tiny_reader batch_async (Some ([3] @ parts_bytes tiny_image @ []))
      (replicate 20 (ready_env, [ready_env]), batch_discard_flush bw) = (Returned (Ok ()), feed', bw') \<and>
    volume_content (rw_sent (bw_writer bw')) = expand_parts 0 (map snd tiny_image)"
proof -
  let ?feed = "replicate 20 (ready_env, [ready_env])"
  obtain bw where bw: "batch_new (rw_new example_info) = Done bw"
    by (simp add: batch_new_def batch_size_def rw_new_def example_info_def)
  obtain r feed' bw' where run: "write_aimg tiny_reader batch_async (Some ([3] @ parts_bytes tiny_image @ []))
      (?feed, batch_discard_flush bw) = (r, feed', bw')" by (metis prod.collapse)
  have "sum_list (map part_polls (map snd tiny_image)) < length ?feed"
    by (simp add: tiny_image_def replicate_two)
  with aimg_written [OF tiny_image_ok(1) _ bw run] tiny_image_ok(2) ready_feed [of 20]
  have "r = Returned (Ok ())" "volume_content (rw_sent (bw_writer bw')) = expand_parts 0 (map snd tiny_image)"
    by (auto simp: example_info_def)
  with bw run show ?thesis by blast
qed

text \<open>
  A file that ends within the data of its last raw chunk is written as far as it goes and
  reported as a success.
\<close>

lemma aimg_cut_short_accepted:
  assumes "parse_chunk_header rd hb = Some c" "length hb = chunk_header_len rd" "chunk_type rd c = ChunkRaw"
    and "length d < out_size rd c h"
  shows "write_chunks rd wr h 1 (hb @ d) w =
    await_then (await_map_err ImageWrite (copy_to wr d)) (\<lambda>_ w. (Returned (Ok ()), w)) w"
proof -
  have "write_chunks rd wr h 0 f = (\<lambda>w. (Returned (Ok ()), w))" for f by (rule ext) simp
  with assms show ?thesis by simp
qed

text \<open>
  The four bytes of a checksum chunk are not skipped: the next chunk header is read from them.
\<close>

lemma aimg_checksum_shifts:
  assumes "parse_chunk_header rd hb = Some c" "length hb = chunk_header_len rd" "chunk_type rd c = ChunkCrc32"
    and "parse_chunk_header rd (take (chunk_header_len rd) (checksum @ rest)) = None"
    and "chunk_header_len rd \<le> length (checksum @ rest)"
  shows "write_chunks rd wr h (Suc (Suc n)) (hb @ checksum @ rest) w = (Returned (Err BadChunkHeader), w)"
  using assms by (simp add: reader_exact_def)

subsection \<open>Plain files and bmap images\<close>

text \<open>The write commands: from an offset if one is given, to the end of the file.\<close>

definition write_file ::
  "'w async_writer \<Rightarrow> u64 option \<Rightarrow> bytes \<Rightarrow> 'w \<Rightarrow> (io_error, unit) result awaited \<times> 'w" where
  "write_file wr offset file =
     await_then (case offset of
         None \<Rightarrow> (\<lambda>w. (Returned (Ok ()), w))
       | Some off \<Rightarrow> await_then (wr_seek wr (SeekStart off)) (\<lambda>_ w. (Returned (Ok ()), w)))
       (\<lambda>_. await_then (copy_to wr file) (\<lambda>_. wr_shutdown wr))"

datatype bmap_error = NoBmap | BmapOpen | BmapParse | BmapCopy io_error

text \<open>
  \<open>read_path\<close> is what a path of the directory holds, \<open>from_xml\<close> parses a bmap, and
  \<open>copy_bmap\<close> copies the mapped blocks of a source, decompressed or not, to the writer.
\<close>

definition write_bmap ::
  "(string \<Rightarrow> bytes option) \<Rightarrow> (bytes \<Rightarrow> 'm option) \<Rightarrow>
   (bool \<Rightarrow> bytes \<Rightarrow> 'm \<Rightarrow> 'w \<Rightarrow> (io_error, unit) result awaited \<times> 'w) \<Rightarrow>
   'w async_writer \<Rightarrow> string \<Rightarrow> 'w \<Rightarrow> (bmap_error, unit) result awaited \<times> 'w" where
  "write_bmap read_path from_xml copy_bmap wr path w =
     (case find_bmap (\<lambda>p. read_path p \<noteq> None) path of
        None \<Rightarrow> (Returned (Err NoBmap), w)
      | Some bmap_path \<Rightarrow>
          (case Option.bind (read_path bmap_path) from_xml of
             None \<Rightarrow> (Returned (Err BmapParse), w)
           | Some bmap \<Rightarrow>
               (case read_path path of
                  None \<Rightarrow> (Returned (Err BmapOpen), w)
                | Some file \<Rightarrow>
                    await_map_err BmapCopy
                      (await_then (copy_bmap (extension path = Some ''gz'') file bmap)
                        (\<lambda>_. wr_shutdown wr)) w)))"

context placing_writer
begin

lemma file_places:
  assumes "write_file wr offset file w = (Returned (Ok ()), w')" "good w"
    and "start = (case offset of None \<Rightarrow> place w | Some off \<Rightarrow> unat off)" "start + length file < 2 ^ 64"
  shows "content w' = content w ++ write_at start file \<and> settled w'"
proof -
  obtain w1 w2 where
    seek: "(case offset of None \<Rightarrow> w1 = w | Some off \<Rightarrow> \<exists>p. wr_seek wr (SeekStart off) w = (Returned (Ok p), w1))"
    and copy: "copy_to wr file w1 = (Returned (Ok ()), w2)" and down: "wr_shutdown wr w2 = (Returned (Ok ()), w')"
    using assms(1) by (cases offset) (auto simp: write_file_def await_then_ok)
  from seek assms(2,3) have w1: "good w1" "place w1 = start" "content w1 = content w"
    by (auto split: option.splits dest: seek_starts)
  from copy_places [OF copy w1(1)] w1 assms(4) have "good w2" "content w2 = content w ++ write_at start file"
    by auto
  with shutdown_keeps [OF down] show ?thesis by simp
qed

end

context finishing_writer
begin

lemma file_finishes:
  assumes "live w" "length file + 4 \<le> fuel w"
  shows "\<exists>w'. write_file wr offset file w = (Returned (Ok ()), w')"
proof -
  obtain w1 where w1: "live w1" "fuel w \<le> fuel w1 + 2" and
    seek: "(case offset of None \<Rightarrow> (\<lambda>w. (Returned (Ok ()), w))
       | Some off \<Rightarrow> await_then (wr_seek wr (SeekStart off)) (\<lambda>_ w. (Returned (Ok ()), w))) w = (Returned (Ok ()), w1)"
  proof (cases offset)
    case None
    with that [of w] assms(1) show ?thesis by simp
  next
    case (Some off)
    with that seek_finishes [of w "SeekStart off"] assms show ?thesis by (auto simp: await_then_def)
  qed
  with copy_finishes [of w1 "file"] assms(2) obtain w2 where
    "copy_to wr file w1 = (Returned (Ok ()), w2)" "live w2" "fuel w1 \<le> fuel w2 + length file + 1" by auto
  with shutdown_finishes [of w2] assms(2) w1(2) seek show ?thesis
    by (auto simp: write_file_def await_then_def)
qed

end

text \<open>A file the write command reports as written is on the volume from its offset on.\<close>

lemma file_written:
  assumes "batch_new (rw_new info) = Done bw"
    and "write_file batch_async offset file (feed, batch_discard_flush bw) = (Returned (Ok ()), feed', bw')"
    and "(case offset of None \<Rightarrow> 0 | Some off \<Rightarrow> unat off) + length file < 2 ^ 64"
  shows "volume_content (rw_sent (bw_writer bw')) =
    write_at (case offset of None \<Rightarrow> 0 | Some off \<Rightarrow> unat off) file"
  using batch_volume.file_places [OF assms(2), of "case offset of None \<Rightarrow> 0 | Some off \<Rightarrow> unat off"]
    batch_new_fresh [OF assms(1)] assms(3)
  by (auto simp: batch_content_def batch_buffer_def split: option.splits)

end
