(* ===== verification/Cli_Auth.thy ===== *)
theory Cli_Auth
  imports Client_Config "HOL-Library.Countable"
begin

section \<open>Servers of the command line (boardswarm-cli/src/main.rs)\<close>

text \<open>
  The \<^verbatim>\<open>auth\<close> commands edit the configuration file, and every other command picks the
  server it connects to from it. What the commands need from outside is the record
  \<open>auth_env\<close>: the YAML encoding, the parser and printer of URIs, and the OIDC login. The lemmas:
  the commands as functions on files, what a later run finds, and that names stay unique.
\<close>

record ('u, 'l) auth_env =
  ae_to_yaml :: "('u, 'l) ConfigServer list \<Rightarrow> bytes"
  ae_from_yaml :: "bytes \<Rightarrow> ('u, 'l) ConfigServer list option"
  ae_disk :: "string \<Rightarrow> disk_write"
  ae_show_uri :: "'u \<Rightarrow> string"
  ae_parse_uri :: "string \<Rightarrow> 'u option"
  ae_parse_url :: "string \<Rightarrow> 'l option"
  ae_utf8 :: "bytes \<Rightarrow> string option"
  ae_login_info :: "'u \<Rightarrow> (string \<times> string \<times> string) list option"
  ae_login :: "'l \<Rightarrow> string \<Rightarrow> string \<Rightarrow> bool"

datatype auth_error =
    AlreadyExists string | NotExisting string | NoSuchServer | InstanceRequired
  | TokenFile | TokenTooSmall | LoginFailed | NothingToLogin | ConfigFailed config_error

subsection \<open>The commands\<close>

text \<open>\<^verbatim>\<open>read_line\<close>: up to the first line end, which is kept.\<close>

definition read_line :: "bytes \<Rightarrow> bytes" where
  "read_line content =
     (let line = takeWhile (\<lambda>b. b \<noteq> 10) content
      in if length line < length content then line @ [10] else line)"

definition read_token :: "('u, 'l) auth_env \<Rightarrow> files \<Rightarrow> string \<Rightarrow> (auth_error, string) result" where
  "read_token env fs path =
     (case fs path of
        None \<Rightarrow> Err TokenFile
      | Some content \<Rightarrow>
          (let line = read_line content in
           case ae_utf8 env line of
             None \<Rightarrow> Err TokenFile
           | Some token \<Rightarrow> if length line < 16 then Err TokenTooSmall else Ok (trim_end token)))"

text \<open>\<^verbatim>\<open>Path::with_file_name\<close>, and the name of the token cache of an instance.\<close>

definition with_file_name :: "string \<Rightarrow> string \<Rightarrow> string" where
  "with_file_name path name = rev (dropWhile (\<lambda>c. c \<noteq> CHR ''/'') (rev path)) @ name"

definition token_file_name :: "string \<Rightarrow> string" where
  "token_file_name instance_name =
     map (\<lambda>c. if c = CHR ''/'' \<or> c = CHR ''.'' then CHR ''_'' else c) instance_name @ ''.token''"

definition init_auth ::
  "('u, 'l) auth_env \<Rightarrow> files \<Rightarrow> string \<Rightarrow> string \<Rightarrow> 'u \<Rightarrow> string option \<Rightarrow> string option \<Rightarrow>
   (auth_error, 'l Auth) result" where
  "init_auth env fs config_path name uri token token_file =
     (case (token, token_file) of
        (Some t, _) \<Rightarrow> Ok (AuthToken t)
      | (None, Some path) \<Rightarrow> result_bind (read_token env fs path) (\<lambda>t. Ok (AuthToken t))
      | (None, None) \<Rightarrow>
          (case ae_login_info env uri of
             None \<Rightarrow> Err LoginFailed
           | Some [] \<Rightarrow> Err NothingToLogin
           | Some ((description, url, client_id) # _) \<Rightarrow>
               (let cache = with_file_name config_path (token_file_name name) in
                case ae_parse_url env url of
                  None \<Rightarrow> Err LoginFailed
                | Some l \<Rightarrow>
                    if ae_login env l client_id cache then Ok (AuthOidc l client_id cache)
                    else Err LoginFailed)))"

definition write_back ::
  "('u, 'l) auth_env \<Rightarrow> ('u, 'l) ClientConfig \<Rightarrow> files \<Rightarrow> (auth_error, string list) result \<times> files" where
  "write_back env cfg fs =
     (case config_write (ae_to_yaml env) (ae_disk env) cfg fs of
        (Err e, fs1) \<Rightarrow> (Err (ConfigFailed e), fs1)
      | (Ok _, fs1) \<Rightarrow> (Ok [], fs1))"

definition run_auth_init ::
  "('u, 'l) auth_env \<Rightarrow> ('u, 'l) ClientConfig \<Rightarrow> string \<Rightarrow> 'u \<Rightarrow> string option \<Rightarrow> string option \<Rightarrow> files \<Rightarrow>
   (auth_error, string list) result \<times> files" where
  "run_auth_init env cfg name uri token token_file fs =
     (case find_server cfg name of
        Some s \<Rightarrow> (Err (AlreadyExists (srv_name s)), fs)
      | None \<Rightarrow>
          (case init_auth env fs (cfg_path cfg) name uri token token_file of
             Err e \<Rightarrow> (Err e, fs)
           | Ok auth \<Rightarrow>
               write_back env (add_server \<lparr>srv_name = name, srv_uri = uri, srv_auth = auth\<rparr> cfg) fs))"

definition show_server :: "('u, 'l) auth_env \<Rightarrow> ('u, 'l) ConfigServer \<Rightarrow> string" where
  "show_server env s = srv_name s @ '': '' @ ae_show_uri env (srv_uri s)"

definition run_auth_list ::
  "('u, 'l) auth_env \<Rightarrow> ('u, 'l) ClientConfig \<Rightarrow> files \<Rightarrow> (auth_error, string list) result \<times> files" where
  "run_auth_list env cfg fs = (Ok (map (show_server env) (cfg_servers cfg)), fs)"

definition run_auth_info ::
  "('u, 'l) auth_env \<Rightarrow> ('u, 'l) ClientConfig \<Rightarrow> string option \<Rightarrow> files \<Rightarrow>
   (auth_error, string list) result \<times> files" where
  "run_auth_info env cfg name fs =
     (let server = (case name of Some i \<Rightarrow> find_server cfg i | None \<Rightarrow> default_server cfg) in
      (Ok (case server of Some s \<Rightarrow> [show_server env s] | None \<Rightarrow> []), fs))"

definition run_auth_set_default ::
  "('u, 'l) auth_env \<Rightarrow> ('u, 'l) ClientConfig \<Rightarrow> string \<Rightarrow> files \<Rightarrow>
   (auth_error, string list) result \<times> files" where
  "run_auth_set_default env cfg name fs =
     (if find_server cfg name = None then (Err (NotExisting name), fs)
      else write_back env (set_default name cfg) fs)"

definition run_auth_remove ::
  "('u, 'l) auth_env \<Rightarrow> ('u, 'l) ClientConfig \<Rightarrow> string \<Rightarrow> files \<Rightarrow>
   (auth_error, string list) result \<times> files" where
  "run_auth_remove env cfg name fs =
     (if find_server cfg name = None then (Err (NotExisting name), fs)
      else write_back env (remove_server name cfg) fs)"

definition run_auth_modify ::
  "('u, 'l) auth_env \<Rightarrow> ('u, 'l) ClientConfig \<Rightarrow> string \<Rightarrow> 'u option \<Rightarrow> string option \<Rightarrow> string option \<Rightarrow>
   files \<Rightarrow> (auth_error, string list) result \<times> files" where
  "run_auth_modify env cfg name uri token token_file fs =
     (case find_server_mut cfg name of
        None \<Rightarrow> (Err NoSuchServer, fs)
      | Some (s, put) \<Rightarrow>
          (let s1 = (case uri of Some u \<Rightarrow> s\<lparr>srv_uri := u\<rparr> | None \<Rightarrow> s);
               s2 = (case token of Some t \<Rightarrow> s1\<lparr>srv_auth := AuthToken t\<rparr> | None \<Rightarrow> s1);
               s3 = (case token_file of
                   Some path \<Rightarrow> result_bind (read_token env fs path) (\<lambda>t. Ok (s2\<lparr>srv_auth := AuthToken t\<rparr>))
                 | None \<Rightarrow> Ok s2)
           in case s3 of Err e \<Rightarrow> (Err e, fs) | Ok s' \<Rightarrow> write_back env (put s') fs))"

subsection \<open>The run of a command\<close>

datatype 'u auth_command =
    AuthInit 'u "string option" "string option"
  | AuthInfo | AuthList | AuthSetDefault | AuthRemove
  | AuthModify "'u option" "string option" "string option"

definition main_config ::
  "('u, 'l) auth_env \<Rightarrow> files \<Rightarrow> string \<Rightarrow> (config_error, ('u, 'l) ClientConfig option) result" where
  "main_config env fs path =
     (case config_from_file (ae_from_yaml env) fs path of
        Ok cfg \<Rightarrow> Ok (Some cfg)
      | Err ConfigNotFound \<Rightarrow> Ok None
      | Err e \<Rightarrow> Err e)"

definition main_server ::
  "('u, 'l) ClientConfig option \<Rightarrow> string option \<Rightarrow> ('u, 'l) ConfigServer option" where
  "main_server config name =
     (case config of
        None \<Rightarrow> None
      | Some c \<Rightarrow> (case name of Some n \<Rightarrow> find_server c n | None \<Rightarrow> default_server c))"

definition main_auth ::
  "('u, 'l) auth_env \<Rightarrow> string \<Rightarrow> string option \<Rightarrow> 'u auth_command \<Rightarrow> files \<Rightarrow>
   (auth_error, string list) result \<times> files" where
  "main_auth env path name command fs =
     (case main_config env fs path of
        Err e \<Rightarrow> (Err (ConfigFailed e), fs)
      | Ok config \<Rightarrow>
          (let cfg = (case config of Some c \<Rightarrow> c | None \<Rightarrow> config_new path) in
           case (command, name) of
             (AuthInfo, _) \<Rightarrow> run_auth_info env cfg name fs
           | (AuthList, _) \<Rightarrow> run_auth_list env cfg fs
           | (_, None) \<Rightarrow> (Err InstanceRequired, fs)
           | (AuthInit uri token token_file, Some n) \<Rightarrow> run_auth_init env cfg n uri token token_file fs
           | (AuthSetDefault, Some n) \<Rightarrow> run_auth_set_default env cfg n fs
           | (AuthRemove, Some n) \<Rightarrow> run_auth_remove env cfg n fs
           | (AuthModify uri token token_file, Some n) \<Rightarrow> run_auth_modify env cfg n uri token token_file fs))"

datatype connect_error = NotUriNorConfigured string | NothingConfigured | NoConfigFile | NotInConfig string | NoDefault

text \<open>What \<^verbatim>\<open>login-info\<close> and the commands that need a connection connect to.\<close>

definition login_info_connection ::
  "('u, 'l) auth_env \<Rightarrow> ('u, 'l) ClientConfig option \<Rightarrow> string option \<Rightarrow>
   (connect_error, ('u, 'l) BoardswarmBuilder) result" where
  "login_info_connection env config name =
     (case (main_server config name, name) of
        (Some server, _) \<Rightarrow> Ok (to_boardswarm_builder server)
      | (None, Some n) \<Rightarrow>
          (case ae_parse_uri env n of
             None \<Rightarrow> Err (NotUriNorConfigured n)
           | Some uri \<Rightarrow> Ok (builder_new uri))
      | (None, None) \<Rightarrow> Err NothingConfigured)"

definition command_connection ::
  "('u, 'l) ClientConfig option \<Rightarrow> string option \<Rightarrow> (connect_error, ('u, 'l) BoardswarmBuilder) result" where
  "command_connection config name =
     (case main_server config name of
        Some server \<Rightarrow> Ok ((to_boardswarm_builder server)\<lparr>bb_login_provider := True\<rparr>)
      | None \<Rightarrow>
          (case (config, name) of
             (None, _) \<Rightarrow> Err NoConfigFile
           | (Some _, Some n) \<Rightarrow> Err (NotInConfig n)
           | (Some _, None) \<Rightarrow> Err NoDefault))"

subsection \<open>The properties of the commands\<close>

definition yaml_ok :: "('u, 'l) auth_env \<Rightarrow> bool" where
  "yaml_ok env \<longleftrightarrow> (\<forall>ss. ae_from_yaml env (ae_to_yaml env ss) = Some ss)"

lemma trim_server_idem [simp]: "trim_server (trim_server s) = trim_server s"
  by (cases "srv_auth s") (simp_all add: trim_server_def trim_idem)

lemma loaded_trimmed:
  "main_config env fs path = Ok (Some cfg) \<Longrightarrow>
   cfg_path cfg = path \<and> map trim_server (cfg_servers cfg) = cfg_servers cfg"
  by (auto simp: main_config_def config_from_file_def config_from_slice_def
      split: option.splits sum.splits config_error.splits)

lemma write_back_ok:
  assumes "write_back env cfg fs = (Ok out, fs')" "yaml_ok env"
  shows "main_config env fs' (cfg_path cfg) =
    Ok (Some (cfg\<lparr>cfg_servers := map trim_server (cfg_servers cfg)\<rparr>))"
  using assms by (auto simp: write_back_def config_write_def main_config_def config_from_file_def
      config_from_slice_def yaml_ok_def Let_def split: disk_write.splits prod.splits sum.splits)

text \<open>A write that fails leaves the file as it was, unless it was cut short.\<close>

definition writes_whole :: "('u, 'l) auth_env \<Rightarrow> bool" where
  "writes_whole env \<longleftrightarrow> (\<forall>p n. ae_disk env p \<noteq> CutShort n)"

lemma write_back_err: "write_back env cfg fs = (Err e, fs') \<Longrightarrow> writes_whole env \<Longrightarrow> fs' = fs"
  by (auto simp: write_back_def config_write_def writes_whole_def Let_def split: disk_write.splits)

text \<open>
  The default that is set is the one the next run uses: after \<^verbatim>\<open>auth set-default\<close> has
  succeeded, a command without an instance connects to the server of that name, the file holds
  the same servers, and if names are unique every name still finds its server. It succeeds only
  if there is a server of that name.
\<close>

theorem set_default_next_run:
  assumes "yaml_ok env"
    and "main_auth env path (Some name) AuthSetDefault fs = (Ok out, fs')"
  shows "\<exists>cfg cfg' s. main_config env fs path = Ok (Some cfg) \<and> find_server cfg name = Some s \<and>
    main_config env fs' path = Ok (Some cfg') \<and> mset (cfg_servers cfg') = mset (cfg_servers cfg) \<and>
    command_connection (Some cfg') None = Ok ((to_boardswarm_builder s)\<lparr>bb_login_provider := True\<rparr>) \<and>
    (names_distinct cfg \<longrightarrow> (\<forall>n. command_connection (Some cfg') (Some n) = command_connection (Some cfg) (Some n)))"
proof -
  obtain config where c: "main_config env fs path = Ok config"
    using assms(2) by (cases "main_config env fs path") (simp_all add: main_auth_def)
  let ?cfg = "case config of Some c \<Rightarrow> c | None \<Rightarrow> config_new path"
  from assms(2) c have run: "run_auth_set_default env ?cfg name fs = (Ok out, fs')" by (simp add: main_auth_def)
  then obtain s where s: "find_server ?cfg name = Some s" and
    wb: "write_back env (set_default name ?cfg) fs = (Ok out, fs')"
    by (auto simp: run_auth_set_default_def split: if_splits)
  from s obtain cfg where cfg: "config = Some cfg" by (cases config) (auto simp: find_server_def config_new_def)
  from loaded_trimmed [of env fs path cfg] c cfg
  have cp: "cfg_path cfg = path" "map trim_server (cfg_servers cfg) = cfg_servers cfg" by simp_all
  have same: "mset (cfg_servers (set_default name cfg)) = mset (cfg_servers cfg)"
    and first: "default_server (set_default name cfg) = Some s"
    using set_default_first [of cfg name s] s cfg by simp_all
  have "trim_server x = x" if "x \<in> set (cfg_servers cfg)" for x
    using cp(2) that by (metis map_idI list.map_id map_eq_conv id_apply)
  then have "map trim_server (cfg_servers (set_default name cfg)) = cfg_servers (set_default name cfg)"
    using mset_eq_setD [OF same] by (intro map_idI) simp
  moreover have "cfg_path (set_default name cfg) = path"
    using cp(1) by (simp add: set_default_def Let_def split: option.splits)
  ultimately have "main_config env fs' path = Ok (Some (set_default name cfg))"
    using write_back_ok [OF wb assms(1)] cfg by simp
  moreover have "command_connection (Some (set_default name cfg)) (Some n) = command_connection (Some cfg) (Some n)"
    if "names_distinct cfg" for n
    using set_default_names(2) [OF that, of name] by (simp add: command_connection_def main_server_def split: option.split)
  ultimately show ?thesis
    using c cfg s same first by (auto simp: command_connection_def main_server_def)
qed

text \<open>An encoding of the configuration for examples.\<close>

instance Auth :: (countable) countable
  by countable_datatype

instance ConfigServer_ext :: (countable, countable, countable) countable
proof (rule countable_classI)
  fix r s :: "('a, 'b, 'c) ConfigServer_scheme"
  assume "to_nat (srv_name r, srv_uri r, srv_auth r, ConfigServer.more r) =
    to_nat (srv_name s, srv_uri s, srv_auth s, ConfigServer.more s)"
  then show "r = s" by simp
qed

definition example_env :: "(string, string) auth_env" where
  "example_env = \<lparr>ae_to_yaml = (\<lambda>ss. replicate (to_nat ss) 0), ae_from_yaml = (\<lambda>b. Some (from_nat (length b))),
     ae_disk = (\<lambda>p. Written), ae_show_uri = (\<lambda>u. u), ae_parse_uri = Some, ae_parse_url = Some,
     ae_utf8 = (\<lambda>b. Some (map (char_of \<circ> unat) b)),
     ae_login_info = (\<lambda>u. None), ae_login = (\<lambda>u c p. False)\<rparr>"

lemma example_env_yaml: "yaml_ok example_env"
  by (simp add: yaml_ok_def example_env_def)

definition example_servers :: "(string, string) ConfigServer list" where
  "example_servers =
     [\<lparr>srv_name = ''home'', srv_uri = ''http://a'', srv_auth = AuthToken ''t''\<rparr>,
      \<lparr>srv_name = ''lab'', srv_uri = ''http://b'', srv_auth = AuthToken ''u''\<rparr>]"

lemma set_default_next_run_witness:
  "\<exists>fs out fs' cfg'. main_auth example_env ''c.yaml'' (Some ''lab'') AuthSetDefault fs = (Ok out, fs') \<and>
    main_config example_env fs' ''c.yaml'' = Ok (Some cfg') \<and>
    map_option srv_uri (main_server (Some cfg') None) = Some ''http://b''"
proof -
  let ?fs = "[''c.yaml'' \<mapsto> ae_to_yaml example_env example_servers]"
  let ?trimmed = "\<lparr>cfg_path = ''c.yaml'', cfg_servers = map trim_server example_servers\<rparr>"
  have cfg: "main_config example_env ?fs ''c.yaml'' = Ok (Some ?trimmed)"
    using example_env_yaml by (simp add: main_config_def config_from_file_def config_from_slice_def yaml_ok_def)
  have lab: "find_server ?trimmed ''lab'' = Some (trim_server (example_servers ! 1))"
    by (simp add: find_server_def example_servers_def)
  obtain out fs' where run: "main_auth example_env ''c.yaml'' (Some ''lab'') AuthSetDefault ?fs = (Ok out, fs')"
    using cfg lab by (simp add: main_auth_def run_auth_set_default_def write_back_def config_write_def example_env_def Let_def)
  from set_default_next_run [OF example_env_yaml run] cfg lab obtain cfg' where
    "main_config example_env fs' ''c.yaml'' = Ok (Some cfg')"
    "command_connection (Some cfg') None =
      Ok ((to_boardswarm_builder (trim_server (example_servers ! 1)))\<lparr>bb_login_provider := True\<rparr>)" by auto
  with run show ?thesis
    by (intro exI [of _ ?fs] exI [of _ out] exI [of _ fs'] exI [of _ cfg'])
       (auto simp: command_connection_def to_boardswarm_builder_def builder_new_def trim_server_def
         example_servers_def split: option.splits)
qed

text \<open>
  The names in the file stay unique, whatever commands are run from no configuration on, as
  long as no write of the file is cut short.
\<close>

fun auth_runs ::
  "('u, 'l) auth_env \<Rightarrow> string \<Rightarrow> (string option \<times> 'u auth_command) list \<Rightarrow> files \<Rightarrow> files" where
  "auth_runs env path [] fs = fs"
| "auth_runs env path ((name, command) # runs) fs =
     auth_runs env path runs (snd (main_auth env path name command fs))"

definition file_names_distinct :: "('u, 'l) auth_env \<Rightarrow> string \<Rightarrow> files \<Rightarrow> bool" where
  "file_names_distinct env path fs \<longleftrightarrow>
     (case main_config env fs path of Ok (Some cfg) \<Rightarrow> names_distinct cfg | _ \<Rightarrow> True)"

lemma find_server_None: "find_server cfg n = None \<longleftrightarrow> n \<notin> set (map srv_name (cfg_servers cfg))"
  by (auto simp: find_server_def find_None_iff)

lemma replace_first_names:
  "srv_name y = n \<Longrightarrow> map srv_name (replace_first (\<lambda>s. srv_name s = n) y ss) = map srv_name ss"
  by (induction ss) auto

lemma write_back_distinct:
  assumes "yaml_ok env" "cfg_path cfg = path" "names_distinct cfg" "file_names_distinct env path fs"
    and "writes_whole env"
  shows "file_names_distinct env path (snd (write_back env cfg fs))"
proof (cases "write_back env cfg fs")
  case (Pair r fs')
  show ?thesis
  proof (cases r)
    case (Inl e)
    with Pair write_back_err [of env cfg fs e fs'] assms(4,5) show ?thesis by simp
  next
    case (Inr out)
    with Pair write_back_ok [of env cfg fs out fs'] assms(1-3) show ?thesis
      by (simp add: file_names_distinct_def names_distinct_def comp_def)
  qed
qed

lemma main_auth_distinct:
  assumes "yaml_ok env" "file_names_distinct env path fs" "writes_whole env"
  shows "file_names_distinct env path (snd (main_auth env path name command fs))"
proof (cases "main_config env fs path")
  case (Inl e)
  with assms(2) show ?thesis by (simp add: main_auth_def)
next
  case (Inr config)
  let ?cfg = "case config of Some c \<Rightarrow> c | None \<Rightarrow> config_new path"
  have cfg: "names_distinct ?cfg" "cfg_path ?cfg = path"
    using assms(2) Inr loaded_trimmed [of env fs path]
    by (auto simp: file_names_distinct_def config_new_def names_distinct_def split: option.splits)
  note wb = write_back_distinct [OF assms(1) _ _ assms(2,3)]
  have removed: "names_distinct (remove_server n ?cfg)" "cfg_path (remove_server n ?cfg) = path" for n
    using cfg by (simp_all add: names_distinct_def remove_server_def distinct_map_filter)
  have def: "names_distinct (set_default n ?cfg)" "cfg_path (set_default n ?cfg) = path" for n
    using cfg set_default_names(1) [of ?cfg n]
    by (simp_all add: set_default_def Let_def split: option.splits)
  have added: "names_distinct (add_server \<lparr>srv_name = n, srv_uri = u, srv_auth = a\<rparr> ?cfg)"
    "cfg_path (add_server s ?cfg) = path" if "find_server ?cfg n = None" for n u a s
    using cfg that by (simp_all add: names_distinct_def add_server_def find_server_None)
  have put: "names_distinct (put s) \<and> cfg_path (put s) = path"
    if "find_server_mut ?cfg n = Some (t, put)" "srv_name s = srv_name t" for n t put s
    using that cfg
    by (auto simp: find_server_mut_def find_server_def find_Some_iff names_distinct_def replace_first_names)
  show ?thesis
  proof (cases name)
    case None
    with Inr assms(2) show ?thesis
      by (cases command) (simp_all add: main_auth_def run_auth_info_def run_auth_list_def)
  next
    case (Some n)
    show ?thesis
    proof (cases command)
      case (AuthInit u token token_file)
      with Inr Some assms(2) added wb show ?thesis
        by (auto simp: main_auth_def run_auth_init_def Let_def split: option.splits sum.splits)
    next
      case AuthSetDefault
      with Inr Some assms(2) def wb show ?thesis
        by (auto simp: main_auth_def run_auth_set_default_def Let_def)
    next
      case AuthRemove
      with Inr Some assms(2) removed wb show ?thesis
        by (auto simp: main_auth_def run_auth_remove_def Let_def)
    next
      case (AuthModify u token token_file)
      show ?thesis
      proof (cases "find_server_mut ?cfg n")
        case None
        with AuthModify Inr Some assms(2) show ?thesis by (simp add: main_auth_def run_auth_modify_def Let_def)
      next
        case (Some found)
        obtain t put where found: "found = (t, put)" by force
        let ?s1 = "case u of Some u \<Rightarrow> t\<lparr>srv_uri := u\<rparr> | None \<Rightarrow> t"
        let ?s2 = "case token of Some a \<Rightarrow> ?s1\<lparr>srv_auth := AuthToken a\<rparr> | None \<Rightarrow> ?s1"
        let ?s3 = "case token_file of
            Some path \<Rightarrow> result_bind (read_token env fs path) (\<lambda>a. Ok (?s2\<lparr>srv_auth := AuthToken a\<rparr>))
          | None \<Rightarrow> Ok ?s2"
        have run: "main_auth env path name command fs =
            (case ?s3 of Err e \<Rightarrow> (Err e, fs) | Ok s' \<Rightarrow> write_back env (put s') fs)"
          using AuthModify Inr \<open>name = Some n\<close> Some found
          by (simp add: main_auth_def run_auth_modify_def Let_def)
        show ?thesis
        proof (cases ?s3)
          case (Inl e)
          with run assms(2) show ?thesis by simp
        next
          case (Inr s)
          then have "srv_name s = srv_name t"
            by (auto simp: result_bind_def split: option.splits sum.splits)
          from put [OF Some [unfolded found] this] wb run Inr show ?thesis by simp
        qed
      qed
    qed (use Inr Some assms(2) in \<open>simp_all add: main_auth_def run_auth_info_def run_auth_list_def Let_def\<close>)
  qed
qed

theorem auth_names_unique:
  assumes "yaml_ok env" "fs path = None" "writes_whole env"
    and "main_config env (auth_runs env path runs fs) path = Ok (Some cfg)"
  shows "distinct (map srv_name (cfg_servers cfg))"
proof -
  have keep: "file_names_distinct env path (auth_runs env path runs gs)"
    if "file_names_distinct env path gs" for gs
    using that by (induction runs arbitrary: gs) (auto simp: main_auth_distinct [OF assms(1) _ assms(3)])
  have "file_names_distinct env path fs"
    using assms(2) by (simp add: file_names_distinct_def main_config_def config_from_file_def)
  from keep [OF this] assms(4) show ?thesis by (simp add: file_names_distinct_def names_distinct_def)
qed

text \<open>
  Dots and slashes of an instance become underscores in the name of its token cache: two
  instances may share one, and each login replaces the token of the other.
\<close>

lemma token_caches_clash:
  "token_file_name ''lab.a'' = token_file_name ''lab_a''"
  by (simp add: token_file_name_def)

end
