(* ===== verification/Cli_Command.thy ===== *)
theory Cli_Command
  imports Client_Device Cli_Image Udev "HOL-Library.List_Lexorder" "HOL-Library.Char_ord"
begin

section \<open>Commands of the command line (boardswarm-cli/src/main.rs)\<close>

text \<open>
  The commands that talk to a server: finding the item or device an argument names, listing,
  printing and changing items, connecting the terminal to a console, and the Rockchip boot
  download. A command is a function on the lines printed so far and the world of the gRPC
  client. Reading and writing volumes is in Cli_Io, the choice of the server in Cli_Auth. The lemmas:
  which item a name designates, also against the modelled server, what of a connection is
  printed, and what is sent to a Rockchip device.
\<close>

datatype cli_error =
    CliStatus status | Bail string | CliFile | CliImage aimg_error | CliBmap bmap_error | CliIo io_error | CliPanic

type_synonym ('a, 'w) cmd = "string list \<times> 'w \<Rightarrow> (cli_error, 'a) result \<times> string list \<times> 'w"

definition cmd_then :: "('a, 'w) cmd \<Rightarrow> ('a \<Rightarrow> ('b, 'w) cmd) \<Rightarrow> ('b, 'w) cmd" where
  "cmd_then f g s = (case f s of (Err e, s1) \<Rightarrow> (Err e, s1) | (Ok a, s1) \<Rightarrow> g a s1)"

definition call :: "('w \<Rightarrow> (status, 'a) result \<times> 'w) \<Rightarrow> ('a, 'w) cmd" where
  "call f s = (case f (snd s) of (r, w1) \<Rightarrow> (map_err CliStatus r, fst s, w1))"

definition say :: "string list \<Rightarrow> (unit, 'w) cmd" where
  "say ls s = (Ok (), fst s @ ls, snd s)"

definition bail :: "string \<Rightarrow> ('a, 'w) cmd" where
  "bail msg s = (Err (Bail msg), s)"

definition return :: "'a \<Rightarrow> ('a, 'w) cmd" where
  "return a s = (Ok a, s)"

fun cmd_each :: "('x \<Rightarrow> (unit, 'w) cmd) \<Rightarrow> 'x list \<Rightarrow> (unit, 'w) cmd" where
  "cmd_each f [] s = (Ok (), s)"
| "cmd_each f (x # xs) s = cmd_then (f x) (\<lambda>_. cmd_each f xs) s"

lemma cmd_simps [simp]:
  "cmd_then (return a) g = g a"
  "cmd_then (bail m) g s = (Err (Bail m), s)"
  "cmd_then (say ls) g s = g () (fst s @ ls, snd s)"
  by (simp_all add: cmd_then_def return_def bail_def say_def fun_eq_iff)

subsection \<open>Arguments\<close>

datatype ItemArg = ArgId u64 | ArgName string

definition parse_item :: "string \<Rightarrow> ItemArg" where
  "parse_item arg = (case from_str_radix 64 10 arg of Some n \<Rightarrow> ArgId (of_nat n) | None \<Rightarrow> ArgName arg)"

definition parse_actuator :: "string \<Rightarrow> ItemArg" where "parse_actuator = parse_item"
definition parse_console :: "string \<Rightarrow> ItemArg" where "parse_console = parse_item"
definition parse_volume :: "string \<Rightarrow> ItemArg" where "parse_volume = parse_item"
definition parse_device :: "string \<Rightarrow> ItemArg" where "parse_device = parse_item"

fun item_type_name :: "ItemType \<Rightarrow> string" where
  "item_type_name ItemDevice = ''device''" | "item_type_name ItemConsole = ''console''"
| "item_type_name ItemActuator = ''actuator''" | "item_type_name ItemVolume = ''volume''"

fun item_type_debug :: "ItemType \<Rightarrow> string" where
  "item_type_debug ItemDevice = ''Device''" | "item_type_debug ItemConsole = ''Console''"
| "item_type_debug ItemActuator = ''Actuator''" | "item_type_debug ItemVolume = ''Volume''"

definition item_type_value :: "string \<Rightarrow> ItemType option" where
  "item_type_value s =
     map_of [(''actuators'', ItemActuator), (''consoles'', ItemConsole), (''devices'', ItemDevice),
             (''volumes'', ItemVolume)] s"

definition rsplit_once :: "char \<Rightarrow> string \<Rightarrow> (string \<times> string) option" where
  "rsplit_once c s =
     (let after = takeWhile (\<lambda>x. x \<noteq> c) (rev s) in
      if length after < length s then Some (take (length s - length after - 1) s, rev after) else None)"

definition name_and_instance :: "string \<Rightarrow> string \<times> string option" where
  "name_and_instance arg =
     (case rsplit_once CHR ''@'' arg of None \<Rightarrow> (arg, None) | Some (n, i) \<Rightarrow> (n, Some i))"

definition item_lookup :: "('q, 'w) grpc \<Rightarrow> ItemArg \<Rightarrow> ItemType \<Rightarrow> (u64, 'w) cmd" where
  "item_lookup g arg t =
     (case arg of
        ArgId i \<Rightarrow> return i
      | ArgName arg \<Rightarrow>
          cmd_then (call (client_list g t)) (\<lambda>items.
            (let (name, inst) = name_and_instance arg;
                 found = filter (\<lambda>i. pi_name i = name \<and> pi_instance i = inst) items
             in case found of
                  [] \<Rightarrow> bail (item_type_debug t @ '' not found'')
                | [i] \<Rightarrow> return (pi_id i)
                | _ \<Rightarrow> bail (''Duplicate '' @ item_type_name t @ '' name '' @ name))))"

type_synonym opened_device = "u64 \<times> ProtoDevice \<times> (status, ProtoDevice) result list"

definition device_arg :: "('q, 'w) grpc \<Rightarrow> ItemArg \<Rightarrow> (opened_device option, 'w) cmd" where
  "device_arg g arg =
     (case arg of
        ArgId i \<Rightarrow> cmd_then (call (device_new g i)) (\<lambda>(d, updates). return (Some (i, d, updates)))
      | ArgName name \<Rightarrow> call (device_by_name g name))"

text \<open>
  Opening a console or volume of a device that may have to be waited for: \<open>wait_for\<close> is the
  wait of Client_Device, which returns the device as it is then.
\<close>

definition open_console ::
  "((ProtoDevice \<Rightarrow> bool) \<Rightarrow> (ProtoDevice, 'w) cmd) \<Rightarrow> string option \<Rightarrow> bool \<Rightarrow> ProtoDevice \<Rightarrow>
   (string \<times> ProtoDevice, 'w) cmd" where
  "open_console wait_for console wait d =
     (case (case console of Some c \<Rightarrow> console_by_name d c | None \<Rightarrow> first_console d) of
        None \<Rightarrow> bail ''Console not found''
      | Some name \<Rightarrow>
          if console_available name d then return (name, d)
          else if wait then
            cmd_then (say [''Waiting for console..'']) (\<lambda>_.
              cmd_then (wait_for (console_available name)) (\<lambda>d1. return (name, d1)))
          else bail ''console not available'')"

definition open_volume ::
  "((ProtoDevice \<Rightarrow> bool) \<Rightarrow> (ProtoDevice, 'w) cmd) \<Rightarrow> string \<Rightarrow> bool \<Rightarrow> ProtoDevice \<Rightarrow>
   (string \<times> ProtoDevice, 'w) cmd" where
  "open_volume wait_for volume wait d =
     (case volume_by_name d volume of
        None \<Rightarrow> bail ''Volume not available for device''
      | Some name \<Rightarrow>
          if volume_available name d then return (name, d)
          else if wait then
            cmd_then (say [''Waiting for volume..'']) (\<lambda>_.
              cmd_then (wait_for (volume_available name)) (\<lambda>d1. return (name, d1)))
          else bail ''volume not available'')"

text \<open>\<^verbatim>\<open>do_open\<close>: the volume and its target; the stream opened is part of the world.\<close>

definition open_target ::
  "((ProtoDevice \<Rightarrow> bool) \<Rightarrow> (ProtoDevice, 'w) cmd) \<Rightarrow>
   (u64 \<Rightarrow> string \<Rightarrow> u64 option \<Rightarrow> 'w \<Rightarrow> (status, unit) result \<times> 'w) \<Rightarrow>
   string \<Rightarrow> string \<Rightarrow> u64 option \<Rightarrow> bool \<Rightarrow> ProtoDevice \<Rightarrow> (string \<times> ProtoDevice, 'w) cmd" where
  "open_target wait_for open_io volume target len wait d =
     cmd_then (open_volume wait_for volume wait d) (\<lambda>(name, d1).
       cmd_then (call (device_volume_open open_io d1 name target len)) (\<lambda>_. return (name, d1)))"

subsection \<open>Printing\<close>

definition show_u64 :: "u64 \<Rightarrow> string" where
  "show_u64 n = show_nat (unat n)"

definition property_lines :: "(string \<times> string) list \<Rightarrow> string list" where
  "property_lines ps =
     map (\<lambda>(k, v). [CHR 0x22] @ k @ [CHR 0x22] @ '' => '' @ [CHR 0x22] @ v @ [CHR 0x22]) (sort_key fst ps)"

definition print_properties :: "('q, 'w) grpc \<Rightarrow> ItemType \<Rightarrow> u64 \<Rightarrow> (unit, 'w) cmd" where
  "print_properties g t i =
     cmd_then (call (client_properties g t i)) (\<lambda>ps. say (property_lines ps))"

definition item_line :: "ProtoItem \<Rightarrow> string" where
  "item_line i =
     show_u64 (pi_id i) @ '' '' @ pi_name i @
     (case pi_instance i of Some inst \<Rightarrow> '' on '' @ inst | None \<Rightarrow> [])"

definition print_item :: "('q, 'w) grpc \<Rightarrow> ItemType \<Rightarrow> bool \<Rightarrow> ProtoItem \<Rightarrow> (unit, 'w) cmd" where
  "print_item g t verbose i =
     cmd_then (say [item_line i]) (\<lambda>_. if verbose then print_properties g t (pi_id i) else return ())"

definition mode_line :: "ProtoMode \<Rightarrow> string" where
  "mode_line m =
     ''- '' @ pmode_name m @
     (case pmode_depends m of Some d \<Rightarrow> '' (depends on '' @ d @ '')'' | None \<Rightarrow> []) @
     (if pmode_available m then [] else '' (Not available)'')"

definition console_line :: "ProtoConsole \<Rightarrow> string" where
  "console_line c =
     ''- '' @ pcon_name c @
     (case pcon_id c of Some i \<Rightarrow> '' - id: '' @ show_u64 i | None \<Rightarrow> '' - not available'')"

fun join :: "string \<Rightarrow> string list \<Rightarrow> string" where
  "join sep [] = []"
| "join sep [s] = s"
| "join sep (s # t # ss) = s @ sep @ join sep (t # ss)"

definition target_line :: "VolumeTargetInfo \<Rightarrow> string" where
  "target_line t =
     (let caps = join '', '' (map snd (filter fst
            [(readable t, ''readable''), (writable t, ''writable''), (seekable t, ''seekable'')]))
      in ''  + '' @ target_name t @ '' ('' @ caps @ '')'' @
         (case target_size t of Some sz \<Rightarrow> '' size: '' @ show_u64 sz | None \<Rightarrow> []) @
         (case blocksize t of Some bs \<Rightarrow> '' blocksize: '' @ show_nat (unat bs) | None \<Rightarrow> []))"

definition print_device_volume :: "('q, 'w) grpc \<Rightarrow> ProtoVolume \<Rightarrow> (unit, 'w) cmd" where
  "print_device_volume g v =
     (case pvol_id v of
        None \<Rightarrow> say [''- '' @ pvol_name v @ '' - not available'']
      | Some i \<Rightarrow>
          cmd_then (call (client_volume_info g i)) (\<lambda>(targets, exhaustive).
            say ((''- '' @ pvol_name v @ '' - id: '' @ show_u64 i @ '', targets'' @
                  (if exhaustive then [] else '' (non-exhaustive)'') @ '':'') # map target_line targets)))"

definition print_device :: "('q, 'w) grpc \<Rightarrow> ProtoDevice \<Rightarrow> (unit, 'w) cmd" where
  "print_device g d =
     cmd_then (say ((''Current mode: '' @ (case pdev_current_mode d of Some m \<Rightarrow> m | None \<Rightarrow> ''Unknown'')) #
                    ''Modes:'' # map mode_line (pdev_modes d) @
                    ''Consoles:'' # map console_line (pdev_consoles d) @ [''Volumes:'']))
       (\<lambda>_. cmd_each (print_device_volume g) (pdev_volumes d))"

subsection \<open>The commands\<close>

definition cmd_list :: "('q, 'w) grpc \<Rightarrow> ItemType \<Rightarrow> bool \<Rightarrow> (unit, 'w) cmd" where
  "cmd_list g t verbose =
     cmd_then (call (client_list g t)) (\<lambda>items.
       cmd_then (say [item_type_debug t @ ''s: '']) (\<lambda>_. cmd_each (print_item g t verbose) items))"

definition print_event :: "('q, 'w) grpc \<Rightarrow> ItemType \<Rightarrow> bool \<Rightarrow> (status, ItemEvent) result \<Rightarrow> (unit, 'w) cmd" where
  "print_event g t verbose r =
     (case r of
        Err e \<Rightarrow> (\<lambda>s. (Err (CliStatus e), s))
      | Ok (EventAdd items) \<Rightarrow> cmd_each (print_item g t verbose) items
      | Ok (EventRemove i) \<Rightarrow> say [''Removed: '' @ show_u64 i])"

definition cmd_monitor :: "('q, 'w) grpc \<Rightarrow> ItemType \<Rightarrow> bool \<Rightarrow> (unit, 'w) cmd" where
  "cmd_monitor g t verbose =
     cmd_then (call (client_monitor g t)) (\<lambda>events.
       cmd_then (say [item_type_debug t @ ''s: '']) (\<lambda>_. cmd_each (print_event g t verbose) events))"

text \<open>
  A terminal connected to a console: the output is printed while the input is sent, until one
  of the two ends, and the other is dropped. A \<open>connection\<close> is what happens at the terminal: what was
  typed until then, how much of it had reached the server when the call was dropped (input still
  in flight when the output ends is lost), how many messages were printed, and which side ended.
\<close>

datatype connect_end = OutputEnded | StdoutFailed | InputReturned

record connection =
  cn_typed :: "bytes list"
  cn_sent :: nat
  cn_printed :: nat
  cn_end :: connect_end

definition sent_input :: "connection \<Rightarrow> bytes list" where
  "sent_input cn = (if cn_end cn = InputReturned then cn_typed cn else take (cn_sent cn) (cn_typed cn))"

definition print_output :: "(bytes \<Rightarrow> string) \<Rightarrow> bytes list \<Rightarrow> (unit, 'w) cmd" where
  "print_output show_bytes output = say (map show_bytes output)"

text \<open>\<open>stream_input\<close> is the call with what reached the server; it has no result when it is dropped.\<close>

definition connect_console ::
  "(bytes \<Rightarrow> string) \<Rightarrow> ('w \<Rightarrow> (status, bytes list) result \<times> 'w) \<Rightarrow>
   (bytes list \<Rightarrow> 'w \<Rightarrow> (status, unit) result \<times> 'w) \<Rightarrow> connection \<Rightarrow> (unit, 'w) cmd" where
  "connect_console show_bytes stream_output stream_input cn =
     cmd_then (call stream_output) (\<lambda>output.
       cmd_then (print_output show_bytes (if cn_end cn = OutputEnded then output else take (cn_printed cn) output)) (\<lambda>_ s.
         (case stream_input (sent_input cn) (snd s) of
            (r, w) \<Rightarrow>
              (case cn_end cn of
                 OutputEnded \<Rightarrow> (Ok (), fst s, w)
               | StdoutFailed \<Rightarrow> (Err CliFile, fst s, w)
               | InputReturned \<Rightarrow> (map_err CliStatus r, fst s, w)))))"

datatype actuator_command = ChangeMode string | ActuatorProperties
datatype console_command = Configure string | Tail | ConsoleConnect connection | ConsoleProperties
datatype cli_volume_command = VolumeInfo | VolumeCommit | VolumeErase string | VolumeProperties

text \<open>\<open>from_json\<close> parses the parameters.\<close>

definition json_arg :: "(string \<Rightarrow> 'q option) \<Rightarrow> string \<Rightarrow> string \<Rightarrow> ('q, 'w) cmd" where
  "json_arg from_json what s = (case from_json s of Some p \<Rightarrow> return p | None \<Rightarrow> bail (''Failed to parse '' @ what @ '' as JSON''))"

definition cmd_actuator ::
  "('q, 'w) grpc \<Rightarrow> (string \<Rightarrow> 'q option) \<Rightarrow> ItemArg \<Rightarrow> actuator_command \<Rightarrow> (unit, 'w) cmd" where
  "cmd_actuator g from_json arg command =
     cmd_then (item_lookup g arg ItemActuator) (\<lambda>i.
       (case command of
          ChangeMode mode \<Rightarrow>
            cmd_then (json_arg from_json ''actuator mode'' mode) (\<lambda>p. call (client_actuator_change_mode g i p))
        | ActuatorProperties \<Rightarrow> print_properties g ItemActuator i))"

text \<open>\<open>show_bytes\<close> is the output on the terminal of what a console sends.\<close>

definition cmd_console ::
  "('q, 'w) grpc \<Rightarrow> (string \<Rightarrow> 'q option) \<Rightarrow> (bytes \<Rightarrow> string) \<Rightarrow> ItemArg \<Rightarrow> console_command \<Rightarrow> (unit, 'w) cmd" where
  "cmd_console g from_json show_bytes arg command =
     cmd_then (item_lookup g arg ItemConsole) (\<lambda>i.
       (case command of
          Configure config \<Rightarrow>
            cmd_then (json_arg from_json ''console configuration'' config)
              (\<lambda>p. call (client_console_configure g i p))
        | Tail \<Rightarrow> cmd_then (call (client_console_stream_output g i)) (print_output show_bytes)
        | ConsoleConnect cn \<Rightarrow>
            connect_console show_bytes (client_console_stream_output g i) (client_console_stream_input g i) cn
        | ConsoleProperties \<Rightarrow> print_properties g ItemConsole i))"

definition volume_target_line :: "VolumeTargetInfo \<Rightarrow> string" where
  "volume_target_line t =
     (let show_bool = (\<lambda>b. if b then ''true'' else ''false'') in
      ''* '' @ target_name t @ '': '' @
      (case target_size t of Some sz \<Rightarrow> ''size: '' @ show_u64 sz @ '', '' | None \<Rightarrow> ''size: unknown, '') @
      (case blocksize t of Some bs \<Rightarrow> ''blocksize: '' @ show_nat (unat bs) @ '', '' | None \<Rightarrow> ''blocksize: unknown, '') @
      ''readable: '' @ show_bool (readable t) @ '', writable: '' @ show_bool (writable t) @
      '', seekable: '' @ show_bool (seekable t))"

definition cmd_volume :: "('q, 'w) grpc \<Rightarrow> ItemArg \<Rightarrow> cli_volume_command \<Rightarrow> (unit, 'w) cmd" where
  "cmd_volume g arg command =
     cmd_then (item_lookup g arg ItemVolume) (\<lambda>i.
       (case command of
          VolumeInfo \<Rightarrow>
            cmd_then (call (client_volume_info g i)) (\<lambda>(targets, exhaustive).
              say ((if exhaustive then ''Volume targets:'' else ''Volume targets (non-exhaustive):'') #
                   map volume_target_line targets))
        | VolumeCommit \<Rightarrow> call (client_volume_commit g i)
        | VolumeErase target \<Rightarrow> call (client_volume_erase g i target)
        | VolumeProperties \<Rightarrow> print_properties g ItemVolume i))"

datatype device_command =
    DeviceInfo bool | DeviceErase string bool string | DeviceCommit string bool
  | DeviceMode string | DeviceReset | DeviceConnect "string option" bool connection
  | DeviceTail "string option" bool | DeviceProperties

definition follow_device :: "('q, 'w) grpc \<Rightarrow> bool \<Rightarrow> (status, ProtoDevice) result list \<Rightarrow> (unit, 'w) cmd" where
  "follow_device g follow ds =
     cmd_each (\<lambda>r. case r of
         Err e \<Rightarrow> (\<lambda>s. (Err (CliStatus e), s))
       | Ok d \<Rightarrow> cmd_then (print_device g d) (\<lambda>_. if follow then say [''---------''] else return ()))
       (if follow then ds else take 1 ds)"

definition cmd_device ::
  "('q, 'w) grpc \<Rightarrow> ((ProtoDevice \<Rightarrow> bool) \<Rightarrow> (ProtoDevice, 'w) cmd) \<Rightarrow> (bytes \<Rightarrow> string) \<Rightarrow> ItemArg \<Rightarrow>
   device_command \<Rightarrow> (unit, 'w) cmd" where
  "cmd_device g wait_for show_bytes arg command =
     cmd_then (device_arg g arg) (\<lambda>found.
       (case found of
          None \<Rightarrow> bail ''Device not found''
        | Some (i, d, updates) \<Rightarrow>
            (case command of
               DeviceInfo follow \<Rightarrow> cmd_then (call (client_device_info g i)) (follow_device g follow)
             | DeviceErase volume wait target \<Rightarrow>
                 cmd_then (open_volume wait_for volume wait d)
                   (\<lambda>(name, d1). call (device_volume_erase g d1 name target))
             | DeviceCommit volume wait \<Rightarrow>
                 cmd_then (open_volume wait_for volume wait d)
                   (\<lambda>(name, d1). call (device_volume_commit g d1 name))
             | DeviceMode mode \<Rightarrow> call (device_change_mode g i mode)
             | DeviceReset \<Rightarrow>
                 cmd_then (say [''Turning off'']) (\<lambda>_.
                   cmd_then (call (device_change_mode g i ''off'')) (\<lambda>_.
                     cmd_then (say [''Turning on'']) (\<lambda>_. call (device_change_mode g i ''on''))))
             | DeviceConnect console wait cn \<Rightarrow>
                 cmd_then (open_console wait_for console wait d) (\<lambda>(name, d1).
                   connect_console show_bytes (device_stream_output g d1 name) (device_stream_input g d1 name) cn)
             | DeviceTail console wait \<Rightarrow>
                 cmd_then (open_console wait_for console wait d) (\<lambda>(name, d1).
                   cmd_then (call (device_stream_output g d1 name)) (print_output show_bytes))
             | DeviceProperties \<Rightarrow> print_properties g ItemDevice i)))"

lemma connect_prints:
  assumes "connect_console show_bytes stream_output stream_input cn (ls, w) = (r, ls', w')"
  shows "case fst (stream_output w) of
      Err e \<Rightarrow> r = Err (CliStatus e) \<and> ls' = ls
    | Ok output \<Rightarrow> \<exists>n. ls' = ls @ map show_bytes (take n output) \<and> (cn_end cn = OutputEnded \<longrightarrow> r = Ok () \<and> n = length output)"
  using assms
  by (cases "stream_output w"; cases "fst (stream_output w)")
    (auto simp: connect_console_def print_output_def cmd_then_def call_def say_def map_err_def
      split: prod.splits connect_end.splits if_splits intro: exI [where x = "length _"])

subsection \<open>A name designates the item registered under it\<close>

lemma rsplit_once_append: "c \<notin> set i \<Longrightarrow> rsplit_once c (n @ c # i) = Some (n, i)"
proof -
  assume "c \<notin> set i"
  then have "takeWhile (\<lambda>x. x \<noteq> c) (rev i @ c # rev n) = rev i"
    by (subst takeWhile_append2) auto
  then show ?thesis by (simp add: rsplit_once_def)
qed

lemma rsplit_once_None: "c \<notin> set n \<Longrightarrow> rsplit_once c n = None"
proof -
  assume "c \<notin> set n"
  then have "takeWhile (\<lambda>x. x \<noteq> c) (rev n) = rev n" by (subst takeWhile_eq_all_conv) auto
  then show ?thesis by (simp only: rsplit_once_def Let_def length_rev) simp
qed

lemma takeWhile_stops: "c \<in> set xs \<Longrightarrow> length (takeWhile (\<lambda>x. x \<noteq> c) xs) < length xs"
  by (induction xs) auto

lemma digits_value_digits: "digits_value radix s acc = Some v \<Longrightarrow> c \<in> set s \<Longrightarrow> char_digit radix c \<noteq> None"
  by (induction radix s acc rule: digits_value.induct) (auto split: option.splits)

lemma at_not_number:
  assumes "CHR ''@'' \<in> set s"
  shows "from_str_radix 64 10 s = None"
proof -
  let ?ds = "case s of c # cs \<Rightarrow> if c = CHR ''+'' then cs else s | [] \<Rightarrow> []"
  have "CHR ''@'' \<in> set ?ds" using assms by (cases s) auto
  moreover have "char_digit 10 CHR ''@'' = None" by (simp add: char_digit_def)
  ultimately have "digits_value 10 ?ds 0 = None"
    using digits_value_digits [of 10 ?ds 0 _ "CHR ''@''"] by (cases "digits_value 10 ?ds 0") auto
  then show ?thesis by (simp add: from_str_radix_def Let_def)
qed

lemma filter_bt_insert:
  "\<forall>x \<in> set m. \<not> P x \<Longrightarrow> P (k, v) \<Longrightarrow> filter P (bt_insert k v m) = [(k, v)]"
  by (induction k v m rule: bt_insert.induct) (auto simp: filter_empty_conv)

text \<open>The form of an item's name on the command line.\<close>

definition shown_name :: "string \<Rightarrow> string option \<Rightarrow> string" where
  "shown_name n inst = (case inst of None \<Rightarrow> n | Some i \<Rightarrow> n @ CHR ''@'' # i)"

definition name_usable :: "string \<Rightarrow> string option \<Rightarrow> bool" where
  "name_usable n inst \<longleftrightarrow>
     (case inst of
        None \<Rightarrow> CHR ''@'' \<notin> set n \<and> from_str_radix 64 10 n = None
      | Some i \<Rightarrow> CHR ''@'' \<notin> set i)"

lemma parse_shown_name:
  assumes "name_usable n inst"
  shows "parse_item (shown_name n inst) = ArgName (shown_name n inst)"
    "name_and_instance (shown_name n inst) = (n, inst)"
  using assms at_not_number [of "shown_name n inst"]
  by (auto simp: name_usable_def shown_name_def parse_item_def name_and_instance_def rsplit_once_append
      rsplit_once_None split: option.splits)

text \<open>An item registered under a name no listed item has is the only one listed under it.\<close>

abbreviation named :: "string \<Rightarrow> string option \<Rightarrow> ProtoItem \<Rightarrow> bool" where
  "named n inst it \<equiv> pi_name it = n \<and> pi_instance it = inst"

lemma only_named:
  assumes "registry_add p v r = ((i, item), r1)"
    and "list_all (\<lambda>it. \<not> named (properties_name p) (properties_instance p) it) (to_item_list r)"
  shows "filter (named (properties_name p) (properties_instance p)) (to_item_list r1) =
    [to_proto_item i (item_new p v)]"
proof -
  let ?P = "named (properties_name p) (properties_instance p)"
  have new: "?P (to_proto_item i (item_new p v))"
    by (simp add: to_proto_item_def item_name_def item_instance_def item_new_def)
  have "contents r1 = bt_insert i (item_new p v) (contents r)"
    using assms(1) by (auto simp: registry_add_def Let_def)
  moreover have "\<forall>x \<in> set (contents r). \<not> ?P (to_proto_item (fst x) (snd x))"
    using assms(2) by (auto simp: to_item_list_def list_all_iff)
  ultimately have "filter (\<lambda>x. ?P (to_proto_item (fst x) (snd x))) (contents r1) = [(i, item_new p v)]"
    using filter_bt_insert [of "contents r" "\<lambda>x. ?P (to_proto_item (fst x) (snd x))" i "item_new p v"] new
    by simp
  then show ?thesis by (simp add: to_item_list_def filter_map split_beta comp_def)
qed

lemma added_lookup: "registry_add p v r = ((i, item), r1) \<Longrightarrow> registry_lookup r1 i = Some (item_new p v)"
  using registry_lookup_add [of p v r] by (auto simp: registry_add_def Let_def)

lemma lookup_by_shown_name:
  assumes "name_usable n inst" "filter (named n inst) (item_list_for s t) = [it]"
  shows "item_lookup (server_grpc gone rcv watch) (parse_item (shown_name n inst)) t (out, s, w) =
    (Ok (pi_id it), out, s, w)"
  using assms(2) parse_shown_name [OF assms(1)]
  by (simp add: item_lookup_def cmd_then_def call_def client_server_list return_def)

text \<open>
  A volume can be used by its name: when a provider has registered a volume, a command
  with its name, followed by \<open>@\<close> and its instance if it has one, reaches that volume through the
  client and the server, provided no other volume listed has that name and instance, the instance
  contains no \<open>@\<close>, and a name without instance contains none either and is no number.
\<close>

lemma volume_by_shown_name:
  assumes "register_volume p v s = (i, s1)" "name_usable (properties_name p) (properties_instance p)"
    and "list_all (\<lambda>it. \<not> (pi_name it = properties_name p \<and> pi_instance it = properties_instance p))
      (item_list_for s ItemVolume)"
  shows "cmd_volume (server_grpc gone rcv watch)
      (parse_volume (shown_name (properties_name p) (properties_instance p))) VolumeCommit (out, s1, w) =
    (case vol_commit v w of (r, w1) \<Rightarrow> (map_err (CliStatus \<circ> status_of_volume_error) r, out, s1, w1))"
proof -
  let ?n = "properties_name p" and ?inst = "properties_instance p"
  from assms(1) have s1: "registry_add p v (volumes s) = ((i, item_new p v), volumes s1)" "i = next_id (volumes s)"
    by (auto simp: register_volume_def registry_add_def Let_def)
  have lookup: "item_lookup (server_grpc gone rcv watch) (parse_volume (shown_name ?n ?inst)) ItemVolume (out, s1, w) =
      (Ok (index_u64 i), out, s1, w)"
    using lookup_by_shown_name [OF assms(2), of s1 ItemVolume "to_proto_item i (item_new p v)"]
      only_named [OF s1(1)] assms(3)
    by (simp add: parse_volume_def item_list_for_def to_proto_item_def)
  have "get_volume s1 (U64Index (index_u64 i)) = Some v"
    using added_lookup [OF s1(1)] by (simp add: get_volume_def item_new_def)
  then show ?thesis
    using lookup
    by (auto simp: cmd_volume_def cmd_then_def call_def client_volume_commit_def server_grpc_def at_server_def
        on_reply_def rpc_volume_commit_def result_bind_def map_err_def split: prod.splits sum.splits)
qed

text \<open>
  A name that contains \<open>@\<close> but has no instance designates nothing: the part after the last
  \<open>@\<close> is always taken for an instance.
\<close>

lemma name_with_at_not_found:
  assumes "CHR ''@'' \<in> set n" "\<And>it. it \<in> set (item_list_for s t) \<Longrightarrow> pi_instance it = None"
  shows "fst (item_lookup (server_grpc gone rcv watch) (parse_item n) t (out, s, w)) =
    Err (Bail (item_type_debug t @ '' not found''))"
proof -
  have "rsplit_once CHR ''@'' n \<noteq> None"
    using assms(1) takeWhile_stops [of "CHR ''@''" "rev n"]
    by (simp add: rsplit_once_def Let_def)
  then obtain a i where "name_and_instance n = (a, Some i)"
    by (auto simp: name_and_instance_def)
  moreover have "parse_item n = ArgName n" using at_not_number [OF assms(1)] by (simp add: parse_item_def)
  moreover have "filter (\<lambda>it. pi_name it = a \<and> pi_instance it = Some i) (item_list_for s t) = []"
    using assms(2) by (auto simp: filter_empty_conv)
  ultimately show ?thesis
    by (simp add: item_lookup_def cmd_then_def call_def client_server_list bail_def)
qed

lemma volume_by_shown_name_example:
  "\<exists>i s1. register_volume (properties_new ''boot'') null_volume (server_new [] ''/etc'' :: (nat, nat) Server) = (i, s1) \<and>
    cmd_volume (server_grpc (Status Unavailable ''gone'')
       \<lparr>rc_devices = [], rc_consoles = [], rc_actuators = [], rc_volumes = []\<rparr> []) (parse_volume ''boot'') VolumeCommit ([], s1, 42) =
    (case vol_commit null_volume 42 of (r, w1) \<Rightarrow>
       (map_err (CliStatus \<circ> status_of_volume_error) r, [], s1, w1))"
proof -
  let ?s = "server_new [] ''/etc'' :: (nat, nat) Server" and ?p = "properties_new ''boot''"
  obtain i s1 where reg: "register_volume ?p null_volume ?s = (i, s1)" by force
  have name: "properties_name ?p = ''boot''" "properties_instance ?p = None"
    by (simp_all add: properties_name_def properties_instance_def)
  have usable: "name_usable (properties_name ?p) (properties_instance ?p)"
    by (simp add: name name_usable_def from_str_radix_def char_digit_def)
  have none: "list_all (\<lambda>it. \<not> (pi_name it = properties_name ?p \<and> pi_instance it = properties_instance ?p))
      (item_list_for ?s ItemVolume)"
    by (simp add: item_list_for_def to_item_list_def server_new_def registry_new_def)
  from volume_by_shown_name [OF reg usable none,
      where gone = "Status Unavailable ''gone''" and rcv = "\<lparr>rc_devices = [], rc_consoles = [], rc_actuators = [], rc_volumes = []\<rparr>" and watch = "[]" and out = "[]" and w = 42] reg show ?thesis
    by (auto simp: name shown_name_def)
qed

subsection \<open>The Rockchip boot download\<close>

text \<open>
  The boot file format (rockfile) is the record \<open>rock_file\<close>: the header with the two groups of
  entries, of which the size and count have the width \<open>'n\<close>, and an entry. The product of
  size and index wraps at that width, as in a release build.
\<close>

record 'c RkBootHeaderEntry =
  rkh_count :: 'c
  rkh_offset :: u32
  rkh_size :: 'c

record RkBootEntry =
  rke_name_ok :: bool
  rke_name :: string
  rke_data_size :: u32
  rke_data_offset :: u32
  rke_data_delay :: u32

record 'c rock_file =
  rk_header :: "bytes \<Rightarrow> ('c RkBootHeaderEntry \<times> 'c RkBootHeaderEntry) option"
  rk_entry :: "bytes \<Rightarrow> RkBootEntry"

definition read_at :: "bytes \<Rightarrow> nat \<Rightarrow> nat \<Rightarrow> bytes option" where
  "read_at file pos n = (if n = 0 then Some [] else if pos + n \<le> length file then Some (take n (drop pos file)) else None)"

definition read_or_fail :: "bytes option \<Rightarrow> (bytes, 'w) cmd" where
  "read_or_fail r = (case r of Some b \<Rightarrow> return b | None \<Rightarrow> bail ''early eof'')"

definition entry_pos :: "('n::len) word RkBootHeaderEntry \<Rightarrow> 'n word \<Rightarrow> nat" where
  "entry_pos header i = unat (rkh_offset header) + unat (rkh_size header * i)"

text \<open>\<open>send\<close> opens the target of the volume for the data, writes and shuts it down.\<close>

definition rock_download_one ::
  "('n::len) word rock_file \<Rightarrow> (string \<Rightarrow> bytes \<Rightarrow> (unit, 'w) cmd) \<Rightarrow> bytes \<Rightarrow> string \<Rightarrow> 'n word RkBootHeaderEntry \<Rightarrow> nat \<Rightarrow>
   (unit, 'w) cmd" where
  "rock_download_one rk send file target header i =
     cmd_then (read_or_fail (read_at file (entry_pos header (of_nat i)) 57)) (\<lambda>b.
       (let entry = rk_entry rk b in
        if \<not> rke_name_ok entry then bail ''invalid utf-16''
        else
          cmd_then (say [show_nat i @ '' Name: '' @ rke_name entry]) (\<lambda>_.
            cmd_then (read_or_fail (read_at file (unat (rke_data_offset entry)) (unat (rke_data_size entry)))) (\<lambda>data.
              cmd_then (send target data) (\<lambda>_.
                say [''Done!... waiting '' @ show_nat (unat (rke_data_delay entry)) @ ''ms''])))))"

definition rock_download_entry ::
  "('n::len) word rock_file \<Rightarrow> (string \<Rightarrow> bytes \<Rightarrow> (unit, 'w) cmd) \<Rightarrow> bytes \<Rightarrow> string \<Rightarrow> 'n word RkBootHeaderEntry \<Rightarrow>
   (unit, 'w) cmd" where
  "rock_download_entry rk send file target header =
     cmd_each (rock_download_one rk send file target header) [0..<unat (rkh_count header)]"

text \<open>A boot file is \<open>None\<close> when it can not be opened.\<close>

definition rock_download_boot ::
  "('n::len) word rock_file \<Rightarrow> (string \<Rightarrow> bytes \<Rightarrow> (unit, 'w) cmd) \<Rightarrow> bytes option \<Rightarrow> (unit, 'w) cmd" where
  "rock_download_boot rk send path s =
     (case path of
        None \<Rightarrow> (Err CliFile, s)
      | Some file \<Rightarrow>
          cmd_then (read_or_fail (read_at file 0 102)) (\<lambda>b.
            (case rk_header rk b of
               None \<Rightarrow> bail ''Failed to parse header''
             | Some (entry_471, entry_472) \<Rightarrow>
                 cmd_then (rock_download_entry rk send file ''471'' entry_471)
                   (\<lambda>_. rock_download_entry rk send file ''472'' entry_472))) s)"

text \<open>The volume of the device the boot file is sent to.\<close>

definition rock_volume ::
  "((ProtoDevice \<Rightarrow> bool) \<Rightarrow> (ProtoDevice, 'w) cmd) \<Rightarrow> string option \<Rightarrow> bool \<Rightarrow> ProtoDevice \<Rightarrow>
   (string \<times> ProtoDevice, 'w) cmd" where
  "rock_volume wait_for volume wait d =
     cmd_then
       (case volume of
          Some v \<Rightarrow> (case volume_by_name d v of Some name \<Rightarrow> return name | None \<Rightarrow> bail ''Volume not found'')
        | None \<Rightarrow>
            (case device_volume_names d of
               [name] \<Rightarrow> return name
             | [] \<Rightarrow> bail ''No volumes for this device''
             | _ \<Rightarrow> bail ''More then one volume, please specify one''))
       (\<lambda>name.
          if volume_available name d then return (name, d)
          else if wait then
            cmd_then (say [''Waiting for volume..'']) (\<lambda>_.
              cmd_then (wait_for (volume_available name)) (\<lambda>d1. return (name, d1)))
          else bail ''volume not available'')"

text \<open>\<^verbatim>\<open>rock download-boot\<close>: after the download it waits until the volume has gone.\<close>

definition cmd_rock ::
  "('q, 'w) grpc \<Rightarrow> ((ProtoDevice \<Rightarrow> bool) \<Rightarrow> (ProtoDevice, 'w) cmd) \<Rightarrow> ('n::len) word rock_file \<Rightarrow>
   (ProtoDevice \<Rightarrow> string \<Rightarrow> string \<Rightarrow> bytes \<Rightarrow> (unit, 'w) cmd) \<Rightarrow> ItemArg \<Rightarrow> string option \<Rightarrow> bool \<Rightarrow> bytes option \<Rightarrow>
   (unit, 'w) cmd" where
  "cmd_rock g wait_for rk send arg volume wait path =
     cmd_then (device_arg g arg) (\<lambda>found.
       (case found of
          None \<Rightarrow> bail ''Device not found''
        | Some (i, d, updates) \<Rightarrow>
            cmd_then (rock_volume wait_for volume wait d) (\<lambda>(name, d1).
              cmd_then (rock_download_boot rk (send d1 name) path) (\<lambda>_.
                cmd_then (wait_for (\<lambda>d. \<not> volume_available name d)) (\<lambda>_. return ())))))"

text \<open>What is sent: the data of the entries of both groups, in the order of the file.\<close>

definition rock_blob :: "('n::len) word rock_file \<Rightarrow> bytes \<Rightarrow> 'n word RkBootHeaderEntry \<Rightarrow> nat \<Rightarrow> bytes option" where
  "rock_blob rk file header i =
     Option.bind (read_at file (entry_pos header (of_nat i)) 57) (\<lambda>b.
       (let entry = rk_entry rk b in
        if rke_name_ok entry then read_at file (unat (rke_data_offset entry)) (unat (rke_data_size entry))
        else None))"

definition log_send :: "string \<Rightarrow> bytes \<Rightarrow> (unit, (string \<times> bytes) list) cmd" where
  "log_send target data s = (Ok (), fst s, snd s @ [(target, data)])"

lemma rock_one_sends:
  assumes "rock_download_one rk log_send file target header i s = (Ok (), s')"
  shows "\<exists>d. rock_blob rk file header i = Some d \<and> snd s' = snd s @ [(target, d)]"
  using assms
  by (auto simp: rock_download_one_def rock_blob_def cmd_then_def read_or_fail_def return_def bail_def say_def
      log_send_def Let_def split: option.splits if_splits)

lemma rock_each_sends:
  "cmd_each (rock_download_one rk log_send file target header) is s = (Ok (), s') \<Longrightarrow>
   \<exists>ds. map (rock_blob rk file header) is = map Some ds \<and> snd s' = snd s @ map (Pair target) ds"
proof (induction "is" arbitrary: s)
  case Nil
  then show ?case by simp
next
  case (Cons i "is")
  then obtain s1 where s1: "rock_download_one rk log_send file target header i s = (Ok (), s1)"
    "cmd_each (rock_download_one rk log_send file target header) is s1 = (Ok (), s')"
    by (auto simp: cmd_then_def split: prod.splits sum.splits)
  from rock_one_sends [OF s1(1)] Cons.IH [OF s1(2)] obtain d ds where
    "rock_blob rk file header i = Some d" "snd s1 = snd s @ [(target, d)]"
    "map (rock_blob rk file header) is = map Some ds" "snd s' = snd s1 @ map (Pair target) ds" by blast
  then show ?case by (intro exI [of _ "d # ds"]) simp
qed

lemma rock_download_sends:
  assumes "rock_download_boot rk log_send (Some file) s = (Ok (), s')"
  shows "\<exists>h1 h2 ds1 ds2. rk_header rk (take 102 file) = Some (h1, h2) \<and>
    map (rock_blob rk file h1) [0..<unat (rkh_count h1)] = map Some ds1 \<and>
    map (rock_blob rk file h2) [0..<unat (rkh_count h2)] = map Some ds2 \<and>
    snd s' = snd s @ map (Pair ''471'') ds1 @ map (Pair ''472'') ds2"
proof -
  obtain h1 h2 s1 where h: "rk_header rk (take 102 file) = Some (h1, h2)"
    and g: "rock_download_entry rk log_send file ''471'' h1 s = (Ok (), s1)"
      "rock_download_entry rk log_send file ''472'' h2 s1 = (Ok (), s')"
    using assms
    by (auto simp: rock_download_boot_def cmd_then_def read_or_fail_def read_at_def return_def bail_def
        split: option.splits if_splits prod.splits sum.splits)
  from rock_each_sends [OF g(1) [unfolded rock_download_entry_def]]
    rock_each_sends [OF g(2) [unfolded rock_download_entry_def]]
  obtain ds1 ds2 where "map (rock_blob rk file h1) [0..<unat (rkh_count h1)] = map Some ds1"
    "map (rock_blob rk file h2) [0..<unat (rkh_count h2)] = map Some ds2"
    "snd s1 = snd s @ map (Pair ''471'') ds1" "snd s' = snd s1 @ map (Pair ''472'') ds2" by blast
  with h show ?thesis by auto
qed

text \<open>The entries wrap: with eight bits, the fifth entry of 57 bytes is read at offset 29.\<close>

lemma rock_entries_wrap:
  "entry_pos (\<lparr>rkh_count = 6, rkh_offset = 0, rkh_size = 57\<rparr> :: 8 word RkBootHeaderEntry) 5 = 29"
  by (simp add: entry_pos_def)

end
