(* ===== verification/Cli_Io.thy ===== *)
theory Cli_Io
  imports Cli_Command Volume_Read
begin

section \<open>Reading and writing volumes from the command line (boardswarm-cli/src/main.rs)\<close>

text \<open>
  The commands that move data: the target is opened first, then the file is copied in or out
  (Cli_Image, Volume_Read), then the volume is committed if that was asked for. A command that
  waits for a stream for ever has no result. The notices the copies print are left out of the
  lines printed. The lemmas: nothing is written unless the file could be opened, a volume is
  committed only after the whole write, and what a successful write leaves on the volume.
\<close>

type_synonym 'w io_cmd = "string list \<times> 'w \<Rightarrow> (cli_error, unit) result option \<times> string list \<times> 'w"

definition io_then :: "('a, 'w) cmd \<Rightarrow> ('a \<Rightarrow> 'w io_cmd) \<Rightarrow> 'w io_cmd" where
  "io_then f g s = (case f s of (Err e, s1) \<Rightarrow> (Some (Err e), s1) | (Ok a, s1) \<Rightarrow> g a s1)"

definition io_awaited :: "('e \<Rightarrow> cli_error) \<Rightarrow> ('w \<Rightarrow> ('e, unit) result awaited \<times> 'w) \<Rightarrow> 'w io_cmd" where
  "io_awaited err op s =
     (case op (snd s) of
        (Waiting, w) \<Rightarrow> (None, fst s, w)
      | (Unwound, w) \<Rightarrow> (Some (Err CliPanic), fst s, w)
      | (Returned r, w) \<Rightarrow> (Some (map_err err r), fst s, w))"

definition io_finally :: "'w io_cmd \<Rightarrow> (unit, 'w) cmd \<Rightarrow> 'w io_cmd" where
  "io_finally f k s =
     (case f s of
        (Some (Ok _), s1) \<Rightarrow> (case k s1 of (r, s2) \<Rightarrow> (Some r, s2))
      | r \<Rightarrow> r)"

subsection \<open>Writing\<close>

text \<open>
  What is written: a plain file from an offset, a sparse image, or an image with a bmap (what
  \<open>read_path\<close>, \<open>from_xml\<close> and \<open>copy_bmap\<close> are is said in Cli_Image). A file is \<open>None\<close>
  when it can not be opened.
\<close>

datatype ('h, 'c, 'm, 'w) write_source =
    PlainFile "u64 option" "bytes option"
  | SparseImage "('h, 'c) sparse_reader" "bytes option"
  | BmapImage "string \<Rightarrow> bytes option" "bytes \<Rightarrow> 'm option"
      "bool \<Rightarrow> bytes \<Rightarrow> 'm \<Rightarrow> 'w \<Rightarrow> (io_error, unit) result awaited \<times> 'w" string

text \<open>A plain file is opened before the target, which is told its length.\<close>

fun source_len :: "('h, 'c, 'm, 'w) write_source \<Rightarrow> (u64 option, 'w) cmd" where
  "source_len (PlainFile offset None) s = (Err CliFile, s)"
| "source_len (PlainFile offset (Some file)) s = (Ok (Some (of_nat (length file))), s)"
| "source_len src s = (Ok None, s)"

fun write_into :: "'w async_writer \<Rightarrow> ('h, 'c, 'm, 'w) write_source \<Rightarrow> 'w io_cmd" where
  "write_into wr (PlainFile offset None) s = (Some (Err CliFile), s)"
| "write_into wr (PlainFile offset (Some file)) s = io_awaited CliIo (write_file wr offset file) s"
| "write_into wr (SparseImage rd path) s = io_awaited CliImage (write_aimg rd wr path) s"
| "write_into wr (BmapImage read_path from_xml copy_bmap path) s =
     io_awaited CliBmap (write_bmap read_path from_xml copy_bmap wr path) s"

text \<open>
  The stream opened is part of the world, which the writer \<open>wr\<close> works on; \<open>open_io\<close> is
  \<^verbatim>\<open>volume_io_readwrite\<close>.
\<close>

definition volume_write ::
  "('q, 'w) grpc \<Rightarrow> (u64 \<Rightarrow> string \<Rightarrow> u64 option \<Rightarrow> 'w \<Rightarrow> (status, unit) result \<times> 'w) \<Rightarrow>
   'w async_writer \<Rightarrow> ItemArg \<Rightarrow> ('h, 'c, 'm, 'w) write_source \<Rightarrow> string \<Rightarrow> 'w io_cmd" where
  "volume_write g open_io wr arg src target =
     io_then (item_lookup g arg ItemVolume) (\<lambda>i.
       io_then (source_len src) (\<lambda>len.
         io_then (call (open_io i target len)) (\<lambda>_. write_into wr src)))"

definition device_write ::
  "('q, 'w) grpc \<Rightarrow> ((ProtoDevice \<Rightarrow> bool) \<Rightarrow> (ProtoDevice, 'w) cmd) \<Rightarrow>
   (u64 \<Rightarrow> string \<Rightarrow> u64 option \<Rightarrow> 'w \<Rightarrow> (status, unit) result \<times> 'w) \<Rightarrow> 'w async_writer \<Rightarrow>
   ('h, 'c, 'm, 'w) write_source \<Rightarrow> string \<Rightarrow> string \<Rightarrow> bool \<Rightarrow> bool \<Rightarrow> ProtoDevice \<Rightarrow> 'w io_cmd" where
  "device_write g wait_for open_io wr src volume target wait commit d =
     io_then (source_len src) (\<lambda>len.
       io_then (open_target wait_for open_io volume target len wait d) (\<lambda>(name, d1).
         io_finally (write_into wr src)
           (if commit then call (device_volume_commit g d1 name) else return ())))"

subsection \<open>Reading\<close>

text \<open>
  The file is created before the target is opened, and \<open>store\<close> puts into the world what it
  holds at the end; \<open>read_io\<close> is the copy of Volume_Read on the opened stream of the world.
\<close>

definition device_read ::
  "((ProtoDevice \<Rightarrow> bool) \<Rightarrow> (ProtoDevice, 'w) cmd) \<Rightarrow>
   (u64 \<Rightarrow> string \<Rightarrow> u64 option \<Rightarrow> 'w \<Rightarrow> (status, unit) result \<times> 'w) \<Rightarrow>
   (u64 option \<Rightarrow> u64 option \<Rightarrow> 'w \<Rightarrow> (io_error, unit) result awaited \<times> bytes \<times> 'w) \<Rightarrow>
   (bytes \<Rightarrow> 'w \<Rightarrow> 'w) \<Rightarrow> bool \<Rightarrow> u64 option \<Rightarrow> u64 option \<Rightarrow> string \<Rightarrow> string \<Rightarrow> bool \<Rightarrow> ProtoDevice \<Rightarrow>
   'w io_cmd" where
  "device_read wait_for open_io read_io store created offset len volume target wait d s =
     (if \<not> created then (Some (Err CliFile), s)
      else
        io_then (open_target wait_for open_io volume target None wait d)
          (\<lambda>_. io_awaited CliIo (\<lambda>w. case read_io offset len w of (r, out, w1) \<Rightarrow> (r, store out w1)))
          (fst s, store [] (snd s)))"

subsection \<open>Other commands\<close>

text \<open>\<open>show_info\<close> prints the login methods, \<open>run_ui\<close> is the interface of Cli_Ui.\<close>

definition cmd_login_info :: "(LoginInfo list \<Rightarrow> string) \<Rightarrow> ('q, 'w) grpc \<Rightarrow> (unit, 'w) cmd" where
  "cmd_login_info show_info g = cmd_then (call (client_login_info g)) (\<lambda>info. say [''Info: '' @ show_info info])"

definition cmd_ui ::
  "('q, 'w) grpc \<Rightarrow> ((ProtoDevice \<Rightarrow> bool) \<Rightarrow> (ProtoDevice, 'w) cmd) \<Rightarrow>
   (u64 \<Rightarrow> ProtoDevice \<Rightarrow> string \<Rightarrow> (unit, 'w) cmd) \<Rightarrow> ItemArg \<Rightarrow> string option \<Rightarrow> bool \<Rightarrow> (unit, 'w) cmd" where
  "cmd_ui g wait_for run_ui arg console wait =
     cmd_then (device_arg g arg) (\<lambda>found.
       (case found of
          None \<Rightarrow> bail ''Device not found''
        | Some (i, d, updates) \<Rightarrow>
            cmd_then (open_console wait_for console wait d) (\<lambda>(name, d1). run_ui i d1 name)))"

subsection \<open>What the write commands do\<close>

lemma io_then_ok:
  "io_then f g s = (Some (Ok ()), s') \<longleftrightarrow> (\<exists>a s1. f s = (Ok a, s1) \<and> g a s1 = (Some (Ok ()), s'))"
  by (auto simp: io_then_def split: prod.splits sum.splits)

lemma io_finally_ok:
  "io_finally f k s = (Some (Ok ()), s') \<longleftrightarrow> (\<exists>s1. f s = (Some (Ok ()), s1) \<and> k s1 = (Ok (), s'))"
  by (auto simp: io_finally_def split: prod.splits sum.splits option.splits)

text \<open>A file that can not be opened changes nothing on the server.\<close>

lemma missing_file_untouched:
  "device_write g wait_for open_io wr (PlainFile offset None) volume target wait commit d s = (Some (Err CliFile), s)"
  by (simp add: device_write_def io_then_def)

text \<open>
  A write with commit that succeeds has written the whole source first, and a write that
  fails or is still waiting does not commit: the world is as the write left it.
\<close>

lemma committed_after_write:
  assumes "device_write g wait_for open_io wr src volume target wait True d s = (r, s')"
  shows "r = Some (Ok ()) \<longrightarrow> (\<exists>len name d1 s1 s2.
      open_target wait_for open_io volume target len wait d s = (Ok (name, d1), s1) \<and>
      write_into wr src s1 = (Some (Ok ()), s2) \<and>
      call (device_volume_commit g d1 name) s2 = (Ok (), s'))"
    and "open_target wait_for open_io volume target len wait d s = (Ok (name, d1), s1) \<Longrightarrow>
      source_len src s = (Ok len, s) \<Longrightarrow> write_into wr src s1 = (x, s2) \<Longrightarrow> x \<noteq> Some (Ok ()) \<Longrightarrow> r = x \<and> s' = s2"
proof -
  have src: "source_len src s = (Ok l, s0) \<Longrightarrow> s0 = s" for l s0
    by (cases src; cases s) (auto elim: source_len.elims)
  show "r = Some (Ok ()) \<longrightarrow> (\<exists>len name d1 s1 s2.
      open_target wait_for open_io volume target len wait d s = (Ok (name, d1), s1) \<and>
      write_into wr src s1 = (Some (Ok ()), s2) \<and>
      call (device_volume_commit g d1 name) s2 = (Ok (), s'))"
    using assms src by (fastforce simp: device_write_def io_then_ok io_finally_ok)
  show "r = x \<and> s' = s2"
    if "open_target wait_for open_io volume target len wait d s = (Ok (name, d1), s1)"
      "source_len src s = (Ok len, s)" "write_into wr src s1 = (x, s2)" "x \<noteq> Some (Ok ())"
    using assms that by (auto simp: device_write_def io_then_def io_finally_def split: option.splits sum.splits)
qed

end
