(* ===== verification/Cli_Ui.thy ===== *)
theory Cli_Ui
  imports Udev
begin

section \<open>The terminal interface (boardswarm-cli/src/ui.rs, ui_term.rs)\<close>

text \<open>
  The interface shows the output of a console and passes on what is typed, except for commands
  after control-a: power on, off and reset, scrolling, and quitting. The terminal emulator
  (vt100) and the drawing library (ratatui) are parameters. The lemmas: the size argument
  reads back what it prints, which input reaches the console, what the escape does, and what the
  emulator is given.
\<close>

subsection \<open>The size of the terminal\<close>

datatype TerminalSizeSetting = Fixed (fixed_width: u16) (fixed_height: u16) | Auto
datatype TerminalSizeSettingError = ParseError | InvalidSizeError

definition split_once :: "char \<Rightarrow> string \<Rightarrow> (string \<times> string) option" where
  "split_once c s =
     (case dropWhile (\<lambda>x. x \<noteq> c) s of
        [] \<Rightarrow> None
      | _ # after \<Rightarrow> Some (takeWhile (\<lambda>x. x \<noteq> c) s, after))"

definition parse_u16 :: "string \<Rightarrow> (TerminalSizeSettingError, u16) result" where
  "parse_u16 s = (case from_str_radix 16 10 s of None \<Rightarrow> Err ParseError | Some n \<Rightarrow> Ok (of_nat n))"

definition size_from_str :: "string \<Rightarrow> (TerminalSizeSettingError, TerminalSizeSetting) result" where
  "size_from_str fmt =
     (if fmt = ''auto'' then Ok Auto
      else
        (case split_once CHR ''x'' fmt of
           None \<Rightarrow> Err ParseError
         | Some (w, h) \<Rightarrow>
             result_bind (parse_u16 w) (\<lambda>width.
               result_bind (parse_u16 h) (\<lambda>height.
                 if width = 0 \<or> height = 0 then Err InvalidSizeError
                 else Ok (Fixed width height)))))"

text \<open>The unit test \<^verbatim>\<open>terminal_size_setting\<close>.\<close>

lemma terminal_size_setting_test:
  "size_from_str ''auto'' = Ok Auto" "size_from_str ''166x58'' = Ok (Fixed 166 58)"
  "size_from_str ''random'' = Err ParseError" "size_from_str ''80'' = Err ParseError"
  "size_from_str ''80x'' = Err ParseError" "size_from_str ''80xA'' = Err ParseError"
  "size_from_str ''Ax24'' = Err ParseError" "size_from_str ''0x24'' = Err InvalidSizeError"
  "size_from_str ''80x0'' = Err InvalidSizeError"
  by (simp_all add: size_from_str_def split_once_def parse_u16_def from_str_radix_def char_digit_def Let_def
      of_char_def)

text \<open>The size used: \<open>tui_size\<close> is what the terminal reports, \<open>resized\<close> whether it could be resized.\<close>

definition initial_size :: "TerminalSizeSetting \<Rightarrow> (u16 \<times> u16) option \<Rightarrow> u16 \<times> u16" where
  "initial_size setting tui_size =
     (case setting of
        Fixed w h \<Rightarrow> (w, h)
      | Auto \<Rightarrow> (case tui_size of Some s \<Rightarrow> s | None \<Rightarrow> (80, 24)))"

definition update_size :: "TerminalSizeSetting \<Rightarrow> bool \<Rightarrow> (u16 \<times> u16) option \<Rightarrow> u16 \<times> u16" where
  "update_size setting resized tui_size =
     (case setting of
        Fixed w h \<Rightarrow> (w, h)
      | Auto \<Rightarrow>
          if resized then (case tui_size of Some s \<Rightarrow> s | None \<Rightarrow> (80, 24)) else (80, 24))"

subsection \<open>Input\<close>

datatype Input = PowerOn | PowerOff | PowerReset | Up | Down | ScrollReset | InputBytes bytes

text \<open>
  \<^verbatim>\<open>check_input\<close>: the bytes left of a read, whether an escape was seen, and the read itself.
  \<open>None\<close> ends the stream.
\<close>

fun check_bytes :: "bytes \<Rightarrow> bool \<Rightarrow> bytes \<Rightarrow> Input option \<times> bool" where
  "check_bytes [] saw_escape input = (Some (InputBytes input), saw_escape)"
| "check_bytes (i # is) saw_escape input =
     (if i = 1 then check_bytes is True input
      else if saw_escape then
        (if i = 113 then (None, saw_escape)
         else if i = 111 then (Some PowerOn, saw_escape)
         else if i = 102 then (Some PowerOff, saw_escape)
         else if i = 114 then (Some PowerReset, saw_escape)
         else if i = 107 then (Some Up, saw_escape)
         else if i = 106 then (Some Down, saw_escape)
         else if i = 10 \<or> i = 48 then (Some ScrollReset, saw_escape)
         else check_bytes is False input)
      else check_bytes is False input)"

definition check_input :: "bytes \<Rightarrow> bool \<Rightarrow> Input option \<times> bool" where
  "check_input input saw_escape = check_bytes input saw_escape input"

text \<open>The stream over what the reads of the terminal yield, each of at most 4096 bytes.\<close>

fun input_stream :: "bytes list \<Rightarrow> bool \<Rightarrow> Input list" where
  "input_stream [] saw_escape = []"
| "input_stream (r # rs) saw_escape =
     (case check_input r saw_escape of
        (None, saw) \<Rightarrow> []
      | (Some i, saw) \<Rightarrow> i # input_stream rs saw)"

text \<open>
  The reader: power commands change the mode of the device, and panic if that fails; scrolling
  is handed to the writer, and panics if the writer has ended, which it does with the output of
  the console; bytes go to the console. Each input comes with whether the writer is still
  running. The result is the bytes for the console, the scroll commands handed over, and whether
  the task panicked. \<open>change_mode\<close> is the call of the client.
\<close>

definition mode_calls :: "Input \<Rightarrow> string list" where
  "mode_calls i =
     (case i of PowerOn \<Rightarrow> [''on''] | PowerOff \<Rightarrow> [''off''] | PowerReset \<Rightarrow> [''off'', ''on''] | _ \<Rightarrow> [])"

fun ui_change_modes :: "(string \<Rightarrow> 'w \<Rightarrow> (status, unit) result \<times> 'w) \<Rightarrow> string list \<Rightarrow> 'w \<Rightarrow> unit outcome \<times> 'w" where
  "ui_change_modes change_mode [] w = (Done (), w)"
| "ui_change_modes change_mode (m # ms) w =
     (case change_mode m w of
        (Ok _, w1) \<Rightarrow> ui_change_modes change_mode ms w1
      | (Err e, w1) \<Rightarrow> (Panicked, w1))"

definition is_scroll :: "Input \<Rightarrow> bool" where
  "is_scroll i \<longleftrightarrow> (case i of Up \<Rightarrow> True | Down \<Rightarrow> True | ScrollReset \<Rightarrow> True | _ \<Rightarrow> False)"

fun run_reader ::
  "(string \<Rightarrow> 'w \<Rightarrow> (status, unit) result \<times> 'w) \<Rightarrow> (Input \<times> bool) list \<Rightarrow> 'w \<Rightarrow>
   (bytes list \<times> Input list \<times> unit outcome) \<times> 'w" where
  "run_reader change_mode [] w = (([], [], Done ()), w)"
| "run_reader change_mode ((i, writer) # is) w =
     (case ui_change_modes change_mode (mode_calls i) w of
        (Panicked, w1) \<Rightarrow> (([], [], Panicked), w1)
      | (Done _, w1) \<Rightarrow>
          if is_scroll i \<and> \<not> writer then (([], [], Panicked), w1)
          else
            (case run_reader change_mode is w1 of
               ((sent, scrolls, r), w2) \<Rightarrow>
                 ((case i of InputBytes d \<Rightarrow> d # sent | _ \<Rightarrow> sent,
                   if is_scroll i then i # scrolls else scrolls, r), w2)))"

subsection \<open>The writer\<close>

text \<open>
  The terminal emulator with its scrollback: \<open>em_process\<close> takes the output of the console; the
  library bounds the offset that is set by its history.
\<close>

record 'v emulator =
  em_process :: "bytes \<Rightarrow> 'v \<Rightarrow> 'v"
  em_scrollback :: "'v \<Rightarrow> nat"
  em_set_scrollback :: "nat \<Rightarrow> 'v \<Rightarrow> 'v"
  em_set_size :: "u16 \<Rightarrow> u16 \<Rightarrow> 'v \<Rightarrow> 'v"
  em_hide_cursor :: "'v \<Rightarrow> bool"
  em_cursor_position :: "'v \<Rightarrow> u16 \<times> u16"

definition scroll :: "'v emulator \<Rightarrow> Input \<Rightarrow> 'v \<Rightarrow> 'v" where
  "scroll em i v =
     (let offset = em_scrollback em v in
      case i of
        Up \<Rightarrow> em_set_scrollback em (offset + 1) v
      | Down \<Rightarrow> if offset > 0 then em_set_scrollback em (offset - 1) v else v
      | ScrollReset \<Rightarrow> em_set_scrollback em 0 v
      | _ \<Rightarrow> v)"

text \<open>
  The window at the time of an update: whether it could be resized, what it reports, and the area of
  the frame. A frame shows the screen in an area at the origin, with the cursor or without.
\<close>

record window =
  win_resized :: bool
  win_size :: "(u16 \<times> u16) option"
  win_area :: "u16 \<times> u16"

record 'v frame =
  fr_screen :: 'v
  fr_width :: u16
  fr_height :: u16
  fr_cursor :: "(u16 \<times> u16) option"

definition update_terminal :: "'v emulator \<Rightarrow> TerminalSizeSetting \<Rightarrow> window \<Rightarrow> 'v \<Rightarrow> 'v \<times> 'v frame" where
  "update_terminal em setting win v =
     (let (width, height) = update_size setting (win_resized win) (win_size win);
          v1 = em_set_size em height width v
      in (v1, \<lparr>fr_screen = v1, fr_width = min width (fst (win_area win)),
               fr_height = min height (snd (win_area win)),
               fr_cursor = (if \<not> em_hide_cursor em v1 \<and> em_scrollback em v1 = 0
                            then (case em_cursor_position em v1 of (row, col) \<Rightarrow> Some (col, row)) else None)\<rparr>))"

text \<open>The events of the writer, in the order it takes them; the end of the output ends it.\<close>

datatype writer_event = ConsoleOutput bytes | ConsoleEnded | ReaderInput Input

fun run_writer ::
  "'v emulator \<Rightarrow> TerminalSizeSetting \<Rightarrow> (writer_event \<times> window) list \<Rightarrow> 'v \<Rightarrow> 'v \<times> 'v frame list" where
  "run_writer em setting [] v = (v, [])"
| "run_writer em setting ((ev, win) # evs) v =
     (let continue = (\<lambda>v1. case update_terminal em setting win v1 of (v2, fr) \<Rightarrow>
            case run_writer em setting evs v2 of (v3, frs) \<Rightarrow> (v3, fr # frs))
      in case ev of
           ConsoleOutput d \<Rightarrow> continue (em_process em d v)
         | ConsoleEnded \<Rightarrow> (v, [])
         | ReaderInput i \<Rightarrow> continue (scroll em i v))"

subsection \<open>Drawing (ui_term.rs)\<close>

datatype vt_color = DefaultColor | Idx u8 | Rgb u8 u8 u8
datatype tui_color = Indexed u8 | TuiRgb u8 u8 u8

fun conv_color :: "vt_color \<Rightarrow> tui_color option" where
  "conv_color DefaultColor = None"
| "conv_color (Idx n) = Some (Indexed n)"
| "conv_color (Rgb r g b) = Some (TuiRgb r g b)"

record vt_cell =
  vc_contents :: string
  vc_fg :: vt_color
  vc_bg :: vt_color
  vc_bold :: bool
  vc_italic :: bool
  vc_inverse :: bool
  vc_underline :: bool

datatype modifier = Bold | Italic | Reversed | Underlined

record tui_cell =
  tc_symbol :: string
  tc_fg :: "tui_color option"
  tc_bg :: "tui_color option"
  tc_mods :: "modifier list"

definition cell_modifiers :: "vt_cell \<Rightarrow> modifier list" where
  "cell_modifiers c =
     map snd (filter fst [(vc_bold c, Bold), (vc_italic c, Italic), (vc_inverse c, Reversed), (vc_underline c, Underlined)])"

text \<open>
  A style sets the colours it has and adds its modifiers. A cell without content becomes a
  blank with the style it had, and a cell outside the screen stays as it is.
\<close>

definition render_cell :: "vt_cell option \<Rightarrow> tui_cell \<Rightarrow> tui_cell" where
  "render_cell cell old =
     (case cell of
        None \<Rightarrow> old
      | Some c \<Rightarrow>
          if vc_contents c \<noteq> [] then
            \<lparr>tc_symbol = vc_contents c,
             tc_fg = (case conv_color (vc_fg c) of Some x \<Rightarrow> Some x | None \<Rightarrow> tc_fg old),
             tc_bg = (case conv_color (vc_bg c) of Some x \<Rightarrow> Some x | None \<Rightarrow> tc_bg old),
             tc_mods = remdups (tc_mods old @ cell_modifiers c)\<rparr>
          else old\<lparr>tc_symbol := '' ''\<rparr>)"

record rect = rx :: nat  ry :: nat  rwidth :: nat  rheight :: nat

definition render_cells :: "(nat \<Rightarrow> nat \<Rightarrow> vt_cell option) \<Rightarrow> rect \<Rightarrow> (nat \<times> nat \<Rightarrow> tui_cell) \<Rightarrow> nat \<times> nat \<Rightarrow> tui_cell" where
  "render_cells screen area buf =
     (\<lambda>(x, y).
        if rx area \<le> x \<and> x < rx area + rwidth area \<and> ry area \<le> y \<and> y < ry area + rheight area
        then render_cell (screen (y - ry area) (x - rx area)) (buf (x, y))
        else buf (x, y))"

text \<open>The label of the scrollback and its column, a subtraction that wraps in a release build.\<close>

definition scroll_label :: "nat \<Rightarrow> string option" where
  "scroll_label scrollback = (if scrollback > 0 then Some ('' -'' @ show_nat scrollback @ '' '') else None)"

definition label_column :: "u16 \<Rightarrow> u16 \<Rightarrow> string \<Rightarrow> u16" where
  "label_column x width label = x + width - of_nat (length label)"

subsection \<open>What the size argument accepts\<close>

lemma digits_value_append:
  "digits_value radix (s @ t) acc = Option.bind (digits_value radix s acc) (digits_value radix t)"
  by (induction radix s acc rule: digits_value.induct) (auto split: option.splits)

lemma char_digit_decimal: "n < 10 \<Longrightarrow> char_digit 10 (char_of (48 + n)) = Some n"
  by (simp add: char_digit_def)

lemma digits_show_nat: "digits_value 10 (show_nat n) 0 = Some n"
proof (induction n rule: show_nat.induct)
  case (1 n)
  show ?case
  proof (cases "n < 10")
    case True
    then show ?thesis by (subst show_nat.simps) (simp add: char_digit_decimal del: of_char_of)
  next
    case False
    then have "digits_value 10 (show_nat n) 0 = digits_value 10 (show_nat (n div 10) @ [char_of (48 + n mod 10)]) 0"
      by (subst show_nat.simps) simp
    also have "\<dots> = Some (n div 10 * 10 + n mod 10)"
      using 1 False char_digit_decimal [of "n mod 10"] by (simp add: digits_value_append)
    finally show ?thesis by simp
  qed
qed

lemma show_nat_digits: "show_nat n \<noteq> []" "c \<in> set (show_nat n) \<Longrightarrow> \<exists>d < 10. c = char_of (48 + d :: nat)"
proof (induction n rule: show_nat.induct)
  case (1 n)
  { case 1 then show ?case by (subst show_nat.simps) simp }
  { case 2
    show ?case
    proof (cases "n < 10")
      case True
      with 2 show ?thesis by (subst (asm) show_nat.simps) auto
    next
      case False
      with 2 have "c \<in> set (show_nat (n div 10)) \<or> c = char_of (48 + n mod 10)"
        by (subst (asm) show_nat.simps) auto
      with 1(2) [OF False] show ?thesis by (metis mod_less_divisor zero_less_numeral)
    qed }
qed

lemma of_char_decimal: "d < 10 \<Longrightarrow> of_char (char_of (48 + d) :: char) = (48 + d :: nat)"
  by simp

lemma show_nat_chars: "CHR ''x'' \<notin> set (show_nat n)" "hd (show_nat n) \<noteq> CHR ''+''"
proof -
  have no: "c \<noteq> char_of (48 + d)" if "d < 10" "c = CHR ''x'' \<or> c = CHR ''+''" for c and d :: nat
    using of_char_decimal [OF that(1)] that by (elim disjE) (auto dest!: arg_cong [where f = "of_char :: char \<Rightarrow> nat"])
  show "CHR ''x'' \<notin> set (show_nat n)" using show_nat_digits(2) no by blast
  have "hd (show_nat n) \<in> set (show_nat n)" using show_nat_digits(1) by simp
  from show_nat_digits(2) [OF this] no show "hd (show_nat n) \<noteq> CHR ''+''" by blast
qed

lemma from_str_show: "n < 2 ^ bits \<Longrightarrow> from_str_radix bits 10 (show_nat n) = Some n"
proof -
  assume n: "n < 2 ^ bits"
  obtain c cs where s: "show_nat n = c # cs" using show_nat_digits(1) [of n] by (cases "show_nat n") auto
  then have "c \<noteq> CHR ''+''" using show_nat_chars(2) [of n] by simp
  then show ?thesis using s digits_show_nat [of n] n by (simp add: from_str_radix_def)
qed

lemma parse_show_u16: "parse_u16 (show_nat (unat w)) = Ok w"
proof -
  have "unat w < 2 ^ 16" using unsigned_less [of w] by simp
  from from_str_show [OF this] show ?thesis by (simp add: parse_u16_def)
qed

lemma split_once_append: "c \<notin> set w \<Longrightarrow> split_once c (w @ c # h) = Some (w, h)"
proof -
  assume c: "c \<notin> set w"
  then have "dropWhile (\<lambda>x. x \<noteq> c) (w @ c # h) = c # h" by (subst dropWhile_append2) auto
  moreover have "takeWhile (\<lambda>x. x \<noteq> c) (w @ c # h) = w" using c by (subst takeWhile_append2) auto
  ultimately show ?thesis by (simp add: split_once_def)
qed

text \<open>
  Every size can be given: the decimal width and height with an \<open>x\<close> between them are read
  back, a zero is refused, and whatever is accepted as a fixed size has no zero.
\<close>

theorem terminal_size_roundtrip:
  "size_from_str (show_nat (unat w) @ CHR ''x'' # show_nat (unat h)) =
     (if w = 0 \<or> h = 0 then Err InvalidSizeError else Ok (Fixed w h)) \<and>
   size_from_str fmt \<noteq> Ok (Fixed 0 h) \<and> size_from_str fmt \<noteq> Ok (Fixed w 0)"
proof -
  let ?s = "show_nat (unat w) @ CHR ''x'' # show_nat (unat h)"
  have "CHR ''x'' \<in> set ?s" by simp
  moreover have "CHR ''x'' \<notin> set ''auto''" by simp
  ultimately have "?s \<noteq> ''auto''" by metis
  then have "size_from_str ?s = (if w = 0 \<or> h = 0 then Err InvalidSizeError else Ok (Fixed w h))"
    using show_nat_chars(1) [of "unat w"] by (simp add: size_from_str_def split_once_append parse_show_u16)
  moreover have "size_from_str fmt \<noteq> Ok (Fixed 0 h)" "size_from_str fmt \<noteq> Ok (Fixed w 0)"
    by (auto simp: size_from_str_def result_bind_def split: option.splits sum.splits if_splits)
  ultimately show ?thesis by simp
qed

subsection \<open>What the escape does\<close>

lemma check_plain: "1 \<notin> set bs \<Longrightarrow> check_bytes bs False r = (Some (InputBytes r), False)"
  by (induction bs) auto

text \<open>Input without control-a reaches the console unchanged, read by read.\<close>

lemma plain_input_forwarded:
  assumes "\<forall>r \<in> set rs. 1 \<notin> set r"
  shows "run_reader change_mode (map (\<lambda>i. (i, writer)) (input_stream rs False)) w = ((rs, [], Done ()), w)"
  using assms
proof (induction rs)
  case (Cons r rs)
  then have "input_stream (r # rs) False = InputBytes r # input_stream rs False"
    by (simp add: check_input_def check_plain)
  with Cons show ?case by (simp add: mode_calls_def is_scroll_def)
qed simp

text \<open>
  A command does not end the escape: until a byte that is no command, what is typed next is
  taken for commands as well, and the rest of the read of a command is lost.
\<close>

lemma escape_stays_armed:
  "input_stream [[1, 111], [111], [102]] False = [PowerOn, PowerOn, PowerOff]"
  by (simp add: check_input_def)

lemma command_drops_rest: "check_input ([1, 111] @ rest) False = (Some PowerOn, True)"
  by (simp add: check_input_def)

text \<open>At the end of the terminal's input every read is empty, and is sent as such.\<close>

lemma end_of_input_sent: "input_stream (replicate n []) False = replicate n (InputBytes [])"
  by (induction n) (simp_all add: check_input_def)

text \<open>A power command the server refuses panics the reader, which ends the interface.\<close>

lemma failed_power_panics:
  assumes "change_mode ''on'' w = (Err e, w1)"
  shows "run_reader change_mode ((PowerOn, writer) # is) w = (([], [], Panicked), w1)"
  using assms by (simp add: mode_calls_def)

text \<open>So does scrolling once the output of the console has ended.\<close>

lemma scroll_after_output_panics:
  "run_reader change_mode ((Up, False) # is) w = (([], [], Panicked), w)"
  by (simp add: mode_calls_def is_scroll_def)

text \<open>
  The emulator is given the whole output of the console, in order, whatever is typed meanwhile:
  with \<open>seen\<close> what an emulator has processed, that is the output up to its end.
\<close>

fun output_of :: "writer_event list \<Rightarrow> bytes list" where
  "output_of [] = []"
| "output_of (ConsoleOutput d # evs) = d # output_of evs"
| "output_of (ConsoleEnded # evs) = []"
| "output_of (ReaderInput i # evs) = output_of evs"

lemma writer_processes_output:
  assumes "\<And>d v. seen (em_process em d v) = seen v @ [d]"
    and "\<And>n v. seen (em_set_scrollback em n v) = seen v" "\<And>h w v. seen (em_set_size em h w v) = seen v"
    and "run_writer em setting evs v = (v', frs)"
  shows "seen v' = seen v @ output_of (map fst evs)"
  using assms(4)
proof (induction evs arbitrary: v v' frs)
  case (Cons x evs)
  obtain ev win where x: "x = (ev, win)" by (cases x)
  have scroll: "seen (scroll em i v) = seen v" for i by (cases i) (simp_all add: scroll_def Let_def assms(2))
  have update: "seen (fst (update_terminal em setting win w)) = seen w" for w
    by (simp add: update_terminal_def Let_def split_beta assms(3))
  have go_on: "seen (fst (run_writer em setting evs (fst (update_terminal em setting win v1)))) =
      seen v1 @ output_of (map fst evs)" for v1
    using Cons.IH [OF surjective_pairing] update by simp
  show ?case
    using Cons.prems x by (cases ev) (auto simp: Let_def split_beta go_on scroll assms(1))
qed simp

lemma cursor_only_at_bottom:
  "fr_cursor (snd (update_terminal em setting win v)) \<noteq> None \<Longrightarrow>
   em_scrollback em (fst (update_terminal em setting win v)) = 0"
  by (simp add: update_terminal_def Let_def split_beta split: if_splits)

text \<open>The label of the scrollback is placed left of the screen when the screen is narrower.\<close>

lemma label_column_wraps: "label_column 0 3 '' -12 '' = 65534"
  by (simp add: label_column_def)

end
