(* ===== verification/Flash_Path.thy ===== *)
theory Flash_Path
  imports Cli_Image Rockusb Volume_Session Volume_Read
begin

section \<open>From a file on the command line to the flash of a board\<close>

text \<open>
  The parts composed: the write command (Cli_Image) over the batch writer and the stream of the
  client (Async_Io, Batch_Writer, Volume_Client), the session between client and server
  (Volume_Session), and the loader target of a Rockchip board (Rockusb). The requests the
  client has sent are those the server runs. The lemmas: a writer sends only writes of at least
  one byte and a shutdown; a session of such requests lays what they write over the flash; and
  what a write command reports as written is on the flash, the rest of the flash as it was.
\<close>

subsection \<open>What a writer sends\<close>

fun plain :: "TargetOrRequest \<Rightarrow> bool" where
  "plain (ReqWrite d off) = (d \<noteq> [])"
| "plain (ReqTarget v t l) = False"
| "plain q = True"

lemma plain_not_target: "list_all plain qs \<Longrightarrow> list_all (\<lambda>q. \<not> is_target q) qs"
  by (auto simp: list_all_iff is_target_def split: TargetOrRequest.splits)

text \<open>An operation that keeps a property of the state, whatever it returns.\<close>

definition keeps :: "('w \<Rightarrow> bool) \<Rightarrow> ('w \<Rightarrow> 'a \<times> 'w) \<Rightarrow> bool" where
  "keeps I m \<longleftrightarrow> (\<forall>w. I w \<longrightarrow> I (snd (m w)))"

lemma keepsD: "keeps I m \<Longrightarrow> m w = (r, w') \<Longrightarrow> I w \<Longrightarrow> I w'"
  by (metis keeps_def snd_conv)

lemma keeps_return: "keeps I (\<lambda>w. (r, w))"
  by (simp add: keeps_def)

lemma keeps_then:
  assumes "keeps I m" "\<And>a. keeps I (f a)"
  shows "keeps I (await_then m f)"
  unfolding keeps_def
proof (intro allI impI)
  fix w assume I: "I w"
  obtain r w1 where m: "m w = (r, w1)" by force
  with keepsD [OF assms(1) m I] assms(2) show "I (snd (await_then m f w))"
    by (auto simp: await_then_def keeps_def split: awaited.splits sum.splits)
qed

lemma keeps_map_err: "keeps I m \<Longrightarrow> keeps I (await_map_err h m)"
  by (auto simp: keeps_def await_map_err_def split: prod.splits awaited.splits)

lemma keeps_each: "(\<And>x. keeps I (f x)) \<Longrightarrow> keeps I (await_each f xs)"
proof (induction xs)
  case Nil
  show ?case by (simp add: keeps_def)
next
  case (Cons x xs)
  then have "keeps I (await_then (f x) (\<lambda>_. await_each f xs))" by (simp add: keeps_then)
  then show ?case by (simp add: keeps_def)
qed

lemma keeps_polls:
  assumes "\<And>e. keeps I (poll e)"
  shows "keeps (\<lambda>(feed, bw). I bw) (\<lambda>(feed, bw). await_polls poll feed bw)"
proof -
  have "I bw \<Longrightarrow> I (snd (snd (await_polls poll feed bw)))" for feed bw
  proof (induction feed arbitrary: bw)
    case Nil
    then show ?case by simp
  next
    case (Cons e feed)
    obtain r b where r: "poll e bw = (r, b)" by force
    with keepsD [OF assms r Cons.prems] Cons.IH show ?case
      by (auto split: polled.splits poll.splits)
  qed
  then show ?thesis by (simp add: keeps_def split_beta)
qed

subsection \<open>The batch writer sends plain requests\<close>

definition rw_plain :: "VolumeIoRW \<Rightarrow> bool" where
  "rw_plain rw \<longleftrightarrow> list_all plain (rw_sent rw)"

definition bw_plain :: "VolumeIoRW BatchWriter \<Rightarrow> bool" where
  "bw_plain bw \<longleftrightarrow> rw_plain (bw_writer bw) \<and> bw_state bw \<noteq> Some []"

lemma poll_write_plain: "b \<noteq> [] \<Longrightarrow> keeps rw_plain (rw_poll_write env b)"
  unfolding keeps_def
proof (intro allI impI)
  fix rw assume "b \<noteq> []" "rw_plain rw"
  moreover obtain r rw' where r: "rw_poll_write env b rw = (r, rw')" by force
  ultimately show "rw_plain (snd (rw_poll_write env b rw))"
    using poll_write_result [OF r]
    by (auto simp: write_result_def rw_plain_def MAX_WRITE_SIZE_def split: polled.splits poll.splits sum.splits)
qed

lemma poll_shutdown_plain: "keeps rw_plain (rw_poll_shutdown env)"
proof -
  have "rw_plain rw \<Longrightarrow> rw_plain (snd (rw_poll_shutdown env rw))" for rw
  proof (induction env rw rule: rw_poll_shutdown.induct)
    case (1 env rw)
    obtain c rw1 where c: "cleanup_pending_requests env rw = (c, rw1)" by force
    note f = cleanup_frame(1) [OF c]
    show ?case
    proof (cases c)
      case (Inl e)
      with 1(5) c f show ?thesis by (subst rw_poll_shutdown.simps) (simp add: rw_plain_def)
    next
      case (Inr u)
      note IH = 1(1-4) [OF c [symmetric] Inr]
      from 1(5) c f Inr IH show ?thesis
        by (subst rw_poll_shutdown.simps)
           (auto simp: rw_plain_def send_request_def split: io_state.split bool.split poll.split)
    qed
  qed
  then show ?thesis by (simp add: keeps_def)
qed

lemma flush_data_plain: "keeps bw_plain (batch_flush_data rw_poll_write envs)"
proof -
  have "bw_plain bw \<Longrightarrow> bw_plain (snd (batch_flush_data rw_poll_write envs bw))" for bw
  proof (induction envs arbitrary: bw)
    case Nil
    then show ?case by (subst batch_flush_data.simps) (simp split: option.split)
  next
    case (Cons env envs)
    show ?case
    proof (cases "bw_state bw")
      case None
      with Cons.prems show ?thesis by (subst batch_flush_data.simps) simp
    next
      case (Some b)
      obtain x w where x: "rw_poll_write env b (bw_writer bw) = (x, w)" by force
      from Cons.prems Some have "b \<noteq> []" "rw_plain (bw_writer bw)" by (auto simp: bw_plain_def)
      with keepsD [OF poll_write_plain x] have "rw_plain w" by blast
      then have keep: "bw_plain (bw\<lparr>bw_writer := w\<rparr>)"
        "bw_plain (bw\<lparr>bw_writer := w, bw_state := if length b \<le> n then None else Some (drop n b)\<rparr>)" for n
        using Some \<open>b \<noteq> []\<close> by (simp_all add: bw_plain_def)
      show ?thesis
        using Some x keep(1) Cons.IH [OF keep(2)]
        by (subst batch_flush_data.simps) (simp split: polled.split poll.split sum.split)
    qed
  qed
  then show ?thesis by (simp add: keeps_def)
qed

lemma batch_write_plain: "buf \<noteq> [] \<Longrightarrow> keeps bw_plain (batch_poll_write rw_poll_write env buf)"
  unfolding keeps_def
proof (intro allI impI)
  fix bw assume b: "buf \<noteq> []" and I: "bw_plain bw"
  show "bw_plain (snd (batch_poll_write rw_poll_write env buf bw))"
  proof (cases "bw_state bw")
    case None
    with b I keepsD [OF poll_write_plain [OF b]] show ?thesis
      by (fastforce simp: batch_poll_write_def bw_plain_def split: prod.splits)
  next
    case (Some c)
    let ?b1 = "c @ take (bw_buffer_size bw - length c) buf"
    obtain x w where x: "rw_poll_write env ?b1 (bw_writer bw) = (x, w)" by force
    from I Some have "c \<noteq> []" by (auto simp: bw_plain_def)
    with I keepsD [OF poll_write_plain x] have "rw_plain w" by (simp add: bw_plain_def)
    with Some I x \<open>c \<noteq> []\<close> show ?thesis
      by (auto simp: batch_poll_write_def bw_plain_def Let_def split: polled.split poll.split sum.split)
  qed
qed

lemma write_all_plain: "bw_plain bw \<Longrightarrow> bw_plain (snd (snd (batch_write_all buf feed bw)))"
proof (induction feed arbitrary: buf bw)
  case Nil
  then show ?case by simp
next
  case (Cons e feed)
  obtain r b where r: "batch_poll_write rw_poll_write (fst e) buf bw = (r, b)" by force
  show ?case
  proof (cases "buf = []")
    case True
    with Cons.prems show ?thesis by simp
  next
    case False
    with keepsD [OF batch_write_plain [OF False] r Cons.prems] r Cons.IH show ?thesis
      by (auto split: polled.split poll.split sum.split)
  qed
qed

lemma poll_flush_rw_plain: "keeps rw_plain (rw_poll_flush env)"
proof -
  have "rw_plain rw \<Longrightarrow> rw_plain (snd (rw_poll_flush env rw))" for rw
  proof (induction env rw rule: rw_poll_flush.induct)
    case (1 env rw)
    obtain c rw1 where c: "cleanup_pending_requests env rw = (c, rw1)" by force
    note f = cleanup_frame(1) [OF c]
    show ?case
    proof (cases c)
      case (Inl e)
      with 1 c f show ?thesis by (subst rw_poll_flush.simps) (simp add: rw_plain_def)
    next
      case (Inr u)
      note IH = 1(1-3) [OF c [symmetric] Inr]
      from 1(4) f have plain: "rw_plain rw1" "rw_plain (rw1\<lparr>rw_state := s\<rparr>)"
        "rw_plain (send_request ReqFlush (rw1\<lparr>rw_pending := ps, rw_state := s\<rparr>))" for s ps
        by (simp_all add: rw_plain_def send_request_def)
      show ?thesis
      proof (cases "rw_state rw1")
        case Idle
        with c Inr IH(1) plain show ?thesis by (subst rw_poll_flush.simps) simp
      next
        case (Reserve b)
        show ?thesis
        proof (cases "\<not> b \<and> env_reserve env = Ready True")
          case True
          with c Inr Reserve IH(2) [of False True] plain show ?thesis by (subst rw_poll_flush.simps) simp
        next
          case False
          with c Inr Reserve plain show ?thesis
            by (subst rw_poll_flush.simps) (cases b; cases "env_reserve env"; simp)
        qed
      next
        case (Reading n)
        with c Inr IH(3) plain show ?thesis by (subst rw_poll_flush.simps) simp
      qed (use c Inr plain in \<open>subst rw_poll_flush.simps, simp\<close>)+
    qed
  qed
  then show ?thesis by (simp add: keeps_def)
qed

text \<open>So does every operation of the asynchronous writer.\<close>

abbreviation stack_plain :: "batch_stack \<Rightarrow> bool" where
  "stack_plain \<equiv> \<lambda>(feed, bw). bw_plain bw"

lemma start_seek_plain: "batch_start_seek p bw = (r, bw') \<Longrightarrow> bw_plain bw \<Longrightarrow> bw_plain bw'"
  by (auto simp: batch_start_seek_def rw_start_seek_def bw_plain_def rw_plain_def
      split: option.splits if_splits prod.splits)

lemma poll_complete_plain: "keeps bw_plain (batch_poll_complete rw_poll_write envs)"
proof -
  have start: "rw_plain w \<Longrightarrow> rw_start_seek p w = (r, w') \<Longrightarrow> rw_plain w'"
    and complete: "rw_plain w \<Longrightarrow> rw_poll_complete w = (q, w') \<Longrightarrow> rw_plain w'" for w p r q w'
    by (auto simp: rw_start_seek_def rw_poll_complete_def rw_plain_def Let_def split: if_splits option.splits SeekFrom.splits)
  show ?thesis
    unfolding keeps_def
  proof (intro allI impI)
    fix bw assume I: "bw_plain bw"
    obtain r b where r: "batch_flush_data rw_poll_write envs bw = (r, b)" by force
    from keepsD [OF flush_data_plain r I] have b: "bw_plain b" .
    show "bw_plain (snd (batch_poll_complete rw_poll_write envs bw))"
    proof (cases "r = Polled (Ready (Ok ()))")
      case True
      obtain r1 w1 where w1: "(case bw_pending_seek b of
          Some position \<Rightarrow> rw_start_seek position (bw_writer b) | None \<Rightarrow> (Ok (), bw_writer b)) = (r1, w1)" by force
      obtain q w2 where w2: "rw_poll_complete w1 = (q, w2)" by force
      from b w1 start have "rw_plain w1" by (auto simp: bw_plain_def split: option.splits)
      with complete [OF _ w2] b r True w1 w2 show ?thesis
        by (cases r1) (simp_all add: batch_poll_complete_def bw_plain_def)
    next
      case False
      with b r show ?thesis
        by (auto simp: batch_poll_complete_def split: polled.split poll.split sum.split)
    qed
  qed
qed

lemma then_plain:
  assumes "keeps rw_plain op_poll"
  shows "keeps bw_plain (batch_then rw_poll_write op_poll envs)"
  unfolding keeps_def
proof (intro allI impI)
  fix bw assume I: "bw_plain bw"
  obtain r b where r: "batch_flush_data rw_poll_write envs bw = (r, b)" by force
  from keepsD [OF flush_data_plain r I] keepsD [OF assms] r
  show "bw_plain (snd (batch_then rw_poll_write op_poll envs bw))"
    by (auto simp: batch_then_def bw_plain_def split: prod.splits polled.splits poll.splits sum.splits)
qed

lemma poll_flush_plain: "keeps bw_plain (batch_poll_flush rw_poll_write (rw_poll_flush env) envs)"
  using then_plain [OF poll_flush_rw_plain, of env envs] by (auto simp: batch_poll_flush_def keeps_def)

lemma shutdown_plain: "keeps bw_plain (batch_poll_shutdown rw_poll_write (rw_poll_shutdown env) envs)"
  unfolding batch_poll_shutdown_def by (rule then_plain [OF poll_shutdown_plain])

lemma async_plain:
  "keeps stack_plain (wr_write_all batch_async d)" "keeps stack_plain (wr_flush batch_async)"
  "keeps stack_plain (wr_seek batch_async p)" "keeps stack_plain (wr_shutdown batch_async)"
proof -
  show "keeps stack_plain (wr_write_all batch_async d)"
    by (auto simp: keeps_def batch_async_def split_beta intro: write_all_plain)
  show "keeps stack_plain (wr_flush batch_async)"
    using keeps_polls [of bw_plain "\<lambda>(env, envs). batch_poll_flush rw_poll_write (rw_poll_flush env) envs"]
    by (simp add: batch_async_def poll_flush_plain split_beta)
  show "keeps stack_plain (wr_shutdown batch_async)"
    using keeps_polls [of bw_plain "\<lambda>(env, envs). batch_poll_shutdown rw_poll_write (rw_poll_shutdown env) envs"]
    by (simp add: batch_async_def shutdown_plain split_beta)
  have polls: "keeps stack_plain (\<lambda>(feed, bw). await_polls (\<lambda>(_, envs). batch_poll_complete rw_poll_write envs) feed bw)"
    by (rule keeps_polls) (simp add: poll_complete_plain split_beta)
  have start: "keeps stack_plain (\<lambda>(feed, bw). case batch_start_seek p bw of (r, bw1) \<Rightarrow> (Returned r, feed, bw1))"
    by (auto simp: keeps_def split: prod.splits dest: start_seek_plain)
  show "keeps stack_plain (wr_seek batch_async p)"
    unfolding batch_async_def batch_seek_def async_writer.simps
    by (intro keeps_then polls start)
qed

lemma copy_plain: "keeps stack_plain (copy_to batch_async d)"
  unfolding copy_to_def by (intro keeps_then keeps_each async_plain)

lemma write_file_plain: "keeps stack_plain (write_file batch_async offset file)"
  unfolding write_file_def
  by (intro keeps_then copy_plain async_plain) (cases offset; simp add: keeps_return keeps_then async_plain)

lemma chunks_plain: "keeps stack_plain (write_chunks rd batch_async header n f)"
proof (induction n arbitrary: f)
  case 0
  then show ?case by (simp add: keeps_def)
next
  case (Suc n)
  have step: "keeps stack_plain (await_then (await_map_err ImageWrite m) (\<lambda>_. write_chunks rd batch_async header n g))"
    if "keeps stack_plain m" for m :: "batch_stack \<Rightarrow> (io_error, 'x) result awaited \<times> batch_stack" and g
    using that by (intro keeps_then keeps_map_err Suc.IH)
  note steps = step [OF copy_plain] step [OF keeps_each [where f = "wr_write_all batch_async", OF async_plain(1)]] step [OF async_plain(3)] Suc.IH
  have "stack_plain (snd (write_chunks rd batch_async header (Suc n) f w))" if "stack_plain w" for w
    using that steps [THEN keeps_def [THEN iffD1], rule_format, OF that]
    by (simp add: Let_def split: option.split ChunkType.split)
  then show ?case by (simp add: keeps_def)
qed

lemma write_aimg_plain: "keeps stack_plain (write_aimg rd batch_async path)"
proof -
  have "keeps stack_plain (await_then (write_chunks rd batch_async h n f) (\<lambda>_. await_map_err ImageWrite (wr_shutdown batch_async)))"
    for h n f by (intro keeps_then keeps_map_err chunks_plain async_plain)
  then show ?thesis unfolding keeps_def write_aimg_def by (auto split: option.split)
qed

lemma fresh_plain: "batch_new (rw_new info) = Done bw \<Longrightarrow> bw_plain (batch_discard_flush bw)"
  by (auto simp: batch_new_def rw_new_def batch_discard_flush_def bw_plain_def rw_plain_def split: outcome.splits)

subsection \<open>What plain requests write\<close>

text \<open>A disk with some of its bytes replaced.\<close>

definition overlay :: "bytes \<Rightarrow> (nat \<rightharpoonup> u8) \<Rightarrow> bytes" where
  "overlay d m = map (\<lambda>i. case m i of None \<Rightarrow> d ! i | Some x \<Rightarrow> x) [0..<length d]"

lemma length_overlay [simp]: "length (overlay d m) = length d"
  by (simp add: overlay_def)

lemma overlay_empty [simp]: "overlay d Map.empty = d"
  by (simp add: overlay_def map_nth)

lemma overlay_add: "overlay (overlay d m) m' = overlay d (m ++ m')"
  by (rule nth_equalityI) (auto simp: overlay_def map_add_def split: option.split)

lemma dom_write_at: "dom (write_at n xs) = {n..<n + length xs}"
  by (auto simp: write_at_def split: if_splits)

lemma splice_overlay: "n + length xs \<le> length d \<Longrightarrow> splice d n xs = overlay d (write_at n xs)"
  by (rule nth_equalityI) (auto simp: overlay_def write_at_def splice_def nth_append)

lemma volume_content_Cons: "volume_content (q # qs) = placed q ++ volume_content qs"
proof (induction qs rule: rev_induct)
  case Nil
  show ?case using volume_content_simps(2) [of "[]" q] by simp
next
  case (snoc x qs)
  have "volume_content (q # qs @ [x]) = volume_content (q # qs) ++ placed x"
    using volume_content_simps(2) [of "q # qs" x] by simp
  with snoc show ?case by simp
qed

lemma array_content: "array_session d qs rs d' \<Longrightarrow> d' = overlay d (volume_content qs)"
proof (induction rule: array_session.induct)
  case (writes off xs d qs rs d')
  then show ?case by (simp add: volume_content_Cons splice_overlay overlay_add)
qed (simp_all add: volume_content_Cons)

text \<open>Plain requests stay where they write.\<close>

lemma plain_within:
  "list_all plain qs \<Longrightarrow> dom (volume_content qs) \<subseteq> {..<n} \<Longrightarrow> list_all (within n) qs"
proof (induction qs)
  case Nil
  then show ?case by simp
next
  case (Cons q qs)
  then have tail: "list_all (within n) qs" by (simp add: volume_content_Cons)
  show ?case
  proof (cases q)
    case (ReqWrite d off)
    with Cons.prems have "d \<noteq> []" "{unat off..<unat off + length d} \<subseteq> {..<n}"
      by (auto simp: volume_content_Cons dom_write_at)
    then have "unat off + (length d - 1) < n"
      by (auto dest!: subsetD [of _ _ "unat off + (length d - 1)"] simp: neq_Nil_conv)
    with \<open>d \<noteq> []\<close> ReqWrite tail show ?thesis by (cases d) auto
  qed (use Cons.prems(1) tail in simp_all)
qed

lemma dom_expand: "dom (expand_parts n ps) \<subseteq> {..<n + parts_size ps}"
proof (induction ps arbitrary: n)
  case Nil
  then show ?case by (simp add: parts_size_def)
next
  case (Cons p ps)
  have "length (part_data p) \<le> part_size p" by (cases p) simp_all
  then have "dom (write_at n (part_data p)) \<subseteq> {..<n + parts_size (p # ps)}"
    by (auto simp: dom_write_at parts_size_def)
  with Cons.IH [of "n + part_size p"] show ?case by (auto simp: parts_size_def)
qed

subsection \<open>A session with the loader target\<close>

text \<open>
  The library on a board whose loader runs: as in Rockusb, it can be opened without effect on
  the flash, and a read returns at least one byte if there is one.
\<close>

definition loader_laws ::
  "('u, 'e, 'i, 'w) rockusb_lib \<Rightarrow> usb_address \<Rightarrow> ('w \<Rightarrow> bytes) \<Rightarrow> ('w \<Rightarrow> nat) \<Rightarrow> bool" where
  "loader_laws lib a disk pos \<longleftrightarrow>
     flash_laws lib a disk pos \<and>
     (\<forall>w. \<exists>w'. rl_open lib a w = (Ok (), w') \<and> disk w' = disk w) \<and>
     (\<forall>w. \<exists>w'. rl_into_io lib a w = (Ok (), w') \<and> disk w' = disk w) \<and>
     (\<forall>n w w'. rl_io_read lib a n w = (Ok [], w') \<longrightarrow> n = 0 \<or> length (disk w) \<le> pos w)"

lemma open_io_keeps:
  assumes "loader_laws lib a disk pos"
  shows "\<exists>w'. open_io lib a w = (Ok (), w') \<and> disk w' = disk w"
proof -
  from assms obtain w1 where "rl_open lib a w = (Ok (), w1)" "disk w1 = disk w"
    unfolding loader_laws_def by blast
  moreover from assms obtain w2 where "rl_into_io lib a w1 = (Ok (), w2)" "disk w2 = disk w1"
    unfolding loader_laws_def by blast
  ultimately show ?thesis by (simp add: open_io_def open_device_def try_then_def)
qed

lemma world_loop:
  "volume_io_loop (world_target vt) ms b =
     (case volume_io_loop vt ms (bx_world b) of (cs, w) \<Rightarrow> (cs, b\<lparr>bx_world := w\<rparr>))"
proof (induction ms arbitrary: b)
  case Nil
  then show ?case by simp
next
  case (Cons m ms)
  show ?case
    by (cases "(vt, m # ms, bx_world b)" rule: volume_io_loop.cases)
       (auto simp: Cons world_target_def [THEN arg_cong [where f = vt_read]]
          world_target_def [THEN arg_cong [where f = vt_write]]
          world_target_def [THEN arg_cong [where f = vt_flush]]
          world_target_def [THEN arg_cong [where f = vt_shutdown]] on_world_def Let_def split_beta)
qed

lemma loader_client_session:
  assumes "loader_laws lib (rock_address rock) disk pos"
    and "get_volume s (U64Index v) = Some (rockusb_volume lib rock)"
    and "rock_mode rock = Loader name sz" "rock_targets rock = mode_targets (Loader name sz)"
    and "list_all (\<lambda>q. \<not> is_target q) qs" "length qs < alive"
  shows "\<exists>w1 cs w'. disk w1 = disk (bx_world b) \<and>
    volume_io_loop (loader_target lib (rock_address rock)) (requests qs) w1 = (cs, w') \<and>
    client_session up_to_error s v name len qs alive b =
      (Ok (hd (mode_targets (Loader name sz)), session_results qs cs), b\<lparr>bx_world := w'\<rparr>)"
proof -
  let ?vt = "loader_target lib (rock_address rock)"
  from open_io_keeps [OF assms(1)] obtain w1 where
    w1: "open_io lib (rock_address rock) (bx_world b) = (Ok (), w1)" "disk w1 = disk (bx_world b)" by blast
  then have opened: "vol_open (rockusb_volume lib rock) name len b =
      (Ok (hd (mode_targets (Loader name sz)), world_target ?vt), b\<lparr>bx_world := w1\<rparr>)"
    by (simp add: rockusb_volume_def rockusb_open_def assms(3,4) on_world_def)
  obtain cs w' where run: "volume_io_loop ?vt (requests qs) w1 = (cs, w')" by force
  with session_runs [OF refl assms(2) opened assms(5,6)] w1(2) show ?thesis
    by (auto simp: world_loop)
qed

text \<open>A write session leaves the flash with what its requests write, and every request succeeds.\<close>

lemma array_results: "array_session d qs cs d' \<Longrightarrow> list_all (\<lambda>r. \<not> isl r) (session_results qs cs)"
  by (induction rule: array_session.induct) simp_all

lemma written_on_flash:
  assumes "loader_laws lib (rock_address rock) disk pos"
    and "get_volume s (U64Index v) = Some (rockusb_volume lib rock)"
    and "rock_mode rock = Loader name sz" "rock_targets rock = mode_targets (Loader name sz)"
    and "list_all plain qs" "length qs < alive" "dom (volume_content qs) \<subseteq> {..<length (disk (bx_world b))}"
  shows "\<exists>results b'. client_session up_to_error s v name len qs alive b =
      (Ok (hd (mode_targets (Loader name sz)), results), b') \<and> list_all (\<lambda>r. \<not> isl r) results \<and>
    disk (bx_world b') = overlay (disk (bx_world b)) (volume_content qs)"
proof -
  from loader_client_session [OF assms(1-4) plain_not_target [OF assms(5)] assms(6)] obtain w1 cs w' where
    "disk w1 = disk (bx_world b)"
    and run: "volume_io_loop (loader_target lib (rock_address rock)) (requests qs) w1 = (cs, w')"
    and eq: "client_session up_to_error s v name len qs alive b =
      (Ok (hd (mode_targets (Loader name sz)), session_results qs cs), b\<lparr>bx_world := w'\<rparr>)" by blast
  moreover have "flash_laws lib (rock_address rock) disk pos" using assms(1) by (simp add: loader_laws_def)
  ultimately have "array_session (disk (bx_world b)) qs cs (disk w')"
    using loader_session [of lib "rock_address rock" disk pos w1 qs cs w'] plain_within [OF assms(5,7)] by simp
  from array_content [OF this] array_results [OF this] eq show ?thesis by auto
qed

text \<open>
  What a write command reports as written is on the flash after the session of its requests: a
  file from its offset on, an image as it expands. The rest of the flash is as before.
\<close>

lemma file_on_flash:
  assumes "loader_laws lib (rock_address rock) disk pos"
    and "get_volume s (U64Index v) = Some (rockusb_volume lib rock)"
    and "rock_mode rock = Loader name sz" "rock_targets rock = mode_targets (Loader name sz)"
    and "batch_new (rw_new info) = Done bw"
    and "write_file batch_async offset file (feed, batch_discard_flush bw) = (Returned (Ok ()), feed', bw')"
    and "(case offset of None \<Rightarrow> 0 | Some off \<Rightarrow> unat off) + length file \<le> length (disk (bx_world b))"
    and "length (disk (bx_world b)) < 2 ^ 64" "length (rw_sent (bw_writer bw')) < alive"
  shows "\<exists>results b'. client_session up_to_error s v name len (rw_sent (bw_writer bw')) alive b =
      (Ok (hd (mode_targets (Loader name sz)), results), b') \<and> list_all (\<lambda>r. \<not> isl r) results \<and>
    disk (bx_world b') =
      splice (disk (bx_world b)) (case offset of None \<Rightarrow> 0 | Some off \<Rightarrow> unat off) file"
proof -
  have "bw_plain bw'" using keepsD [OF write_file_plain assms(6)] fresh_plain [OF assms(5)] by simp
  then have plain: "list_all plain (rw_sent (bw_writer bw'))" by (simp add: bw_plain_def rw_plain_def)
  from file_written [OF assms(5,6)] assms(7,8) have content: "volume_content (rw_sent (bw_writer bw')) =
      write_at (case offset of None \<Rightarrow> 0 | Some off \<Rightarrow> unat off) file" by simp
  then have dom: "dom (volume_content (rw_sent (bw_writer bw'))) \<subseteq> {..<length (disk (bx_world b))}"
    using assms(7) by (auto simp: dom_write_at)
  from written_on_flash [OF assms(1-4) plain assms(9) dom] show ?thesis
    by (simp add: content splice_overlay [OF assms(7)])
qed

lemma image_on_flash:
  assumes "loader_laws lib (rock_address rock) disk pos"
    and "get_volume s (U64Index v) = Some (rockusb_volume lib rock)"
    and "rock_mode rock = Loader name sz" "rock_targets rock = mode_targets (Loader name sz)"
    and "image_of rd header xs" "parts_size (map snd xs) < 2 ^ 63" "batch_new (rw_new info) = Done bw"
    and "write_aimg rd batch_async (Some (header @ parts_bytes xs @ rest)) (feed, batch_discard_flush bw) =
      (Returned (Ok ()), feed', bw')"
    and "parts_size (map snd xs) \<le> length (disk (bx_world b))" "length (rw_sent (bw_writer bw')) < alive"
  shows "\<exists>results b'. client_session up_to_error s v name len (rw_sent (bw_writer bw')) alive b =
      (Ok (hd (mode_targets (Loader name sz)), results), b') \<and> list_all (\<lambda>r. \<not> isl r) results \<and>
    disk (bx_world b') = overlay (disk (bx_world b)) (expand_parts 0 (map snd xs))"
proof -
  have "bw_plain bw'" using keepsD [OF write_aimg_plain assms(8)] fresh_plain [OF assms(7)] by simp
  then have plain: "list_all plain (rw_sent (bw_writer bw'))" by (simp add: bw_plain_def rw_plain_def)
  from aimg_content [OF assms(5-8)] have content: "volume_content (rw_sent (bw_writer bw')) =
      expand_parts 0 (map snd xs)" by simp
  then have "dom (volume_content (rw_sent (bw_writer bw'))) \<subseteq> {..<length (disk (bx_world b))}"
    using dom_expand [of 0 "map snd xs"] assms(9) by auto
  from written_on_flash [OF assms(1-4) plain assms(10) this] show ?thesis by (simp add: content)
qed

subsection \<open>What a reader sends and gets\<close>

fun is_read :: "TargetOrRequest \<Rightarrow> bool" where
  "is_read (ReqRead len off) = True"
| "is_read q = False"

definition rw_reads :: "VolumeIoRW \<Rightarrow> bool" where
  "rw_reads rw \<longleftrightarrow> list_all is_read (rw_sent rw)"

lemma read_loop_reads: "rw_reads rw \<Longrightarrow> rw_reads (snd (read_loop_rw env remaining rw))"
proof (induction env remaining rw rule: read_loop_rw.induct)
  case (1 env remaining rw)
  then show ?case
    by (subst read_loop_rw.simps)
      (auto simp: rw_reads_def send_request_def copy_buffered_read_def Let_def
        split: io_state.split bool.split poll.split sum.split)
qed

lemma poll_read_reads: "keeps rw_reads (rw_poll_read env remaining)"
proof -
  have "rw_reads (snd (rw_poll_read env remaining rw))" if I: "rw_reads rw" for rw
  proof -
    obtain copied rw1 where c: "copy_buffered_read remaining rw = (copied, rw1)" by force
    from I copy_buffered_frame(2) [OF c] have "rw_reads rw1" by (simp add: rw_reads_def)
    with I c read_loop_reads show ?thesis by (auto simp: rw_poll_read_def split: option.split)
  qed
  then show ?thesis by (simp add: keeps_def)
qed

lemma copy_read_reads: "rw_reads rw \<Longrightarrow> rw_reads (snd (snd (copy_read limit es rw)))"
proof (induction es arbitrary: limit rw)
  case Nil
  then show ?case by simp
next
  case (Cons e es)
  obtain p rw1 where p: "rw_poll_read e READ_BUFFER rw = (p, rw1)" by force
  from keepsD [OF poll_read_reads p Cons.prems] have "rw_reads rw1" .
  with Cons p show ?case
    by (auto simp: Let_def split_beta split: polled.split poll.split sum.split)
qed

lemma read_target_reads: "read_target offset len envs (rw_new info) = (r, out, rw') \<Longrightarrow> rw_reads rw'"
proof -
  have seek: "rw_reads rw \<Longrightarrow> rw_seek p rw = (q, rw1) \<Longrightarrow> rw_reads rw1" for p rw q rw1
    by (auto simp: rw_seek_def rw_start_seek_def rw_poll_complete_def rw_reads_def Let_def
        split: if_splits option.splits SeekFrom.splits)
  have start: "rw_reads (rw_new info)" by (simp add: rw_reads_def rw_new_def)
  assume r: "read_target offset len envs (rw_new info) = (r, out, rw')"
  show "rw_reads rw'"
  proof (cases offset)
    case None
    with r copy_read_reads [OF start, of "map_option unat len" envs] show ?thesis by (simp add: read_target_def)
  next
    case (Some off)
    obtain q rw1 where q: "rw_seek (SeekStart off) (rw_new info) = (q, rw1)" by force
    with seek [OF start q] copy_read_reads [of rw1 "map_option unat len" envs] r Some show ?thesis
      by (auto simp: read_target_def split: sum.splits)
  qed
qed

text \<open>The answers of the loader target to a reader are those of a volume with the content of the flash.\<close>

definition reads_right :: "bytes \<Rightarrow> TargetOrRequest list \<Rightarrow> (status, completion) result list \<Rightarrow> bool" where
  "reads_right c qs results \<longleftrightarrow>
     list_all2 (\<lambda>q r. \<forall>len off. q = ReqRead len off \<longrightarrow>
       (\<exists>k. let d = take k (drop (unat off) c) in
          r = Ok (CompRead d) \<and> (d = [] \<longrightarrow> len = 0 \<or> length c \<le> unat off))) qs results"

lemma do_read_right:
  assumes "loader_laws lib a disk pos"
  shows "\<exists>k w'. do_read lib a len off w = (Ok (take k (drop (unat off) (disk w))), w') \<and> disk w' = disk w \<and>
    (take k (drop (unat off) (disk w)) = [] \<longrightarrow> len = 0 \<or> length (disk w) \<le> unat off)"
proof -
  from assms obtain w1 where w1: "rl_io_seek lib a off w = (Ok (), w1)" "disk w1 = disk w" "pos w1 = unat off"
    unfolding loader_laws_def flash_laws_def by blast
  moreover from assms obtain k w2 where w2: "rl_io_read lib a (unat len) w1 =
      (Ok (take k (drop (pos w1) (disk w1))), w2)" "disk w2 = disk w1"
    unfolding loader_laws_def flash_laws_def by blast
  moreover have "unat len = 0 \<or> length (disk w1) \<le> pos w1" if "take k (drop (pos w1) (disk w1)) = []"
    using assms w2(1) unfolding that loader_laws_def by blast
  ultimately show ?thesis by (auto simp: do_read_def try_then_def unat_eq_0 intro!: exI [of _ k])
qed

lemma reading_session:
  assumes "loader_laws lib a disk pos"
  shows "list_all is_read qs \<Longrightarrow> volume_io_loop (loader_target lib a) (requests qs) w = (cs, w') \<Longrightarrow>
    disk w' = disk w \<and> reads_right (disk w) qs (session_results qs cs)"
proof (induction qs arbitrary: w cs)
  case Nil
  then show ?case by (simp add: reads_right_def)
next
  case (Cons q qs)
  then obtain len off where q: "q = ReqRead len off" by (cases q) auto
  from do_read_right [OF assms, of len off w] obtain k w1 where
    read: "do_read lib a len off w = (Ok (take k (drop (unat off) (disk w))), w1)" "disk w1 = disk w"
    and some: "take k (drop (unat off) (disk w)) = [] \<longrightarrow> len = 0 \<or> length (disk w) \<le> unat off" by blast
  obtain cs1 where cs1: "volume_io_loop (loader_target lib a) (requests qs) w1 = (cs1, w')"
    "cs = QRead (Some (Ok (take k (drop (unat off) (disk w))))) # cs1"
    using Cons.prems(2) q read(1) by (auto simp: loader_loop simp del: volume_io_loop.simps split: prod.splits)
  with Cons.IH [OF _ cs1(1)] Cons.prems(1) q read(2) some show ?case
    by (auto simp: reads_right_def Let_def intro!: exI [of _ k])
qed

text \<open>What the futures of a session's requests yield, once they are ready.\<close>

definition agrees :: "(status, completion) result list \<Rightarrow> poll_env \<Rightarrow> bool" where
  "agrees results env \<longleftrightarrow>
     (\<forall>n < length results.
        (\<forall>d. env_read env n = Ready (Ok d) \<longrightarrow> results ! n = Ok (CompRead d)) \<and>
        (\<forall>e. env_read env n = Ready (Err e) \<longrightarrow> results ! n = Err e))"

lemma agrees_answers: "reads_right c qs results \<Longrightarrow> agrees results env \<Longrightarrow> Volume_Read.answers c qs env"
proof -
  assume right: "reads_right c qs results" and env: "agrees results env"
  show ?thesis
    unfolding Volume_Read.answers_def
  proof (intro allI impI)
    fix n len off b
    assume n: "n < length qs" "qs ! n = ReqRead len off" "env_read env n = Ready (Ok b)"
    from right n(1,2) obtain k where k: "results ! n = Ok (CompRead (take k (drop (unat off) c)))"
      "take k (drop (unat off) c) = [] \<longrightarrow> len = 0 \<or> length c \<le> unat off"
      unfolding reads_right_def Let_def by (auto dest!: list_all2_nthD)
    from right n(1) have "n < length results" by (simp add: reads_right_def list_all2_lengthD)
    with env n(3) k(1) have "b = take k (drop (unat off) c)" by (auto simp: agrees_def)
    with k(2) show "(\<exists>k. b = take k (drop (unat off) c)) \<and> (b = [] \<longrightarrow> len = 0 \<or> length c \<le> unat off)"
      by auto
  qed
qed

subsection \<open>A file comes back as it was written\<close>

lemma splice_part: "n + length xs \<le> length d \<Longrightarrow> take (length xs) (drop n (splice d n xs)) = xs"
  by (simp add: splice_def min_def)

lemma reads_not_target: "list_all is_read qs \<Longrightarrow> list_all (\<lambda>q. \<not> is_target q) qs"
  by (auto simp: list_all_iff is_target_def split: TargetOrRequest.splits)

text \<open>
  C1. The whole path of a file: written by the write command to the flash of a board in loader
  mode and read back by the read command, each in a session of its own, it comes back as it
  was, and the flash holds it from its offset on and is otherwise as before. That is so
  whatever the timing of the channels and of the replies, however the writes are batched and
  however short the reads of the board are; the futures of the reads yield what the session
  resolves them to.
\<close>

theorem flash_file_roundtrip:
  assumes "loader_laws lib (rock_address rock) disk pos"
    and "get_volume s (U64Index v) = Some (rockusb_volume lib rock)"
    and "rock_mode rock = Loader name sz" "rock_targets rock = mode_targets (Loader name sz)"
    and "info = hd (mode_targets (Loader name sz))"
    and "start = (case offset of None \<Rightarrow> 0 | Some off \<Rightarrow> unat off)"
    and "start + length file \<le> length (disk (bx_world b))" "length (disk (bx_world b)) < 2 ^ 64"
    and "batch_new (rw_new info) = Done bw"
    and "write_file batch_async offset file (feed, batch_discard_flush bw) = (wrote, feed', bw')"
    and "client_session up_to_error s v name len (rw_sent (bw_writer bw')) alive b = (r1, b1)"
    and "read_target offset (Some (of_nat (length file))) envs (rw_new info) = (got, out, rw')"
    and "client_session up_to_error s v name len' (rw_sent rw') alive' b1 = (r2, b2)"
    and "\<forall>i results. r2 = Ok (i, results) \<longrightarrow> (\<forall>env \<in> set envs. agrees results env)"
    and "length (rw_sent (bw_writer bw')) < alive" "length (rw_sent rw') < alive'"
  shows "(wrote = Returned (Ok ()) \<longrightarrow>
      (\<exists>results1 results2. r1 = Ok (info, results1) \<and> list_all (\<lambda>r. \<not> isl r) results1 \<and> r2 = Ok (info, results2)) \<and>
      disk (bx_world b2) = splice (disk (bx_world b)) start file \<and>
      (got = Returned (Ok ()) \<longrightarrow> out = file) \<and>
      ((\<forall>env \<in> set envs. prompt env) \<and> length (disk (bx_world b)) < length envs \<longrightarrow> got = Returned (Ok ()))) \<and>
    (feed_ready feed \<and> length file + 4 \<le> length feed \<longrightarrow> wrote = Returned (Ok ()))"
proof -
  let ?disk = "splice (disk (bx_world b)) start file"
  have len: "length ?disk = length (disk (bx_world b))" using assms(7) by simp
  have info: "readable info" "writable info" "seekable info" using assms(5) by simp_all
  have "(\<exists>results1 results2. r1 = Ok (info, results1) \<and> list_all (\<lambda>r. \<not> isl r) results1 \<and> r2 = Ok (info, results2)) \<and>
      disk (bx_world b2) = ?disk \<and> (got = Returned (Ok ()) \<longrightarrow> out = file) \<and>
      ((\<forall>env \<in> set envs. prompt env) \<and> length (disk (bx_world b)) < length envs \<longrightarrow> got = Returned (Ok ()))"
    if ok: "wrote = Returned (Ok ())"
  proof -
    from file_on_flash [OF assms(1-4,9) assms(10) [unfolded ok] _ assms(8,15), of len] assms(5-7,11)
    obtain results1 where b1: "disk (bx_world b1) = ?disk"
      and r1: "r1 = Ok (info, results1)" "list_all (\<lambda>r. \<not> isl r) results1" by auto
    from read_target_reads [OF assms(12)] have reads: "list_all is_read (rw_sent rw')" by (simp add: rw_reads_def)
    from loader_client_session [OF assms(1-4) reads_not_target [OF reads] assms(16), of b1 len'] obtain w1 cs w' where
      w1: "disk w1 = disk (bx_world b1)" and
      run: "volume_io_loop (loader_target lib (rock_address rock)) (requests (rw_sent rw')) w1 = (cs, w')" and
      r2: "r2 = Ok (info, session_results (rw_sent rw') cs)" "b2 = b1\<lparr>bx_world := w'\<rparr>"
      using assms(5,13) by auto
    from reading_session [OF assms(1) reads run] w1 b1 have same: "disk w' = ?disk"
      and right: "reads_right ?disk (rw_sent rw') (session_results (rw_sent rw') cs)" by simp_all
    have "\<forall>e \<in> set envs. Volume_Read.answers ?disk (rw_sent rw') e"
      using agrees_answers [OF right] assms(14) r2(1) by blast
    from read_copies [OF assms(12) info(1) _ this] len assms(6,8) have
      read: "got = Returned (Ok ()) \<Longrightarrow> out = take (unat (of_nat (length file) :: u64)) (drop start ?disk)"
        "(\<forall>env \<in> set envs. prompt env) \<and> length (disk (bx_world b)) < length envs \<Longrightarrow> got = Returned (Ok ())"
      using info(3) by (simp_all add: Let_def)
    have "unat (of_nat (length file) :: u64) = length file"
      using assms(7,8) by (intro unat_of_nat_u64) linarith
    with read splice_part [OF assms(7)] r1 r2 same show ?thesis by simp
  qed
  moreover have "wrote = Returned (Ok ())" if "feed_ready feed" "length file + 4 \<le> length feed"
    using ready_volume.file_finishes [of "(feed, batch_discard_flush bw)" "file" offset]
      batch_new_fresh(4) [OF assms(9)] info assms(10) that by auto
  ultimately show ?thesis by blast
qed

definition emmc_board :: Rockusb where
  "emmc_board =
     \<lparr>rock_address = (1, 7), rock_targets = mode_targets (Loader ''EMMC'' 4), rock_mode = Loader ''EMMC'' 4\<rparr>"

definition emmc_server :: "(unit, (bytes \<times> nat) rock_world) Server" where
  "emmc_server =
     server_run [RegisterVolume (properties_new ''a'') (rockusb_volume loader_lib emmc_board)]
       (server_new [] ''/etc'')"

definition emmc_env :: poll_env where
  "emmc_env = \<lparr>env_reserve = Ready True, env_done = (\<lambda>n. Pending), env_read = (\<lambda>n. Ready (Ok [9, 8, 0]))\<rparr>"

lemma emmc_laws: "loader_laws loader_lib (1, 7) fst snd"
  by (auto simp: loader_laws_def flash_laws_def loader_lib_def splice_def)

lemma emmc_volume: "get_volume emmc_server (U64Index 0) = Some (rockusb_volume loader_lib emmc_board)"
  by (simp add: emmc_server_def get_volume_def server_run_def registry_lookup_def registry_add_def Let_def
      server_new_def registry_new_def index_default_def item_new_def)

lemma emmc_read:
  "read_target (Some 1) (Some (of_nat (length [9, 8 :: u8]))) (replicate 5 emmc_env)
      (rw_new (hd (mode_targets (Loader ''EMMC'' 4)))) =
    (Returned (Ok ()), [9, 8],
     (rw_new (hd (mode_targets (Loader ''EMMC'' 4))))\<lparr>rw_pos := 4, rw_sent := [ReqRead (of_nat READ_BUFFER) 1]\<rparr>)"
proof -
  let ?info = "hd (mode_targets (Loader ''EMMC'' 4))"
  have seek: "rw_seek (SeekStart 1) (rw_new ?info) = (Ok 1, (rw_new ?info)\<lparr>rw_pos := 1\<rparr>)"
    by (rule rw_seek_start) simp
  have envs: "replicate 5 emmc_env = emmc_env # replicate 4 emmc_env" by (simp add: eval_nat_numeral)
  have zero: "copy_read (Some 0) es rw = (Returned (Ok ()), [], rw)" for es rw by (cases es) simp_all
  show ?thesis
    unfolding envs
    by (simp add: read_target_def seek [unfolded rw_new_def, simplified] rw_poll_read_def copy_buffered_read_def
        read_loop_rw.simps emmc_env_def rw_new_def send_request_def READ_BUFFER_def u64_saturating_add_def zero)
qed

lemma emmc_session:
  assumes "fst (bx_world b) = [0, 9, 8, 0]"
  shows "fst (client_session up_to_error emmc_server 0 ''EMMC'' None [ReqRead (of_nat READ_BUFFER) 1] 2 b) =
    Ok (hd (mode_targets (Loader ''EMMC'' 4)), [Ok (CompRead [9, 8, 0])])"
proof -
  have "loader_laws loader_lib (rock_address emmc_board) fst snd" by (simp add: emmc_board_def emmc_laws)
  from loader_client_session [OF this emmc_volume, of "''EMMC''" 4 "[ReqRead (of_nat READ_BUFFER) 1]" 2 b None]
  obtain w1 cs w' where w1: "fst w1 = [0, 9, 8, 0]" and
    run: "volume_io_loop (loader_target loader_lib (1, 7)) (requests [ReqRead (of_nat READ_BUFFER) 1]) w1 = (cs, w')" and
    eq: "client_session up_to_error emmc_server 0 ''EMMC'' None [ReqRead (of_nat READ_BUFFER) 1] 2 b =
      (Ok (hd (mode_targets (Loader ''EMMC'' 4)), session_results [ReqRead (of_nat READ_BUFFER) 1] cs),
       b\<lparr>bx_world := w'\<rparr>)"
    using assms by (auto simp: emmc_board_def is_target_def)
  from run w1 have "cs = [QRead (Some (Ok [9, 8, 0]))]"
    by (cases w1) (simp add: loader_target_def do_read_def try_then_def loader_lib_def completed_def READ_BUFFER_def)
  with eq show ?thesis by simp
qed

lemma flash_file_roundtrip_witness:
  "\<exists>bw feed' bw' r1 b1 out rw' r2 b2.
    batch_new (rw_new (hd (mode_targets (Loader ''EMMC'' 4)))) = Done bw \<and>
    write_file batch_async (Some 1) [9, 8] (replicate 20 (ready_env, [ready_env]), batch_discard_flush bw) =
      (Returned (Ok ()), feed', bw') \<and>
    client_session up_to_error emmc_server 0 ''EMMC'' None (rw_sent (bw_writer bw'))
      (Suc (length (rw_sent (bw_writer bw')))) \<lparr>bx_cells = [], bx_world = ([0, 0, 0, 0], 0)\<rparr> = (r1, b1) \<and>
    read_target (Some 1) (Some 2) (replicate 5 emmc_env) (rw_new (hd (mode_targets (Loader ''EMMC'' 4)))) =
      (Returned (Ok ()), out, rw') \<and>
    client_session up_to_error emmc_server 0 ''EMMC'' None (rw_sent rw') 2 b1 = (r2, b2) \<and>
    out = [9, 8] \<and> fst (bx_world b2) = [0, 9, 8, 0]"
proof -
  let ?info = "hd (mode_targets (Loader ''EMMC'' 4))" and ?xs = "[9, 8] :: bytes"
  let ?b = "\<lparr>bx_cells = [], bx_world = ([0, 0, 0, 0], 0)\<rparr> :: (bytes \<times> nat) rock_world"
  let ?feed = "replicate 20 (ready_env, [ready_env])"
  have laws: "loader_laws loader_lib (rock_address emmc_board) fst snd"
    and board: "rock_mode emmc_board = Loader ''EMMC'' 4" "rock_targets emmc_board = mode_targets (Loader ''EMMC'' 4)"
    by (simp_all add: emmc_board_def emmc_laws)
  obtain bw where bw: "batch_new (rw_new ?info) = Done bw" by (simp add: batch_new_def batch_size_def rw_new_def)
  obtain feed' bw' where wrote: "write_file batch_async (Some 1) ?xs (?feed, batch_discard_flush bw) =
      (Returned (Ok ()), feed', bw')"
    using ready_volume.file_finishes [of "(?feed, batch_discard_flush bw)" ?xs "Some 1"]
      batch_new_fresh(4) [OF bw] ready_feed [of 20] by auto
  let ?alive = "Suc (length (rw_sent (bw_writer bw')))"
  obtain r1 b1 where first: "client_session up_to_error emmc_server 0 ''EMMC'' None
      (rw_sent (bw_writer bw')) ?alive ?b = (r1, b1)" by force
  from file_on_flash [OF laws emmc_volume board bw wrote, of ?b ?alive None] first
  have b1: "fst (bx_world b1) = [0, 9, 8, 0]" by (auto simp: splice_def)
  obtain r2 b2 where second: "client_session up_to_error emmc_server 0 ''EMMC'' None
      [ReqRead (of_nat READ_BUFFER) 1] 2 b1 = (r2, b2)" by force
  with emmc_session [OF b1] have r2: "r2 = Ok (?info, [Ok (CompRead [9, 8, 0])])" by simp
  have "\<forall>i results. r2 = Ok (i, results) \<longrightarrow> (\<forall>env \<in> set (replicate 5 emmc_env). agrees results env)"
    using r2 by (auto simp: agrees_def emmc_env_def)
  with flash_file_roundtrip [OF laws emmc_volume board refl refl _ _ bw wrote first emmc_read, of None 2 r2 b2]
    second bw wrote first emmc_read
  have "fst (bx_world b2) = [0, 9, 8, 0] \<and> [9, 8 :: u8] = ?xs" by (simp add: splice_def)
  with second bw wrote first emmc_read show ?thesis by fastforce
qed

end
