(* ===== verification/Console_Path.thy ===== *)
theory Console_Path
  imports Serial Cli_Command Boardswarm_Provider
begin

section \<open>A console from the terminal to the tty\<close>

text \<open>
  The command line tool, the client library, the handlers of the server and the serial provider
  composed: what is typed at a terminal connected to a console is written to the tty, and what
  the task of the port reads is printed, both in order. The second part puts another server in
  between, whose console is the proxy of the remote provider, and shows that the bytes that
  reach the console and those that come from it stay the same.
\<close>

subsection \<open>The console of a port\<close>

text \<open>
  A tty that can be opened and takes every write. \<open>written\<close> reads what was written to it
  off the world.
\<close>

definition tty_accepts :: "('p, 'e, 'w) serial_lib \<Rightarrow> string \<Rightarrow> ('w \<Rightarrow> bytes) \<Rightarrow> bool" where
  "tty_accepts lib path written \<longleftrightarrow>
     (\<forall>rate w. \<exists>w1. sl_open lib path rate w = (Ok (), w1) \<and> written w1 = written w) \<and>
     (\<forall>k d w. \<exists>w1. sl_write_all lib path k d w = (Ok (), w1) \<and> written w1 = written w @ d)"

text \<open>The port of console \<open>n\<close>, and what was written to its tty.\<close>

definition port_at :: "nat \<Rightarrow> string \<Rightarrow> (SerialPort, 'w) boxed \<Rightarrow> bool" where
  "port_at n path b \<longleftrightarrow> n < length (bx_cells b) \<and> ser_path (bx_cells b ! n) = path"

text \<open>A use of the port opens it if it has to; nothing else of the world changes.\<close>

lemma console_gets:
  assumes "tty_accepts lib path written" "port_at n path b"
  obtains k b1 where "or_closed (on_cell n (serial_get lib) b) = (Ok k, b1)"
    and "port_at n path b1" "written (bx_world b1) = written (bx_world b)"
    and "ser_open (bx_cells b1 ! n) = Some k" "\<forall>m. m \<noteq> n \<longrightarrow> bx_cells b1 ! m = bx_cells b ! m"
proof (cases "ser_open (bx_cells b ! n)")
  case None
  let ?p = "bx_cells b ! n"
  obtain w1 where w1: "sl_open lib path (ser_rate ?p) (bx_world b) = (Ok (), w1)"
      "written w1 = written (bx_world b)"
    using assms(1) unfolding tty_accepts_def by blast
  let ?p1 = "?p\<lparr>ser_open := Some (ser_opened ?p), ser_opened := ser_opened ?p + 1\<rparr>"
  have "or_closed (on_cell n (serial_get lib) b) =
      (Ok (ser_opened ?p), \<lparr>bx_cells = (bx_cells b)[n := ?p1], bx_world = w1\<rparr>)"
    using None w1 assms(2) by (simp add: on_cell_def serial_get_def serial_open_def or_closed_def port_at_def)
  with assms(2) w1(2) that show ?thesis by (auto simp: port_at_def)
next
  case (Some k)
  then have "or_closed (on_cell n (serial_get lib) b) = (Ok k, b)"
    by (simp add: on_cell_def serial_get_def or_closed_def)
  with Some assms(2) that show ?thesis by blast
qed

lemma console_input_opens:
  assumes "or_closed (on_cell n (serial_get lib) b) = (Ok k, b1)"
  shows "con_input (serial_console lib n) b =
    (Ok (\<lambda>data b. or_closed (on_cell n (serial_sink lib k data) b)), b1)"
  using assms by (simp add: serial_console_def)

text \<open>Messages to the sink of a console are written whole and one after another.\<close>

lemma sink_writes:
  assumes "tty_accepts lib path written" "port_at n path b"
  obtains b1 where "or_closed (on_cell n (serial_sink lib k data) b) = (Ok (), b1)"
    and "port_at n path b1" "written (bx_world b1) = written (bx_world b) @ data"
    and "bx_cells b1 = bx_cells b"
proof -
  obtain w1 where "sl_write_all lib path k data (bx_world b) = (Ok (), w1)"
      "written w1 = written (bx_world b) @ data"
    using assms(1) unfolding tty_accepts_def by blast
  with assms(2) that [of "\<lparr>bx_cells = bx_cells b, bx_world = w1\<rparr>"] show ?thesis
    by (simp add: on_cell_def serial_sink_def or_closed_def port_at_def)
qed

lemma loop_writes:
  assumes "tty_accepts lib path written" "port_at n path b"
  shows "\<exists>b1. console_input_loop (\<lambda>data b. or_closed (on_cell n (serial_sink lib k data) b))
      (map (\<lambda>d. Ok (Some (TdData d))) ds) b = (Done (Ok ()), b1) \<and>
    written (bx_world b1) = written (bx_world b) @ concat ds \<and> bx_cells b1 = bx_cells b"
  using assms(2)
proof (induction ds arbitrary: b)
  case (Cons d ds)
  obtain b1 where b1: "or_closed (on_cell n (serial_sink lib k d) b) = (Ok (), b1)" "port_at n path b1"
      "written (bx_world b1) = written (bx_world b) @ d" "bx_cells b1 = bx_cells b"
    using sink_writes [OF assms(1) Cons.prems] by blast
  with Cons.IH [OF b1(2)] show ?case by simp
qed simp

subsection \<open>Connected through one server\<close>

lemma console_by_shown_name:
  assumes "register_console p c s = (i, s1)" "name_usable (properties_name p) (properties_instance p)"
    and "list_all (\<lambda>it. \<not> named (properties_name p) (properties_instance p) it) (item_list_for s ItemConsole)"
  shows "item_lookup (server_grpc gone rcv watch)
      (parse_item (shown_name (properties_name p) (properties_instance p))) ItemConsole (out, s1, w) =
    (Ok (index_u64 i), out, s1, w)" and "get_console s1 (U64Index (index_u64 i)) = Some c"
proof -
  from assms(1) have s1: "registry_add p c (consoles s) = ((i, item_new p c), consoles s1)"
    by (auto simp: register_console_def registry_add_def Let_def)
  show "item_lookup (server_grpc gone rcv watch)
      (parse_item (shown_name (properties_name p) (properties_instance p))) ItemConsole (out, s1, w) =
    (Ok (index_u64 i), out, s1, w)"
    using lookup_by_shown_name [OF assms(2), of s1 ItemConsole "to_proto_item i (item_new p c)"]
      only_named [OF s1] assms(3)
    by (simp add: item_list_for_def to_proto_item_def)
  show "get_console s1 (U64Index (index_u64 i)) = Some c"
    using added_lookup [OF s1] by (simp add: get_console_def item_new_def)
qed

text \<open>What a client is sent of a console whose receiver does \<open>ops\<close>.\<close>

definition received_of :: "chan_op list \<Rightarrow> bytes list" where
  "received_of ops = take (taken 0 ops) (sends ops)"

lemma output_received:
  "List.map_filter (\<lambda>r. case r of Ok d \<Rightarrow> Some d | Err e \<Rightarrow> None)
      (map (\<lambda>d. case d of Done b \<Rightarrow> Ok b | Panicked \<Rightarrow> Err gone)
        (output_items (map recv_data (subscriber [] ops)))) = received_of ops"
proof -
  have "List.map_filter (\<lambda>r. case r of Ok d \<Rightarrow> Some d | Err e \<Rightarrow> None)
      (map (\<lambda>d. case d of Done b \<Rightarrow> Ok b | Panicked \<Rightarrow> Err gone) (map Done ds @ (if b then [] else [Panicked]))) = ds"
    for ds and b by (induction ds) (simp_all add: List.map_filter_simps)
  then show ?thesis unfolding serial_stream_in_order received_of_def .
qed

lemma received_done:
  "List.map_filter (\<lambda>d. case d of Done b \<Rightarrow> Some b | Panicked \<Rightarrow> None)
    (output_items (map recv_data (subscriber [] ops))) = received_of ops"
proof -
  have "List.map_filter (\<lambda>d. case d of Done b \<Rightarrow> Some b | Panicked \<Rightarrow> None)
      (map Done ds @ (if b then [] else [Panicked])) = ds" for ds :: "bytes list" and b
    by (induction ds) (simp_all add: List.map_filter_simps)
  then show ?thesis unfolding serial_stream_in_order received_of_def .
qed

lemma received_again:
  "List.map_filter (\<lambda>r. case r of Ok d \<Rightarrow> Some d | Err e \<Rightarrow> None)
    (map (\<lambda>d. case d of Done b \<Rightarrow> Ok b | Panicked \<Rightarrow> Err gone) (map Done ds)) = ds"
  by (induction ds) (simp_all add: List.map_filter_simps)

text \<open>The two calls at the server that has the console.\<close>

lemma server_output:
  assumes "tty_accepts lib path written" "port_at n path b" "get_console s (U64Index i) = Some (serial_console lib n)"
    and "\<And>k w. sl_receives lib path k w = subscriber [] ops"
  obtains b1 k where "rpc_console_stream_output s i b = (Ok (output_items (map recv_data (subscriber [] ops))), b1)"
    and "port_at n path b1" "written (bx_world b1) = written (bx_world b)"
    and "ser_open (bx_cells b1 ! n) = Some k" "\<forall>m. m \<noteq> n \<longrightarrow> bx_cells b1 ! m = bx_cells b ! m"
proof -
  obtain k b1 where b1: "or_closed (on_cell n (serial_get lib) b) = (Ok k, b1)" "port_at n path b1"
      "written (bx_world b1) = written (bx_world b)" "ser_open (bx_cells b1 ! n) = Some k"
      "\<forall>m. m \<noteq> n \<longrightarrow> bx_cells b1 ! m = bx_cells b ! m"
    using console_gets [OF assms(1,2)] by blast
  have "rpc_console_stream_output s i b = (Ok (output_items (map recv_data (subscriber [] ops))), b1)"
    using b1(1,2) assms(3,4)
    by (simp add: rpc_console_stream_output_def output_stream_def serial_console_def port_at_def)
  with b1 that show ?thesis by blast
qed

lemma server_input:
  assumes "tty_accepts lib path written" "port_at n path b" "get_console s (U64Index i) = Some (serial_console lib n)"
    and "ser_open (bx_cells b ! n) = Some k"
  obtains b1 where "rpc_console_stream_input s (Ok (Some (TdConsole i)) # map (\<lambda>d. Ok (Some (TdData d))) ds) b =
      (Done (Ok ()), b1)"
    and "written (bx_world b1) = written (bx_world b) @ concat ds" "bx_cells b1 = bx_cells b"
proof -
  have "or_closed (on_cell n (serial_get lib) b) = (Ok k, b)"
    using assms(4) by (simp add: on_cell_def serial_get_def or_closed_def)
  from console_input_opens [OF this] loop_writes [OF assms(1,2), of k ds] assms(3) that show ?thesis
    by (auto simp: rpc_console_stream_input_def)
qed

text \<open>The command over a server, given what its two calls return.\<close>

lemma connect_over_server:
  assumes lookup: "item_lookup (server_grpc gone rcv watch) arg ItemConsole (out, s, w) = (Ok i, out, s, w)"
    and sent: "rpc_console_stream_output s i w = (Ok os, w1)"
    and taken_in: "rpc_console_stream_input s (Ok (Some (TdConsole i)) # map (\<lambda>d. Ok (Some (TdData d))) (sent_input cn)) w1 =
      (Done (Ok ()), w2)"
    and received: "List.map_filter (\<lambda>r. case r of Ok d \<Rightarrow> Some d | Err e \<Rightarrow> None)
      (map (\<lambda>d. case d of Done b \<Rightarrow> Ok b | Panicked \<Rightarrow> Err gone) os) = ds"
  shows "cmd_console (server_grpc gone rcv watch) from_json show_bytes arg (ConsoleConnect cn) (out, s, w) =
    (if cn_end cn = StdoutFailed then Err CliFile else Ok (),
     out @ map show_bytes (if cn_end cn = OutputEnded then ds else take (cn_printed cn) ds), s, w2)"
proof -
  have "client_console_stream_output (server_grpc gone rcv watch) i (s, w) = (Ok ds, s, w1)"
    using sent received by (simp add: client_console_stream_output_def server_grpc_def at_server_def on_reply_def)
  moreover have "client_console_stream_input (server_grpc gone rcv watch) i (sent_input cn) (s, w1) = (Ok (), s, w2)"
    using taken_in by (simp add: client_server_input reply_of_handler_def)
  ultimately show ?thesis
    by (cases "cn_end cn")
       (simp_all add: cmd_console_def cmd_then_def lookup connect_console_def call_def print_output_def say_def map_err_def)
qed

text \<open>
  C8. A terminal connected by name to the console of a serial port, through client and server:
  what is typed is written to the tty, whole and in order (all of it when the input ended the
  connection, else what had reached the server when it ended), and what is printed are the
  messages that the task of the port read since the connection, in order and without a gap: all
  the client took before it lagged, or as many as were printed when the connection ended. The
  port is open afterwards, the other consoles are untouched, and the command succeeds unless
  the terminal does not take the output.
\<close>

theorem console_connect_end_to_end:
  assumes "register_console p (serial_console lib n) s = (i, s1)"
    and "name_usable (properties_name p) (properties_instance p)"
    and "list_all (\<lambda>it. \<not> named (properties_name p) (properties_instance p) it) (item_list_for s ItemConsole)"
    and "tty_accepts lib path written" "port_at n path b"
    and "\<And>k w. sl_receives lib path k w = subscriber [] ops"
    and "fst (read_task reads) = earlier @ sends ops"
  shows "\<exists>b1 printed. cmd_console (server_grpc gone rcv watch) from_json show_bytes
      (parse_item (shown_name (properties_name p) (properties_instance p))) (ConsoleConnect cn) (out, s1, b) =
      (if cn_end cn = StdoutFailed then Err CliFile else Ok (), out @ map show_bytes printed, s1, b1) \<and>
    printed = take (if cn_end cn = OutputEnded then taken 0 ops else min (cn_printed cn) (taken 0 ops))
      (drop (length earlier) (fst (read_task reads))) \<and>
    written (bx_world b1) = written (bx_world b) @
      concat (if cn_end cn = InputReturned then cn_typed cn else take (cn_sent cn) (cn_typed cn)) \<and>
    ser_open (bx_cells b1 ! n) \<noteq> None \<and> (\<forall>m. m \<noteq> n \<longrightarrow> bx_cells b1 ! m = bx_cells b ! m)"
proof -
  note lookup = console_by_shown_name [OF assms(1-3)]
  obtain b1 k where b1: "rpc_console_stream_output s1 (index_u64 i) b =
        (Ok (output_items (map recv_data (subscriber [] ops))), b1)"
      "port_at n path b1" "written (bx_world b1) = written (bx_world b)"
      "ser_open (bx_cells b1 ! n) = Some k" "\<forall>m. m \<noteq> n \<longrightarrow> bx_cells b1 ! m = bx_cells b ! m"
    using server_output [OF assms(4,5) lookup(2) assms(6)] by metis
  obtain b2 where b2: "rpc_console_stream_input s1
        (Ok (Some (TdConsole (index_u64 i))) # map (\<lambda>d. Ok (Some (TdData d))) (sent_input cn)) b1 = (Done (Ok ()), b2)"
      "written (bx_world b2) = written (bx_world b1) @ concat (sent_input cn)" "bx_cells b2 = bx_cells b1"
    using server_input [OF assms(4) b1(2) lookup(2) b1(4)] by metis
  have "(if cn_end cn = OutputEnded then received_of ops else take (cn_printed cn) (received_of ops)) =
      take (if cn_end cn = OutputEnded then taken 0 ops else min (cn_printed cn) (taken 0 ops))
        (drop (length earlier) (fst (read_task reads)))"
    using assms(7) by (simp add: received_of_def)
  with connect_over_server [OF lookup(1) b1(1) b2(1) output_received] b1(3-5) b2(2,3) [unfolded sent_input_def] show ?thesis by auto
qed

text \<open>A tty that can not be opened is reported, and nothing is printed or written.\<close>

lemma console_connect_unopened:
  assumes "register_console p (serial_console lib n) s = (i, s1)"
    and "name_usable (properties_name p) (properties_instance p)"
    and "list_all (\<lambda>it. \<not> named (properties_name p) (properties_instance p) it) (item_list_for s ItemConsole)"
    and "port_at n path b" "ser_open (bx_cells b ! n) = None"
    and "sl_open lib path (ser_rate (bx_cells b ! n)) (bx_world b) = (Err e, w1)"
  shows "cmd_console (server_grpc gone rcv watch) from_json show_bytes
      (parse_item (shown_name (properties_name p) (properties_instance p))) (ConsoleConnect cn) (out, s1, b) =
    (Err (CliStatus (status_of_console_error (serial_unavailable lib path e))), out, s1, b\<lparr>bx_world := w1\<rparr>)"
proof -
  have "or_closed (on_cell n (serial_get lib) b) = (Err (serial_unavailable lib path e), b\<lparr>bx_world := w1\<rparr>)"
    using assms(4-6) by (simp add: port_at_def on_cell_def serial_get_def serial_open_def or_closed_def)
  then have "client_console_stream_output (server_grpc gone rcv watch) (index_u64 i) (s1, b) =
      (Err (status_of_console_error (serial_unavailable lib path e)), s1, b\<lparr>bx_world := w1\<rparr>)"
    using console_by_shown_name(2) [OF assms(1-3)]
    by (simp add: client_console_stream_output_def server_grpc_def at_server_def on_reply_def
        rpc_console_stream_output_def output_stream_def serial_console_def map_err_def result_bind_def)
  with console_by_shown_name(1) [OF assms(1-3)] show ?thesis
    by (simp add: cmd_console_def cmd_then_def connect_console_def call_def map_err_def)
qed

definition echo_tty :: "chan_op list \<Rightarrow> (unit, unit, bytes) serial_lib" where
  "echo_tty ops =
     \<lparr>sl_open = (\<lambda>path rate w. (Ok (), w)), sl_write_all = (\<lambda>path k d w. (Ok (), w @ d)),
      sl_receives = (\<lambda>path k w. subscriber [] ops), sl_show_error = (\<lambda>e. ''''), sl_rate = (\<lambda>p. None)\<rparr>"

lemma console_connect_end_to_end_witness:
  "\<exists>i s1 b1. register_console (properties_new ''tty'') (serial_console (echo_tty [SendOp [104], RecvOp, SendOp [105], RecvOp]) 0)
      (server_new [] ''/etc'') = (i, s1) \<and>
    cmd_console (server_grpc (Status Unavailable ''gone'')
       \<lparr>rc_devices = [], rc_consoles = [], rc_actuators = [], rc_volumes = []\<rparr> []) (\<lambda>_. None) (map (\<lambda>b. char_of (unat b)))
      (parse_item ''tty'') (ConsoleConnect \<lparr>cn_typed = [[108, 115], [10]], cn_sent = 0, cn_printed = 1, cn_end = InputReturned\<rparr>)
      ([], s1, \<lparr>bx_cells = [serial_port_new ''/dev/tty''], bx_world = []\<rparr>) = (Ok (), [''h''], s1, b1) \<and>
    bx_world b1 = [108, 115, 10]"
proof -
  let ?reads = "[Ok [104], Ok [105]] :: (unit, bytes) result list"
  let ?ops = "[SendOp [104], RecvOp, SendOp [105], RecvOp]"
  let ?s = "server_new [] ''/etc'' :: (unit, (SerialPort, bytes) boxed) Server" and ?p = "properties_new ''tty''"
  let ?cn = "\<lparr>cn_typed = [[108, 115], [10]], cn_sent = 0, cn_printed = 1, cn_end = InputReturned\<rparr>"
  obtain i s1 where reg: "register_console ?p (serial_console (echo_tty ?ops) 0) ?s = (i, s1)" by force
  have name: "properties_name ?p = ''tty''" "properties_instance ?p = None"
    by (simp_all add: properties_name_def properties_instance_def)
  have usable: "name_usable (properties_name ?p) (properties_instance ?p)"
    by (simp add: name name_usable_def from_str_radix_def char_digit_def)
  have none: "list_all (\<lambda>it. \<not> named (properties_name ?p) (properties_instance ?p) it) (item_list_for ?s ItemConsole)"
    by (simp add: item_list_for_def to_item_list_def server_new_def registry_new_def)
  have accepts: "tty_accepts (echo_tty ?ops) ''/dev/tty'' (\<lambda>w. w)" by (simp add: tty_accepts_def echo_tty_def)
  have port: "port_at 0 ''/dev/tty'' \<lparr>bx_cells = [serial_port_new ''/dev/tty''], bx_world = []\<rparr>"
    by (simp add: port_at_def serial_port_new_def)
  have receives: "sl_receives (echo_tty ?ops) ''/dev/tty'' k w = subscriber [] ?ops" for k w
    by (simp add: echo_tty_def)
  have reads: "fst (read_task ?reads) = [] @ sends ?ops" by simp
  have h: "char_of (unat (104 :: 8 word)) = CHR ''h''" by (simp add: char_of_def bit_simps)
  let ?show = "map (\<lambda>b. char_of (unat b)) :: bytes \<Rightarrow> string"
  obtain b1 printed where run: "cmd_console (server_grpc (Status Unavailable ''gone'')
         \<lparr>rc_devices = [], rc_consoles = [], rc_actuators = [], rc_volumes = []\<rparr> []) (\<lambda>_. None) ?show
        (parse_item (shown_name (properties_name ?p) (properties_instance ?p))) (ConsoleConnect ?cn)
        ([], s1, \<lparr>bx_cells = [serial_port_new ''/dev/tty''], bx_world = []\<rparr>) =
      (if cn_end ?cn = StdoutFailed then Err CliFile else Ok (), [] @ map ?show printed, s1, b1)"
    and printed: "printed = take (if cn_end ?cn = OutputEnded then taken 0 ?ops else min (cn_printed ?cn) (taken 0 ?ops))
      (drop (length ([] :: bytes list)) (fst (read_task ?reads)))"
    and typed: "bx_world b1 = [] @ concat (if cn_end ?cn = InputReturned then cn_typed ?cn else take (cn_sent ?cn) (cn_typed ?cn))"
    using console_connect_end_to_end [OF reg usable none accepts port receives reads,
        of "Status Unavailable ''gone''" "\<lparr>rc_devices = [], rc_consoles = [], rc_actuators = [], rc_volumes = []\<rparr>" "[]"
          "\<lambda>_. None" ?show ?cn "[]"]
    by (elim exE conjE) (rule that, assumption, assumption, simp)
  have "printed = [[104]]" using printed by (simp add: BROADCAST_def)
  with run h have "cmd_console (server_grpc (Status Unavailable ''gone'')
         \<lparr>rc_devices = [], rc_consoles = [], rc_actuators = [], rc_volumes = []\<rparr> []) (\<lambda>_. None) ?show
        (parse_item ''tty'') (ConsoleConnect ?cn)
        ([], s1, \<lparr>bx_cells = [serial_port_new ''/dev/tty''], bx_world = []\<rparr>) = (Ok (), [''h''], s1, b1)"
    by (simp add: name shown_name_def)
  moreover from typed have "bx_world b1 = [108, 115, 10]" by (simp add: sent_input_def)
  ultimately show ?thesis using reg by blast
qed

subsection \<open>A console through two servers\<close>

text \<open>
  The world behind the connection of the provider to the server that has the console: that of
  its consoles, and which of the calls of \<^verbatim>\<open>console_stream_input\<close> it still serves: a call ends
  when the console is not found or can not be used, and when a write fails.
\<close>

record 'w console_hop =
  ch_world :: 'w
  ch_calls :: "bool list"

text \<open>
  What the spawned task of the proxy forwards is one call: its first message is handled when it
  is opened, and each message sent to it afterwards by one turn of the loop. A message sent to a
  call that ended is dropped.
\<close>

definition hop_send :: "'w console_sink \<Rightarrow> nat \<Rightarrow> bytes \<Rightarrow> 'w console_hop \<Rightarrow> 'w console_hop" where
  "hop_send input k data h =
     (if ch_calls h ! k
      then (case input data (ch_world h) of
              (Ok _, w1) \<Rightarrow> h\<lparr>ch_world := w1\<rparr>
            | (Err e, w1) \<Rightarrow> h\<lparr>ch_world := w1, ch_calls := (ch_calls h)[k := False]\<rparr>)
      else h)"

definition hop_console_input ::
  "('p, 'w) Server \<Rightarrow> u64 \<Rightarrow> 'w console_hop \<Rightarrow> (bytes \<Rightarrow> 'w console_hop \<Rightarrow> 'w console_hop) \<times> 'w console_hop" where
  "hop_console_input a n h =
     (case get_console a (U64Index n) of
        None \<Rightarrow> (\<lambda>data h. h, h)
      | Some console \<Rightarrow>
          (case con_input console (ch_world h) of
             (Err e, w1) \<Rightarrow> (\<lambda>data h. h, h\<lparr>ch_world := w1\<rparr>)
           | (Ok input, w1) \<Rightarrow>
               (hop_send input (length (ch_calls h)), h\<lparr>ch_world := w1, ch_calls := ch_calls h @ [True]\<rparr>)))"

definition on_ch :: "('w \<Rightarrow> 'a \<times> 'w) \<Rightarrow> 'w console_hop \<Rightarrow> 'a \<times> 'w console_hop" where
  "on_ch f h = (case f (ch_world h) of (a, w) \<Rightarrow> (a, h\<lparr>ch_world := w\<rparr>))"

text \<open>The calls on consoles; \<open>gone\<close> is the status of a call whose handler panicked.\<close>

definition console_remote ::
  "status \<Rightarrow> ('q, 'w) Server \<Rightarrow> ('p, 'q, 'w console_hop) Remote \<Rightarrow> ('p, 'q, 'w console_hop) Remote" where
  "console_remote gone a rest = rest
     \<lparr>rem_console_configure := (\<lambda>n p. on_ch (\<lambda>w. case rpc_console_configure a n (Some p) w of
        (r, w1) \<Rightarrow> (reply_of_handler gone r, w1))),
      rem_console_input := hop_console_input a,
      rem_console_output := (\<lambda>n. on_ch (\<lambda>w. case rpc_console_stream_output a n w of
        (r, w1) \<Rightarrow> (result_bind r (\<lambda>os. Ok (List.map_filter
            (\<lambda>d. case d of Done b \<Rightarrow> Some b | Panicked \<Rightarrow> None) os)), w1)))\<rparr>"

lemma fold_nothing [simp]: "fold (\<lambda>x h. h) ds h = h"
  by (induction ds) simp_all

lemma hop_send_ended [simp]: "\<not> ch_calls h ! k \<Longrightarrow> fold (hop_send input k) ds h = h"
  by (induction ds) (simp_all add: hop_send_def)

text \<open>The messages sent one by one have the effect of the loop of the handler on all of them.\<close>

lemma hop_sends:
  assumes "k < length (ch_calls h)" "ch_calls h ! k"
  shows "ch_world (fold (hop_send input k) ds h) =
    snd (console_input_loop input (map (\<lambda>d. Ok (Some (TdData d))) ds) (ch_world h))"
  using assms
proof (induction ds arbitrary: h)
  case (Cons d ds)
  obtain r w1 where r: "input d (ch_world h) = (r, w1)" by force
  then have "hop_send input k d h =
      (if is_ok r then h\<lparr>ch_world := w1\<rparr> else h\<lparr>ch_world := w1, ch_calls := (ch_calls h)[k := False]\<rparr>)"
    using Cons.prems(2) by (cases r) (simp_all add: hop_send_def)
  with r Cons.prems Cons.IH [of "h\<lparr>ch_world := w1\<rparr>"] show ?case by (cases r) simp_all
qed simp

lemma hop_input_handled:
  assumes "hop_console_input a n h = (send, h1)"
  shows "ch_world (fold send ds h1) =
    snd (rpc_console_stream_input a (Ok (Some (TdConsole n)) # map (\<lambda>d. Ok (Some (TdData d))) ds) (ch_world h))"
  using assms
  by (auto simp: hop_console_input_def rpc_console_stream_input_def hop_sends nth_append
      split: option.splits prod.splits sum.splits)

lemma proxy_loop:
  "console_input_loop (\<lambda>b. on_net (\<lambda>v. (Ok (), send b v))) (map (\<lambda>d. Ok (Some (TdData d))) ds) w =
   (Done (Ok ()), w\<lparr>bw_net := fold send ds (bw_net w)\<rparr>)"
  by (induction ds arbitrary: w) (simp_all add: on_net_def)

text \<open>
  Input through the proxy has the effect on the console that the same input has on the server
  that has it, whatever the console answers. Its errors are lost: the call to the proxy succeeds
  also when no console has that number, or when the console takes none of the input.
\<close>

lemma proxied_console_input:
  assumes "get_console b (U64Index i) = Some (bs_console (console_remote gone a rest) n cell)"
    and "bw_consoles w ! cell = None"
  shows "\<exists>h1. rpc_console_stream_input b (Ok (Some (TdConsole i)) # map (\<lambda>d. Ok (Some (TdData d))) ds) w =
      (Done (Ok ()), w\<lparr>bw_net := h1\<rparr>) \<and>
    ch_world h1 =
      snd (rpc_console_stream_input a (Ok (Some (TdConsole n)) # map (\<lambda>d. Ok (Some (TdData d))) ds) (ch_world (bw_net w)))"
proof -
  obtain send h1 where hop: "hop_console_input a n (bw_net w) = (send, h1)" by force
  then have "con_input (bs_console (console_remote gone a rest) n cell) w =
      (Ok (\<lambda>b. on_net (\<lambda>v. (Ok (), send b v))), w\<lparr>bw_net := h1\<rparr>)"
    using assms(2) by (simp add: bs_console_def bs_console_input_def bs_configured_def
        console_remote_def on_net_def unwound_def)
  with assms(1) have "rpc_console_stream_input b (Ok (Some (TdConsole i)) # map (\<lambda>d. Ok (Some (TdData d))) ds) w =
      (Done (Ok ()), w\<lparr>bw_net := fold send ds h1\<rparr>)"
    by (simp add: rpc_console_stream_input_def proxy_loop)
  then show ?thesis using hop_input_handled [OF hop] by blast
qed

text \<open>
  Output through the proxy: a client gets the messages it would get from the server that has the
  console.
\<close>

lemma proxied_console_output:
  assumes "get_console b (U64Index i) = Some (bs_console (console_remote gone a rest) n cell)"
    and "bw_consoles w ! cell = None"
    and "rpc_console_stream_output a n (ch_world (bw_net w)) = (Ok os, v1)"
  shows "\<exists>h1. rpc_console_stream_output b i w =
      (Ok (map Done (List.map_filter (\<lambda>d. case d of Done b \<Rightarrow> Some b | Panicked \<Rightarrow> None) os)), w\<lparr>bw_net := h1\<rparr>) \<and>
    ch_world h1 = v1"
proof -
  have items: "output_items (map Ok ds) = map Done ds" for ds by (induction ds) simp_all
  let ?h1 = "(bw_net w)\<lparr>ch_world := v1\<rparr>"
  have "con_output (bs_console (console_remote gone a rest) n cell) w =
      (Ok (map Ok (List.map_filter (\<lambda>d. case d of Done b \<Rightarrow> Some b | Panicked \<Rightarrow> None) os)), w\<lparr>bw_net := ?h1\<rparr>)"
    using assms(2,3) by (simp add: bs_console_def bs_console_output_def bs_configured_def console_remote_def
        on_net_def on_ch_def unwound_def result_bind_def)
  with assms(1) have "rpc_console_stream_output b i w =
      (Ok (map Done (List.map_filter (\<lambda>d. case d of Done b \<Rightarrow> Some b | Panicked \<Rightarrow> None) os)), w\<lparr>bw_net := ?h1\<rparr>)"
    by (simp add: rpc_console_stream_output_def output_stream_def items map_err_def)
  moreover have "ch_world ?h1 = v1" by simp
  ultimately show ?thesis by blast
qed

text \<open>
  A terminal connected to the mirrored console: as at the server that has it, what is typed is
  written to the tty, in order and as far as it reached the server, and what is printed are the messages since the
  connection, in order and without a gap.
\<close>

theorem proxied_console_connect:
  assumes "register_console p (bs_console (console_remote gone1 a rest) n cell) b = (i, b1)"
    and "name_usable (properties_name p) (properties_instance p)"
    and "list_all (\<lambda>it. \<not> named (properties_name p) (properties_instance p) it) (item_list_for b ItemConsole)"
    and "bw_consoles w ! cell = None"
    and "get_console a (U64Index n) = Some (serial_console lib m)"
    and "tty_accepts lib path written" "port_at m path (ch_world (bw_net w))"
    and "\<And>k w. sl_receives lib path k w = subscriber [] ops"
  shows "\<exists>w1. cmd_console (server_grpc gone rcv watch) from_json show_bytes
      (parse_item (shown_name (properties_name p) (properties_instance p))) (ConsoleConnect cn) (out, b1, w) =
      (if cn_end cn = StdoutFailed then Err CliFile else Ok (),
       out @ map show_bytes (if cn_end cn = OutputEnded then received_of ops else take (cn_printed cn) (received_of ops)),
       b1, w1) \<and>
    written (bx_world (ch_world (bw_net w1))) =
      written (bx_world (ch_world (bw_net w))) @ concat (sent_input cn)"
proof -
  note lookup = console_by_shown_name [OF assms(1-3)]
  obtain v1 k where v1: "rpc_console_stream_output a n (ch_world (bw_net w)) =
        (Ok (output_items (map recv_data (subscriber [] ops))), v1)"
      "port_at m path v1" "written (bx_world v1) = written (bx_world (ch_world (bw_net w)))"
      "ser_open (bx_cells v1 ! m) = Some k"
    using server_output [OF assms(6,7,5,8)] by metis
  obtain v2 where v2: "rpc_console_stream_input a
        (Ok (Some (TdConsole n)) # map (\<lambda>d. Ok (Some (TdData d))) (sent_input cn)) v1 = (Done (Ok ()), v2)"
      "written (bx_world v2) = written (bx_world v1) @ concat (sent_input cn)"
    using server_input [OF assms(6) v1(2) assms(5) v1(4)] by metis
  obtain h1 where h1: "rpc_console_stream_output b1 (index_u64 i) w =
        (Ok (map Done (received_of ops)), w\<lparr>bw_net := h1\<rparr>)" "ch_world h1 = v1"
    using proxied_console_output [OF lookup(2) assms(4) v1(1)] by (auto simp: received_done)
  obtain h2 where h2: "rpc_console_stream_input b1
        (Ok (Some (TdConsole (index_u64 i))) # map (\<lambda>d. Ok (Some (TdData d))) (sent_input cn)) (w\<lparr>bw_net := h1\<rparr>) =
        (Done (Ok ()), w\<lparr>bw_net := h2\<rparr>)" "ch_world h2 = v2"
    using proxied_console_input [OF lookup(2), of "w\<lparr>bw_net := h1\<rparr>" "sent_input cn"] assms(4) v2(1) h1(2) by auto
  from connect_over_server [OF lookup(1) h1(1) h2(1) received_again] h2(2) v1(3) v2(2) show ?thesis by auto
qed

end
