(* ===== verification/Cli_Main.thy ===== *)
theory Cli_Main
  imports Cli_Auth Cli_Io Cli_Ui
begin

section \<open>A run of the command line (boardswarm-cli/src/main.rs)\<close>

text \<open>
  A run: the configuration file is read, an \<^verbatim>\<open>auth\<close> command edits it, and every other command
  connects to the server the file and \<^verbatim>\<open>--instance\<close> name and is then carried out (Cli_Auth,
  Cli_Command, Cli_Io). The state is the files, the lines printed and the world. The lemmas: what a
  run touches before it is connected, and the first use: after the server has been
  configured, a volume is reached by its name.
\<close>

subsection \<open>The commands\<close>

text \<open>The arguments that name a file name it by its path.\<close>

datatype volume_args =
    VolumeOther cli_volume_command
  | VolumeWrite "u64 option" string string
  | VolumeWriteAimg string string
  | VolumeWriteBmap string string

record device_target =
  dt_volume :: string
  dt_wait :: bool
  dt_target :: string

datatype device_args =
    DeviceOther device_command
  | DeviceRead "u64 option" "u64 option" device_target string
  | DeviceWrite "u64 option" bool device_target string
  | DeviceWriteAimg bool device_target string
  | DeviceWriteBmap bool device_target string

datatype 'u Command =
    CmdAuth "'u auth_command"
  | CmdLoginInfo
  | CmdActuator ItemArg actuator_command
  | CmdConsole ItemArg console_command
  | CmdVolume ItemArg volume_args
  | CmdDevice ItemArg device_args
  | CmdRock ItemArg "string option" bool string
  | CmdList ItemType bool
  | CmdMonitor ItemType bool
  | CmdUi ItemArg "string option" bool TerminalSizeSetting nat

subsection \<open>What a run needs from outside\<close>

text \<open>
  The environments of the authentication commands and of the commands on items, as they are
  described there; \<open>ce_connect\<close> is \<^verbatim>\<open>BoardswarmBuilder::connect\<close>, with the generated client it makes,
  and \<open>ce_config_dir\<close> the configuration directory of the user.
\<close>

record ('u, 'l, 'q, 'h, 'c, 'm, 'n, 'w) cli_env =
  ce_auth :: "('u, 'l) auth_env"
  ce_config_dir :: "string option"
  ce_connect :: "('u, 'l) BoardswarmBuilder \<Rightarrow> 'w \<Rightarrow> (string, ('q, 'w) grpc) result \<times> 'w"
  ce_wait_for :: "(ProtoDevice \<Rightarrow> bool) \<Rightarrow> (ProtoDevice, 'w) cmd"
  ce_open_io :: "u64 \<Rightarrow> string \<Rightarrow> u64 option \<Rightarrow> 'w \<Rightarrow> (status, unit) result \<times> 'w"
  ce_writer :: "'w async_writer"
  ce_read_io :: "u64 option \<Rightarrow> u64 option \<Rightarrow> 'w \<Rightarrow> (io_error, unit) result awaited \<times> bytes \<times> 'w"
  ce_can_create :: "string \<Rightarrow> bool"
  ce_store :: "string \<Rightarrow> bytes \<Rightarrow> 'w \<Rightarrow> 'w"
  ce_sparse :: "('h, 'c) sparse_reader"
  ce_from_xml :: "bytes \<Rightarrow> 'm option"
  ce_copy_bmap :: "bool \<Rightarrow> bytes \<Rightarrow> 'm \<Rightarrow> 'w \<Rightarrow> (io_error, unit) result awaited \<times> 'w"
  ce_rock_file :: "'n rock_file"
  ce_rock_send :: "ProtoDevice \<Rightarrow> string \<Rightarrow> string \<Rightarrow> bytes \<Rightarrow> (unit, 'w) cmd"
  ce_from_json :: "string \<Rightarrow> 'q option"
  ce_show_bytes :: "bytes \<Rightarrow> string"
  ce_show_info :: "LoginInfo list \<Rightarrow> string"
  ce_run_ui :: "TerminalSizeSetting \<Rightarrow> nat \<Rightarrow> u64 \<Rightarrow> ProtoDevice \<Rightarrow> string \<Rightarrow> (unit, 'w) cmd"

subsection \<open>Carrying out a command\<close>

definition io_cmd :: "(unit, 'w) cmd \<Rightarrow> 'w io_cmd" where
  "io_cmd f s = (case f s of (r, s1) \<Rightarrow> (Some r, s1))"

text \<open>What the write commands write, read from the files.\<close>

definition plain_source ::
  "files \<Rightarrow> u64 option \<Rightarrow> string \<Rightarrow> ('h, 'c, 'm, 'w) write_source" where
  "plain_source fs offset path = PlainFile offset (fs path)"

definition aimg_source ::
  "('u, 'l, 'q, 'h, 'c, 'm, 'n, 'w) cli_env \<Rightarrow> files \<Rightarrow> string \<Rightarrow> ('h, 'c, 'm, 'w) write_source" where
  "aimg_source env fs path = SparseImage (ce_sparse env) (fs path)"

definition bmap_source ::
  "('u, 'l, 'q, 'h, 'c, 'm, 'n, 'w) cli_env \<Rightarrow> files \<Rightarrow> string \<Rightarrow> ('h, 'c, 'm, 'w) write_source" where
  "bmap_source env fs path = BmapImage fs (ce_from_xml env) (ce_copy_bmap env) path"

definition run_volume ::
  "('u, 'l, 'q, 'h, 'c, 'm, 'n, 'w) cli_env \<Rightarrow> files \<Rightarrow> ('q, 'w) grpc \<Rightarrow> ItemArg \<Rightarrow> volume_args \<Rightarrow> 'w io_cmd" where
  "run_volume env fs g arg command =
     (let write = volume_write g (ce_open_io env) (ce_writer env) arg in
      case command of
        VolumeOther c \<Rightarrow> io_cmd (cmd_volume g arg c)
      | VolumeWrite offset target path \<Rightarrow> write (plain_source fs offset path) target
      | VolumeWriteAimg target path \<Rightarrow> write (aimg_source env fs path) target
      | VolumeWriteBmap target path \<Rightarrow> write (bmap_source env fs path) target)"

text \<open>The commands that move data find the device first, as the others do.\<close>

definition with_device ::
  "('q, 'w) grpc \<Rightarrow> ItemArg \<Rightarrow> (ProtoDevice \<Rightarrow> 'w io_cmd) \<Rightarrow> 'w io_cmd" where
  "with_device g arg f =
     io_then (device_arg g arg) (\<lambda>found.
       (case found of None \<Rightarrow> io_cmd (bail ''Device not found'') | Some (i, d, updates) \<Rightarrow> f d))"

definition run_device ::
  "('u, 'l, 'q, 'h, 'c, 'm, 'n, 'w) cli_env \<Rightarrow> files \<Rightarrow> ('q, 'w) grpc \<Rightarrow> ItemArg \<Rightarrow> device_args \<Rightarrow> 'w io_cmd" where
  "run_device env fs g arg command =
     (let write = (\<lambda>src t commit. with_device g arg
            (device_write g (ce_wait_for env) (ce_open_io env) (ce_writer env) src
               (dt_volume t) (dt_target t) (dt_wait t) commit)) in
      case command of
        DeviceOther c \<Rightarrow> io_cmd (cmd_device g (ce_wait_for env) (ce_show_bytes env) arg c)
      | DeviceRead offset len t path \<Rightarrow>
          with_device g arg
            (device_read (ce_wait_for env) (ce_open_io env) (ce_read_io env) (ce_store env path)
               (ce_can_create env path) offset len (dt_volume t) (dt_target t) (dt_wait t))
      | DeviceWrite offset commit t path \<Rightarrow> write (plain_source fs offset path) t commit
      | DeviceWriteAimg commit t path \<Rightarrow> write (aimg_source env fs path) t commit
      | DeviceWriteBmap commit t path \<Rightarrow> write (bmap_source env fs path) t commit)"

definition run_command ::
  "('u, 'l, 'q, 'h, 'c, 'm, ('n::len) word, 'w) cli_env \<Rightarrow> files \<Rightarrow> ('q, 'w) grpc \<Rightarrow> 'u Command \<Rightarrow> 'w io_cmd" where
  "run_command env fs g command =
     (case command of
        CmdAuth _ \<Rightarrow> io_cmd (\<lambda>s. (Err CliPanic, s))
      | CmdLoginInfo \<Rightarrow> io_cmd (cmd_login_info (ce_show_info env) g)
      | CmdActuator arg c \<Rightarrow> io_cmd (cmd_actuator g (ce_from_json env) arg c)
      | CmdConsole arg c \<Rightarrow> io_cmd (cmd_console g (ce_from_json env) (ce_show_bytes env) arg c)
      | CmdVolume arg c \<Rightarrow> run_volume env fs g arg c
      | CmdDevice arg c \<Rightarrow> run_device env fs g arg c
      | CmdRock arg volume wait path \<Rightarrow>
          io_cmd (cmd_rock g (ce_wait_for env) (ce_rock_file env) (ce_rock_send env) arg volume wait (fs path))
      | CmdList t verbose \<Rightarrow> io_cmd (cmd_list g t verbose)
      | CmdMonitor t verbose \<Rightarrow> io_cmd (cmd_monitor g t verbose)
      | CmdUi arg console wait terminal_size scrollback_lines \<Rightarrow>
          io_cmd (cmd_ui g (ce_wait_for env) (ce_run_ui env terminal_size scrollback_lines) arg console wait))"

subsection \<open>A run\<close>

datatype main_error =
    MainAuth auth_error | MainConfig config_error | MainConnect connect_error | MainTransport string
  | MainCommand cli_error | MainPanic

definition config_path :: "('u, 'l, 'q, 'h, 'c, 'm, 'n, 'w) cli_env \<Rightarrow> string option \<Rightarrow> string option" where
  "config_path env option =
     (case option of
        Some path \<Rightarrow> Some path
      | None \<Rightarrow> map_option (\<lambda>dir. dir @ ''/boardswarm/config.yaml'') (ce_config_dir env))"

text \<open>The options, and the state: the files, the lines printed and the world.\<close>

record 'u Opts =
  opt_config :: "string option"
  opt_instance :: "string option"
  opt_command :: "'u Command"

type_synonym 'w run_state = "files \<times> string list \<times> 'w"

text \<open>What a command connects to; the commands on the configuration are not connected.\<close>

definition main_connection ::
  "('u, 'l) auth_env \<Rightarrow> ('u, 'l) ClientConfig option \<Rightarrow> 'u Opts \<Rightarrow>
   (connect_error, ('u, 'l) BoardswarmBuilder) result" where
  "main_connection env config opt =
     (case opt_command opt of
        CmdLoginInfo \<Rightarrow> login_info_connection env config (opt_instance opt)
      | _ \<Rightarrow> command_connection config (opt_instance opt))"

definition connected_run ::
  "('u, 'l, 'q, 'h, 'c, 'm, ('n::len) word, 'w) cli_env \<Rightarrow> string \<Rightarrow> 'u Opts \<Rightarrow> 'w run_state \<Rightarrow>
   (main_error, unit) result option \<times> 'w run_state" where
  "connected_run env path opt = (\<lambda>(fs, out, w).
     (case main_config (ce_auth env) fs path of
        Err e \<Rightarrow> (Some (Err (MainConfig e)), fs, out, w)
      | Ok config \<Rightarrow>
          (case main_connection (ce_auth env) config opt of
             Err e \<Rightarrow> (Some (Err (MainConnect e)), fs, out, w)
           | Ok builder \<Rightarrow>
               (case ce_connect env builder w of
                  (Err e, w1) \<Rightarrow> (Some (Err (MainTransport e)), fs, out, w1)
                | (Ok g, w1) \<Rightarrow>
                    (case run_command env fs g (opt_command opt) (out, w1) of
                       (r, out1, w2) \<Rightarrow> (map_option (map_err MainCommand) r, fs, out1, w2))))))"

definition cli_main ::
  "('u, 'l, 'q, 'h, 'c, 'm, ('n::len) word, 'w) cli_env \<Rightarrow> 'u Opts \<Rightarrow> 'w run_state \<Rightarrow>
   (main_error, unit) result option \<times> 'w run_state" where
  "cli_main env opt = (\<lambda>(fs, out, w).
     (case config_path env (opt_config opt) of
        None \<Rightarrow> (Some (Err MainPanic), fs, out, w)
      | Some path \<Rightarrow>
          (case opt_command opt of
             CmdAuth c \<Rightarrow>
               (case main_auth (ce_auth env) path (opt_instance opt) c fs of
                  (Err e, fs1) \<Rightarrow> (Some (Err (MainAuth e)), fs1, out, w)
                | (Ok ls, fs1) \<Rightarrow> (Some (Ok ()), fs1, out @ ls, w))
           | _ \<Rightarrow> connected_run env path opt (fs, out, w))))"

subsection \<open>What a run touches\<close>

text \<open>
  Without a server that the configuration and \<^verbatim>\<open>--instance\<close> name, no command but \<^verbatim>\<open>login-info\<close>
  reaches the network or changes anything.
\<close>

lemma unknown_server_untouched:
  assumes "opt_command opt \<noteq> CmdLoginInfo" "\<And>c. opt_command opt \<noteq> CmdAuth c"
    and "config_path env (opt_config opt) = Some path" "main_config (ce_auth env) fs path = Ok config"
    and "main_server config (opt_instance opt) = None"
  shows "\<exists>e. cli_main env opt (fs, out, w) = (Some (Err (MainConnect e)), fs, out, w)"
proof -
  have "main_connection (ce_auth env) config opt = command_connection config (opt_instance opt)"
    using assms(1) by (simp add: main_connection_def split: Command.split)
  moreover have "\<exists>e. command_connection config (opt_instance opt) = Err e"
    using assms(5) by (auto simp: command_connection_def split: option.split)
  moreover have "cli_main env opt (fs, out, w) = connected_run env path opt (fs, out, w)"
    using assms(2,3) by (simp add: cli_main_def split: Command.split)
  ultimately show ?thesis using assms(4) by (auto simp: connected_run_def)
qed

text \<open>
  The configuration is written by the authentication commands only, which touch nothing else.
  (The token caches of connections are part of the world.)
\<close>

lemma configuration_written_by_auth:
  assumes "cli_main env opt (fs, out, w) = (r, fs', out', w')"
  shows "(\<exists>c. opt_command opt = CmdAuth c) \<and> w' = w \<or> fs' = fs"
  using assms
  by (auto simp: cli_main_def connected_run_def split: option.splits Command.splits sum.splits prod.splits)

lemma init_configures:
  assumes "yaml_ok (ce_auth env)" "config_path env conf = Some path" "fs path = None"
    and "init_auth (ce_auth env) fs path name uri token token_file = Ok auth"
    and "cli_main env \<lparr>opt_config = conf, opt_instance = Some name,
      opt_command = CmdAuth (AuthInit uri token token_file)\<rparr> (fs, out, w) = (Some (Ok ()), fs1, out1, w1)"
  shows "w1 = w \<and> out1 = out \<and> main_config (ce_auth env) fs1 path =
    Ok (Some \<lparr>cfg_path = path, cfg_servers = [\<lparr>srv_name = name, srv_uri = uri, srv_auth = trim_whitespace auth\<rparr>]\<rparr>)"
proof -
  let ?cfg = "add_server \<lparr>srv_name = name, srv_uri = uri, srv_auth = auth\<rparr> (config_new path)"
  have "main_config (ce_auth env) fs path = Ok None"
    using assms(3) by (simp add: main_config_def config_from_file_def)
  then have run: "main_auth (ce_auth env) path (Some name) (AuthInit uri token token_file) fs =
      write_back (ce_auth env) ?cfg fs"
    using assms(4) by (simp add: main_auth_def run_auth_init_def config_new_def find_server_def)
  obtain ls where wb: "write_back (ce_auth env) ?cfg fs = (Ok ls, fs1)" and out: "out1 = out @ ls" "w1 = w"
    using assms(2,5) run by (auto simp: cli_main_def split: prod.splits sum.splits)
  from wb have "ls = []" by (auto simp: write_back_def split: prod.splits sum.splits)
  with write_back_ok [OF wb assms(1)] out show ?thesis
    by (simp add: config_new_def add_server_def trim_server_def)
qed

text \<open>
  C40. The first use, from an empty configuration to a volume: once \<^verbatim>\<open>auth init\<close> has succeeded, a
  run with or without the name of the instance connects to the server that was given, with the
  credentials that were given, and the commit of a volume registered there, by its name (usable
  as an argument and unique among the volumes), reaches that volume through client and server;
  the answer of the volume is the outcome of the run, and the configuration stays as it is.
\<close>

theorem first_use_reaches_volume:
  assumes "yaml_ok (ce_auth env)" "config_path env conf = Some path" "fs path = None"
    and "init_auth (ce_auth env) fs path name uri token token_file = Ok auth"
    and "cli_main env \<lparr>opt_config = conf, opt_instance = Some name,
      opt_command = CmdAuth (AuthInit uri token token_file)\<rparr> (fs, out, w0) = (Some (Ok ()), fs1, out1, w1)"
    and "\<And>sw. ce_connect env
      \<lparr>bb_uri = uri, bb_auth = Some (trim_whitespace auth), bb_login_provider = True\<rparr> sw =
        (Ok (server_grpc gone rcv watch), sw)"
    and "register_volume p v s = (i, s1)" "name_usable (properties_name p) (properties_instance p)"
    and "list_all (\<lambda>it. \<not> (pi_name it = properties_name p \<and> pi_instance it = properties_instance p))
      (item_list_for s ItemVolume)"
    and "inst = None \<or> inst = Some name"
  shows "w1 = w0 \<and> cli_main env \<lparr>opt_config = conf, opt_instance = inst,
      opt_command = CmdVolume (parse_volume (shown_name (properties_name p) (properties_instance p)))
        (VolumeOther VolumeCommit)\<rparr> (fs1, out1, s1, w) =
    (case vol_commit v w of (r, w2) \<Rightarrow>
       (Some (map_err (MainCommand \<circ> CliStatus \<circ> status_of_volume_error) r), fs1, out1, s1, w2))"
proof -
  note init = init_configures [OF assms(1-5)]
  let ?config = "Some \<lparr>cfg_path = path,
    cfg_servers = [\<lparr>srv_name = name, srv_uri = uri, srv_auth = trim_whitespace auth\<rparr>]\<rparr>"
  have "command_connection ?config inst =
      Ok \<lparr>bb_uri = uri, bb_auth = Some (trim_whitespace auth), bb_login_provider = True\<rparr>"
    using assms(10) by (auto simp: command_connection_def main_server_def default_server_def find_server_def
      to_boardswarm_builder_def builder_new_def)
  with init assms(2,6) volume_by_shown_name [OF assms(7-9), of gone rcv watch out1 w] show ?thesis
    by (auto simp: cli_main_def connected_run_def main_connection_def run_command_def run_volume_def
        io_cmd_def map_err_def split: prod.splits sum.splits)
qed

definition first_server :: "(nat, nat) Server" where
  "first_server = server_new [] ''/etc''"

definition first_env ::
  "(string, string, nat, unit, unit, unit, 8 word, (nat, nat) Server \<times> nat) cli_env" where
  "first_env =
     \<lparr>ce_auth = example_env, ce_config_dir = None,
      ce_connect = (\<lambda>b sw. (Ok (server_grpc (Status Unavailable ''gone'')
        \<lparr>rc_devices = [], rc_consoles = [], rc_actuators = [], rc_volumes = []\<rparr> []), sw)),
      ce_wait_for = (\<lambda>p. bail ''''), ce_open_io = (\<lambda>i t l sw. (Err (Status Unimplemented ''''), sw)),
      ce_writer = \<lparr>wr_write_all = (\<lambda>d sw. (Waiting, sw)), wr_flush = (\<lambda>sw. (Waiting, sw)),
        wr_seek = (\<lambda>p sw. (Waiting, sw)), wr_shutdown = (\<lambda>sw. (Waiting, sw))\<rparr>,
      ce_read_io = (\<lambda>off len sw. (Waiting, [], sw)), ce_can_create = (\<lambda>p. False),
      ce_store = (\<lambda>p d sw. sw),
      ce_sparse = \<lparr>file_header_len = 1, chunk_header_len = 1, parse_file_header = (\<lambda>b. None),
        header_chunks = (\<lambda>h. 0), parse_chunk_header = (\<lambda>b. None), chunk_type = (\<lambda>c. ChunkRaw),
        out_size = (\<lambda>c h. 0)\<rparr>,
      ce_from_xml = (\<lambda>b. None), ce_copy_bmap = (\<lambda>gz d m sw. (Waiting, sw)),
      ce_rock_file = \<lparr>rk_header = (\<lambda>b. None), rk_entry = (\<lambda>b. \<lparr>rke_name_ok = False, rke_name = '''',
        rke_data_size = 0, rke_data_offset = 0, rke_data_delay = 0\<rparr>)\<rparr>,
      ce_rock_send = (\<lambda>d v t b. bail ''''), ce_from_json = (\<lambda>s. None), ce_show_bytes = (\<lambda>b. ''''),
      ce_show_info = (\<lambda>i. ''''), ce_run_ui = (\<lambda>sz n i d c. bail '''')\<rparr>"

lemma first_use_reaches_volume_witness:
  "\<exists>fs1 s1 i. cli_main first_env \<lparr>opt_config = Some ''c.yaml'', opt_instance = Some ''lab'',
      opt_command = CmdAuth (AuthInit ''http://lab'' (Some ''t'') None)\<rparr> (Map.empty, [], first_server, 0) =
        (Some (Ok ()), fs1, [], first_server, 0) \<and>
    register_volume (properties_new ''boot'') null_volume first_server = (i, s1) \<and>
    cli_main first_env \<lparr>opt_config = Some ''c.yaml'', opt_instance = None,
      opt_command = CmdVolume (parse_volume ''boot'') (VolumeOther VolumeCommit)\<rparr> (fs1, [], s1, 42) =
    (case vol_commit null_volume 42 of (r, w2) \<Rightarrow>
       (Some (map_err (MainCommand \<circ> CliStatus \<circ> status_of_volume_error) r), fs1, [], s1, w2))"
proof -
  let ?p = "properties_new ''boot''"
  obtain i s1 where reg: "register_volume ?p null_volume first_server = (i, s1)" by force
  have name: "properties_name ?p = ''boot''" "properties_instance ?p = None"
    by (simp_all add: properties_name_def properties_instance_def)
  have usable: "name_usable (properties_name ?p) (properties_instance ?p)"
    by (simp add: name name_usable_def from_str_radix_def char_digit_def)
  have none: "list_all (\<lambda>it. \<not> (pi_name it = properties_name ?p \<and> pi_instance it = properties_instance ?p))
      (item_list_for first_server ItemVolume)"
    by (simp add: first_server_def item_list_for_def to_item_list_def server_new_def registry_new_def)
  have env: "ce_auth first_env = example_env" "config_path first_env (Some ''c.yaml'') = Some ''c.yaml''"
    by (simp_all add: first_env_def config_path_def)
  have auth: "init_auth example_env Map.empty ''c.yaml'' ''lab'' ''http://lab'' (Some ''t'') None = Ok (AuthToken ''t'')"
    by (simp add: init_auth_def)
  obtain fs1 where init: "cli_main first_env \<lparr>opt_config = Some ''c.yaml'', opt_instance = Some ''lab'',
      opt_command = CmdAuth (AuthInit ''http://lab'' (Some ''t'') None)\<rparr> (Map.empty, [], first_server, 0) =
        (Some (Ok ()), fs1, [], first_server, 0)"
    by (simp add: cli_main_def env main_auth_def main_config_def config_from_file_def run_auth_init_def
        find_server_def config_new_def auth write_back_def config_write_def add_server_def)
      (simp add: example_env_def)
  have connect: "ce_connect first_env b sw = (Ok (server_grpc (Status Unavailable ''gone'')
      \<lparr>rc_devices = [], rc_consoles = [], rc_actuators = [], rc_volumes = []\<rparr> []), sw)" for b sw
    by (simp add: first_env_def)
  from first_use_reaches_volume [where env = first_env and fs = Map.empty and inst = None,
      unfolded env(1), OF example_env_yaml env(2) _ auth init connect reg usable none, of 42] init reg
  show ?thesis by (auto simp: name shown_name_def)
qed

end
