(* ===== verification/Spec2Isabelle.thy ===== *)
theory Spec2Isabelle
  imports Registry Config Config_File Volume_Api Server Server_Main Provider_Config Config_Device Udev Fastboot Rockusb Rockusb_Task
    Mediatek_Brom Serial Hifive Gpio Pdudaemon Dfu Eswin Boardswarm_Provider Mirror Protocol Volume_Client
    Volume_Session Proxy_Session Volume_Read Batch_Writer Async_Io Client_Calls Client_Device Client_Config Oidc
    Cli_Image Cli_Auth Cli_Command Cli_Io Cli_Ui Flash_Path Console_Path Cli_Main
begin

text \<open>
  Boardswarm gives remote access to development boards. A server (\<^verbatim>\<open>boardswarm/src\<close>) finds the
  hardware attached to its host, registers devices, consoles, actuators and volumes, and offers
  them over gRPC; a client library (\<^verbatim>\<open>boardswarm-client/src\<close>) wraps the calls; a command line
  (\<^verbatim>\<open>boardswarm-cli/src\<close>) uses the library; a small crate (\<^verbatim>\<open>boardswarm-protocol/src\<close>) holds the
  messages. This development models the Rust code of all four, one theory for each part, and
  proves what makes each part correct. This theory only gathers them.

  \<^bold>\<open>How code is rendered.\<close> A struct is a record, an enum a datatype, an integer a word of its
  width (a count of bytes in memory a \<^verbatim>\<open>nat\<close>), \<^verbatim>\<open>Result\<close> the sum of Prelude (\<open>Err\<close>, \<open>Ok\<close>), a panic
  the outcome \<open>Panicked\<close>. A function that changes state returns the changed state; a trait
  object is a record of its methods over a world \<open>'w\<close>. An \<^verbatim>\<open>await\<close> that only waits for a library
  is a call; code whose interleaving matters is a step relation or a fold over a schedule of
  steps, each of which is what runs under one lock. Libraries (tonic, tokio's tty, udev, nusb,
  gpiod, serde and the protocol libraries of the boards) are parameters: a record of functions
  on the world, with the documented behaviour that a theorem needs as its hypothesis.

  \<^bold>\<open>The server.\<close>
  \<^item> Prelude: names of types, results, polls, statuses, ordered maps (the locale
    \<open>ordered_map\<close>) and logs that play back to a map (\<open>overwriting_log\<close>).
  \<^item> Registry (\<^verbatim>\<open>registry.rs\<close>): properties, items and the four registries. Identifiers are never
    reused, and the messages broadcast play back to the contents.
  \<^item> Config (\<^verbatim>\<open>config.rs\<close>): the configuration file, as the records serde fills; Config_File: what
    serde derives to read them from a document, through the record of the YAML library
    (\<open>reader\<close>), and that every configuration can be written so that it is read back.
  \<^item> Volume_Api (\<^verbatim>\<open>main.rs\<close>): errors and their statuses, \<^verbatim>\<open>VolumeTarget\<close>, the queue of replies and
    the request loop of a volume session. Replies come in the order of the requests whatever the
    order of completion, and end with the first error.
  \<^item> Server (\<^verbatim>\<open>main.rs\<close>): the server and all gRPC handlers. The stream of a monitor call
    converges to the registry although its snapshot and its events overlap; a stale identifier is
    never found again.
  \<^item> Server_Main (\<^verbatim>\<open>main.rs\<close>): from the configuration to a running server: the address, the
    devices, and exactly which providers are started. Provider_Config reads the parameters of the
    providers, and says when that stops the server.
  \<^item> Config_Device (\<^verbatim>\<open>config_device.rs\<close>): the devices of the configuration, their slots, which a
    task keeps by the registries, and \<^verbatim>\<open>set_mode\<close>, also under interleaving. A slot is exact after
    each turn of the task; what a lag makes it miss it keeps until a match is announced.
  \<^item> Udev (\<^verbatim>\<open>udev.rs\<close>): the registrations of hot-plugged devices as a state machine, the property
    chain and the interface string. The items in the server are those of the devices present, by
    the setup of their last announcement; none is unregistered twice.

  \<^bold>\<open>The providers.\<close> Tracked states what a provider that follows announcements must do
  (\<open>tracked_items\<close>) and that it then leaks nothing if no key is announced twice, or has exactly
  what is announced when it never fails to add (\<open>mirrored_items\<close>), with one item left behind for
  each key announced again; Provider_Common extends it for hot-plug events
  (\<open>hotplug\<close>) and holds the targets that collect a blob (\<open>staging\<close>).
  \<^item> Fastboot (\<^verbatim>\<open>fastboot.rs\<close>): buffering of writes, the sparse image that is announced and sent,
    and the threshold at which it is flashed. The bytes sent, read back as a sparse image, give
    every buffered byte its place.
  \<^item> Rockusb, Rockusb_Task (\<^verbatim>\<open>rockusb.rs\<close>), Mediatek_Brom (\<^verbatim>\<open>mediatek_brom.rs\<close>), Dfu (\<^verbatim>\<open>dfu.rs\<close>), Eswin
    (\<^verbatim>\<open>eswin_eic7700_storage.rs\<close>): boot ROMs, loaders and mass storage as volumes. What is
    written reaches the board whole and in order.
  \<^item> Serial (\<^verbatim>\<open>serial/mod.rs\<close>), Hifive (\<^verbatim>\<open>hifive_p550_mcu.rs\<close>): consoles, and a controller behind
    a serial line.
  \<^item> Gpio (\<^verbatim>\<open>gpio.rs\<close>), Pdudaemon (\<^verbatim>\<open>pdudaemon.rs\<close>): actuators.
  \<^item> Boardswarm_Provider (\<^verbatim>\<open>boardswarm_provider/\<close>): the items of another server, mirrored by the
    streams of one connection, and the proxies for them. Mirror joins it with the registry of
    the other server: the mirrored items are those of the registry after the changes streamed,
    also when the list and the changes overlap, which leaves the items told twice behind.

  \<^bold>\<open>The client.\<close>
  \<^item> Protocol (\<^verbatim>\<open>boardswarm-protocol\<close>): the parameters and values, in both directions of serde.
  \<^item> Client_Calls (\<^verbatim>\<open>client.rs\<close>): one definition per call over the generated client, and the
    generated client of the modelled server (\<open>server_grpc\<close>), which composes the two ends.
  \<^item> Volume_Client (\<^verbatim>\<open>client.rs\<close>): the requests of a volume session and \<^verbatim>\<open>VolumeIoRW\<close> as a poll machine;
    Volume_Session composes it with the handler of the server, and Proxy_Session puts a second
    server between, whose proxies call the first: the session is the same.
  \<^item> Client_Device (\<^verbatim>\<open>device.rs\<close>): the cached device, and waiting for it to change.
  \<^item> Client_Config (\<^verbatim>\<open>config.rs\<close>), Oidc (\<^verbatim>\<open>oidc.rs\<close>, \<^verbatim>\<open>authenticator.rs\<close>): the servers a client knows
    and the tokens it sends.

  \<^bold>\<open>The command line.\<close>
  \<^item> Batch_Writer (\<^verbatim>\<open>utils.rs\<close>): small writes collected into large ones over any \<open>byte_sink\<close>, which
    \<^verbatim>\<open>VolumeIoRW\<close> is shown to be; Async_Io: the awaited writes, seeks and copies over it, with the
    locales \<open>placing_writer\<close> (bytes land at their places) and \<open>finishing_writer\<close> (and it ends).
  \<^item> Volume_Read: copying a volume into a file over \<^verbatim>\<open>VolumeIoRW\<close>. The file holds exactly the part asked for.
  \<^item> Cli_Image, Cli_Auth, Cli_Command, Cli_Io (\<^verbatim>\<open>main.rs\<close>): writing images, the authentication
    commands and the choice of the server, the commands of items and devices, and those that
    move data. Cli_Main: a whole run, from the options through the connection to the command,
    and the first use of a fresh configuration.
  \<^item> Flash_Path: the write and the read command, the client, the session, the server and the loader
    target of Rockusb composed. A file written to a flash and read back is the same file.
  \<^item> Console_Path: the console command, the client, the server and the serial port composed, and
    another server between. What is typed reaches the tty, as far as it was sent when the
    connection ended, and what the tty sends is printed.
  \<^item> Cli_Ui (\<^verbatim>\<open>ui.rs\<close>, \<^verbatim>\<open>ui_term.rs\<close>): the input, the writer and the cells drawn.

  \<^bold>\<open>Bounds.\<close> Recursions that are not structural have a measure: the bytes left to write
  (Fastboot, Batch_Writer), the number printed (Udev), the name left (Cli_Image). The flush
  of a batch writer runs for as many rounds as bytes are buffered, each of which sends at least
  one. The waits of the code that may never end are the end of a schedule: a target that never
  completes, a poll that stays pending (\<open>Waiting\<close>), a sleeping waiter; the theorems that a
  result is reached say under which behaviour of the environment it is. The mount of the Eswin
  provider is polled over the polls that fit into its timeout.

  \<^bold>\<open>Not modelled.\<close>
  \<^item> The encoding of messages, YAML and JSON (prost, serde), HTTP, TLS and the authentication
    layer that checks tokens on the server (tonic, axum): libraries; where the code uses their
    result it is a parameter.
  \<^item> The copy by a bmap (bmap_parser), terminal emulation and drawing (vt100, ratatui), raw mode of
    the terminal, progress bars, logging, and the definitions of the arguments (clap).
  \<^item> Memory and time: allocation failures, and the duration of a wait where only its end matters.
  \<^item> The web site.
\<close>

end
